(* ===== verification/Phl_Prelude.thy ===== *)
theory Phl_Prelude
  imports Main "HOL-Library.Word" "HOL-Library.Multiset"
begin

unbundle bit_operations_syntax

section \<open>Prelude: types, status codes, shared lemmas\<close>

text \<open>
  What every component shares: the integer types of \<^verbatim>\<open>phl_types.h\<close> as words, the status
  codes of \<^verbatim>\<open>phl_status.h\<close>, the collections the component proofs feed to the simplifier,
  and generic facts on words, lists and optional slots.
\<close>

named_theorems phl_defs \<open>definitions of the model that component proofs unfold\<close>
named_theorems phl_simps \<open>conditional rewrite rules of the components\<close>
named_theorems phl_inv \<open>invariant preservation, as introduction rules\<close>

type_synonym u8 = "8 word"
type_synonym u16 = "16 word"
type_synonym u32 = "32 word"
type_synonym u64 = "64 word"

text \<open>\<^verbatim>\<open>enum rtw_phl_status\<close>, in the order of \<^verbatim>\<open>phl_status.h\<close>.\<close>

datatype rtw_phl_status =
    RTW_PHL_STATUS_SUCCESS
  | RTW_PHL_STATUS_FAILURE
  | RTW_PHL_STATUS_RESOURCE
  | RTW_PHL_STATUS_HAL_INIT_FAILURE
  | RTW_PHL_STATUS_PENDING
  | RTW_PHL_STATUS_FRAME_DROP
  | RTW_PHL_STATUS_INVALID_PARAM
  | RTW_PHL_STATUS_CMD_TIMEOUT
  | RTW_PHL_STATUS_CMD_ERROR
  | RTW_PHL_STATUS_CMD_DROP
  | RTW_PHL_STATUS_CMD_CANNOT_IO
  | RTW_PHL_STATUS_CMD_SUCCESS
  | RTW_PHL_STATUS_UNEXPECTED_ERROR
  | RTW_PHL_STATUS_CANNOT_IO
  | RTW_PHL_STATUS_SH_TASK

text \<open>The numeric value of a status, for the callers that return it in an integer.\<close>

fun status_code :: "rtw_phl_status \<Rightarrow> nat" where
  "status_code RTW_PHL_STATUS_SUCCESS = 0"
| "status_code RTW_PHL_STATUS_FAILURE = 1"
| "status_code RTW_PHL_STATUS_RESOURCE = 2"
| "status_code RTW_PHL_STATUS_HAL_INIT_FAILURE = 3"
| "status_code RTW_PHL_STATUS_PENDING = 4"
| "status_code RTW_PHL_STATUS_FRAME_DROP = 5"
| "status_code RTW_PHL_STATUS_INVALID_PARAM = 6"
| "status_code RTW_PHL_STATUS_CMD_TIMEOUT = 7"
| "status_code RTW_PHL_STATUS_CMD_ERROR = 8"
| "status_code RTW_PHL_STATUS_CMD_DROP = 9"
| "status_code RTW_PHL_STATUS_CMD_CANNOT_IO = 10"
| "status_code RTW_PHL_STATUS_CMD_SUCCESS = 11"
| "status_code RTW_PHL_STATUS_UNEXPECTED_ERROR = 12"
| "status_code RTW_PHL_STATUS_CANNOT_IO = 13"
| "status_code RTW_PHL_STATUS_SH_TASK = 14"

subsection \<open>Words\<close>

lemma unat_and_mask12 [simp]: "unat ((x::u16) AND 0xFFF) = unat x mod 4096"
proof -
  have "x AND 0xFFF = take_bit 12 x"
    by (simp add: take_bit_eq_mask mask_eq_exp_minus_1)
  then show ?thesis
    by (simp add: take_bit_eq_mod unat_mod_distrib)
qed

lemma unat_u16_less [simp]: "unat (x::u16) < 65536"
  using unsigned_less [where ?'a = nat, of x] by simp

lemma unat_u32_less [simp]: "unat (x::u32) < 4294967296"
  using unsigned_less [where ?'a = nat, of x] by simp

lemma unat_of_nat_u16: "n < 65536 \<Longrightarrow> unat (of_nat n :: u16) = n"
  by (simp add: unsigned_of_nat take_bit_nat_eq_self)

lemma unat_add_u16: "unat ((a::u16) + b) = (unat a + unat b) mod 65536"
  by (simp add: unat_word_ariths)

lemma unat_sub_u16: "unat ((a::u16) - b) = (unat a + (65536 - unat b)) mod 65536"
proof (cases "unat b \<le> unat a")
  case True
  have "unat a + (65536 - unat b) = (unat a - unat b) + 65536"
    using True by (simp add: less_imp_le)
  moreover have "unat (a - b) = unat a - unat b"
    using True by (simp add: unat_sub word_le_nat_alt)
  moreover have "unat a - unat b < 65536"
    using unat_u16_less [of a] by linarith
  ultimately show ?thesis
    by simp
next
  case False
  have "unat (a - b) = unat a + 65536 - unat b"
    using False by (simp add: unat_sub_if')
  moreover have "unat a + 65536 - unat b = unat a + (65536 - unat b)"
    using unat_u16_less [of b] by linarith
  moreover have "unat a + (65536 - unat b) < 65536"
    using False unat_u16_less [of b] by linarith
  ultimately show ?thesis
    by simp
qed

lemma u16_eq_iff: "(a::u16) = b \<longleftrightarrow> unat a = unat b"
  by (simp add: word_unat_eq_iff)

subsection \<open>Lists and optional slots\<close>

text \<open>The occupied slots of an array of pointers, in index order.\<close>

definition slots :: "'a option list \<Rightarrow> 'a list" where
  "slots xs = List.map_filter id xs"

lemma slots_Nil [simp]: "slots [] = []"
  by (simp add: slots_def)

lemma slots_Cons [simp]:
  "slots (x # xs) = (case x of None \<Rightarrow> slots xs | Some a \<Rightarrow> a # slots xs)"
  by (simp add: slots_def split: option.split)

lemma slots_append [simp]: "slots (xs @ ys) = slots xs @ slots ys"
  by (induction xs) (auto split: option.split)

lemma slots_replicate_None [simp]: "slots (replicate n None) = []"
  by (induction n) auto

lemma set_slots: "set (slots xs) = {a. Some a \<in> set xs}"
  by (induction xs) (auto split: option.split)

lemma slots_split:
  "i < length xs \<Longrightarrow> slots xs = slots (take i xs) @ slots [xs ! i] @ slots (drop (Suc i) xs)"
  by (metis append_Cons append_Nil id_take_nth_drop slots_append)

lemma slots_update:
  "i < length xs \<Longrightarrow> slots (xs[i := y]) = slots (take i xs) @ slots [y] @ slots (drop (Suc i) xs)"
  by (metis append_Cons append_Nil slots_append upd_conv_take_nth_drop)

lemma mset_slots_clear:
  assumes "i < length xs" and "xs ! i = Some a"
  shows "mset (slots xs) = add_mset a (mset (slots (xs[i := None])))"
  using assms slots_split [of i xs] slots_update [of i xs None] by simp

lemma mset_slots_fill:
  assumes "i < length xs" and "xs ! i = None"
  shows "mset (slots (xs[i := Some a])) = add_mset a (mset (slots xs))"
  using assms slots_split [of i xs] slots_update [of i xs "Some a"] by simp

lemma length_slots_clear:
  assumes "i < length xs" and "xs ! i = Some a"
  shows "length (slots xs) = Suc (length (slots (xs[i := None])))"
  using assms slots_split [of i xs] slots_update [of i xs None] by simp

lemma length_slots_fill:
  assumes "i < length xs" and "xs ! i = None"
  shows "length (slots (xs[i := Some a])) = Suc (length (slots xs))"
  using assms slots_split [of i xs] slots_update [of i xs "Some a"] by simp

lemma length_slots_le: "length (slots xs) \<le> length xs"
  by (induction xs) (auto split: option.split)

lemma slots_empty_iff: "slots xs = [] \<longleftrightarrow> (\<forall>i < length xs. xs ! i = None)"
  by (induction xs) (auto simp: nth_Cons split: option.split nat.split)

text \<open>Removing the first occurrence of a node keeps the others in order.\<close>

lemma remove1_append_notin: "x \<notin> set xs \<Longrightarrow> remove1 x (xs @ x # ys) = xs @ ys"
  by (induction xs) auto

lemma find_split:
  "List.find P xs = Some x \<Longrightarrow> \<exists>ys zs. xs = ys @ x # zs \<and> P x \<and> (\<forall>y \<in> set ys. \<not> P y)"
proof (induction xs)
  case (Cons a xs)
  show ?case
  proof (cases "P a")
    case True
    then have "x = a" "a # xs = [] @ a # xs" using Cons.prems by simp_all
    then show ?thesis using True by force
  next
    case False
    then obtain ys zs where "xs = ys @ x # zs" "P x" "\<forall>y \<in> set ys. \<not> P y"
      using Cons by auto
    then show ?thesis using False by (intro exI [of _ "a # ys"] exI [of _ zs]) simp
  qed
qed simp

lemma find_in_set: "List.find P xs = Some x \<Longrightarrow> x \<in> set xs \<and> P x"
  by (auto simp: find_Some_iff)

lemma unat_u8_less: "unat (i::u8) < 256"
  using unsigned_less [of i] by simp

end
