(* ===== verification/Phl_Reorder.thy ===== *)
theory Phl_Reorder
  imports Phl_Prelude
begin

section \<open>The receive reordering buffer (phl/phl_rx.c)\<close>

text \<open>
  \<^verbatim>\<open>struct phl_tid_ampdu_rx\<close> and the operations of \<^verbatim>\<open>phl_rx.c\<close> on it: releasing a slot,
  releasing what is ready or timed out, moving the window forward, and accepting an MPDU.
  The array of packet pointers is a list of optional packets, the list \<^verbatim>\<open>frames\<close> that the C code
  appends to is threaded through, and \<^verbatim>\<open>_os_get_cur_time_ms\<close> is the argument \<open>now\<close>.
  \<^verbatim>\<open>_os_set_timer\<close> is the boolean result \<open>armed\<close>.
  The lemmas below the definitions relate the window to unbounded sequence numbers: \<open>H\<close> is the
  head with its wrap-arounds counted, so that order is the order of the natural numbers.
\<close>

subsection \<open>Packets\<close>

text \<open>The fields of \<^verbatim>\<open>struct rtw_r_meta_data\<close> that the receive path reads or writes.\<close>

record rtw_r_meta_data =
  rx_deferred_release :: bool
  pktlen :: u16
  rx_rate :: u16
  amsdu_cut :: bool
  last_msdu :: bool
  frame_type :: u8
  mc :: bool
  bc :: bool
  more_frag :: bool
  pwr_bit :: bool
  qos :: bool
  tid :: u8
  q_null :: bool
  seq :: u16
  frag_num :: u8
  addr_cam_vld :: bool
  macid :: u16

text \<open>
  \<^verbatim>\<open>struct rtw_phl_rx_pkt\<close> with its address \<open>pkt_id\<close>; \<open>len0\<close> is \<^verbatim>\<open>r.pkt_list[0].length\<close> and
  \<open>tx_sta\<close> the station the frame was attributed to.
\<close>

record rtw_phl_rx_pkt =
  pkt_id :: nat
  mdata :: rtw_r_meta_data
  len0 :: u16
  tx_sta :: "nat option"

record phl_tid_ampdu_rx =
  reorder_buf :: "rtw_phl_rx_pkt option list"
  reorder_time :: "u32 list"
  head_seq_num :: u16
  stored_mpdu_num :: u16
  ssn :: u16
  buf_size :: u16
  r_tid :: u16
  started :: bool
  removed :: bool
  sleep :: bool

subsection \<open>Sequence numbers\<close>

definition seq_less :: "u16 \<Rightarrow> u16 \<Rightarrow> bool" where
  "seq_less sq1 sq2 \<longleftrightarrow> (sq1 - sq2) AND 0xFFF > 0x800"

definition seq_inc :: "u16 \<Rightarrow> u16" where
  "seq_inc sq = (sq + 1) AND 0xFFF"

definition seq_sub :: "u16 \<Rightarrow> u16 \<Rightarrow> u16" where
  "seq_sub sq1 sq2 = (sq1 - sq2) AND 0xFFF"

definition reorder_index :: "phl_tid_ampdu_rx \<Rightarrow> u16 \<Rightarrow> nat" where
  "reorder_index r s = unat s mod unat (buf_size r)"

text \<open>
  A slot of the buffer. Every index the code computes is a remainder by \<open>buf_size\<close>, the length
  of the array (\<open>reorder_wf\<close> below), so the read is always in range.
\<close>

definition rslot :: "phl_tid_ampdu_rx \<Rightarrow> nat \<Rightarrow> rtw_phl_rx_pkt option" where
  "rslot r i = (if i < length (reorder_buf r) then reorder_buf r ! i else None)"

subsection \<open>Releasing\<close>

definition deferred :: "rtw_phl_rx_pkt \<Rightarrow> rtw_phl_rx_pkt" where
  "deferred p = p\<lparr>mdata := (mdata p)\<lparr>rx_deferred_release := True\<rparr>\<rparr>"

definition phl_release_reorder_frame ::
  "phl_tid_ampdu_rx \<Rightarrow> nat \<Rightarrow> rtw_phl_rx_pkt list \<Rightarrow> phl_tid_ampdu_rx \<times> rtw_phl_rx_pkt list" where
  "phl_release_reorder_frame r index frames =
     (case rslot r index of
        None \<Rightarrow> (r\<lparr>head_seq_num := seq_inc (head_seq_num r)\<rparr>, frames)
      | Some pkt \<Rightarrow>
          (r\<lparr>stored_mpdu_num := stored_mpdu_num r - 1,
             reorder_buf := (reorder_buf r)[index := None],
             head_seq_num := seq_inc (head_seq_num r)\<rparr>,
           frames @ [deferred pkt]))"

text \<open>The \<^verbatim>\<open>while (r->reorder_buf[index])\<close> loop of \<^verbatim>\<open>phl_reorder_release\<close>.\<close>

function release_ready ::
  "phl_tid_ampdu_rx \<Rightarrow> rtw_phl_rx_pkt list \<Rightarrow> phl_tid_ampdu_rx \<times> rtw_phl_rx_pkt list" where
  "release_ready r frames =
     (let index = reorder_index r (head_seq_num r) in
      if rslot r index = None then (r, frames)
      else case phl_release_reorder_frame r index frames of (r1, frames1) \<Rightarrow>
             release_ready r1 frames1)"
  by pat_completeness auto

text \<open>
  The timeout loop of \<^verbatim>\<open>phl_reorder_release\<close> over the slots \<open>js\<close> still to visit. The boolean
  says whether it left by \<^verbatim>\<open>goto set_release_timer\<close>.
\<close>

definition not_timed_out :: "phl_tid_ampdu_rx \<Rightarrow> nat \<Rightarrow> u32 \<Rightarrow> bool" where
  "not_timed_out r j cur_time \<longleftrightarrow> sint (reorder_time r ! j + 500 - cur_time) > 0"

fun release_timeout ::
  "u32 \<Rightarrow> nat list \<Rightarrow> nat \<Rightarrow> phl_tid_ampdu_rx \<Rightarrow> rtw_phl_rx_pkt list
     \<Rightarrow> bool \<times> phl_tid_ampdu_rx \<times> rtw_phl_rx_pkt list" where
  "release_timeout cur_time [] skipped r frames = (False, r, frames)"
| "release_timeout cur_time (j # js) skipped r frames =
     (if rslot r j = None then release_timeout cur_time js (skipped + 1) r frames
      else if skipped \<noteq> 0 \<and> not_timed_out r j cur_time then (True, r, frames)
      else case phl_release_reorder_frame r j frames of (r1, frames1) \<Rightarrow>
             release_timeout cur_time js 0
               (r1\<lparr>head_seq_num := (head_seq_num r1 + of_nat skipped) AND 0xFFF\<rparr>) frames1)"

text \<open>The slots the timeout loop visits: all but \<open>index\<close>, round the ring from its successor.\<close>

definition ring_from :: "nat \<Rightarrow> nat \<Rightarrow> nat list" where
  "ring_from n index = map (\<lambda>d. (index + d) mod n) [1..<n]"

definition phl_reorder_release ::
  "u32 \<Rightarrow> phl_tid_ampdu_rx \<Rightarrow> rtw_phl_rx_pkt list
     \<Rightarrow> phl_tid_ampdu_rx \<times> rtw_phl_rx_pkt list \<times> bool" where
  "phl_reorder_release now r frames =
     (let index = reorder_index r (head_seq_num r) in
      case (if rslot r index = None \<and> stored_mpdu_num r \<noteq> 0
            then release_timeout now (ring_from (unat (buf_size r)) index) 1 r frames
            else case release_ready r frames of (r1, frames1) \<Rightarrow> (False, r1, frames1))
      of (goto_timer, r1, frames1) \<Rightarrow>
        (r1, frames1, (goto_timer \<or> stored_mpdu_num r1 \<noteq> 0) \<and> \<not> removed r1))"

text \<open>The loop of \<^verbatim>\<open>phl_release_reorder_frames\<close>: release up to a new head.\<close>

function release_upto ::
  "phl_tid_ampdu_rx \<Rightarrow> u16 \<Rightarrow> rtw_phl_rx_pkt list \<Rightarrow> phl_tid_ampdu_rx \<times> rtw_phl_rx_pkt list" where
  "release_upto r new_head frames =
     (if seq_less (head_seq_num r) new_head \<and> stored_mpdu_num r \<noteq> 0
      then case phl_release_reorder_frame r (reorder_index r (head_seq_num r)) frames of
             (r1, frames1) \<Rightarrow> release_upto r1 new_head frames1
      else (r, frames))"
  by pat_completeness auto

lemma head_seq_num_release [simp]:
  "head_seq_num (fst (phl_release_reorder_frame r i frames)) = seq_inc (head_seq_num r)"
  by (simp add: phl_release_reorder_frame_def split: option.split)

text \<open>Differences of sequence numbers, as integers modulo 4096.\<close>

lemma uint_and_mask12: "uint ((x::u16) AND 0xFFF) = uint x mod 4096"
  by (metis unat_and_mask12 uint_nat zmod_int of_nat_numeral)

lemma seq_diff: "uint ((a - b :: u16) AND 0xFFF) = (uint a - uint b) mod 4096"
  by (simp add: uint_and_mask12 uint_word_ariths mod_mod_cancel)

lemma uint_seq_inc: "uint (seq_inc s) = (uint s + 1) mod 4096"
  by (simp add: seq_inc_def uint_and_mask12 uint_word_ariths mod_mod_cancel)

lemma seq_inc_unat: "unat (seq_inc s) = Suc (unat s) mod 4096"
  by (simp add: seq_inc_def unat_add_u16 mod_mod_cancel)

lemma mod_pred: "0 < (x::int) mod m \<Longrightarrow> 0 < m \<Longrightarrow> (x - 1) mod m = x mod m - 1"
proof -
  assume *: "0 < x mod m" "0 < m"
  moreover have "x mod m < m"
    using * by simp
  ultimately have "(x mod m - 1) mod m = x mod m - 1"
    by (intro mod_pos_pos_trivial) linarith+
  then show ?thesis
    by (simp add: mod_diff_left_eq)
qed

lemma mod_uminus_pos: "0 < (x::int) mod m \<Longrightarrow> 0 < m \<Longrightarrow> (- x) mod m = m - x mod m"
  by (simp add: zmod_zminus1_eq_if)

lemma seq_less_iff: "seq_less a b \<longleftrightarrow> (uint a - uint b) mod 4096 > 2048"
  by (simp add: seq_less_def word_less_def seq_diff)

lemma seq_less_inc:
  assumes "seq_less h new"
  shows "(new - seq_inc h) AND 0xFFF < (new - h) AND 0xFFF"
proof -
  let ?d = "uint new - uint h"
  have "0 < (- ?d) mod 4096"
    using assms by (simp add: seq_less_iff)
  moreover have "(- ?d) mod 4096 < 4096"
    by (rule pos_mod_bound) simp
  ultimately have pos: "0 < ?d mod 4096"
    using mod_uminus_pos [of "- ?d" 4096] unfolding minus_minus by linarith
  have "uint ((new - seq_inc h) AND 0xFFF) = (?d - 1) mod 4096"
    by (simp add: seq_diff uint_seq_inc mod_diff_right_eq algebra_simps)
  also have "\<dots> = ?d mod 4096 - 1"
    using pos by (simp add: mod_pred)
  also have "\<dots> < uint ((new - h) AND 0xFFF)"
    by (simp add: seq_diff)
  finally show ?thesis by (simp add: word_less_def)
qed

termination release_upto
proof (relation "measure (\<lambda>(r, new_head, frames). unat ((new_head - head_seq_num r) AND 0xFFF))")
  fix r new_head frames r1 frames1
  assume loop: "seq_less (head_seq_num r) new_head \<and> stored_mpdu_num r \<noteq> 0"
    and r1: "(r1, frames1) = phl_release_reorder_frame r (reorder_index r (head_seq_num r)) frames"
  have "head_seq_num r1 = seq_inc (head_seq_num r)"
    using arg_cong [OF r1, of "\<lambda>x. head_seq_num (fst x)"] by simp
  then show "((r1, new_head, frames1), r, new_head, frames) \<in>
      measure (\<lambda>(r, new_head, frames). unat ((new_head - head_seq_num r) AND 0xFFF))"
    using seq_less_inc loop by (simp add: word_less_nat_alt del: unat_and_mask12)
qed simp

lemma buf_release_shrinks:
  assumes "rslot r i \<noteq> None"
  shows "length (slots (reorder_buf (fst (phl_release_reorder_frame r i frames)))) <
         length (slots (reorder_buf r))"
  using assms length_slots_clear [of i "reorder_buf r"]
  by (auto simp: phl_release_reorder_frame_def rslot_def split: if_splits)

termination release_ready
  by (relation "measure (\<lambda>(r, frames). length (slots (reorder_buf r)))", simp)
    (metis buf_release_shrinks case_prod_conv fst_conv in_measure)

declare release_ready.simps [simp del] release_upto.simps [simp del]

definition phl_release_reorder_frames ::
  "phl_tid_ampdu_rx \<Rightarrow> u16 \<Rightarrow> rtw_phl_rx_pkt list \<Rightarrow> phl_tid_ampdu_rx \<times> rtw_phl_rx_pkt list" where
  "phl_release_reorder_frames r new_head frames =
     (case release_upto r new_head frames of (r1, frames1) \<Rightarrow>
        (r1\<lparr>head_seq_num := new_head\<rparr>, frames1))"

subsection \<open>Accepting an MPDU\<close>

text \<open>
  The result of \<^verbatim>\<open>phl_manage_sta_reorder_buf\<close>: its return value (false: the caller delivers the
  packet itself), the buffer, the frames released, the packets handed to \<^verbatim>\<open>recycle_rx_pkt\<close> and
  whether the timer was set. \<open>t_store\<close> and \<open>t_rel\<close> are the two readings of the clock.
\<close>

record manage_result =
  mg_ret :: bool
  mg_r :: phl_tid_ampdu_rx
  mg_frames :: "rtw_phl_rx_pkt list"
  mg_recycled :: "rtw_phl_rx_pkt list"
  mg_armed :: bool

definition phl_manage_sta_reorder_buf ::
  "u32 \<Rightarrow> u32 \<Rightarrow> rtw_phl_rx_pkt \<Rightarrow> phl_tid_ampdu_rx \<Rightarrow> rtw_phl_rx_pkt list \<Rightarrow> manage_result" where
  "phl_manage_sta_reorder_buf t_store t_rel pkt r frames =
     (let s = seq (mdata pkt) in
      if \<not> started r \<and> seq_less s (head_seq_num r)
      then \<lparr>mg_ret = False, mg_r = r, mg_frames = frames, mg_recycled = [], mg_armed = False\<rparr>
      else
        let r0 = r\<lparr>started := True\<rparr>;
            r1 = (if sleep r0 then r0\<lparr>head_seq_num := s, sleep := False\<rparr> else r0)
        in if seq_less s (head_seq_num r1)
           then \<lparr>mg_ret = True, mg_r = r1, mg_frames = frames, mg_recycled = [pkt], mg_armed = False\<rparr>
           else
             (case (if \<not> seq_less s (head_seq_num r1 + buf_size r1)
                    then phl_release_reorder_frames r1 (seq_inc (seq_sub s (buf_size r1))) frames
                    else (r1, frames))
              of (r2, frames2) \<Rightarrow>
                let index = reorder_index r2 s
                in if rslot r2 index \<noteq> None
                   then \<lparr>mg_ret = True, mg_r = r2, mg_frames = frames2, mg_recycled = [pkt],
                          mg_armed = False\<rparr>
                   else if s = head_seq_num r2 \<and> stored_mpdu_num r2 = 0
                   then \<lparr>mg_ret = False, mg_r = r2\<lparr>head_seq_num := seq_inc (head_seq_num r2)\<rparr>,
                          mg_frames = frames2, mg_recycled = [], mg_armed = False\<rparr>
                   else
                     let r3 = r2\<lparr>reorder_buf := (reorder_buf r2)[index := Some pkt],
                                 reorder_time := (reorder_time r2)[index := t_store],
                                 stored_mpdu_num := stored_mpdu_num r2 + 1\<rparr>
                     in (case phl_reorder_release t_rel r3 frames2 of (r4, frames4, armed) \<Rightarrow>
                           \<lparr>mg_ret = True, mg_r = r4, mg_frames = frames4, mg_recycled = [],
                            mg_armed = armed\<rparr>)))"

subsection \<open>Well-formed buffers and the window\<close>

definition reorder_wf :: "phl_tid_ampdu_rx \<Rightarrow> bool" where
  "reorder_wf r \<longleftrightarrow>
     0 < unat (buf_size r) \<and>
     length (reorder_buf r) = unat (buf_size r) \<and> length (reorder_time r) = unat (buf_size r) \<and>
     unat (stored_mpdu_num r) = length (slots (reorder_buf r)) \<and>
     unat (head_seq_num r) < 4096"

text \<open>
  The window: the slot at offset \<open>k\<close> from the head holds nothing or the frame whose sequence
  number is the head plus \<open>k\<close>.
\<close>

definition window :: "nat \<Rightarrow> nat \<Rightarrow> rtw_phl_rx_pkt option list \<Rightarrow> bool" where
  "window n H buf \<longleftrightarrow>
     (\<forall>k<n. case buf ! ((H + k) mod n) of
              None \<Rightarrow> True
            | Some p \<Rightarrow> unat (seq (mdata p)) = (H + k) mod 4096)"

text \<open>
  The reorder invariant at unbounded head \<open>H\<close>. The window size divides 4096: otherwise the slot
  of a sequence number changes when the numbers wrap (\<open>reorder_wrap_collision\<close> below).
\<close>

definition rinv :: "nat \<Rightarrow> phl_tid_ampdu_rx \<Rightarrow> bool" where
  "rinv H r \<longleftrightarrow>
     reorder_wf r \<and> 1 < unat (buf_size r) \<and> unat (buf_size r) < 2048 \<and>
     unat (buf_size r) dvd 4096 \<and>
     unat (head_seq_num r) = H mod 4096 \<and> window (unat (buf_size r)) H (reorder_buf r)"

definition reorder_inv :: "phl_tid_ampdu_rx \<Rightarrow> bool" where
  "reorder_inv r \<longleftrightarrow> rinv (unat (head_seq_num r)) r"

text \<open>
  \<open>sn_next H s\<close> is the first unbounded number from \<open>H\<close> on that stands for \<open>s\<close>, and
  \<open>in_seq H ps H'\<close> says that the packets, in order, carry increasing unbounded sequence numbers,
  each at least \<open>H\<close> and below \<open>H'\<close>.
\<close>

definition sn_next :: "nat \<Rightarrow> nat \<Rightarrow> nat" where
  "sn_next H s = H + (s + 4096 - H mod 4096) mod 4096"

fun in_seq :: "nat \<Rightarrow> rtw_phl_rx_pkt list \<Rightarrow> nat \<Rightarrow> bool" where
  "in_seq H [] H' \<longleftrightarrow> H \<le> H'"
| "in_seq H (p # ps) H' \<longleftrightarrow>
     unat (seq (mdata p)) < 4096 \<and> in_seq (Suc (sn_next H (unat (seq (mdata p))))) ps H'"

subsection \<open>Unbounded sequence numbers\<close>

lemma sn_next_ge: "H \<le> sn_next H s"
  by (simp add: sn_next_def)

lemma sn_next_add: "sn_next H ((H + d) mod 4096) = H + d mod 4096"
proof -
  define a e where "a = H mod 4096" and "e = d mod 4096"
  have lt: "a < 4096" "e < 4096"
    by (simp_all add: a_def e_def)
  have "(H + d) mod 4096 = (a + e) mod 4096"
    by (simp add: a_def e_def mod_add_eq)
  also have "\<dots> = (if a + e < 4096 then a + e else a + e - 4096)"
    using lt by (simp add: mod_if)
  finally have "((H + d) mod 4096 + 4096 - a) mod 4096 = e"
    using lt by (cases "a + e < 4096") (simp_all add: mod_if)
  then show ?thesis
    by (simp add: sn_next_def a_def e_def)
qed

lemma sn_next_le: "H \<le> v \<Longrightarrow> sn_next H (v mod 4096) \<le> v"
  using sn_next_add [of H "v - H"] mod_less_eq_dividend [of "v - H" 4096] by simp

lemma sn_next_mod: "s < 4096 \<Longrightarrow> sn_next H s mod 4096 = s"
proof -
  assume s: "s < 4096"
  define a where "a = H mod 4096"
  have a: "a < 4096" by (simp add: a_def)
  have "sn_next H s mod 4096 = (a + (s + 4096 - a)) mod 4096"
    unfolding sn_next_def a_def by (metis mod_add_eq mod_mod_trivial)
  then show ?thesis
    using s a by simp
qed

lemma sn_next_mono: "s < 4096 \<Longrightarrow> H \<le> H1 \<Longrightarrow> sn_next H s \<le> sn_next H1 s"
  using sn_next_le [of H "sn_next H1 s"] sn_next_ge [of H1 s] by (simp add: sn_next_mod)

lemma in_seq_weaken: "in_seq H ps H1 \<Longrightarrow> H0 \<le> H \<Longrightarrow> H1 \<le> H2 \<Longrightarrow> in_seq H0 ps H2"
proof (induction ps arbitrary: H H0)
  case (Cons p ps)
  then show ?case
    using sn_next_mono [of "unat (seq (mdata p))" H0 H] by (metis Suc_le_mono in_seq.simps(2))
qed simp

lemma in_seq_le: "in_seq H ps H1 \<Longrightarrow> H \<le> H1"
proof (induction ps arbitrary: H)
  case (Cons p ps)
  then have "Suc (sn_next H (unat (seq (mdata p)))) \<le> H1"
    by simp
  then show ?case
    using sn_next_ge [of H "unat (seq (mdata p))"] by linarith
qed simp

lemma in_seq_append: "in_seq H ps H1 \<Longrightarrow> in_seq H1 qs H2 \<Longrightarrow> in_seq H (ps @ qs) H2"
proof (induction ps arbitrary: H)
  case Nil
  then show ?case by (auto intro: in_seq_weaken)
qed simp

lemma in_seq_single:
  "unat (seq (mdata p)) = (H + k) mod 4096 \<Longrightarrow> H + k < H1 \<Longrightarrow> in_seq H [p] H1"
  using sn_next_le [of H "H + k"] by simp

lemma seq_deferred [simp]: "seq (mdata (deferred p)) = seq (mdata p)"
  "pkt_id (deferred p) = pkt_id p"
  by (simp_all add: deferred_def)

subsection \<open>The window under release\<close>

lemma window_D: "window n H buf \<Longrightarrow> k < n \<Longrightarrow> buf ! ((H + k) mod n) = Some p \<Longrightarrow>
    unat (seq (mdata p)) = (H + k) mod 4096"
  by (auto simp: window_def dest: spec [of _ k] split: option.splits)

lemma windowI:
  "(\<And>k p. k < n \<Longrightarrow> buf ! ((H + k) mod n) = Some p \<Longrightarrow> unat (seq (mdata p)) = (H + k) mod 4096) \<Longrightarrow>
   window n H buf"
  by (auto simp: window_def split: option.split)

lemma slot_inj:
  fixes H j k n :: nat
  assumes "(H + j) mod n = (H + k) mod n" and "j < n" and "k < n"
  shows "j = k"
proof -
  have "a = b" if "(H + a) mod n = (H + b) mod n" "a < n" "b < n" "a \<le> b" for a b
    using that mod_eq_dvd_iff_nat [of "H + a" "H + b" n] by (auto dest!: dvd_imp_le)
  then show ?thesis
    using assms by (metis nat_le_linear)
qed

text \<open>
  Moving the head past an emptied slot: the \<open>k\<close> slots before it are already empty.
\<close>

lemma window_release:
  assumes w: "window n H buf" and len: "length buf = n" and k: "k < n"
    and gap: "\<And>i. i < k \<Longrightarrow> buf ! ((H + i) mod n) = None"
  shows "window n (H + k + 1) (buf[(H + k) mod n := None])"
proof (rule windowI)
  fix i p
  assume i: "i < n" and p: "buf[(H + k) mod n := None] ! ((H + k + 1 + i) mod n) = Some p"
  have lt: "(H + k) mod n < length buf"
    using k len by simp
  have ne: "(H + k + 1 + i) mod n \<noteq> (H + k) mod n"
  proof
    assume "(H + k + 1 + i) mod n = (H + k) mod n"
    with p lt show False by simp
  qed
  then have p': "buf ! ((H + k + 1 + i) mod n) = Some p"
    using p by simp
  show "unat (seq (mdata p)) = (H + k + 1 + i) mod 4096"
  proof (cases "k + 1 + i < n")
    case True
    then show ?thesis
      using window_D [OF w True] p' by (simp add: add.assoc)
  next
    case False
    define d where "d = k + 1 + i - n"
    have d: "k + 1 + i = n + d" "d \<le> k"
      using False i k by (simp_all add: d_def)
    then have "(H + k + 1 + i) mod n = (H + d) mod n"
      by (metis add.assoc add.left_commute mod_add_self1)
    moreover have "d \<noteq> k"
      using ne calculation by auto
    ultimately show ?thesis
      using p' gap [of d] d by simp
  qed
qed

text \<open>Moving the head past empty slots, and storing a frame of the window.\<close>

lemma window_empty: "slots buf = [] \<Longrightarrow> length buf = n \<Longrightarrow> window n H buf"
  by (rule windowI) (auto simp: slots_empty_iff)

lemma window_store:
  assumes "window n H buf" and "length buf = n" and "k < n"
    and "unat (seq (mdata p)) = (H + k) mod 4096"
  shows "window n H (buf[(H + k) mod n := Some p])"
proof (rule windowI)
  fix i q
  assume i: "i < n" and q: "buf[(H + k) mod n := Some p] ! ((H + i) mod n) = Some q"
  show "unat (seq (mdata q)) = (H + i) mod 4096"
  proof (cases "i = k")
    case True
    then show ?thesis using q assms by simp
  next
    case False
    then have "(H + k) mod n \<noteq> (H + i) mod n"
      using slot_inj [of H k n i] i assms(3) by auto
    then show ?thesis
      using q window_D [OF assms(1) i] by simp
  qed
qed

subsection \<open>Release steps\<close>

text \<open>The ids of the packets a buffer holds.\<close>

definition ids :: "rtw_phl_rx_pkt list \<Rightarrow> nat multiset" where
  "ids ps = mset (map pkt_id ps)"

abbreviation held :: "phl_tid_ampdu_rx \<Rightarrow> nat multiset" where
  "held r \<equiv> ids (slots (reorder_buf r))"

lemma ids_simps [simp]:
  "ids [] = {#}" "ids (p # ps) = add_mset (pkt_id p) (ids ps)" "ids (ps @ qs) = ids ps + ids qs"
  by (simp_all add: ids_def)

definition same_cfg :: "phl_tid_ampdu_rx \<Rightarrow> phl_tid_ampdu_rx \<Rightarrow> bool" where
  "same_cfg r r1 \<longleftrightarrow>
     buf_size r1 = buf_size r \<and> removed r1 = removed r \<and> started r1 = started r \<and>
     sleep r1 = sleep r \<and> reorder_time r1 = reorder_time r \<and> ssn r1 = ssn r \<and> r_tid r1 = r_tid r"

lemma same_cfg_refl [simp]: "same_cfg r r"
  by (simp add: same_cfg_def)

lemma same_cfg_trans: "same_cfg r r1 \<Longrightarrow> same_cfg r1 r2 \<Longrightarrow> same_cfg r r2"
  by (simp add: same_cfg_def)

text \<open>
  \<open>released H r new H' r'\<close>: going from \<open>r\<close> to \<open>r'\<close> the frames \<open>new\<close> left the buffer in
  sequence order, nothing else did, and the invariant holds at the new head.
\<close>

definition released ::
  "nat \<Rightarrow> phl_tid_ampdu_rx \<Rightarrow> rtw_phl_rx_pkt list \<Rightarrow> nat \<Rightarrow> phl_tid_ampdu_rx \<Rightarrow> bool" where
  "released H r new H1 r1 \<longleftrightarrow>
     rinv H1 r1 \<and> in_seq H new H1 \<and> held r = ids new + held r1 \<and> same_cfg r r1"

lemma released_refl: "rinv H r \<Longrightarrow> released H r [] H r"
  by (simp add: released_def)

lemma released_trans:
  "released H r a H1 r1 \<Longrightarrow> released H1 r1 b H2 r2 \<Longrightarrow> released H r (a @ b) H2 r2"
  by (auto simp: released_def intro: in_seq_append same_cfg_trans)

lemma released_stored:
  assumes "released H r new H1 r1" and "reorder_wf r"
  shows "unat (stored_mpdu_num r) = length new + unat (stored_mpdu_num r1)"
proof -
  have "size (held r) = size (ids new + held r1)"
    using assms(1) by (simp only: released_def)
  then show ?thesis
    using assms by (simp add: released_def rinv_def reorder_wf_def ids_def)
qed

lemma rinv_index: "rinv H r \<Longrightarrow> reorder_index r (head_seq_num r) = H mod unat (buf_size r)"
  by (simp add: rinv_def reorder_index_def mod_mod_cancel)

lemma rinv_rslot:
  "rinv H r \<Longrightarrow> rslot r ((H + k) mod unat (buf_size r)) = reorder_buf r ! ((H + k) mod unat (buf_size r))"
  by (simp add: rinv_def reorder_wf_def rslot_def)

lemma stored_pred:
  assumes "unat s = Suc m"
  shows "unat (s - 1 :: u16) = m"
  using assms by (simp add: unat_sub_if')

text \<open>
  Releasing the first occupied slot after a gap of \<open>k\<close> slots and advancing the head past it.
\<close>

lemma release_slot:
  assumes inv: "rinv H r" and k: "k < unat (buf_size r)"
    and p: "rslot r ((H + k) mod unat (buf_size r)) = Some p"
    and gap: "\<And>i. i < k \<Longrightarrow> rslot r ((H + i) mod unat (buf_size r)) = None"
    and rel: "phl_release_reorder_frame r ((H + k) mod unat (buf_size r)) frames = (r1, frames1)"
    and r2: "r2 = r1\<lparr>head_seq_num := (head_seq_num r1 + of_nat k) AND 0xFFF\<rparr>"
  shows "frames1 = frames @ [deferred p] \<and> released H r [deferred p] (H + k + 1) r2"
proof -
  define n where "n = unat (buf_size r)"
  define j where "j = (H + k) mod n"
  have wf: "length (reorder_buf r) = n" "unat (stored_mpdu_num r) = length (slots (reorder_buf r))"
    and w: "window n H (reorder_buf r)" and n: "1 < n" "n < 2048" "n dvd 4096"
    and hd: "unat (head_seq_num r) = H mod 4096" and tm: "length (reorder_time r) = n"
    using inv by (simp_all add: rinv_def reorder_wf_def n_def)
  have j: "j < length (reorder_buf r)" "reorder_buf r ! j = Some p"
    using p wf n by (simp_all add: j_def n_def rslot_def split: if_splits)
  have r1: "r1 = r\<lparr>stored_mpdu_num := stored_mpdu_num r - 1, reorder_buf := (reorder_buf r)[j := None],
                   head_seq_num := seq_inc (head_seq_num r)\<rparr>" and f1: "frames1 = frames @ [deferred p]"
    using rel p by (simp_all add: phl_release_reorder_frame_def j_def n_def)
  have "unat (head_seq_num r2) = (H + k + 1) mod 4096"
    using k n by (simp add: r2 r1 unat_add_u16 seq_inc_unat hd n_def mod_simps unat_of_nat mod_mod_cancel)
  moreover have "window n (H + k + 1) ((reorder_buf r)[j := None])"
    unfolding j_def using w wf(1) k gap n inv by (intro window_release) (simp_all add: n_def rinv_rslot)
  moreover have "unat (stored_mpdu_num r - 1) = length (slots ((reorder_buf r)[j := None]))"
    using wf(2) length_slots_clear [OF j] stored_pred by simp
  ultimately have "rinv (H + k + 1) r2"
    using n wf tm by (simp add: rinv_def reorder_wf_def r2 r1 n_def)
  moreover have "held r = ids [deferred p] + held r2"
    using mset_slots_clear [OF j] by (simp add: ids_def r2 r1)
  moreover have "in_seq H [deferred p] (H + k + 1)"
    using window_D [OF w _ j(2) [unfolded j_def]] k by (intro in_seq_single [of _ H k]) (simp_all add: n_def)
  ultimately show ?thesis
    using f1 by (simp add: released_def same_cfg_def r2 r1)
qed

text \<open>The step at the head itself, whether its slot is occupied or not.\<close>

lemma release_head:
  assumes inv: "rinv H r" and n: "n = unat (buf_size r)"
    and rel: "phl_release_reorder_frame r (H mod n) frames = (r1, frames1)"
  shows "\<exists>new. frames1 = frames @ new \<and> released H r new (Suc H) r1 \<and>
           new = (case rslot r (H mod n) of None \<Rightarrow> [] | Some p \<Rightarrow> [deferred p])"
proof (cases "rslot r (H mod n)")
  case None
  have r1: "r1 = r\<lparr>head_seq_num := seq_inc (head_seq_num r)\<rparr>" and f1: "frames1 = frames"
    using rel None by (simp_all add: phl_release_reorder_frame_def)
  have wf: "length (reorder_buf r) = n" "window n H (reorder_buf r)" "0 < n"
    using inv n by (simp_all add: rinv_def reorder_wf_def)
  have "reorder_buf r ! (H mod n) = None"
    using None wf by (simp add: rslot_def)
  then have "(reorder_buf r)[H mod n := None] = reorder_buf r"
    by (metis list_update_id)
  then have "window n (Suc H) (reorder_buf r)"
    using window_release [OF wf(2) wf(1), of 0] wf(3) by simp
  then have "rinv (Suc H) r1"
    using inv n by (simp add: rinv_def reorder_wf_def r1 seq_inc_unat mod_Suc_eq)
  then show ?thesis
    using None f1 by (simp add: released_def r1 same_cfg_def)
next
  case (Some p)
  have "unat (head_seq_num r1) < 4096"
    using head_seq_num_release [of r "H mod n" frames] by (simp add: rel seq_inc_unat)
  then have "r1 = r1\<lparr>head_seq_num := (head_seq_num r1 + of_nat 0) AND 0xFFF\<rparr>"
    by (simp add: u16_eq_iff)
  then show ?thesis
    using release_slot [OF inv, of 0 p frames r1 frames1] rel Some inv n
    by (simp add: rinv_def)
qed

lemma release_ready_released:
  assumes "rinv H r"
  shows "\<exists>new m. release_ready r frames = (fst (release_ready r frames), frames @ new) \<and>
           released H r new (H + m) (fst (release_ready r frames)) \<and> m \<le> unat (stored_mpdu_num r) \<and>
           map (\<lambda>p. unat (seq (mdata p))) new = map (\<lambda>i. (H + i) mod 4096) [0..<m] \<and>
           rslot (fst (release_ready r frames)) ((H + m) mod unat (buf_size r)) = None"
  using assms
proof (induction r frames arbitrary: H rule: release_ready.induct)
  case (1 r frames)
  define n where "n = unat (buf_size r)"
  have idx: "reorder_index r (head_seq_num r) = H mod n"
    using rinv_index [OF 1(2)] by (simp add: n_def)
  show ?case
  proof (cases "rslot r (H mod n)")
    case None
    then have "release_ready r frames = (r, frames)"
      by (simp add: release_ready.simps [of r frames] idx)
    then show ?thesis
      using None released_refl [OF 1(2)] by (intro exI [of _ "[]"] exI [of _ 0]) (simp add: n_def)
  next
    case (Some p)
    obtain r1 frames1 where rel: "phl_release_reorder_frame r (H mod n) frames = (r1, frames1)"
      by (cases "phl_release_reorder_frame r (H mod n) frames")
    have step: "frames1 = frames @ [deferred p]" "released H r [deferred p] (Suc H) r1"
      using release_head [OF 1(2) n_def rel] Some by simp_all
    then have inv1: "rinv (Suc H) r1" and n1: "unat (buf_size r1) = n"
      by (simp_all add: released_def same_cfg_def n_def)
    have rr: "release_ready r frames = release_ready r1 frames1"
      using Some by (simp add: release_ready.simps [of r frames] idx rel)
    obtain new m where ih: "release_ready r1 frames1 = (fst (release_ready r1 frames1), frames1 @ new)"
        "released (Suc H) r1 new (Suc H + m) (fst (release_ready r1 frames1))"
        "m \<le> unat (stored_mpdu_num r1)"
        "map (\<lambda>p. unat (seq (mdata p))) new = map (\<lambda>i. (Suc H + i) mod 4096) [0..<m]"
        "rslot (fst (release_ready r1 frames1)) ((Suc H + m) mod n) = None"
      using 1(1) [OF idx [symmetric] _ rel [symmetric] inv1] Some n1 by auto
    have "unat (seq (mdata p)) = H mod 4096"
      using window_D [of n H "reorder_buf r" 0 p] 1(2) Some
      by (simp add: rinv_def reorder_wf_def rslot_def n_def split: if_splits)
    moreover have "map (\<lambda>i. (H + i) mod 4096) [0..<Suc m] =
        H mod 4096 # map (\<lambda>i. (Suc H + i) mod 4096) [0..<m]"
      by (simp add: map_upt_Suc del: upt_Suc)
    moreover have "Suc m \<le> unat (stored_mpdu_num r)"
      using ih(3) released_stored [OF step(2)] 1(2) by (simp add: rinv_def)
    moreover have "released H r (deferred p # new) (H + Suc m) (fst (release_ready r1 frames1))"
      using released_trans [OF step(2) ih(2)] by simp
    ultimately show ?thesis
      using ih(1,4,5) step(1) by (intro exI [of _ "deferred p # new"] exI [of _ "Suc m"]) (simp add: rr n_def)
  qed
qed

lemma rslot_after_release:
  assumes "phl_release_reorder_frame r j frames = (r1, frames1)"
  shows "rslot (r1\<lparr>head_seq_num := x\<rparr>) i = (if i = j then None else rslot r i)"
  using assms by (auto simp: phl_release_reorder_frame_def rslot_def split: option.splits)

lemma slot_offset:
  fixes i n H :: nat
  assumes "i < n"
  shows "\<exists>e<n. (H + e) mod n = i"
proof (intro exI conjI)
  show "(i + n - H mod n) mod n < n"
    using assms by simp
  have "(H + (i + n - H mod n) mod n) mod n = (H mod n + (i + n - H mod n)) mod n"
    by (simp add: mod_simps)
  also have "\<dots> = (i + n) mod n"
    using assms by (metis le_add_diff_inverse less_or_eq_imp_le mod_less_divisor not_gr_zero
        not_less_zero trans_le_add2)
  finally show "(H + (i + n - H mod n) mod n) mod n = i"
    using assms by simp
qed

lemma stored_zero_iff:
  "reorder_wf r \<Longrightarrow> stored_mpdu_num r = 0 \<longleftrightarrow> (\<forall>i < unat (buf_size r). rslot r i = None)"
  by (auto simp: reorder_wf_def rslot_def u16_eq_iff slots_empty_iff)

text \<open>
  The timeout loop. \<open>H0\<close> is the head at its start, \<open>d\<close> the offset of the next slot to visit and
  \<open>k\<close> the count of empty slots since the last release; every slot already visited is empty.
\<close>

lemma release_timeout_released:
  assumes "rinv H r" and "n = unat (buf_size r)" and "H + k = H0 + d" and "H0 \<le> H"
    and "0 < d" "d \<le> n" and "\<And>e. e < d \<Longrightarrow> rslot r ((H0 + e) mod n) = None"
    and "release_timeout now (map (\<lambda>d. (H0 + d) mod n) [d..<n]) k r frames = (b, r', frames')"
  shows "\<exists>new H'. frames' = frames @ new \<and> released H r new H' r' \<and> H' \<le> H0 + n \<and>
           rslot r' (H' mod n) = None \<and> (b \<longleftrightarrow> stored_mpdu_num r' \<noteq> 0) \<and>
           ((\<forall>i < n. \<not> not_timed_out r i now) \<longrightarrow> \<not> b) \<and>
           ((\<forall>i < n. not_timed_out r i now) \<and> k \<noteq> 0 \<longrightarrow> new = [] \<and> r' = r \<and> H' = H)"
  using assms
proof (induction "n - d" arbitrary: H r k d frames)
  case 0
  have d: "d = n" using 0 by simp
  then have out: "b = False" "r' = r" "frames' = frames"
    using 0 by simp_all
  have wf: "reorder_wf r" using 0 by (simp add: rinv_def)
  have empty: "rslot r i = None" if "i < n" for i
    using slot_offset [OF that, of H0] 0(8) d by auto
  then have "stored_mpdu_num r = 0"
    using stored_zero_iff [OF wf] 0 by simp
  moreover have "H mod n < n" using 0 d by simp
  ultimately show ?case
    using released_refl [OF 0(2)] empty out 0 by (intro exI [of _ "[]"] exI [of _ H]) simp
next
  case (Suc x)
  have dn: "d < n" using Suc(2) by simp
  then have upt: "[d..<n] = d # [Suc d..<n]" by (simp add: upt_conv_Cons)
  have kd: "k \<le> d" and j: "(H0 + d) mod n = (H + k) mod n"
    using Suc.prems by simp_all
  have wf: "reorder_wf r" using Suc.prems by (simp add: rinv_def)
  show ?case
  proof (cases "rslot r ((H0 + d) mod n)")
    case None
    have "\<exists>new H'. frames' = frames @ new \<and> released H r new H' r' \<and> H' \<le> H0 + n \<and>
           rslot r' (H' mod n) = None \<and> (b \<longleftrightarrow> stored_mpdu_num r' \<noteq> 0) \<and>
           ((\<forall>i < n. \<not> not_timed_out r i now) \<longrightarrow> \<not> b) \<and>
           ((\<forall>i < n. not_timed_out r i now) \<and> Suc k \<noteq> 0 \<longrightarrow> new = [] \<and> r' = r \<and> H' = H)"
    proof (rule Suc.hyps(1))
      show "x = n - Suc d" "Suc d \<le> n" "H + Suc k = H0 + Suc d"
        using Suc.hyps(2) dn Suc.prems by simp_all
      show "rslot r ((H0 + e) mod n) = None" if "e < Suc d" for e
        using that None Suc.prems by (cases "e = d") auto
      show "release_timeout now (map (\<lambda>d. (H0 + d) mod n) [Suc d..<n]) (Suc k) r frames = (b, r', frames')"
        using Suc.prems(8) None by (simp add: upt)
    qed (use Suc.prems in auto)
    then show ?thesis by auto
  next
    case (Some p)
    have jn: "(H0 + d) mod n < n" using dn by simp
    show ?thesis
    proof (cases "k \<noteq> 0 \<and> not_timed_out r ((H0 + d) mod n) now")
      case True
      then have out: "b = True" "r' = r" "frames' = frames"
        using Suc.prems(8) Some by (simp_all add: upt)
      have "H mod n = (H0 + (H - H0)) mod n" "H - H0 < d"
        using Suc.prems(3,4) True by (simp, linarith)
      then have "rslot r (H mod n) = None"
        using Suc.prems(7) by metis
      moreover have "stored_mpdu_num r \<noteq> 0"
        using stored_zero_iff [OF wf] jn Some Suc.prems(2) by auto
      moreover have "H \<le> H0 + n"
        using Suc.prems kd by linarith
      ultimately show ?thesis
        using released_refl [OF Suc.prems(1)] True out jn
        by (intro exI [of _ "[]"] exI [of _ H]) auto
    next
      case False
      obtain r1 frames1 where rel: "phl_release_reorder_frame r ((H + k) mod n) frames = (r1, frames1)"
        by (cases "phl_release_reorder_frame r ((H + k) mod n) frames")
      define r2 where "r2 = r1\<lparr>head_seq_num := (head_seq_num r1 + of_nat k) AND 0xFFF\<rparr>"
      have gap: "rslot r ((H + i) mod n) = None" if "i < k" for i
        using Suc.prems(3,4) Suc.prems(7) [of "H - H0 + i"] that by simp
      have step: "frames1 = frames @ [deferred p]" "released H r [deferred p] (H + k + 1) r2"
        using release_slot [OF Suc.prems(1), of k p frames r1 frames1 r2] gap rel Some kd dn j
          Suc.prems(2) r2_def by simp_all
      have cfg: "same_cfg r r2" "rinv (H + k + 1) r2"
        using step(2) by (simp_all add: released_def)
      then have tm: "not_timed_out r2 i now = not_timed_out r i now" for i
        by (simp add: not_timed_out_def same_cfg_def)
      have "\<exists>new H'. frames' = frames1 @ new \<and> released (H + k + 1) r2 new H' r' \<and> H' \<le> H0 + n \<and>
           rslot r' (H' mod n) = None \<and> (b \<longleftrightarrow> stored_mpdu_num r' \<noteq> 0) \<and>
           ((\<forall>i < n. \<not> not_timed_out r2 i now) \<longrightarrow> \<not> b) \<and>
           ((\<forall>i < n. not_timed_out r2 i now) \<and> 0 \<noteq> (0::nat) \<longrightarrow> new = [] \<and> r' = r2 \<and> H' = H + k + 1)"
      proof (rule Suc.hyps(1))
        show "x = n - Suc d" "Suc d \<le> n" "H + k + 1 + 0 = H0 + Suc d" "n = unat (buf_size r2)"
          using Suc.hyps(2) dn Suc.prems cfg by (simp_all add: same_cfg_def)
        show "rslot r2 ((H0 + e) mod n) = None" if "e < Suc d" for e
          using that Suc.prems(7) [of e] rslot_after_release [OF rel] j
          by (cases "e = d") (auto simp: r2_def)
        show "release_timeout now (map (\<lambda>d. (H0 + d) mod n) [Suc d..<n]) 0 r2 frames1 = (b, r', frames')"
          using Suc.prems(8) Some False rel j by (auto simp: upt r2_def)
      qed (use Suc.prems cfg in auto)
      then obtain new H' where ih: "frames' = frames1 @ new" "released (H + k + 1) r2 new H' r'"
          "H' \<le> H0 + n" "rslot r' (H' mod n) = None" "b \<longleftrightarrow> stored_mpdu_num r' \<noteq> 0"
          "(\<forall>i < n. \<not> not_timed_out r i now) \<longrightarrow> \<not> b"
        using tm by auto
      have "\<not> ((\<forall>i < n. not_timed_out r i now) \<and> k \<noteq> 0)"
        using False jn by auto
      then show ?thesis
        using ih step(1) released_trans [OF step(2) ih(2)]
        by (intro exI [of _ "deferred p # new"] exI [of _ H']) auto
    qed
  qed
qed

text \<open>What \<^verbatim>\<open>phl_reorder_release\<close> does, timer included.\<close>

lemma reorder_release_released:
  assumes inv: "rinv H r" and n: "n = unat (buf_size r)"
    and out: "phl_reorder_release now r frames = (r', frames', armed)"
  shows "\<exists>new H'. frames' = frames @ new \<and> released H r new H' r' \<and> H' \<le> H + n \<and>
           rslot r' (H' mod n) = None \<and> (armed \<longleftrightarrow> stored_mpdu_num r' \<noteq> 0 \<and> \<not> removed r) \<and>
           ((\<forall>i < n. \<not> not_timed_out r i now) \<and> rslot r (H mod n) = None \<longrightarrow>
              stored_mpdu_num r' = 0) \<and>
           ((\<forall>i < n. not_timed_out r i now) \<longrightarrow>
              map (\<lambda>p. unat (seq (mdata p))) new = map (\<lambda>i. (H + i) mod 4096) [0..<H' - H])"
proof -
  have idx: "reorder_index r (head_seq_num r) = H mod n"
    using rinv_index [OF inv] by (simp add: n)
  have wf: "reorder_wf r" and n0: "0 < n" using inv by (simp_all add: rinv_def n)
  show ?thesis
  proof (cases "rslot r (H mod n) = None \<and> stored_mpdu_num r \<noteq> 0")
    case True
    obtain b where rt: "release_timeout now (map (\<lambda>d. (H + d) mod n) [1..<n]) 1 r frames = (b, r', frames')"
        and ar: "armed \<longleftrightarrow> (b \<or> stored_mpdu_num r' \<noteq> 0) \<and> \<not> removed r'"
      using out True by (auto simp: phl_reorder_release_def idx ring_from_def mod_simps
          simp flip: n split: prod.splits)
    have "rslot r ((H + e) mod n) = None" if "e < 1" for e
      using True that by simp
    then obtain new H' where rr: "frames' = frames @ new" "released H r new H' r'" "H' \<le> H + n"
        "rslot r' (H' mod n) = None" "b \<longleftrightarrow> stored_mpdu_num r' \<noteq> 0"
        "(\<forall>i < n. \<not> not_timed_out r i now) \<longrightarrow> \<not> b"
        "(\<forall>i < n. not_timed_out r i now) \<longrightarrow> new = [] \<and> r' = r \<and> H' = H"
      using release_timeout_released [OF inv n, of 1 H 1, OF _ _ _ _ _ rt] n0 by auto
    have "removed r' = removed r"
      using rr(2) by (simp add: released_def same_cfg_def)
    then show ?thesis
      using rr ar by (intro exI [of _ new] exI [of _ H']) auto
  next
    case False
    obtain new m where rr: "release_ready r frames = (r', frames @ new)"
        "released H r new (H + m) r'" "m \<le> unat (stored_mpdu_num r)"
        "map (\<lambda>p. unat (seq (mdata p))) new = map (\<lambda>i. (H + i) mod 4096) [0..<m]"
        "rslot r' ((H + m) mod n) = None" "frames' = frames @ new"
        and ar: "armed \<longleftrightarrow> stored_mpdu_num r' \<noteq> 0 \<and> \<not> removed r'"
      using release_ready_released [OF inv, of frames] out False
      by (auto simp: phl_reorder_release_def idx split: prod.splits simp flip: n)
    have "m \<le> n"
      using rr(3) wf length_slots_le [of "reorder_buf r"] by (simp add: reorder_wf_def n)
    moreover have "removed r' = removed r"
      using rr(2) by (simp add: released_def same_cfg_def)
    moreover have "rslot r (H mod n) = None \<longrightarrow> stored_mpdu_num r' = 0"
      using False released_stored [OF rr(2) wf] by (auto simp: u16_eq_iff)
    ultimately show ?thesis
      using rr ar by (intro exI [of _ new] exI [of _ "H + m"]) simp
  qed
qed

subsection \<open>Moving the window\<close>

lemma seq_less_offset:
  assumes "unat a mod 4096 = A mod 4096" and "unat b mod 4096 = (A + D) mod 4096" and "D < 4096"
  shows "seq_less a b \<longleftrightarrow> 0 < D \<and> D < 2048" and "seq_less b a \<longleftrightarrow> 2048 < D"
proof -
  have u: "uint a mod 4096 = int A mod 4096" "uint b mod 4096 = (int A + int D) mod 4096"
    using arg_cong [OF assms(1), of int] arg_cong [OF assms(2), of int] by (simp_all add: zmod_int)
  have "(uint a - uint b) mod 4096 = (- int D) mod 4096"
    using mod_diff_cong [OF u] by simp
  then show "seq_less a b \<longleftrightarrow> 0 < D \<and> D < 2048"
    using assms(3) by (cases "D = 0") (auto simp: seq_less_iff zmod_zminus1_eq_if)
  have "(uint b - uint a) mod 4096 = int D mod 4096"
    using mod_diff_cong [OF u(2) u(1)] by simp
  then show "seq_less b a \<longleftrightarrow> 2048 < D"
    using assms(3) by (simp add: seq_less_iff)
qed

lemma release_upto_released:
  assumes "rinv H r" and "unat new_head = (H + D) mod 4096" and "D < 2048"
  shows "\<exists>new E. release_upto r new_head frames = (fst (release_upto r new_head frames), frames @ new) \<and>
           E \<le> D \<and> released H r new (H + E) (fst (release_upto r new_head frames)) \<and>
           (E = D \<or> stored_mpdu_num (fst (release_upto r new_head frames)) = 0)"
  using assms
proof (induction r new_head frames arbitrary: H D rule: release_upto.induct)
  case (1 r new_head frames)
  have hd: "unat (head_seq_num r) = H mod 4096"
    using 1 by (simp add: rinv_def)
  have less: "seq_less (head_seq_num r) new_head \<longleftrightarrow> 0 < D"
    using seq_less_offset(1) [of "head_seq_num r" H new_head D] hd 1(3,4) by simp
  show ?case
  proof (cases "0 < D \<and> stored_mpdu_num r \<noteq> 0")
    case False
    then have "release_upto r new_head frames = (r, frames)"
      using less by (auto simp: release_upto.simps [of r])
    then show ?thesis
      using False released_refl [OF 1(2)] by (intro exI [of _ "[]"] exI [of _ 0]) auto
  next
    case True
    let ?i = "reorder_index r (head_seq_num r)"
    obtain r1 frames1 where rel: "phl_release_reorder_frame r ?i frames = (r1, frames1)"
      by (cases "phl_release_reorder_frame r ?i frames")
    have i: "?i = H mod unat (buf_size r)"
      by (rule rinv_index [OF 1(2)])
    obtain new1 where step: "frames1 = frames @ new1" "released H r new1 (Suc H) r1"
      using release_head [OF 1(2) refl rel [unfolded i]] by blast
    have rr: "release_upto r new_head frames = release_upto r1 new_head frames1"
      using True less rel by (simp add: release_upto.simps [of r])
    have "seq_less (head_seq_num r) new_head \<and> stored_mpdu_num r \<noteq> 0" "rinv (Suc H) r1"
        "unat new_head = (Suc H + (D - 1)) mod 4096" "D - 1 < 2048"
      using True less step(2) 1(3,4) by (simp_all add: released_def)
    from 1(1) [OF this(1) rel [symmetric] this(2-)] obtain new E where ih:
        "release_upto r1 new_head frames1 = (fst (release_upto r1 new_head frames1), frames1 @ new)"
        "E \<le> D - 1" "released (Suc H) r1 new (Suc H + E) (fst (release_upto r1 new_head frames1))"
        "E = D - 1 \<or> stored_mpdu_num (fst (release_upto r1 new_head frames1)) = 0"
      by blast
    show ?thesis
      using True ih(1,2,4) step(1) released_trans [OF step(2) ih(3)]
      by (intro exI [of _ "new1 @ new"] exI [of _ "Suc E"]) (auto simp: rr)
  qed
qed

lemma release_frames_released:
  assumes inv: "rinv H r" and new: "unat new_head = (H + D) mod 4096" "D < 2048"
    and out: "phl_release_reorder_frames r new_head frames = (r', frames')"
  shows "\<exists>new. frames' = frames @ new \<and> released H r new (H + D) r'"
proof -
  obtain new E r1 where up: "release_upto r new_head frames = (r1, frames @ new)" "E \<le> D"
      "released H r new (H + E) r1" "E = D \<or> stored_mpdu_num r1 = 0"
    using release_upto_released [OF inv new, of frames] by (metis fst_conv)
  have r': "r' = r1\<lparr>head_seq_num := new_head\<rparr>" "frames' = frames @ new"
    using out up(1) by (simp_all add: phl_release_reorder_frames_def)
  have inv1: "rinv (H + E) r1" "same_cfg r r1" "in_seq H new (H + E)"
    using up(3) by (simp_all add: released_def)
  have "window (unat (buf_size r1)) (H + D) (reorder_buf r1)"
    using up(4) inv1(1) window_empty [of "reorder_buf r1"]
    by (auto simp: rinv_def reorder_wf_def)
  then have "rinv (H + D) r'"
    using inv1(1) new by (simp add: rinv_def reorder_wf_def r')
  moreover have "in_seq H new (H + D)"
    using up(2) by (intro in_seq_weaken [OF inv1(3)]) simp_all
  ultimately show ?thesis
    using up(3) by (simp add: released_def same_cfg_def r')
qed

subsection \<open>Accepting an MPDU, by cases\<close>

text \<open>
  Storing a frame of the window whose slot is free, then releasing.
\<close>

lemma store_rinv:
  assumes inv: "rinv H r" and k: "k < unat (buf_size r)"
    and s: "unat (seq (mdata pkt)) = (H + k) mod 4096"
    and free: "rslot r (reorder_index r (seq (mdata pkt))) = None"
    and r3: "r3 = r\<lparr>reorder_buf := (reorder_buf r)[reorder_index r (seq (mdata pkt)) := Some pkt],
                    reorder_time := (reorder_time r)[reorder_index r (seq (mdata pkt)) := t],
                    stored_mpdu_num := stored_mpdu_num r + 1\<rparr>"
  shows "rinv H r3 \<and> held r3 = add_mset (pkt_id pkt) (held r)"
proof -
  define n i where "n = unat (buf_size r)" and "i = (H + k) mod n"
  have n: "0 < n" "n < 2048" "n dvd 4096" and len: "length (reorder_buf r) = n"
    and w: "window n H (reorder_buf r)" and st: "unat (stored_mpdu_num r) = length (slots (reorder_buf r))"
    using inv by (simp_all add: rinv_def reorder_wf_def n_def)
  have idx: "reorder_index r (seq (mdata pkt)) = i"
    using n(3) s by (simp add: reorder_index_def i_def n_def mod_mod_cancel)
  have i: "i < length (reorder_buf r)" "reorder_buf r ! i = None"
    using free idx len n(1) by (simp_all add: rslot_def i_def)
  have "window n H ((reorder_buf r)[i := Some pkt])"
    using window_store [OF w len _ s] k by (simp add: i_def n_def)
  moreover have "unat (stored_mpdu_num r + 1) = length (slots ((reorder_buf r)[i := Some pkt]))"
    using length_slots_fill [OF i, of pkt] st length_slots_le [of "reorder_buf r"] len n(2)
    by (simp add: unat_add_u16)
  ultimately have "rinv H r3"
    using inv by (simp add: r3 idx rinv_def reorder_wf_def n_def)
  moreover have "held r3 = add_mset (pkt_id pkt) (held r)"
    using mset_slots_fill [OF i, of pkt] by (simp add: r3 idx ids_def)
  ultimately show ?thesis by simp
qed

text \<open>Every frame is delivered, kept, or recycled, exactly once.\<close>

definition manage_delivered :: "rtw_phl_rx_pkt \<Rightarrow> manage_result \<Rightarrow> rtw_phl_rx_pkt list" where
  "manage_delivered pkt res = mg_frames res @ (if mg_ret res then [] else [pkt])"

text \<open>The second half: the frame is not behind the head and the window has been moved.\<close>

definition manage_tail ::
  "u32 \<Rightarrow> u32 \<Rightarrow> rtw_phl_rx_pkt \<Rightarrow> phl_tid_ampdu_rx \<Rightarrow> rtw_phl_rx_pkt list \<Rightarrow> manage_result" where
  "manage_tail t_store t_rel pkt r2 frames2 =
     (let s = seq (mdata pkt); index = reorder_index r2 s in
      if rslot r2 index \<noteq> None
      then \<lparr>mg_ret = True, mg_r = r2, mg_frames = frames2, mg_recycled = [pkt], mg_armed = False\<rparr>
      else if s = head_seq_num r2 \<and> stored_mpdu_num r2 = 0
      then \<lparr>mg_ret = False, mg_r = r2\<lparr>head_seq_num := seq_inc (head_seq_num r2)\<rparr>,
             mg_frames = frames2, mg_recycled = [], mg_armed = False\<rparr>
      else
        let r3 = r2\<lparr>reorder_buf := (reorder_buf r2)[index := Some pkt],
                    reorder_time := (reorder_time r2)[index := t_store],
                    stored_mpdu_num := stored_mpdu_num r2 + 1\<rparr>
        in (case phl_reorder_release t_rel r3 frames2 of (r4, frames4, armed) \<Rightarrow>
              \<lparr>mg_ret = True, mg_r = r4, mg_frames = frames4, mg_recycled = [], mg_armed = armed\<rparr>))"

lemma manage_tail_ok:
  assumes inv: "rinv H r" and k: "k < unat (buf_size r)"
    and s: "unat (seq (mdata pkt)) = (H + k) mod 4096"
    and res: "res = manage_tail t1 t2 pkt r frames"
  shows "\<exists>new H'. manage_delivered pkt res = frames @ new \<and> in_seq H new H' \<and> rinv H' (mg_r res) \<and>
           H' \<le> H + unat (buf_size r) \<and> buf_size (mg_r res) = buf_size r \<and>
           sleep (mg_r res) = sleep r \<and> started (mg_r res) = started r \<and>
           ids new + ids (mg_recycled res) + held (mg_r res) = add_mset (pkt_id pkt) (held r) \<and>
           (mg_recycled res \<noteq> [] \<longrightarrow>
              (\<exists>p. Some p \<in> set (reorder_buf r) \<and> seq (mdata p) = seq (mdata pkt)))"
proof -
  let ?i = "reorder_index r (seq (mdata pkt))"
  have idx: "?i = (H + k) mod unat (buf_size r)"
    using inv s by (simp add: rinv_def reorder_index_def mod_mod_cancel)
  consider (dup) p where "rslot r ?i = Some p"
    | (direct) "rslot r ?i = None" "seq (mdata pkt) = head_seq_num r" "stored_mpdu_num r = 0"
    | (store) "rslot r ?i = None" "\<not> (seq (mdata pkt) = head_seq_num r \<and> stored_mpdu_num r = 0)"
    by blast
  then show ?thesis
  proof cases
    case dup
    have "reorder_buf r ! ((H + k) mod unat (buf_size r)) = Some p"
      using dup idx rinv_rslot [OF inv] by simp
    then have "unat (seq (mdata p)) = unat (seq (mdata pkt))" "Some p \<in> set (reorder_buf r)"
      using inv k s window_D nth_mem [of ?i "reorder_buf r"]
      by (auto simp: rinv_def reorder_wf_def idx)
    then show ?thesis
      using dup inv by (intro exI [of _ "[]"] exI [of _ H])
        (auto simp: res manage_tail_def manage_delivered_def u16_eq_iff)
  next
    case direct
    have hd: "unat (head_seq_num r) = H mod 4096" "slots (reorder_buf r) = []"
      using inv direct(3) by (simp_all add: rinv_def reorder_wf_def)
    have "rinv (Suc H) (r\<lparr>head_seq_num := seq_inc (head_seq_num r)\<rparr>)"
      using inv hd window_empty [of "reorder_buf r"]
      by (simp add: rinv_def reorder_wf_def seq_inc_unat mod_Suc_eq)
    moreover have "in_seq H [pkt] (Suc H)"
      using hd(1) direct(2) in_seq_single [of pkt H 0 "Suc H"] by simp
    ultimately show ?thesis
      using direct k by (intro exI [of _ "[pkt]"] exI [of _ "Suc H"])
        (simp add: res manage_tail_def manage_delivered_def)
  next
    case store
    define r3 where "r3 = r\<lparr>reorder_buf := (reorder_buf r)[?i := Some pkt],
                    reorder_time := (reorder_time r)[?i := t1],
                    stored_mpdu_num := stored_mpdu_num r + 1\<rparr>"
    have r3: "rinv H r3" "held r3 = add_mset (pkt_id pkt) (held r)"
      using store_rinv [OF inv k s store(1) r3_def] by simp_all
    obtain r4 frames4 armed where rel: "phl_reorder_release t2 r3 frames = (r4, frames4, armed)"
      by (metis prod_cases3)
    obtain new H' where new: "frames4 = frames @ new" "released H r3 new H' r4" "H' \<le> H + unat (buf_size r3)"
      using reorder_release_released [OF r3(1) refl rel] by blast
    have out: "res = \<lparr>mg_ret = True, mg_r = r4, mg_frames = frames4, mg_recycled = [], mg_armed = armed\<rparr>"
      using store rel by (auto simp: res manage_tail_def Let_def r3_def)
    show ?thesis
      using new r3 by (intro exI [of _ new] exI [of _ H'])
        (simp add: out manage_delivered_def released_def same_cfg_def r3_def)
  qed
qed

text \<open>The offset of a sequence number from the head.\<close>

lemma sn_offset:
  fixes s H :: nat
  assumes "s < 4096"
  shows "\<exists>D<4096. s = (H + D) mod 4096"
  using sn_next_mod [OF assms, of H] by (metis mod_less_divisor sn_next_def zero_less_numeral)

lemma new_window_head:
  assumes "unat s = (H + D) mod 4096" and "0 < unat n" "unat n \<le> D"
  shows "unat (seq_inc (seq_sub s n)) = (H + (D + 1 - unat n)) mod 4096"
proof -
  have s: "uint s = int (H + D) mod 4096"
    using arg_cong [OF assms(1), of int] by (simp add: zmod_int)
  have n: "int (H + D) - uint n = int (H + (D - unat n))"
    using assms(3) by (simp add: of_nat_diff)
  have "uint (seq_sub s n) = (int (H + D) - uint n) mod 4096"
    by (simp add: seq_sub_def seq_diff s mod_diff_left_eq)
  then have "int (unat (seq_sub s n)) = int ((H + (D - unat n)) mod 4096)"
    unfolding n by (simp add: zmod_int)
  then have "unat (seq_sub s n) = (H + (D - unat n)) mod 4096"
    by (simp only: of_nat_eq_iff)
  then show ?thesis
    using assms(3) by (simp add: seq_inc_unat mod_Suc_eq Suc_diff_le)
qed

lemma manage_eq:
  assumes "started r \<or> \<not> seq_less (seq (mdata pkt)) (head_seq_num r)" and "\<not> sleep r"
  shows "phl_manage_sta_reorder_buf t1 t2 pkt r frames =
     (let s = seq (mdata pkt); r1 = r\<lparr>started := True\<rparr> in
      if seq_less s (head_seq_num r)
      then \<lparr>mg_ret = True, mg_r = r1, mg_frames = frames, mg_recycled = [pkt], mg_armed = False\<rparr>
      else case (if \<not> seq_less s (head_seq_num r + buf_size r)
                 then phl_release_reorder_frames r1 (seq_inc (seq_sub s (buf_size r))) frames
                 else (r1, frames))
           of (r2, frames2) \<Rightarrow> manage_tail t1 t2 pkt r2 frames2)"
  using assms by (auto simp: phl_manage_sta_reorder_buf_def manage_tail_def Let_def split: prod.split)

text \<open>One MPDU through the buffer.\<close>

lemma manage_ok:
  assumes inv: "rinv H r" and sl: "\<not> sleep r" and s: "unat (seq (mdata pkt)) < 4096"
    and st: "started r \<or> \<not> seq_less (seq (mdata pkt)) (head_seq_num r)"
    and res: "res = phl_manage_sta_reorder_buf t1 t2 pkt r frames"
  shows "\<exists>new H'. manage_delivered pkt res = frames @ new \<and> in_seq H new H' \<and> rinv H' (mg_r res) \<and>
           H' < H + 4096 \<and> \<not> sleep (mg_r res) \<and> started (mg_r res) \<and>
           ids new + ids (mg_recycled res) + held (mg_r res) = add_mset (pkt_id pkt) (held r)"
proof -
  define n r1 where "n = unat (buf_size r)" and "r1 = r\<lparr>started := True\<rparr>"
  have n: "1 < n" "n < 2048" and hd: "unat (head_seq_num r) = H mod 4096" and inv1: "rinv H r1"
    using inv by (simp_all add: rinv_def reorder_wf_def n_def r1_def)
  have b1: "buf_size r1 = buf_size r" "held r1 = held r" "\<not> sleep r1" "started r1"
    using sl by (simp_all add: r1_def)
  obtain D where D: "D < 4096" "unat (seq (mdata pkt)) = (H + D) mod 4096"
    using sn_offset [OF s] by blast
  have less: "seq_less (seq (mdata pkt)) (head_seq_num r) \<longleftrightarrow> 2048 < D"
    using seq_less_offset(2) [of "head_seq_num r" H "seq (mdata pkt)" D] hd D by simp
  note eq = manage_eq [OF st sl, of t1 t2 frames, folded res]
  have nh: "unat (head_seq_num r + buf_size r) mod 4096 = (H + n) mod 4096"
    by (simp add: unat_add_u16 hd n_def mod_mod_cancel mod_simps)
  consider (old) "2048 < D" | (inside) "D < n" | (beyond) "D \<le> 2048" "n \<le> D"
    using n by linarith
  then show ?thesis
  proof cases
    case old
    then show ?thesis
      using eq less inv1 by (intro exI [of _ "[]"] exI [of _ H])
        (simp add: manage_delivered_def Let_def b1 flip: r1_def)
  next
    case inside
    have "seq_less (seq (mdata pkt)) (head_seq_num r + buf_size r)"
      using seq_less_offset(1) [of "seq (mdata pkt)" "H + D" _ "n - D"] D nh n inside by simp
    then have tl: "res = manage_tail t1 t2 pkt r1 frames"
      using eq less n inside by (simp add: Let_def r1_def)
    have "D < unat (buf_size r1)"
      using inside by (simp add: n_def b1)
    from manage_tail_ok [OF inv1 this D(2) tl] obtain new H' where tlo:
        "manage_delivered pkt res = frames @ new" "in_seq H new H'" "rinv H' (mg_r res)" "H' \<le> H + n"
        "\<not> sleep (mg_r res)" "started (mg_r res)"
        "ids new + ids (mg_recycled res) + held (mg_r res) = add_mset (pkt_id pkt) (held r)"
      using b1 by (auto simp: n_def)
    then show ?thesis
      using n by (intro exI [of _ new] exI [of _ H']) simp
  next
    case beyond
    have "\<not> seq_less (seq (mdata pkt)) (head_seq_num r + buf_size r)"
      using seq_less_offset(2) [of "head_seq_num r + buf_size r" "H + n" "seq (mdata pkt)" "D - n"] D nh beyond
      by simp
    moreover obtain r2 frames2 where rf:
        "phl_release_reorder_frames r1 (seq_inc (seq_sub (seq (mdata pkt)) (buf_size r))) frames = (r2, frames2)"
      by fastforce
    ultimately have tl: "res = manage_tail t1 t2 pkt r2 frames2"
      using eq less beyond by (simp add: Let_def r1_def)
    obtain new2 where rel: "frames2 = frames @ new2" "released H r1 new2 (H + (D + 1 - n)) r2"
    proof -
      have "D + 1 - n < 2048"
        using n beyond by linarith
      moreover have "unat (seq_inc (seq_sub (seq (mdata pkt)) (buf_size r))) = (H + (D + 1 - n)) mod 4096"
        using new_window_head [OF D(2), of "buf_size r"] n beyond by (simp add: n_def)
      ultimately show thesis
        using that release_frames_released [OF inv1 _ _ rf] by blast
    qed
    have r2: "rinv (H + (D + 1 - n)) r2" "buf_size r2 = buf_size r" "held r = ids new2 + held r2"
        "in_seq H new2 (H + (D + 1 - n))" "\<not> sleep r2" "started r2"
      using rel(2) b1 by (auto simp: released_def same_cfg_def)
    have "unat (seq (mdata pkt)) = (H + (D + 1 - n) + (n - 1)) mod 4096" "n - 1 < unat (buf_size r2)"
      using D n beyond r2(2) by (simp_all add: n_def)
    from manage_tail_ok [OF r2(1) this(2) this(1) tl] obtain new H' where
        tlo: "manage_delivered pkt res = frames2 @ new" "in_seq (H + (D + 1 - n)) new H'" "rinv H' (mg_r res)"
        "H' \<le> H + (D + 1 - n) + n" "\<not> sleep (mg_r res)" "started (mg_r res)"
        "ids new + ids (mg_recycled res) + held (mg_r res) = add_mset (pkt_id pkt) (held r2)"
      using r2 n_def by auto
    have "in_seq H (new2 @ new) H'"
      using r2(4) tlo(2) by (rule in_seq_append)
    moreover have "H' < H + 4096"
      using tlo(4) beyond n by linarith
    moreover have "ids (new2 @ new) + ids (mg_recycled res) + held (mg_r res) = add_mset (pkt_id pkt) (held r)"
      using tlo(7) r2(3) by (simp add: add.assoc)
    ultimately show ?thesis
      using tlo(1,3,5,6) rel(1) by (intro exI [of _ "new2 @ new"] exI [of _ H']) simp
  qed
qed

subsection \<open>Runs of one session\<close>

text \<open>
  What happens to the buffer of one TID, in any order: an MPDU arrives (\<^verbatim>\<open>phl_rx_reorder\<close>), a
  block-ack request arrives (\<^verbatim>\<open>rtw_phl_rx_bar\<close>), or the timer fires
  (\<^verbatim>\<open>phl_sta_rx_reorder_timer_expired\<close>). A step gives the frames delivered, the packets recycled
  and the buffer.
\<close>

datatype rx_event = Mpdu u32 u32 rtw_phl_rx_pkt | Bar u16 | Timer u32

fun reorder_step ::
  "rx_event \<Rightarrow> phl_tid_ampdu_rx
     \<Rightarrow> rtw_phl_rx_pkt list \<times> rtw_phl_rx_pkt list \<times> phl_tid_ampdu_rx" where
  "reorder_step (Mpdu t1 t2 pkt) r =
     (let res = phl_manage_sta_reorder_buf t1 t2 pkt r []
      in (manage_delivered pkt res, mg_recycled res, mg_r res))"
| "reorder_step (Bar s) r =
     (if seq_less s (head_seq_num r) then ([], [], r)
      else case phl_release_reorder_frames r s [] of (r1, frames) \<Rightarrow> (frames, [], r1))"
| "reorder_step (Timer now) r =
     (case phl_reorder_release now r [] of (r1, frames, armed) \<Rightarrow> (frames, [], r1))"

text \<open>
  Sequence numbers have 12 bits; the frames sent before the session's first in-window frame
  bypass the buffer, and a request exactly half the number space ahead is excluded
  (\<open>bar_half_space\<close> below says why).
\<close>

fun event_ok :: "phl_tid_ampdu_rx \<Rightarrow> rx_event \<Rightarrow> bool" where
  "event_ok r (Mpdu t1 t2 pkt) \<longleftrightarrow>
     unat (seq (mdata pkt)) < 4096 \<and> (started r \<or> \<not> seq_less (seq (mdata pkt)) (head_seq_num r))"
| "event_ok r (Bar s) \<longleftrightarrow> unat s < 4096 \<and> (s - head_seq_num r) AND 0xFFF \<noteq> 0x800"
| "event_ok r (Timer now) \<longleftrightarrow> True"

fun event_pkts :: "rx_event \<Rightarrow> rtw_phl_rx_pkt list" where
  "event_pkts (Mpdu t1 t2 pkt) = [pkt]"
| "event_pkts ev = []"

text \<open>The whole run; the number is the total advance of the head.\<close>

fun reorder_run ::
  "rx_event list \<Rightarrow> phl_tid_ampdu_rx
     \<Rightarrow> rtw_phl_rx_pkt list \<times> rtw_phl_rx_pkt list \<times> nat \<times> phl_tid_ampdu_rx" where
  "reorder_run [] r = ([], [], 0, r)"
| "reorder_run (ev # evs) r =
     (case reorder_step ev r of (out, rec, r1) \<Rightarrow>
        (case reorder_run evs r1 of (outs, recs, adv, r2) \<Rightarrow>
           (out @ outs, rec @ recs,
            unat ((head_seq_num r1 - head_seq_num r) AND 0xFFF) + adv, r2)))"

fun run_ok :: "rx_event list \<Rightarrow> phl_tid_ampdu_rx \<Rightarrow> bool" where
  "run_ok [] r = True"
| "run_ok (ev # evs) r \<longleftrightarrow> event_ok r ev \<and> run_ok evs (snd (snd (reorder_step ev r)))"

lemma seq_advance:
  fixes a b :: u16
  assumes "unat a = H mod 4096" and "unat b = H' mod 4096" and "H \<le> H'" and "H' < H + 4096"
  shows "unat ((b - a) AND 0xFFF) = H' - H"
proof -
  have u: "uint a = int H mod 4096" "uint b = int H' mod 4096"
    using arg_cong [OF assms(1), of int] arg_cong [OF assms(2), of int] by (simp_all add: zmod_int)
  have "uint ((b - a) AND 0xFFF) = (int H' - int H) mod 4096"
    by (simp add: seq_diff u mod_diff_eq)
  also have "\<dots> = int (H' - H)"
    using assms(3,4) by (simp add: of_nat_diff)
  finally have "int (unat ((b - a) AND 0xFFF)) = int (H' - H)"
    by (simp only: uint_nat [symmetric])
  then show ?thesis
    by (simp only: of_nat_eq_iff)
qed

lemma reorder_step_ok:
  assumes inv: "rinv H r" and sl: "\<not> sleep r" and ok: "event_ok r ev"
    and step: "reorder_step ev r = (out, rec, r1)"
  shows "rinv (H + unat ((head_seq_num r1 - head_seq_num r) AND 0xFFF)) r1 \<and> \<not> sleep r1 \<and>
         in_seq H out (H + unat ((head_seq_num r1 - head_seq_num r) AND 0xFFF)) \<and>
         ids out + ids rec + held r1 = held r + ids (event_pkts ev)"
proof -
  have "\<exists>H'. rinv H' r1 \<and> \<not> sleep r1 \<and> in_seq H out H' \<and> H' < H + 4096 \<and>
         ids out + ids rec + held r1 = held r + ids (event_pkts ev)"
  proof (cases ev)
    case (Mpdu t1 t2 pkt)
    then show ?thesis
      using manage_ok [OF inv sl _ _ refl, of pkt t1 t2 "[]"] ok step by (auto simp: Let_def)
  next
    case (Bar s)
    obtain D where D: "D < 4096" "unat s = (H + D) mod 4096"
      using sn_offset [of "unat s" H] ok Bar by auto
    have hd: "unat (head_seq_num r) = H mod 4096"
      using inv by (simp add: rinv_def)
    have "unat ((s - head_seq_num r) AND 0xFFF) = D"
      using seq_advance [OF hd D(2)] D(1) by simp
    then have "D \<noteq> 2048"
      using ok Bar by (auto simp: u16_eq_iff simp del: unat_and_mask12)
    show ?thesis
    proof (cases "2048 < D")
      case True
      then show ?thesis
        using step Bar inv sl seq_less_offset(2) [of "head_seq_num r" H s D] hd D
        by (intro exI [of _ H]) auto
    next
      case False
      then have "\<not> seq_less s (head_seq_num r)"
        using seq_less_offset(2) [of "head_seq_num r" H s D] hd D by simp
      then have rf: "phl_release_reorder_frames r s [] = (r1, out)" "rec = []"
        using step Bar by (auto split: prod.splits)
      show ?thesis
        using release_frames_released [OF inv D(2) _ rf(1)] False \<open>D \<noteq> 2048\<close> rf(2) sl Bar
        by (intro exI [of _ "H + D"]) (auto simp: released_def same_cfg_def)
    qed
  next
    case (Timer now)
    then obtain armed where rel: "phl_reorder_release now r [] = (r1, out, armed)" "rec = []"
      using step by (auto split: prod.splits)
    obtain H' where "released H r out H' r1" "H' \<le> H + unat (buf_size r)"
      using reorder_release_released [OF inv refl rel(1)] by auto
    moreover have "unat (buf_size r) < 2048"
      using inv by (simp add: rinv_def)
    ultimately show ?thesis
      using Timer rel(2) sl by (intro exI [of _ H']) (auto simp: released_def same_cfg_def)
  qed
  then obtain H' where H': "rinv H' r1" "\<not> sleep r1" "in_seq H out H'" "H' < H + 4096"
      "ids out + ids rec + held r1 = held r + ids (event_pkts ev)"
    by blast
  have "unat ((head_seq_num r1 - head_seq_num r) AND 0xFFF) = H' - H"
    using seq_advance [of "head_seq_num r" H "head_seq_num r1" H'] inv H' in_seq_le [OF H'(3)]
    by (simp add: rinv_def del: unat_and_mask12)
  then show ?thesis
    using H' in_seq_le [OF H'(3)] by (simp del: unat_and_mask12)
qed

text \<open>Two steps of a flow that neither loses nor makes up elements.\<close>

lemma mset_flow:
  fixes h :: "'a multiset"
  assumes "o1 + r1 + h1 = h + e" and "o2 + r2 + h2 = h1 + es"
  shows "o1 + o2 + (r1 + r2) + h2 = h + (e + es)"
proof -
  have "o1 + o2 + (r1 + r2) + h2 = o1 + r1 + (o2 + r2 + h2)"
    by (simp add: ac_simps)
  also have "\<dots> = (o1 + r1 + h1) + es"
    unfolding assms(2) by (simp only: add.assoc)
  finally show ?thesis
    unfolding assms(1) by (simp only: add.assoc)
qed

lemma reorder_run_ok:
  assumes "rinv H r" and "\<not> sleep r" and "run_ok evs r" and "reorder_run evs r = (out, rec, adv, r')"
  shows "rinv (H + adv) r' \<and> \<not> sleep r' \<and> in_seq H out (H + adv) \<and>
         ids out + ids rec + held r' = held r + ids (concat (map event_pkts evs))"
  using assms
proof (induction evs arbitrary: H r out rec adv r')
  case (Cons ev evs)
  obtain out1 rec1 r1 where step: "reorder_step ev r = (out1, rec1, r1)"
    by (metis prod_cases3)
  obtain out2 rec2 adv2 r2 where run: "reorder_run evs r1 = (out2, rec2, adv2, r2)"
    by (metis prod_cases4)
  define a where "a = unat ((head_seq_num r1 - head_seq_num r) AND 0xFFF)"
  have res: "out = out1 @ out2" "rec = rec1 @ rec2" "adv = a + adv2" "r' = r2"
    using Cons.prems(4) step run by (simp_all add: a_def)
  have s: "rinv (H + a) r1" "\<not> sleep r1" "in_seq H out1 (H + a)"
      "ids out1 + ids rec1 + held r1 = held r + ids (event_pkts ev)"
    using reorder_step_ok [OF Cons.prems(1,2) _ step] Cons.prems(3) by (simp_all add: a_def del: unat_and_mask12)
  have ih: "rinv (H + a + adv2) r2 \<and> \<not> sleep r2 \<and> in_seq (H + a) out2 (H + a + adv2) \<and>
      ids out2 + ids rec2 + held r2 = held r1 + ids (concat (map event_pkts evs))"
    using Cons.IH [OF s(1,2) _ run] Cons.prems(3) step by simp
  have "ids (out1 @ out2) + ids (rec1 @ rec2) + held r2 =
      held r + ids (concat (map event_pkts (ev # evs)))"
    using mset_flow [OF s(4)] ih by simp
  then show ?case
    using ih in_seq_append [OF s(3)] by (simp add: res add.assoc)
qed simp

lemma window_mod: "n dvd 4096 \<Longrightarrow> window n (H mod 4096) buf \<longleftrightarrow> window n H buf"
proof -
  assume "n dvd 4096"
  then have "(H mod 4096 + k) mod n = (H + k) mod n" for k
    by (metis mod_add_left_eq mod_mod_cancel)
  moreover have "(H mod 4096 + k) mod 4096 = (H + k) mod 4096" for k
    by (simp add: mod_add_left_eq)
  ultimately show ?thesis
    by (simp only: window_def)
qed

lemma rinv_reorder_inv: "rinv H r \<Longrightarrow> reorder_inv r"
  by (simp add: reorder_inv_def rinv_def window_mod)

subsection \<open>Packets are neither lost nor duplicated\<close>

text \<open>
  The flow of packets needs no window: it holds for any buffer whose array has the length
  \<open>buf_size\<close>, whatever that length is and whether the session sleeps or not.
\<close>

definition flow ::
  "phl_tid_ampdu_rx \<Rightarrow> rtw_phl_rx_pkt list \<Rightarrow> phl_tid_ampdu_rx \<Rightarrow> rtw_phl_rx_pkt list \<Rightarrow> bool" where
  "flow r frames r1 frames1 \<longleftrightarrow>
     ids frames1 + held r1 = ids frames + held r \<and> buf_size r1 = buf_size r \<and>
     length (reorder_buf r1) = length (reorder_buf r) \<and> removed r1 = removed r"

lemma flow_refl [simp]: "flow r frames r frames"
  by (simp add: flow_def)

lemma flow_trans [trans]: "flow r f r1 f1 \<Longrightarrow> flow r1 f1 r2 f2 \<Longrightarrow> flow r f r2 f2"
  by (simp add: flow_def)

lemma flow_head [simp]: "flow r f (r1\<lparr>head_seq_num := h\<rparr>) f1 = flow r f r1 f1"
  by (simp add: flow_def)

lemma release_frame_flow:
  "phl_release_reorder_frame r i frames = (r1, frames1) \<Longrightarrow> flow r frames r1 frames1"
  using mset_slots_clear [of i "reorder_buf r"]
  by (auto simp: phl_release_reorder_frame_def flow_def rslot_def ids_def split: option.splits if_splits)

lemma release_ready_flow: "release_ready r frames = (r1, frames1) \<Longrightarrow> flow r frames r1 frames1"
proof (induction r frames rule: release_ready.induct)
  case (1 r frames)
  let ?i = "reorder_index r (head_seq_num r)"
  obtain r2 f2 where rel: "phl_release_reorder_frame r ?i frames = (r2, f2)"
    by fastforce
  show ?case
  proof (cases "rslot r ?i = None")
    case True
    then show ?thesis using 1(2) by (simp add: release_ready.simps [of r])
  next
    case False
    then have "release_ready r2 f2 = (r1, frames1)"
      using 1(2) rel by (auto simp: release_ready.simps [of r] Let_def)
    then show ?thesis
      using 1(1) [OF refl False rel [symmetric]] release_frame_flow [OF rel] flow_trans by blast
  qed
qed

lemma release_upto_flow: "release_upto r h frames = (r1, frames1) \<Longrightarrow> flow r frames r1 frames1"
proof (induction r h frames rule: release_upto.induct)
  case (1 r h frames)
  let ?i = "reorder_index r (head_seq_num r)"
  obtain r2 f2 where rel: "phl_release_reorder_frame r ?i frames = (r2, f2)"
    by fastforce
  show ?case
  proof (cases "seq_less (head_seq_num r) h \<and> stored_mpdu_num r \<noteq> 0")
    case True
    then have "release_upto r2 h f2 = (r1, frames1)"
      using 1(2) rel by (simp add: release_upto.simps [of r])
    then show ?thesis
      using 1(1) [OF True rel [symmetric]] release_frame_flow [OF rel] flow_trans by blast
  next
    case False
    then show ?thesis using 1(2) by (auto simp: release_upto.simps [of r])
  qed
qed

lemma release_timeout_flow:
  "release_timeout now js k r frames = (b, r1, frames1) \<Longrightarrow> flow r frames r1 frames1"
proof (induction now js k r frames rule: release_timeout.induct)
  case (2 now j js k r frames)
  obtain r2 f2 where rel: "phl_release_reorder_frame r j frames = (r2, f2)"
    by fastforce
  consider "rslot r j = None" | "rslot r j \<noteq> None" "k \<noteq> 0 \<and> not_timed_out r j now"
    | "rslot r j \<noteq> None" "\<not> (k \<noteq> 0 \<and> not_timed_out r j now)"
    by blast
  then show ?case
  proof cases
    case 3
    then have "release_timeout now js 0 (r2\<lparr>head_seq_num := (head_seq_num r2 + of_nat k) AND 0xFFF\<rparr>) f2 =
        (b, r1, frames1)"
      using 2(3) rel by auto
    from 2(2) [OF 3 rel [symmetric] this] release_frame_flow [OF rel] show ?thesis
      by (metis flow_head flow_trans)
  qed (use 2 in auto)
qed simp

lemma reorder_release_flow:
  "phl_reorder_release now r frames = (r1, frames1, armed) \<Longrightarrow> flow r frames r1 frames1"
  by (auto simp: phl_reorder_release_def Let_def split: if_splits prod.splits
      dest: release_ready_flow release_timeout_flow)

lemma release_frames_flow:
  "phl_release_reorder_frames r h frames = (r1, frames1) \<Longrightarrow> flow r frames r1 frames1"
  by (auto simp: phl_release_reorder_frames_def split: prod.splits dest: release_upto_flow)

definition buf_len_ok :: "phl_tid_ampdu_rx \<Rightarrow> bool" where
  "buf_len_ok r \<longleftrightarrow> length (reorder_buf r) = unat (buf_size r) \<and> 0 < unat (buf_size r)"

lemma manage_tail_flow:
  assumes "buf_len_ok r" and "res = manage_tail t1 t2 pkt r frames"
  shows "ids (manage_delivered pkt res) + ids (mg_recycled res) + held (mg_r res) =
           ids frames + held r + {#pkt_id pkt#} \<and> buf_len_ok (mg_r res)"
proof -
  let ?i = "reorder_index r (seq (mdata pkt))"
  have i: "?i < length (reorder_buf r)"
    using assms(1) by (simp add: buf_len_ok_def reorder_index_def)
  consider (dup) "rslot r ?i \<noteq> None"
    | (direct) "rslot r ?i = None" "seq (mdata pkt) = head_seq_num r \<and> stored_mpdu_num r = 0"
    | (store) "rslot r ?i = None" "\<not> (seq (mdata pkt) = head_seq_num r \<and> stored_mpdu_num r = 0)"
    by blast
  then show ?thesis
  proof cases
    case store
    define r3 where "r3 = r\<lparr>reorder_buf := (reorder_buf r)[?i := Some pkt],
      reorder_time := (reorder_time r)[?i := t1], stored_mpdu_num := stored_mpdu_num r + 1\<rparr>"
    obtain r4 f4 armed where rel: "phl_reorder_release t2 r3 frames = (r4, f4, armed)"
      by (metis prod_cases3)
    have "reorder_buf r ! ?i = None" using store(1) i by (simp add: rslot_def)
    then have "held r3 = held r + {#pkt_id pkt#}"
      using mset_slots_fill [OF i, of pkt] by (simp add: r3_def ids_def)
    moreover have "res = \<lparr>mg_ret = True, mg_r = r4, mg_frames = f4, mg_recycled = [], mg_armed = armed\<rparr>"
      using store rel by (auto simp: assms(2) manage_tail_def Let_def r3_def)
    moreover have "flow r3 frames r4 f4"
      by (rule reorder_release_flow [OF rel])
    ultimately show ?thesis
      using assms(1) by (simp add: manage_delivered_def flow_def buf_len_ok_def r3_def add.assoc)
  qed (use assms in \<open>auto simp: manage_tail_def manage_delivered_def Let_def buf_len_ok_def\<close>)
qed

text \<open>\<^verbatim>\<open>phl_manage_sta_reorder_buf\<close> as a prologue and \<open>manage_tail\<close>.\<close>

definition wake :: "u16 \<Rightarrow> phl_tid_ampdu_rx \<Rightarrow> phl_tid_ampdu_rx" where
  "wake s r = (let r0 = r\<lparr>started := True\<rparr>
               in if sleep r0 then r0\<lparr>head_seq_num := s, sleep := False\<rparr> else r0)"

lemma manage_unfold:
  "phl_manage_sta_reorder_buf t1 t2 pkt r frames =
     (if \<not> started r \<and> seq_less (seq (mdata pkt)) (head_seq_num r)
      then \<lparr>mg_ret = False, mg_r = r, mg_frames = frames, mg_recycled = [], mg_armed = False\<rparr>
      else if seq_less (seq (mdata pkt)) (head_seq_num (wake (seq (mdata pkt)) r))
      then \<lparr>mg_ret = True, mg_r = wake (seq (mdata pkt)) r, mg_frames = frames, mg_recycled = [pkt],
             mg_armed = False\<rparr>
      else (case (if \<not> seq_less (seq (mdata pkt)) (head_seq_num (wake (seq (mdata pkt)) r) +
                                                       buf_size (wake (seq (mdata pkt)) r))
                  then phl_release_reorder_frames (wake (seq (mdata pkt)) r)
                         (seq_inc (seq_sub (seq (mdata pkt)) (buf_size (wake (seq (mdata pkt)) r)))) frames
                  else (wake (seq (mdata pkt)) r, frames))
            of (r2, frames2) \<Rightarrow> manage_tail t1 t2 pkt r2 frames2))"
  by (simp only: phl_manage_sta_reorder_buf_def manage_tail_def Let_def wake_def)

lemma manage_flow:
  assumes "buf_len_ok r" and "res = phl_manage_sta_reorder_buf t1 t2 pkt r frames"
  shows "ids (manage_delivered pkt res) + ids (mg_recycled res) + held (mg_r res) =
           ids frames + held r + {#pkt_id pkt#} \<and> buf_len_ok (mg_r res)"
proof -
  let ?s = "seq (mdata pkt)"
  define r1 where "r1 = wake ?s r"
  have r1: "buf_len_ok r1" "held r1 = held r"
    using assms(1) by (simp_all add: r1_def wake_def buf_len_ok_def Let_def)
  obtain r2 f2 where r2: "(if \<not> seq_less ?s (head_seq_num r1 + buf_size r1)
       then phl_release_reorder_frames r1 (seq_inc (seq_sub ?s (buf_size r1))) frames else (r1, frames)) = (r2, f2)"
    by fastforce
  then have "flow r1 frames r2 f2"
    using release_frames_flow by (auto split: if_splits)
  then have f: "ids f2 + held r2 = ids frames + held r" "buf_len_ok r2"
    using r1 by (simp_all add: flow_def buf_len_ok_def)
  note eq = manage_unfold [of t1 t2 pkt r frames, folded r1_def assms(2)]
  consider (before) "\<not> started r \<and> seq_less ?s (head_seq_num r)"
    | (old) "\<not> (\<not> started r \<and> seq_less ?s (head_seq_num r))" "seq_less ?s (head_seq_num r1)"
    | (new) "\<not> (\<not> started r \<and> seq_less ?s (head_seq_num r))" "\<not> seq_less ?s (head_seq_num r1)"
    by blast
  then show ?thesis
  proof cases
    case before
    then show ?thesis using eq assms(1) by (simp add: manage_delivered_def)
  next
    case old
    then have "res = \<lparr>mg_ret = True, mg_r = r1, mg_frames = frames, mg_recycled = [pkt], mg_armed = False\<rparr>"
      using eq by simp
    then show ?thesis
      using r1 by (simp add: manage_delivered_def)
  next
    case new
    have "res = manage_tail t1 t2 pkt r2 f2"
      using eq unfolding r2 if_not_P [OF new(1)] if_not_P [OF new(2)] by simp
    from manage_tail_flow [OF f(2) this] show ?thesis
      by (simp add: f(1))
  qed
qed

subsection \<open>A session to run the properties on\<close>

definition pk :: "nat \<Rightarrow> u16 \<Rightarrow> rtw_phl_rx_pkt" where
  "pk i s = \<lparr>pkt_id = i,
     mdata = \<lparr>rx_deferred_release = False, pktlen = 100, rx_rate = 0, amsdu_cut = False,
       last_msdu = False, frame_type = 2, mc = False, bc = False, more_frag = False, pwr_bit = False,
       qos = True, tid = 0, q_null = False, seq = s, frag_num = 0, addr_cam_vld = True, macid = 1\<rparr>,
     len0 = 100, tx_sta = None\<rparr>"

definition session0 :: "u16 \<Rightarrow> phl_tid_ampdu_rx" where
  "session0 s = \<lparr>reorder_buf = [None, None, None, None], reorder_time = [0, 0, 0, 0],
     head_seq_num = s, stored_mpdu_num = 0, ssn = s, buf_size = 4, r_tid = 0,
     started = False, removed = False, sleep = False\<rparr>"

lemma pk_sel [simp]: "pkt_id (pk i s) = i" "seq (mdata (pk i s)) = s"
  by (simp_all add: pk_def)

lemma list_update_Cons_numeral [simp]: "(x # xs)[numeral k := y] = x # xs[pred_numeral k := y]"
  by (simp add: numeral_eq_Suc)

lemma upt_4: "[Suc 0..<4] = [1, 2, 3]"
  by (simp add: upt_rec numeral_eq_Suc)

lemmas reorder_eval = phl_manage_sta_reorder_buf_def phl_release_reorder_frame_def phl_reorder_release_def
  phl_release_reorder_frames_def release_ready.simps release_upto.simps manage_delivered_def
  reorder_index_def rslot_def seq_less_def seq_inc_def seq_sub_def not_timed_out_def ring_from_def
  session0_def upt_4 Let_def

definition session1 :: phl_tid_ampdu_rx where
  "session1 = (session0 4094)\<lparr>reorder_buf := [None, None, None, Some (pk 7 4095)],
     stored_mpdu_num := 1, started := True\<rparr>"

definition session5 :: phl_tid_ampdu_rx where
  "session5 = (session0 4094)\<lparr>reorder_buf := replicate 5 None, reorder_time := replicate 5 0, buf_size := 5,
     started := True\<rparr>"

definition session1_at :: "u16 \<Rightarrow> phl_tid_ampdu_rx" where
  "session1_at h = (session0 0)\<lparr>reorder_buf := [None, Some (pk 7 1), None, None], stored_mpdu_num := 1,
     started := True, head_seq_num := h\<rparr>"

lemma session1_step: "reorder_step (Mpdu 0 0 (pk 7 4095)) (session0 4094) = ([], [], session1)"
  by (simp add: reorder_eval session1_def)

lemma session1_dup: "reorder_step (Mpdu 20 20 (pk 2 4095)) session1 = ([], [pk 2 4095], session1)"
  by (simp add: reorder_eval session1_def)

lemma session1_fill:
  "reorder_step (Mpdu 30 30 (pk 3 4094)) session1 =
     ([deferred (pk 3 4094), deferred (pk 7 4095)], [],
      (session0 4094)\<lparr>head_seq_num := 0, started := True, reorder_time := [0, 0, 30, 0]\<rparr>)"
  by (simp add: reorder_eval session1_def)

lemma window_4:
  "window 4 H [a, b, c, d] \<longleftrightarrow>
     (\<forall>k\<in>{0, 1, 2, 3}. case [a, b, c, d] ! ((H + k) mod 4) of None \<Rightarrow> True
        | Some p \<Rightarrow> unat (seq (mdata p)) = (H + k) mod 4096)"
proof -
  have "k < 4 \<longleftrightarrow> k \<in> {0, 1, 2, 3}" for k :: nat
    by auto
  then have "(\<forall>k<4. P k) = (\<forall>k\<in>{0, 1, 2, 3}. P k)" for P :: "nat \<Rightarrow> bool"
    by blast
  then show ?thesis
    by (simp only: window_def)
qed

lemma sessions_inv: "reorder_inv (session0 4094)" "reorder_inv session1"
  by (simp_all add: reorder_inv_def rinv_def reorder_wf_def session0_def session1_def window_4)

subsection \<open>Properties\<close>

text \<open>
  C1. Reordering: over any run of arriving MPDUs, block-ack requests and timer expiries on a
  session, the frames delivered carry strictly increasing sequence numbers (counted from the head
  at the start, wrap-arounds included, none beyond the final head), and every packet that was
  buffered or arrived is delivered, recycled or still buffered, exactly once. The invariant holds
  again at the end.
\<close>

theorem reorder_run_in_order:
  assumes "reorder_inv r" and "\<not> sleep r" and "run_ok evs r"
    and "reorder_run evs r = (out, rec, adv, r')"
  shows "in_seq (unat (head_seq_num r)) out (unat (head_seq_num r) + adv) \<and>
         unat (head_seq_num r') = (unat (head_seq_num r) + adv) mod 4096 \<and>
         ids out + ids rec + held r' = held r + ids (concat (map event_pkts evs)) \<and>
         reorder_inv r' \<and> \<not> sleep r'"
  using reorder_run_ok [OF assms(1) [unfolded reorder_inv_def] assms(2-4)]
  by (auto simp: rinv_reorder_inv) (simp add: rinv_def)

theorem reorder_run_in_order_witness:
  "in_seq 4094 [deferred (pk 3 4094), deferred (pk 7 4095)] 4096 \<and>
   reorder_inv ((session0 4094)\<lparr>head_seq_num := 0, started := True, reorder_time := [0, 0, 30, 0]\<rparr>)"
proof -
  let ?evs = "[Mpdu 0 0 (pk 7 4095), Mpdu 20 20 (pk 2 4095), Mpdu 30 30 (pk 3 4094)]"
  let ?r' = "(session0 4094)\<lparr>head_seq_num := 0, started := True, reorder_time := [0, 0, 30, 0]\<rparr>"
  have heads: "head_seq_num (session0 4094) = 4094" "head_seq_num session1 = 4094" "started session1"
    by (simp_all add: session0_def session1_def)
  have run: "reorder_run ?evs (session0 4094) =
      ([deferred (pk 3 4094), deferred (pk 7 4095)], [pk 2 4095], 2, ?r')"
    by (simp add: session1_step session1_dup session1_fill heads del: reorder_step.simps)
  have ok: "run_ok ?evs (session0 4094)"
    by (simp add: session1_step session1_dup heads seq_less_def del: reorder_step.simps)
  have "\<not> sleep (session0 4094)"
    by (simp add: session0_def)
  from reorder_run_in_order [OF sessions_inv(1) this ok run] show ?thesis
    by (simp add: heads)
qed

text \<open>
  Releasing and the timer: \<^verbatim>\<open>phl_reorder_release\<close> leaves the slot at the new head empty, keeps
  the invariant, delivers what it takes out, and sets the timer exactly when frames are left and
  the session is not being removed. So no frame stays buffered without a timer running for it.
\<close>

theorem reorder_release_arms_timer:
  assumes "reorder_inv r" and "phl_reorder_release now r frames = (r', frames', armed)"
  shows "(armed \<longleftrightarrow> stored_mpdu_num r' \<noteq> 0 \<and> \<not> removed r) \<and>
         rslot r' (reorder_index r' (head_seq_num r')) = None \<and> reorder_inv r' \<and>
         ids frames' + held r' = ids frames + held r"
proof -
  obtain new H' where *: "frames' = frames @ new" "released (unat (head_seq_num r)) r new H' r'"
      "rslot r' (H' mod unat (buf_size r)) = None" "armed \<longleftrightarrow> stored_mpdu_num r' \<noteq> 0 \<and> \<not> removed r"
    using reorder_release_released [OF assms(1) [unfolded reorder_inv_def] refl assms(2)] by blast
  have inv: "rinv H' r'" "buf_size r' = buf_size r" "held r = ids new + held r'"
    using *(2) by (simp_all add: released_def same_cfg_def)
  show ?thesis
    using * inv rinv_index [OF inv(1)] rinv_reorder_inv [OF inv(1)] by (simp add: add.assoc)
qed

theorem reorder_release_arms_timer_witness:
  "snd (snd (phl_reorder_release 400 session1 [])) \<and> \<not> snd (snd (phl_reorder_release 500 session1 []))"
proof -
  have a: "phl_reorder_release 400 session1 [] = (session1, [], True)"
    by (simp add: reorder_eval session1_def)
  have b: "stored_mpdu_num (fst (phl_reorder_release 500 session1 [])) = 0"
    by (simp add: reorder_eval session1_def)
  obtain r' fs armed where c: "phl_reorder_release 500 session1 [] = (r', fs, armed)"
    by (metis prod_cases3)
  show ?thesis
    using reorder_release_arms_timer [OF sessions_inv(2) c] b a c by simp
qed

text \<open>
  No gap is skipped early: while no buffered frame has waited 500 ms, \<^verbatim>\<open>phl_reorder_release\<close>
  delivers exactly the frames that follow each other from the head on, and the head moves to the
  first missing sequence number.
\<close>

theorem reorder_release_consecutive:
  assumes "reorder_inv r" and "\<forall>i < unat (buf_size r). not_timed_out r i now"
    and "phl_reorder_release now r frames = (r', frames', armed)"
  shows "\<exists>new m. frames' = frames @ new \<and>
           map (\<lambda>p. unat (seq (mdata p))) new = map (\<lambda>i. (unat (head_seq_num r) + i) mod 4096) [0..<m] \<and>
           unat (head_seq_num r') = (unat (head_seq_num r) + m) mod 4096 \<and>
           rslot r' (reorder_index r' (head_seq_num r')) = None"
proof -
  let ?H = "unat (head_seq_num r)"
  obtain new H' where *: "frames' = frames @ new" "released ?H r new H' r'"
      "rslot r' (H' mod unat (buf_size r)) = None"
      "map (\<lambda>p. unat (seq (mdata p))) new = map (\<lambda>i. (?H + i) mod 4096) [0..<H' - ?H]"
    using reorder_release_released [OF assms(1) [unfolded reorder_inv_def] refl assms(3)] assms(2) by blast
  have inv: "rinv H' r'" "buf_size r' = buf_size r" "?H \<le> H'"
    using *(2) in_seq_le by (auto simp: released_def same_cfg_def)
  show ?thesis
    using * inv rinv_index [OF inv(1)]
    by (intro exI [of _ new] exI [of _ "H' - ?H"]) (simp add: rinv_def)
qed

theorem reorder_release_consecutive_witness:
  "\<exists>new m. snd (phl_reorder_release 400 session1 []) = (new, True) \<and>
     map (\<lambda>p. unat (seq (mdata p))) new = map (\<lambda>i. (4094 + i) mod 4096) [0..<m]"
proof -
  have fresh: "\<forall>i < unat (buf_size session1). not_timed_out session1 i 400"
  proof -
    have "i < 4 \<longleftrightarrow> i \<in> {0, 1, 2, 3}" for i :: nat
      by auto
    then show ?thesis
      by (simp add: session1_def session0_def not_timed_out_def)
  qed
  have a: "phl_reorder_release 400 session1 [] = (session1, [], True)"
    by (simp add: reorder_eval session1_def)
  have "unat (head_seq_num session1) = 4094"
    by (simp add: session1_def session0_def)
  then show ?thesis
    using reorder_release_consecutive [OF sessions_inv(2) fresh a] by (auto simp: a)
qed

text \<open>
  Timeout flushes the buffer: when every slot's time is more than 500 ms old and the frame at
  the head is missing, \<^verbatim>\<open>phl_reorder_release\<close> delivers all buffered frames, in sequence order, and
  sets no timer.
\<close>

theorem reorder_release_timeout_flushes:
  assumes "reorder_inv r" and "\<forall>i < unat (buf_size r). \<not> not_timed_out r i now"
    and "rslot r (reorder_index r (head_seq_num r)) = None"
    and "phl_reorder_release now r [] = (r', frames', armed)"
  shows "stored_mpdu_num r' = 0 \<and> \<not> armed \<and> ids frames' = held r \<and>
         in_seq (unat (head_seq_num r)) frames' (unat (head_seq_num r) + unat (buf_size r))"
proof -
  let ?H = "unat (head_seq_num r)"
  have inv: "rinv ?H r" using assms(1) by (simp add: reorder_inv_def)
  obtain H' where *: "released ?H r frames' H' r'" "H' \<le> ?H + unat (buf_size r)"
      "stored_mpdu_num r' = 0" "armed \<longleftrightarrow> stored_mpdu_num r' \<noteq> 0 \<and> \<not> removed r"
    using reorder_release_released [OF inv refl assms(4)] assms(2,3) rinv_index [OF inv] by auto
  have "slots (reorder_buf r') = []"
    using *(1,3) by (simp add: released_def rinv_def reorder_wf_def)
  then show ?thesis
    using * in_seq_weaken [of ?H frames' H'] by (simp add: released_def)
qed

theorem reorder_release_timeout_flushes_witness:
  "stored_mpdu_num (fst (phl_reorder_release 500 session1 [])) = 0 \<and>
   ids (fst (snd (phl_reorder_release 500 session1 []))) = {#7#}"
proof -
  have old: "\<forall>i < unat (buf_size session1). \<not> not_timed_out session1 i 500"
  proof -
    have "i < 4 \<longleftrightarrow> i \<in> {0, 1, 2, 3}" for i :: nat
      by auto
    then show ?thesis
      by (simp add: session1_def session0_def not_timed_out_def)
  qed
  have gap: "rslot session1 (reorder_index session1 (head_seq_num session1)) = None"
    by (simp add: session1_def session0_def rslot_def reorder_index_def)
  obtain r' fs armed where c: "phl_reorder_release 500 session1 [] = (r', fs, armed)"
    by (metis prod_cases3)
  show ?thesis
    using reorder_release_timeout_flushes [OF sessions_inv(2) old gap c] c
    by (simp add: session1_def session0_def)
qed

text \<open>When no stored frame is old enough, the timeout loop releases nothing behind a gap.\<close>

lemma release_timeout_waits:
  assumes "k \<noteq> 0" "\<forall>j \<in> set js. rslot r j \<noteq> None \<longrightarrow> not_timed_out r j now"
  shows "\<exists>b. release_timeout now js k r frames = (b, r, frames)"
  using assms by (induction js arbitrary: k) auto

lemma seq_less_number:
  assumes "uint a = x" "uint b = y"
  shows "seq_less a b \<longleftrightarrow> (x - y) mod 4096 > 2048"
  using assms by (simp add: seq_less_iff)

lemma slot_4095:
  assumes "4096 mod n \<noteq> (0::nat)" "1 < n"
  shows "4095 mod n = 4096 mod n - 1" "4094 mod n \<noteq> 4095 mod n"
proof -
  have m: "(Suc k :: nat) mod n = (if Suc (k mod n) = n then 0 else Suc (k mod n))" for k
    by (rule mod_Suc)
  show "4095 mod n = 4096 mod n - 1" using m [of 4095] assms(1) by (simp split: if_splits)
  show "4094 mod n \<noteq> 4095 mod n" using m [of 4094] assms(2) by (auto split: if_splits)
qed

text \<open>
  C34. Window sizes that do not fit the sequence numbers lose frames at the wrap-around: for every size
  from 1 to 2047 that divides neither 4096 nor 4097, let a started and empty session wait for 4094. The
  frame 4095 arrives, within 500 ms of its time stamp, and is stored; then the frame whose number is the
  remainder of 4096 by the size, less one, which is in the window and was never received, is recycled as
  if it were already stored, because it has the slot of 4095.
\<close>

theorem reorder_wrap_collision:
  assumes n: "n = unat (buf_size r)" "n < 2048" "\<not> n dvd 4096" "\<not> n dvd 4097" "0 < n"
    and r: "reorder_buf r = replicate n None" "length (reorder_time r) = n" "stored_mpdu_num r = 0"
      "head_seq_num r = 4094" "started r" "\<not> sleep r"
    and p: "seq (mdata p) = 4095" "sint (t1 + 500 - t2) > 0"
    and q: "unat (seq (mdata q)) = 4096 mod n - 1"
  shows "\<exists>r1. reorder_step (Mpdu t1 t2 p) r = ([], [], r1) \<and> head_seq_num r1 = 4094 \<and>
    slots (reorder_buf r1) = [p] \<and>
    seq (mdata q) \<noteq> 4095 \<and> unat (seq_sub (seq (mdata q)) (head_seq_num r1)) < n \<and>
    reorder_step (Mpdu t3 t4 q) r1 = ([], [q], r1)"
proof -
  define g where "g = 4096 mod n"
  have n0: "n \<noteq> 0" "n \<noteq> 1" using n(3,5) by (auto intro: ccontr)
  then have n1: "1 < n" by simp
  have g: "g \<noteq> 0" "g < n" using n(3) n0 by (auto simp: g_def mod_eq_0_iff_dvd)
  have "4097 mod n = (if Suc g = n then 0 else Suc g)" using mod_Suc [of 4096 n] by (simp add: g_def)
  then have "Suc g \<noteq> n" using n(4) by (metis mod_eq_0_iff_dvd)
  then have g2: "Suc g < n" using g(2) by simp
  note idx = slot_4095 [of n, folded g_def, OF g(1) n1]
  have un: "uint (buf_size r) = int n" using n(1) by simp
  have top: "uint (4094 + buf_size r) = 4094 + int n"
    using n(2) un by (simp add: uint_word_ariths)
  have uq: "uint (seq (mdata q)) = int g - 1" using q g(1) by (simp add: g_def uint_nat of_nat_diff)
  have in1: "seq_less 4095 (4094 + buf_size r)" "\<not> seq_less 4095 4094"
  proof -
    have "(1 - int n) mod 4096 = 4097 - int n"
      using n(2) n1 by (subst mod_add_self2 [symmetric]) (simp add: mod_pos_pos_trivial)
    then show "seq_less 4095 (4094 + buf_size r)"
      using n(2) unfolding seq_less_number [OF refl top] by simp
  qed (simp add: seq_less_def)
  have in2: "seq_less (seq (mdata q)) (4094 + buf_size r)" "\<not> seq_less (seq (mdata q)) 4094"
    "unat (seq_sub (seq (mdata q)) 4094) = Suc g"
  proof -
    have "(int g - 1 - (4094 + int n)) mod 4096 = (int g + 1 - int n + 4096) mod 4096"
      using mod_add_self2 [of "int g - 1 - (4094 + int n)" 4096] mod_add_self2 [of "int g + 1 - int n" 4096]
      by (simp add: algebra_simps)
    also have "\<dots> = int g + 1 - int n + 4096" using g2 n(2) by (intro mod_pos_pos_trivial) simp_all
    finally show "seq_less (seq (mdata q)) (4094 + buf_size r)"
      using g(1) n(2) unfolding seq_less_number [OF uq top] by simp
    have m: "(int g - 1 - 4094) mod 4096 = int g + 1"
      using mod_add_self2 [of "int g - 5095 + 1000" 4096] g2 n(2) by simp
    then show "\<not> seq_less (seq (mdata q)) 4094"
      using g2 n(2) unfolding seq_less_number [OF uq refl] by simp
    have "uint (seq_sub (seq (mdata q)) 4094) = int g + 1"
      unfolding seq_sub_def seq_diff uq using m by simp
    then show "unat (seq_sub (seq (mdata q)) 4094) = Suc g" by (metis Suc_eq_plus1 nat_int of_nat_Suc unat_eq_nat_uint of_nat_1 of_nat_add)
  qed
  let ?i = "4095 mod n"
  let ?r1 = "r\<lparr>reorder_buf := (reorder_buf r)[?i := Some p], reorder_time := (reorder_time r)[?i := t1],
     stored_mpdu_num := 1\<rparr>"
  have i: "?i < n" using n0 by simp
  have st: "r\<lparr>started := True\<rparr> = r" "?r1\<lparr>started := True\<rparr> = ?r1" using r(5) by (cases r; simp)+
  have slot: "rslot ?r1 j = (if j = ?i then Some p else None)" for j
    using r(1) i by (auto simp: rslot_def nth_list_update)
  have "not_timed_out ?r1 j t2" if "rslot ?r1 j \<noteq> None" for j
    using that p(2) i r(2) by (auto simp: slot not_timed_out_def split: if_splits)
  then obtain b where wait: "release_timeout t2 (ring_from n (4094 mod n)) 1 ?r1 [] = (b, ?r1, [])"
    using release_timeout_waits [of 1 "ring_from n (4094 mod n)" ?r1 t2 "[]"] by auto
  have "phl_reorder_release t2 ?r1 [] = (?r1, [], \<not> removed r)"
    using wait idx(2) n(1) r(4) slot [of "4094 mod n"]
    by (simp add: phl_reorder_release_def reorder_index_def)
  moreover have "rslot r ?i = None" using r(1) i by (simp add: rslot_def)
  ultimately have 1: "reorder_step (Mpdu t1 t2 p) r = ([], [], ?r1)"
    using in1 r n(1) p(1)
    by (simp add: st(1) phl_manage_sta_reorder_buf_def manage_delivered_def reorder_index_def Let_def)
  have "reorder_index ?r1 (seq (mdata q)) = ?i"
    using q idx(1) g n(1) by (simp add: reorder_index_def g_def)
  then have 2: "reorder_step (Mpdu t3 t4 q) ?r1 = ([], [q], ?r1)"
    using in2 r slot [of ?i]
    unfolding reorder_step.simps phl_manage_sta_reorder_buf_def Let_def st(2)
    by (simp add: manage_delivered_def)
  have "slots ((replicate n None)[?i := Some p]) = [p]"
    using i by (simp add: slots_def upd_conv_take_nth_drop List.map_filter_def)
  moreover have "seq (mdata q) \<noteq> 4095" using q n(2) g(2) by (auto simp: g_def)
  ultimately show ?thesis using 1 2 in2(3) g2 r(1,4) by (intro exI [of _ ?r1]) simp
qed

theorem reorder_wrap_collision_witness:
  "\<exists>r1. reorder_step (Mpdu 0 0 (pk 7 4095)) session5 = ([], [], r1) \<and> slots (reorder_buf r1) = [pk 7 4095] \<and>
     reorder_step (Mpdu 1 1 (pk 2 0)) r1 = ([], [pk 2 0], r1)"
  using reorder_wrap_collision [of 5 session5 "pk 7 4095" 0 0 "pk 2 0" 1 1]
  by (auto simp: session5_def session0_def)

text \<open>
  A block-ack request exactly 2048 ahead of the head moves the head without releasing the
  frames behind it: the buffered frame 1 is delivered after frame 2048, as if it were 2049.
\<close>

theorem bar_half_space:
  "reorder_step (Bar 2048) (session1_at 0) = ([], [], session1_at 2048) \<and>
   map (\<lambda>p. seq (mdata p)) (fst (reorder_step (Mpdu 5 5 (pk 2 2048)) (session1_at 2048))) = [2048, 1]"
proof
  show "reorder_step (Bar 2048) (session1_at 0) = ([], [], session1_at 2048)"
    by (simp add: reorder_eval session1_at_def)
  show "map (\<lambda>p. seq (mdata p)) (fst (reorder_step (Mpdu 5 5 (pk 2 2048)) (session1_at 2048))) = [2048, 1]"
    by (simp add: reorder_eval session1_at_def)
qed

end
