(* ===== verification/Phl_List.thy ===== *)
theory Phl_List
  imports Phl_Prelude
begin

section \<open>Intrusive doubly linked lists (phl/phl_list.h)\<close>

text \<open>
  The circular doubly linked list of \<^verbatim>\<open>phl_list.h\<close> at pointer level: a heap gives the
  \<open>next\<close> and \<open>prev\<close> field of every \<^verbatim>\<open>struct list_head\<close>, and each primitive is the field
  updates of its C body, in their order. \<open>dll h lh xs\<close> says that the nodes \<open>xs\<close> are linked,
  in that order, into the list with head \<open>lh\<close>. The lemmas give the effect of every primitive
  on that abstraction; \<open>Phl_Queue\<close> builds the queue refinement on them. The header defines these
  primitives for platforms other than Linux; the Linux build takes those of the kernel's \<^verbatim>\<open>list.h\<close>,
  from which they are copied.
\<close>

type_synonym addr = nat

record list_heap =
  hnext :: "addr \<Rightarrow> addr"
  hprev :: "addr \<Rightarrow> addr"

definition LIST_POISON1 :: addr where "LIST_POISON1 = 0x00100100"
definition LIST_POISON2 :: addr where "LIST_POISON2 = 0x00200200"

definition set_next :: "addr \<Rightarrow> addr \<Rightarrow> list_heap \<Rightarrow> list_heap" where
  "set_next a v h = h\<lparr>hnext := (hnext h)(a := v)\<rparr>"

definition set_prev :: "addr \<Rightarrow> addr \<Rightarrow> list_heap \<Rightarrow> list_heap" where
  "set_prev a v h = h\<lparr>hprev := (hprev h)(a := v)\<rparr>"

definition INIT_LIST_HEAD :: "list_heap \<Rightarrow> addr \<Rightarrow> list_heap" where
  "INIT_LIST_HEAD h l = set_prev l l (set_next l l h)"

definition list_empty :: "list_heap \<Rightarrow> addr \<Rightarrow> bool" where
  "list_empty h lh \<longleftrightarrow> hnext h lh = lh"

text \<open>\<^verbatim>\<open>__list_add\<close>: insert between two consecutive entries.\<close>

definition list_add_raw :: "list_heap \<Rightarrow> addr \<Rightarrow> addr \<Rightarrow> addr \<Rightarrow> list_heap" where
  "list_add_raw h new prev next =
     set_next prev new (set_prev new prev (set_next new next (set_prev next new h)))"

definition list_add :: "list_heap \<Rightarrow> addr \<Rightarrow> addr \<Rightarrow> list_heap" where
  "list_add h new lh = list_add_raw h new lh (hnext h lh)"

definition list_add_tail :: "list_heap \<Rightarrow> addr \<Rightarrow> addr \<Rightarrow> list_heap" where
  "list_add_tail h new lh = list_add_raw h new (hprev h lh) lh"

text \<open>\<^verbatim>\<open>__list_del\<close>: make two entries point to each other.\<close>

definition list_del_raw :: "list_heap \<Rightarrow> addr \<Rightarrow> addr \<Rightarrow> list_heap" where
  "list_del_raw h prev next = set_next prev next (set_prev next prev h)"

definition list_del :: "list_heap \<Rightarrow> addr \<Rightarrow> list_heap" where
  "list_del h e =
     set_prev e LIST_POISON2 (set_next e LIST_POISON1
       (list_del_raw h (hprev h e) (hnext h e)))"

lemma hnext_set_next [simp]: "hnext (set_next a v h) b = (if b = a then v else hnext h b)"
  by (simp add: set_next_def)

lemma hprev_set_next [simp]: "hprev (set_next a v h) = hprev h"
  by (simp add: set_next_def)

lemma hnext_set_prev [simp]: "hnext (set_prev a v h) = hnext h"
  by (simp add: set_prev_def)

lemma hprev_set_prev [simp]: "hprev (set_prev a v h) b = (if b = a then v else hprev h b)"
  by (simp add: set_prev_def)

subsection \<open>The list a head stands for\<close>

fun links :: "list_heap \<Rightarrow> addr list \<Rightarrow> bool" where
  "links h (a # b # r) = (hnext h a = b \<and> hprev h b = a \<and> links h (b # r))"
| "links h xs = True"

definition dll :: "list_heap \<Rightarrow> addr \<Rightarrow> addr list \<Rightarrow> bool" where
  "dll h lh xs \<longleftrightarrow> distinct (lh # xs) \<and> links h (lh # xs @ [lh])"

lemma links_split: "links h (xs @ a # ys) \<longleftrightarrow> links h (xs @ [a]) \<and> links h (a # ys)"
proof (induction xs)
  case (Cons x xs)
  then show ?case by (cases xs) auto
qed simp

lemma links_set_next: "a \<notin> set (butlast xs) \<Longrightarrow> links (set_next a v h) xs = links h xs"
  by (induction h xs rule: links.induct) (auto split: if_splits)

lemma links_set_prev: "b \<notin> set (tl xs) \<Longrightarrow> links (set_prev b v h) xs = links h xs"
  by (induction h xs rule: links.induct) (auto simp: neq_Nil_conv)

lemma links_set_fresh:
  assumes "a \<notin> set xs"
  shows "links (set_next a v h) xs = links h xs" and "links (set_prev a v h) xs = links h xs"
  using assms by (meson links_set_next in_set_butlastD, cases xs) (auto simp: links_set_prev)

lemma dll_Nil_iff: "dll h lh [] \<longleftrightarrow> hnext h lh = lh \<and> hprev h lh = lh"
  by (simp add: dll_def)

lemma dll_INIT: "dll (INIT_LIST_HEAD h lh) lh []"
  by (simp add: dll_Nil_iff INIT_LIST_HEAD_def)

lemma dll_distinct: "dll h lh xs \<Longrightarrow> distinct xs \<and> lh \<notin> set xs"
  by (simp add: dll_def)

text \<open>The neighbours of a node, and of the head.\<close>

lemma dll_junction:
  assumes "dll h lh (as @ bs)"
  shows "hnext h (last (lh # as)) = hd (bs @ [lh]) \<and>
         hprev h (hd (bs @ [lh])) = last (lh # as)"
proof -
  obtain P p where P: "lh # as = P @ [p]"
    by (metis append_butlast_last_id list.distinct(1))
  obtain s S where S: "bs @ [lh] = s # S"
    by (cases "bs @ [lh]") auto
  have "lh # (as @ bs) @ [lh] = P @ p # s # S"
    using P S by (metis append.assoc append_Cons append_Nil)
  then have "links h (P @ p # s # S)"
    using assms by (simp only: dll_def)
  then have "links h (p # s # S)"
    using links_split by blast
  then show ?thesis
    using P S by simp
qed

lemma dll_next_head: "dll h lh xs \<Longrightarrow> hnext h lh = hd (xs @ [lh])"
  using dll_junction [of h lh "[]" xs] by simp

lemma dll_prev_head: "dll h lh xs \<Longrightarrow> hprev h lh = last (lh # xs)"
  using dll_junction [of h lh xs "[]"] by simp

lemma dll_next_node: "dll h lh (as @ x # bs) \<Longrightarrow> hnext h x = hd (bs @ [lh])"
  using dll_junction [of h lh "as @ [x]" bs] by simp

lemma dll_prev_node: "dll h lh (as @ x # bs) \<Longrightarrow> hprev h x = last (lh # as)"
  using dll_junction [of h lh as "x # bs"] by simp

lemma dll_empty: "dll h lh xs \<Longrightarrow> list_empty h lh \<longleftrightarrow> xs = []"
  using dll_next_head [of h lh xs] by (cases xs) (auto simp: list_empty_def dll_def)

subsection \<open>Insertion and deletion\<close>

lemma dll_insert:
  assumes d: "dll h lh (as @ bs)" and new: "new \<notin> set (lh # as @ bs)"
  shows "dll (list_add_raw h new (last (lh # as)) (hd (bs @ [lh]))) lh (as @ new # bs)"
proof -
  define h' where "h' = list_add_raw h new (last (lh # as)) (hd (bs @ [lh]))"
  obtain P p where P: "lh # as = P @ [p]"
    by (metis append_butlast_last_id list.distinct(1))
  obtain s S where S: "bs @ [lh] = s # S"
    by (cases "bs @ [lh]") auto
  have p: "last (lh # as) = p" and s: "hd (bs @ [lh]) = s"
    using P S by (metis last_snoc, metis list.sel(1))
  then have h': "h' = list_add_raw h new p s"
    by (simp only: h'_def)
  have whole: "lh # (as @ bs) @ [lh] = P @ p # s # S"
    using P S by (metis append.assoc append_Cons append_Nil)
  have "distinct (lh # as)" "distinct (bs @ [lh])"
    using d by (auto simp: dll_def)
  then have dist: "distinct (P @ [p])" "distinct (s # S)"
    by (simp_all only: P S)
  have tlP: "tl (P @ [p]) = as" and setP: "set (P @ [p]) = insert lh (set as)"
    using arg_cong [OF P, of tl] arg_cong [OF P, of set] by simp_all
  have blS: "butlast (s # S) = bs" and setS: "set (s # S) = insert lh (set bs)"
    using arg_cong [OF S, of butlast] arg_cong [OF S, of set] by simp_all
  have "s \<in> insert lh (set bs)" "p \<in> insert lh (set as)"
    using setP setS by auto
  then have side: "p \<notin> set (butlast (P @ [p]))" "s \<notin> set (tl (P @ [p]))"
      "p \<notin> set (butlast (s # S))" "s \<notin> set (tl (s # S))"
    using d dist by (auto simp: dll_def tlP blS simp del: butlast.simps)
  have fresh: "new \<notin> set (P @ [p])" "new \<notin> set (s # S)"
    using new by (auto simp only: setP setS) (auto)
  have "links h (P @ [p])" "links h (s # S)"
    using d whole links_split [of h P p "s # S"] by (simp_all add: dll_def)
  then have "links h' (P @ [p])" "links h' (s # S)"
    using side fresh
    by (simp_all add: h' list_add_raw_def links_set_next links_set_prev links_set_fresh
        del: butlast.simps butlast_snoc)
  moreover have "hnext h' p = new" "hprev h' new = p" "hnext h' new = s" "hprev h' s = new"
    using fresh by (auto simp: h' list_add_raw_def)
  ultimately have "links h' (P @ p # new # s # S)"
    using links_split [of h' P p "new # s # S"] by simp
  moreover have "P @ p # new # s # S = lh # (as @ new # bs) @ [lh]"
    using P S by (metis append.assoc append_Cons append_Nil)
  ultimately show ?thesis
    using d new by (auto simp: dll_def h'_def simp del: last.simps)
qed

lemma dll_delete:
  assumes d: "dll h lh (as @ e # bs)"
  shows "dll (list_del h e) lh (as @ bs)"
proof -
  obtain P p where P: "lh # as = P @ [p]"
    by (metis append_butlast_last_id list.distinct(1))
  obtain s S where S: "bs @ [lh] = s # S"
    by (cases "bs @ [lh]") auto
  have pv: "hprev h e = p" and nx: "hnext h e = s"
    using dll_prev_node [OF d] dll_next_node [OF d] P S by (metis last_snoc, metis list.sel(1))
  have whole: "lh # (as @ e # bs) @ [lh] = P @ p # e # s # S"
    using P S by (metis append.assoc append_Cons append_Nil)
  have tlP: "tl (P @ [p]) = as" and setP: "set (P @ [p]) = insert lh (set as)"
    using arg_cong [OF P, of tl] arg_cong [OF P, of set] by simp_all
  have blS: "butlast (s # S) = bs" and setS: "set (s # S) = insert lh (set bs)"
    using arg_cong [OF S, of butlast] arg_cong [OF S, of set] by simp_all
  have "distinct (lh # as)" "distinct (bs @ [lh])"
    using d by (auto simp: dll_def)
  then have dist: "distinct (P @ [p])" "distinct (s # S)"
    by (simp_all only: P S)
  have mem: "s \<in> insert lh (set bs)" "p \<in> insert lh (set as)"
    using setP setS by auto
  then have side: "p \<notin> set (butlast (P @ [p]))" "s \<notin> set (tl (P @ [p]))"
      "p \<notin> set (butlast (s # S))" "s \<notin> set (tl (s # S))"
    using d dist by (auto simp: dll_def tlP blS simp del: butlast.simps)
  have fresh: "e \<notin> set (P @ [p])" "e \<notin> set (s # S)"
    using d by (auto simp only: setP setS) (auto simp: dll_def)
  have "links h (P @ p # e # s # S)"
    using d whole by (simp only: dll_def)
  then have "links h (P @ [p])" "links h (s # S)"
    using links_split [of h P p "e # s # S"] by simp_all
  then have "links (list_del h e) (P @ [p])" "links (list_del h e) (s # S)"
    using side fresh
    by (simp_all add: list_del_def list_del_raw_def pv nx links_set_next links_set_prev links_set_fresh
        del: butlast.simps butlast_snoc)
  moreover have "hnext (list_del h e) p = s" "hprev (list_del h e) s = p"
    using fresh by (auto simp: list_del_def list_del_raw_def pv nx)
  ultimately have "links (list_del h e) (P @ p # s # S)"
    using links_split [of "list_del h e" P p "s # S"] by simp
  moreover have "P @ p # s # S = lh # (as @ bs) @ [lh]"
    using P S by (metis append.assoc append_Cons append_Nil)
  ultimately show ?thesis
    using d by (auto simp: dll_def)
qed

lemma dll_list_add:
  "dll h lh xs \<Longrightarrow> new \<notin> set (lh # xs) \<Longrightarrow> dll (list_add h new lh) lh (new # xs)"
  using dll_insert [of h lh "[]" xs new] by (simp add: list_add_def dll_next_head)

lemma dll_list_add_tail:
  "dll h lh xs \<Longrightarrow> new \<notin> set (lh # xs) \<Longrightarrow> dll (list_add_tail h new lh) lh (xs @ [new])"
  using dll_insert [of h lh xs "[]" new]
  by (simp add: list_add_tail_def dll_prev_head del: last.simps)

text \<open>\<^verbatim>\<open>list_add_tail\<close> before an inner node, as \<^verbatim>\<open>pq_insert\<close> uses it.\<close>

lemma dll_list_add_before:
  assumes "dll h lh (as @ x # bs)" and "new \<notin> set (lh # as @ x # bs)"
  shows "dll (list_add_tail h new x) lh (as @ new # x # bs)"
  using dll_insert [of h lh as "x # bs" new] assms
  by (simp add: list_add_tail_def dll_prev_node [OF assms(1)] del: last.simps)

lemma dll_list_del_remove1:
  assumes "dll h lh xs" and "e \<in> set xs"
  shows "dll (list_del h e) lh (remove1 e xs)"
proof -
  obtain as bs where "xs = as @ e # bs" "e \<notin> set as"
    using split_list_first [OF assms(2)] by blast
  then show ?thesis
    using dll_delete [of h lh as e bs] assms(1) by (simp add: remove1_append_notin)
qed

text \<open>
  Two lists with different heads and disjoint nodes do not interfere: a primitive on one of
  them keeps the other.
\<close>

lemma dll_frame:
  assumes "dll h lh xs"
    and "\<And>a. a \<in> set (lh # xs) \<Longrightarrow> hnext h' a = hnext h a \<and> hprev h' a = hprev h a"
  shows "dll h' lh xs"
proof -
  have "links h ys \<Longrightarrow> set ys \<subseteq> set (lh # xs) \<Longrightarrow> links h' ys" for ys
    by (induction ys rule: induct_list012) (auto simp: assms(2))
  then show ?thesis
    using assms(1) by (simp add: dll_def)
qed

end
