(* ===== verification/Phl_Queue.thy ===== *)
theory Phl_Queue
  imports Phl_List
begin

section \<open>PHL queues (phl/phl_util.c)\<close>

text \<open>
  \<^verbatim>\<open>struct phl_queue\<close> and the \<open>pq_*\<close> operations, twice. At list level a queue is the list of
  its nodes and the counter \<open>cnt\<close>; this is the model the client components use. At pointer
  level (\<open>hpq_*\<close>) the operations are the pointer code of \<^verbatim>\<open>phl_util.c\<close> over the heap of
  \<open>Phl_List\<close>. The refinement lemmas relate the two operation by operation. The spinlock around
  every body makes each operation one atomic step, which is how both levels present it. The counter is
  an unbounded integer where the code has an \<^verbatim>\<open>int\<close>: no queue comes near its bounds.

  The locale \<open>fifo\<close> is the contract the clients of a queue rely on; both levels interpret it
  here, and the receive ring of \<open>Phl_Rx_Ring\<close> does so too.
\<close>

datatype list_pos = First | Tail

record 'a phl_queue =
  queue :: "'a list"
  cnt :: int

subsection \<open>List level\<close>

definition pq_init :: "'a phl_queue" where
  "pq_init = \<lparr>queue = [], cnt = 0\<rparr>"

definition pq_reset :: "'a phl_queue \<Rightarrow> 'a phl_queue" where
  "pq_reset q = q\<lparr>queue := [], cnt := 0\<rparr>"

definition pq_push :: "'a phl_queue \<Rightarrow> 'a \<Rightarrow> list_pos \<Rightarrow> 'a phl_queue" where
  "pq_push q obj pos =
     q\<lparr>queue := (if pos = First then obj # queue q else queue q @ [obj]), cnt := cnt q + 1\<rparr>"

text \<open>The result of the operations with an \<^verbatim>\<open>obj\<close> output: \<open>None\<close> is the return value false.\<close>

definition pq_pop :: "'a phl_queue \<Rightarrow> list_pos \<Rightarrow> 'a option \<times> 'a phl_queue" where
  "pq_pop q pos =
     (if queue q \<noteq> [] \<and> cnt q > 0
      then if pos = First
           then (Some (hd (queue q)), q\<lparr>queue := tl (queue q), cnt := cnt q - 1\<rparr>)
           else (Some (last (queue q)), q\<lparr>queue := butlast (queue q), cnt := cnt q - 1\<rparr>)
      else (None, q))"

definition pq_get_front :: "'a phl_queue \<Rightarrow> 'a option" where
  "pq_get_front q = (if queue q \<noteq> [] \<and> cnt q > 0 then Some (hd (queue q)) else None)"

definition pq_get_tail :: "'a phl_queue \<Rightarrow> 'a option" where
  "pq_get_tail q = (if queue q \<noteq> [] \<and> cnt q > 0 then Some (last (queue q)) else None)"

fun next_in :: "'a list \<Rightarrow> 'a \<Rightarrow> 'a option" where
  "next_in (x # y # r) a = (if x = a then Some y else next_in (y # r) a)"
| "next_in _ a = None"

definition pq_get_next :: "'a phl_queue \<Rightarrow> 'a option \<Rightarrow> 'a option" where
  "pq_get_next q cur = (case cur of None \<Rightarrow> None | Some a \<Rightarrow> next_in (queue q) a)"

definition pq_get_prev :: "'a phl_queue \<Rightarrow> 'a option \<Rightarrow> 'a option" where
  "pq_get_prev q cur = (case cur of None \<Rightarrow> None | Some a \<Rightarrow> next_in (rev (queue q)) a)"

definition pq_search_node ::
  "'a phl_queue \<Rightarrow> bool \<Rightarrow> ('a \<Rightarrow> bool) option \<Rightarrow> 'a option \<times> 'a phl_queue" where
  "pq_search_node q bdel search_fun =
     (if queue q \<noteq> [] \<and> cnt q > 0
      then case List.find (case search_fun of None \<Rightarrow> (\<lambda>_. False) | Some f \<Rightarrow> f) (queue q) of
             None \<Rightarrow> (None, q)
           | Some x \<Rightarrow>
               (Some x,
                if bdel then q\<lparr>queue := remove1 x (queue q), cnt := cnt q - 1\<rparr> else q)
      else (None, q))"

definition pq_del_node :: "'a phl_queue \<Rightarrow> 'a option \<Rightarrow> 'a phl_queue" where
  "pq_del_node q obj =
     (case obj of
        None \<Rightarrow> q
      | Some x \<Rightarrow> q\<lparr>queue := remove1 x (queue q), cnt := cnt q - 1\<rparr>)"

definition pq_insert :: "'a phl_queue \<Rightarrow> 'a \<Rightarrow> ('a \<Rightarrow> 'a \<Rightarrow> bool) option \<Rightarrow> 'a phl_queue" where
  "pq_insert q input pred =
     (let before = (case pred of None \<Rightarrow> (\<lambda>_. False) | Some p \<Rightarrow> p input)
      in q\<lparr>queue := takeWhile (\<lambda>x. \<not> before x) (queue q) @ input #
                    dropWhile (\<lambda>x. \<not> before x) (queue q),
           cnt := cnt q + 1\<rparr>)"

text \<open>Well-formed: the counter is the length and no node is linked twice.\<close>

definition pq_wf :: "'a phl_queue \<Rightarrow> bool" where
  "pq_wf q \<longleftrightarrow> cnt q = int (length (queue q)) \<and> distinct (queue q)"

lemma pq_wf_init [simp]: "pq_wf pq_init"
  by (simp add: pq_wf_def pq_init_def)

lemma pq_wf_reset [simp]: "pq_wf (pq_reset q)"
  by (simp add: pq_wf_def pq_reset_def)

lemma pq_wf_push [phl_inv]: "pq_wf q \<Longrightarrow> x \<notin> set (queue q) \<Longrightarrow> pq_wf (pq_push q x pos)"
  by (auto simp: pq_wf_def pq_push_def)

lemma queue_pq_push [simp]:
  "queue (pq_push q x Tail) = queue q @ [x]" "queue (pq_push q x First) = x # queue q"
  by (simp_all add: pq_push_def)

lemma pq_pop_First:
  "pq_wf q \<Longrightarrow>
   pq_pop q First =
     (case queue q of
        [] \<Rightarrow> (None, q)
      | x # xs \<Rightarrow> (Some x, q\<lparr>queue := xs, cnt := cnt q - 1\<rparr>))"
  by (auto simp: pq_pop_def pq_wf_def split: list.split)

lemma pq_wf_pop [phl_inv]: "pq_wf q \<Longrightarrow> pq_wf (snd (pq_pop q pos))"
  by (cases "queue q" rule: rev_cases; cases "queue q")
     (auto simp: pq_pop_def pq_wf_def of_nat_diff distinct_tl)

lemma int_length_pred: "x \<in> set xs \<Longrightarrow> int (length xs - Suc 0) = int (length xs) - 1"
  by (cases xs) auto

lemma pq_wf_del_node [phl_inv]:
  "pq_wf q \<Longrightarrow> (case x of None \<Rightarrow> True | Some a \<Rightarrow> a \<in> set (queue q)) \<Longrightarrow> pq_wf (pq_del_node q x)"
  by (auto simp: pq_del_node_def pq_wf_def length_remove1 int_length_pred
      split: option.splits)

lemma pq_wf_search [phl_inv]: "pq_wf q \<Longrightarrow> pq_wf (snd (pq_search_node q bdel f))"
  by (auto simp: pq_search_node_def pq_wf_def length_remove1 int_length_pred
      dest!: find_in_set split: option.splits)

lemma mset_pq_insert: "mset (queue (pq_insert q x p)) = add_mset x (mset (queue q))"
proof -
  have "mset (takeWhile P ys) + mset (dropWhile P ys) = mset ys" for P and ys :: "'a list"
    by (metis mset_append takeWhile_dropWhile_id)
  then show ?thesis
    by (simp add: pq_insert_def Let_def)
qed

lemma pq_wf_insert [phl_inv]:
  assumes "pq_wf q" and "x \<notin> set (queue q)"
  shows "pq_wf (pq_insert q x p)"
proof -
  have m: "mset (queue (pq_insert q x p)) = mset (x # queue q)"
    by (simp add: mset_pq_insert)
  have "distinct (queue (pq_insert q x p))"
    using mset_eq_imp_distinct_iff [OF m] assms by (simp add: pq_wf_def)
  moreover have "length (queue (pq_insert q x p)) = Suc (length (queue q))"
    using mset_eq_length [OF m] by simp
  moreover have "cnt (pq_insert q x p) = cnt q + 1"
    by (simp add: pq_insert_def Let_def)
  ultimately show ?thesis
    using assms(1) by (simp add: pq_wf_def)
qed

subsection \<open>The contract of a queue\<close>

text \<open>
  What a producer and a consumer rely on: an accepted element is appended, a removal takes the
  oldest element, and a removal fails only when nothing is stored. \<open>admits\<close> is the caller's
  obligation (a node may not be linked twice); \<open>push\<close> may refuse (a bounded ring is full).
\<close>

datatype 'a fifo_op = Push 'a | Pop

text \<open>A sequence of operations: the accepted elements, the removed ones, the final state.\<close>

fun fifo_run ::
  "('a \<Rightarrow> 'q \<Rightarrow> 'q option) \<Rightarrow> ('q \<Rightarrow> ('a \<times> 'q) option) \<Rightarrow> 'q \<Rightarrow> 'a fifo_op list
     \<Rightarrow> 'a list \<times> 'a list \<times> 'q" where
  "fifo_run push pop q [] = ([], [], q)"
| "fifo_run push pop q (Push x # ops) =
     (case push x q of
        None \<Rightarrow> fifo_run push pop q ops
      | Some q1 \<Rightarrow> (case fifo_run push pop q1 ops of (acc, out, q2) \<Rightarrow> (x # acc, out, q2)))"
| "fifo_run push pop q (Pop # ops) =
     (case pop q of
        None \<Rightarrow> fifo_run push pop q ops
      | Some (x, q1) \<Rightarrow> (case fifo_run push pop q1 ops of (acc, out, q2) \<Rightarrow> (acc, x # out, q2)))"

fun fifo_admissible ::
  "('q \<Rightarrow> 'a \<Rightarrow> bool) \<Rightarrow> ('a \<Rightarrow> 'q \<Rightarrow> 'q option) \<Rightarrow> ('q \<Rightarrow> ('a \<times> 'q) option) \<Rightarrow> 'q
     \<Rightarrow> 'a fifo_op list \<Rightarrow> bool" where
  "fifo_admissible admits push pop q [] = True"
| "fifo_admissible admits push pop q (Push x # ops) =
     (admits q x \<and>
      (case push x q of None \<Rightarrow> fifo_admissible admits push pop q ops
                      | Some q1 \<Rightarrow> fifo_admissible admits push pop q1 ops))"
| "fifo_admissible admits push pop q (Pop # ops) =
     (case pop q of None \<Rightarrow> fifo_admissible admits push pop q ops
                  | Some (x, q1) \<Rightarrow> fifo_admissible admits push pop q1 ops)"

locale fifo =
  fixes push :: "'a \<Rightarrow> 'q \<Rightarrow> 'q option"
    and pop :: "'q \<Rightarrow> ('a \<times> 'q) option"
    and contents :: "'q \<Rightarrow> 'a list"
    and inv :: "'q \<Rightarrow> bool"
    and admits :: "'q \<Rightarrow> 'a \<Rightarrow> bool"
  assumes push_inv: "inv q \<Longrightarrow> admits q x \<Longrightarrow> push x q = Some q1 \<Longrightarrow> inv q1"
    and push_contents:
      "inv q \<Longrightarrow> admits q x \<Longrightarrow> push x q = Some q1 \<Longrightarrow> contents q1 = contents q @ [x]"
    and pop_None: "inv q \<Longrightarrow> pop q = None \<longleftrightarrow> contents q = []"
    and pop_inv: "inv q \<Longrightarrow> pop q = Some (x, q1) \<Longrightarrow> inv q1"
    and pop_contents: "inv q \<Longrightarrow> pop q = Some (x, q1) \<Longrightarrow> contents q = x # contents q1"
begin

lemma run_in_order:
  assumes "inv q" and "fifo_admissible admits push pop q ops"
    and "fifo_run push pop q ops = (acc, out, q')"
  shows "inv q' \<and> contents q @ acc = out @ contents q'"
  using assms
proof (induction ops arbitrary: q acc out)
  case Nil
  then show ?case by simp
next
  case (Cons op ops)
  show ?case
  proof (cases op)
    case (Push x)
    show ?thesis
    proof (cases "push x q")
      case None
      then show ?thesis
        using Cons.prems Cons.IH [of q acc out] Push by simp
    next
      case (Some q1)
      obtain acc1 out1 q2 where run: "fifo_run push pop q1 ops = (acc1, out1, q2)"
        by (metis prod_cases3)
      have "inv q1" "contents q1 = contents q @ [x]"
        using Cons.prems push_inv push_contents Push Some by auto
      then show ?thesis
        using Cons.prems Cons.IH [of q1 acc1 out1] Push Some run by simp
    qed
  next
    case Pop
    show ?thesis
    proof (cases "pop q")
      case None
      then show ?thesis
        using Cons.prems Cons.IH [of q acc out] Pop by simp
    next
      case (Some y)
      then obtain x q1 where y: "pop q = Some (x, q1)"
        by (cases y) simp
      obtain acc1 out1 q2 where run: "fifo_run push pop q1 ops = (acc1, out1, q2)"
        by (metis prod_cases3)
      have "inv q1" "contents q = x # contents q1"
        using Cons.prems pop_inv pop_contents y by blast+
      then show ?thesis
        using Cons.prems Cons.IH [of q1 acc1 out1] Pop y run by auto
    qed
  qed
qed

text \<open>With enough removals everything accepted comes out: nothing is stuck in the queue.\<close>

lemma drain:
  assumes "inv q"
  shows "fst (snd (fifo_run push pop q (replicate (length (contents q)) Pop))) = contents q"
  using assms
proof (induction "contents q" arbitrary: q)
  case Nil
  then show ?case by simp
next
  case (Cons x xs)
  obtain y q1 where pop: "pop q = Some (y, q1)"
    using Cons.prems Cons.hyps(2) pop_None [of q] by (cases "pop q") auto
  then have q1: "contents q = y # contents q1" "inv q1"
    using Cons.prems pop_contents pop_inv by blast+
  then have "xs = contents q1"
    using Cons.hyps(2) by simp
  then have "fst (snd (fifo_run push pop q1 (replicate (length (contents q1)) Pop))) = contents q1"
    using Cons.hyps(1) q1(2) by simp
  then show ?case
    using pop q1(1) by (auto split: prod.splits)
qed

end

definition pq_pop_front :: "'a phl_queue \<Rightarrow> ('a \<times> 'a phl_queue) option" where
  "pq_pop_front q = (case pq_pop q First of (None, _) \<Rightarrow> None | (Some x, q1) \<Rightarrow> Some (x, q1))"

interpretation lq: fifo "\<lambda>x q. Some (pq_push q x Tail)" pq_pop_front queue pq_wf
  "\<lambda>q x. x \<notin> set (queue q)"
proof
  fix q :: "'a phl_queue" and x q1
  assume wf: "pq_wf q"
  show "pq_pop_front q = None \<longleftrightarrow> queue q = []"
    using wf by (auto simp: pq_pop_front_def pq_pop_First split: list.splits)
  show "pq_wf q1" if "pq_pop_front q = Some (x, q1)"
    using wf that pq_wf_pop [OF wf, of First]
    by (auto simp: pq_pop_front_def split: prod.splits option.splits)
  show "queue q = x # queue q1" if "pq_pop_front q = Some (x, q1)"
    using wf that by (auto simp: pq_pop_front_def pq_pop_First split: list.splits)
qed (auto intro: pq_wf_push)

subsection \<open>Pointer level\<close>

record hqueue =
  q_head :: addr
  q_cnt :: int

definition hpq_init :: "list_heap \<Rightarrow> hqueue \<Rightarrow> list_heap \<times> hqueue" where
  "hpq_init h q = (INIT_LIST_HEAD h (q_head q), q\<lparr>q_cnt := 0\<rparr>)"

definition hpq_reset :: "list_heap \<Rightarrow> hqueue \<Rightarrow> list_heap \<times> hqueue" where
  "hpq_reset h q = (INIT_LIST_HEAD h (q_head q), q\<lparr>q_cnt := 0\<rparr>)"

definition hpq_push :: "list_heap \<Rightarrow> hqueue \<Rightarrow> addr \<Rightarrow> list_pos \<Rightarrow> list_heap \<times> hqueue" where
  "hpq_push h q obj pos =
     (if pos = First then list_add h obj (q_head q) else list_add_tail h obj (q_head q),
      q\<lparr>q_cnt := q_cnt q + 1\<rparr>)"

definition hpq_pop :: "list_heap \<Rightarrow> hqueue \<Rightarrow> list_pos \<Rightarrow> addr option \<times> list_heap \<times> hqueue" where
  "hpq_pop h q pos =
     (if \<not> list_empty h (q_head q) \<and> q_cnt q > 0
      then let obj = (if pos = First then hnext h (q_head q) else hprev h (q_head q))
           in (if obj = q_head q then None else Some obj,
               list_del h obj, q\<lparr>q_cnt := q_cnt q - 1\<rparr>)
      else (None, h, q))"

definition hpq_get_front :: "list_heap \<Rightarrow> hqueue \<Rightarrow> addr option" where
  "hpq_get_front h q =
     (if \<not> list_empty h (q_head q) \<and> q_cnt q > 0
      then if hnext h (q_head q) = q_head q then None else Some (hnext h (q_head q))
      else None)"

definition hpq_get_tail :: "list_heap \<Rightarrow> hqueue \<Rightarrow> addr option" where
  "hpq_get_tail h q =
     (if \<not> list_empty h (q_head q) \<and> q_cnt q > 0
      then if hprev h (q_head q) = q_head q then None else Some (hprev h (q_head q))
      else None)"

text \<open>Address 0 is the null pointer.\<close>

definition hpq_get_next :: "list_heap \<Rightarrow> hqueue \<Rightarrow> addr \<Rightarrow> addr option" where
  "hpq_get_next h q cur =
     (if cur = 0 then None
      else if hnext h cur = 0 \<or> hnext h cur = q_head q then None else Some (hnext h cur))"

definition hpq_get_prev :: "list_heap \<Rightarrow> hqueue \<Rightarrow> addr \<Rightarrow> addr option" where
  "hpq_get_prev h q cur =
     (if cur = 0 then None
      else if hprev h cur = 0 \<or> hprev h cur = q_head q then None else Some (hprev h cur))"

text \<open>
  The two loops follow \<open>next\<close> pointers; on a corrupted list they need not end, so they are
  partial: \<open>None\<close> is a loop that does not return.
\<close>

partial_function (option) hpq_search_loop ::
  "list_heap \<Rightarrow> addr \<Rightarrow> (addr \<Rightarrow> bool) \<Rightarrow> addr \<Rightarrow> addr option option" where
  "hpq_search_loop h lh f newobj =
     (if newobj = 0 \<or> newobj = lh then Some None
      else if f newobj then Some (Some newobj)
      else hpq_search_loop h lh f (hnext h newobj))"

definition hpq_search_node ::
  "list_heap \<Rightarrow> hqueue \<Rightarrow> bool \<Rightarrow> (addr \<Rightarrow> bool) option
     \<Rightarrow> (addr option \<times> list_heap \<times> hqueue) option" where
  "hpq_search_node h q bdel search_fun =
     (let f = (case search_fun of None \<Rightarrow> (\<lambda>_. False) | Some f \<Rightarrow> f);
          start = (if \<not> list_empty h (q_head q) \<and> q_cnt q > 0 then hnext h (q_head q) else 0)
      in case hpq_search_loop h (q_head q) f start of
           None \<Rightarrow> None
         | Some None \<Rightarrow> Some (None, h, q)
         | Some (Some obj) \<Rightarrow>
             Some (Some obj,
                   if bdel then (list_del h obj, q\<lparr>q_cnt := q_cnt q - 1\<rparr>) else (h, q)))"

definition hpq_del_node :: "list_heap \<Rightarrow> hqueue \<Rightarrow> addr \<Rightarrow> list_heap \<times> hqueue" where
  "hpq_del_node h q obj =
     (if obj = 0 then (h, q) else (list_del h obj, q\<lparr>q_cnt := q_cnt q - 1\<rparr>))"

partial_function (option) hpq_insert_loop ::
  "list_heap \<Rightarrow> addr \<Rightarrow> (addr \<Rightarrow> bool) \<Rightarrow> addr \<Rightarrow> addr option" where
  "hpq_insert_loop h lh p obj =
     (if obj = lh then Some obj
      else if p obj then Some obj
      else hpq_insert_loop h lh p (hnext h obj))"

definition hpq_insert ::
  "list_heap \<Rightarrow> hqueue \<Rightarrow> addr \<Rightarrow> (addr \<Rightarrow> addr \<Rightarrow> bool) option
     \<Rightarrow> (list_heap \<times> hqueue) option" where
  "hpq_insert h q input pred =
     (let p = (case pred of None \<Rightarrow> (\<lambda>_. False) | Some f \<Rightarrow> f input)
      in case hpq_insert_loop h (q_head q) p (hnext h (q_head q)) of
           None \<Rightarrow> None
         | Some obj \<Rightarrow> Some (list_add_tail h input obj, q\<lparr>q_cnt := q_cnt q + 1\<rparr>))"

subsection \<open>Refinement\<close>

text \<open>
  A heap and a queue structure implement a list-level queue when the nodes are linked in its
  order, the counters agree and no node is the null pointer.
\<close>

definition pq_rel :: "list_heap \<times> hqueue \<Rightarrow> addr phl_queue \<Rightarrow> bool" where
  "pq_rel s q \<longleftrightarrow>
     (case s of (h, hq) \<Rightarrow>
        dll h (q_head hq) (queue q) \<and> q_cnt hq = cnt q \<and> 0 \<notin> set (queue q) \<and> q_head hq \<noteq> 0)"

lemma pq_rel_init: "q_head hq \<noteq> 0 \<Longrightarrow> pq_rel (hpq_init h hq) pq_init"
  by (simp add: pq_rel_def hpq_init_def pq_init_def dll_INIT)

lemma pq_rel_push:
  assumes "pq_rel (h, hq) q" and "obj \<notin> set (queue q)" and "obj \<noteq> q_head hq" and "obj \<noteq> 0"
  shows "pq_rel (hpq_push h hq obj pos) (pq_push q obj pos)"
  using assms dll_list_add [of h "q_head hq" "queue q" obj]
    dll_list_add_tail [of h "q_head hq" "queue q" obj]
  by (auto simp: pq_rel_def hpq_push_def pq_push_def)

lemma pq_rel_pop:
  assumes rel: "pq_rel (h, hq) q"
  shows "fst (hpq_pop h hq pos) = fst (pq_pop q pos) \<and>
         pq_rel (snd (hpq_pop h hq pos)) (snd (pq_pop q pos))"
proof -
  have d: "dll h (q_head hq) (queue q)" and c: "q_cnt hq = cnt q"
    using rel by (simp_all add: pq_rel_def)
  note nav = dll_empty [OF d] dll_next_head [OF d] dll_prev_head [OF d]
  show ?thesis
  proof (cases "queue q \<noteq> [] \<and> cnt q > 0")
    case False
    then show ?thesis
      using rel nav c by (auto simp: hpq_pop_def pq_pop_def)
  next
    case True
    obtain x xs where X: "queue q = x # xs"
      using True by (cases "queue q") auto
    obtain y ys where Y: "queue q = ys @ [y]"
      using True by (cases "queue q" rule: rev_cases) auto
    have "x \<in> set (queue q)" by (simp add: X)
    moreover have "y \<in> set (queue q)" by (simp add: Y)
    ultimately have ne: "x \<noteq> q_head hq" "y \<noteq> q_head hq"
      using dll_distinct [OF d] by auto
    have del: "dll (list_del h x) (q_head hq) xs" "dll (list_del h y) (q_head hq) ys"
      using dll_delete [of h "q_head hq" "[]" x xs] dll_delete [of h "q_head hq" ys y "[]"] d X Y
      by simp_all
    have hx: "hnext h (q_head hq) = x"
      using nav(2) by (simp add: X)
    have hy: "hprev h (q_head hq) = y"
      using nav(3) by (simp add: Y)
    have "fst (hpq_pop h hq First) = fst (pq_pop q First) \<and>
          pq_rel (snd (hpq_pop h hq First)) (snd (pq_pop q First))"
      using True rel X ne del hx nav(1) by (auto simp: hpq_pop_def pq_pop_def pq_rel_def)
    moreover have "fst (hpq_pop h hq Tail) = fst (pq_pop q Tail) \<and>
          pq_rel (snd (hpq_pop h hq Tail)) (snd (pq_pop q Tail))"
      using True rel Y ne del hy nav(1) by (auto simp: hpq_pop_def pq_pop_def pq_rel_def)
    ultimately show ?thesis
      by (cases pos) auto
  qed
qed

lemma pq_rel_front_tail:
  assumes rel: "pq_rel (h, hq) q"
  shows "hpq_get_front h hq = pq_get_front q" and "hpq_get_tail h hq = pq_get_tail q"
proof -
  have d: "dll h (q_head hq) (queue q)"
    using rel by (simp add: pq_rel_def)
  note nav = dll_empty [OF d] dll_next_head [OF d] dll_prev_head [OF d] dll_distinct [OF d]
  show "hpq_get_front h hq = pq_get_front q"
    using nav rel by (cases "queue q") (auto simp: hpq_get_front_def pq_get_front_def pq_rel_def)
  show "hpq_get_tail h hq = pq_get_tail q"
    using nav rel by (cases "queue q" rule: rev_cases)
      (auto simp: hpq_get_tail_def pq_get_tail_def pq_rel_def)
qed

lemma next_in_split:
  "distinct (as @ a # bs) \<Longrightarrow>
   next_in (as @ a # bs) a = (case bs of [] \<Rightarrow> None | b # _ \<Rightarrow> Some b)"
proof (induction as)
  case Nil
  then show ?case by (cases bs) auto
next
  case (Cons x as)
  then show ?case by (cases as) auto
qed

lemma pq_rel_next_prev:
  assumes rel: "pq_rel (h, hq) q" and mem: "a \<in> set (queue q)"
  shows "hpq_get_next h hq a = pq_get_next q (Some a)"
    and "hpq_get_prev h hq a = pq_get_prev q (Some a)"
proof -
  obtain as bs where q: "queue q = as @ a # bs"
    using split_list [OF mem] by blast
  have d: "dll h (q_head hq) (as @ a # bs)"
    using rel q by (simp add: pq_rel_def)
  have nz: "a \<noteq> 0" "0 \<notin> set bs" "0 \<notin> set as" "q_head hq \<notin> set as" "q_head hq \<notin> set bs"
    using rel q dll_distinct [OF d] by (auto simp: pq_rel_def)
  have dist: "distinct (as @ a # bs)" "distinct (rev bs @ a # rev as)"
    using dll_distinct [OF d] by auto
  show "hpq_get_next h hq a = pq_get_next q (Some a)"
    using nz dll_next_node [OF d] next_in_split [OF dist(1)] rel
    by (cases bs) (auto simp: hpq_get_next_def pq_get_next_def q pq_rel_def)
  show "hpq_get_prev h hq a = pq_get_prev q (Some a)"
    using nz dll_prev_node [OF d] next_in_split [OF dist(2)] rel
    by (cases as rule: rev_cases) (auto simp: hpq_get_prev_def pq_get_prev_def q pq_rel_def)
qed

lemma hpq_search_loop_find:
  assumes "dll h lh (as @ bs)" and "0 \<notin> set bs" and "lh \<noteq> 0"
  shows "hpq_search_loop h lh f (hd (bs @ [lh])) = Some (List.find f bs)"
  using assms
proof (induction bs arbitrary: as)
  case Nil
  then show ?case by (simp add: hpq_search_loop.simps)
next
  case (Cons b bs)
  have "b \<noteq> lh" "b \<noteq> 0"
    using Cons.prems dll_distinct [OF Cons.prems(1)] by auto
  moreover have "hnext h b = hd (bs @ [lh])"
    using dll_next_node Cons.prems(1) by blast
  moreover have "hpq_search_loop h lh f (hd (bs @ [lh])) = Some (List.find f bs)"
    using Cons.IH [of "as @ [b]"] Cons.prems by simp
  ultimately show ?case
    by (simp add: hpq_search_loop.simps [of h lh f b])
qed

lemma hpq_insert_loop_drop:
  assumes "dll h lh (as @ bs)"
  shows "hpq_insert_loop h lh p (hd (bs @ [lh])) = Some (hd (dropWhile (\<lambda>x. \<not> p x) bs @ [lh]))"
  using assms
proof (induction bs arbitrary: as)
  case Nil
  then show ?case by (simp add: hpq_insert_loop.simps)
next
  case (Cons b bs)
  have "b \<noteq> lh"
    using dll_distinct [OF Cons.prems] by auto
  moreover have "hnext h b = hd (bs @ [lh])"
    using dll_next_node Cons.prems by blast
  moreover have "hpq_insert_loop h lh p (hd (bs @ [lh])) =
      Some (hd (dropWhile (\<lambda>x. \<not> p x) bs @ [lh]))"
    using Cons.IH [of "as @ [b]"] Cons.prems by simp
  ultimately show ?case
    by (simp add: hpq_insert_loop.simps [of h lh p b])
qed

lemma pq_rel_search:
  assumes rel: "pq_rel (h, hq) q"
  shows "\<exists>s'. hpq_search_node h hq bdel sf = Some (fst (pq_search_node q bdel sf), s') \<and>
              pq_rel s' (snd (pq_search_node q bdel sf))"
proof -
  let ?f = "case sf of None \<Rightarrow> (\<lambda>_. False) | Some f \<Rightarrow> f"
  have d: "dll h (q_head hq) (queue q)"
    using rel by (simp add: pq_rel_def)
  show ?thesis
  proof (cases "queue q \<noteq> [] \<and> cnt q > 0")
    case False
    then show ?thesis
      using rel dll_empty [OF d]
      by (auto simp: hpq_search_node_def pq_search_node_def pq_rel_def hpq_search_loop.simps)
  next
    case True
    have "hpq_search_loop h (q_head hq) ?f (hnext h (q_head hq)) = Some (List.find ?f (queue q))"
      using hpq_search_loop_find [of h "q_head hq" "[]" "queue q" ?f] rel dll_next_head [OF d]
      by (simp add: pq_rel_def)
    then show ?thesis
      using True rel dll_empty [OF d] dll_list_del_remove1 [OF d] notin_set_remove1
      by (auto simp: hpq_search_node_def pq_search_node_def pq_rel_def Let_def
          dest!: find_in_set split: option.split)
  qed
qed

lemma pq_rel_del_node:
  assumes "pq_rel (h, hq) q" and "a \<in> set (queue q)"
  shows "pq_rel (hpq_del_node h hq a) (pq_del_node q (Some a))"
  using assms dll_list_del_remove1 [of h "q_head hq" "queue q" a]
    notin_set_remove1 [of 0 "queue q" a]
  by (auto simp: hpq_del_node_def pq_del_node_def pq_rel_def intro: gr0I)

lemma pq_rel_insert:
  assumes rel: "pq_rel (h, hq) q"
    and new: "a \<notin> set (queue q)" "a \<noteq> q_head hq" "a \<noteq> 0"
  shows "\<exists>s'. hpq_insert h hq a pr = Some s' \<and> pq_rel s' (pq_insert q a pr)"
proof -
  let ?p = "case pr of None \<Rightarrow> (\<lambda>_. False) | Some f \<Rightarrow> f a"
  define as bs where "as = takeWhile (\<lambda>x. \<not> ?p x) (queue q)"
    and "bs = dropWhile (\<lambda>x. \<not> ?p x) (queue q)"
  have split: "queue q = as @ bs"
    by (simp add: as_def bs_def)
  have d: "dll h (q_head hq) (as @ bs)"
    using rel split by (simp add: pq_rel_def)
  have loop: "hpq_insert_loop h (q_head hq) ?p (hnext h (q_head hq)) = Some (hd (bs @ [q_head hq]))"
    using hpq_insert_loop_drop [of h "q_head hq" "[]" "queue q" ?p] rel
      dll_next_head [of h "q_head hq" "queue q"]
    by (simp add: pq_rel_def bs_def)
  have "dll (list_add_tail h a (hd (bs @ [q_head hq]))) (q_head hq) (as @ a # bs)"
  proof (cases bs)
    case Nil
    then show ?thesis
      using dll_list_add_tail [of h "q_head hq" as a] d new split by simp
  next
    case (Cons b bs')
    then show ?thesis
      using dll_list_add_before [of h "q_head hq" as b bs' a] d new split by simp
  qed
  moreover have "queue (pq_insert q a pr) = as @ a # bs" "cnt (pq_insert q a pr) = cnt q + 1"
    by (simp_all add: pq_insert_def Let_def as_def bs_def)
  moreover have "0 \<notin> set (as @ a # bs)" "q_head hq \<noteq> 0" "q_cnt hq = cnt q"
    using rel new split by (auto simp: pq_rel_def)
  ultimately show ?thesis
    using loop by (simp add: hpq_insert_def pq_rel_def)
qed

subsection \<open>The contract at pointer level\<close>

text \<open>The nodes of a queue, read off the heap: \<open>n\<close> steps along \<open>next\<close>.\<close>

fun walk :: "list_heap \<Rightarrow> nat \<Rightarrow> addr \<Rightarrow> addr list" where
  "walk h 0 a = []"
| "walk h (Suc n) a = a # walk h n (hnext h a)"

lemma walk_dll:
  assumes "dll h lh (as @ bs)"
  shows "walk h (length bs) (hd (bs @ [lh])) = bs"
  using assms
proof (induction bs arbitrary: as)
  case (Cons b bs)
  have "hnext h b = hd (bs @ [lh])"
    using dll_next_node Cons.prems by blast
  moreover have "walk h (length bs) (hd (bs @ [lh])) = bs"
    using Cons.IH [of "as @ [b]"] Cons.prems by simp
  ultimately show ?case by simp
qed simp

definition hpq_nodes :: "list_heap \<times> hqueue \<Rightarrow> addr list" where
  "hpq_nodes s = (case s of (h, hq) \<Rightarrow> walk h (nat (q_cnt hq)) (hnext h (q_head hq)))"

definition hpq_abs :: "list_heap \<times> hqueue \<Rightarrow> addr phl_queue" where
  "hpq_abs s = \<lparr>queue = hpq_nodes s, cnt = q_cnt (snd s)\<rparr>"

definition hpq_wf :: "list_heap \<times> hqueue \<Rightarrow> bool" where
  "hpq_wf s \<longleftrightarrow> pq_rel s (hpq_abs s) \<and> pq_wf (hpq_abs s)"

lemma pq_rel_abs:
  assumes "pq_rel s q" and "pq_wf q"
  shows "hpq_abs s = q" and "hpq_wf s"
proof -
  obtain h hq where s: "s = (h, hq)" by (cases s)
  have "dll h (q_head hq) (queue q)" "nat (q_cnt hq) = length (queue q)"
    using assms by (simp_all add: s pq_rel_def pq_wf_def)
  then have "hpq_nodes s = queue q"
    using walk_dll [of h "q_head hq" "[]" "queue q"] dll_next_head by (simp add: s hpq_nodes_def)
  then show "hpq_abs s = q"
    using assms by (simp add: hpq_abs_def s pq_rel_def)
  then show "hpq_wf s"
    using assms by (simp add: hpq_wf_def)
qed

definition hpq_push_tail :: "addr \<Rightarrow> list_heap \<times> hqueue \<Rightarrow> (list_heap \<times> hqueue) option" where
  "hpq_push_tail x s = (case s of (h, hq) \<Rightarrow> Some (hpq_push h hq x Tail))"

definition hpq_pop_front :: "list_heap \<times> hqueue \<Rightarrow> (addr \<times> (list_heap \<times> hqueue)) option" where
  "hpq_pop_front s =
     (case s of (h, hq) \<Rightarrow>
        (case hpq_pop h hq First of (None, _) \<Rightarrow> None | (Some x, s1) \<Rightarrow> Some (x, s1)))"

definition hpq_admits :: "list_heap \<times> hqueue \<Rightarrow> addr \<Rightarrow> bool" where
  "hpq_admits s x \<longleftrightarrow> x \<notin> set (hpq_nodes s) \<and> x \<noteq> q_head (snd s) \<and> x \<noteq> 0"

lemma hpq_push_abs:
  assumes "hpq_wf s" and "hpq_admits s x" and "hpq_push_tail x s = Some s1"
  shows "hpq_wf s1 \<and> hpq_nodes s1 = hpq_nodes s @ [x]"
proof -
  have "pq_rel s1 (pq_push (hpq_abs s) x Tail)"
    using assms pq_rel_push [of "fst s" "snd s" "hpq_abs s" x Tail]
    by (auto simp: hpq_wf_def hpq_admits_def hpq_push_tail_def hpq_abs_def split: prod.splits)
  moreover have "pq_wf (pq_push (hpq_abs s) x Tail)"
    using assms by (auto simp: hpq_wf_def hpq_admits_def hpq_abs_def intro: pq_wf_push)
  ultimately have "hpq_abs s1 = pq_push (hpq_abs s) x Tail" "hpq_wf s1"
    by (rule pq_rel_abs)+
  then show ?thesis
    by (simp add: hpq_abs_def pq_push_def)
qed

lemma hpq_pop_abs:
  assumes "hpq_wf s"
  shows "case hpq_pop_front s of
           None \<Rightarrow> hpq_nodes s = []
         | Some (x, s1) \<Rightarrow> hpq_wf s1 \<and> hpq_nodes s = x # hpq_nodes s1"
proof -
  obtain h hq where s: "s = (h, hq)" by (cases s)
  have wf: "pq_rel (h, hq) (hpq_abs s)" "pq_wf (hpq_abs s)"
    using assms by (simp_all add: hpq_wf_def s)
  obtain o1 s1 where pop: "hpq_pop h hq First = (o1, s1)"
    by (cases "hpq_pop h hq First")
  have rel: "o1 = fst (pq_pop (hpq_abs s) First)" "pq_rel s1 (snd (pq_pop (hpq_abs s) First))"
    using pq_rel_pop [OF wf(1), of First] pop by simp_all
  have "hpq_abs s1 = snd (pq_pop (hpq_abs s) First)" "hpq_wf s1"
    using pq_rel_abs [OF rel(2) pq_wf_pop [OF wf(2)]] .
  then show ?thesis
    using rel(1) pop pq_pop_First [OF wf(2)]
    by (auto simp: hpq_pop_front_def s hpq_abs_def split: list.splits)
qed

interpretation hq: fifo hpq_push_tail hpq_pop_front hpq_nodes hpq_wf hpq_admits
proof
  fix s x s1
  assume "hpq_wf s"
  note pop = hpq_pop_abs [OF this]
  show "hpq_pop_front s = None \<longleftrightarrow> hpq_nodes s = []"
    using pop by (auto split: option.splits)
  show "hpq_wf s1" if "hpq_pop_front s = Some (x, s1)"
    using pop that by simp
  show "hpq_nodes s = x # hpq_nodes s1" if "hpq_pop_front s = Some (x, s1)"
    using pop that by simp
qed (use hpq_push_abs in blast)+

subsection \<open>Properties\<close>

text \<open>
  C20. The pointer code of the queue implements the list-level queue: initialising relates any heap to
  the empty queue, and from related states, empty queues included, every operation returns the same
  result and leads to related states: pushes and ordered insertions of a node that is not linked yet,
  removals at both ends, reads of both ends, the neighbours and the deletion of a linked node and of the
  null pointer, the search with and without removal and the reset. The two loops that walk the list
  (search and ordered insertion) return.
\<close>

theorem pq_pointer_refinement:
  assumes rel: "pq_rel (h, hq) q"
  shows "pq_rel (hpq_init h hq) pq_init \<and> pq_rel (hpq_reset h hq) (pq_reset q) \<and>
    (\<forall>a pos. a \<notin> set (queue q) \<and> a \<noteq> q_head hq \<and> a \<noteq> 0 \<longrightarrow>
       pq_rel (hpq_push h hq a pos) (pq_push q a pos)) \<and>
    (\<forall>a pr. a \<notin> set (queue q) \<and> a \<noteq> q_head hq \<and> a \<noteq> 0 \<longrightarrow>
       (\<exists>s'. hpq_insert h hq a pr = Some s' \<and> pq_rel s' (pq_insert q a pr))) \<and>
    (\<forall>pos. fst (hpq_pop h hq pos) = fst (pq_pop q pos) \<and>
       pq_rel (snd (hpq_pop h hq pos)) (snd (pq_pop q pos))) \<and>
    hpq_get_front h hq = pq_get_front q \<and> hpq_get_tail h hq = pq_get_tail q \<and>
    (\<forall>b \<in> set (queue q). hpq_get_next h hq b = pq_get_next q (Some b) \<and>
       hpq_get_prev h hq b = pq_get_prev q (Some b) \<and>
       pq_rel (hpq_del_node h hq b) (pq_del_node q (Some b))) \<and>
    hpq_get_next h hq 0 = pq_get_next q None \<and> hpq_get_prev h hq 0 = pq_get_prev q None \<and>
    pq_rel (hpq_del_node h hq 0) (pq_del_node q None) \<and>
    (\<forall>bdel sf. \<exists>s'. hpq_search_node h hq bdel sf = Some (fst (pq_search_node q bdel sf), s') \<and>
       pq_rel s' (snd (pq_search_node q bdel sf)))"
proof (intro conjI allI ballI impI; (elim conjE)?)
  have hd: "q_head hq \<noteq> 0" using rel by (simp add: pq_rel_def)
  show "pq_rel (hpq_init h hq) pq_init" by (rule pq_rel_init [OF hd])
  show "pq_rel (hpq_reset h hq) (pq_reset q)"
    using rel by (simp add: pq_rel_def hpq_reset_def pq_reset_def dll_INIT)
  fix a pos pr
  assume "a \<notin> set (queue q)" "a \<noteq> q_head hq" "a \<noteq> 0"
  note new = this
  show "pq_rel (hpq_push h hq a pos) (pq_push q a pos)" by (rule pq_rel_push [OF rel new])
  show "\<exists>s'. hpq_insert h hq a pr = Some s' \<and> pq_rel s' (pq_insert q a pr)"
    by (rule pq_rel_insert [OF rel new])
qed (use rel pq_rel_pop [OF rel] pq_rel_front_tail [OF rel] pq_rel_next_prev [OF rel] pq_rel_del_node [OF rel]
      pq_rel_search [OF rel] in
    \<open>simp_all add: hpq_get_next_def hpq_get_prev_def hpq_del_node_def pq_get_next_def pq_get_prev_def pq_del_node_def\<close>)

definition heap0 :: list_heap where
  "heap0 = \<lparr>hnext = (\<lambda>_. 0), hprev = (\<lambda>_. 0)\<rparr>"

definition hq0 :: "list_heap \<times> hqueue" where
  "hq0 = hpq_init heap0 \<lparr>q_head = 1, q_cnt = 0\<rparr>"

definition hq2 :: "list_heap \<times> hqueue" where
  "hq2 = (case hpq_push (fst hq0) (snd hq0) 5 Tail of (h, q) \<Rightarrow> hpq_push h q 9 Tail)"

lemma hq0_wf: "hpq_wf hq0"
  using pq_rel_abs(2) [OF pq_rel_init [of "\<lparr>q_head = 1, q_cnt = 0\<rparr>" heap0] pq_wf_init]
  by (simp add: hq0_def)

theorem pq_pointer_refinement_witness:
  "fst (hpq_pop (fst hq0) (snd hq0) Tail) = None \<and> hpq_get_front (fst hq0) (snd hq0) = None \<and>
   fst (hpq_pop (fst hq2) (snd hq2) Tail) = Some 9 \<and>
   hpq_get_next (fst hq2) (snd hq2) 5 = Some 9 \<and>
   (\<exists>s'. hpq_insert (fst hq2) (snd hq2) 7 (Some (\<lambda>a b. a < b)) = Some s' \<and>
         pq_rel s' \<lparr>queue = [5, 7, 9], cnt = 3\<rparr>)"
proof -
  have rel0: "pq_rel (fst hq0, snd hq0) \<lparr>queue = [], cnt = 0\<rparr>"
    by (simp add: hq0_def heap0_def hpq_init_def pq_rel_def dll_INIT)
  have rel: "pq_rel (fst hq2, snd hq2) \<lparr>queue = [5, 9], cnt = 2\<rparr>"
    by (simp add: hq2_def hq0_def heap0_def hpq_init_def hpq_push_def pq_rel_def dll_def
        INIT_LIST_HEAD_def list_add_tail_def list_add_raw_def)
  have "q_head (snd hq2) = 1" by (simp add: hq2_def hq0_def hpq_init_def hpq_push_def)
  then have "\<exists>s'. hpq_insert (fst hq2) (snd hq2) 7 (Some (\<lambda>a b. a < b)) = Some s' \<and>
      pq_rel s' (pq_insert \<lparr>queue = [5, 9], cnt = 2\<rparr> 7 (Some (\<lambda>a b. a < b)))"
    using pq_pointer_refinement [OF rel] by simp
  moreover have "fst (hpq_pop (fst hq2) (snd hq2) Tail) = Some 9" "hpq_get_next (fst hq2) (snd hq2) 5 = Some 9"
    using pq_pointer_refinement [OF rel] by (simp_all add: pq_pop_def pq_get_next_def)
  moreover have "fst (hpq_pop (fst hq0) (snd hq0) Tail) = None" "hpq_get_front (fst hq0) (snd hq0) = None"
    using pq_pointer_refinement [OF rel0] by (simp_all add: pq_pop_def pq_get_front_def)
  ultimately show ?thesis by (simp add: pq_insert_def)
qed

text \<open>
  First in, first out at pointer level: over any sequence of tail insertions and head removals
  on a well-formed queue, the nodes taken out followed by the nodes still linked are the nodes
  linked at the start followed by the inserted ones, in order; the final heap is well formed, and
  removing as many times as there are linked nodes empties the queue in that order.
\<close>

theorem hpq_fifo_order:
  assumes "hpq_wf s" and "fifo_admissible hpq_admits hpq_push_tail hpq_pop_front s ops"
    and "fifo_run hpq_push_tail hpq_pop_front s ops = (acc, out, s')"
  shows "hpq_wf s' \<and> hpq_nodes s @ acc = out @ hpq_nodes s' \<and>
         fst (snd (fifo_run hpq_push_tail hpq_pop_front s'
                     (replicate (length (hpq_nodes s')) Pop))) = hpq_nodes s'"
  using hq.run_in_order [OF assms] hq.drain by blast

theorem hpq_fifo_order_witness:
  "hpq_nodes (snd (snd (fifo_run hpq_push_tail hpq_pop_front hq0 [Push 5, Push 9, Pop]))) = [9]"
proof -
  have adm: "fifo_admissible hpq_admits hpq_push_tail hpq_pop_front hq0 [Push 5, Push 9, Pop]"
    by (simp add: hpq_admits_def hpq_push_tail_def hpq_pop_front_def hq0_def heap0_def hpq_init_def
        hpq_push_def hpq_pop_def hpq_nodes_def INIT_LIST_HEAD_def list_add_tail_def list_add_raw_def
        list_empty_def eval_nat_numeral)
  obtain acc out s' where run:
    "fifo_run hpq_push_tail hpq_pop_front hq0 [Push 5, Push 9, Pop] = (acc, out, s')"
    by (metis prod_cases3)
  then have "acc = [5, 9]" "out = [5]"
    by (simp_all add: hpq_push_tail_def hpq_pop_front_def hq0_def heap0_def hpq_init_def
        hpq_push_def hpq_pop_def INIT_LIST_HEAD_def list_add_tail_def list_add_raw_def list_empty_def)
  moreover have "hpq_nodes hq0 = []"
    by (simp add: hpq_nodes_def hq0_def hpq_init_def)
  ultimately show ?thesis
    using hpq_fifo_order [OF hq0_wf adm run] unfolding run by simp
qed

end
