(* ===== verification/Phl_Rx_Ring.thy ===== *)
theory Phl_Rx_Ring
  imports Phl_Queue
begin

section \<open>The receive ring and the packet pool (phl/phl_rx.c, phl/phl_tx.c)\<close>

text \<open>
  The ring of 4096 entries through which PHL hands received packets to the core layer, with the
  index arithmetic of \<^verbatim>\<open>phl_tx.c\<close> at 16 bits, and the pool of 8192 packet structures.
  The two atomic indices are 32-bit words and are read through a cast to 16 bits. The ring
  interprets the contract \<open>fifo\<close> of \<open>Phl_Queue\<close>.
\<close>

definition MAX_PHL_RX_RING_ENTRY_NUM :: u16 where "MAX_PHL_RX_RING_ENTRY_NUM = 4096"
definition MAX_PHL_RING_RX_PKT_NUM :: u32 where "MAX_PHL_RING_RX_PKT_NUM = 8192"

subsection \<open>Index arithmetic\<close>

definition phl_calc_avail_rptr :: "u16 \<Rightarrow> u16 \<Rightarrow> u16 \<Rightarrow> u16" where
  "phl_calc_avail_rptr rptr wptr bndy =
     (if wptr \<ge> rptr then wptr - rptr
      else if rptr > wptr then wptr + (bndy - rptr)
      else 0)"

definition phl_calc_avail_wptr :: "u16 \<Rightarrow> u16 \<Rightarrow> u16 \<Rightarrow> u16" where
  "phl_calc_avail_wptr rptr wptr bndy =
     (if rptr > wptr then rptr - wptr - 1
      else if wptr \<ge> rptr then rptr + (bndy - wptr) - 1
      else 0)"

subsection \<open>The ring\<close>

record 'p rtw_phl_rx_ring =
  core_idx :: u32
  phl_idx :: u32
  entry :: "nat \<Rightarrow> 'p option"

text \<open>The ring part of \<^verbatim>\<open>_phl_add_rx_pkt\<close> and of \<^verbatim>\<open>rtw_phl_query_rx_pkt\<close>.\<close>

definition rx_ring_add :: "'p \<Rightarrow> 'p rtw_phl_rx_ring \<Rightarrow> rtw_phl_status \<times> 'p rtw_phl_rx_ring" where
  "rx_ring_add recvpkt ring =
     (let wptr = (ucast (phl_idx ring) :: u16);
          rptr = (ucast (core_idx ring) :: u16);
          ring_res = phl_calc_avail_wptr rptr wptr MAX_PHL_RX_RING_ENTRY_NUM
      in if ring_res \<le> 0 then (RTW_PHL_STATUS_RESOURCE, ring)
         else
           let wptr1 = (if wptr + 1 \<ge> MAX_PHL_RX_RING_ENTRY_NUM then 0 else wptr + 1)
           in (RTW_PHL_STATUS_SUCCESS,
               ring\<lparr>entry := (entry ring)(unat wptr1 := Some recvpkt),
                    phl_idx := (if wptr1 \<noteq> 0 then phl_idx ring + 1 else 0)\<rparr>))"

definition rx_ring_take :: "'p rtw_phl_rx_ring \<Rightarrow> 'p option \<times> 'p rtw_phl_rx_ring" where
  "rx_ring_take ring =
     (let wptr = (ucast (phl_idx ring) :: u16);
          rptr = (ucast (core_idx ring) :: u16);
          ring_res = phl_calc_avail_rptr rptr wptr MAX_PHL_RX_RING_ENTRY_NUM
      in if ring_res > 0
         then if rptr + 1 \<ge> MAX_PHL_RX_RING_ENTRY_NUM
              then (entry ring 0, ring\<lparr>entry := (entry ring)(0 := None), core_idx := 0\<rparr>)
              else (entry ring (unat (rptr + 1)),
                    ring\<lparr>entry := (entry ring)(unat (rptr + 1) := None),
                         core_idx := core_idx ring + 1\<rparr>)
         else (None, ring))"

definition phl_check_recv_ring_resource :: "'p rtw_phl_rx_ring \<Rightarrow> bool" where
  "phl_check_recv_ring_resource ring \<longleftrightarrow>
     phl_calc_avail_wptr (ucast (core_idx ring)) (ucast (phl_idx ring)) MAX_PHL_RX_RING_ENTRY_NUM \<noteq> 0"

definition rtw_phl_query_new_rx_num :: "'p rtw_phl_rx_ring \<Rightarrow> u16" where
  "rtw_phl_query_new_rx_num ring =
     phl_calc_avail_rptr (ucast (core_idx ring)) (ucast (phl_idx ring)) MAX_PHL_RX_RING_ENTRY_NUM"

subsection \<open>The pool\<close>

text \<open>The idle list holds the addresses of the free packet structures.\<close>

record rx_pkt_pool =
  idle :: "nat list"
  idle_cnt :: u32

definition phl_alloc_recv_pkt_pool :: rx_pkt_pool where
  "phl_alloc_recv_pkt_pool =
     fold (\<lambda>i pool. pool\<lparr>idle := idle pool @ [i], idle_cnt := idle_cnt pool + 1\<rparr>)
       [0..<unat MAX_PHL_RING_RX_PKT_NUM] \<lparr>idle = [], idle_cnt = 0\<rparr>"

definition rtw_phl_query_phl_rx :: "rx_pkt_pool \<Rightarrow> nat option \<times> rx_pkt_pool" where
  "rtw_phl_query_phl_rx pool =
     (case idle pool of
        [] \<Rightarrow> (None, pool)
      | p # ps \<Rightarrow> (Some p, pool\<lparr>idle := ps, idle_cnt := idle_cnt pool - 1\<rparr>))"

definition rtw_phl_is_phl_rx_idle :: "rx_pkt_pool \<Rightarrow> bool" where
  "rtw_phl_is_phl_rx_idle pool \<longleftrightarrow> MAX_PHL_RING_RX_PKT_NUM = idle_cnt pool"

definition phl_release_phl_rx :: "nat \<Rightarrow> rx_pkt_pool \<Rightarrow> rx_pkt_pool" where
  "phl_release_phl_rx p pool = pool\<lparr>idle := idle pool @ [p], idle_cnt := idle_cnt pool + 1\<rparr>"

text \<open>The counter is the length of the list, the list has no duplicates and only structures of
  the pool.\<close>

definition pool_wf :: "rx_pkt_pool \<Rightarrow> bool" where
  "pool_wf pool \<longleftrightarrow>
     unat (idle_cnt pool) = length (idle pool) \<and> distinct (idle pool) \<and> set (idle pool) \<subseteq> {..<8192}"

subsection \<open>Lemmas on the indices\<close>

lemma avail_rptr_value:
  assumes "unat r < unat n" and "unat w < unat n"
  shows "unat (phl_calc_avail_rptr r w n) = (unat w + unat n - unat r) mod unat n"
proof (cases "r \<le> w")
  case True
  then have le: "unat r \<le> unat w" by (simp add: word_le_nat_alt)
  have "(unat w + unat n - unat r) mod unat n = ((unat w - unat r) + unat n) mod unat n"
    using le by simp
  also have "\<dots> = unat w - unat r"
    using assms(2) unfolding mod_add_self2 by simp
  finally show ?thesis
    using True by (simp add: phl_calc_avail_rptr_def unat_sub)
next
  case False
  then have lt: "unat w < unat r" by (simp add: word_le_nat_alt)
  have s: "unat w + (unat n - unat r) < unat n"
    using lt assms(1) by linarith
  have "unat (n - r) = unat n - unat r"
    using assms(1) by (simp add: unat_sub word_le_nat_alt)
  then have "unat (w + (n - r)) = unat w + (unat n - unat r)"
    using s unat_u16_less [of n] by (simp only: unat_add_u16) (intro mod_less, linarith)
  then show ?thesis
    using False lt assms(1) s by (auto simp: phl_calc_avail_rptr_def not_le)
qed

lemma avail_sum:
  assumes "unat r < unat n" and "unat w < unat n"
  shows "unat (phl_calc_avail_rptr r w n) + unat (phl_calc_avail_wptr r w n) = unat n - 1"
proof (cases "r \<le> w")
  case True
  then have le: "unat r \<le> unat w" by (simp add: word_le_nat_alt)
  have "unat (r + (n - w) - 1) = unat r + (unat n - unat w) - 1"
  proof -
    have "unat (n - w) = unat n - unat w"
      using assms(2) by (simp add: unat_sub word_le_nat_alt)
    then have "unat (r + (n - w)) = unat r + (unat n - unat w)"
      using le assms(2) unat_u16_less [of n] by (simp only: unat_add_u16) (intro mod_less, linarith)
    moreover have "1 \<le> r + (n - w)"
      using calculation assms(2) by (simp add: word_le_nat_alt)
    ultimately show ?thesis
      by (simp add: unat_sub)
  qed
  then show ?thesis
    using True le assms by (simp add: phl_calc_avail_rptr_def phl_calc_avail_wptr_def unat_sub not_less)
next
  case False
  then have lt: "unat w < unat r" by (simp add: word_le_nat_alt)
  have "unat (r - w - 1) = unat r - unat w - 1"
  proof -
    have "unat (r - w) = unat r - unat w"
      using lt by (simp add: unat_sub word_le_nat_alt)
    moreover have "1 \<le> r - w"
      using calculation lt by (simp add: word_le_nat_alt)
    ultimately show ?thesis
      by (simp add: unat_sub)
  qed
  moreover have "unat (phl_calc_avail_rptr r w n) = unat w + unat n - unat r"
    using avail_rptr_value [OF assms] lt assms by simp
  ultimately show ?thesis
    using False lt assms by (simp add: phl_calc_avail_wptr_def not_le)
qed

subsection \<open>The ring as a queue\<close>

definition ring_avail :: "'p rtw_phl_rx_ring \<Rightarrow> nat" where
  "ring_avail ring = (unat (phl_idx ring) + 4096 - unat (core_idx ring)) mod 4096"

definition ring_slot :: "'p rtw_phl_rx_ring \<Rightarrow> nat \<Rightarrow> nat" where
  "ring_slot ring i = (unat (core_idx ring) + 1 + i) mod 4096"

definition ring_wf :: "'p rtw_phl_rx_ring \<Rightarrow> bool" where
  "ring_wf ring \<longleftrightarrow>
     unat (core_idx ring) < 4096 \<and> unat (phl_idx ring) < 4096 \<and>
     (\<forall>i < ring_avail ring. entry ring (ring_slot ring i) \<noteq> None)"

definition ring_contents :: "'p rtw_phl_rx_ring \<Rightarrow> 'p list" where
  "ring_contents ring = map (\<lambda>i. the (entry ring (ring_slot ring i))) [0..<ring_avail ring]"

lemma unat_ucast_idx: "unat (x :: u32) < 4096 \<Longrightarrow> unat (ucast x :: u16) = unat x"
  by (simp add: unsigned_ucast_eq take_bit_eq_mod unat_mod_distrib)

lemma ring_avail_rptr:
  assumes "ring_wf ring"
  shows "unat (phl_calc_avail_rptr (ucast (core_idx ring)) (ucast (phl_idx ring))
                 MAX_PHL_RX_RING_ENTRY_NUM) = ring_avail ring"
  using assms
  by (subst avail_rptr_value) (simp_all add: ring_wf_def MAX_PHL_RX_RING_ENTRY_NUM_def ring_avail_def unat_ucast_idx)

lemma ring_avail_wptr:
  assumes "ring_wf ring"
  shows "unat (phl_calc_avail_wptr (ucast (core_idx ring)) (ucast (phl_idx ring))
                 MAX_PHL_RX_RING_ENTRY_NUM) = 4095 - ring_avail ring"
  using avail_sum [of "ucast (core_idx ring)" MAX_PHL_RX_RING_ENTRY_NUM "ucast (phl_idx ring)"]
    ring_avail_rptr [OF assms] assms
  by (simp add: ring_wf_def MAX_PHL_RX_RING_ENTRY_NUM_def unat_ucast_idx)

lemma idx_step:
  assumes "unat (x :: u32) < 4096"
  shows "unat ((ucast x :: u16) + 1) = unat x + 1" and "unat (x + 1) = unat x + 1"
    and "(ucast x :: u16) + 1 \<ge> MAX_PHL_RX_RING_ENTRY_NUM \<longleftrightarrow> unat x = 4095"
    and "(ucast x :: u16) + 1 \<noteq> 0"
proof -
  show u: "unat ((ucast x :: u16) + 1) = unat x + 1" "unat (x + 1) = unat x + 1"
    using assms unat_ucast_idx [OF assms] by (simp_all add: unat_add_u16 unat_word_ariths)
  show "(ucast x :: u16) + 1 \<ge> MAX_PHL_RX_RING_ENTRY_NUM \<longleftrightarrow> unat x = 4095"
    using u(1) assms by (simp add: word_le_nat_alt MAX_PHL_RX_RING_ENTRY_NUM_def) linarith
  show "(ucast x :: u16) + 1 \<noteq> 0"
    using u(1) by (metis add_is_0 one_neq_zero unsigned_0)
qed

lemma ring_avail_less: "ring_avail ring < 4096"
  by (simp add: ring_avail_def)

lemma ring_phl_idx:
  assumes "ring_wf ring"
  shows "(unat (phl_idx ring) + 1) mod 4096 = ring_slot ring (ring_avail ring)"
proof -
  define c p where "c = unat (core_idx ring)" and "p = unat (phl_idx ring)"
  have lt: "c < 4096" "p < 4096"
    using assms by (simp_all add: ring_wf_def c_def p_def)
  have "(c + 1 + (p + 4096 - c) mod 4096) mod 4096 = (c + 1 + (p + 4096 - c)) mod 4096"
    by (rule mod_add_right_eq)
  also have "c + 1 + (p + 4096 - c) = p + 1 + 4096"
    using lt by simp
  also have "(p + 1 + 4096) mod 4096 = (p + 1) mod 4096"
    by (rule mod_add_self2)
  finally show ?thesis
    by (simp only: ring_slot_def ring_avail_def c_def p_def)
qed

lemma ring_slot_inj:
  assumes "ring_slot ring i = ring_slot ring j" and "i < 4096" and "j < 4096"
  shows "i = j"
proof -
  have "a = b" if "(n + a) mod 4096 = (n + b) mod 4096" "a < 4096" "b < 4096" "a \<le> b" for a b n :: nat
    using that mod_eq_dvd_iff_nat [of "n + a" "n + b" 4096] by (auto dest!: dvd_imp_le)
  from this [of "unat (core_idx ring) + 1" i j] this [of "unat (core_idx ring) + 1" j i] show ?thesis
    using assms by (simp add: ring_slot_def) (metis nat_le_linear)
qed

lemma avail_inc:
  fixes c p :: nat
  assumes "c < 4096" and "p < 4096" and "(p + 4096 - c) mod 4096 < 4095"
  shows "((p + 1) mod 4096 + 4096 - c) mod 4096 = (p + 4096 - c) mod 4096 + 1"
proof -
  have "((p + 1) mod 4096 + 4096 - c) mod 4096 = ((p + 1) mod 4096 + (4096 - c)) mod 4096"
    using assms by simp
  also have "\<dots> = (p + 1 + (4096 - c)) mod 4096"
    by (rule mod_add_left_eq)
  also have "p + 1 + (4096 - c) = p + 4096 - c + 1"
    using assms by simp
  also have "(p + 4096 - c + 1) mod 4096 = ((p + 4096 - c) mod 4096 + 1) mod 4096"
    by (rule mod_add_left_eq [symmetric])
  finally show ?thesis
    using assms(3) by simp
qed

lemma avail_dec:
  fixes c p :: nat
  assumes "c < 4096" and "p < 4096" and "0 < (p + 4096 - c) mod 4096"
  shows "(p + 4096 - (c + 1) mod 4096) mod 4096 = (p + 4096 - c) mod 4096 - 1"
proof -
  have "(p + 4096 - c) mod 4096 = (if c \<le> p then p - c else p + 4096 - c)"
    using assms(1,2) by (auto simp: mod_if)
  moreover have "(p + 4096 - (c + 1) mod 4096) mod 4096 = (if c + 1 \<le> p then p - c - 1 else
      if c = 4095 then p else p + 4096 - c - 1)" if "p \<noteq> c"
    using assms(1,2) that by (auto simp: mod_if)
  ultimately show ?thesis
    using assms by (cases "p = c") auto
qed

text \<open>Adding: refused exactly when 4095 packets wait, otherwise appended.\<close>

lemma rx_ring_add_full:
  assumes "ring_wf ring"
  shows "rx_ring_add x ring = (RTW_PHL_STATUS_RESOURCE, ring) \<longleftrightarrow> ring_avail ring = 4095"
    and "fst (rx_ring_add x ring) = RTW_PHL_STATUS_RESOURCE \<longleftrightarrow> ring_avail ring = 4095"
  using ring_avail_wptr [OF assms] ring_avail_less [of ring]
  by (auto simp: rx_ring_add_def Let_def word_le_nat_alt)

lemma rx_ring_add_ok:
  assumes wf: "ring_wf ring" and add: "rx_ring_add x ring = (RTW_PHL_STATUS_SUCCESS, ring')"
  shows "ring_wf ring' \<and> ring_contents ring' = ring_contents ring @ [x] \<and>
         ring_avail ring' = ring_avail ring + 1"
proof -
  let ?a = "ring_avail ring"
  have lt: "unat (core_idx ring) < 4096" "unat (phl_idx ring) < 4096"
    using wf by (simp_all add: ring_wf_def)
  have a: "?a < 4095"
    using add rx_ring_add_full(2) [OF wf, of x] ring_avail_less [of ring] by auto
  have r': "core_idx ring' = core_idx ring" "unat (phl_idx ring') = (unat (phl_idx ring) + 1) mod 4096"
      "entry ring' = (entry ring)(ring_slot ring ?a := Some x)"
    using add idx_step [OF lt(2)] ring_phl_idx [OF wf] lt(2)
    by (auto simp: rx_ring_add_def Let_def split: if_splits)
  have av: "ring_avail ring' = ?a + 1"
    using avail_inc [OF lt] a by (simp add: ring_avail_def r')
  have slot: "ring_slot ring' = ring_slot ring"
    by (simp add: ring_slot_def fun_eq_iff r')
  have old: "entry ring' (ring_slot ring i) = entry ring (ring_slot ring i)" if "i < ?a" for i
    using ring_slot_inj [of ring i ?a] that a by (auto simp: r'(3))
  have "ring_wf ring'"
    using wf old r' lt unfolding ring_wf_def av slot by (auto simp: less_Suc_eq)
  moreover have "ring_contents ring' = ring_contents ring @ [x]"
    using old by (auto simp: ring_contents_def av slot r'(3))
  ultimately show ?thesis
    using av by simp
qed

lemma rx_ring_take_empty:
  assumes "ring_wf ring" and "ring_avail ring = 0"
  shows "rx_ring_take ring = (None, ring)"
  using ring_avail_rptr [OF assms(1)] assms(2)
  by (simp add: rx_ring_take_def Let_def word_less_nat_alt)

lemma rx_ring_take_ok:
  assumes wf: "ring_wf ring" and ne: "0 < ring_avail ring" and take: "rx_ring_take ring = (o1, ring')"
  shows "\<exists>x. o1 = Some x \<and> ring_wf ring' \<and> ring_contents ring = x # ring_contents ring'"
proof -
  let ?a = "ring_avail ring"
  have lt: "unat (core_idx ring) < 4096" "unat (phl_idx ring) < 4096"
    using wf by (simp_all add: ring_wf_def)
  have s0: "ring_slot ring 0 = (unat (core_idx ring) + 1) mod 4096"
    by (simp add: ring_slot_def)
  have r': "phl_idx ring' = phl_idx ring" "unat (core_idx ring') = ring_slot ring 0"
      "entry ring' = (entry ring)(ring_slot ring 0 := None)" "o1 = entry ring (ring_slot ring 0)"
    using take idx_step [OF lt(1)] s0 ne ring_avail_rptr [OF wf] lt(1)
    by (auto simp: rx_ring_take_def Let_def word_less_nat_alt split: if_splits)
  have slot: "ring_slot ring' i = ring_slot ring (Suc i)" for i
  proof -
    have "((unat (core_idx ring) + 1) mod 4096 + (1 + i)) mod 4096 = (unat (core_idx ring) + 1 + (1 + i)) mod 4096"
      by (rule mod_add_left_eq)
    then show ?thesis
      by (simp add: ring_slot_def r')
  qed
  have av: "ring_avail ring' = ?a - 1"
    using avail_dec [OF lt] ne by (simp add: ring_avail_def r' s0)
  have "entry ring (ring_slot ring 0) \<noteq> None"
    using wf ne by (simp add: ring_wf_def)
  then obtain x where x: "entry ring (ring_slot ring 0) = Some x" by blast
  have old: "entry ring' (ring_slot ring (Suc i)) = entry ring (ring_slot ring (Suc i))" if "Suc i < ?a" for i
    using ring_slot_inj [of ring 0 "Suc i"] that ring_avail_less [of ring] by (auto simp: r'(3))
  have "ring_wf ring'"
    using wf old r' lt s0 unfolding ring_wf_def av slot by (auto simp: less_diff_conv)
  moreover have "ring_contents ring = x # ring_contents ring'"
    using old x ne by (cases ?a) (auto simp: ring_contents_def av slot map_upt_Suc simp del: upt_Suc)
  ultimately show ?thesis
    using x r'(4) by simp
qed

definition rx_ring_push :: "'p \<Rightarrow> 'p rtw_phl_rx_ring \<Rightarrow> 'p rtw_phl_rx_ring option" where
  "rx_ring_push x ring =
     (case rx_ring_add x ring of (st, ring1) \<Rightarrow> if st = RTW_PHL_STATUS_SUCCESS then Some ring1 else None)"

definition rx_ring_pop :: "'p rtw_phl_rx_ring \<Rightarrow> ('p \<times> 'p rtw_phl_rx_ring) option" where
  "rx_ring_pop ring = (case rx_ring_take ring of (None, _) \<Rightarrow> None | (Some x, ring1) \<Rightarrow> Some (x, ring1))"

lemma ring_contents_Nil: "ring_contents ring = [] \<longleftrightarrow> ring_avail ring = 0"
  by (simp add: ring_contents_def)

lemma rx_ring_pop_cases:
  assumes "ring_wf ring"
  shows "case rx_ring_pop ring of
           None \<Rightarrow> ring_contents ring = []
         | Some (x, ring') \<Rightarrow> ring_wf ring' \<and> ring_contents ring = x # ring_contents ring'"
proof (cases "ring_avail ring = 0")
  case True
  then show ?thesis
    using rx_ring_take_empty [OF assms True] by (simp add: rx_ring_pop_def ring_contents_Nil)
next
  case False
  obtain o1 ring' where t: "rx_ring_take ring = (o1, ring')" by fastforce
  show ?thesis
    using rx_ring_take_ok [OF assms _ t] False by (auto simp: rx_ring_pop_def t)
qed

interpretation rq: fifo rx_ring_push rx_ring_pop ring_contents ring_wf "\<lambda>_ _. True"
proof
  fix q :: "'p rtw_phl_rx_ring" and x q1
  assume wf: "ring_wf q"
  show "ring_wf q1" "ring_contents q1 = ring_contents q @ [x]" if "rx_ring_push x q = Some q1"
    using rx_ring_add_ok [OF wf, of x q1] that by (auto simp: rx_ring_push_def split: prod.splits if_splits)
  show "rx_ring_pop q = None \<longleftrightarrow> ring_contents q = []"
    using rx_ring_pop_cases [OF wf] by (auto split: option.splits)
  show "ring_wf q1" "ring_contents q = x # ring_contents q1" if "rx_ring_pop q = Some (x, q1)"
    using rx_ring_pop_cases [OF wf] that by simp_all
qed

subsection \<open>The pool as a queue\<close>

lemma idle_release [simp]: "idle (phl_release_phl_rx p pool) = idle pool @ [p]"
  by (simp add: phl_release_phl_rx_def)

lemma pool_release_wf [phl_inv]:
  assumes wf: "pool_wf pool" and p: "p \<notin> set (idle pool)" "p < 8192"
  shows "pool_wf (phl_release_phl_rx p pool)"
proof -
  have "length (idle pool) \<le> 8192"
    using wf card_mono [of "{..<8192}" "set (idle pool)"] by (simp add: pool_wf_def distinct_card)
  then have "unat (idle_cnt pool + 1) = Suc (length (idle pool))"
    using wf by (simp add: pool_wf_def unat_word_ariths)
  then show ?thesis
    using wf p by (simp add: pool_wf_def phl_release_phl_rx_def)
qed

lemma pool_query_wf [phl_inv]:
  assumes "pool_wf pool"
  shows "pool_wf (snd (rtw_phl_query_phl_rx pool))"
proof (cases "idle pool")
  case (Cons p ps)
  then have "unat (idle_cnt pool - 1) = length ps"
    using assms by (simp add: pool_wf_def unat_sub_if')
  then show ?thesis
    using assms Cons by (simp add: pool_wf_def rtw_phl_query_phl_rx_def)
qed (use assms in \<open>simp add: rtw_phl_query_phl_rx_def\<close>)

lemma pool_alloc:
  "phl_alloc_recv_pkt_pool = \<lparr>idle = [0..<8192], idle_cnt = 8192\<rparr>"
proof -
  have "fold (\<lambda>i pool. pool\<lparr>idle := idle pool @ [i], idle_cnt := idle_cnt pool + 1\<rparr>) [0..<n]
      \<lparr>idle = [], idle_cnt = 0\<rparr> = \<lparr>idle = [0..<n], idle_cnt = of_nat n\<rparr>" for n
    by (induction n) simp_all
  from this [of 8192] show ?thesis
    by (simp add: phl_alloc_recv_pkt_pool_def MAX_PHL_RING_RX_PKT_NUM_def)
qed

definition pool_pop :: "rx_pkt_pool \<Rightarrow> (nat \<times> rx_pkt_pool) option" where
  "pool_pop pool =
     (case rtw_phl_query_phl_rx pool of (None, _) \<Rightarrow> None | (Some p, pool1) \<Rightarrow> Some (p, pool1))"

interpretation pool: fifo "\<lambda>p q. Some (phl_release_phl_rx p q)" pool_pop idle pool_wf
  "\<lambda>q p. p \<notin> set (idle q) \<and> p < 8192"
proof
  fix q :: rx_pkt_pool and x q1
  assume wf: "pool_wf q"
  show "pool_pop q = None \<longleftrightarrow> idle q = []"
    by (simp add: pool_pop_def rtw_phl_query_phl_rx_def split: list.split)
  show "pool_wf q1" if "pool_pop q = Some (x, q1)"
    using pool_query_wf [OF wf] that
    by (auto simp: pool_pop_def split: prod.splits option.splits)
  show "idle q = x # idle q1" if "pool_pop q = Some (x, q1)"
    using that by (auto simp: pool_pop_def rtw_phl_query_phl_rx_def split: list.splits)
qed (auto intro: pool_release_wf)

subsection \<open>Properties\<close>

text \<open>
  C25. The ring hands packets over in arrival order: over any sequence of additions and queries,
  the packets queried followed by those still in the ring are those present at the start followed
  by the accepted ones. An addition is refused exactly when 4095 packets wait (one of the 4096
  entries stays free), which is also when \<^verbatim>\<open>phl_check_recv_ring_resource\<close> says so, and
  \<^verbatim>\<open>rtw_phl_query_new_rx_num\<close> is the number of waiting packets.
\<close>

theorem rx_ring_fifo:
  assumes "ring_wf ring" and "fifo_run rx_ring_push rx_ring_pop ring ops = (acc, out, ring')"
    and "fifo_admissible (\<lambda>_ _. True) rx_ring_push rx_ring_pop ring ops"
  shows "ring_contents ring @ acc = out @ ring_contents ring' \<and> ring_wf ring' \<and>
         length (ring_contents ring') \<le> 4095 \<and>
         unat (rtw_phl_query_new_rx_num ring') = length (ring_contents ring') \<and>
         (phl_check_recv_ring_resource ring' \<longleftrightarrow> length (ring_contents ring') < 4095) \<and>
         (fst (rx_ring_add x ring') = RTW_PHL_STATUS_RESOURCE \<longleftrightarrow> length (ring_contents ring') = 4095)"
proof -
  have wf: "ring_wf ring'" and eq: "ring_contents ring @ acc = out @ ring_contents ring'"
    using rq.run_in_order [OF assms(1,3,2)] by auto
  have "phl_check_recv_ring_resource ring' \<longleftrightarrow> ring_avail ring' < 4095"
    using ring_avail_wptr [OF wf] ring_avail_less [of ring']
    by (auto simp: phl_check_recv_ring_resource_def u16_eq_iff)
  then show ?thesis
    using wf eq ring_avail_less [of ring'] ring_avail_rptr [OF wf] rx_ring_add_full(2) [OF wf]
    by (simp add: ring_contents_def rtw_phl_query_new_rx_num_def)
qed

theorem rx_ring_fifo_witness:
  "let r = \<lparr>core_idx = 4095, phl_idx = 4095, entry = (\<lambda>_. None :: nat option)\<rparr> in
   ring_contents (snd (snd (fifo_run rx_ring_push rx_ring_pop r [Push 5, Push 9, Pop]))) = [9]"
proof -
  let ?r = "\<lparr>core_idx = 4095, phl_idx = 4095, entry = (\<lambda>_. None :: nat option)\<rparr>"
  have wf: "ring_wf ?r" by (simp add: ring_wf_def ring_avail_def)
  let ?r1 = "\<lparr>core_idx = 4095, phl_idx = 0, entry = [0 \<mapsto> 5 :: nat]\<rparr>"
  let ?r2 = "\<lparr>core_idx = 4095, phl_idx = 1, entry = [0 \<mapsto> 5 :: nat, 1 \<mapsto> 9]\<rparr>"
  note ev = rx_ring_push_def rx_ring_pop_def rx_ring_add_def rx_ring_take_def phl_calc_avail_wptr_def
    phl_calc_avail_rptr_def MAX_PHL_RX_RING_ENTRY_NUM_def Let_def
  have steps: "rx_ring_push 5 ?r = Some ?r1" "rx_ring_push 9 ?r1 = Some ?r2"
      "\<exists>r3. rx_ring_pop ?r2 = Some (5, r3)"
    by (simp_all add: ev word_le_nat_alt word_less_nat_alt)
  obtain acc out r' where run: "fifo_run rx_ring_push rx_ring_pop ?r [Push 5, Push 9, Pop] = (acc, out, r')"
    by (metis prod_cases3)
  then have "acc = [5, 9]" "out = [5]"
    using steps by auto
  moreover have "fifo_admissible (\<lambda>_ _. True) rx_ring_push rx_ring_pop ?r [Push 5, Push 9, Pop]"
    by (simp split: option.split)
  moreover have "ring_contents ?r = []"
    by (simp add: ring_contents_def ring_avail_def)
  ultimately show ?thesis
    using rx_ring_fifo [OF wf run] unfolding Let_def run by simp
qed

text \<open>
  The packet pool: after allocation all 8192 structures are idle; over any sequence of queries
  and releases (of structures that are not idle already) a structure is handed out in the order it
  became idle, the counter stays the number of idle structures, and the pool reports that all are
  idle exactly when they are.
\<close>

theorem rx_pool_fifo:
  assumes "fifo_admissible (\<lambda>q p. p \<notin> set (idle q) \<and> p < 8192) (\<lambda>p q. Some (phl_release_phl_rx p q))
             pool_pop phl_alloc_recv_pkt_pool ops"
    and "fifo_run (\<lambda>p q. Some (phl_release_phl_rx p q)) pool_pop phl_alloc_recv_pkt_pool ops =
           (released, taken, pool')"
  shows "[0..<8192] @ released = taken @ idle pool' \<and> distinct (idle pool') \<and>
         unat (idle_cnt pool') = length (idle pool') \<and>
         (rtw_phl_is_phl_rx_idle pool' \<longleftrightarrow> length (idle pool') = 8192)"
proof -
  have "pool_wf phl_alloc_recv_pkt_pool"
    by (auto simp: pool_alloc pool_wf_def)
  from pool.run_in_order [OF this assms] have wf: "pool_wf pool'"
    and eq: "[0..<8192] @ released = taken @ idle pool'"
    by (simp_all add: pool_alloc)
  have "rtw_phl_is_phl_rx_idle pool' \<longleftrightarrow> unat (idle_cnt pool') = 8192"
    by (auto simp: rtw_phl_is_phl_rx_idle_def MAX_PHL_RING_RX_PKT_NUM_def word_unat_eq_iff)
  then show ?thesis
    using wf eq by (simp add: pool_wf_def)
qed

theorem rx_pool_fifo_witness:
  "\<exists>pool'. fifo_run (\<lambda>p q. Some (phl_release_phl_rx p q)) pool_pop phl_alloc_recv_pkt_pool [Pop, Push 0] =
     ([0], [0], pool') \<and> unat (idle_cnt pool') = 8192"
proof -
  have upt: "[0..<8192] = 0 # [Suc 0..<8192]"
    by (rule upt_conv_Cons) simp
  obtain pool' where run: "fifo_run (\<lambda>p q. Some (phl_release_phl_rx p q)) pool_pop
      phl_alloc_recv_pkt_pool [Pop, Push 0] = ([0], [0], pool')"
    by (simp add: pool_alloc pool_pop_def rtw_phl_query_phl_rx_def upt)
  have adm: "fifo_admissible (\<lambda>q p. p \<notin> set (idle q) \<and> p < 8192) (\<lambda>p q. Some (phl_release_phl_rx p q))
      pool_pop phl_alloc_recv_pkt_pool [Pop, Push 0]"
    by (simp add: pool_alloc pool_pop_def rtw_phl_query_phl_rx_def upt)
  have "[0..<8192] @ [0] = [0] @ idle pool'" and cnt: "unat (idle_cnt pool') = length (idle pool')"
    using rx_pool_fifo [OF adm run] by blast+
  from arg_cong [OF this(1), of length] have "length (idle pool') = 8192"
    by (simp only: length_append length_upt)
  then show ?thesis
    using run cnt by (intro exI [of _ pool'] conjI) simp_all
qed

end
