(* ===== verification/Phl_Macid.thy ===== *)
theory Phl_Macid
  imports Phl_Prelude
begin

section \<open>MAC id allocation (phl/phl_sta.c, phl/phl_util.h)\<close>

text \<open>
  \<^verbatim>\<open>struct macid_ctl_t\<close>: bitmaps of 8 words of 32 bits for the MAC ids in use, for the groups of
  ids taken by a multi-link device or by legacy devices, for broadcast stations and per role; and
  the station of every id. With several links the first \<open>max_mld_num * max_link_num\<close> ids form
  \<open>max_mld_num\<close> groups (ids congruent modulo \<open>max_mld_num\<close>). The locale \<open>bitmap\<close> is what the
  allocator relies on; the 32-bit maps and the 8-bit module maps of \<^verbatim>\<open>phl_util.h\<close> interpret it.
\<close>

subsection \<open>The contract of a bitmap\<close>

locale bitmap =
  fixes chk :: "'m \<Rightarrow> 'i \<Rightarrow> bool"
    and set_bit :: "'m \<Rightarrow> 'i \<Rightarrow> 'm"
    and clr_bit :: "'m \<Rightarrow> 'i \<Rightarrow> 'm"
    and ok :: "'m \<Rightarrow> bool"
    and valid :: "'i \<Rightarrow> bool"
  assumes set_ok: "ok m \<Longrightarrow> ok (set_bit m i)"
    and clr_ok: "ok m \<Longrightarrow> ok (clr_bit m i)"
    and chk_set: "ok m \<Longrightarrow> valid i \<Longrightarrow> valid j \<Longrightarrow> chk (set_bit m i) j \<longleftrightarrow> j = i \<or> chk m j"
    and chk_clr: "ok m \<Longrightarrow> valid i \<Longrightarrow> valid j \<Longrightarrow> chk (clr_bit m i) j \<longleftrightarrow> j \<noteq> i \<and> chk m j"
begin

lemma fold_set:
  "ok m \<Longrightarrow> (\<And>i. i \<in> set is \<Longrightarrow> valid i) \<Longrightarrow> valid j \<Longrightarrow>
   chk (fold (\<lambda>i m. set_bit m i) is m) j \<longleftrightarrow> j \<in> set is \<or> chk m j"
  by (induction "is" arbitrary: m) (auto simp: set_ok chk_set)

lemma fold_clr:
  "ok m \<Longrightarrow> (\<And>i. i \<in> set is \<Longrightarrow> valid i) \<Longrightarrow> valid j \<Longrightarrow>
   chk (fold (\<lambda>i m. clr_bit m i) is m) j \<longleftrightarrow> j \<notin> set is \<and> chk m j"
  by (induction "is" arbitrary: m) (auto simp: clr_ok chk_clr)

text \<open>Taking a free id and giving it back restores the map.\<close>

lemma set_clr_restores:
  "ok m \<Longrightarrow> valid i \<Longrightarrow> \<not> chk m i \<Longrightarrow> valid j \<Longrightarrow> chk (clr_bit (set_bit m i) i) j \<longleftrightarrow> chk m j"
  by (auto simp: set_ok chk_set chk_clr)

end

subsection \<open>The maps of the MAC ids\<close>

type_synonym macid_map = "u32 list"

text \<open>A word of the map; \<open>macid_map_ok\<close> and the bound on the ids keep the index in range.\<close>

definition map_word :: "macid_map \<Rightarrow> nat \<Rightarrow> u32" where
  "map_word m i = (if i < length m then m ! i else 0)"

definition phl_macid_is_used_raw :: "macid_map \<Rightarrow> u16 \<Rightarrow> bool" where
  "phl_macid_is_used_raw m mid \<longleftrightarrow> map_word m (unat mid div 32) AND (push_bit (unat mid mod 32) 1) \<noteq> 0"

definition phl_macid_map_clr :: "macid_map \<Rightarrow> u16 \<Rightarrow> macid_map" where
  "phl_macid_map_clr m mid =
     m[unat mid div 32 := map_word m (unat mid div 32) AND NOT (push_bit (unat mid mod 32) 1)]"

definition phl_macid_map_set :: "macid_map \<Rightarrow> u16 \<Rightarrow> macid_map" where
  "phl_macid_map_set m mid =
     m[unat mid div 32 := map_word m (unat mid div 32) OR push_bit (unat mid mod 32) 1]"

definition macid_map_ok :: "macid_map \<Rightarrow> bool" where
  "macid_map_ok m \<longleftrightarrow> length m = 8"

definition macid_valid :: "u16 \<Rightarrow> bool" where
  "macid_valid mid \<longleftrightarrow> unat mid < 256"

lemma is_used_bit: "phl_macid_is_used_raw m i \<longleftrightarrow> bit (map_word m (unat i div 32)) (unat i mod 32)"
  by (simp add: phl_macid_is_used_raw_def and_exp_eq_0_iff_not_bit)

lemma div_mod_32_inj: "unat (i::u16) div 32 = unat j div 32 \<Longrightarrow> unat i mod 32 = unat j mod 32 \<Longrightarrow> i = j"
  by (metis div_mult_mod_eq word_unat_eq_iff)

lemma map_word_update:
  "macid_map_ok m \<Longrightarrow> macid_valid i \<Longrightarrow>
   map_word (m[unat i div 32 := w]) (unat j div 32) =
     (if unat j div 32 = unat i div 32 then w else map_word m (unat j div 32))"
  by (auto simp: map_word_def macid_map_ok_def macid_valid_def)

interpretation mm: bitmap phl_macid_is_used_raw phl_macid_map_set phl_macid_map_clr macid_map_ok macid_valid
proof
  fix m :: macid_map and i j :: u16
  assume ok: "macid_map_ok m"
  show "macid_map_ok (phl_macid_map_set m i)" "macid_map_ok (phl_macid_map_clr m i)"
    using ok by (simp_all add: macid_map_ok_def phl_macid_map_set_def phl_macid_map_clr_def)
  assume v: "macid_valid i" "macid_valid j"
  have lt: "unat j mod 32 < 32" "unat i mod 32 < 32" by simp_all
  show "phl_macid_is_used_raw (phl_macid_map_set m i) j \<longleftrightarrow> j = i \<or> phl_macid_is_used_raw m j"
    using ok v lt div_mod_32_inj [of j i]
    by (auto simp: is_used_bit phl_macid_map_set_def map_word_update bit_simps)
  show "phl_macid_is_used_raw (phl_macid_map_clr m i) j \<longleftrightarrow> j \<noteq> i \<and> phl_macid_is_used_raw m j"
    using ok v lt div_mod_32_inj [of j i]
    by (auto simp: is_used_bit phl_macid_map_clr_def map_word_update bit_simps)
qed

subsection \<open>The module bitmaps of phl_util.h\<close>

definition chk_bitmap_bit :: "u8 \<Rightarrow> u8 list \<Rightarrow> u8 \<Rightarrow> bool" where
  "chk_bitmap_bit max_map_len bm mdl_id =
     (if unat mdl_id div 8 < unat max_map_len
      then bm ! (unat mdl_id div 8) AND push_bit (unat mdl_id mod 8) 1 \<noteq> 0 else False)"

definition add_bitmap_bit :: "u8 \<Rightarrow> u8 list \<Rightarrow> u8 list \<Rightarrow> u8 list" where
  "add_bitmap_bit max_map_len bm arr =
     fold (\<lambda>mdl_id m. if unat mdl_id div 8 < unat max_map_len
                  then m[unat mdl_id div 8 := m ! (unat mdl_id div 8) OR push_bit (unat mdl_id mod 8) 1] else m) arr bm"

definition clr_bitmap_bit :: "u8 \<Rightarrow> u8 list \<Rightarrow> u8 list \<Rightarrow> u8 list" where
  "clr_bitmap_bit max_map_len bm arr =
     fold (\<lambda>mdl_id m. if unat mdl_id div 8 < unat max_map_len
                  then m[unat mdl_id div 8 := m ! (unat mdl_id div 8) AND NOT (push_bit (unat mdl_id mod 8) 1)] else m) arr bm"

lemma div_mod_8_inj: "unat (i::u8) div 8 = unat j div 8 \<Longrightarrow> unat i mod 8 = unat j mod 8 \<Longrightarrow> i = j"
  by (metis div_mult_mod_eq word_unat_eq_iff)

interpretation bm8: bitmap "chk_bitmap_bit n" "\<lambda>m i. add_bitmap_bit n m [i]" "\<lambda>m i. clr_bitmap_bit n m [i]"
  "\<lambda>m. length m = unat n" "\<lambda>i. unat i div 8 < unat n" for n
proof
  fix m :: "u8 list" and i j :: u8
  assume ok: "length m = unat n"
  show "length (add_bitmap_bit n m [i]) = unat n" "length (clr_bitmap_bit n m [i]) = unat n"
    using ok by (simp_all add: add_bitmap_bit_def clr_bitmap_bit_def)
  assume v: "unat i div 8 < unat n" "unat j div 8 < unat n"
  have lt: "unat j mod 8 < 8" "unat i mod 8 < 8" by simp_all
  show "chk_bitmap_bit n (add_bitmap_bit n m [i]) j \<longleftrightarrow> j = i \<or> chk_bitmap_bit n m j"
    using ok v lt div_mod_8_inj [of j i]
    by (auto simp: chk_bitmap_bit_def add_bitmap_bit_def and_exp_eq_0_iff_not_bit nth_list_update bit_simps)
  show "chk_bitmap_bit n (clr_bitmap_bit n m [i]) j \<longleftrightarrow> j \<noteq> i \<and> chk_bitmap_bit n m j"
    using ok v lt div_mod_8_inj [of j i]
    by (auto simp: chk_bitmap_bit_def clr_bitmap_bit_def and_exp_eq_0_iff_not_bit nth_list_update bit_simps)
qed

subsection \<open>The control block\<close>

text \<open>The capabilities of the device that the allocator reads.\<close>

record dev_cap_t =
  max_mld_num :: u16
  max_link_num :: u8

record macid_ctl_t =
  used_map :: macid_map
  used_mld_map :: macid_map
  used_legacy_map :: macid_map
  bmc_map :: macid_map
  wifi_role_usedmap :: "macid_map list"
  wrole_bmc :: "nat \<Rightarrow> nat \<Rightarrow> u16"
  sta :: "nat \<Rightarrow> nat option"
  max_num :: u16

text \<open>
  The fields of \<^verbatim>\<open>struct rtw_phl_stainfo_t\<close> used here: its address, its role (a null pointer is
  \<open>None\<close>), its link, its hardware address and its MAC id.
\<close>

record stainfo =
  sta_ptr :: nat
  sta_wrole :: "nat option"
  sta_rlink :: nat
  sta_addr :: "u8 list"
  sta_macid :: u16

datatype rtw_device_type = DEV_TYPE_INACTIVE | DEV_TYPE_LEGACY | DEV_TYPE_MLD

definition phl_macid_ctrl_init :: "u16 \<Rightarrow> u16 \<Rightarrow> macid_ctl_t \<Rightarrow> rtw_phl_status \<times> macid_ctl_t" where
  "phl_macid_ctrl_init hw_macid_num sw_macid_num mc =
     (if hw_macid_num = 0 then (RTW_PHL_STATUS_FAILURE, mc)
      else let m = min hw_macid_num sw_macid_num
           in (RTW_PHL_STATUS_SUCCESS,
               mc\<lparr>max_num := m, wrole_bmc := (\<lambda>i lidx. m)\<rparr>))"

definition phl_macid_ctrl_deinit :: "macid_ctl_t \<Rightarrow> rtw_phl_status \<times> macid_ctl_t" where
  "phl_macid_ctrl_deinit mc = (RTW_PHL_STATUS_SUCCESS, mc\<lparr>max_num := 0\<rparr>)"

definition phl_wrole_bcmc_id_set :: "macid_ctl_t \<Rightarrow> nat \<Rightarrow> nat \<Rightarrow> u16 \<Rightarrow> macid_ctl_t" where
  "phl_wrole_bcmc_id_set mc wrole rlink mid =
     mc\<lparr>wrole_bmc := (\<lambda>i l. if i = wrole \<and> l = rlink then mid else wrole_bmc mc i l)\<rparr>"

text \<open>A counting loop that returns at the first index with the property.\<close>

definition first_mid :: "(u16 \<Rightarrow> bool) \<Rightarrow> nat \<Rightarrow> nat \<Rightarrow> u16 option" where
  "first_mid P a b = List.find P (map of_nat [a..<b])"

text \<open>The id of link \<open>lidx\<close> in a group, computed in 16 bits.\<close>

definition group_mid :: "dev_cap_t \<Rightarrow> u16 \<Rightarrow> nat \<Rightarrow> u16" where
  "group_mid cap g lidx = g + max_mld_num cap * of_nat lidx"

definition first_link :: "dev_cap_t \<Rightarrow> macid_ctl_t \<Rightarrow> u16 \<Rightarrow> u16 option" where
  "first_link cap mc g =
     map_option (group_mid cap g)
       (List.find (\<lambda>l. \<not> phl_macid_is_used_raw (used_map mc) (group_mid cap g l))
          [0..<unat (max_link_num cap)])"

text \<open>
  \<^verbatim>\<open>_phl_alloc_mld_macid\<close>. \<open>None\<close> is the division by zero that \<^verbatim>\<open>main_id % max_mld_num\<close> is when the
  device has no multi-link group.
\<close>

definition phl_alloc_mld_macid :: "dev_cap_t \<Rightarrow> u16 \<Rightarrow> macid_ctl_t \<Rightarrow> (u16 \<times> macid_ctl_t) option" where
  "phl_alloc_mld_macid cap main_id mc =
     (if max_num mc = main_id
      then if max_link_num cap = 1
           then case first_mid (\<lambda>mid. \<not> phl_macid_is_used_raw (used_map mc) mid) 0 (unat (max_num mc)) of
                  Some mid \<Rightarrow> Some (mid, mc)
                | None \<Rightarrow> Some (max_num mc, mc)
           else case first_mid (\<lambda>mid. \<not> phl_macid_is_used_raw (used_mld_map mc) mid \<and>
                                       \<not> phl_macid_is_used_raw (used_legacy_map mc) mid)
                       0 (unat (max_mld_num cap)) of
                  Some mid \<Rightarrow> Some (mid, mc\<lparr>used_mld_map := phl_macid_map_set (used_mld_map mc) mid\<rparr>)
                | None \<Rightarrow> Some (max_num mc, mc)
      else if max_mld_num cap = 0 then None
      else case first_link cap mc (main_id mod max_mld_num cap) of
             Some mid \<Rightarrow> Some (mid, mc)
           | None \<Rightarrow> Some (max_num mc, mc))"

text \<open>The scan of the groups by \<^verbatim>\<open>_phl_alloc_legacy_macid\<close>: \<open>Inl\<close> is its early return.\<close>

fun legacy_scan :: "dev_cap_t \<Rightarrow> macid_ctl_t \<Rightarrow> u16 list \<Rightarrow> u16 \<Rightarrow> u16 + u16" where
  "legacy_scan cap mc [] avail = Inr avail"
| "legacy_scan cap mc (mid # mids) avail =
     (if phl_macid_is_used_raw (used_mld_map mc) mid then legacy_scan cap mc mids avail
      else if \<not> phl_macid_is_used_raw (used_legacy_map mc) mid
      then legacy_scan cap mc mids (if avail = max_num mc then mid else avail)
      else case first_link cap mc mid of
             Some another \<Rightarrow> Inl another
           | None \<Rightarrow> legacy_scan cap mc mids avail)"

definition phl_alloc_legacy_macid :: "dev_cap_t \<Rightarrow> macid_ctl_t \<Rightarrow> u16 \<times> macid_ctl_t" where
  "phl_alloc_legacy_macid cap mc =
     (let unused = (\<lambda>mid. \<not> phl_macid_is_used_raw (used_map mc) mid) in
      if max_link_num cap = 1
      then case first_mid unused 0 (unat (max_num mc)) of
             Some mid \<Rightarrow> (mid, mc)
           | None \<Rightarrow> (max_num mc, mc)
      else
        let rsvd = max_mld_num cap * ucast (max_link_num cap)
        in case (if rsvd > 0 \<and> max_num mc > rsvd
                 then first_mid unused (unat rsvd) (unat (max_num mc)) else None) of
             Some mid \<Rightarrow> (mid, mc)
           | None \<Rightarrow>
               (case legacy_scan cap mc (map of_nat [0..<unat (max_mld_num cap)]) (max_num mc) of
                  Inl another \<Rightarrow> (another, mc)
                | Inr avail \<Rightarrow>
                    (avail,
                     if avail \<noteq> max_num mc
                     then mc\<lparr>used_legacy_map := phl_macid_map_set (used_legacy_map mc) avail\<rparr> else mc)))"

definition bc_addr :: "u8 list" where
  "bc_addr = replicate 6 0xFF"

text \<open>Status, control block and station; \<open>None\<close> as above.\<close>

definition phl_alloc_macid ::
  "dev_cap_t \<Rightarrow> rtw_device_type \<Rightarrow> u16 \<Rightarrow> stainfo \<Rightarrow> macid_ctl_t
     \<Rightarrow> (rtw_phl_status \<times> macid_ctl_t \<times> stainfo) option" where
  "phl_alloc_macid cap dtype main_id s mc =
     (case sta_wrole s of
        None \<Rightarrow> Some (RTW_PHL_STATUS_FAILURE, mc, s)
      | Some wrole \<Rightarrow>
          (case (if dtype = DEV_TYPE_MLD then phl_alloc_mld_macid cap main_id mc
                 else Some (phl_alloc_legacy_macid cap mc)) of
             None \<Rightarrow> None
           | Some (mid, mc1) \<Rightarrow>
               if mid = max_num mc
               then Some (RTW_PHL_STATUS_FAILURE, mc1, s\<lparr>sta_macid := max_num mc\<rparr>)
               else
                 let mc2 = mc1\<lparr>used_map := phl_macid_map_set (used_map mc1) mid,
                               wifi_role_usedmap := (wifi_role_usedmap mc1)[wrole :=
                                  phl_macid_map_set (wifi_role_usedmap mc1 ! wrole) mid],
                               sta := (sta mc1)(unat mid := Some (sta_ptr s))\<rparr>;
                     mc3 = (if sta_addr s = bc_addr
                            then phl_wrole_bcmc_id_set
                                   (mc2\<lparr>bmc_map := phl_macid_map_set (bmc_map mc2) mid\<rparr>)
                                   wrole (sta_rlink s) mid
                            else mc2)
                 in Some (RTW_PHL_STATUS_SUCCESS, mc3, s\<lparr>sta_macid := mid\<rparr>)))"

text \<open>
  \<^verbatim>\<open>_phl_release_macid\<close>; the station has a role there (the code dereferences it).
\<close>

definition phl_release_macid ::
  "dev_cap_t \<Rightarrow> nat \<Rightarrow> stainfo \<Rightarrow> macid_ctl_t \<Rightarrow> rtw_phl_status \<times> macid_ctl_t \<times> stainfo" where
  "phl_release_macid cap wrole s mc =
     (let s' = s\<lparr>sta_macid := max_num mc\<rparr>; mid0 = sta_macid s in
      if mid0 \<ge> max_num mc then (RTW_PHL_STATUS_FAILURE, mc, s')
      else if \<not> phl_macid_is_used_raw (used_map mc) mid0 then (RTW_PHL_STATUS_FAILURE, mc, s')
      else
        let mc1 = mc\<lparr>used_map := phl_macid_map_clr (used_map mc) mid0,
                     wifi_role_usedmap := (wifi_role_usedmap mc)[wrole :=
                       phl_macid_map_clr (wifi_role_usedmap mc ! wrole) mid0],
                     sta := (sta mc)(unat mid0 := None)\<rparr>;
            mc2 = (if sta_addr s = bc_addr
                   then mc1\<lparr>bmc_map := phl_macid_map_clr (bmc_map mc1) mid0\<rparr> else mc1);
            mid = mid0 mod max_mld_num cap;
            mc3 = (if max_mld_num cap \<noteq> 0 \<and>
                      List.find (\<lambda>l. phl_macid_is_used_raw (used_map mc2) (group_mid cap mid l))
                        [0..<unat (max_link_num cap)] = None
                   then mc2\<lparr>used_mld_map := phl_macid_map_clr (used_mld_map mc2) mid,
                            used_legacy_map := phl_macid_map_clr (used_legacy_map mc2) mid\<rparr>
                   else mc2)
        in (RTW_PHL_STATUS_SUCCESS, mc3, s'))"

subsection \<open>Queries\<close>

definition rtw_phl_wrole_bcmc_id_get :: "macid_ctl_t \<Rightarrow> nat \<Rightarrow> nat \<Rightarrow> u16" where
  "rtw_phl_wrole_bcmc_id_get mc wrole rlink = wrole_bmc mc wrole rlink"

definition rtw_phl_get_macid_max_num :: "macid_ctl_t \<Rightarrow> u16" where
  "rtw_phl_get_macid_max_num mc = max_num mc"

definition rtw_phl_macid_is_bmc :: "macid_ctl_t \<Rightarrow> u16 \<Rightarrow> bool" where
  "rtw_phl_macid_is_bmc mc mid =
     (if mid \<ge> max_num mc then True else phl_macid_is_used_raw (bmc_map mc) mid)"

definition rtw_phl_macid_is_used :: "macid_ctl_t \<Rightarrow> u16 \<Rightarrow> bool" where
  "rtw_phl_macid_is_used mc mid =
     (if mid \<ge> max_num mc then True else phl_macid_is_used_raw (used_map mc) mid)"

definition phl_macid_is_valid :: "macid_ctl_t \<Rightarrow> u16 \<Rightarrow> bool" where
  "phl_macid_is_valid mc mid \<longleftrightarrow> mid < max_num mc"

definition rtw_phl_get_stainfo_by_macid :: "macid_ctl_t \<Rightarrow> u16 \<Rightarrow> nat option" where
  "rtw_phl_get_stainfo_by_macid mc mid =
     (if mid \<ge> max_num mc then None
      else if phl_macid_is_used_raw (used_map mc) mid then sta mc (unat mid) else None)"

text \<open>The roles whose map has an id, in role order; the loops of the two predicates stop early.\<close>

definition roles_using :: "macid_ctl_t \<Rightarrow> u16 \<Rightarrow> nat list" where
  "roles_using mc mid =
     filter (\<lambda>i. phl_macid_is_used_raw (wifi_role_usedmap mc ! i) mid) [0..<length (wifi_role_usedmap mc)]"

fun shared_loop :: "macid_ctl_t \<Rightarrow> u16 \<Rightarrow> nat list \<Rightarrow> u8 \<Rightarrow> bool" where
  "shared_loop mc mid [] iface_bmp = False"
| "shared_loop mc mid (i # r) iface_bmp =
     (if phl_macid_is_used_raw (wifi_role_usedmap mc ! i) mid
      then if iface_bmp \<noteq> 0 then True else shared_loop mc mid r (iface_bmp OR push_bit i 1)
      else shared_loop mc mid r iface_bmp)"

definition rtw_phl_macid_is_wrole_shared :: "macid_ctl_t \<Rightarrow> u16 \<Rightarrow> bool" where
  "rtw_phl_macid_is_wrole_shared mc mid =
     (if mid \<ge> max_num mc then False
      else shared_loop mc mid [0..<length (wifi_role_usedmap mc)] 0)"

fun specific_loop :: "macid_ctl_t \<Rightarrow> u16 \<Rightarrow> nat \<Rightarrow> nat list \<Rightarrow> u8 \<Rightarrow> bool" where
  "specific_loop mc mid wrole [] iface_bmp = (iface_bmp \<noteq> 0)"
| "specific_loop mc mid wrole (i # r) iface_bmp =
     (if phl_macid_is_used_raw (wifi_role_usedmap mc ! i) mid
      then if iface_bmp \<noteq> 0 \<or> i \<noteq> wrole then False
           else specific_loop mc mid wrole r (iface_bmp OR push_bit i 1)
      else specific_loop mc mid wrole r iface_bmp)"

definition rtw_phl_macid_is_wrole_specific :: "macid_ctl_t \<Rightarrow> u16 \<Rightarrow> nat \<Rightarrow> bool" where
  "rtw_phl_macid_is_wrole_specific mc mid wrole =
     (if mid \<ge> max_num mc then False
      else specific_loop mc mid wrole [0..<length (wifi_role_usedmap mc)] 0)"

subsection \<open>Invariant\<close>

text \<open>Bit \<open>n\<close> of a map.\<close>

definition bitn :: "macid_map \<Rightarrow> nat \<Rightarrow> bool" where
  "bitn m n = phl_macid_is_used_raw m (of_nat n)"

lemma bitn_raw: "phl_macid_is_used_raw m mid = bitn m (unat mid)"
  by (simp add: bitn_def)

lemma of_nat_u16_eq: "a < 65536 \<Longrightarrow> b < 65536 \<Longrightarrow> (of_nat a :: u16) = of_nat b \<longleftrightarrow> a = b"
  by (metis unat_of_nat_u16)

lemma of_nat_eq_mid: "n < 65536 \<Longrightarrow> (of_nat n :: u16) = mid \<longleftrightarrow> n = unat mid"
  by (auto simp: unat_of_nat_u16)

lemma bitn_set:
  assumes "macid_map_ok m" and "unat mid < 256" and "n < 256"
  shows "bitn (phl_macid_map_set m mid) n \<longleftrightarrow> n = unat mid \<or> bitn m n"
proof -
  have "(of_nat n :: u16) = mid \<longleftrightarrow> n = unat mid"
    using assms(3) by (simp add: of_nat_eq_mid)
  then show ?thesis
    using assms mm.chk_set [of m mid "of_nat n"] by (simp add: bitn_def macid_valid_def unat_of_nat_u16)
qed

lemma bitn_clr:
  assumes "macid_map_ok m" and "unat mid < 256" and "n < 256"
  shows "bitn (phl_macid_map_clr m mid) n \<longleftrightarrow> n \<noteq> unat mid \<and> bitn m n"
proof -
  have "(of_nat n :: u16) = mid \<longleftrightarrow> n = unat mid"
    using assms(3) by (simp add: of_nat_eq_mid)
  then show ?thesis
    using assms mm.chk_clr [of m mid "of_nat n"] by (simp add: bitn_def macid_valid_def unat_of_nat_u16)
qed

definition flagged :: "macid_ctl_t \<Rightarrow> nat \<Rightarrow> bool" where
  "flagged mc g \<longleftrightarrow> bitn (used_mld_map mc) g \<or> bitn (used_legacy_map mc) g"

text \<open>
  The groups, when there are several links: they lie below the bound, an id of a group is in use
  only if the group is taken by one kind of device, a taken group has an id in use, and no group
  is taken by both kinds.
\<close>

definition groups_wf :: "nat \<Rightarrow> nat \<Rightarrow> macid_ctl_t \<Rightarrow> bool" where
  "groups_wf M L mc \<longleftrightarrow>
     0 < L \<and> M * L \<le> unat (max_num mc) \<and>
     (\<forall>n < M * L. bitn (used_map mc) n \<longrightarrow> flagged mc (n mod M)) \<and>
     (\<forall>g < M. flagged mc g \<longrightarrow> (\<exists>l < L. bitn (used_map mc) (g + M * l))) \<and>
     (\<forall>g < M. \<not> (bitn (used_mld_map mc) g \<and> bitn (used_legacy_map mc) g))"

definition macid_wf :: "dev_cap_t \<Rightarrow> macid_ctl_t \<Rightarrow> bool" where
  "macid_wf cap mc \<longleftrightarrow>
     macid_map_ok (used_map mc) \<and> macid_map_ok (used_mld_map mc) \<and>
     macid_map_ok (used_legacy_map mc) \<and> macid_map_ok (bmc_map mc) \<and>
     unat (max_num mc) \<le> 256 \<and>
     (\<forall>n < 256. bitn (used_map mc) n \<longleftrightarrow> sta mc n \<noteq> None \<and> n < unat (max_num mc)) \<and>
     (max_link_num cap \<noteq> 1 \<longrightarrow> groups_wf (unat (max_mld_num cap)) (unat (max_link_num cap)) mc)"

text \<open>The first id of a multi-link device is asked with the invalid id, the others with its id.\<close>

definition main_ok :: "dev_cap_t \<Rightarrow> macid_ctl_t \<Rightarrow> u16 \<Rightarrow> bool" where
  "main_ok cap mc main_id \<longleftrightarrow>
     main_id = max_num mc \<or>
     (max_link_num cap \<noteq> 1 \<and> max_mld_num cap \<noteq> 0 \<and>
      bitn (used_mld_map mc) (unat main_id mod unat (max_mld_num cap)))"

text \<open>What both allocators promise.\<close>

definition alloc_result :: "dev_cap_t \<Rightarrow> macid_ctl_t \<Rightarrow> u16 \<Rightarrow> macid_ctl_t \<Rightarrow> bool" where
  "alloc_result cap mc mid mc1 \<longleftrightarrow>
     (let M = unat (max_mld_num cap); L = unat (max_link_num cap) in
      unat mid < unat (max_num mc) \<and> \<not> bitn (used_map mc) (unat mid) \<and>
      (mc1 = mc \<and> (max_link_num cap \<noteq> 1 \<longrightarrow> unat mid < M * L \<longrightarrow> flagged mc (unat mid mod M)) \<or>
       max_link_num cap \<noteq> 1 \<and> unat mid < M \<and> \<not> flagged mc (unat mid) \<and>
       (mc1 = mc\<lparr>used_mld_map := phl_macid_map_set (used_mld_map mc) mid\<rparr> \<or>
        mc1 = mc\<lparr>used_legacy_map := phl_macid_map_set (used_legacy_map mc) mid\<rparr>)))"

subsection \<open>The allocators\<close>

lemma first_mid_Some:
  assumes "first_mid P a b = Some mid" and "b \<le> 65536"
  shows "P mid \<and> a \<le> unat mid \<and> unat mid < b"
proof -
  obtain n where "mid = of_nat n" "a \<le> n" "n < b" "P mid"
    using find_in_set [OF assms(1) [unfolded first_mid_def]] by auto
  then show ?thesis
    using assms(2) by (simp add: unat_of_nat_u16)
qed

lemma first_mid_None:
  assumes "first_mid P a b = None" and "b \<le> 65536" and "a \<le> n" and "n < b"
  shows "\<not> P (of_nat n)"
  using assms by (auto simp: first_mid_def find_None_iff)

text \<open>The ids of a group, as numbers.\<close>

lemma group_mid_unat:
  assumes "unat g < unat (max_mld_num cap)" and "l < unat (max_link_num cap)"
    and "unat (max_mld_num cap) * unat (max_link_num cap) \<le> 256"
  shows "unat (group_mid cap g l) = unat g + unat (max_mld_num cap) * l"
    and "unat g + unat (max_mld_num cap) * l < unat (max_mld_num cap) * unat (max_link_num cap)"
proof -
  define M where "M = unat (max_mld_num cap)"
  have "M * Suc l \<le> M * unat (max_link_num cap)"
    using assms(2) by (intro mult_le_mono2) simp
  then show lt: "unat g + M * l < M * unat (max_link_num cap)"
    using assms(1) by (simp add: M_def)
  have "l < 65536"
    using assms(2) unsigned_less [where ?'a = nat, of "max_link_num cap"] by simp
  then have l: "unat (of_nat l :: u16) = l"
    by (rule unat_of_nat_u16)
  have "M * l < 65536" "unat g + M * l < 65536"
    using lt assms(3) by (simp_all add: M_def)
  then show "unat (group_mid cap g l) = unat g + M * l"
    by (simp add: group_mid_def unat_word_ariths l M_def)
qed

lemma first_link_Some:
  assumes "first_link cap mc g = Some mid"
  shows "\<exists>l < unat (max_link_num cap). mid = group_mid cap g l \<and> \<not> bitn (used_map mc) (unat mid)"
  using assms by (auto simp: first_link_def bitn_raw dest!: find_in_set)

lemma first_link_None:
  assumes "first_link cap mc g = None" and "l < unat (max_link_num cap)"
  shows "bitn (used_map mc) (unat (group_mid cap g l))"
  using assms by (auto simp: first_link_def find_None_iff bitn_raw)

lemma first_link_result:
  assumes wf: "macid_wf cap mc" and ml: "max_link_num cap \<noteq> 1" and g: "unat g < unat (max_mld_num cap)"
    and flag: "flagged mc (unat g)" and link: "first_link cap mc g = Some mid"
  shows "alloc_result cap mc mid mc"
proof -
  let ?M = "unat (max_mld_num cap)" and ?L = "unat (max_link_num cap)"
  have gw: "?M * ?L \<le> unat (max_num mc)" "unat (max_num mc) \<le> 256"
    using wf ml by (simp_all add: macid_wf_def groups_wf_def)
  obtain l where l: "l < ?L" "mid = group_mid cap g l" "\<not> bitn (used_map mc) (unat mid)"
    using first_link_Some [OF link] by blast
  have u: "unat mid = unat g + ?M * l" "unat g + ?M * l < ?M * ?L"
    using group_mid_unat [OF g l(1)] gw by (simp_all add: l(2))
  then have "unat mid < unat (max_num mc)" "unat mid mod ?M = unat g"
    using gw g by simp_all
  then show ?thesis
    using l(3) flag by (simp add: alloc_result_def Let_def)
qed

lemma free_group_result:
  assumes wf: "macid_wf cap mc" and ml: "max_link_num cap \<noteq> 1" and g: "unat mid < unat (max_mld_num cap)"
    and free: "\<not> flagged mc (unat mid)"
  shows "alloc_result cap mc mid (mc\<lparr>used_mld_map := phl_macid_map_set (used_mld_map mc) mid\<rparr>) \<and>
         alloc_result cap mc mid (mc\<lparr>used_legacy_map := phl_macid_map_set (used_legacy_map mc) mid\<rparr>)"
proof -
  let ?M = "unat (max_mld_num cap)" and ?L = "unat (max_link_num cap)"
  have gw: "0 < ?L" "?M * ?L \<le> unat (max_num mc)"
      "\<And>n. n < ?M * ?L \<Longrightarrow> bitn (used_map mc) n \<Longrightarrow> flagged mc (n mod ?M)"
    using wf ml by (auto simp: macid_wf_def groups_wf_def)
  have "?M * 1 \<le> ?M * ?L"
    using gw(1) by (intro mult_le_mono2) simp
  then have "unat mid < ?M * ?L"
    using g by linarith
  then show ?thesis
    using gw(2) gw(3) [of "unat mid"] free g ml by (auto simp: alloc_result_def Let_def)
qed

lemma legacy_scan_result:
  assumes "macid_wf cap mc" and "max_link_num cap \<noteq> 1"
    and "\<And>g. g \<in> set gs \<Longrightarrow> unat g < unat (max_mld_num cap)"
  shows "case legacy_scan cap mc gs avail of
           Inl mid \<Rightarrow> alloc_result cap mc mid mc
         | Inr a \<Rightarrow> a = avail \<or> (unat a < unat (max_mld_num cap) \<and> \<not> flagged mc (unat a))"
  using assms(3)
proof (induction gs arbitrary: avail)
  case (Cons g gs)
  consider (mld) "bitn (used_mld_map mc) (unat g)"
    | (free) "\<not> flagged mc (unat g)"
    | (leg) "\<not> bitn (used_mld_map mc) (unat g)" "bitn (used_legacy_map mc) (unat g)"
    by (auto simp: flagged_def)
  then show ?case
  proof cases
    case mld
    then show ?thesis using Cons by (simp add: bitn_raw)
  next
    case free
    then show ?thesis
      using Cons.IH [of avail] Cons.IH [of g] Cons.prems
      by (auto simp: bitn_raw flagged_def split: sum.splits)
  next
    case leg
    then have "flagged mc (unat g)" by (simp add: flagged_def)
    then have "alloc_result cap mc mid mc" if "first_link cap mc g = Some mid" for mid
      using first_link_result [OF assms(1,2) _ _ that] Cons.prems by simp
    then show ?thesis
      using leg Cons by (auto simp: bitn_raw split: option.split)
  qed
qed simp

lemma first_unused_result:
  assumes "macid_wf cap mc" and "first_mid (\<lambda>mid. \<not> phl_macid_is_used_raw (used_map mc) mid) a (unat (max_num mc)) = Some mid"
    and "max_link_num cap = 1 \<or> unat (max_mld_num cap) * unat (max_link_num cap) \<le> a"
  shows "alloc_result cap mc mid mc"
proof -
  have "unat (max_num mc) \<le> 65536"
    using assms(1) by (simp add: macid_wf_def)
  from first_mid_Some [OF assms(2) this] show ?thesis
    using assms(3) by (auto simp: alloc_result_def Let_def bitn_raw)
qed

lemma max_notin:
  assumes "alloc_result cap mc mid mc1"
  shows "mid \<noteq> max_num mc"
  using assms by (auto simp: alloc_result_def Let_def)

lemma alloc_legacy_result:
  assumes wf: "macid_wf cap mc" and out: "phl_alloc_legacy_macid cap mc = (mid, mc1)"
  shows "if mid = max_num mc then mc1 = mc else alloc_result cap mc mid mc1"
proof (cases "max_link_num cap = 1")
  case True
  then show ?thesis
    using out first_unused_result [OF wf, of 0] max_notin
    by (auto simp: phl_alloc_legacy_macid_def Let_def split: option.splits)
next
  case ml: False
  define rsvd where "rsvd = max_mld_num cap * ucast (max_link_num cap)"
  let ?f = "if rsvd > 0 \<and> max_num mc > rsvd
      then first_mid (\<lambda>mid. \<not> phl_macid_is_used_raw (used_map mc) mid) (unat rsvd) (unat (max_num mc)) else None"
  let ?s = "legacy_scan cap mc (map of_nat [0..<unat (max_mld_num cap)]) (max_num mc)"
  have gw: "unat (max_mld_num cap) * unat (max_link_num cap) \<le> 256"
    using wf ml by (simp add: macid_wf_def groups_wf_def)
  moreover have "unat (ucast (max_link_num cap) :: u16) = unat (max_link_num cap)"
    using unsigned_less [where ?'a = nat, of "max_link_num cap"]
    by (simp add: unsigned_ucast_eq take_bit_eq_mod unat_mod_distrib)
  ultimately have "unat rsvd = unat (max_mld_num cap) * unat (max_link_num cap)"
    by (simp add: rsvd_def unat_word_ariths)
  then have f: "alloc_result cap mc m mc" if "?f = Some m" for m
    using that first_unused_result [OF wf, of "unat rsvd" m] by (simp split: if_splits)
  have "unat (of_nat n :: u16) < unat (max_mld_num cap)" if "n < unat (max_mld_num cap)" for n
    using that unat_of_nat_u16 [OF less_trans [OF that unat_u16_less]] by simp
  then have s: "case ?s of Inl m \<Rightarrow> alloc_result cap mc m mc
      | Inr a \<Rightarrow> a = max_num mc \<or> (unat a < unat (max_mld_num cap) \<and> \<not> flagged mc (unat a))"
    by (intro legacy_scan_result [OF wf ml]) auto
  have eq: "phl_alloc_legacy_macid cap mc =
      (case ?f of Some mid \<Rightarrow> (mid, mc)
       | None \<Rightarrow> (case ?s of Inl another \<Rightarrow> (another, mc)
            | Inr avail \<Rightarrow> (avail, if avail \<noteq> max_num mc
                then mc\<lparr>used_legacy_map := phl_macid_map_set (used_legacy_map mc) avail\<rparr> else mc)))"
    using ml unfolding phl_alloc_legacy_macid_def Let_def rsvd_def by simp
  show ?thesis
  proof (cases ?f)
    case None
    then show ?thesis
      using out s max_notin free_group_result [OF wf ml] unfolding eq None
      by (auto split: sum.splits if_splits)
  next
    case (Some m)
    then show ?thesis
      using out f [OF Some] max_notin unfolding eq Some by auto
  qed
qed

lemma alloc_mld_result:
  assumes wf: "macid_wf cap mc" and main: "main_ok cap mc main_id"
  shows "\<exists>mid mc1. phl_alloc_mld_macid cap main_id mc = Some (mid, mc1) \<and>
           (if mid = max_num mc then mc1 = mc else alloc_result cap mc mid mc1)"
proof (cases "max_num mc = main_id")
  case True
  show ?thesis
  proof (cases "max_link_num cap = 1")
    case one: True
    then show ?thesis
      using True first_unused_result [OF wf, of 0] max_notin
      by (auto simp: phl_alloc_mld_macid_def split: option.split)
  next
    case False
    let ?P = "\<lambda>mid. \<not> phl_macid_is_used_raw (used_mld_map mc) mid \<and> \<not> phl_macid_is_used_raw (used_legacy_map mc) mid"
    have le: "unat (max_mld_num cap) \<le> 65536"
      using unat_u16_less [of "max_mld_num cap"] by linarith
    have "alloc_result cap mc m (mc\<lparr>used_mld_map := phl_macid_map_set (used_mld_map mc) m\<rparr>)"
      if "first_mid ?P 0 (unat (max_mld_num cap)) = Some m" for m
      using first_mid_Some [OF that le] free_group_result [OF wf False, of m]
      by (simp add: flagged_def bitn_raw)
    then show ?thesis
      using True False max_notin
      by (cases "first_mid ?P 0 (unat (max_mld_num cap))") (auto simp: phl_alloc_mld_macid_def)
  qed
next
  case False
  let ?g = "main_id mod max_mld_num cap"
  have m: "max_link_num cap \<noteq> 1" "max_mld_num cap \<noteq> 0"
      "bitn (used_mld_map mc) (unat main_id mod unat (max_mld_num cap))"
    using main False by (auto simp: main_ok_def)
  have g: "unat ?g = unat main_id mod unat (max_mld_num cap)" "unat ?g < unat (max_mld_num cap)"
    using m(2) by (simp_all add: unat_mod_distrib u16_eq_iff)
  have "alloc_result cap mc mid mc" if "first_link cap mc ?g = Some mid" for mid
    using first_link_result [OF wf m(1) g(2) _ that] m(3) g(1) by (simp add: flagged_def)
  then show ?thesis
    using False m(2) max_notin by (auto simp: phl_alloc_mld_macid_def split: option.split)
qed

subsection \<open>Allocation and release keep the invariant\<close>

text \<open>Marking the id in use and storing its station.\<close>

lemma alloc_commit:
  assumes wf: "macid_wf cap mc" and res: "alloc_result cap mc mid mc1"
    and mc2: "used_map mc2 = phl_macid_map_set (used_map mc) mid"
      "sta mc2 = (sta mc)(unat mid := Some p)" "max_num mc2 = max_num mc"
      "used_mld_map mc2 = used_mld_map mc1" "used_legacy_map mc2 = used_legacy_map mc1"
      "macid_map_ok (bmc_map mc2)"
  shows "macid_wf cap mc2"
proof -
  let ?M = "unat (max_mld_num cap)" and ?L = "unat (max_link_num cap)"
  have ok: "macid_map_ok (used_map mc)" "macid_map_ok (used_mld_map mc)" "macid_map_ok (used_legacy_map mc)"
    and mx: "unat (max_num mc) \<le> 256"
    and st: "\<And>n. n < 256 \<Longrightarrow> bitn (used_map mc) n \<longleftrightarrow> sta mc n \<noteq> None \<and> n < unat (max_num mc)"
    using wf by (auto simp: macid_wf_def)
  have mid: "unat mid < unat (max_num mc)" "unat mid < 256"
    using res mx by (simp_all add: alloc_result_def Let_def)
  have used: "bitn (used_map mc2) n \<longleftrightarrow> n = unat mid \<or> bitn (used_map mc) n" if "n < 256" for n
    using bitn_set [OF ok(1) mid(2) that] by (simp add: mc2)
  have oks: "macid_map_ok (used_map mc2)" "macid_map_ok (used_mld_map mc2)" "macid_map_ok (used_legacy_map mc2)"
    using ok res mm.set_ok by (auto simp: mc2 alloc_result_def Let_def)
  have "groups_wf ?M ?L mc2" if ml: "max_link_num cap \<noteq> 1"
  proof -
    have gw: "0 < ?L" "?M * ?L \<le> unat (max_num mc)"
        "\<And>n. n < ?M * ?L \<Longrightarrow> bitn (used_map mc) n \<Longrightarrow> flagged mc (n mod ?M)"
        "\<And>g. g < ?M \<Longrightarrow> flagged mc g \<Longrightarrow> \<exists>l < ?L. bitn (used_map mc) (g + ?M * l)"
        "\<And>g. g < ?M \<Longrightarrow> \<not> (bitn (used_mld_map mc) g \<and> bitn (used_legacy_map mc) g)"
      using wf ml by (auto simp: macid_wf_def groups_wf_def)
    have lt: "g + ?M * l < 256" if "g < ?M" "l < ?L" for g l
    proof -
      have "?M * Suc l \<le> ?M * ?L" using that(2) by (intro mult_le_mono2) simp
      then show ?thesis using that(1) gw(2) mx by simp
    qed
    have grp: "?M \<le> ?M * ?L" using gw(1) by simp
    then have M256: "g < 256" if "g < ?M" for g
      using that gw(2) mx by linarith
    have flag: "flagged mc2 g \<longleftrightarrow> flagged mc g \<or> (g = unat mid \<and> mc1 \<noteq> mc \<and> flagged mc2 g)"
      and excl: "\<not> (bitn (used_mld_map mc2) g \<and> bitn (used_legacy_map mc2) g)" if "g < ?M" for g
      using res gw(5) [OF that] ok mid M256 [OF that] bitn_set
      by (auto simp: alloc_result_def Let_def flagged_def mc2)
    have mflag: "flagged mc2 (unat mid mod ?M)" if "unat mid < ?M * ?L"
      using res that ml ok mid bitn_set [of _ mid "unat mid"]
      by (auto simp: alloc_result_def Let_def flagged_def mc2)
    have keep: "flagged mc g \<Longrightarrow> flagged mc2 g" if "g < ?M" for g
      using res that ok mid M256 [OF that] bitn_set by (auto simp: alloc_result_def Let_def flagged_def mc2)
    have "flagged mc2 (n mod ?M)" if "n < ?M * ?L" "bitn (used_map mc2) n" for n
    proof -
      have "0 < ?M" using that(1) by (cases ?M) auto
      then show ?thesis
        using that used [of n] gw(2,3) mx mflag keep [of "n mod ?M"] by auto
    qed
    moreover have "\<exists>l < ?L. bitn (used_map mc2) (g + ?M * l)" if "g < ?M" "flagged mc2 g" for g
    proof (cases "flagged mc g")
      case True
      then show ?thesis using gw(4) [OF that(1)] used lt [OF that(1)] by blast
    next
      case False
      then have "g = unat mid" using flag [OF that(1)] that(2) by blast
      then show ?thesis using used [of g] mid(2) gw(1) by (intro exI [of _ 0]) simp
    qed
    ultimately show ?thesis
      using gw(1,2) excl by (simp add: groups_wf_def mc2)
  qed
  then show ?thesis
    using oks mc2 mx mid st used by (auto simp: macid_wf_def)
qed

lemma alloc_macid_ok:
  assumes wf: "macid_wf cap mc" and role: "sta_wrole s = Some w"
    and main: "dtype = DEV_TYPE_MLD \<Longrightarrow> main_ok cap mc main_id"
  shows "\<exists>mc' s'.
     phl_alloc_macid cap dtype main_id s mc = Some (RTW_PHL_STATUS_FAILURE, mc, s\<lparr>sta_macid := max_num mc\<rparr>) \<or>
     (phl_alloc_macid cap dtype main_id s mc = Some (RTW_PHL_STATUS_SUCCESS, mc', s') \<and>
      unat (sta_macid s') < unat (max_num mc) \<and> \<not> bitn (used_map mc) (unat (sta_macid s')) \<and>
      used_map mc' = phl_macid_map_set (used_map mc) (sta_macid s') \<and>
      sta mc' = (sta mc)(unat (sta_macid s') := Some (sta_ptr s)) \<and>
      max_num mc' = max_num mc \<and> macid_wf cap mc')"
proof -
  let ?a = "if dtype = DEV_TYPE_MLD then phl_alloc_mld_macid cap main_id mc
            else Some (phl_alloc_legacy_macid cap mc)"
  obtain mid mc1 where a: "?a = Some (mid, mc1)"
      "if mid = max_num mc then mc1 = mc else alloc_result cap mc mid mc1"
    using alloc_mld_result [OF wf, of main_id] main alloc_legacy_result [OF wf] by (metis surj_pair)
  show ?thesis
  proof (cases "mid = max_num mc")
    case True
    then show ?thesis using a role by (simp add: phl_alloc_macid_def)
  next
    case False
    then have res: "alloc_result cap mc mid mc1" using a(2) by simp
    then have mc1: "used_map mc1 = used_map mc" "sta mc1 = sta mc" "max_num mc1 = max_num mc"
        "bmc_map mc1 = bmc_map mc" and mid: "unat mid < unat (max_num mc)" "\<not> bitn (used_map mc) (unat mid)"
      by (auto simp: alloc_result_def Let_def)
    have bmc: "macid_map_ok (bmc_map mc)" using wf by (simp add: macid_wf_def)
    define mc2 where "mc2 = mc1\<lparr>used_map := phl_macid_map_set (used_map mc1) mid,
         wifi_role_usedmap := (wifi_role_usedmap mc1)[w := phl_macid_map_set (wifi_role_usedmap mc1 ! w) mid],
         sta := (sta mc1)(unat mid := Some (sta_ptr s))\<rparr>"
    define mc3 where "mc3 = (if sta_addr s = bc_addr
        then phl_wrole_bcmc_id_set (mc2\<lparr>bmc_map := phl_macid_map_set (bmc_map mc2) mid\<rparr>) w (sta_rlink s) mid
        else mc2)"
    have out: "phl_alloc_macid cap dtype main_id s mc = Some (RTW_PHL_STATUS_SUCCESS, mc3, s\<lparr>sta_macid := mid\<rparr>)"
      using a(1) False role by (simp add: phl_alloc_macid_def Let_def mc2_def mc3_def)
    have mc3: "used_map mc3 = phl_macid_map_set (used_map mc) mid" "sta mc3 = (sta mc)(unat mid := Some (sta_ptr s))"
        "max_num mc3 = max_num mc" "used_mld_map mc3 = used_mld_map mc1" "used_legacy_map mc3 = used_legacy_map mc1"
        "macid_map_ok (bmc_map mc3)"
      using bmc by (simp_all add: mc3_def mc2_def phl_wrole_bcmc_id_set_def mc1 mm.set_ok)
    show ?thesis
      using out mc3 mid alloc_commit [OF wf res mc3] by simp
  qed
qed

lemma release_groups:
  assumes gw: "groups_wf M L mc" and mx: "unat (max_num mc) \<le> 256" and M: "0 < M" and mid: "mid < 256"
    and used: "\<And>n. n < 256 \<Longrightarrow> bitn (used_map mc3) n \<longleftrightarrow> n \<noteq> mid \<and> bitn (used_map mc) n"
    and max3: "max_num mc3 = max_num mc"
    and keep: "\<And>g. g < M \<Longrightarrow> g \<noteq> mid mod M \<Longrightarrow>
       (bitn (used_mld_map mc3) g \<longleftrightarrow> bitn (used_mld_map mc) g) \<and>
       (bitn (used_legacy_map mc3) g \<longleftrightarrow> bitn (used_legacy_map mc) g)"
    and grp: "if \<forall>l < L. \<not> bitn (used_map mc3) (mid mod M + M * l)
       then \<not> flagged mc3 (mid mod M)
       else (bitn (used_mld_map mc3) (mid mod M) \<longleftrightarrow> bitn (used_mld_map mc) (mid mod M)) \<and>
            (bitn (used_legacy_map mc3) (mid mod M) \<longleftrightarrow> bitn (used_legacy_map mc) (mid mod M))"
  shows "groups_wf M L mc3"
proof -
  have g: "0 < L" "M * L \<le> unat (max_num mc)"
      "\<And>n. n < M * L \<Longrightarrow> bitn (used_map mc) n \<Longrightarrow> flagged mc (n mod M)"
      "\<And>h. h < M \<Longrightarrow> flagged mc h \<Longrightarrow> \<exists>l < L. bitn (used_map mc) (h + M * l)"
      "\<And>h. h < M \<Longrightarrow> \<not> (bitn (used_mld_map mc) h \<and> bitn (used_legacy_map mc) h)"
    using gw by (auto simp: groups_wf_def)
  have lt: "h + M * l < 256" if "h < M" "l < L" for h l
  proof -
    have "M * Suc l \<le> M * L" using that(2) by (intro mult_le_mono2) simp
    then show ?thesis using that(1) g(2) mx by simp
  qed
  have flag: "flagged mc3 h \<longleftrightarrow> flagged mc h" if "h < M" "h \<noteq> mid mod M" for h
    using keep [OF that] by (simp add: flagged_def)
  have "flagged mc3 (n mod M)" if n: "n < M * L" "bitn (used_map mc3) n" for n
  proof -
    have "bitn (used_map mc) n" "n < 256" using n used [of n] g(2) mx by auto
    then have f: "flagged mc (n mod M)" using g(3) n by blast
    show ?thesis
    proof (cases "n mod M = mid mod M")
      case True
      have "n = mid mod M + M * (n div M)" "n div M < L"
        using True n(1) M by (metis add.commute mult_div_mod_eq, metis less_mult_imp_div_less mult.commute)
      then have "\<not> (\<forall>l < L. \<not> bitn (used_map mc3) (mid mod M + M * l))"
        using n(2) by metis
      then show ?thesis using grp f True by (auto simp: flagged_def)
    next
      case False
      then show ?thesis using flag f M by simp
    qed
  qed
  moreover have "\<exists>l < L. bitn (used_map mc3) (h + M * l)" if h: "h < M" "flagged mc3 h" for h
  proof (cases "h = mid mod M")
    case True
    then show ?thesis using grp h(2) by (auto split: if_splits)
  next
    case False
    then obtain l where l: "l < L" "bitn (used_map mc) (h + M * l)"
      using g(4) [OF h(1)] flag [OF h(1)] h(2) by blast
    have "h + M * l \<noteq> mid"
      using False h(1) by (metis mod_less mod_mult_self2)
    then show ?thesis using l used [OF lt [OF h(1) l(1)]] by blast
  qed
  moreover have "\<not> (bitn (used_mld_map mc3) h \<and> bitn (used_legacy_map mc3) h)" if "h < M" for h
    using g(5) [OF that] keep [OF that] grp by (cases "h = mid mod M") (auto simp: flagged_def split: if_splits)
  ultimately show ?thesis
    using g(1,2) max3 by (simp add: groups_wf_def)
qed

lemma release_macid_ok:
  assumes wf: "macid_wf cap mc" and mid: "unat (sta_macid s) < unat (max_num mc)"
    and used: "bitn (used_map mc) (unat (sta_macid s))"
  shows "\<exists>mc'. phl_release_macid cap w s mc = (RTW_PHL_STATUS_SUCCESS, mc', s\<lparr>sta_macid := max_num mc\<rparr>) \<and>
           used_map mc' = phl_macid_map_clr (used_map mc) (sta_macid s) \<and>
           sta mc' = (sta mc)(unat (sta_macid s) := None) \<and> max_num mc' = max_num mc \<and> macid_wf cap mc'"
proof -
  define m where "m = sta_macid s"
  let ?M = "unat (max_mld_num cap)" and ?L = "unat (max_link_num cap)"
  define mc2 where "mc2 =
     (let mc1 = mc\<lparr>used_map := phl_macid_map_clr (used_map mc) m,
            wifi_role_usedmap := (wifi_role_usedmap mc)[w := phl_macid_map_clr (wifi_role_usedmap mc ! w) m],
            sta := (sta mc)(unat m := None)\<rparr>
      in if sta_addr s = bc_addr then mc1\<lparr>bmc_map := phl_macid_map_clr (bmc_map mc1) m\<rparr> else mc1)"
  define g where "g = m mod max_mld_num cap"
  define mc3 where "mc3 =
     (if max_mld_num cap \<noteq> 0 \<and>
         List.find (\<lambda>l. phl_macid_is_used_raw (used_map mc2) (group_mid cap g l)) [0..<?L] = None
      then mc2\<lparr>used_mld_map := phl_macid_map_clr (used_mld_map mc2) g,
               used_legacy_map := phl_macid_map_clr (used_legacy_map mc2) g\<rparr> else mc2)"
  have ok: "macid_map_ok (used_map mc)" "macid_map_ok (used_mld_map mc)" "macid_map_ok (used_legacy_map mc)"
      "macid_map_ok (bmc_map mc)" and mx: "unat (max_num mc) \<le> 256"
    and st: "\<And>n. n < 256 \<Longrightarrow> bitn (used_map mc) n \<longleftrightarrow> sta mc n \<noteq> None \<and> n < unat (max_num mc)"
    using wf by (auto simp: macid_wf_def)
  have m: "unat m < 256" "\<not> max_num mc \<le> m"
    using mid mx by (simp_all add: m_def word_le_nat_alt)
  have out: "phl_release_macid cap w s mc = (RTW_PHL_STATUS_SUCCESS, mc3, s\<lparr>sta_macid := max_num mc\<rparr>)"
    using m(2) used by (simp add: phl_release_macid_def Let_def mc3_def mc2_def g_def m_def bitn_raw)
  have mc3: "used_map mc3 = phl_macid_map_clr (used_map mc) m" "sta mc3 = (sta mc)(unat m := None)"
      "max_num mc3 = max_num mc" "macid_map_ok (bmc_map mc3)" "macid_map_ok (used_map mc3)"
      "macid_map_ok (used_mld_map mc3)" "macid_map_ok (used_legacy_map mc3)"
    using ok by (simp_all add: mc3_def mc2_def Let_def mm.clr_ok)
  have used3: "bitn (used_map mc3) n \<longleftrightarrow> n \<noteq> unat m \<and> bitn (used_map mc) n" if "n < 256" for n
    using bitn_clr [OF ok(1) m(1) that] by (simp add: mc3)
  have "groups_wf ?M ?L mc3" if ml: "max_link_num cap \<noteq> 1"
  proof (cases "?M = 0")
    case True
    then show ?thesis using wf ml mc3(3) by (simp add: macid_wf_def groups_wf_def)
  next
    case False
    have gw: "groups_wf ?M ?L mc" "?M * ?L \<le> 256"
      using wf ml by (auto simp: macid_wf_def groups_wf_def)
    have gu: "unat g = unat m mod ?M" "unat g < ?M" "max_mld_num cap \<noteq> 0"
      using False by (auto simp: g_def unat_mod_distrib)
    have um: "used_map mc2 = used_map mc3" "used_mld_map mc2 = used_mld_map mc"
        "used_legacy_map mc2 = used_legacy_map mc"
      by (simp_all add: mc3_def mc2_def Let_def)
    have find: "List.find (\<lambda>l. phl_macid_is_used_raw (used_map mc2) (group_mid cap g l)) [0..<?L] = None
        \<longleftrightarrow> (\<forall>l < ?L. \<not> bitn (used_map mc3) (unat m mod ?M + ?M * l))"
      using group_mid_unat(1) [OF gu(2) _ gw(2)] gu(1) by (auto simp: find_None_iff bitn_raw um)
    have g256: "h < 256" if "h < ?M" for h
    proof -
      have "?M * 1 \<le> ?M * ?L"
        using gw(1) by (intro mult_le_mono2) (simp add: groups_wf_def)
      then show ?thesis using that gw(2) by linarith
    qed
    have clr: "bitn (phl_macid_map_clr (used_mld_map mc) g) h \<longleftrightarrow> h \<noteq> unat m mod ?M \<and> bitn (used_mld_map mc) h"
        "bitn (phl_macid_map_clr (used_legacy_map mc) g) h \<longleftrightarrow> h \<noteq> unat m mod ?M \<and> bitn (used_legacy_map mc) h"
      if "h < ?M" for h
      using bitn_clr [OF ok(2) g256 [OF gu(2)] g256 [OF that]] bitn_clr [OF ok(3) g256 [OF gu(2)] g256 [OF that]]
      by (simp_all only: gu(1))
    define none where "none \<longleftrightarrow> (\<forall>l < ?L. \<not> bitn (used_map mc3) (unat m mod ?M + ?M * l))"
    have "mc3 = (if none then mc2\<lparr>used_mld_map := phl_macid_map_clr (used_mld_map mc2) g,
               used_legacy_map := phl_macid_map_clr (used_legacy_map mc2) g\<rparr> else mc2)"
      using mc3_def gu(3) find none_def by argo
    then have maps3: "used_mld_map mc3 = (if none then phl_macid_map_clr (used_mld_map mc) g else used_mld_map mc)"
        "used_legacy_map mc3 = (if none then phl_macid_map_clr (used_legacy_map mc) g else used_legacy_map mc)"
      by (simp_all only: um split: if_split) (auto simp: um)
    show ?thesis
    proof (rule release_groups [OF gw(1) mx _ m(1) used3 mc3(3)])
      show "0 < ?M" using False by simp
      show "(bitn (used_mld_map mc3) h \<longleftrightarrow> bitn (used_mld_map mc) h) \<and>
          (bitn (used_legacy_map mc3) h \<longleftrightarrow> bitn (used_legacy_map mc) h)"
        if "h < ?M" "h \<noteq> unat m mod ?M" for h
        using clr [OF that(1)] that(2) by (simp add: maps3)
      have "unat m mod ?M < ?M" using gu(1,2) by simp
      then show "if \<forall>l < ?L. \<not> bitn (used_map mc3) (unat m mod ?M + ?M * l)
         then \<not> flagged mc3 (unat m mod ?M)
         else (bitn (used_mld_map mc3) (unat m mod ?M) \<longleftrightarrow> bitn (used_mld_map mc) (unat m mod ?M)) \<and>
              (bitn (used_legacy_map mc3) (unat m mod ?M) \<longleftrightarrow> bitn (used_legacy_map mc) (unat m mod ?M))"
        using clr unfolding none_def [symmetric] by (simp add: maps3 flagged_def)
    qed
  qed
  then have "macid_wf cap mc3"
    using mc3 mx st used3 by (auto simp: macid_wf_def)
  then show ?thesis
    using out mc3 by (simp add: m_def)
qed

subsection \<open>Reachable control blocks\<close>

definition macid_ctl0 :: "nat \<Rightarrow> macid_ctl_t" where
  "macid_ctl0 roles = \<lparr>used_map = replicate 8 0, used_mld_map = replicate 8 0,
     used_legacy_map = replicate 8 0, bmc_map = replicate 8 0,
     wifi_role_usedmap = replicate roles (replicate 8 0), wrole_bmc = (\<lambda>_ _. 0),
     sta = (\<lambda>_. None), max_num = 0\<rparr>"

text \<open>
  The states the driver gets to from a zeroed structure, with the stations that hold an id.
  The capabilities fit the tables: at most 256 ids, and the groups lie below the bound.
\<close>

definition cap_ok :: "dev_cap_t \<Rightarrow> u16 \<Rightarrow> bool" where
  "cap_ok cap m \<longleftrightarrow>
     unat m \<le> 256 \<and>
     (max_link_num cap = 1 \<or>
      0 < unat (max_link_num cap) \<and> unat (max_mld_num cap) * unat (max_link_num cap) \<le> unat m)"

inductive macid_reach :: "dev_cap_t \<Rightarrow> macid_ctl_t \<Rightarrow> (nat \<rightharpoonup> u16) \<Rightarrow> bool" for cap where
  init: "phl_macid_ctrl_init hw sw (macid_ctl0 roles) = (RTW_PHL_STATUS_SUCCESS, mc) \<Longrightarrow>
     cap_ok cap (max_num mc) \<Longrightarrow> macid_reach cap mc Map.empty"
| alloc: "macid_reach cap mc live \<Longrightarrow> sta_wrole s = Some w \<Longrightarrow> sta_ptr s \<notin> dom live \<Longrightarrow>
     (dtype = DEV_TYPE_MLD \<longrightarrow> main_ok cap mc main_id) \<Longrightarrow>
     phl_alloc_macid cap dtype main_id s mc = Some (RTW_PHL_STATUS_SUCCESS, mc', s') \<Longrightarrow>
     macid_reach cap mc' (live(sta_ptr s \<mapsto> sta_macid s'))"
| alloc_fail: "macid_reach cap mc live \<Longrightarrow> sta_wrole s = Some w \<Longrightarrow>
     (dtype = DEV_TYPE_MLD \<longrightarrow> main_ok cap mc main_id) \<Longrightarrow>
     phl_alloc_macid cap dtype main_id s mc = Some (RTW_PHL_STATUS_FAILURE, mc', s') \<Longrightarrow>
     macid_reach cap mc' live"
| release: "macid_reach cap mc live \<Longrightarrow> live (sta_ptr s) = Some (sta_macid s) \<Longrightarrow>
     phl_release_macid cap w s mc = (st, mc', s') \<Longrightarrow>
     macid_reach cap mc' (live(sta_ptr s := None))"

lemma bitn_zero: "\<not> bitn (replicate 8 0) n"
  by (simp add: bitn_def is_used_bit map_word_def)

lemma macid_init_wf:
  assumes "phl_macid_ctrl_init hw sw (macid_ctl0 roles) = (RTW_PHL_STATUS_SUCCESS, mc)"
    and "cap_ok cap (max_num mc)"
  shows "macid_wf cap mc \<and> sta mc = (\<lambda>_. None)"
  using assms bitn_zero
  by (auto simp: phl_macid_ctrl_init_def macid_ctl0_def Let_def macid_wf_def groups_wf_def cap_ok_def
      macid_map_ok_def flagged_def split: if_splits)

definition live_rel :: "macid_ctl_t \<Rightarrow> (nat \<rightharpoonup> u16) \<Rightarrow> bool" where
  "live_rel mc live \<longleftrightarrow>
     (\<forall>p m. live p = Some m \<longleftrightarrow> unat m < unat (max_num mc) \<and> sta mc (unat m) = Some p)"

lemma macid_reach_inv: "macid_reach cap mc live \<Longrightarrow> macid_wf cap mc \<and> live_rel mc live"
proof (induction rule: macid_reach.induct)
  case (init hw sw roles mc)
  then show ?case using macid_init_wf by (auto simp: live_rel_def)
next
  case (alloc mc live s w dtype main_id mc' s')
  have a: "unat (sta_macid s') < unat (max_num mc)" "\<not> bitn (used_map mc) (unat (sta_macid s'))"
      "sta mc' = (sta mc)(unat (sta_macid s') := Some (sta_ptr s))" "max_num mc' = max_num mc" "macid_wf cap mc'"
    using alloc_macid_ok [of cap mc s w dtype main_id] alloc by auto
  have "unat (sta_macid s') < 256" "sta mc (unat (sta_macid s')) = None"
    using a alloc.IH by (auto simp: macid_wf_def)
  then show ?case
    using a alloc.IH alloc.hyps(3) by (auto simp: live_rel_def u16_eq_iff split: if_splits)
next
  case (alloc_fail mc live s w dtype main_id mc' s')
  then have "mc' = mc"
    using alloc_macid_ok [of cap mc s w dtype main_id] by auto
  then show ?case using alloc_fail.IH by simp
next
  case (release mc live s w st mc' s')
  have m: "unat (sta_macid s) < unat (max_num mc)" "sta mc (unat (sta_macid s)) = Some (sta_ptr s)"
    using release.IH release.hyps(2) by (auto simp: live_rel_def)
  then have "bitn (used_map mc) (unat (sta_macid s))"
    using release.IH by (auto simp: macid_wf_def)
  then have r: "sta mc' = (sta mc)(unat (sta_macid s) := None)" "max_num mc' = max_num mc" "macid_wf cap mc'"
    using release_macid_ok [of cap mc s w] m(1) release by auto
  have uniq: "unat m = unat (sta_macid s)"
    if "sta mc (unat m) = Some (sta_ptr s)" "unat m < unat (max_num mc)" for m :: u16
  proof -
    have "live (sta_ptr s) = Some m"
      using that release.IH by (simp add: live_rel_def)
    then show ?thesis
      using release.hyps(2) by simp
  qed
  have "(live(sta_ptr s := None)) p = Some n \<longleftrightarrow> unat n < unat (max_num mc') \<and> sta mc' (unat n) = Some p" for p n
  proof (cases "p = sta_ptr s")
    case True
    then show ?thesis using uniq [of n] by (auto simp: r)
  next
    case False
    then show ?thesis using release.IH m by (auto simp: r live_rel_def)
  qed
  then show ?case
    using r by (simp add: live_rel_def)
qed

lemma get_stainfo_wf:
  assumes "macid_wf cap mc"
  shows "rtw_phl_get_stainfo_by_macid mc m = (if unat m < unat (max_num mc) then sta mc (unat m) else None)"
proof (cases "unat m < unat (max_num mc)")
  case True
  then have "unat m < 256" using assms by (simp add: macid_wf_def)
  then show ?thesis
    using assms True by (auto simp: rtw_phl_get_stainfo_by_macid_def macid_wf_def word_le_nat_alt bitn_raw)
next
  case False
  then show ?thesis by (simp add: rtw_phl_get_stainfo_by_macid_def word_le_nat_alt)
qed

subsection \<open>Properties\<close>

text \<open>
  C13. Two stations never hold the same MAC id: in every reachable state the lookup by id finds
  exactly the station the id was given to and not yet released, so distinct live stations have
  distinct ids; every id handed out is below the maximum.
\<close>

theorem macid_live_stations:
  assumes "macid_reach cap mc live"
  shows "(\<forall>p m. live p = Some m \<longleftrightarrow> rtw_phl_get_stainfo_by_macid mc m = Some p) \<and>
         inj_on live (dom live) \<and> (\<forall>m \<in> ran live. phl_macid_is_valid mc m \<and> rtw_phl_macid_is_used mc m)"
proof -
  have wf: "macid_wf cap mc" and lr: "live_rel mc live"
    using macid_reach_inv [OF assms] by simp_all
  have look: "live p = Some m \<longleftrightarrow> rtw_phl_get_stainfo_by_macid mc m = Some p" for p m
    using lr get_stainfo_wf [OF wf] by (auto simp: live_rel_def)
  then have "inj_on live (dom live)"
    by (intro inj_onI) (metis domD option.inject)
  moreover have "phl_macid_is_valid mc m \<and> rtw_phl_macid_is_used mc m" if "live p = Some m" for p m
  proof -
    have "unat m < unat (max_num mc)" "sta mc (unat m) = Some p"
      using lr that by (auto simp: live_rel_def)
    then show ?thesis
      using wf by (auto simp: macid_wf_def phl_macid_is_valid_def rtw_phl_macid_is_used_def
          word_less_nat_alt word_le_nat_alt bitn_raw)
  qed
  ultimately show ?thesis
    using look by (auto simp: ran_def)
qed

text \<open>
  C33. Allocation: with a well-formed table it never faults; on success the id is valid and was
  free, the lookup now finds the station, no other id changes and the table stays well formed; on
  failure the table is unchanged and the station gets the invalid id.
\<close>

theorem macid_alloc_sound:
  assumes "macid_wf cap mc" and "sta_wrole s = Some w" and "dtype = DEV_TYPE_MLD \<longrightarrow> main_ok cap mc main_id"
  shows "\<exists>st mc' s'. phl_alloc_macid cap dtype main_id s mc = Some (st, mc', s') \<and> macid_wf cap mc' \<and>
     (if st = RTW_PHL_STATUS_SUCCESS
      then phl_macid_is_valid mc (sta_macid s') \<and> \<not> rtw_phl_macid_is_used mc (sta_macid s') \<and>
           rtw_phl_macid_is_used mc' (sta_macid s') \<and>
           (\<forall>m. rtw_phl_get_stainfo_by_macid mc' m =
                (if m = sta_macid s' then Some (sta_ptr s) else rtw_phl_get_stainfo_by_macid mc m))
      else st = RTW_PHL_STATUS_FAILURE \<and> mc' = mc \<and> sta_macid s' = max_num mc)"
proof -
  consider (fail) "phl_alloc_macid cap dtype main_id s mc =
        Some (RTW_PHL_STATUS_FAILURE, mc, s\<lparr>sta_macid := max_num mc\<rparr>)"
    | (ok) mc' s' where "phl_alloc_macid cap dtype main_id s mc = Some (RTW_PHL_STATUS_SUCCESS, mc', s')"
        "unat (sta_macid s') < unat (max_num mc)" "\<not> bitn (used_map mc) (unat (sta_macid s'))"
        "sta mc' = (sta mc)(unat (sta_macid s') := Some (sta_ptr s))" "max_num mc' = max_num mc" "macid_wf cap mc'"
    using alloc_macid_ok [OF assms(1,2), of dtype main_id] assms(3) by blast
  then show ?thesis
  proof cases
    case fail
    then show ?thesis using assms(1) by simp
  next
    case ok
    have "bitn (used_map mc') (unat (sta_macid s'))"
      using ok(2,4-6) by (auto simp: macid_wf_def)
    then show ?thesis
      using ok get_stainfo_wf [OF assms(1)] get_stainfo_wf [OF ok(6)]
      by (simp add: phl_macid_is_valid_def rtw_phl_macid_is_used_def word_less_nat_alt word_le_nat_alt
          bitn_raw u16_eq_iff)
  qed
qed

text \<open>
  Release of a live id succeeds, frees exactly that id (all others keep their station), gives
  the station the invalid id and keeps the table well formed, the multi-link groups included.
\<close>

theorem macid_release_frees:
  assumes "macid_wf cap mc" and "rtw_phl_get_stainfo_by_macid mc (sta_macid s) = Some p"
  shows "\<exists>mc'. phl_release_macid cap w s mc = (RTW_PHL_STATUS_SUCCESS, mc', s\<lparr>sta_macid := max_num mc\<rparr>) \<and>
     macid_wf cap mc' \<and> \<not> rtw_phl_macid_is_used mc' (sta_macid s) \<and>
     (\<forall>m. rtw_phl_get_stainfo_by_macid mc' m =
          (if m = sta_macid s then None else rtw_phl_get_stainfo_by_macid mc m))"
proof -
  have m: "unat (sta_macid s) < unat (max_num mc)" "sta mc (unat (sta_macid s)) = Some p"
    using assms(2) get_stainfo_wf [OF assms(1)] by (simp_all split: if_splits)
  then have "bitn (used_map mc) (unat (sta_macid s))" and lt: "unat (sta_macid s) < 256"
    using assms(1) by (auto simp: macid_wf_def)
  from release_macid_ok [OF assms(1) m(1) this(1), of w] obtain mc' where r:
      "phl_release_macid cap w s mc = (RTW_PHL_STATUS_SUCCESS, mc', s\<lparr>sta_macid := max_num mc\<rparr>)"
      "sta mc' = (sta mc)(unat (sta_macid s) := None)" "max_num mc' = max_num mc" "macid_wf cap mc'"
    by blast
  have "\<not> bitn (used_map mc') (unat (sta_macid s))"
    using r lt by (auto simp: macid_wf_def)
  then show ?thesis
    using r m(1) get_stainfo_wf [OF assms(1)] get_stainfo_wf [OF r(4)]
    by (simp add: rtw_phl_macid_is_used_def word_le_nat_alt bitn_raw u16_eq_iff)
qed

text \<open>A device with two links, two groups and eight ids.\<close>

definition cap2 :: dev_cap_t where
  "cap2 = \<lparr>max_mld_num = 2, max_link_num = 2\<rparr>"

definition mc2x :: macid_ctl_t where
  "mc2x = snd (phl_macid_ctrl_init 8 8 (macid_ctl0 1))"

definition sta_x :: stainfo where
  "sta_x = \<lparr>sta_ptr = 77, sta_wrole = Some 0, sta_rlink = 0, sta_addr = [1, 2, 3, 4, 5, 6], sta_macid = 8\<rparr>"

lemma sta_x_sel [simp]: "sta_ptr sta_x = 77" "sta_wrole sta_x = Some 0"
  by (simp_all add: sta_x_def)

lemma mc2x_init: "phl_macid_ctrl_init 8 8 (macid_ctl0 1) = (RTW_PHL_STATUS_SUCCESS, mc2x)"
  by (simp add: mc2x_def phl_macid_ctrl_init_def Let_def)

lemma mc2x_max: "max_num mc2x = 8"
  by (simp add: mc2x_def phl_macid_ctrl_init_def Let_def)

lemma mc2x_cap: "cap_ok cap2 (max_num mc2x)"
  by (simp add: cap_ok_def mc2x_max cap2_def)

lemma mc2x_wf: "macid_wf cap2 mc2x"
  using macid_init_wf [OF mc2x_init mc2x_cap] by simp

definition mc2y :: macid_ctl_t where
  "mc2y = fst (snd (the (phl_alloc_macid cap2 DEV_TYPE_LEGACY 8 sta_x mc2x)))"

definition sta_y :: stainfo where
  "sta_y = snd (snd (the (phl_alloc_macid cap2 DEV_TYPE_LEGACY 8 sta_x mc2x)))"

lemma mc2y_alloc:
  "phl_alloc_macid cap2 DEV_TYPE_LEGACY 8 sta_x mc2x = Some (RTW_PHL_STATUS_SUCCESS, mc2y, sta_y)"
  "sta_macid sta_y = 4"
proof -
  have upt: "[4..<8] = 4 # [5..<8]" by (simp add: upt_conv_Cons)
  have "phl_alloc_legacy_macid cap2 mc2x = (4, mc2x)"
    by (simp add: phl_alloc_legacy_macid_def Let_def cap2_def mc2x_max first_mid_def upt bitn_raw)
      (simp add: mc2x_def phl_macid_ctrl_init_def macid_ctl0_def bitn_zero Let_def)
  then show "phl_alloc_macid cap2 DEV_TYPE_LEGACY 8 sta_x mc2x = Some (RTW_PHL_STATUS_SUCCESS, mc2y, sta_y)"
      "sta_macid sta_y = 4"
    by (simp_all add: mc2y_def sta_y_def phl_alloc_macid_def sta_x_def Let_def mc2x_max)
qed

theorem macid_alloc_sound_witness:
  "rtw_phl_get_stainfo_by_macid mc2y 4 = Some 77 \<and> macid_wf cap2 mc2y"
  using macid_alloc_sound [OF mc2x_wf sta_x_sel(2), of DEV_TYPE_LEGACY 8] mc2y_alloc(2)
  by (auto simp: mc2y_alloc(1))

theorem macid_release_frees_witness:
  "\<exists>mc'. phl_release_macid cap2 0 sta_y mc2y =
     (RTW_PHL_STATUS_SUCCESS, mc', sta_y\<lparr>sta_macid := max_num mc2y\<rparr>) \<and>
     \<not> rtw_phl_macid_is_used mc' 4"
proof -
  from alloc_macid_ok [OF mc2x_wf sta_x_sel(2), of DEV_TYPE_LEGACY 8] have
      wf: "macid_wf cap2 mc2y" and st: "sta mc2y = (sta mc2x)(4 := Some 77)"
      and mx: "max_num mc2y = 8"
    using mc2y_alloc(2) by (auto simp: mc2y_alloc(1) mc2x_max)
  have "rtw_phl_get_stainfo_by_macid mc2y (sta_macid sta_y) = Some 77"
    using get_stainfo_wf [OF wf, of 4] by (simp add: mc2y_alloc(2) st mx)
  from macid_release_frees [OF wf this, of 0] show ?thesis
    by (auto simp: mc2y_alloc(2))
qed

theorem macid_live_stations_witness:
  "rtw_phl_get_stainfo_by_macid mc2y 4 = Some 77"
proof -
  have "macid_reach cap2 mc2y (Map.empty(sta_ptr sta_x \<mapsto> sta_macid sta_y))"
    by (rule macid_reach.alloc [OF macid_reach.init [OF mc2x_init mc2x_cap] sta_x_sel(2) _ _ mc2y_alloc(1)])
      simp_all
  from macid_live_stations [OF this] show ?thesis
    by (auto simp: mc2y_alloc(2) split: if_splits)
qed

text \<open>
  With one link, asking for an id fails only when every id below the maximum is in use.
\<close>

theorem macid_alloc_complete:
  assumes "macid_wf cap mc" and "max_link_num cap = 1" and "sta_wrole s = Some w"
  shows "(\<exists>mc' s'. phl_alloc_macid cap DEV_TYPE_LEGACY main_id s mc = Some (RTW_PHL_STATUS_FAILURE, mc', s')) \<longleftrightarrow>
         (\<forall>m. phl_macid_is_valid mc m \<longrightarrow> rtw_phl_macid_is_used mc m)"
proof -
  let ?f = "first_mid (\<lambda>mid. \<not> phl_macid_is_used_raw (used_map mc) mid) 0 (unat (max_num mc))"
  have le: "unat (max_num mc) \<le> 65536"
    using assms(1) by (simp add: macid_wf_def)
  show ?thesis
  proof (cases ?f)
    case None
    have "phl_macid_is_used_raw (used_map mc) m" if "unat m < unat (max_num mc)" for m
      using first_mid_None [OF None le _ that] by simp
    then show ?thesis
      using None assms by (auto simp: phl_alloc_macid_def phl_alloc_legacy_macid_def Let_def
          phl_macid_is_valid_def rtw_phl_macid_is_used_def word_less_nat_alt word_le_nat_alt)
  next
    case (Some m)
    have m: "\<not> phl_macid_is_used_raw (used_map mc) m" "unat m < unat (max_num mc)" "m \<noteq> max_num mc"
      using first_mid_Some [OF Some le] by auto
    then have "\<not> (\<forall>m. phl_macid_is_valid mc m \<longrightarrow> rtw_phl_macid_is_used mc m)"
      by (auto simp: phl_macid_is_valid_def rtw_phl_macid_is_used_def word_less_nat_alt word_le_nat_alt)
    then show ?thesis
      using Some assms m by (simp add: phl_alloc_macid_def phl_alloc_legacy_macid_def Let_def)
  qed
qed

definition cap1 :: dev_cap_t where
  "cap1 = \<lparr>max_mld_num = 0, max_link_num = 1\<rparr>"

theorem macid_alloc_complete_witness:
  "\<not> (\<exists>mc' s'. phl_alloc_macid cap1 DEV_TYPE_LEGACY 8 sta_x mc2x = Some (RTW_PHL_STATUS_FAILURE, mc', s'))"
proof -
  have "cap_ok cap1 (max_num mc2x)" by (simp add: cap_ok_def mc2x_max cap1_def)
  then have wf: "macid_wf cap1 mc2x" using macid_init_wf [OF mc2x_init] by simp
  have "\<not> rtw_phl_macid_is_used mc2x 0"
    by (simp add: rtw_phl_macid_is_used_def mc2x_max bitn_raw)
      (simp add: mc2x_def phl_macid_ctrl_init_def macid_ctl0_def bitn_zero Let_def)
  moreover have "phl_macid_is_valid mc2x 0"
    by (simp add: phl_macid_is_valid_def mc2x_max)
  ultimately show ?thesis
    using macid_alloc_complete [OF wf _ sta_x_sel(2), of 8] by (auto simp: cap1_def)
qed

text \<open>
  The role predicates: with at most eight roles, an id counts as shared exactly when at least
  two roles use it, and as specific to a role exactly when that role and no other uses it.
\<close>

theorem macid_wrole_predicates:
  assumes "length (wifi_role_usedmap mc) \<le> 8" and "m < max_num mc"
  shows "(rtw_phl_macid_is_wrole_shared mc m \<longleftrightarrow> length (roles_using mc m) \<ge> 2) \<and>
         (rtw_phl_macid_is_wrole_specific mc m w \<longleftrightarrow> roles_using mc m = [w])"
proof -
  let ?u = "\<lambda>i. phl_macid_is_used_raw (wifi_role_usedmap mc ! i) m"
  have bits: "bm OR push_bit i 1 \<noteq> (0 :: u8)" if "i < 8" for i bm
  proof -
    have "bit (bm OR push_bit i 1) i" using that by (simp add: bit_simps)
    then show ?thesis by (metis bit_0_eq bot_apply bot_bool_def)
  qed
  have sh: "shared_loop mc m is bm \<longleftrightarrow> (if bm = 0 then 2 else 1) \<le> length (filter ?u is)"
    if "\<forall>i \<in> set is. i < 8" for "is" bm
    using that bits by (induction "is" arbitrary: bm) auto
  have sp: "specific_loop mc m w is bm \<longleftrightarrow> filter ?u is = (if bm = 0 then [w] else [])"
    if "\<forall>i \<in> set is. i < 8" for "is" bm
    using that bits by (induction "is" arbitrary: bm) auto
  have "\<forall>i \<in> set [0..<length (wifi_role_usedmap mc)]. i < 8" using assms(1) by auto
  from sh [OF this, of 0] sp [OF this, of 0] show ?thesis
    using assms(2) by (simp add: rtw_phl_macid_is_wrole_shared_def rtw_phl_macid_is_wrole_specific_def roles_using_def)
qed

theorem macid_wrole_predicates_witness:
  "\<not> rtw_phl_macid_is_wrole_shared mc2x 3 \<and> \<not> rtw_phl_macid_is_wrole_specific mc2x 3 0"
proof -
  have r: "length (wifi_role_usedmap mc2x) \<le> 8" "roles_using mc2x 3 = []"
    by (simp_all add: mc2x_def phl_macid_ctrl_init_def macid_ctl0_def Let_def roles_using_def bitn_raw bitn_zero)
  show ?thesis
    using macid_wrole_predicates [OF r(1), of 3 0] by (simp add: mc2x_max r(2))
qed

end
