(* ===== verification/Phl_Stats.thy ===== *)
theory Phl_Stats
  imports Phl_Prelude
begin

section \<open>Time and traffic statistics (phl_util.c, phl_rx.c, phl_tx.c)\<close>

text \<open>
  The elapsed-time helpers of \<^verbatim>\<open>phl_util.c\<close> and the \<^verbatim>\<open>struct rtw_stats\<close> bookkeeping that the
  transmit and receive paths share. \<^verbatim>\<open>_os_get_cur_time_ms\<close> and \<^verbatim>\<open>_os_get_cur_time_us\<close> are the
  argument \<open>now\<close>. The counters keep their widths, so every sum and difference wraps as in C.
\<close>

subsection \<open>Elapsed time\<close>

definition phl_get_passing_time_us :: "u32 \<Rightarrow> u32 \<Rightarrow> u32" where
  "phl_get_passing_time_us now start =
     (if now = start then 0
      else if now > start then now - start
      else 0xFFFFFFFF - start + now)"

definition phl_get_passing_time_ms :: "u32 \<Rightarrow> u32 \<Rightarrow> u32" where
  "phl_get_passing_time_ms now start =
     (if now = start then 0
      else if now > start then now - start
      else 0xFFFFFFFF - start + now)"

subsection \<open>Traffic levels\<close>

datatype rtw_tfc_lvl =
    RTW_TFC_IDLE | RTW_TFC_ULTRA_LOW | RTW_TFC_LOW | RTW_TFC_MID | RTW_TFC_HIGH | RTW_TFC_LVL_MAX

fun tfc_lvl_code :: "rtw_tfc_lvl \<Rightarrow> nat" where
  "tfc_lvl_code RTW_TFC_IDLE = 0"
| "tfc_lvl_code RTW_TFC_ULTRA_LOW = 1"
| "tfc_lvl_code RTW_TFC_LOW = 2"
| "tfc_lvl_code RTW_TFC_MID = 3"
| "tfc_lvl_code RTW_TFC_HIGH = 4"
| "tfc_lvl_code RTW_TFC_LVL_MAX = 0xFF"

lemma tfc_lvl_code_inj: "tfc_lvl_code a = tfc_lvl_code b \<Longrightarrow> a = b"
  by (cases a; cases b) simp_all

text \<open>The C code compares levels as integers: the linear order of their codes.\<close>

instantiation rtw_tfc_lvl :: linorder
begin

definition less_eq_rtw_tfc_lvl :: "rtw_tfc_lvl \<Rightarrow> rtw_tfc_lvl \<Rightarrow> bool" where
  "less_eq_rtw_tfc_lvl a b \<longleftrightarrow> tfc_lvl_code a \<le> tfc_lvl_code b"

definition less_rtw_tfc_lvl :: "rtw_tfc_lvl \<Rightarrow> rtw_tfc_lvl \<Rightarrow> bool" where
  "less_rtw_tfc_lvl a b \<longleftrightarrow> tfc_lvl_code a < tfc_lvl_code b"

instance
  by standard (auto simp: less_eq_rtw_tfc_lvl_def less_rtw_tfc_lvl_def intro: tfc_lvl_code_inj)

end

definition TRAFFIC_CHANGED :: u8 where "TRAFFIC_CHANGED = 1"
definition TRAFFIC_INCREASE :: u8 where "TRAFFIC_INCREASE = 2"
definition TRAFFIC_DECREASE :: u8 where "TRAFFIC_DECREASE = 4"

record rtw_traffic_t =
  lvl :: rtw_tfc_lvl
  sts :: u8

record rtw_stats_tp =
  last_calc_bits :: u64
  last_calc_time_ms :: u32

record rtw_stats =
  tx_byte_uni :: u64
  rx_byte_uni :: u64
  tx_byte_total :: u64
  rx_byte_total :: u64
  tx_tp_kbits :: u32
  rx_tp_kbits :: u32
  last_tx_time_ms :: u32
  last_rx_time_ms :: u32
  txreq_num :: u32
  rx_rate :: u32
  txtp :: rtw_stats_tp
  rxtp :: rtw_stats_tp
  tx_traffic :: rtw_traffic_t
  rx_traffic :: rtw_traffic_t
  rx_tf_cnt :: u32
  pre_rx_tf_cnt :: u32

definition phl_reset_rx_stats :: "rtw_stats \<Rightarrow> rtw_stats" where
  "phl_reset_rx_stats st =
     st\<lparr>rx_byte_uni := 0, rx_byte_total := 0, rx_tp_kbits := 0, last_rx_time_ms := 0,
        rxtp := (rxtp st)\<lparr>last_calc_time_ms := 0\<rparr>,
        rx_traffic := (rx_traffic st)\<lparr>lvl := RTW_TFC_IDLE, sts := 0\<rparr>,
        rx_tf_cnt := 0, pre_rx_tf_cnt := 0\<rparr>"

definition phl_reset_tx_stats :: "rtw_stats \<Rightarrow> rtw_stats" where
  "phl_reset_tx_stats st =
     st\<lparr>tx_byte_uni := 0, tx_byte_total := 0, tx_tp_kbits := 0, last_tx_time_ms := 0,
        txtp := (txtp st)\<lparr>last_calc_time_ms := 0\<rparr>,
        tx_traffic := (tx_traffic st)\<lparr>lvl := RTW_TFC_IDLE, sts := 0\<rparr>\<rparr>"

text \<open>
  The common body of the two \<open>*_traffic_upd\<close> functions; the receive and transmit thresholds
  have the same values (50, 10 and 2 Mbps, 100 kbps).
\<close>

definition tfc_lvl_of :: "u32 \<Rightarrow> rtw_tfc_lvl" where
  "tfc_lvl_of tp_k =
     (let tp_m = drop_bit 10 tp_k in
      if tp_m \<ge> 50 then RTW_TFC_HIGH
      else if tp_m \<ge> 10 then RTW_TFC_MID
      else if tp_m \<ge> 2 then RTW_TFC_LOW
      else if tp_k \<ge> 100 then RTW_TFC_ULTRA_LOW
      else RTW_TFC_IDLE)"

definition traffic_step :: "rtw_tfc_lvl \<Rightarrow> rtw_traffic_t \<Rightarrow> rtw_traffic_t" where
  "traffic_step new tr =
     (if lvl tr > new then tr\<lparr>sts := TRAFFIC_CHANGED OR TRAFFIC_DECREASE, lvl := new\<rparr>
      else if lvl tr < new then tr\<lparr>sts := TRAFFIC_CHANGED OR TRAFFIC_INCREASE, lvl := new\<rparr>
      else if sts tr AND (TRAFFIC_CHANGED OR TRAFFIC_INCREASE OR TRAFFIC_DECREASE) \<noteq> 0
      then tr\<lparr>sts := sts tr AND NOT (TRAFFIC_CHANGED OR TRAFFIC_INCREASE OR TRAFFIC_DECREASE)\<rparr>
      else tr)"

definition phl_rx_traffic_upd :: "rtw_stats \<Rightarrow> rtw_stats" where
  "phl_rx_traffic_upd st =
     st\<lparr>rx_traffic := traffic_step (tfc_lvl_of (rx_tp_kbits st)) (rx_traffic st)\<rparr>"

definition phl_tx_traffic_upd :: "rtw_stats \<Rightarrow> rtw_stats" where
  "phl_tx_traffic_upd st =
     st\<lparr>tx_traffic := traffic_step (tfc_lvl_of (tx_tp_kbits st)) (tx_traffic st)\<rparr>"

subsection \<open>Per-packet accounting\<close>

text \<open>The time since the last throughput computation; \<^verbatim>\<open>RTW_U32_MAX\<close> is \<open>0xFFFFFFFF\<close>.\<close>

definition tp_diff_t :: "u32 \<Rightarrow> u32 \<Rightarrow> u32" where
  "tp_diff_t cur_time prev =
     (if cur_time \<ge> prev then cur_time - prev else 0xFFFFFFFF - prev + cur_time + 1)"

text \<open>\<open>len\<close> is \<^verbatim>\<open>mdata.pktlen\<close>, \<open>bmc\<close> whether \<^verbatim>\<open>mdata.bc\<close> or \<^verbatim>\<open>mdata.mc\<close> is set.\<close>

definition phl_update_rx_stats :: "u32 \<Rightarrow> u16 \<Rightarrow> bool \<Rightarrow> rtw_stats \<Rightarrow> rtw_stats" where
  "phl_update_rx_stats cur_time len bmc st0 =
     (let st1 = st0\<lparr>last_rx_time_ms := cur_time, rx_byte_total := rx_byte_total st0 + ucast len\<rparr>;
          st = (if bmc then st1 else st1\<lparr>rx_byte_uni := rx_byte_uni st1 + ucast len\<rparr>)
      in if last_calc_time_ms (rxtp st) = 0 \<or> last_calc_bits (rxtp st) = 0
         then st\<lparr>rxtp := \<lparr>last_calc_bits = rx_byte_uni st * 8,
                          last_calc_time_ms = last_rx_time_ms st\<rparr>\<rparr>
         else let diff_t = tp_diff_t cur_time (last_calc_time_ms (rxtp st))
              in if diff_t > 1000 \<and> rx_byte_uni st \<noteq> 0
                 then let diff_bits = rx_byte_uni st * 8 - last_calc_bits (rxtp st)
                      in st\<lparr>rx_tp_kbits := ucast (diff_bits div ucast diff_t),
                            rxtp := \<lparr>last_calc_bits = rx_byte_uni st * 8,
                                     last_calc_time_ms = cur_time\<rparr>\<rparr>
                 else st)"

definition phl_update_tx_stats :: "u32 \<Rightarrow> u32 \<Rightarrow> bool \<Rightarrow> rtw_stats \<Rightarrow> rtw_stats" where
  "phl_update_tx_stats cur_time len bmc st0 =
     (let st1 = st0\<lparr>last_tx_time_ms := cur_time, tx_byte_total := tx_byte_total st0 + ucast len,
                    txreq_num := txreq_num st0 + 1\<rparr>;
          st = (if bmc then st1 else st1\<lparr>tx_byte_uni := tx_byte_uni st1 + ucast len\<rparr>)
      in if last_calc_time_ms (txtp st) = 0 \<or> last_calc_bits (txtp st) = 0
         then st\<lparr>txtp := \<lparr>last_calc_bits = tx_byte_uni st * 8,
                          last_calc_time_ms = last_tx_time_ms st\<rparr>\<rparr>
         else let diff_t = tp_diff_t cur_time (last_calc_time_ms (txtp st))
              in if diff_t > 1000 \<and> tx_byte_uni st \<noteq> 0
                 then let diff_bits = tx_byte_uni st * 8 - last_calc_bits (txtp st)
                      in st\<lparr>tx_tp_kbits := ucast (diff_bits div ucast diff_t),
                            txtp := \<lparr>last_calc_bits = tx_byte_uni st * 8,
                                     last_calc_time_ms = cur_time\<rparr>\<rparr>
                 else st)"

subsection \<open>Lemmas\<close>

lemma wrap_diff: "(0xFFFFFFFF :: u32) - prev + cur = cur - prev - 1"
proof -
  have "(0xFFFFFFFF :: u32) = - 1" by simp
  then show ?thesis by (simp only:) simp
qed

lemma tp_diff_t_exact: "tp_diff_t cur prev = cur - prev"
  by (simp add: tp_diff_t_def wrap_diff)

lemma tfc_flags [simp]:
  "TRAFFIC_CHANGED OR TRAFFIC_DECREASE = 5" "TRAFFIC_CHANGED OR TRAFFIC_INCREASE = 3"
  "TRAFFIC_CHANGED OR TRAFFIC_INCREASE OR TRAFFIC_DECREASE = 7"
  by (simp_all add: TRAFFIC_CHANGED_def TRAFFIC_DECREASE_def TRAFFIC_INCREASE_def)

lemma drop_bit_mono_u32: "(a::u32) \<le> b \<Longrightarrow> drop_bit n a \<le> drop_bit n b"
  by (simp add: word_le_nat_alt drop_bit_eq_div unat_div_distrib div_le_mono)

lemma tfc_lvl_of_mono:
  assumes "a \<le> b"
  shows "tfc_lvl_of a \<le> tfc_lvl_of b"
proof -
  have le: "drop_bit 10 a \<le> drop_bit 10 b"
    using assms by (rule drop_bit_mono_u32)
  note tr = order_trans [OF _ le] order_trans [OF _ assms]
  show ?thesis
    by (auto simp: tfc_lvl_of_def Let_def less_eq_rtw_tfc_lvl_def dest: tr)
qed

lemma traffic_step_lvl [simp]: "lvl (traffic_step new tr) = new"
  by (auto simp: traffic_step_def)

lemma traffic_step_sts_eq:
  "sts (traffic_step new tr) =
     (if new < lvl tr then TRAFFIC_CHANGED OR TRAFFIC_DECREASE
      else if lvl tr < new then TRAFFIC_CHANGED OR TRAFFIC_INCREASE
      else sts tr AND NOT (TRAFFIC_CHANGED OR TRAFFIC_INCREASE OR TRAFFIC_DECREASE))"
proof -
  have "a AND NOT m = a" if "a AND m = 0" for a m :: u8
  proof (rule bit_word_eqI)
    fix n
    have "bit (a AND m) n = bit (0::u8) n"
      by (simp only: that)
    then show "bit (a AND NOT m) n = bit a n" if "n < LENGTH(8)"
      using that by (auto simp: bit_simps)
  qed
  from this [of "sts tr" 7] show ?thesis
    by (auto simp: traffic_step_def)
qed

lemma rx_stats_counters:
  "rx_byte_total (phl_update_rx_stats now len bmc st) = rx_byte_total st + ucast len"
  "rx_byte_uni (phl_update_rx_stats now len bmc st) = rx_byte_uni st + (if bmc then 0 else ucast len)"
  "last_rx_time_ms (phl_update_rx_stats now len bmc st) = now"
  by (simp_all add: phl_update_rx_stats_def Let_def)

lemma tx_stats_counters:
  "tx_byte_total (phl_update_tx_stats now len bmc st) = tx_byte_total st + ucast len"
  "tx_byte_uni (phl_update_tx_stats now len bmc st) = tx_byte_uni st + (if bmc then 0 else ucast len)"
  "txreq_num (phl_update_tx_stats now len bmc st) = txreq_num st + 1"
  by (simp_all add: phl_update_tx_stats_def Let_def)

text \<open>A run of packets, each with its arrival time, length and broadcast flag.\<close>

definition rx_stats_run :: "(u32 \<times> u16 \<times> bool) list \<Rightarrow> rtw_stats \<Rightarrow> rtw_stats" where
  "rx_stats_run ps st = fold (\<lambda>(now, len, bmc). phl_update_rx_stats now len bmc) ps st"

lemma rx_stats_run_Cons [simp]:
  "rx_stats_run ((now, len, bmc) # ps) st = rx_stats_run ps (phl_update_rx_stats now len bmc st)"
  by (simp add: rx_stats_run_def)

lemma rx_stats_run_Nil [simp]: "rx_stats_run [] st = st"
  by (simp add: rx_stats_run_def)

lemma of_nat_sum_ucast: "(of_nat (\<Sum>p\<leftarrow>ps. unat (f p)) :: u64) = (\<Sum>p\<leftarrow>ps. ucast (f p :: u16))"
  by (induction ps) simp_all

subsection \<open>Properties\<close>

text \<open>
  The elapsed-time helpers: the result is the difference modulo 2^32 while the clock has not
  wrapped since \<open>start\<close>; after a wrap-around it is one less than the difference.
\<close>

theorem passing_time_value:
  "phl_get_passing_time_us now start = (if now \<ge> start then now - start else now - start - 1) \<and>
   phl_get_passing_time_ms now start = phl_get_passing_time_us now start"
  by (auto simp: phl_get_passing_time_us_def phl_get_passing_time_ms_def wrap_diff)

text \<open>
  Byte accounting over any run of received packets: the total grows by the sum of all packet
  lengths and the unicast counter by the sum of the unicast ones, modulo 2^64, whatever the
  arrival times are; the last receive time is that of the last packet.
\<close>

theorem rx_stats_run_accounting:
  "rx_byte_total (rx_stats_run ps st) =
     rx_byte_total st + of_nat (\<Sum>(now, len, bmc)\<leftarrow>ps. unat len) \<and>
   rx_byte_uni (rx_stats_run ps st) =
     rx_byte_uni st + of_nat (\<Sum>(now, len, bmc)\<leftarrow>ps. if bmc then 0 else unat len) \<and>
   last_rx_time_ms (rx_stats_run ps st) = (case rev ps of [] \<Rightarrow> last_rx_time_ms st | p # _ \<Rightarrow> fst p)"
proof (induction ps arbitrary: st rule: rev_induct)
  case (snoc p ps)
  then show ?case
    by (cases p) (auto simp: rx_stats_run_def rx_stats_counters)
qed simp

text \<open>
  The throughput sample: once a reference point exists, a packet that arrives more than
  1000 ms after it sets the rate to the unicast bits since then divided by the milliseconds since
  then, the wrap-around of the clock included, and moves the reference point to this packet;
  before that the rate is unchanged.
\<close>

theorem rx_tp_sample:
  assumes "last_calc_time_ms (rxtp st) \<noteq> 0" and "last_calc_bits (rxtp st) \<noteq> 0"
    and "rx_byte_uni st' \<noteq> 0" and "st' = phl_update_rx_stats now len bmc st"
  shows "if now - last_calc_time_ms (rxtp st) > 1000
         then rx_tp_kbits st' = ucast ((rx_byte_uni st' * 8 - last_calc_bits (rxtp st)) div
                                       ucast (now - last_calc_time_ms (rxtp st))) \<and>
              rxtp st' = \<lparr>last_calc_bits = rx_byte_uni st' * 8, last_calc_time_ms = now\<rparr>
         else rx_tp_kbits st' = rx_tp_kbits st \<and> rxtp st' = rxtp st"
proof -
  have "rx_byte_uni st + (if bmc then 0 else ucast len) \<noteq> 0"
    using assms(3) by (simp add: assms(4) rx_stats_counters)
  then show ?thesis
    using assms(1,2) unfolding assms(4)
    by (cases bmc) (auto simp: phl_update_rx_stats_def Let_def tp_diff_t_exact)
qed

definition stats0 :: rtw_stats where
  "stats0 = \<lparr>tx_byte_uni = 0, rx_byte_uni = 1000, tx_byte_total = 0, rx_byte_total = 1000,
     tx_tp_kbits = 0, rx_tp_kbits = 0, last_tx_time_ms = 0, last_rx_time_ms = 0xFFFFFF00,
     txreq_num = 0, rx_rate = 0,
     txtp = \<lparr>last_calc_bits = 0, last_calc_time_ms = 0\<rparr>,
     rxtp = \<lparr>last_calc_bits = 8000, last_calc_time_ms = 0xFFFFFF00\<rparr>,
     tx_traffic = \<lparr>lvl = RTW_TFC_IDLE, sts = 0\<rparr>, rx_traffic = \<lparr>lvl = RTW_TFC_IDLE, sts = 0\<rparr>,
     rx_tf_cnt = 0, pre_rx_tf_cnt = 0\<rparr>"

theorem rx_tp_sample_witness:
  "rx_tp_kbits (phl_update_rx_stats 1744 5000 False stats0) = 20 \<and>
   rxtp (phl_update_rx_stats 1744 5000 False stats0) =
     \<lparr>last_calc_bits = 48000, last_calc_time_ms = 1744\<rparr>"
  using rx_tp_sample [of stats0 "phl_update_rx_stats 1744 5000 False stats0" 1744 5000 False]
  by (simp add: rx_stats_counters stats0_def)

text \<open>
  Traffic level: after an update the level is the one the throughput maps to, the flag byte
  says changed-and-increased or changed-and-decreased exactly when the level moved that way, and
  a further update at the same throughput clears the three flags and keeps the level.
\<close>

theorem rx_traffic_upd_spec:
  "let st' = phl_rx_traffic_upd st; l = lvl (rx_traffic st); l' = tfc_lvl_of (rx_tp_kbits st) in
     lvl (rx_traffic st') = l' \<and>
     sts (rx_traffic st') = (if l' < l then TRAFFIC_CHANGED OR TRAFFIC_DECREASE
                             else if l < l' then TRAFFIC_CHANGED OR TRAFFIC_INCREASE
                             else sts (rx_traffic st) AND NOT 7) \<and>
     sts (rx_traffic (phl_rx_traffic_upd st')) AND 7 = 0 \<and>
     lvl (rx_traffic (phl_rx_traffic_upd st')) = l'"
  by (simp add: Let_def phl_rx_traffic_upd_def traffic_step_sts_eq and.assoc)

end
