(* ===== verification/Phl_Rx_Data.thy ===== *)
theory Phl_Rx_Data
  imports Phl_Reorder Phl_Rx_Ring Phl_Macid Phl_Stats
begin

section \<open>The receive data path (phl/phl_rx.c, phl/phl_rx_agg.c)\<close>

text \<open>
  How a received packet gets from the bus to the core layer: the station lookup, the reordering
  session of its TID, the list of frames to deliver, the ring, the events; and the block-ack
  sessions of \<^verbatim>\<open>phl_rx_agg.c\<close>. The state joins the MAC id table, the stations, the ring, the pool
  and the statistics. Calls into the HAL and callbacks of the core, which return nothing the
  code uses, are entries of a log; lookups by hardware address and the role predicates are
  fields of the environment.
\<close>

subsection \<open>State\<close>

datatype rx_effect =
    Hal_set_macid_pause u16 bool
  | Ap_ps_sta_ps_change nat bool
  | Client_ps_annc nat bool
  | Hal_set_sta_rx_sts nat
  | Hal_start_ba_session nat u16 u16
  | Hal_stop_ba_session nat u16
  | Schedule_event_handler
  | Core_rx_process

text \<open>
  The receive part of \<^verbatim>\<open>struct rtw_phl_stainfo_t\<close>; \<open>reorder_timer\<close> says whether the timer is
  pending, \<open>comp_sync\<close> whether the completion event is set.
\<close>

record rx_sta =
  tid_rx :: "phl_tid_ampdu_rx option list"
  reorder_timer :: bool
  comp_sync :: bool
  ps_sta :: bool
  rs_macid :: u16
  rs_stats :: rtw_stats

record rx_env =
  cfg_sniffer :: bool
  cfg_append_fcs :: bool
  cfg_mp_mode :: bool
  cfg_ap_ps :: bool
  role_of_sta :: "nat \<Rightarrow> nat option"
  rlink_of_sta :: "nat \<Rightarrow> bool"
  sta_by_addr :: "rtw_phl_rx_pkt \<Rightarrow> (nat \<times> nat \<times> bool) option"
  role_is_ap :: "nat \<Rightarrow> bool"
  is_self_sta :: "nat \<Rightarrow> bool"

record rx_info =
  ri_mc :: macid_ctl_t
  ri_sta :: "nat \<Rightarrow> rx_sta"
  ri_ring :: "rtw_phl_rx_pkt rtw_phl_rx_ring"
  ri_pool :: rx_pkt_pool
  ri_stats :: rtw_stats
  ri_evt_bitmap :: u32
  ri_log :: "rx_effect list"

definition log_effect :: "rx_effect \<Rightarrow> rx_info \<Rightarrow> rx_info" where
  "log_effect e st = st\<lparr>ri_log := ri_log st @ [e]\<rparr>"

definition upd_sta :: "nat \<Rightarrow> (rx_sta \<Rightarrow> rx_sta) \<Rightarrow> rx_info \<Rightarrow> rx_info" where
  "upd_sta p f st = st\<lparr>ri_sta := (ri_sta st)(p := f (ri_sta st p))\<rparr>"

subsection \<open>Buffers, statistics, events\<close>

text \<open>
  \<^verbatim>\<open>phl_recycle_rx_buf\<close>: the bus buffer goes back to the bus layer and the packet structure to
  the pool. \<^verbatim>\<open>hci_trx_ops->recycle_rx_pkt\<close> of the USB bus ends in it.
\<close>

definition phl_recycle_rx_buf :: "rtw_phl_rx_pkt option \<Rightarrow> rx_info \<Rightarrow> rx_info" where
  "phl_recycle_rx_buf phl_rx st =
     (case phl_rx of
        None \<Rightarrow> st
      | Some pkt \<Rightarrow> st\<lparr>ri_pool := phl_release_phl_rx (pkt_id pkt) (ri_pool st)\<rparr>)"

definition recycle_rx_pkt :: "rtw_phl_rx_pkt \<Rightarrow> rx_info \<Rightarrow> rx_info" where
  "recycle_rx_pkt pkt st = phl_recycle_rx_buf (Some pkt) st"

definition rtw_phl_return_rxbuf :: "rtw_phl_rx_pkt option \<Rightarrow> rx_info \<Rightarrow> rtw_phl_status \<times> rx_info" where
  "rtw_phl_return_rxbuf recvpkt st =
     (case recvpkt of
        None \<Rightarrow> (RTW_PHL_STATUS_FAILURE, st)
      | Some pkt \<Rightarrow> (RTW_PHL_STATUS_SUCCESS, phl_recycle_rx_buf (Some pkt) st))"

definition phl_rx_statistics :: "u32 \<Rightarrow> rtw_phl_rx_pkt \<Rightarrow> rx_info \<Rightarrow> rx_info" where
  "phl_rx_statistics now pkt st =
     (let md = mdata pkt; upd = phl_update_rx_stats now (pktlen md) (bc md \<or> mc md);
          st1 = (if \<not> phl_macid_is_valid (ri_mc st) (macid md) then st
                 else case rtw_phl_get_stainfo_by_macid (ri_mc st) (macid md) of
                        None \<Rightarrow> st
                      | Some p \<Rightarrow> upd_sta p (\<lambda>s. s\<lparr>rs_stats := upd (rs_stats s)\<rparr>) st)
      in st1\<lparr>ri_stats := upd (ri_stats st1)\<rparr>)"

definition RTW_PHL_EVT_RX :: u32 where "RTW_PHL_EVT_RX = 1"

definition phl_indic_new_rxpkt :: "rx_info \<Rightarrow> rx_info" where
  "phl_indic_new_rxpkt st =
     log_effect Schedule_event_handler (st\<lparr>ri_evt_bitmap := ri_evt_bitmap st OR RTW_PHL_EVT_RX\<rparr>)"

definition phl_event_indicator :: "rx_info \<Rightarrow> rx_info" where
  "phl_event_indicator st =
     (let evt = ri_evt_bitmap st; st1 = st\<lparr>ri_evt_bitmap := 0\<rparr>
      in if RTW_PHL_EVT_RX AND evt \<noteq> 0 then log_effect Core_rx_process st1 else st1)"

definition phl_record_rx_stats :: "rtw_phl_rx_pkt \<Rightarrow> rx_info \<Rightarrow> rx_info" where
  "phl_record_rx_stats pkt st =
     (case tx_sta pkt of
        None \<Rightarrow> st
      | Some p \<Rightarrow> upd_sta p (\<lambda>s. s\<lparr>rs_stats := (rs_stats s)\<lparr>rtw_stats.rx_rate := ucast (rtw_r_meta_data.rx_rate (mdata pkt))\<rparr>\<rparr>) st)"

definition phl_add_rx_pkt :: "rtw_phl_rx_pkt \<Rightarrow> rx_info \<Rightarrow> rtw_phl_status \<times> rx_info" where
  "phl_add_rx_pkt pkt st =
     (case rx_ring_add pkt (ri_ring st) of (pstatus, ring1) \<Rightarrow>
        if pstatus = RTW_PHL_STATUS_SUCCESS
        then (pstatus, (phl_record_rx_stats pkt st)\<lparr>ri_ring := ring1\<rparr>)
        else (pstatus, st))"

definition rtw_phl_query_rx_pkt :: "u32 \<Rightarrow> rx_info \<Rightarrow> rtw_phl_rx_pkt option \<times> rx_info" where
  "rtw_phl_query_rx_pkt now st =
     (case rx_ring_take (ri_ring st) of (recvpkt, ring1) \<Rightarrow>
        (recvpkt,
         case recvpkt of
           None \<Rightarrow> st\<lparr>ri_ring := ring1\<rparr>
         | Some pkt \<Rightarrow> phl_rx_statistics now pkt (st\<lparr>ri_ring := ring1\<rparr>)))"

subsection \<open>Power save of the peer\<close>

definition phl_sta_ps_enter :: "nat \<Rightarrow> nat \<Rightarrow> rx_info \<Rightarrow> rx_info" where
  "phl_sta_ps_enter p role st =
     log_effect (Client_ps_annc p True) (log_effect (Ap_ps_sta_ps_change p True)
       (log_effect (Hal_set_macid_pause (rs_macid (ri_sta st p)) True)
          (upd_sta p (\<lambda>s. s\<lparr>ps_sta := True\<rparr>) st)))"

definition phl_sta_ps_exit :: "nat \<Rightarrow> nat \<Rightarrow> rx_info \<Rightarrow> rx_info" where
  "phl_sta_ps_exit p role st =
     log_effect (Client_ps_annc p False) (log_effect (Ap_ps_sta_ps_change p False)
       (log_effect (Hal_set_macid_pause (rs_macid (ri_sta st p)) False)
          (upd_sta p (\<lambda>s. s\<lparr>ps_sta := False\<rparr>) st)))"

definition RTW_FRAME_TYPE_MGNT :: u8 where "RTW_FRAME_TYPE_MGNT = 0"
definition RTW_FRAME_TYPE_DATA :: u8 where "RTW_FRAME_TYPE_DATA = 2"

text \<open>The packet is returned with its station filled in.\<close>

definition phl_rx_handle_sta_process ::
  "rx_env \<Rightarrow> rtw_phl_rx_pkt \<Rightarrow> rx_info \<Rightarrow> rtw_phl_rx_pkt \<times> rx_info" where
  "phl_rx_handle_sta_process env rx st =
     (if \<not> cfg_ap_ps env then (rx, st)
      else
        let md = mdata rx;
            by_cam = (if addr_cam_vld md then rtw_phl_get_stainfo_by_macid (ri_mc st) (macid md) else None);
            found = (case by_cam of
                       Some p \<Rightarrow> (case role_of_sta env p of None \<Rightarrow> None | Some r \<Rightarrow> Some (p, r, rlink_of_sta env p))
                     | None \<Rightarrow> sta_by_addr env rx)
        in case found of
             None \<Rightarrow> (rx, st)
           | Some (p, role, has_rlink) \<Rightarrow>
               if \<not> has_rlink then (rx, st)
               else
                 let rx1 = rx\<lparr>tx_sta := Some p\<rparr>
                 in if \<not> more_frag md \<and>
                       (frame_type md = RTW_FRAME_TYPE_DATA \<or> frame_type md = RTW_FRAME_TYPE_MGNT) \<and>
                       \<not> rx_deferred_release md \<and> role_is_ap env role
                    then if is_self_sta env p then (rx1, st)
                         else if ps_sta (ri_sta st p)
                         then (rx1, if \<not> pwr_bit md then phl_sta_ps_exit p role st else st)
                         else (rx1, if pwr_bit md then phl_sta_ps_enter p role st else st)
                    else (rx1, st))"

subsection \<open>Delivering frames\<close>

fun deliver_frames :: "rx_env \<Rightarrow> rtw_phl_rx_pkt list \<Rightarrow> rx_info \<Rightarrow> rx_info" where
  "deliver_frames env [] st = st"
| "deliver_frames env (pos # frames) st =
     (case phl_rx_handle_sta_process env pos st of (pos1, st1) \<Rightarrow>
        (case phl_add_rx_pkt pos1 st1 of (pstatus, st2) \<Rightarrow>
           deliver_frames env frames
             (if pstatus = RTW_PHL_STATUS_RESOURCE then recycle_rx_pkt pos1 st2 else st2)))"

definition phl_handle_rx_frame_list :: "rx_env \<Rightarrow> rtw_phl_rx_pkt list \<Rightarrow> rx_info \<Rightarrow> rx_info" where
  "phl_handle_rx_frame_list env frames st = phl_indic_new_rxpkt (deliver_frames env frames st)"

subsection \<open>Reordering in the data path\<close>

definition RTW_MAX_TID_NUM :: nat where "RTW_MAX_TID_NUM = 16"

definition set_tid :: "nat \<Rightarrow> nat \<Rightarrow> phl_tid_ampdu_rx option \<Rightarrow> rx_info \<Rightarrow> rx_info" where
  "set_tid p i r st = upd_sta p (\<lambda>s. s\<lparr>tid_rx := (tid_rx s)[i := r]\<rparr>) st"

definition arm_timer :: "nat \<Rightarrow> bool \<Rightarrow> rx_info \<Rightarrow> rx_info" where
  "arm_timer p armed st = upd_sta p (\<lambda>s. s\<lparr>reorder_timer := reorder_timer s \<or> armed\<rparr>) st"

text \<open>The last part of \<^verbatim>\<open>phl_rx_reorder\<close>, under the lock of the station's sessions.\<close>

definition rx_reorder_tid ::
  "u32 \<Rightarrow> u32 \<Rightarrow> nat \<Rightarrow> rtw_phl_rx_pkt \<Rightarrow> rtw_phl_rx_pkt list \<Rightarrow> rx_info
     \<Rightarrow> rtw_phl_status \<times> rx_info \<times> rtw_phl_rx_pkt list" where
  "rx_reorder_tid t1 t2 p pkt frames st =
     (let i = unat (tid (mdata pkt)) in
      if i \<ge> RTW_MAX_TID_NUM then (RTW_PHL_STATUS_SUCCESS, st, frames @ [pkt])
      else case tid_rx (ri_sta st p) ! i of
             None \<Rightarrow> (RTW_PHL_STATUS_SUCCESS, st, frames @ [pkt])
           | Some r \<Rightarrow>
               let res = phl_manage_sta_reorder_buf t1 t2 pkt r frames;
                   st2 = fold recycle_rx_pkt (mg_recycled res)
                           (arm_timer p (mg_armed res) (set_tid p i (Some (mg_r res)) st))
               in (RTW_PHL_STATUS_SUCCESS, st2, manage_delivered pkt res))"

text \<open>
  \<^verbatim>\<open>phl_rx_reorder\<close>: status, state and the frames to deliver. The packet is kept with the FCS
  removed from its length and its station filled in.
\<close>

definition phl_rx_reorder ::
  "rx_env \<Rightarrow> u32 \<Rightarrow> u32 \<Rightarrow> rtw_phl_rx_pkt \<Rightarrow> rtw_phl_rx_pkt list \<Rightarrow> rx_info
     \<Rightarrow> rtw_phl_status \<times> rx_info \<times> rtw_phl_rx_pkt list" where
  "phl_rx_reorder env t1 t2 pkt0 frames st =
     (let md = mdata pkt0;
          dont = (\<lambda>pkt. (RTW_PHL_STATUS_SUCCESS, st, frames @ [pkt]));
          strip = (cfg_append_fcs env \<and> \<not> (amsdu_cut md \<and> \<not> last_msdu md))
      in if cfg_sniffer env then dont pkt0
         else if strip \<and> len0 pkt0 \<le> 4 then (RTW_PHL_STATUS_FAILURE, recycle_rx_pkt pkt0 st, frames)
         else
           let pkt = (if strip then pkt0\<lparr>len0 := len0 pkt0 - 4\<rparr> else pkt0)
           in if cfg_mp_mode env then dont pkt
              else if bc md \<or> mc md then dont pkt
              else if \<not> qos md then dont pkt
              else if q_null md then dont pkt
              else if more_frag md \<or> frag_num md \<noteq> 0 then dont pkt
              else case (if addr_cam_vld md then rtw_phl_get_stainfo_by_macid (ri_mc st) (macid md) else None) of
                     None \<Rightarrow> dont pkt
                   | Some p \<Rightarrow>
                       rx_reorder_tid t1 t2 p (pkt\<lparr>tx_sta := Some p\<rparr>) frames
                         (log_effect (Hal_set_sta_rx_sts p) st))"

text \<open>The loop over the TIDs that the timer callback and the flush share.\<close>

fun release_tids ::
  "u32 \<Rightarrow> nat \<Rightarrow> nat list \<Rightarrow> rx_info \<Rightarrow> rtw_phl_rx_pkt list \<Rightarrow> rx_info \<times> rtw_phl_rx_pkt list" where
  "release_tids now p [] st frames = (st, frames)"
| "release_tids now p (i # is) st frames =
     (case tid_rx (ri_sta st p) ! i of
        None \<Rightarrow> release_tids now p is st frames
      | Some r \<Rightarrow>
          (case phl_reorder_release now r frames of (r1, frames1, armed) \<Rightarrow>
             release_tids now p is (arm_timer p armed (set_tid p i (Some r1) st)) frames1))"

definition phl_sta_rx_reorder_timer_expired :: "rx_env \<Rightarrow> u32 \<Rightarrow> nat \<Rightarrow> rx_info \<Rightarrow> rx_info" where
  "phl_sta_rx_reorder_timer_expired env now p st =
     (case release_tids now p [0..<RTW_MAX_TID_NUM] (upd_sta p (\<lambda>s. s\<lparr>reorder_timer := False\<rparr>) st) []
      of (st1, frames) \<Rightarrow>
        upd_sta p (\<lambda>s. s\<lparr>comp_sync := True\<rparr>) (phl_handle_rx_frame_list env frames st1))"

definition rtw_phl_flush_reorder_buf :: "rx_env \<Rightarrow> u32 \<Rightarrow> nat \<Rightarrow> rx_info \<Rightarrow> rx_info" where
  "rtw_phl_flush_reorder_buf env now p st =
     (case release_tids now p [0..<RTW_MAX_TID_NUM] st []
      of (st1, frames) \<Rightarrow> phl_handle_rx_frame_list env frames st1)"

definition rtw_phl_rx_bar :: "rx_env \<Rightarrow> nat \<Rightarrow> u8 \<Rightarrow> u16 \<Rightarrow> rx_info \<Rightarrow> rx_info" where
  "rtw_phl_rx_bar env p t s st =
     (if unat t \<ge> RTW_MAX_TID_NUM then st
      else case tid_rx (ri_sta st p) ! unat t of
             None \<Rightarrow> st
           | Some r \<Rightarrow>
               if seq_less s (head_seq_num r) then st
               else case phl_release_reorder_frames r s [] of (r1, frames) \<Rightarrow>
                      phl_handle_rx_frame_list env frames (set_tid p (unat t) (Some r1) st))"

subsection \<open>Block-ack sessions (phl_rx_agg.c)\<close>

definition phl_tid_ampdu_rx_free :: "phl_tid_ampdu_rx option \<Rightarrow> rx_info \<Rightarrow> rx_info" where
  "phl_tid_ampdu_rx_free ro st =
     (case ro of
        None \<Rightarrow> st
      | Some r \<Rightarrow>
          fold (\<lambda>i st. case rslot r i of None \<Rightarrow> st | Some pkt \<Rightarrow> recycle_rx_pkt pkt st)
            [0..<unat (buf_size r)] st)"

definition mark_removed :: "rx_sta \<Rightarrow> rx_sta" where
  "mark_removed s = s\<lparr>tid_rx := map (map_option (\<lambda>r. r\<lparr>removed := True\<rparr>)) (tid_rx s)\<rparr>"

definition phl_cancel_rx_reorder_timer :: "nat \<Rightarrow> rx_info \<Rightarrow> rx_info" where
  "phl_cancel_rx_reorder_timer p st = upd_sta p (\<lambda>s. s\<lparr>reorder_timer := False\<rparr>) st"

definition phl_free_rx_reorder :: "nat \<Rightarrow> rx_info \<Rightarrow> rx_info" where
  "phl_free_rx_reorder p st =
     fold (\<lambda>i st. case tid_rx (ri_sta st p) ! i of
                    None \<Rightarrow> st
                  | Some r \<Rightarrow> set_tid p i None (phl_tid_ampdu_rx_free (Some r) st))
       [0..<RTW_MAX_TID_NUM] (phl_cancel_rx_reorder_timer p (upd_sta p mark_removed st))"

definition rtw_phl_stop_rx_ba_session :: "nat option \<Rightarrow> u16 \<Rightarrow> rx_info \<Rightarrow> rx_info" where
  "rtw_phl_stop_rx_ba_session so t st =
     (case so of
        None \<Rightarrow> st
      | Some p \<Rightarrow>
          if unat t \<ge> RTW_MAX_TID_NUM then st
          else
            let st1 = log_effect (Hal_stop_ba_session p t) st
            in case tid_rx (ri_sta st1 p) ! unat t of
                 None \<Rightarrow> st1
               | Some r \<Rightarrow> phl_tid_ampdu_rx_free (Some (r\<lparr>removed := True\<rparr>)) (set_tid p (unat t) None st1))"

text \<open>
  The three allocations of \<^verbatim>\<open>phl_tid_ampdu_rx_alloc\<close> succeed or fail by the three booleans; what
  was allocated before a failure is freed again.
\<close>

definition phl_tid_ampdu_rx_alloc ::
  "bool \<times> bool \<times> bool \<Rightarrow> u16 \<Rightarrow> u16 \<Rightarrow> u16 \<Rightarrow> phl_tid_ampdu_rx option" where
  "phl_tid_ampdu_rx_alloc mem start_seq t n =
     (case mem of (m1, m2, m3) \<Rightarrow>
        if \<not> m1 \<or> \<not> m2 \<or> \<not> m3 then None
        else Some \<lparr>reorder_buf = replicate (unat n) None, reorder_time = replicate (unat n) 0,
                   head_seq_num = start_seq, stored_mpdu_num = 0, ssn = start_seq, buf_size = n,
                   r_tid = t, started = False, removed = False, sleep = False\<rparr>)"

definition PHL_MAX_AGG_WSIZE :: u16 where "PHL_MAX_AGG_WSIZE = 32"

definition rtw_phl_start_rx_ba_session ::
  "bool \<times> bool \<times> bool \<Rightarrow> nat \<Rightarrow> u16 \<Rightarrow> u16 \<Rightarrow> u16 \<Rightarrow> u16 \<Rightarrow> rx_info \<Rightarrow> rtw_phl_status \<times> rx_info" where
  "rtw_phl_start_rx_ba_session mem p start_seq_num ba_policy t n st =
     (if unat t \<ge> RTW_MAX_TID_NUM then (RTW_PHL_STATUS_RESOURCE, st)
      else
        let st1 = (if tid_rx (ri_sta st p) ! unat t \<noteq> None
                   then log_effect (Hal_stop_ba_session p t) st else st);
            st2 = log_effect (Hal_start_ba_session p t n) st1
        in if ba_policy \<noteq> 0 then (RTW_PHL_STATUS_FAILURE, st2)
           else
             let n1 = (if n = 0 then PHL_MAX_AGG_WSIZE else n)
             in case phl_tid_ampdu_rx_alloc mem start_seq_num t n1 of
                  None \<Rightarrow> (RTW_PHL_STATUS_RESOURCE, st2)
                | Some r \<Rightarrow>
                    (RTW_PHL_STATUS_SUCCESS,
                     set_tid p (unat t) (Some r)
                       (phl_tid_ampdu_rx_free (tid_rx (ri_sta st2 p) ! unat t) st2)))"

definition phl_notify_reorder_sleep :: "nat option \<Rightarrow> rx_info \<Rightarrow> rx_info" where
  "phl_notify_reorder_sleep so st =
     (case so of
        None \<Rightarrow> st
      | Some p \<Rightarrow>
          upd_sta p (\<lambda>s. s\<lparr>tid_rx := map (map_option (\<lambda>r. r\<lparr>sleep := True\<rparr>)) (tid_rx s)\<rparr>) st)"

subsection \<open>Where the packets are\<close>

definition sta_held :: "rx_sta \<Rightarrow> nat multiset" where
  "sta_held s = (\<Sum>r \<leftarrow> slots (tid_rx s). held r)"

definition pool_ids :: "rx_info \<Rightarrow> nat multiset" where
  "pool_ids st = mset (idle (ri_pool st))"

text \<open>Sixteen TIDs, and every session has an array of its size.\<close>

definition sta_rx_ok :: "rx_sta \<Rightarrow> bool" where
  "sta_rx_ok s \<longleftrightarrow> length (tid_rx s) = RTW_MAX_TID_NUM \<and> (\<forall>r \<in> set (slots (tid_rx s)). buf_len_ok r)"

text \<open>No session keeps a frame without a timer that will look at it.\<close>

definition timer_ok :: "rx_sta \<Rightarrow> bool" where
  "timer_ok s \<longleftrightarrow>
     (\<forall>r \<in> set (slots (tid_rx s)). stored_mpdu_num r \<noteq> 0 \<and> \<not> removed r \<longrightarrow> reorder_timer s)"

lemma sum_slots_update:
  fixes f :: "'a \<Rightarrow> 'b :: comm_monoid_add"
  assumes "i < length xs"
  shows "(\<Sum>x \<leftarrow> slots (xs[i := y]). f x) + (\<Sum>x \<leftarrow> slots [xs ! i]. f x) =
         (\<Sum>x \<leftarrow> slots xs. f x) + (\<Sum>x \<leftarrow> slots [y]. f x)"
  using slots_update [OF assms, of y] slots_split [OF assms] by (simp add: ac_simps)

lemma sta_held_update:
  assumes "i < length (tid_rx s)"
  shows "sta_held (s\<lparr>tid_rx := (tid_rx s)[i := y]\<rparr>) + (case tid_rx s ! i of None \<Rightarrow> {#} | Some r \<Rightarrow> held r) =
         sta_held s + (case y of None \<Rightarrow> {#} | Some r \<Rightarrow> held r)"
  using sum_slots_update [OF assms, of held y]
  by (auto simp: sta_held_def split: option.splits)

lemma set_slots_update: "set (slots (xs[i := y])) \<subseteq> set (slots xs) \<union> set (slots [y])"
  by (auto simp: set_slots dest!: set_update_subset_insert [THEN subsetD] split: option.splits)

lemma slots_nth: "i < length xs \<Longrightarrow> xs ! i = Some r \<Longrightarrow> r \<in> set (slots xs)"
  by (metis (mono_tags) mem_Collect_eq nth_mem set_slots)

lemma sta_rx_ok_update:
  "sta_rx_ok s \<Longrightarrow> (case y of None \<Rightarrow> True | Some r \<Rightarrow> buf_len_ok r) \<Longrightarrow>
   sta_rx_ok (s\<lparr>tid_rx := (tid_rx s)[i := y]\<rparr>)"
  using set_slots_update [of "tid_rx s" i y] by (auto simp: sta_rx_ok_def split: option.splits)

text \<open>The simple state updates.\<close>

lemma upd_sta_sel [simp]:
  "ri_sta (upd_sta p f st) = (ri_sta st)(p := f (ri_sta st p))"
  "ri_mc (upd_sta p f st) = ri_mc st" "ri_ring (upd_sta p f st) = ri_ring st"
  "ri_pool (upd_sta p f st) = ri_pool st" "ri_evt_bitmap (upd_sta p f st) = ri_evt_bitmap st"
  by (simp_all add: upd_sta_def)

lemma log_effect_sel [simp]:
  "ri_sta (log_effect e st) = ri_sta st" "ri_mc (log_effect e st) = ri_mc st"
  "ri_ring (log_effect e st) = ri_ring st" "ri_pool (log_effect e st) = ri_pool st"
  "ri_evt_bitmap (log_effect e st) = ri_evt_bitmap st"
  by (simp_all add: log_effect_def)

lemma pool_ids_upd [simp]: "pool_ids (upd_sta p f st) = pool_ids st" "pool_ids (log_effect e st) = pool_ids st"
  "pool_ids (set_tid p i r st) = pool_ids st" "pool_ids (arm_timer p b st) = pool_ids st"
  by (simp_all add: pool_ids_def set_tid_def arm_timer_def)

lemma recycle_sel [simp]:
  "ri_sta (recycle_rx_pkt pkt st) = ri_sta st" "ri_ring (recycle_rx_pkt pkt st) = ri_ring st"
  "ri_mc (recycle_rx_pkt pkt st) = ri_mc st"
  "idle (ri_pool (recycle_rx_pkt pkt st)) = idle (ri_pool st) @ [pkt_id pkt]"
  by (simp_all add: recycle_rx_pkt_def phl_recycle_rx_buf_def)

lemma fold_recycle [simp]:
  "ri_sta (fold recycle_rx_pkt ps st) = ri_sta st" "ri_ring (fold recycle_rx_pkt ps st) = ri_ring st"
  "ri_mc (fold recycle_rx_pkt ps st) = ri_mc st"
  "idle (ri_pool (fold recycle_rx_pkt ps st)) = idle (ri_pool st) @ map pkt_id ps"
  "pool_ids (fold recycle_rx_pkt ps st) = pool_ids st + ids ps"
  by (induction ps arbitrary: st) (simp_all add: pool_ids_def ids_def)

lemma ampdu_free_fold:
  assumes "buf_len_ok r"
  shows "phl_tid_ampdu_rx_free (Some r) st = fold recycle_rx_pkt (slots (reorder_buf r)) st"
proof -
  have "fold (\<lambda>i st. case xs ! i of None \<Rightarrow> st | Some pkt \<Rightarrow> recycle_rx_pkt pkt st) [0..<length xs] st =
      fold recycle_rx_pkt (slots xs) st" for xs
  proof (induction xs arbitrary: st)
    case (Cons x xs)
    have "[0..<length (x # xs)] = 0 # map Suc [0..<length xs]"
      by (simp add: map_Suc_upt upt_conv_Cons del: upt_Suc)
    then show ?case
      using Cons by (simp add: fold_map comp_def split: option.split)
  qed simp
  moreover have "fold (\<lambda>i st. case rslot r i of None \<Rightarrow> st | Some pkt \<Rightarrow> recycle_rx_pkt pkt st)
        [0..<unat (buf_size r)] st =
      fold (\<lambda>i st. case reorder_buf r ! i of None \<Rightarrow> st | Some pkt \<Rightarrow> recycle_rx_pkt pkt st)
        [0..<length (reorder_buf r)] st"
    using assms by (intro fold_cong) (auto simp: buf_len_ok_def rslot_def)
  ultimately show ?thesis
    by (simp add: phl_tid_ampdu_rx_free_def)
qed

subsection \<open>Timers\<close>

lemma release_upto_stored: "stored_mpdu_num r = 0 \<Longrightarrow> fst (release_upto r h f) = r"
  by (simp add: release_upto.simps [of r])

lemma release_frames_stored:
  "phl_release_reorder_frames r h f = (r1, f1) \<Longrightarrow> stored_mpdu_num r = 0 \<Longrightarrow> stored_mpdu_num r1 = 0"
  using release_upto_stored [of r h f] by (auto simp: phl_release_reorder_frames_def split: prod.splits)

lemma reorder_release_timer:
  "phl_reorder_release now r f = (r1, f1, armed) \<Longrightarrow> stored_mpdu_num r1 \<noteq> 0 \<Longrightarrow> \<not> removed r1 \<Longrightarrow> armed"
  by (auto simp: phl_reorder_release_def Let_def split: prod.splits)

lemma manage_tail_timer:
  assumes "res = manage_tail t1 t2 pkt r f" and "stored_mpdu_num (mg_r res) \<noteq> 0" "\<not> removed (mg_r res)"
  shows "mg_armed res \<or> (stored_mpdu_num r \<noteq> 0 \<and> \<not> removed r)"
  using assms reorder_release_timer
  by (fastforce simp: manage_tail_def Let_def split: if_splits prod.splits)

lemma manage_timer:
  assumes "res = phl_manage_sta_reorder_buf t1 t2 pkt r f"
    and "stored_mpdu_num (mg_r res) \<noteq> 0" "\<not> removed (mg_r res)"
  shows "mg_armed res \<or> (stored_mpdu_num r \<noteq> 0 \<and> \<not> removed r)"
proof -
  let ?s = "seq (mdata pkt)"
  define r1 where "r1 = wake ?s r"
  have r1: "stored_mpdu_num r1 = stored_mpdu_num r" "removed r1 = removed r"
    by (simp_all add: r1_def wake_def Let_def)
  obtain r2 f2 where r2: "(if \<not> seq_less ?s (head_seq_num r1 + buf_size r1)
       then phl_release_reorder_frames r1 (seq_inc (seq_sub ?s (buf_size r1))) f else (r1, f)) = (r2, f2)"
    by fastforce
  have st2: "stored_mpdu_num r = 0 \<Longrightarrow> stored_mpdu_num r2 = 0" "removed r2 = removed r"
    using r2 r1 release_frames_stored release_frames_flow by (auto simp: flow_def split: if_splits)
  note eq = manage_unfold [of t1 t2 pkt r f, folded r1_def assms(1)]
  show ?thesis
  proof (cases "(\<not> started r \<and> seq_less ?s (head_seq_num r)) \<or> seq_less ?s (head_seq_num r1)")
    case True
    then show ?thesis using eq assms(2,3) r1 by (auto split: if_splits)
  next
    case False
    then have "\<not> (\<not> started r \<and> seq_less ?s (head_seq_num r))" "\<not> seq_less ?s (head_seq_num r1)"
      by blast+
    then have "res = manage_tail t1 t2 pkt r2 f2"
      using eq unfolding r2 by auto
    from manage_tail_timer [OF this assms(2,3)] show ?thesis
      using st2 by auto
  qed
qed

lemma timer_ok_update:
  assumes "timer_ok s" and "i < length (tid_rx s)" and "tid_rx s ! i = Some r"
    and "stored_mpdu_num r1 \<noteq> 0 \<Longrightarrow> \<not> removed r1 \<Longrightarrow> armed \<or> (stored_mpdu_num r \<noteq> 0 \<and> \<not> removed r)"
  shows "timer_ok (s\<lparr>tid_rx := (tid_rx s)[i := Some r1], reorder_timer := reorder_timer s \<or> armed\<rparr>)"
  using assms set_slots_update [of "tid_rx s" i "Some r1"] slots_nth [OF assms(2,3)]
  by (auto simp: timer_ok_def)

subsection \<open>The reordering step in the data path\<close>

lemma mset_swap:
  fixes s1 :: "'a multiset"
  assumes "s1 + h = s + h1" and "p1 = q + c" and "f1 + c + h1 = f + h + x"
  shows "p1 + s1 + f1 = q + s + f + x"
proof -
  have "p1 + s1 + f1 + h = q + (s1 + h) + (f1 + c)"
    by (simp add: assms(2) ac_simps)
  also have "\<dots> = q + s + (f1 + c + h1)"
    unfolding assms(1) by (simp add: ac_simps)
  also have "\<dots> = q + s + f + x + h"
    unfolding assms(3) by (simp add: ac_simps)
  finally show ?thesis by simp
qed

text \<open>
  A packet is delivered as it comes, dropped, or goes to the session of its TID; its identity and
  sequence number stay.
\<close>

lemma rx_reorder_split:
  assumes "phl_rx_reorder env t1 t2 pkt frames st = (pstatus, st', frames')"
  obtains (dont) pkt' where "frames' = frames @ [pkt']" "pkt_id pkt' = pkt_id pkt" "st' = st"
    | (drop) "frames' = frames" "st' = recycle_rx_pkt pkt st" "pstatus = RTW_PHL_STATUS_FAILURE"
    | (sta) p pkt' where "rtw_phl_get_stainfo_by_macid (ri_mc st) (macid (mdata pkt)) = Some p"
        "pkt_id pkt' = pkt_id pkt" "mdata pkt' = mdata pkt"
        "rx_reorder_tid t1 t2 p pkt' frames (log_effect (Hal_set_sta_rx_sts p) st) = (pstatus, st', frames')"
proof -
  define strip where "strip \<longleftrightarrow> cfg_append_fcs env \<and> \<not> (amsdu_cut (mdata pkt) \<and> \<not> last_msdu (mdata pkt))"
  define pkt1 where "pkt1 = (if strip then pkt\<lparr>len0 := len0 pkt - 4\<rparr> else pkt)"
  have pkt1: "pkt_id pkt1 = pkt_id pkt" "mdata pkt1 = mdata pkt"
    by (simp_all add: pkt1_def)
  note eq = assms [unfolded phl_rx_reorder_def Let_def, folded strip_def, folded pkt1_def]
  show thesis
  proof (cases "cfg_sniffer env \<or> strip \<and> len0 pkt \<le> 4")
    case True
    then show thesis using eq dont [of pkt] drop by (auto split: if_splits)
  next
    case False
    show thesis
    proof (cases "cfg_mp_mode env \<or> bc (mdata pkt) \<or> mc (mdata pkt) \<or> \<not> qos (mdata pkt) \<or> q_null (mdata pkt) \<or>
        more_frag (mdata pkt) \<or> frag_num (mdata pkt) \<noteq> 0 \<or>
        (if addr_cam_vld (mdata pkt) then rtw_phl_get_stainfo_by_macid (ri_mc st) (macid (mdata pkt)) else None) = None")
      case True
      then have "frames' = frames @ [pkt1] \<and> st' = st" using False eq by (auto split: if_splits)
      then show thesis using dont [of pkt1] pkt1 by simp
    next
      case n: False
      then obtain p where p: "rtw_phl_get_stainfo_by_macid (ri_mc st) (macid (mdata pkt)) = Some p"
          "addr_cam_vld (mdata pkt)"
        by (auto split: if_splits)
      have "rx_reorder_tid t1 t2 p (pkt1\<lparr>tx_sta := Some p\<rparr>) frames (log_effect (Hal_set_sta_rx_sts p) st) =
          (pstatus, st', frames')"
        using eq False n p by auto
      then show thesis using sta [of p "pkt1\<lparr>tx_sta := Some p\<rparr>"] p(1) pkt1 by simp
    qed
  qed
qed

lemma rx_reorder_tid_ok:
  assumes out: "rx_reorder_tid t1 t2 p pkt frames st = (pstatus, st', frames')"
    and ok: "sta_rx_ok (ri_sta st p)"
  shows "pool_ids st' + sta_held (ri_sta st' p) + ids frames' =
           pool_ids st + sta_held (ri_sta st p) + ids frames + {#pkt_id pkt#} \<and>
         sta_rx_ok (ri_sta st' p) \<and> (\<forall>q. q \<noteq> p \<longrightarrow> ri_sta st' q = ri_sta st q) \<and>
         ri_ring st' = ri_ring st \<and> (timer_ok (ri_sta st p) \<longrightarrow> timer_ok (ri_sta st' p))"
proof (cases "unat (tid (mdata pkt)) \<ge> RTW_MAX_TID_NUM \<or> tid_rx (ri_sta st p) ! unat (tid (mdata pkt)) = None")
  case True
  then have "st' = st" "frames' = frames @ [pkt]"
    using out by (auto simp: rx_reorder_tid_def Let_def split: if_splits)
  then show ?thesis using ok by simp
next
  case False
  let ?i = "unat (tid (mdata pkt))" and ?s = "ri_sta st p"
  obtain r where i: "?i < length (tid_rx ?s)" and r: "tid_rx ?s ! ?i = Some r"
    using False ok by (auto simp: sta_rx_ok_def)
  define res where "res = phl_manage_sta_reorder_buf t1 t2 pkt r frames"
  have len: "buf_len_ok r" using ok slots_nth [OF i r] by (simp add: sta_rx_ok_def)
  have st': "st' = fold recycle_rx_pkt (mg_recycled res)
        (arm_timer p (mg_armed res) (set_tid p ?i (Some (mg_r res)) st))" "frames' = manage_delivered pkt res"
    using out False r by (auto simp: rx_reorder_tid_def Let_def res_def)
  have s': "ri_sta st' p = ?s\<lparr>tid_rx := (tid_rx ?s)[?i := Some (mg_r res)],
      reorder_timer := reorder_timer ?s \<or> mg_armed res\<rparr>"
    by (simp add: st' arm_timer_def set_tid_def)
  note fl = manage_flow [OF len res_def]
  have h: "sta_held (ri_sta st' p) + held r = sta_held ?s + held (mg_r res)"
    using sta_held_update [OF i, of "Some (mg_r res)"] r by (simp add: s' sta_held_def)
  have "pool_ids st' = pool_ids st + ids (mg_recycled res)"
    by (simp add: st')
  moreover have "ids frames' + ids (mg_recycled res) + held (mg_r res) = ids frames + held r + {#pkt_id pkt#}"
    using fl by (simp add: st')
  ultimately have "pool_ids st' + sta_held (ri_sta st' p) + ids frames' =
      pool_ids st + sta_held ?s + ids frames + {#pkt_id pkt#}"
    by (rule mset_swap [OF h])
  moreover have "sta_rx_ok (ri_sta st' p)"
    using sta_rx_ok_update [OF ok, of "Some (mg_r res)" ?i] fl by (simp add: s' sta_rx_ok_def)
  moreover have "timer_ok ?s \<longrightarrow> timer_ok (ri_sta st' p)"
    using timer_ok_update [OF _ i r manage_timer [OF res_def]] by (simp add: s')
  ultimately show ?thesis
    by (auto simp: st' arm_timer_def set_tid_def)
qed

subsection \<open>Delivering\<close>

text \<open>What delivering leaves alone: the sessions and their timers, of every station.\<close>

definition same_sessions :: "rx_info \<Rightarrow> rx_info \<Rightarrow> bool" where
  "same_sessions st st1 \<longleftrightarrow>
     (\<forall>q. tid_rx (ri_sta st1 q) = tid_rx (ri_sta st q) \<and>
          reorder_timer (ri_sta st1 q) = reorder_timer (ri_sta st q))"

lemma same_sessions_refl [simp]: "same_sessions st st"
  by (simp add: same_sessions_def)

lemma same_sessions_trans: "same_sessions a b \<Longrightarrow> same_sessions b c \<Longrightarrow> same_sessions a c"
  by (simp add: same_sessions_def)

lemma handle_sta_process_frame:
  assumes "phl_rx_handle_sta_process env rx st = (rx1, st1)"
  shows "pkt_id rx1 = pkt_id rx \<and> mdata rx1 = mdata rx \<and> ri_ring st1 = ri_ring st \<and>
         ri_pool st1 = ri_pool st \<and> same_sessions st st1"
  using assms
  by (auto simp: phl_rx_handle_sta_process_def Let_def phl_sta_ps_enter_def phl_sta_ps_exit_def
      same_sessions_def split: if_splits option.splits prod.splits)

lemma add_rx_pkt_frame:
  assumes "phl_add_rx_pkt pkt st = (pstatus, st1)"
  shows "ri_pool st1 = ri_pool st \<and> same_sessions st st1 \<and>
         (if pstatus = RTW_PHL_STATUS_SUCCESS then rx_ring_add pkt (ri_ring st) = (pstatus, ri_ring st1)
          else ri_ring st1 = ri_ring st \<and> fst (rx_ring_add pkt (ri_ring st)) = pstatus)"
  using assms
  by (auto simp: phl_add_rx_pkt_def phl_record_rx_stats_def same_sessions_def upd_sta_def
      split: prod.splits if_splits option.splits)

lemma rx_ring_add_status: "fst (rx_ring_add x ring) \<in> {RTW_PHL_STATUS_SUCCESS, RTW_PHL_STATUS_RESOURCE}"
  by (simp add: rx_ring_add_def Let_def)

text \<open>One frame: into the ring when there is room, back to the pool otherwise.\<close>

lemma deliver_one:
  assumes wf: "ring_wf (ri_ring st)"
    and hs: "phl_rx_handle_sta_process env pos st = (pos1, st1)"
    and add: "phl_add_rx_pkt pos1 st1 = (pstatus, st2)"
    and st3: "st3 = (if pstatus = RTW_PHL_STATUS_RESOURCE then recycle_rx_pkt pos1 st2 else st2)"
  shows "ring_wf (ri_ring st3) \<and> same_sessions st st3 \<and>
         (if length (ring_contents (ri_ring st)) < 4095
          then map pkt_id (ring_contents (ri_ring st3)) = map pkt_id (ring_contents (ri_ring st)) @ [pkt_id pos] \<and>
               idle (ri_pool st3) = idle (ri_pool st)
          else ri_ring st3 = ri_ring st \<and> idle (ri_pool st3) = idle (ri_pool st) @ [pkt_id pos])"
proof -
  have h: "pkt_id pos1 = pkt_id pos" "ri_ring st1 = ri_ring st" "ri_pool st1 = ri_pool st" "same_sessions st st1"
    using handle_sta_process_frame [OF hs] by simp_all
  have a: "ri_pool st2 = ri_pool st1" "same_sessions st1 st2"
    using add_rx_pkt_frame [OF add] by simp_all
  have len: "length (ring_contents (ri_ring st)) = ring_avail (ri_ring st)"
    by (simp add: ring_contents_def)
  have full: "fst (rx_ring_add pos1 (ri_ring st)) = RTW_PHL_STATUS_RESOURCE \<longleftrightarrow> ring_avail (ri_ring st) = 4095"
    by (rule rx_ring_add_full(2) [OF wf])
  show ?thesis
  proof (cases "ring_avail (ri_ring st) = 4095")
    case True
    then have s: "pstatus = RTW_PHL_STATUS_RESOURCE" "ri_ring st2 = ri_ring st"
      using full add_rx_pkt_frame [OF add] h(2) rx_ring_add_status [of pos1 "ri_ring st"]
      by (auto split: if_splits)
    then show ?thesis
      using True len h a wf same_sessions_trans [OF h(4) a(2)] by (simp add: st3 same_sessions_def)
  next
    case False
    then have s: "pstatus = RTW_PHL_STATUS_SUCCESS" "rx_ring_add pos1 (ri_ring st) = (RTW_PHL_STATUS_SUCCESS, ri_ring st2)"
      using full add_rx_pkt_frame [OF add] h(2) rx_ring_add_status [of pos1 "ri_ring st"]
      by (auto split: if_splits)
    show ?thesis
      using rx_ring_add_ok [OF wf s(2)] False len ring_avail_less [of "ri_ring st"] h a s(1)
        same_sessions_trans [OF h(4) a(2)]
      by (simp add: st3)
  qed
qed

lemma deliver_frames_spec:
  assumes "ring_wf (ri_ring st)"
  shows "ring_wf (ri_ring (deliver_frames env frames st)) \<and> same_sessions st (deliver_frames env frames st) \<and>
         (let k = 4095 - length (ring_contents (ri_ring st)) in
          map pkt_id (ring_contents (ri_ring (deliver_frames env frames st))) =
            map pkt_id (ring_contents (ri_ring st)) @ map pkt_id (take k frames) \<and>
          idle (ri_pool (deliver_frames env frames st)) = idle (ri_pool st) @ map pkt_id (drop k frames))"
  using assms
proof (induction frames arbitrary: st)
  case (Cons pos frames)
  obtain pos1 st1 where hs: "phl_rx_handle_sta_process env pos st = (pos1, st1)" by fastforce
  obtain pstatus st2 where add: "phl_add_rx_pkt pos1 st1 = (pstatus, st2)" by fastforce
  define st3 where "st3 = (if pstatus = RTW_PHL_STATUS_RESOURCE then recycle_rx_pkt pos1 st2 else st2)"
  have eq: "deliver_frames env (pos # frames) st = deliver_frames env frames st3"
    by (simp add: hs add st3_def)
  note one = deliver_one [OF Cons.prems hs add st3_def]
  then have "ring_wf (ri_ring st3)" by simp
  note ih = Cons.IH [OF this]
  have ss: "same_sessions st (deliver_frames env frames st3)"
    using one ih same_sessions_trans by blast
  show ?case
  proof (cases "length (ring_contents (ri_ring st)) < 4095")
    case True
    then have m: "map pkt_id (ring_contents (ri_ring st3)) = map pkt_id (ring_contents (ri_ring st)) @ [pkt_id pos]"
        "idle (ri_pool st3) = idle (ri_pool st)"
      using one by simp_all
    have "length (ring_contents (ri_ring st3)) = Suc (length (ring_contents (ri_ring st)))"
      using arg_cong [OF m(1), of length] by simp
    then have "4095 - length (ring_contents (ri_ring st)) = Suc (4095 - length (ring_contents (ri_ring st3)))"
      using True by simp
    then show ?thesis
      using ih m ss by (simp add: eq Let_def del: deliver_frames.simps)
  next
    case False
    then show ?thesis
      using ih one ss by (simp add: eq Let_def del: deliver_frames.simps)
  qed
qed simp

subsection \<open>Releasing all TIDs of a station\<close>

lemma release_tids_spec:
  assumes "release_tids now p is st frames = (st', frames')" and "sta_rx_ok (ri_sta st p)"
    and "set is \<subseteq> {..<RTW_MAX_TID_NUM}"
  shows "sta_rx_ok (ri_sta st' p) \<and> ri_pool st' = ri_pool st \<and> ri_ring st' = ri_ring st \<and>
         (\<forall>q. q \<noteq> p \<longrightarrow> ri_sta st' q = ri_sta st q) \<and>
         sta_held (ri_sta st' p) + ids frames' = sta_held (ri_sta st p) + ids frames \<and>
         (reorder_timer (ri_sta st p) \<longrightarrow> reorder_timer (ri_sta st' p)) \<and>
         (\<forall>i. i \<notin> set is \<longrightarrow> tid_rx (ri_sta st' p) ! i = tid_rx (ri_sta st p) ! i) \<and>
         (\<forall>i \<in> set is. \<forall>r. tid_rx (ri_sta st' p) ! i = Some r \<longrightarrow> stored_mpdu_num r \<noteq> 0 \<longrightarrow>
            \<not> removed r \<longrightarrow> reorder_timer (ri_sta st' p))"
  using assms
proof (induction "is" arbitrary: st frames)
  case (Cons i "is")
  let ?s = "ri_sta st p"
  show ?case
  proof (cases "tid_rx ?s ! i")
    case None
    then have "release_tids now p is st frames = (st', frames')"
      using Cons.prems(1) by simp
    from Cons.IH [OF this Cons.prems(2)] Cons.prems(3) None show ?thesis
      by (cases "i \<in> set is") auto
  next
    case (Some r)
    obtain r1 f1 armed where rel: "phl_reorder_release now r frames = (r1, f1, armed)"
      by (metis prod_cases3)
    define st1 where "st1 = arm_timer p armed (set_tid p i (Some r1) st)"
    have i: "i < length (tid_rx ?s)"
      using Cons.prems(2,3) by (simp add: sta_rx_ok_def)
    have s1: "ri_sta st1 p = ?s\<lparr>tid_rx := (tid_rx ?s)[i := Some r1], reorder_timer := reorder_timer ?s \<or> armed\<rparr>"
      by (simp add: st1_def arm_timer_def set_tid_def)
    have fl: "flow r frames r1 f1" by (rule reorder_release_flow [OF rel])
    have "buf_len_ok r"
      using Cons.prems(2) slots_nth [OF i Some] by (simp add: sta_rx_ok_def)
    then have "buf_len_ok r1"
      using fl unfolding flow_def buf_len_ok_def by argo
    then have ok1: "sta_rx_ok (ri_sta st1 p)"
      using sta_rx_ok_update [OF Cons.prems(2), of "Some r1" i] by (simp add: s1 sta_rx_ok_def)
    have rest: "release_tids now p is st1 f1 = (st', frames')"
      using Cons.prems(1) by (simp add: Some rel st1_def)
    have "sta_held (ri_sta st1 p) + held r = sta_held ?s + held r1"
      using sta_held_update [OF i, of "Some r1"] Some by (simp add: s1 sta_held_def)
    moreover have "ids f1 + held r1 = ids frames + held r" using fl by (simp add: flow_def)
    ultimately have h: "sta_held (ri_sta st1 p) + ids f1 = sta_held ?s + ids frames"
      using mset_swap [of "sta_held (ri_sta st1 p)" "held r" "sta_held ?s" "held r1" "{#}" "{#}" "{#}"
          "ids f1" "ids frames" "{#}"] by simp
    have t: "\<forall>r'. tid_rx (ri_sta st1 p) ! i = Some r' \<longrightarrow> stored_mpdu_num r' \<noteq> 0 \<longrightarrow> \<not> removed r' \<longrightarrow>
        reorder_timer (ri_sta st1 p)"
      using reorder_release_timer [OF rel] i by (simp add: s1)
    have o: "\<forall>q. q \<noteq> p \<longrightarrow> ri_sta st1 q = ri_sta st q" "ri_pool st1 = ri_pool st" "ri_ring st1 = ri_ring st"
      by (simp_all add: st1_def arm_timer_def set_tid_def)
    have "set is \<subseteq> {..<RTW_MAX_TID_NUM}" using Cons.prems(3) by simp
    note ih1 = Cons.IH [OF rest ok1 this]
    have keep: "j \<notin> set (i # is) \<Longrightarrow> tid_rx (ri_sta st' p) ! j = tid_rx ?s ! j" for j
      using ih1 by (simp add: s1)
    have mono: "reorder_timer (ri_sta st1 p) \<Longrightarrow> reorder_timer (ri_sta st' p)"
      using ih1 by blast
    have tm: "reorder_timer (ri_sta st' p)"
      if "j \<in> set (i # is)" "tid_rx (ri_sta st' p) ! j = Some r'" "stored_mpdu_num r' \<noteq> 0" "\<not> removed r'" for j r'
    proof (cases "j \<in> set is")
      case True
      then show ?thesis using ih1 that by blast
    next
      case False
      then have "j = i" "tid_rx (ri_sta st1 p) ! i = Some r'" using that ih1 by auto
      then show ?thesis using t that mono by blast
    qed
    have "reorder_timer ?s \<Longrightarrow> reorder_timer (ri_sta st' p)"
      using mono by (simp add: s1)
    then show ?thesis
      using keep tm ih1 o h by metis
  qed
qed simp

lemma release_all_tids:
  assumes "release_tids now p [0..<RTW_MAX_TID_NUM] st [] = (st', frames)" and "sta_rx_ok (ri_sta st p)"
  shows "sta_rx_ok (ri_sta st' p)" "ri_pool st' = ri_pool st" "ri_ring st' = ri_ring st"
    "\<forall>q. q \<noteq> p \<longrightarrow> ri_sta st' q = ri_sta st q"
    "sta_held (ri_sta st' p) + ids frames = sta_held (ri_sta st p)"
    "timer_ok (ri_sta st' p)"
proof -
  have "set [0..<RTW_MAX_TID_NUM] \<subseteq> {..<RTW_MAX_TID_NUM}" by auto
  note spec = release_tids_spec [OF assms this]
  show "sta_rx_ok (ri_sta st' p)" "ri_pool st' = ri_pool st" "ri_ring st' = ri_ring st"
    "\<forall>q. q \<noteq> p \<longrightarrow> ri_sta st' q = ri_sta st q"
    "sta_held (ri_sta st' p) + ids frames = sta_held (ri_sta st p)"
    using spec by (auto simp: ids_def)
  show "timer_ok (ri_sta st' p)"
    unfolding timer_ok_def
  proof (intro ballI impI)
    fix r assume "r \<in> set (slots (tid_rx (ri_sta st' p)))" and c: "stored_mpdu_num r \<noteq> 0 \<and> \<not> removed r"
    then have "Some r \<in> set (tid_rx (ri_sta st' p))" by (simp add: set_slots)
    then obtain i where "i < length (tid_rx (ri_sta st' p))" "tid_rx (ri_sta st' p) ! i = Some r"
      by (auto simp: in_set_conv_nth)
    then show "reorder_timer (ri_sta st' p)"
      using spec c by (simp add: sta_rx_ok_def)
  qed
qed

definition ring_ids :: "rx_info \<Rightarrow> nat multiset" where
  "ring_ids st = ids (ring_contents (ri_ring st))"

lemma mset_take_drop: "mset (take k xs) + mset (drop k xs) = mset xs"
  by (metis append_take_drop_id mset_append)

lemma same_sessions_keep:
  assumes "same_sessions st st'"
  shows "sta_held (ri_sta st' p) = sta_held (ri_sta st p)" "sta_rx_ok (ri_sta st' p) = sta_rx_ok (ri_sta st p)"
    "timer_ok (ri_sta st' p) = timer_ok (ri_sta st p)"
  using assms by (simp_all add: same_sessions_def sta_held_def sta_rx_ok_def timer_ok_def)

lemma indic_sel [simp]:
  "ri_sta (phl_indic_new_rxpkt st) = ri_sta st" "ri_ring (phl_indic_new_rxpkt st) = ri_ring st"
  "ri_pool (phl_indic_new_rxpkt st) = ri_pool st"
  by (simp_all add: phl_indic_new_rxpkt_def)

lemma handle_frame_list_conserves:
  assumes "ring_wf (ri_ring st)" and "st' = phl_handle_rx_frame_list env frames st"
  shows "ring_wf (ri_ring st')" "same_sessions st st'"
    "pool_ids st' + ring_ids st' = pool_ids st + ring_ids st + ids frames"
proof -
  note spec = deliver_frames_spec [OF assms(1), of env frames]
  show "ring_wf (ri_ring st')" "same_sessions st st'"
    using spec by (simp_all add: assms(2) phl_handle_rx_frame_list_def same_sessions_def)
  show "pool_ids st' + ring_ids st' = pool_ids st + ring_ids st + ids frames"
    using spec mset_take_drop [of _ "map pkt_id frames"]
    by (simp add: assms(2) phl_handle_rx_frame_list_def pool_ids_def ring_ids_def ids_def Let_def
        take_map drop_map ac_simps)
qed

subsection \<open>Tearing the sessions of a station down\<close>

lemma set_tid_sel [simp]:
  "ri_sta (set_tid p i r st) p = (ri_sta st p)\<lparr>tid_rx := (tid_rx (ri_sta st p))[i := r]\<rparr>"
  "q \<noteq> p \<Longrightarrow> ri_sta (set_tid p i r st) q = ri_sta st q"
  "ri_ring (set_tid p i r st) = ri_ring st"
  by (simp_all add: set_tid_def)

lemma free_session:
  assumes ok: "sta_rx_ok (ri_sta st p)" and i: "i < RTW_MAX_TID_NUM"
    and r: "tid_rx (ri_sta st p) ! i = Some r"
    and st': "st' = set_tid p i y (phl_tid_ampdu_rx_free (Some r) st)"
  shows "pool_ids st' + sta_held (ri_sta st' p) =
           pool_ids st + sta_held (ri_sta st p) + (case y of None \<Rightarrow> {#} | Some r1 \<Rightarrow> held r1) \<and>
         ri_ring st' = ri_ring st \<and> (\<forall>q. q \<noteq> p \<longrightarrow> ri_sta st' q = ri_sta st q)"
proof -
  have l: "i < length (tid_rx (ri_sta st p))" using ok i by (simp add: sta_rx_ok_def)
  have free: "phl_tid_ampdu_rx_free (Some r) st = fold recycle_rx_pkt (slots (reorder_buf r)) st"
    using ok slots_nth [OF l r] by (intro ampdu_free_fold) (simp add: sta_rx_ok_def)
  have "sta_held (ri_sta st' p) + held r = sta_held (ri_sta st p) + (case y of None \<Rightarrow> {#} | Some r1 \<Rightarrow> held r1)"
    using sta_held_update [OF l, of y] r by (simp add: st' free)
  then show ?thesis
    by (auto simp: st' free ac_simps)
qed

lemma free_tids_spec:
  assumes "sta_rx_ok (ri_sta st p)" and "set is \<subseteq> {..<RTW_MAX_TID_NUM}"
    and "st' = fold (\<lambda>i st. case tid_rx (ri_sta st p) ! i of
            None \<Rightarrow> st | Some r \<Rightarrow> set_tid p i None (phl_tid_ampdu_rx_free (Some r) st)) is st"
  shows "sta_rx_ok (ri_sta st' p) \<and> pool_ids st' + sta_held (ri_sta st' p) = pool_ids st + sta_held (ri_sta st p) \<and>
         ri_ring st' = ri_ring st \<and> (\<forall>q. q \<noteq> p \<longrightarrow> ri_sta st' q = ri_sta st q) \<and>
         reorder_timer (ri_sta st' p) = reorder_timer (ri_sta st p) \<and>
         (\<forall>i. i \<in> set is \<or> tid_rx (ri_sta st p) ! i = None \<longrightarrow> tid_rx (ri_sta st' p) ! i = None)"
  using assms
proof (induction "is" arbitrary: st)
  case (Cons i "is")
  show ?case
  proof (cases "tid_rx (ri_sta st p) ! i")
    case None
    then show ?thesis using Cons.IH [OF Cons.prems(1)] Cons.prems by auto
  next
    case (Some r)
    define st1 where "st1 = set_tid p i None (phl_tid_ampdu_rx_free (Some r) st)"
    have i: "i < RTW_MAX_TID_NUM" using Cons.prems(2) by simp
    have l: "i < length (tid_rx (ri_sta st p))" using Cons.prems(1) i by (simp add: sta_rx_ok_def)
    have "phl_tid_ampdu_rx_free (Some r) st = fold recycle_rx_pkt (slots (reorder_buf r)) st"
      using Cons.prems(1) slots_nth [OF l Some] by (intro ampdu_free_fold) (simp add: sta_rx_ok_def)
    then have s1: "ri_sta st1 p = (ri_sta st p)\<lparr>tid_rx := (tid_rx (ri_sta st p))[i := None]\<rparr>"
      by (simp add: st1_def)
    have ok1: "sta_rx_ok (ri_sta st1 p)"
      using sta_rx_ok_update [OF Cons.prems(1), of None i] by (simp add: s1)
    have none: "j = i \<or> tid_rx (ri_sta st p) ! j = None \<Longrightarrow> tid_rx (ri_sta st1 p) ! j = None" for j
      using l by (cases "j = i") (auto simp: s1)
    note one = free_session [OF Cons.prems(1) i Some st1_def]
    have "st' = fold (\<lambda>i st. case tid_rx (ri_sta st p) ! i of
            None \<Rightarrow> st | Some r \<Rightarrow> set_tid p i None (phl_tid_ampdu_rx_free (Some r) st)) is st1"
      using Cons.prems(3) by (simp add: Some st1_def)
    from Cons.IH [OF ok1 _ this] Cons.prems(2) one none show ?thesis
      by (simp add: s1)
  qed
qed simp

lemma free_rx_reorder_spec:
  assumes ok: "sta_rx_ok (ri_sta st p)"
  shows "tid_rx (ri_sta (phl_free_rx_reorder p st) p) = replicate RTW_MAX_TID_NUM None \<and>
         \<not> reorder_timer (ri_sta (phl_free_rx_reorder p st) p) \<and>
         pool_ids (phl_free_rx_reorder p st) = pool_ids st + sta_held (ri_sta st p) \<and>
         ri_ring (phl_free_rx_reorder p st) = ri_ring st \<and>
         (\<forall>q. q \<noteq> p \<longrightarrow> ri_sta (phl_free_rx_reorder p st) q = ri_sta st q)"
proof -
  define st0 where "st0 = phl_cancel_rx_reorder_timer p (upd_sta p mark_removed st)"
  define st' where "st' = phl_free_rx_reorder p st"
  have sl: "slots (map (map_option (\<lambda>r. r\<lparr>removed := True\<rparr>)) xs) = map (\<lambda>r. r\<lparr>removed := True\<rparr>) (slots xs)" for xs
    by (induction xs) (auto split: option.split)
  have s0: "tid_rx (ri_sta st0 p) = map (map_option (\<lambda>r. r\<lparr>removed := True\<rparr>)) (tid_rx (ri_sta st p))"
    "\<not> reorder_timer (ri_sta st0 p)" "pool_ids st0 = pool_ids st" "ri_ring st0 = ri_ring st"
    "\<forall>q. q \<noteq> p \<longrightarrow> ri_sta st0 q = ri_sta st q"
    by (simp_all add: st0_def phl_cancel_rx_reorder_timer_def mark_removed_def)
  have ok0: "sta_rx_ok (ri_sta st0 p)" and held0: "sta_held (ri_sta st0 p) = sta_held (ri_sta st p)"
    using ok by (auto simp: sta_rx_ok_def sta_held_def s0 sl buf_len_ok_def comp_def)
  have "set [0..<RTW_MAX_TID_NUM] \<subseteq> {..<RTW_MAX_TID_NUM}" by auto
  note spec = free_tids_spec [OF ok0 this st'_def [unfolded phl_free_rx_reorder_def, folded st0_def]]
  have "tid_rx (ri_sta st' p) = replicate RTW_MAX_TID_NUM None"
    using spec by (intro nth_equalityI) (simp_all add: sta_rx_ok_def)
  moreover from this have "sta_held (ri_sta st' p) = {#}"
    by (simp add: sta_held_def)
  ultimately show ?thesis
    unfolding st'_def [symmetric] using spec s0 held0 by simp
qed

subsection \<open>Properties\<close>

text \<open>
  C11. Reordering a received packet loses no packet and duplicates none: with the structures of the
  free pool, the packets the station's sessions hold and the frames to deliver, the new packet is
  accounted for exactly once, on every path (sniffer, short frame, multicast, fragment, unknown
  station, duplicate, stored, released). No other station and not the ring change, and a station
  whose stored frames had a pending timer still has one.
\<close>

theorem rx_reorder_conserves:
  assumes "phl_rx_reorder env t1 t2 pkt frames st = (pstatus, st', frames')"
    and ok: "\<And>p. sta_rx_ok (ri_sta st p)"
  shows "\<exists>p. pool_ids st' + sta_held (ri_sta st' p) + ids frames' =
               pool_ids st + sta_held (ri_sta st p) + ids frames + {#pkt_id pkt#} \<and>
             (\<forall>q. q \<noteq> p \<longrightarrow> ri_sta st' q = ri_sta st q) \<and> sta_rx_ok (ri_sta st' p) \<and>
             ri_ring st' = ri_ring st \<and> (timer_ok (ri_sta st p) \<longrightarrow> timer_ok (ri_sta st' p))"
  using assms(1)
proof (cases rule: rx_reorder_split)
  case (dont pkt')
  then show ?thesis using ok by (auto simp: ids_def)
next
  case drop
  then show ?thesis using ok by (auto simp: pool_ids_def)
next
  case (sta p pkt')
  from rx_reorder_tid_ok [OF sta(4)] ok show ?thesis
    by (intro exI [of _ p]) (simp add: sta(2))
qed

text \<open>
  Delivering a list of frames: they enter the ring in order, after what it held, up to its
  4095 places; the ones that do not fit go back to the pool in order; the receive event is raised
  even then; sessions and timers are left alone.
\<close>

theorem rx_frame_list_delivery:
  assumes "ring_wf (ri_ring st)" and "st' = phl_handle_rx_frame_list env frames st"
    and "k = 4095 - length (ring_contents (ri_ring st))"
  shows "map pkt_id (ring_contents (ri_ring st')) =
           map pkt_id (ring_contents (ri_ring st)) @ map pkt_id (take k frames) \<and>
         idle (ri_pool st') = idle (ri_pool st) @ map pkt_id (drop k frames) \<and>
         ri_evt_bitmap st' AND RTW_PHL_EVT_RX \<noteq> 0 \<and> ring_wf (ri_ring st') \<and> same_sessions st st'"
proof -
  have "bit (ri_evt_bitmap st') 0"
    by (simp add: assms(2) phl_handle_rx_frame_list_def phl_indic_new_rxpkt_def log_effect_def
        RTW_PHL_EVT_RX_def bit_or_iff)
  then have "ri_evt_bitmap st' AND RTW_PHL_EVT_RX \<noteq> 0"
    by (simp add: RTW_PHL_EVT_RX_def and_one_eq odd_iff_mod_2_eq_one [symmetric] bit_0)
  then show ?thesis
    using deliver_frames_spec [OF assms(1), of env frames] assms(3) handle_frame_list_conserves(2) [OF assms(1,2)]
    by (simp add: assms(2) phl_handle_rx_frame_list_def Let_def)
qed

text \<open>
  C12. The reorder timer. After its callback (and after a flush) every session of the station that
  still holds frames has a pending timer, whatever the timer's state was before, so no frame can
  wait for ever; the frames that left the sessions are in the ring or, when it is full, back in
  the pool, and other stations' sessions and timers are as before.
\<close>

theorem rx_timer_expiry:
  assumes "sta_rx_ok (ri_sta st p)" and "ring_wf (ri_ring st)"
    and "st' = phl_sta_rx_reorder_timer_expired env now p st \<or> st' = rtw_phl_flush_reorder_buf env now p st"
  shows "timer_ok (ri_sta st' p) \<and> sta_rx_ok (ri_sta st' p) \<and> ring_wf (ri_ring st') \<and>
         pool_ids st' + sta_held (ri_sta st' p) + ring_ids st' = pool_ids st + sta_held (ri_sta st p) + ring_ids st \<and>
         (\<forall>q. q \<noteq> p \<longrightarrow> tid_rx (ri_sta st' q) = tid_rx (ri_sta st q) \<and>
                        reorder_timer (ri_sta st' q) = reorder_timer (ri_sta st q))"
proof -
  obtain st0 where st0: "sta_rx_ok (ri_sta st0 p)" "ri_pool st0 = ri_pool st" "ri_ring st0 = ri_ring st"
      "sta_held (ri_sta st0 p) = sta_held (ri_sta st p)" "\<forall>q. q \<noteq> p \<longrightarrow> ri_sta st0 q = ri_sta st q"
    and st': "\<exists>st1 frames. release_tids now p [0..<RTW_MAX_TID_NUM] st0 [] = (st1, frames) \<and>
      (st' = phl_handle_rx_frame_list env frames st1 \<or>
       st' = upd_sta p (\<lambda>s. s\<lparr>comp_sync := True\<rparr>) (phl_handle_rx_frame_list env frames st1))"
  proof (cases "st' = rtw_phl_flush_reorder_buf env now p st")
    case True
    then show thesis using assms(1) by (intro that [of st]) (auto simp: rtw_phl_flush_reorder_buf_def split: prod.splits)
  next
    case False
    then show thesis using assms(1,3)
      by (intro that [of "upd_sta p (\<lambda>s. s\<lparr>reorder_timer := False\<rparr>) st"])
        (auto simp: phl_sta_rx_reorder_timer_expired_def sta_rx_ok_def sta_held_def split: prod.splits)
  qed
  obtain st1 frames st2 where rel: "release_tids now p [0..<RTW_MAX_TID_NUM] st0 [] = (st1, frames)"
    and st2: "st2 = phl_handle_rx_frame_list env frames st1"
    and st'': "st' = st2 \<or> st' = upd_sta p (\<lambda>s. s\<lparr>comp_sync := True\<rparr>) st2"
    using st' by blast
  note rl = release_all_tids [OF rel st0(1)]
  have wf1: "ring_wf (ri_ring st1)" using rl(3) st0(3) assms(2) by simp
  note dl = handle_frame_list_conserves [OF wf1 st2]
  note keep = same_sessions_keep [OF dl(2), of p]
  have s: "tid_rx (ri_sta st' q) = tid_rx (ri_sta st2 q)" "reorder_timer (ri_sta st' q) = reorder_timer (ri_sta st2 q)"
    "pool_ids st' = pool_ids st2" "ri_ring st' = ri_ring st2" for q
    using st'' by (auto split: if_splits)
  have "pool_ids st2 + ring_ids st2 + sta_held (ri_sta st2 p) =
      pool_ids st + ring_ids st + (sta_held (ri_sta st1 p) + ids frames)"
    using dl(3) keep(1) rl(2,3) st0(2,3) by (simp add: pool_ids_def ring_ids_def ac_simps)
  then have "pool_ids st' + sta_held (ri_sta st' p) + ring_ids st' = pool_ids st + sta_held (ri_sta st p) + ring_ids st"
    unfolding rl(5) using st0(4) s by (simp add: sta_held_def ring_ids_def ac_simps)
  moreover have "timer_ok (ri_sta st' p)" "sta_rx_ok (ri_sta st' p)"
    using keep(2,3) rl(1,6) s by (simp_all add: timer_ok_def sta_rx_ok_def)
  moreover have "\<forall>q. q \<noteq> p \<longrightarrow> tid_rx (ri_sta st' q) = tid_rx (ri_sta st q) \<and>
      reorder_timer (ri_sta st' q) = reorder_timer (ri_sta st q)"
    using s dl(2) rl(4) st0(5) by (simp add: same_sessions_def)
  ultimately show ?thesis using s(4) dl(1) by simp
qed

text \<open>
  C28. Tearing down: \<^verbatim>\<open>phl_free_rx_reorder\<close> leaves the station with no session and no pending timer,
  every packet its sessions held is back in the pool exactly once, and nothing else changes.
\<close>

theorem rx_free_reorder_returns_all:
  assumes "sta_rx_ok (ri_sta st p)" and "st' = phl_free_rx_reorder p st"
  shows "tid_rx (ri_sta st' p) = replicate RTW_MAX_TID_NUM None \<and> \<not> reorder_timer (ri_sta st' p) \<and>
         pool_ids st' = pool_ids st + sta_held (ri_sta st p) \<and>
         ri_ring st' = ri_ring st \<and> (\<forall>q. q \<noteq> p \<longrightarrow> ri_sta st' q = ri_sta st q)"
  using free_rx_reorder_spec [OF assms(1)] by (simp add: assms(2))

text \<open>
  Starting a session: on success the TID has a fresh session that satisfies the reorder
  invariant and starts at the given sequence number, the packets of a session it replaces are back
  in the pool, and the hardware session was started; on every failure no session and no packet
  moves.
\<close>

theorem rx_ba_session_start:
  assumes "rtw_phl_start_rx_ba_session mem p s ba_policy t n st = (pstatus, st')"
    and ok: "sta_rx_ok (ri_sta st p)" and s: "unat s < 4096"
    and n: "1 < unat n" "unat n < 2048" "unat n dvd 4096"
  shows "if pstatus = RTW_PHL_STATUS_SUCCESS
         then (\<exists>r. tid_rx (ri_sta st' p) = (tid_rx (ri_sta st p))[unat t := Some r] \<and> unat t < RTW_MAX_TID_NUM \<and>
                   reorder_inv r \<and> head_seq_num r = s \<and> held r = {#} \<and> \<not> removed r) \<and>
              pool_ids st' + sta_held (ri_sta st' p) = pool_ids st + sta_held (ri_sta st p) \<and>
              Hal_start_ba_session p t n \<in> set (ri_log st')
         else ri_sta st' = ri_sta st \<and> ri_pool st' = ri_pool st"
proof (cases "pstatus = RTW_PHL_STATUS_SUCCESS")
  case False
  then show ?thesis
    using assms(1) by (auto simp: rtw_phl_start_rx_ba_session_def Let_def split: if_splits option.splits)
next
  case True
  define st2 where "st2 = log_effect (Hal_start_ba_session p t n)
      (if tid_rx (ri_sta st p) ! unat t \<noteq> None then log_effect (Hal_stop_ba_session p t) st else st)"
  have "n \<noteq> 0" using n by auto
  then obtain r where t: "unat t < RTW_MAX_TID_NUM" and r: "phl_tid_ampdu_rx_alloc mem s t n = Some r"
    and st': "st' = set_tid p (unat t) (Some r) (phl_tid_ampdu_rx_free (tid_rx (ri_sta st2 p) ! unat t) st2)"
    using assms(1) True unfolding rtw_phl_start_rx_ba_session_def Let_def st2_def [symmetric]
    by (auto split: if_splits option.splits)
  have s2: "ri_sta st2 = ri_sta st" "pool_ids st2 = pool_ids st" "Hal_start_ba_session p t n \<in> set (ri_log st2)"
    by (simp_all add: st2_def pool_ids_def log_effect_def)
  have "reorder_inv r \<and> head_seq_num r = s \<and> held r = {#} \<and> \<not> removed r"
    using r s n by (auto simp: phl_tid_ampdu_rx_alloc_def reorder_inv_def rinv_def reorder_wf_def window_empty
        ids_def split: prod.splits if_splits)
  moreover have l: "unat t < length (tid_rx (ri_sta st p))" using ok t by (simp add: sta_rx_ok_def)
  have log: "ri_log (fold recycle_rx_pkt ps st2) = ri_log st2" for ps
    by (induction ps arbitrary: st2) (simp_all add: recycle_rx_pkt_def phl_recycle_rx_buf_def)
  have sl: "ri_log (set_tid p i y x) = ri_log x" for i y x
    by (simp add: set_tid_def upd_sta_def)
  have "pool_ids st' + sta_held (ri_sta st' p) = pool_ids st + sta_held (ri_sta st p) \<and>
      ri_log st' = ri_log st2 \<and> tid_rx (ri_sta st' p) = (tid_rx (ri_sta st p))[unat t := Some r]"
  proof (cases "tid_rx (ri_sta st p) ! unat t")
    case None
    then show ?thesis
      using st' sta_held_update [OF l, of "Some r"] calculation
      by (simp add: s2 phl_tid_ampdu_rx_free_def sl)
  next
    case (Some r0)
    have free: "phl_tid_ampdu_rx_free (Some r0) st2 = fold recycle_rx_pkt (slots (reorder_buf r0)) st2"
      using ok slots_nth [OF l Some] by (intro ampdu_free_fold) (simp add: sta_rx_ok_def)
    have "ri_log st' = ri_log st2" "tid_rx (ri_sta st' p) = (tid_rx (ri_sta st p))[unat t := Some r]"
      using st' by (simp_all add: s2 Some free sl log)
    then show ?thesis
      using free_session [of st2 p "unat t" r0 st' "Some r"] st' ok t calculation by (simp add: s2 Some)
  qed
  ultimately show ?thesis using True t s2(3) by auto
qed

subsection \<open>A state to run the properties on\<close>

definition rx_sta0 :: rx_sta where
  "rx_sta0 = \<lparr>tid_rx = Some session1 # replicate 15 None, reorder_timer = True, comp_sync = False,
     ps_sta = False, rs_macid = 4, rs_stats = stats0\<rparr>"

definition rx_info0 :: rx_info where
  "rx_info0 = \<lparr>ri_mc = mc2y, ri_sta = (\<lambda>_. rx_sta0),
     ri_ring = \<lparr>core_idx = 0, phl_idx = 0, entry = (\<lambda>_. None)\<rparr>,
     ri_pool = \<lparr>idle = [], idle_cnt = 0\<rparr>, ri_stats = stats0, ri_evt_bitmap = 0, ri_log = []\<rparr>"

definition rx_env0 :: rx_env where
  "rx_env0 = \<lparr>cfg_sniffer = False, cfg_append_fcs = True, cfg_mp_mode = False, cfg_ap_ps = True,
     role_of_sta = (\<lambda>_. Some 0), rlink_of_sta = (\<lambda>_. True), sta_by_addr = (\<lambda>_. None),
     role_is_ap = (\<lambda>_. True), is_self_sta = (\<lambda>_. False)\<rparr>"

definition rx_pkt0 :: rtw_phl_rx_pkt where
  "rx_pkt0 = (pk 3 4094)\<lparr>mdata := (mdata (pk 3 4094))\<lparr>macid := 4\<rparr>\<rparr>"

lemma rx_info0_ok:
  "sta_rx_ok (ri_sta rx_info0 p)" "ring_wf (ri_ring rx_info0)" "ring_contents (ri_ring rx_info0) = []"
  "pool_ids rx_info0 = {#}" "sta_held (ri_sta rx_info0 p) = {#7#}" "ring_ids rx_info0 = {#}"
  "idle (ri_pool rx_info0) = []"
  by (simp_all add: rx_info0_def rx_sta0_def sta_rx_ok_def RTW_MAX_TID_NUM_def buf_len_ok_def session1_def
      session0_def ring_wf_def ring_contents_def ring_avail_def pool_ids_def sta_held_def ids_def ring_ids_def)

theorem rx_reorder_conserves_witness:
  "\<exists>pstatus st' frames' p. phl_rx_reorder rx_env0 30 30 rx_pkt0 [] rx_info0 = (pstatus, st', frames') \<and>
     pool_ids st' + sta_held (ri_sta st' p) + ids frames' = {#3, 7#}"
proof -
  obtain pstatus st' frames' where
    eq: "phl_rx_reorder rx_env0 30 30 rx_pkt0 [] rx_info0 = (pstatus, st', frames')"
    by (metis prod_cases3)
  from rx_reorder_conserves [OF eq rx_info0_ok(1)] obtain p where
    "pool_ids st' + sta_held (ri_sta st' p) + ids frames' = {#3, 7#}"
    by (auto simp: rx_info0_ok rx_pkt0_def ids_def)
  then show ?thesis using eq by blast
qed

theorem rx_frame_list_delivery_witness:
  "map pkt_id (ring_contents (ri_ring (phl_handle_rx_frame_list rx_env0 [rx_pkt0, pk 9 5] rx_info0))) = [3, 9]"
  using rx_frame_list_delivery [OF rx_info0_ok(2) refl refl, of rx_env0 "[rx_pkt0, pk 9 5]"]
  by (simp add: rx_info0_ok(3) rx_pkt0_def)

theorem rx_timer_expiry_witness:
  "timer_ok (ri_sta (phl_sta_rx_reorder_timer_expired rx_env0 500 77 rx_info0) 77)"
  using rx_timer_expiry [OF rx_info0_ok(1,2), of "phl_sta_rx_reorder_timer_expired rx_env0 500 77 rx_info0" rx_env0 500 77]
  by simp

theorem rx_free_reorder_returns_all_witness:
  "pool_ids (phl_free_rx_reorder 77 rx_info0) = {#7#}"
  using rx_free_reorder_returns_all [OF rx_info0_ok(1) refl, of 77] by (simp add: rx_info0_ok)

theorem rx_ba_session_start_witness:
  "\<exists>r. tid_rx (ri_sta (snd (rtw_phl_start_rx_ba_session (True, True, True) 77 100 0 0 64 rx_info0)) 77) ! 0 = Some r \<and>
     reorder_inv r \<and> head_seq_num r = 100"
proof -
  obtain pstatus st' where
    eq: "rtw_phl_start_rx_ba_session (True, True, True) 77 100 0 0 64 rx_info0 = (pstatus, st')"
    by fastforce
  then have "pstatus = RTW_PHL_STATUS_SUCCESS"
    by (auto simp: rtw_phl_start_rx_ba_session_def phl_tid_ampdu_rx_alloc_def RTW_MAX_TID_NUM_def Let_def)
  moreover have "0 < length (tid_rx (ri_sta rx_info0 77))"
    by (simp add: rx_info0_def rx_sta0_def)
  ultimately show ?thesis
    using rx_ba_session_start [OF eq rx_info0_ok(1)] by (auto simp: eq)
qed

end
