(* ===== verification/Phl_Msg.thy ===== *)
theory Phl_Msg
  imports Phl_Prelude
begin

section \<open>Messages, module ids and status flags (phl/phl_def.h, phl/phl_util.h)\<close>

text \<open>
  What the message hub and the command dispatcher share: the message structure with the fields
  packed in its id, the module ids, the return codes of module handlers, and the flag macros, with
  the rules by which flags of one status word do not interfere.
\<close>

subsection \<open>Status flags\<close>

definition TEST_STATUS_FLAG :: "'a::len word \<Rightarrow> 'a word \<Rightarrow> bool" where
  "TEST_STATUS_FLAG st flags \<longleftrightarrow> st AND flags = flags"

definition SET_STATUS_FLAG :: "'a::len word \<Rightarrow> 'a word \<Rightarrow> 'a word" where
  "SET_STATUS_FLAG st flags = st OR flags"

definition CLEAR_STATUS_FLAG :: "'a::len word \<Rightarrow> 'a word \<Rightarrow> 'a word" where
  "CLEAR_STATUS_FLAG st flags = st AND NOT flags"

lemma test_zero [simp]: "TEST_STATUS_FLAG 0 f \<longleftrightarrow> f = 0"
  by (auto simp: TEST_STATUS_FLAG_def)

lemma test_set_same [simp]: "TEST_STATUS_FLAG (SET_STATUS_FLAG st f) f"
  by (auto simp: TEST_STATUS_FLAG_def SET_STATUS_FLAG_def bit_eq_iff bit_simps)

lemma test_set_other [simp]:
  "f AND g = 0 \<Longrightarrow> TEST_STATUS_FLAG (SET_STATUS_FLAG st f) g = TEST_STATUS_FLAG st g"
  by (auto simp: TEST_STATUS_FLAG_def SET_STATUS_FLAG_def bit_eq_iff bit_simps)

lemma test_clear_same [simp]: "f \<noteq> 0 \<Longrightarrow> \<not> TEST_STATUS_FLAG (CLEAR_STATUS_FLAG st f) f"
  by (auto simp: TEST_STATUS_FLAG_def CLEAR_STATUS_FLAG_def bit_eq_iff bit_simps)

lemma test_clear_other [simp]:
  "f AND g = 0 \<Longrightarrow> TEST_STATUS_FLAG (CLEAR_STATUS_FLAG st f) g = TEST_STATUS_FLAG st g"
  by (auto simp: TEST_STATUS_FLAG_def CLEAR_STATUS_FLAG_def bit_eq_iff bit_simps)

lemma test_nonzero: "f \<noteq> 0 \<Longrightarrow> TEST_STATUS_FLAG st f \<Longrightarrow> st \<noteq> 0"
  by (auto simp: TEST_STATUS_FLAG_def)

subsection \<open>Messages\<close>

text \<open>Buffers, \<^verbatim>\<open>priv\<close> pointers and function pointers are addresses; \<open>None\<close> is NULL.\<close>

record phl_msg =
  msg_id :: u32
  band_idx :: nat
  inbuf :: nat
  outbuf :: nat
  inlen :: u32
  outlen :: u32
  rsvd :: "nat list"

definition phl_msg0 :: phl_msg where
  "phl_msg0 = \<lparr>msg_id = 0, band_idx = 0, inbuf = 0, outbuf = 0, inlen = 0, outlen = 0, rsvd = [0, 0, 0, 0]\<rparr>"

record msg_completion_routine =
  c_priv :: nat
  c_fun :: "nat option"

text \<open>The id packs indicator bits (byte 3), the module (byte 2) and the event (bytes 0 and 1).\<close>

definition MSG_MDL_ID_FIELD :: "u32 \<Rightarrow> u8" where
  "MSG_MDL_ID_FIELD i = ucast (drop_bit 16 i AND 0xFF)"

definition MSG_EVT_ID_FIELD :: "u32 \<Rightarrow> u16" where
  "MSG_EVT_ID_FIELD i = ucast (i AND 0xFFFF)"

definition MSG_INDC_FIELD :: "u32 \<Rightarrow> u8" where
  "MSG_INDC_FIELD i = ucast (drop_bit 24 i AND 0xFF)"

definition SET_MSG_MDL_ID_FIELD :: "u32 \<Rightarrow> u8 \<Rightarrow> u32" where
  "SET_MSG_MDL_ID_FIELD i m = (i AND 0xFF00FFFF) OR push_bit 16 (ucast m)"

definition SET_MSG_EVT_ID_FIELD :: "u32 \<Rightarrow> u16 \<Rightarrow> u32" where
  "SET_MSG_EVT_ID_FIELD i e = (i AND 0xFFFF0000) OR ucast e"

definition SET_MSG_INDC_FIELD :: "u32 \<Rightarrow> u8 \<Rightarrow> u32" where
  "SET_MSG_INDC_FIELD i k = (i AND NOT (push_bit 24 (ucast k))) OR push_bit 24 (ucast k)"

definition CLEAR_MSG_INDC_FIELD :: "u32 \<Rightarrow> u8 \<Rightarrow> u32" where
  "CLEAR_MSG_INDC_FIELD i k = i AND NOT (push_bit 24 (ucast k))"

definition MSG_INDC_PRE_PHASE :: u8 where "MSG_INDC_PRE_PHASE = 1"
definition MSG_INDC_FAIL :: u8 where "MSG_INDC_FAIL = 2"
definition MSG_INDC_CANCEL :: u8 where "MSG_INDC_CANCEL = 4"
definition MSG_INDC_CANNOT_IO :: u8 where "MSG_INDC_CANNOT_IO = 8"
definition MSG_INDC_CLR_SNDR :: u8 where "MSG_INDC_CLR_SNDR = 16"

text \<open>The indicator bits leave module and event alone.\<close>

lemma mask8_u32: "(0xFF :: u32) = mask 8" and mask16_u32: "(0xFFFF :: u32) = mask 16"
  by (simp_all add: mask_eq_exp_minus_1)

lemma mdl_id_indc [simp]:
  "MSG_MDL_ID_FIELD (SET_MSG_INDC_FIELD i k) = MSG_MDL_ID_FIELD i"
  "MSG_MDL_ID_FIELD (CLEAR_MSG_INDC_FIELD i k) = MSG_MDL_ID_FIELD i"
  by (rule bit_word_eqI; auto simp: MSG_MDL_ID_FIELD_def SET_MSG_INDC_FIELD_def
      CLEAR_MSG_INDC_FIELD_def bit_simps mask8_u32)+

lemma evt_id_indc [simp]:
  "MSG_EVT_ID_FIELD (SET_MSG_INDC_FIELD i k) = MSG_EVT_ID_FIELD i"
  "MSG_EVT_ID_FIELD (CLEAR_MSG_INDC_FIELD i k) = MSG_EVT_ID_FIELD i"
  by (rule bit_word_eqI; auto simp: MSG_EVT_ID_FIELD_def SET_MSG_INDC_FIELD_def
      CLEAR_MSG_INDC_FIELD_def bit_simps mask16_u32)+

lemma indc_field_set: "MSG_INDC_FIELD (SET_MSG_INDC_FIELD i k) = MSG_INDC_FIELD i OR k"
  by (rule bit_word_eqI; auto simp: MSG_INDC_FIELD_def SET_MSG_INDC_FIELD_def
      bit_simps mask8_u32)

lemma indc_field_clear: "MSG_INDC_FIELD (CLEAR_MSG_INDC_FIELD i k) = MSG_INDC_FIELD i AND NOT k"
  by (rule bit_word_eqI; auto simp: MSG_INDC_FIELD_def CLEAR_MSG_INDC_FIELD_def
      bit_simps mask8_u32)

subsection \<open>Modules\<close>

text \<open>The module ids the code refers to by name, and the return codes of module handlers.\<close>

definition PHL_MDL_PHY_MGNT :: u8 where "PHL_MDL_PHY_MGNT = 1"
definition PHL_BK_MDL_ROLE_START :: u8 where "PHL_BK_MDL_ROLE_START = 10"
definition PHL_BK_MDL_ROLE_END :: u8 where "PHL_BK_MDL_ROLE_END = 40"
definition PHL_MDL_POWER_MGNT :: u8 where "PHL_MDL_POWER_MGNT = 41"
definition PHL_BK_MDL_MDRY_END :: u8 where "PHL_BK_MDL_MDRY_END = 70"
definition PHL_BK_MDL_OPT_END :: u8 where "PHL_BK_MDL_OPT_END = 127"
definition PHL_FG_MDL_START :: u8 where "PHL_FG_MDL_START = 129"
definition PHL_MDL_ID_MAX :: u8 where "PHL_MDL_ID_MAX = 255"

definition MODL_MASK_LEN :: u8 where "MODL_MASK_LEN = 16"

datatype phl_mdl_ret_code =
  MDL_RET_SUCCESS | MDL_RET_FAIL | MDL_RET_IGNORE | MDL_RET_PENDING | MDL_RET_CANNOT_IO

end
