(* ===== verification/Phl_Msg_Hub.thy ===== *)
theory Phl_Msg_Hub
  imports Phl_Queue Phl_Macid Phl_Msg
begin

section \<open>The message hub (phl/phl_msg_hub.c)\<close>

text \<open>
  The hub forwards messages to the receivers of the PHL and core layers. A pool of 16 message
  structures is linked either in the idle queue, in the wait queue, or held by a sender or by the
  hub's thread. A structure is its index in the pool. The thread is a program counter over the
  statements of \<^verbatim>\<open>msg_hub_thread_hdl\<close> between which other threads can run; senders interleave at
  the pop of an idle structure, the push to the wait queue and the semaphore.
\<close>

subsection \<open>State\<close>

record phl_msg_ex =
  ctx :: phl_msg
  completion :: msg_completion_routine

record phl_msg_receiver_ex =
  rcv_status :: u8
  rcv_bitmap :: "u8 list"
  rcv_priv :: nat
  incoming_evt_notify :: nat

datatype hub_event = Notify nat nat nat phl_msg | Completed nat nat phl_msg

record phl_msg_hub =
  hub_status :: u32
  msg_pool :: "phl_msg_ex list"
  idle_msg_q :: "nat phl_queue"
  wait_msg_q :: "nat phl_queue"
  msg_q_sema :: nat
  recver :: "phl_msg_receiver_ex list"
  hub_log :: "hub_event list"

definition MAX_MSG_NUM :: nat where "MAX_MSG_NUM = 16"
definition MSG_RECV_MAX :: nat where "MSG_RECV_MAX = 2"

definition MSG_HUB_INIT :: u32 where "MSG_HUB_INIT = 1"
definition MSG_HUB_STARTED :: u32 where "MSG_HUB_STARTED = 2"
definition MSG_RECVER_INIT :: u8 where "MSG_RECVER_INIT = 1"
definition MSG_RECVER_CLR_CTX :: u8 where "MSG_RECVER_CLR_CTX = 2"

definition recver0 :: phl_msg_receiver_ex where
  "recver0 = \<lparr>rcv_status = 0, rcv_bitmap = replicate (unat MODL_MASK_LEN) 0, rcv_priv = 0, incoming_evt_notify = 0\<rparr>"

definition msg_ex0 :: phl_msg_ex where
  "msg_ex0 = \<lparr>ctx = phl_msg0, completion = \<lparr>c_priv = 0, c_fun = None\<rparr>\<rparr>"

subsection \<open>The queues\<close>

definition pop_front_idle_msg :: "phl_msg_hub \<Rightarrow> nat option \<times> phl_msg_hub" where
  "pop_front_idle_msg hub =
     (case pq_pop (idle_msg_q hub) First of
        (None, q) \<Rightarrow> (None, hub)
      | (Some i, q) \<Rightarrow> (Some i, hub\<lparr>idle_msg_q := q, msg_pool := (msg_pool hub)[i := msg_ex0]\<rparr>))"

definition run_completion :: "phl_msg_ex \<Rightarrow> hub_event list" where
  "run_completion ex =
     (case c_fun (completion ex) of
        None \<Rightarrow> []
      | Some f \<Rightarrow> [Completed f (c_priv (completion ex)) (ctx ex)])"

definition push_back_idle_msg :: "nat \<Rightarrow> phl_msg_hub \<Rightarrow> phl_msg_hub" where
  "push_back_idle_msg i hub =
     hub\<lparr>hub_log := hub_log hub @ run_completion (msg_pool hub ! i),
         idle_msg_q := pq_push (idle_msg_q hub) i Tail\<rparr>"

definition pop_front_wait_msg :: "phl_msg_hub \<Rightarrow> nat option \<times> phl_msg_hub" where
  "pop_front_wait_msg hub =
     (case pq_pop (wait_msg_q hub) First of (o1, q) \<Rightarrow> (o1, hub\<lparr>wait_msg_q := q\<rparr>))"

text \<open>\<^verbatim>\<open>push_back_wait_msg\<close> in its two parts: the push, and the semaphore.\<close>

definition wait_push :: "nat \<Rightarrow> phl_msg_hub \<Rightarrow> phl_msg_hub" where
  "wait_push i hub = hub\<lparr>wait_msg_q := pq_push (wait_msg_q hub) i Tail\<rparr>"

definition sema_up :: "phl_msg_hub \<Rightarrow> phl_msg_hub" where
  "sema_up hub = hub\<lparr>msg_q_sema := Suc (msg_q_sema hub)\<rparr>"

definition push_back_wait_msg :: "nat \<Rightarrow> phl_msg_hub \<Rightarrow> phl_msg_hub" where
  "push_back_wait_msg i hub = sema_up (wait_push i hub)"

subsection \<open>Forwarding\<close>

text \<open>One receiver of the loop of \<^verbatim>\<open>msg_forward\<close>: what becomes of it, and whom it notifies.\<close>

definition forward_one :: "phl_msg \<Rightarrow> nat \<Rightarrow> phl_msg_receiver_ex \<Rightarrow> phl_msg_receiver_ex \<times> hub_event list" where
  "forward_one msg i r =
     (if \<not> TEST_STATUS_FLAG (rcv_status r) MSG_RECVER_INIT
      then (if TEST_STATUS_FLAG (rcv_status r) MSG_RECVER_CLR_CTX then recver0 else r, [])
      else (r, if chk_bitmap_bit MODL_MASK_LEN (rcv_bitmap r) (MSG_MDL_ID_FIELD (msg_id msg))
               then [Notify i (incoming_evt_notify r) (rcv_priv r) msg] else []))"

definition msg_forward :: "phl_msg_ex \<Rightarrow> phl_msg_hub \<Rightarrow> phl_msg_hub" where
  "msg_forward ex hub =
     (if \<not> TEST_STATUS_FLAG (hub_status hub) MSG_HUB_STARTED then hub
      else fold (\<lambda>i hub. case forward_one (ctx ex) i (recver hub ! i) of (r, evs) \<Rightarrow>
                   hub\<lparr>recver := (recver hub)[i := r], hub_log := hub_log hub @ evs\<rparr>)
             [0..<MSG_RECV_MAX] hub)"

subsection \<open>Sending\<close>

text \<open>
  The first part of \<^verbatim>\<open>phl_msg_hub_send\<close>, after the check that the hub is started: the idle structure
  it takes, filled, or nothing. The \<open>attr\<close> argument is the completion routine of the attribute,
  \<open>None\<close> when there is no attribute.
\<close>

definition send_take ::
  "msg_completion_routine option \<Rightarrow> phl_msg \<Rightarrow> phl_msg_hub \<Rightarrow> nat option \<times> phl_msg_hub" where
  "send_take attr msg hub =
     (case pop_front_idle_msg hub of
        (None, hub1) \<Rightarrow> (None, hub1)
      | (Some i, hub1) \<Rightarrow>
          let ex = (msg_pool hub1 ! i)\<lparr>ctx := msg\<rparr>;
              ex1 = (case attr of
                       None \<Rightarrow> ex
                     | Some c \<Rightarrow> if c_fun c \<noteq> None then ex\<lparr>completion := c\<rparr> else ex)
          in (Some i, hub1\<lparr>msg_pool := (msg_pool hub1)[i := ex1]\<rparr>))"

definition phl_msg_hub_send ::
  "msg_completion_routine option \<Rightarrow> phl_msg option \<Rightarrow> phl_msg_hub \<Rightarrow> rtw_phl_status \<times> phl_msg_hub" where
  "phl_msg_hub_send attr mo hub =
     (case mo of
        None \<Rightarrow> (RTW_PHL_STATUS_FAILURE, hub)
      | Some msg \<Rightarrow>
          if \<not> TEST_STATUS_FLAG (hub_status hub) MSG_HUB_STARTED then (RTW_PHL_STATUS_FAILURE, hub)
          else case send_take attr msg hub of
                 (None, hub1) \<Rightarrow> (RTW_PHL_STATUS_RESOURCE, hub1)
               | (Some i, hub1) \<Rightarrow> (RTW_PHL_STATUS_SUCCESS, push_back_wait_msg i hub1))"

subsection \<open>Receivers\<close>

definition phl_msg_hub_register_recver ::
  "(nat \<times> nat) option \<Rightarrow> nat \<Rightarrow> phl_msg_hub \<Rightarrow> rtw_phl_status \<times> phl_msg_hub" where
  "phl_msg_hub_register_recver ctx_arg layer hub =
     (if \<not> TEST_STATUS_FLAG (hub_status hub) MSG_HUB_INIT \<or> layer \<ge> MSG_RECV_MAX \<or> ctx_arg = None
      then (RTW_PHL_STATUS_FAILURE, hub)
      else
        let r = recver hub ! layer
        in if TEST_STATUS_FLAG (rcv_status r) MSG_RECVER_INIT then (RTW_PHL_STATUS_FAILURE, hub)
           else (RTW_PHL_STATUS_SUCCESS,
                 hub\<lparr>recver := (recver hub)[layer :=
                   r\<lparr>rcv_priv := fst (the ctx_arg), incoming_evt_notify := snd (the ctx_arg),
                     rcv_bitmap := replicate (unat MODL_MASK_LEN) 0,
                     rcv_status := SET_STATUS_FLAG (rcv_status r) MSG_RECVER_INIT\<rparr>]\<rparr>))"

definition phl_msg_hub_update_recver_mask ::
  "nat \<Rightarrow> u8 list \<Rightarrow> bool \<Rightarrow> phl_msg_hub \<Rightarrow> rtw_phl_status \<times> phl_msg_hub" where
  "phl_msg_hub_update_recver_mask layer mdl_ids clr hub =
     (if \<not> TEST_STATUS_FLAG (hub_status hub) MSG_HUB_INIT \<or> layer \<ge> MSG_RECV_MAX
      then (RTW_PHL_STATUS_FAILURE, hub)
      else
        let r = recver hub ! layer
        in if \<not> TEST_STATUS_FLAG (rcv_status r) MSG_RECVER_INIT then (RTW_PHL_STATUS_FAILURE, hub)
           else (RTW_PHL_STATUS_SUCCESS,
                 hub\<lparr>recver := (recver hub)[layer :=
                   r\<lparr>rcv_bitmap := (if clr then clr_bitmap_bit MODL_MASK_LEN (rcv_bitmap r) mdl_ids
                                    else add_bitmap_bit MODL_MASK_LEN (rcv_bitmap r) mdl_ids)\<rparr>]\<rparr>))"

definition phl_msg_hub_deregister_recver :: "nat \<Rightarrow> phl_msg_hub \<Rightarrow> rtw_phl_status \<times> phl_msg_hub" where
  "phl_msg_hub_deregister_recver layer hub =
     (if \<not> TEST_STATUS_FLAG (hub_status hub) MSG_HUB_INIT \<or> layer \<ge> MSG_RECV_MAX
      then (RTW_PHL_STATUS_FAILURE, hub)
      else
        let r = recver hub ! layer
        in if \<not> TEST_STATUS_FLAG (rcv_status r) MSG_RECVER_INIT then (RTW_PHL_STATUS_FAILURE, hub)
           else (RTW_PHL_STATUS_SUCCESS,
                 hub\<lparr>recver := (recver hub)[layer :=
                   r\<lparr>rcv_status := SET_STATUS_FLAG (CLEAR_STATUS_FLAG (rcv_status r) MSG_RECVER_INIT)
                                     MSG_RECVER_CLR_CTX\<rparr>]\<rparr>))"

subsection \<open>The thread\<close>

text \<open>
  Where the thread is: at the loop's stop check, at the semaphore, at the second stop check, at
  the pop of the inner loop, with a message before forwarding it, after forwarding it, at the
  check of the draining loop, at the pop of that loop, with a message there, or past the loops.
\<close>

datatype thread_pc =
    T_check | T_down | T_check2 | T_pop | T_fwd nat | T_push nat
  | T_drain_check | T_drain_pop | T_drain_push nat | T_exit

text \<open>
  The hub with its thread (\<open>th_stop\<close> is the stop flag), the number of senders between the check and
  the pop, the senders between the pop and the push
  (the structures they hold), the senders between the push and the semaphore, and a stopper
  between the stop flag and the semaphore. Three fields only record: \<open>asked\<close> what the caller who
  holds a structure passed to the send, \<open>sent\<close> what the callers passed, in the order the messages
  entered the wait queue, and \<open>done_msgs\<close> the content of the structures in the order they went back
  to the idle queue. The first two are written from the arguments of the send and never from the
  pool.
\<close>

record hub_sys =
  hub :: phl_msg_hub
  pc :: thread_pc
  th_stop :: bool
  checked :: nat
  senders :: "nat list"
  asked :: "nat \<Rightarrow> phl_msg_ex"
  pend_up :: nat
  stop_pend :: bool
  sent :: "phl_msg_ex list"
  done_msgs :: "phl_msg_ex list"

text \<open>
  What a send asks for: the message, and the completion routine of the attribute if there is an
  attribute and it has one.
\<close>

definition asked_msg :: "msg_completion_routine option \<Rightarrow> phl_msg \<Rightarrow> phl_msg_ex" where
  "asked_msg attr msg =
     \<lparr>ctx = msg,
      completion = (case Option.bind attr c_fun of
                      None \<Rightarrow> \<lparr>c_priv = 0, c_fun = None\<rparr>
                    | Some f \<Rightarrow> \<lparr>c_priv = c_priv (the attr), c_fun = Some f\<rparr>)\<rparr>"

definition give_back :: "nat \<Rightarrow> hub_sys \<Rightarrow> hub_sys" where
  "give_back i s = s\<lparr>hub := push_back_idle_msg i (hub s), done_msgs := done_msgs s @ [msg_pool (hub s) ! i]\<rparr>"

text \<open>A step of \<^verbatim>\<open>msg_hub_thread_hdl\<close>; \<open>None\<close> when it is blocked or has ended.\<close>

definition thread_step :: "hub_sys \<Rightarrow> hub_sys option" where
  "thread_step s =
     (case pc s of
        T_check \<Rightarrow> Some (s\<lparr>pc := if th_stop s then T_drain_check else T_down\<rparr>)
      | T_down \<Rightarrow>
          if msg_q_sema (hub s) = 0 then None
          else Some (s\<lparr>hub := (hub s)\<lparr>msg_q_sema := msg_q_sema (hub s) - 1\<rparr>, pc := T_check2\<rparr>)
      | T_check2 \<Rightarrow> Some (s\<lparr>pc := if th_stop s then T_drain_check else T_pop\<rparr>)
      | T_pop \<Rightarrow>
          (case pop_front_wait_msg (hub s) of (o1, h) \<Rightarrow>
             Some (s\<lparr>hub := h, pc := (case o1 of None \<Rightarrow> T_check | Some i \<Rightarrow> T_fwd i)\<rparr>))
      | T_fwd i \<Rightarrow> Some (s\<lparr>hub := msg_forward (msg_pool (hub s) ! i) (hub s), pc := T_push i\<rparr>)
      | T_push i \<Rightarrow> Some (give_back i (s\<lparr>pc := T_pop\<rparr>))
      | T_drain_check \<Rightarrow>
          Some (s\<lparr>pc := if cnt (idle_msg_q (hub s)) \<noteq> int MAX_MSG_NUM then T_drain_pop else T_exit\<rparr>)
      | T_drain_pop \<Rightarrow>
          (case pop_front_wait_msg (hub s) of (o1, h) \<Rightarrow>
             Some (s\<lparr>hub := h, pc := (case o1 of None \<Rightarrow> T_drain_check | Some i \<Rightarrow> T_drain_push i)\<rparr>))
      | T_drain_push i \<Rightarrow> Some (give_back i (s\<lparr>pc := T_drain_pop\<rparr>))
      | T_exit \<Rightarrow> None)"

text \<open>The thread alone, for at most \<open>n\<close> steps, until it has ended.\<close>

fun thread_run :: "nat \<Rightarrow> hub_sys \<Rightarrow> hub_sys option" where
  "thread_run n s =
     (if pc s = T_exit then Some s
      else case n of
             0 \<Rightarrow> None
           | Suc m \<Rightarrow> (case thread_step s of None \<Rightarrow> None | Some s1 \<Rightarrow> thread_run m s1))"

declare thread_run.simps [simp del]

subsection \<open>Starting and stopping\<close>

datatype hub_ptr = Hub_Null | Hub_At phl_msg_hub | Hub_Dangling

definition hub0 :: phl_msg_hub where
  "hub0 = \<lparr>hub_status = MSG_HUB_INIT, msg_pool = replicate MAX_MSG_NUM msg_ex0, idle_msg_q = pq_init,
     wait_msg_q = pq_init, msg_q_sema = 0, recver = replicate MSG_RECV_MAX recver0, hub_log = []\<rparr>"

text \<open>\<^verbatim>\<open>_os_mem_alloc\<close> gives zeroed memory or, when \<open>mem\<close> is false, nothing.\<close>

definition phl_msg_hub_init :: "bool \<Rightarrow> hub_ptr \<Rightarrow> rtw_phl_status \<times> hub_ptr" where
  "phl_msg_hub_init mem ptr =
     (if ptr \<noteq> Hub_Null then (RTW_PHL_STATUS_FAILURE, ptr)
      else if \<not> mem then (RTW_PHL_STATUS_RESOURCE, ptr)
      else (RTW_PHL_STATUS_SUCCESS, Hub_At hub0))"

definition phl_msg_hub_start :: "hub_sys \<Rightarrow> rtw_phl_status \<times> hub_sys" where
  "phl_msg_hub_start s =
     (let h = hub s in
      if \<not> TEST_STATUS_FLAG (hub_status h) MSG_HUB_INIT \<or> TEST_STATUS_FLAG (hub_status h) MSG_HUB_STARTED
      then (RTW_PHL_STATUS_FAILURE, s)
      else
        let h1 = h\<lparr>msg_pool := replicate MAX_MSG_NUM msg_ex0, idle_msg_q := pq_reset (idle_msg_q h),
                   wait_msg_q := pq_reset (wait_msg_q h)\<rparr>;
            h2 = fold (\<lambda>i h. h\<lparr>idle_msg_q := pq_push (idle_msg_q h) i Tail\<rparr>) [0..<MAX_MSG_NUM] h1
        in (RTW_PHL_STATUS_SUCCESS,
            s\<lparr>hub := h2\<lparr>hub_status := SET_STATUS_FLAG (hub_status h2) MSG_HUB_STARTED\<rparr>,
              pc := T_check, th_stop := False, sent := [], done_msgs := []\<rparr>))"

text \<open>\<^verbatim>\<open>phl_msg_hub_stop\<close>: the flags, the semaphore, the wait for the thread, the reset.\<close>

definition stop_flag :: "hub_sys \<Rightarrow> hub_sys" where
  "stop_flag s = s\<lparr>hub := (hub s)\<lparr>hub_status := CLEAR_STATUS_FLAG (hub_status (hub s)) MSG_HUB_STARTED\<rparr>,
                   th_stop := True, stop_pend := True\<rparr>"

definition stop_up :: "hub_sys \<Rightarrow> hub_sys" where
  "stop_up s = s\<lparr>hub := sema_up (hub s), stop_pend := False\<rparr>"

definition stop_reset :: "hub_sys \<Rightarrow> hub_sys" where
  "stop_reset s = s\<lparr>hub := (hub s)\<lparr>idle_msg_q := pq_reset (idle_msg_q (hub s)),
                                   wait_msg_q := pq_reset (wait_msg_q (hub s))\<rparr>\<rparr>"

definition phl_msg_hub_stop :: "nat \<Rightarrow> hub_sys \<Rightarrow> (rtw_phl_status \<times> hub_sys) option" where
  "phl_msg_hub_stop fuel s =
     (if \<not> TEST_STATUS_FLAG (hub_status (hub s)) MSG_HUB_STARTED then Some (RTW_PHL_STATUS_FAILURE, s)
      else case thread_run fuel (stop_up (stop_flag s)) of
             None \<Rightarrow> None
           | Some s1 \<Rightarrow> Some (RTW_PHL_STATUS_SUCCESS, stop_reset s1))"

text \<open>\<^verbatim>\<open>phl_msg_hub_deinit\<close> frees the hub; the pointer keeps its value.\<close>

definition phl_msg_hub_deinit :: "nat \<Rightarrow> hub_sys \<Rightarrow> (rtw_phl_status \<times> hub_ptr) option" where
  "phl_msg_hub_deinit fuel s =
     (if \<not> TEST_STATUS_FLAG (hub_status (hub s)) MSG_HUB_INIT then Some (RTW_PHL_STATUS_FAILURE, Hub_At (hub s))
      else case phl_msg_hub_stop fuel
                  (s\<lparr>hub := (hub s)\<lparr>hub_status := CLEAR_STATUS_FLAG (hub_status (hub s)) MSG_HUB_INIT\<rparr>\<rparr>) of
             None \<Rightarrow> None
           | Some _ \<Rightarrow> Some (RTW_PHL_STATUS_SUCCESS, Hub_Dangling))"

subsection \<open>Interleavings\<close>

inductive hub_step :: "hub_sys \<Rightarrow> hub_sys \<Rightarrow> bool" where
  thread: "thread_step s = Some s' \<Longrightarrow> hub_step s s'"
| send_check: "TEST_STATUS_FLAG (hub_status (hub s)) MSG_HUB_STARTED \<Longrightarrow>
    hub_step s (s\<lparr>checked := Suc (checked s)\<rparr>)"
| send_take: "checked s = Suc n \<Longrightarrow> send_take attr msg (hub s) = (o1, h) \<Longrightarrow>
    hub_step s (s\<lparr>hub := h, checked := n, senders := (case o1 of None \<Rightarrow> senders s | Some i \<Rightarrow> i # senders s),
                  asked := (case o1 of None \<Rightarrow> asked s | Some i \<Rightarrow> (asked s)(i := asked_msg attr msg))\<rparr>)"
| send_push: "senders s = xs @ i # ys \<Longrightarrow>
    hub_step s (s\<lparr>hub := wait_push i (hub s), senders := xs @ ys, pend_up := Suc (pend_up s),
                  sent := sent s @ [asked s i]\<rparr>)"
| send_up: "pend_up s = Suc n \<Longrightarrow> hub_step s (s\<lparr>hub := sema_up (hub s), pend_up := n\<rparr>)"
| stop_flag: "TEST_STATUS_FLAG (hub_status (hub s)) MSG_HUB_STARTED \<Longrightarrow> hub_step s (stop_flag s)"
| stop_up: "stop_pend s \<Longrightarrow> hub_step s (stop_up s)"
| register: "phl_msg_hub_register_recver c layer (hub s) = (pstatus, h) \<Longrightarrow> hub_step s (s\<lparr>hub := h\<rparr>)"
| update_mask: "phl_msg_hub_update_recver_mask layer mdls clr (hub s) = (pstatus, h) \<Longrightarrow> hub_step s (s\<lparr>hub := h\<rparr>)"
| deregister: "phl_msg_hub_deregister_recver layer (hub s) = (pstatus, h) \<Longrightarrow> hub_step s (s\<lparr>hub := h\<rparr>)"

inductive hub_reach :: "hub_sys \<Rightarrow> bool" where
  start: "phl_msg_hub_start s = (RTW_PHL_STATUS_SUCCESS, s') \<Longrightarrow> senders s = [] \<Longrightarrow> pend_up s = 0 \<Longrightarrow>
    \<not> stop_pend s \<Longrightarrow> hub_log (hub s) = [] \<Longrightarrow> hub_reach s'"
| step: "hub_reach s \<Longrightarrow> hub_step s s' \<Longrightarrow> hub_reach s'"

subsection \<open>The invariant\<close>

fun pc_nodes :: "thread_pc \<Rightarrow> nat list" where
  "pc_nodes (T_fwd i) = [i]"
| "pc_nodes (T_push i) = [i]"
| "pc_nodes (T_drain_push i) = [i]"
| "pc_nodes _ = []"

text \<open>The four places a structure can be in.\<close>

definition places :: "hub_sys \<Rightarrow> nat list" where
  "places s = queue (idle_msg_q (hub s)) @ queue (wait_msg_q (hub s)) @ pc_nodes (pc s) @ senders s"

definition in_flight :: "hub_sys \<Rightarrow> nat list" where
  "in_flight s = pc_nodes (pc s) @ queue (wait_msg_q (hub s))"

definition completions :: "hub_event list \<Rightarrow> hub_event list" where
  "completions l = filter (\<lambda>e. case e of Completed _ _ _ \<Rightarrow> True | _ \<Rightarrow> False) l"

definition hub_inv :: "hub_sys \<Rightarrow> bool" where
  "hub_inv s \<longleftrightarrow>
     mset (places s) = mset [0..<MAX_MSG_NUM] \<and>
     cnt (idle_msg_q (hub s)) = int (length (queue (idle_msg_q (hub s)))) \<and>
     cnt (wait_msg_q (hub s)) = int (length (queue (wait_msg_q (hub s)))) \<and>
     length (msg_pool (hub s)) = MAX_MSG_NUM \<and>
     (\<forall>i \<in> set (senders s). msg_pool (hub s) ! i = asked s i) \<and>
     sent s = done_msgs s @ map (\<lambda>i. msg_pool (hub s) ! i) (in_flight s) \<and>
     completions (hub_log (hub s)) = concat (map run_completion (done_msgs s)) \<and>
     (queue (wait_msg_q (hub s)) \<noteq> [] \<and> (pc s = T_check \<or> pc s = T_down) \<longrightarrow>
        0 < msg_q_sema (hub s) + pend_up s \<or> th_stop s) \<and>
     (th_stop s \<and> pc s = T_down \<longrightarrow> stop_pend s \<or> 0 < msg_q_sema (hub s))"

lemma hub_inv_places:
  assumes "hub_inv s"
  shows "distinct (places s)" "set (places s) = {..<MAX_MSG_NUM}"
proof -
  have m: "mset (places s) = mset [0..<MAX_MSG_NUM]" using assms by (simp add: hub_inv_def)
  show "distinct (places s)"
    unfolding mset_eq_imp_distinct_iff [OF m] by (rule distinct_upt)
  show "set (places s) = {..<MAX_MSG_NUM}"
    unfolding mset_eq_setD [OF m] by (simp only: set_upt atLeast0LessThan)
qed

lemma pq_pop_cnt:
  assumes "cnt q = int (length (queue q))"
  shows "pq_pop q First = (case queue q of [] \<Rightarrow> (None, q) | x # xs \<Rightarrow> (Some x, q\<lparr>queue := xs, cnt := cnt q - 1\<rparr>))"
  using assms by (auto simp: pq_pop_def split: list.split)

lemma completions_append [simp]: "completions (a @ b) = completions a @ completions b"
  by (simp add: completions_def)

lemma completions_run [simp]: "completions (run_completion ex) = run_completion ex"
  by (simp add: completions_def run_completion_def split: option.split)

text \<open>Operations that touch neither the queues nor the pool keep the invariant.\<close>

definition same_msgs :: "phl_msg_hub \<Rightarrow> phl_msg_hub \<Rightarrow> bool" where
  "same_msgs h h1 \<longleftrightarrow>
     idle_msg_q h1 = idle_msg_q h \<and> wait_msg_q h1 = wait_msg_q h \<and> msg_pool h1 = msg_pool h \<and>
     msg_q_sema h1 = msg_q_sema h \<and> completions (hub_log h1) = completions (hub_log h)"

lemma hub_inv_same_msgs: "hub_inv s \<Longrightarrow> same_msgs (hub s) h \<Longrightarrow> hub_inv (s\<lparr>hub := h\<rparr>)"
  by (simp add: hub_inv_def same_msgs_def places_def in_flight_def)

lemma recver_ops_same:
  "phl_msg_hub_register_recver c layer h = (pstatus, h1) \<Longrightarrow> same_msgs h h1"
  "phl_msg_hub_update_recver_mask layer mdls clr h = (pstatus, h1) \<Longrightarrow> same_msgs h h1"
  "phl_msg_hub_deregister_recver layer h = (pstatus, h1) \<Longrightarrow> same_msgs h h1"
  by (auto simp: phl_msg_hub_register_recver_def phl_msg_hub_update_recver_mask_def
      phl_msg_hub_deregister_recver_def same_msgs_def Let_def split: if_splits)

lemma forward_one_log: "forward_one msg i r = (r1, evs) \<Longrightarrow> completions evs = []"
  by (auto simp: forward_one_def completions_def split: if_splits)

lemma msg_forward_same: "same_msgs h (msg_forward ex h)"
proof -
  have "same_msgs h (fold (\<lambda>i hub. case forward_one (ctx ex) i (recver hub ! i) of (r, evs) \<Rightarrow>
        hub\<lparr>recver := (recver hub)[i := r], hub_log := hub_log hub @ evs\<rparr>) is h)" for "is"
    by (induction "is" arbitrary: h) (auto simp: same_msgs_def forward_one_log split: prod.split)
  then show ?thesis by (simp add: msg_forward_def same_msgs_def)
qed

lemma hub_inv_start:
  assumes "phl_msg_hub_start s = (RTW_PHL_STATUS_SUCCESS, s')" "senders s = []" "pend_up s = 0"
    "\<not> stop_pend s" "hub_log (hub s) = []"
  shows "hub_inv s'"
proof -
  have fill: "fold (\<lambda>i h. h\<lparr>idle_msg_q := pq_push (idle_msg_q h) i Tail\<rparr>) [0..<n] h =
      h\<lparr>idle_msg_q := (idle_msg_q h)\<lparr>queue := queue (idle_msg_q h) @ [0..<n], cnt := cnt (idle_msg_q h) + int n\<rparr>\<rparr>" for n h
    by (induction n arbitrary: h) (simp_all add: pq_push_def)
  show ?thesis
    using assms
    by (auto simp: phl_msg_hub_start_def Let_def fill hub_inv_def places_def in_flight_def pq_reset_def completions_def
        split: if_splits)
qed

text \<open>One lemma for each kind of step.\<close>

lemma thread_pop_inv:
  assumes inv: "hub_inv s" and pop: "pop_front_wait_msg (hub s) = (o1, h)"
    and pcs: "pc s = T_pop \<and> npc = (case o1 of None \<Rightarrow> T_check | Some i \<Rightarrow> T_fwd i) \<or>
              pc s = T_drain_pop \<and> npc = (case o1 of None \<Rightarrow> T_drain_check | Some i \<Rightarrow> T_drain_push i)"
  shows "hub_inv (s\<lparr>hub := h, pc := npc\<rparr>)"
proof (cases "queue (wait_msg_q (hub s))")
  case Nil
  then have "o1 = None" "h = hub s"
    using pop inv by (auto simp: pop_front_wait_msg_def pq_pop_cnt hub_inv_def)
  then show ?thesis
    using inv pcs Nil by (auto simp: hub_inv_def places_def in_flight_def)
next
  case (Cons i xs)
  then have "o1 = Some i" "h = (hub s)\<lparr>wait_msg_q := (wait_msg_q (hub s))\<lparr>queue := xs, cnt := cnt (wait_msg_q (hub s)) - 1\<rparr>\<rparr>"
    using pop inv by (auto simp: pop_front_wait_msg_def pq_pop_cnt hub_inv_def)
  then show ?thesis
    using inv pcs Cons by (auto simp: hub_inv_def places_def in_flight_def)
qed

lemma give_back_inv:
  assumes inv: "hub_inv s"
    and pcs: "pc s = T_push i \<and> npc = T_pop \<or> pc s = T_drain_push i \<and> npc = T_drain_pop"
  shows "hub_inv (give_back i (s\<lparr>pc := npc\<rparr>))"
  using assms
  by (auto simp: hub_inv_def places_def in_flight_def give_back_def push_back_idle_msg_def pq_push_def)

lemma pc_move_inv:
  assumes "hub_inv s" and "pc_nodes npc = pc_nodes (pc s)"
    and "npc = T_check \<or> npc = T_down \<Longrightarrow> queue (wait_msg_q (hub s)) = [] \<or> pc s = T_check"
    and "npc = T_down \<Longrightarrow> \<not> th_stop s"
  shows "hub_inv (s\<lparr>pc := npc\<rparr>)"
  using assms by (auto simp: hub_inv_def places_def in_flight_def)

lemma sema_down_inv:
  "hub_inv s \<Longrightarrow> pc s = T_down \<Longrightarrow> hub_inv (s\<lparr>hub := (hub s)\<lparr>msg_q_sema := n\<rparr>, pc := T_check2\<rparr>)"
  by (simp add: hub_inv_def places_def in_flight_def)

lemma thread_step_inv:
  assumes inv: "hub_inv s" and step: "thread_step s = Some s'"
  shows "hub_inv s'"
proof (cases "pc s")
  case T_check
  then show ?thesis
    using step pc_move_inv [OF inv, of T_drain_check] pc_move_inv [OF inv, of T_down] by (auto simp: thread_step_def)
next
  case T_down
  then show ?thesis using step sema_down_inv [OF inv] by (auto simp: thread_step_def split: if_splits)
next
  case T_check2
  then show ?thesis
    using step pc_move_inv [OF inv, of T_drain_check] pc_move_inv [OF inv, of T_pop] by (auto simp: thread_step_def)
next
  case T_pop
  then show ?thesis using step thread_pop_inv [OF inv] by (auto simp: thread_step_def split: prod.splits)
next
  case (T_fwd i)
  have "hub_inv (s\<lparr>hub := msg_forward (msg_pool (hub s) ! i) (hub s)\<rparr>)"
    using hub_inv_same_msgs [OF inv] msg_forward_same by blast
  from pc_move_inv [OF this, of "T_push i"] show ?thesis
    using step T_fwd by (simp add: thread_step_def)
next
  case (T_push i)
  then show ?thesis using step give_back_inv [OF inv] by (simp add: thread_step_def)
next
  case T_drain_check
  then show ?thesis
    using step pc_move_inv [OF inv, of T_drain_pop] pc_move_inv [OF inv, of T_exit] by (auto simp: thread_step_def)
next
  case T_drain_pop
  then show ?thesis using step thread_pop_inv [OF inv] by (auto simp: thread_step_def split: prod.splits)
next
  case (T_drain_push i)
  then show ?thesis using step give_back_inv [OF inv] by (simp add: thread_step_def)
next
  case T_exit
  then show ?thesis using step by (simp add: thread_step_def)
qed

lemma completion_eta: "c_fun c = Some f \<Longrightarrow> \<lparr>c_priv = c_priv c, c_fun = Some f\<rparr> = c"
  by (cases c) simp

lemma send_take_content:
  assumes "send_take attr msg h0 = (Some i, h)" "i < length (msg_pool h0)"
  shows "msg_pool h = (msg_pool h0)[i := asked_msg attr msg]"
  using assms
  by (auto simp: send_take_def pop_front_idle_msg_def asked_msg_def msg_ex0_def Let_def completion_eta
      split: prod.splits option.splits if_splits)

lemma send_take_inv:
  assumes inv: "hub_inv s" and tk: "send_take attr msg (hub s) = (o1, h)"
  shows "hub_inv (s\<lparr>hub := h, checked := n, senders := (case o1 of None \<Rightarrow> senders s | Some i \<Rightarrow> i # senders s),
           asked := (case o1 of None \<Rightarrow> asked s | Some i \<Rightarrow> (asked s)(i := asked_msg attr msg))\<rparr>)"
proof (cases "queue (idle_msg_q (hub s))")
  case Nil
  then have "o1 = None" "h = hub s"
    using tk inv by (auto simp: send_take_def pop_front_idle_msg_def pq_pop_cnt hub_inv_def)
  then show ?thesis
    using inv by (auto simp: hub_inv_def places_def in_flight_def)
next
  case (Cons i xs)
  have len: "i < length (msg_pool (hub s))"
    using hub_inv_places(2) [OF inv] inv Cons by (auto simp: places_def hub_inv_def)
  have o: "o1 = Some i" and "\<exists>ex. h = (hub s)\<lparr>idle_msg_q := (idle_msg_q (hub s))\<lparr>queue := xs,
      cnt := cnt (idle_msg_q (hub s)) - 1\<rparr>, msg_pool := (msg_pool (hub s))[i := ex]\<rparr>"
    using tk inv Cons by (auto simp: send_take_def pop_front_idle_msg_def pq_pop_cnt hub_inv_def Let_def)
  then have h: "h = (hub s)\<lparr>idle_msg_q := (idle_msg_q (hub s))\<lparr>queue := xs,
      cnt := cnt (idle_msg_q (hub s)) - 1\<rparr>, msg_pool := (msg_pool (hub s))[i := asked_msg attr msg]\<rparr>"
    using send_take_content [of attr msg "hub s" i h] tk len by auto
  have "i \<notin> set (in_flight s)" and ns: "i \<notin> set (senders s)"
    using hub_inv_places(1) [OF inv] Cons by (auto simp: places_def in_flight_def)
  then have "map (\<lambda>j. msg_pool h ! j) (in_flight s) = map (\<lambda>j. msg_pool (hub s) ! j) (in_flight s)"
    by (intro map_cong refl, simp add: h) (metis nth_list_update_neq)
  moreover have "\<forall>j \<in> set (i # senders s). msg_pool h ! j = ((asked s)(i := asked_msg attr msg)) j"
    using inv ns len by (auto simp: h hub_inv_def nth_list_update)
  ultimately show ?thesis
    using inv Cons by (auto simp: o h hub_inv_def places_def in_flight_def)
qed

lemma send_push_inv:
  assumes "hub_inv s" and "senders s = xs @ i # ys"
  shows "hub_inv (s\<lparr>hub := wait_push i (hub s), senders := xs @ ys, pend_up := Suc (pend_up s),
           sent := sent s @ [asked s i]\<rparr>)"
  using assms by (simp add: hub_inv_def places_def in_flight_def wait_push_def pq_push_def)

lemma sema_up_inv:
  "hub_inv s \<Longrightarrow> pend_up s = Suc n \<Longrightarrow> hub_inv (s\<lparr>hub := sema_up (hub s), pend_up := n\<rparr>)"
  "hub_inv s \<Longrightarrow> hub_inv (stop_up s)" "hub_inv s \<Longrightarrow> hub_inv (stop_flag s)"
  "hub_inv s \<Longrightarrow> hub_inv (s\<lparr>checked := k\<rparr>)"
  by (simp_all add: hub_inv_def places_def in_flight_def sema_up_def stop_up_def stop_flag_def)

lemma hub_step_inv: "hub_step s s' \<Longrightarrow> hub_inv s \<Longrightarrow> hub_inv s'"
proof (induction rule: hub_step.induct)
  case (send_take s n attr msg o1 h)
  then show ?case by (simp only: send_take_inv)
next
  case (register c layer s pstatus h)
  then show ?case using hub_inv_same_msgs recver_ops_same(1) by blast
next
  case (update_mask layer mdls clr s pstatus h)
  then show ?case using hub_inv_same_msgs recver_ops_same(2) by blast
next
  case (deregister layer s pstatus h)
  then show ?case using hub_inv_same_msgs recver_ops_same(3) by blast
qed (simp_all only: thread_step_inv send_push_inv sema_up_inv)

lemma hub_reach_inv: "hub_reach s \<Longrightarrow> hub_inv s"
  by (induction rule: hub_reach.induct) (auto intro: hub_inv_start hub_step_inv)

subsection \<open>Stopping\<close>

text \<open>The number of steps the stopping thread has left is below this measure.\<close>

fun pc_rank :: "bool \<Rightarrow> thread_pc \<Rightarrow> nat" where
  "pc_rank w T_exit = 0"
| "pc_rank w T_drain_check = (if w then 3 else 1)"
| "pc_rank w T_drain_pop = 2"
| "pc_rank w (T_drain_push i) = 4"
| "pc_rank w T_check = 5"
| "pc_rank w T_check2 = 5"
| "pc_rank w T_down = 6"
| "pc_rank w T_pop = 6"
| "pc_rank w (T_push i) = 7"
| "pc_rank w (T_fwd i) = 8"

definition stop_measure :: "hub_sys \<Rightarrow> nat" where
  "stop_measure s = 10 * length (queue (wait_msg_q (hub s))) + pc_rank (queue (wait_msg_q (hub s)) \<noteq> []) (pc s)"

definition stopping :: "hub_sys \<Rightarrow> bool" where
  "stopping s \<longleftrightarrow> hub_inv s \<and> th_stop s \<and> \<not> stop_pend s \<and> senders s = [] \<and>
     (pc s = T_exit \<longrightarrow> cnt (idle_msg_q (hub s)) = int MAX_MSG_NUM)"

lemma all_idle:
  assumes "hub_inv s" "senders s = []" "pc_nodes (pc s) = []"
  shows "cnt (idle_msg_q (hub s)) = int MAX_MSG_NUM \<longleftrightarrow> queue (wait_msg_q (hub s)) = []"
proof -
  have "length (places s) = MAX_MSG_NUM"
    using assms(1) mset_eq_length [of "places s" "[0..<MAX_MSG_NUM]"] by (simp add: hub_inv_def)
  then show ?thesis
    using assms by (auto simp: places_def hub_inv_def)
qed

lemma stopping_step:
  assumes st: "stopping s" and ne: "pc s \<noteq> T_exit"
  shows "\<exists>s'. thread_step s = Some s' \<and> stopping s' \<and> stop_measure s' < stop_measure s"
proof -
  have inv: "hub_inv s" and stop: "th_stop s" "\<not> stop_pend s" "senders s = []"
    using st by (simp_all add: stopping_def)
  have pop: "pop_front_wait_msg (hub s) =
      (case queue (wait_msg_q (hub s)) of
         [] \<Rightarrow> (None, hub s)
       | i # xs \<Rightarrow> (Some i, (hub s)\<lparr>wait_msg_q := (wait_msg_q (hub s))\<lparr>queue := xs, cnt := cnt (wait_msg_q (hub s)) - 1\<rparr>\<rparr>))"
    using inv by (auto simp: pop_front_wait_msg_def pq_pop_cnt hub_inv_def split: list.split)
  have sema: "pc s = T_down \<Longrightarrow> 0 < msg_q_sema (hub s)"
    using inv stop by (auto simp: hub_inv_def)
  have fwd: "wait_msg_q (msg_forward ex (hub s)) = wait_msg_q (hub s)" for ex
    using msg_forward_same [of "hub s" ex] by (simp add: same_msgs_def)
  have "\<exists>s'. thread_step s = Some s' \<and> th_stop s' \<and> \<not> stop_pend s' \<and> senders s' = [] \<and>
      (pc s' = T_exit \<longrightarrow> cnt (idle_msg_q (hub s')) = int MAX_MSG_NUM) \<and> stop_measure s' < stop_measure s"
    using ne stop sema all_idle [OF inv stop(3)]
    by (cases "pc s")
      (auto simp: thread_step_def stop_measure_def give_back_def push_back_idle_msg_def pop fwd
        split: list.split)
  then show ?thesis
    using thread_step_inv [OF inv] by (auto simp: stopping_def)
qed

lemma stopping_run:
  "stopping s \<Longrightarrow> stop_measure s \<le> n \<Longrightarrow> \<exists>s'. thread_run n s = Some s' \<and> stopping s' \<and> pc s' = T_exit"
proof (induction n arbitrary: s)
  case 0
  then have "pc s = T_exit" using stopping_step [of s] by fastforce
  then show ?case using 0 by (simp add: thread_run.simps [of 0])
next
  case (Suc n)
  show ?case
  proof (cases "pc s = T_exit")
    case True
    then show ?thesis using Suc.prems by (simp add: thread_run.simps [of "Suc n"])
  next
    case False
    from stopping_step [OF Suc.prems(1) this] obtain s1 where
      s1: "thread_step s = Some s1" "stopping s1" "stop_measure s1 < stop_measure s" by blast
    then show ?thesis
      using Suc.IH [OF s1(2)] Suc.prems(2) False by (simp add: thread_run.simps [of "Suc n"])
  qed
qed

text \<open>The thread only appends to the record of finished messages and never to the sent ones.\<close>

lemma thread_step_sent: "thread_step s = Some s' \<Longrightarrow> sent s' = sent s"
  by (auto simp: thread_step_def give_back_def split: thread_pc.splits prod.splits if_splits)

lemma thread_run_sent: "thread_run n s = Some s' \<Longrightarrow> sent s' = sent s"
proof (induction n arbitrary: s)
  case (Suc n)
  then show ?case
    by (auto simp: thread_run.simps [of "Suc n"] dest: thread_step_sent split: if_splits option.splits)
qed (simp add: thread_run.simps [of 0] split: if_splits)

subsection \<open>Forwarding to the receivers\<close>

lemma forward_two:
  assumes "TEST_STATUS_FLAG (hub_status h) MSG_HUB_STARTED" and "length (recver h) = MSG_RECV_MAX"
  shows "hub_log (msg_forward ex h) =
           hub_log h @ concat (map (\<lambda>i. snd (forward_one (ctx ex) i (recver h ! i))) [0..<MSG_RECV_MAX])"
    and "recver (msg_forward ex h) = map (\<lambda>i. fst (forward_one (ctx ex) i (recver h ! i))) [0..<MSG_RECV_MAX]"
proof -
  obtain r0 r1 where r: "recver h = [r0, r1]"
    using assms(2) by (auto simp: MSG_RECV_MAX_def length_Suc_conv numeral_2_eq_2)
  have two: "[0..<MSG_RECV_MAX] = [0, 1]" by (simp add: MSG_RECV_MAX_def upt_rec)
  show "hub_log (msg_forward ex h) =
      hub_log h @ concat (map (\<lambda>i. snd (forward_one (ctx ex) i (recver h ! i))) [0..<MSG_RECV_MAX])"
    "recver (msg_forward ex h) = map (\<lambda>i. fst (forward_one (ctx ex) i (recver h ! i))) [0..<MSG_RECV_MAX]"
    using assms(1) by (simp_all add: msg_forward_def two r case_prod_beta)
qed

lemma add_bitmap_filter:
  "add_bitmap_bit n m arr = fold (\<lambda>i m. add_bitmap_bit n m [i]) (filter (\<lambda>i. unat i div 8 < unat n) arr) m"
  by (induction arr arbitrary: m) (simp_all add: add_bitmap_bit_def)

lemma clr_bitmap_filter:
  "clr_bitmap_bit n m arr = fold (\<lambda>i m. clr_bitmap_bit n m [i]) (filter (\<lambda>i. unat i div 8 < unat n) arr) m"
  by (induction arr arbitrary: m) (simp_all add: clr_bitmap_bit_def)

subsection \<open>Properties\<close>

text \<open>
  C14. No message structure is lost or handed out twice: in every state that senders, the hub's
  thread, a stopper and (de)registrations can reach, each of the 16 structures of the pool is in
  exactly one of the idle queue, the wait queue, the hands of one sender and the hands of the
  thread, and the queue counters are the lengths of the queues.
\<close>

theorem msg_hub_pool_partition:
  assumes "hub_reach s"
  shows "mset (queue (idle_msg_q (hub s))) + mset (queue (wait_msg_q (hub s))) +
           mset (pc_nodes (pc s)) + mset (senders s) = mset [0..<16] \<and>
         cnt (idle_msg_q (hub s)) = int (length (queue (idle_msg_q (hub s)))) \<and>
         cnt (wait_msg_q (hub s)) = int (length (queue (wait_msg_q (hub s))))"
  using hub_reach_inv [OF assms] by (simp add: hub_inv_def places_def MAX_MSG_NUM_def add.assoc)

text \<open>
  C21. First in, first out, nothing lost, completed once: what the callers passed to the sends whose
  message entered the wait queue (the message and the completion routine of the attribute, none
  without one) is, in that order, the content of the finished messages, of the one the thread is on
  and of the waiting ones; and the completion routines that ran are exactly those the callers of
  the finished messages asked for, once each, in order and with the message that was sent.
\<close>

theorem msg_hub_fifo_completion:
  assumes "hub_reach s"
  shows "sent s = done_msgs s @ map (\<lambda>i. msg_pool (hub s) ! i) (pc_nodes (pc s) @ queue (wait_msg_q (hub s))) \<and>
         completions (hub_log (hub s)) = concat (map run_completion (take (length (done_msgs s)) (sent s)))"
  using hub_reach_inv [OF assms] by (simp add: hub_inv_def in_flight_def)

text \<open>
  C22. No lost wake-up: whenever the thread is about to sleep or asleep on the semaphore and a
  message waits, the semaphore is up or a sender is about to raise it, unless the hub is stopping;
  and a stopping thread asleep is woken by the semaphore or by the stopper still to raise it.
\<close>

theorem msg_hub_no_lost_wakeup:
  assumes "hub_reach s" and "pc s = T_down"
  shows "(queue (wait_msg_q (hub s)) \<noteq> [] \<longrightarrow> 0 < msg_q_sema (hub s) + pend_up s \<or> th_stop s) \<and>
         (th_stop s \<longrightarrow> 0 < msg_q_sema (hub s) \<or> stop_pend s)"
  using hub_reach_inv [OF assms(1)] assms(2) by (auto simp: hub_inv_def)

lemma wait_bound:
  assumes "hub_inv s"
  shows "length (queue (wait_msg_q (hub s))) \<le> 16"
proof -
  have "length (places s) = 16"
    using assms mset_eq_length [of "places s" "[0..<MAX_MSG_NUM]"] by (simp add: hub_inv_def MAX_MSG_NUM_def)
  then show ?thesis by (simp add: places_def)
qed

lemma pc_rank_le: "pc_rank w p \<le> 8"
  by (cases p) auto

text \<open>
  C15. Stopping ends: from every reachable state of a started hub in which no sender holds a
  structure and no other stop is in progress, \<^verbatim>\<open>phl_msg_hub_stop\<close> returns (the thread needs at most
  168 steps), the thread has ended, and every message that was sent has had its completion
  routine called, in order.
\<close>

theorem msg_hub_stop_returns:
  assumes "hub_reach s" and "senders s = []" and "pc s \<noteq> T_exit"
    and "TEST_STATUS_FLAG (hub_status (hub s)) MSG_HUB_STARTED"
  shows "\<exists>s'. phl_msg_hub_stop 168 s = Some (RTW_PHL_STATUS_SUCCESS, s') \<and> pc s' = T_exit \<and>
           done_msgs s' = sent s \<and> completions (hub_log (hub s')) = concat (map run_completion (sent s)) \<and>
           queue (wait_msg_q (hub s')) = []"
proof -
  let ?s1 = "stop_up (stop_flag s)"
  have inv: "hub_inv ?s1"
    using hub_reach_inv [OF assms(1)] by (simp add: sema_up_inv)
  then have "stopping ?s1"
    using assms(2,3) by (simp add: stopping_def stop_up_def stop_flag_def)
  moreover have "stop_measure ?s1 \<le> 168"
    using wait_bound [OF inv] pc_rank_le [of "queue (wait_msg_q (hub ?s1)) \<noteq> []" "pc ?s1"]
    by (simp add: stop_measure_def)
  ultimately obtain s2 where s2: "thread_run 168 ?s1 = Some s2" "stopping s2" "pc s2 = T_exit"
    using stopping_run by blast
  have q: "queue (wait_msg_q (hub s2)) = []"
    using all_idle [of s2] s2(2,3) by (simp add: stopping_def)
  have "sent s2 = sent s"
    using thread_run_sent [OF s2(1)] by (simp add: stop_up_def stop_flag_def)
  then have "done_msgs s2 = sent s" "completions (hub_log (hub s2)) = concat (map run_completion (sent s))"
    using s2(2,3) q by (auto simp: stopping_def hub_inv_def in_flight_def)
  then show ?thesis
    using assms(4) s2(1,3) by (simp add: phl_msg_hub_stop_def stop_reset_def pq_reset_def)
qed

text \<open>
  Who is notified: forwarding a message in a started hub notifies, in layer order, exactly the
  registered receivers whose mask has the module of the message, with their own callback and
  context; a receiver that was deregistered is cleared, the others are kept. In a hub that is not
  started nothing happens.
\<close>

theorem msg_forward_receivers:
  assumes "length (recver h) = MSG_RECV_MAX"
  shows "hub_log (msg_forward ex h) = hub_log h @
           [Notify i (incoming_evt_notify (recver h ! i)) (rcv_priv (recver h ! i)) (ctx ex).
              i \<leftarrow> [0..<2],
              TEST_STATUS_FLAG (hub_status h) MSG_HUB_STARTED \<and>
              TEST_STATUS_FLAG (rcv_status (recver h ! i)) MSG_RECVER_INIT \<and>
              chk_bitmap_bit MODL_MASK_LEN (rcv_bitmap (recver h ! i)) (MSG_MDL_ID_FIELD (msg_id (ctx ex)))]"
  using forward_two [OF _ assms, of ex]
  by (cases "TEST_STATUS_FLAG (hub_status h) MSG_HUB_STARTED")
    (simp_all add: msg_forward_def MSG_RECV_MAX_def forward_one_def upt_rec)

text \<open>
  The mask of a receiver: after adding (or clearing) a list of module ids, the receiver gets
  the messages of a background module (id below 128) exactly if the id is in the list or was in
  the mask (if it was in the mask and is not in the list); ids from 128 on, the foreground
  modules, can never be subscribed.
\<close>

theorem msg_hub_mask:
  assumes "phl_msg_hub_update_recver_mask layer mdls clr h = (RTW_PHL_STATUS_SUCCESS, h')"
    and "layer < length (recver h)" and "length (rcv_bitmap (recver h ! layer)) = 16"
  shows "chk_bitmap_bit MODL_MASK_LEN (rcv_bitmap (recver h' ! layer)) m \<longleftrightarrow>
           unat m < 128 \<and>
           (if clr then chk_bitmap_bit MODL_MASK_LEN (rcv_bitmap (recver h ! layer)) m \<and> m \<notin> set mdls
            else chk_bitmap_bit MODL_MASK_LEN (rcv_bitmap (recver h ! layer)) m \<or> m \<in> set mdls)"
proof -
  let ?b = "rcv_bitmap (recver h ! layer)" and ?v = "\<lambda>i::u8. unat i div 8 < unat MODL_MASK_LEN"
  have b': "rcv_bitmap (recver h' ! layer) =
      (if clr then clr_bitmap_bit MODL_MASK_LEN ?b mdls else add_bitmap_bit MODL_MASK_LEN ?b mdls)"
    using assms(1,2) by (auto simp: phl_msg_hub_update_recver_mask_def Let_def split: if_splits)
  have len: "length ?b = unat MODL_MASK_LEN" using assms(3) by (simp add: MODL_MASK_LEN_def)
  have v: "?v m \<longleftrightarrow> unat m < 128" by (auto simp: MODL_MASK_LEN_def)
  have out: "\<not> ?v m \<Longrightarrow> \<not> chk_bitmap_bit MODL_MASK_LEN x m" for x by (simp add: chk_bitmap_bit_def)
  show ?thesis
  proof (cases "?v m")
    case True
    then show ?thesis
      using bm8.fold_set [OF len, of "filter ?v mdls" m] bm8.fold_clr [OF len, of "filter ?v mdls" m]
      by (auto simp: b' add_bitmap_filter [of _ _ mdls] clr_bitmap_filter [of _ _ mdls] v)
  next
    case False
    then show ?thesis using out v by (simp add: b')
  qed
qed

subsection \<open>A run of the hub\<close>

definition msg1 :: phl_msg where
  "msg1 = phl_msg0\<lparr>msg_id := 0x30007\<rparr>"

definition hub1 :: phl_msg_hub where
  "hub1 = snd (phl_msg_hub_update_recver_mask 0 [3, 10] False
            (snd (phl_msg_hub_register_recver (Some (5, 6)) 0 hub0)))"

definition sys0 :: hub_sys where
  "sys0 = \<lparr>hub = hub1, pc = T_exit, th_stop = False, checked = 0, senders = [], asked = (\<lambda>_. msg_ex0), pend_up = 0, stop_pend = False,
     sent = [], done_msgs = []\<rparr>"

definition sys1 :: hub_sys where "sys1 = snd (phl_msg_hub_start sys0)"

definition sys2 :: hub_sys where
  "sys2 = sys1\<lparr>hub := snd (send_take (Some \<lparr>c_priv = 8, c_fun = Some 9\<rparr>) msg1 (hub sys1)), checked := 0, senders := [0],
     asked := (\<lambda>_. msg_ex0)(0 := \<lparr>ctx = msg1, completion = \<lparr>c_priv = 8, c_fun = Some 9\<rparr>\<rparr>)\<rparr>"

definition sys3 :: hub_sys where
  "sys3 = sys2\<lparr>hub := wait_push 0 (hub sys2), senders := [], pend_up := 1,
     sent := [\<lparr>ctx = msg1, completion = \<lparr>c_priv = 8, c_fun = Some 9\<rparr>\<rparr>]\<rparr>"

definition sys4 :: hub_sys where "sys4 = sys3\<lparr>pc := T_down\<rparr>"

lemmas hub_eval = sys0_def hub1_def hub0_def phl_msg_hub_register_recver_def phl_msg_hub_update_recver_mask_def
  TEST_STATUS_FLAG_def SET_STATUS_FLAG_def MSG_HUB_INIT_def MSG_HUB_STARTED_def MSG_RECVER_INIT_def
  MSG_RECV_MAX_def recver0_def Let_def

lemma hub1_sel: "hub_status hub1 = 1" "hub_log hub1 = []" "msg_pool hub1 = replicate MAX_MSG_NUM msg_ex0"
  "length (recver hub1) = MSG_RECV_MAX" "idle_msg_q hub1 = pq_init" "wait_msg_q hub1 = pq_init" "msg_q_sema hub1 = 0"
  by (simp_all add: hub_eval)

lemma upt_16: "[0..<16] = [0, 1, 2, 3, 4, 5, 6, 7, 8, 9, 10, 11, 12, 13, 14, 15 :: nat]"
  by (simp add: upt_rec)

lemma sys1_sel: "phl_msg_hub_start sys0 = (RTW_PHL_STATUS_SUCCESS, sys1)"
  "pc sys1 = T_check" "\<not> th_stop sys1" "senders sys1 = []" "pend_up sys1 = 0" "\<not> stop_pend sys1" "checked sys1 = 0"
  "sent sys1 = []" "done_msgs sys1 = []" "asked sys1 = (\<lambda>_. msg_ex0)"
  by (simp_all add: sys1_def phl_msg_hub_start_def sys0_def hub1_sel Let_def TEST_STATUS_FLAG_def
      MSG_HUB_INIT_def MSG_HUB_STARTED_def)

lemma sys1_hub: "hub sys1 = hub1\<lparr>hub_status := 3, idle_msg_q := \<lparr>queue = [0..<16], cnt = 16\<rparr>\<rparr>"
  by (simp add: sys1_def phl_msg_hub_start_def sys0_def hub1_sel Let_def TEST_STATUS_FLAG_def SET_STATUS_FLAG_def
      MSG_HUB_INIT_def MSG_HUB_STARTED_def MAX_MSG_NUM_def pq_reset_def pq_push_def pq_init_def upt_16)

lemma sys1_reach: "hub_reach sys1"
  by (rule hub_reach.start [OF sys1_sel(1)]) (simp_all add: sys0_def hub1_sel)

lemma sys2_reach: "hub_reach sys2"
proof -
  have a: "hub_reach (sys1\<lparr>checked := 1\<rparr>)" (is "hub_reach ?s")
    using hub_reach.step [OF sys1_reach hub_step.send_check]
    by (simp add: sys1_hub sys1_sel TEST_STATUS_FLAG_def MSG_HUB_STARTED_def)
  obtain o1 h where tk: "send_take (Some \<lparr>c_priv = 8, c_fun = Some 9\<rparr>) msg1 (hub sys1) = (o1, h)" by fastforce
  have "o1 = Some 0"
    using tk by (simp add: send_take_def pop_front_idle_msg_def pq_pop_def sys1_hub upt_16 Let_def)
  moreover have "send_take (Some \<lparr>c_priv = 8, c_fun = Some 9\<rparr>) msg1 (hub ?s) = (o1, h)"
    using tk by simp
  ultimately show ?thesis
    using hub_reach.step [OF a hub_step.send_take [of ?s 0 "Some \<lparr>c_priv = 8, c_fun = Some 9\<rparr>" msg1 o1 h]] tk
    by (simp add: sys2_def sys1_sel asked_msg_def)
qed

lemma sys3_reach: "hub_reach sys3"
  using hub_reach.step [OF sys2_reach hub_step.send_push [of sys2 "[]" 0 "[]"]]
  by (simp add: sys3_def sys2_def sys1_sel)

lemma sys4_reach: "hub_reach sys4"
  using hub_reach.step [OF sys3_reach hub_step.thread [of sys3 sys4]]
  by (simp add: thread_step_def sys4_def sys3_def sys2_def sys1_sel)

lemma sys4_sel: "senders sys4 = []" "pc sys4 = T_down" "\<not> th_stop sys4"
  "sent sys4 = [\<lparr>ctx = msg1, completion = \<lparr>c_priv = 8, c_fun = Some 9\<rparr>\<rparr>]"
  "hub_status (hub sys4) = 3" "queue (wait_msg_q (hub sys4)) = [0]"
  by (simp_all add: sys4_def sys3_def sys2_def sys1_sel sys1_hub wait_push_def send_take_def pop_front_idle_msg_def
      pq_pop_def upt_16 hub1_sel pq_init_def Let_def)

theorem msg_hub_pool_partition_witness:
  "mset (queue (idle_msg_q (hub sys4))) + mset (queue (wait_msg_q (hub sys4))) +
     mset (pc_nodes (pc sys4)) + mset (senders sys4) = mset [0..<16]"
  using msg_hub_pool_partition [OF sys4_reach] by blast

theorem msg_hub_fifo_completion_witness:
  "[\<lparr>ctx = msg1, completion = \<lparr>c_priv = 8, c_fun = Some 9\<rparr>\<rparr>] =
     done_msgs sys4 @ map (\<lambda>i. msg_pool (hub sys4) ! i) (pc_nodes (pc sys4) @ queue (wait_msg_q (hub sys4)))"
  using msg_hub_fifo_completion [OF sys4_reach] by (simp only: sys4_sel)

theorem msg_hub_no_lost_wakeup_witness:
  "queue (wait_msg_q (hub sys4)) = [0] \<and> 0 < msg_q_sema (hub sys4) + pend_up sys4"
  using msg_hub_no_lost_wakeup [OF sys4_reach sys4_sel(2)] sys4_sel(3,6) by simp

theorem msg_hub_stop_returns_witness:
  "\<exists>s'. phl_msg_hub_stop 168 sys4 = Some (RTW_PHL_STATUS_SUCCESS, s') \<and> 
     done_msgs s' = [\<lparr>ctx = msg1, completion = \<lparr>c_priv = 8, c_fun = Some 9\<rparr>\<rparr>]"
  using msg_hub_stop_returns [OF sys4_reach sys4_sel(1)]
  by (auto simp: sys4_sel TEST_STATUS_FLAG_def MSG_HUB_STARTED_def)

lemma replicate_small: "replicate 2 x = [x, x]" "replicate 16 x = [x, x, x, x, x, x, x, x, x, x, x, x, x, x, x, x]"
  by (simp_all add: numeral_eq_Suc)

lemma hub1_recver: "recver hub1 = [recver0\<lparr>rcv_status := 1, rcv_priv := 5, incoming_evt_notify := 6,
    rcv_bitmap := [8, 4, 0, 0, 0, 0, 0, 0, 0, 0, 0, 0, 0, 0, 0, 0]\<rparr>, recver0]"
  by (simp add: hub_eval add_bitmap_bit_def MODL_MASK_LEN_def replicate_small)

theorem msg_forward_receivers_witness:
  "hub_log (msg_forward \<lparr>ctx = msg1, completion = \<lparr>c_priv = 0, c_fun = None\<rparr>\<rparr> (hub sys1)) = [Notify 0 6 5 msg1]"
proof -
  have l: "length (recver (hub sys1)) = MSG_RECV_MAX" by (simp add: sys1_hub hub1_sel)
  have "MSG_MDL_ID_FIELD (msg_id msg1) = 3"
    by (simp add: MSG_MDL_ID_FIELD_def msg1_def)
  moreover have "chk_bitmap_bit MODL_MASK_LEN [8, 4, 0, 0, 0, 0, 0, 0, 0, 0, 0, 0, 0, 0, 0, 0] 3"
    by (simp add: chk_bitmap_bit_def MODL_MASK_LEN_def)
  ultimately show ?thesis
    using msg_forward_receivers [OF l, of "\<lparr>ctx = msg1, completion = \<lparr>c_priv = 0, c_fun = None\<rparr>\<rparr>"]
    by (simp add: sys1_hub hub1_recver hub1_sel upt_rec TEST_STATUS_FLAG_def MSG_HUB_STARTED_def
        MSG_RECVER_INIT_def recver0_def)
qed

theorem msg_hub_mask_witness:
  "chk_bitmap_bit MODL_MASK_LEN (rcv_bitmap (recver (snd (phl_msg_hub_update_recver_mask 0 [41] False hub1)) ! 0)) 41"
proof -
  obtain pstatus h where eq: "phl_msg_hub_update_recver_mask 0 [41] False hub1 = (pstatus, h)" by fastforce
  then have "pstatus = RTW_PHL_STATUS_SUCCESS"
    by (auto simp: phl_msg_hub_update_recver_mask_def hub1_sel hub1_recver TEST_STATUS_FLAG_def MSG_HUB_INIT_def
        MSG_RECVER_INIT_def MSG_RECV_MAX_def Let_def)
  with eq have "phl_msg_hub_update_recver_mask 0 [41] False hub1 = (RTW_PHL_STATUS_SUCCESS, h)" by simp
  from msg_hub_mask [OF this, of 41] show ?thesis
    by (simp add: eq hub1_recver)
qed

end
