(* ===== verification/Mac_Pkt_Ofld.thy ===== *)
theory Mac_Pkt_Ofld
  imports Phl_Prelude
begin

section \<open>Packet offload in the MAC layer (mac_ax/fwofld.c, fwcmd.c, hal_api_mac.c)\<close>

text \<open>
  The driver stores packets in the firmware under 8-bit ids. \<^verbatim>\<open>mac_add_pkt_ofld\<close>,
  \<^verbatim>\<open>mac_del_pkt_ofld\<close> and \<^verbatim>\<open>mac_read_pkt_ofld\<close> send a command (H2C) and move the state
  \<^verbatim>\<open>sm.pkt_ofld\<close> to SENDING; the firmware's messages (C2H), in \<^verbatim>\<open>fwcmd.c\<close>, acknowledge the receipt,
  report the end and say what became of the id. The HAL polls until the state says the operation
  is over. The results of \<^verbatim>\<open>PLTFM_MALLOC\<close> and of sending a command are arguments.
\<close>

subsection \<open>State\<close>

text \<open>The return codes of \<^verbatim>\<open>errors.h\<close> that occur here; other codes of the command path are \<open>MACERR\<close>.\<close>

datatype mac_ret =
  MACSUCCESS | MACNOBUF | MACNOITEM | MACBUFALLOC | MACNOFW | MACPROCBUSY | MACPROCERR | MACERR u32

datatype ofld_h2c =
    MAC_AX_OFLD_H2C_IDLE | MAC_AX_OFLD_H2C_SENDING | MAC_AX_OFLD_H2C_RCVD
  | MAC_AX_OFLD_H2C_DONE | MAC_AX_OFLD_H2C_ERROR

definition PKT_OFLD_OP_ADD :: u8 where "PKT_OFLD_OP_ADD = 0"
definition PKT_OFLD_OP_DEL :: u8 where "PKT_OFLD_OP_DEL = 1"
definition PKT_OFLD_OP_READ :: u8 where "PKT_OFLD_OP_READ = 2"
definition PKT_OFLD_OP_MAX :: u8 where "PKT_OFLD_OP_MAX = 3"
definition PKT_OFLD_NOT_EXISTS_ID :: u8 where "PKT_OFLD_NOT_EXISTS_ID = 0xFF"

text \<open>
  The offload states of \<^verbatim>\<open>struct mac_ax_state_mach\<close>, \<^verbatim>\<open>pkt_ofld_info\<close> and \<^verbatim>\<open>pkt_ofld_pkt\<close> of the
  adapter. \<open>fwdl_rdy\<close> is \<^verbatim>\<open>sm.fwdl == MAC_AX_FWDL_INIT_RDY\<close>; \<open>op_buf\<close> is the packet last read, with
  the flag that its memory is live; \<open>h2c_log\<close> collects the commands sent: the first word, the
  packet and the length given to the command path; \<open>gen_log\<close> the general-id commands.
\<close>

record mac_ofld =
  fwdl_rdy :: bool
  efuse_ofld :: ofld_h2c
  pkt_ofld :: ofld_h2c
  read_h2c :: ofld_h2c
  write_h2c :: ofld_h2c
  conf_h2c :: ofld_h2c
  read_request :: u8
  write_request :: u8
  conf_request :: u8
  ch_switch :: u8
  sta_csa_st :: u8
  sta_csa_ret :: u8
  last_op :: u8
  free_id_count :: u16
  used_id_count :: u16
  id_bitmap :: "u8 list"
  op_id :: u8
  op_len :: u16
  op_buf :: "(bool \<times> u8 list) option"
  h2c_log :: "(u32 \<times> u8 list \<times> u16) list"
  gen_log :: "(u32 \<times> u32) list"

subsection \<open>The bitmap of ids\<close>

definition mac_pkt_ofld_set_bitmap :: "u8 list \<Rightarrow> u16 \<Rightarrow> u8 list" where
  "mac_pkt_ofld_set_bitmap bm index =
     bm[unat (drop_bit 3 index) := bm ! unat (drop_bit 3 index) OR push_bit (unat (index AND 7)) 1]"

definition mac_pkt_ofld_unset_bitmap :: "u8 list \<Rightarrow> u16 \<Rightarrow> u8 list" where
  "mac_pkt_ofld_unset_bitmap bm index =
     (if index = ucast PKT_OFLD_NOT_EXISTS_ID then bm
      else bm[unat (drop_bit 3 index) := bm ! unat (drop_bit 3 index) AND NOT (push_bit (unat (index AND 7)) 1)])"

definition mac_pkt_ofld_get_bitmap :: "u8 list \<Rightarrow> u16 \<Rightarrow> u8" where
  "mac_pkt_ofld_get_bitmap bm index =
     (if index = ucast PKT_OFLD_NOT_EXISTS_ID then 1
      else if bm ! (unat index div 8) AND push_bit (unat (index AND 7)) 1 \<noteq> 0 then 1 else 0)"

subsection \<open>Commands\<close>

definition SET_WORD :: "u32 \<Rightarrow> u32 \<Rightarrow> nat \<Rightarrow> u32" where
  "SET_WORD v msk sh = push_bit sh (v AND msk)"

definition GET_FIELD :: "u32 \<Rightarrow> u32 \<Rightarrow> nat \<Rightarrow> u32" where
  "GET_FIELD w msk sh = drop_bit sh w AND msk"

definition packet_ofld_dword :: "u8 \<Rightarrow> u8 \<Rightarrow> u16 \<Rightarrow> u32" where
  "packet_ofld_dword i op len =
     SET_WORD (ucast i) 0xff 0 OR SET_WORD (ucast op) 0x7 8 OR SET_WORD (ucast len) 0xffff 16"

text \<open>Sending the command, and what follows it in all three operations.\<close>

definition send_packet_ofld :: "mac_ret \<Rightarrow> u32 \<Rightarrow> u8 list \<Rightarrow> u16 \<Rightarrow> u8 \<Rightarrow> mac_ofld \<Rightarrow> mac_ret \<times> mac_ofld" where
  "send_packet_ofld h2c dword pkt clen op m =
     (let m1 = (if h2c = MACSUCCESS then m\<lparr>h2c_log := h2c_log m @ [(dword, pkt, clen)]\<rparr>
                else m\<lparr>pkt_ofld := MAC_AX_OFLD_H2C_IDLE\<rparr>)
      in (h2c, m1\<lparr>last_op := op\<rparr>))"

definition mac_read_pkt_ofld :: "bool \<Rightarrow> mac_ret \<Rightarrow> u8 \<Rightarrow> mac_ofld \<Rightarrow> mac_ret \<times> mac_ofld" where
  "mac_read_pkt_ofld mem h2c i m =
     (if \<not> fwdl_rdy m then (MACNOFW, m)
      else if i = PKT_OFLD_NOT_EXISTS_ID then (MACNOITEM, m)
      else if mac_pkt_ofld_get_bitmap (id_bitmap m) (ucast i) = 0 then (MACNOITEM, m)
      else if pkt_ofld m \<noteq> MAC_AX_OFLD_H2C_IDLE then (MACPROCERR, m)
      else if \<not> mem then (MACNOBUF, m)
      else send_packet_ofld h2c (packet_ofld_dword i PKT_OFLD_OP_READ 0) [] 4 PKT_OFLD_OP_READ
             (m\<lparr>pkt_ofld := MAC_AX_OFLD_H2C_SENDING\<rparr>))"

definition mac_del_pkt_ofld :: "bool \<Rightarrow> mac_ret \<Rightarrow> u8 \<Rightarrow> mac_ofld \<Rightarrow> mac_ret \<times> mac_ofld" where
  "mac_del_pkt_ofld mem h2c i m =
     (if \<not> fwdl_rdy m then (MACNOFW, m)
      else if i = PKT_OFLD_NOT_EXISTS_ID then (MACNOITEM, m)
      else if mac_pkt_ofld_get_bitmap (id_bitmap m) (ucast i) = 0 then (MACNOITEM, m)
      else if used_id_count m = 0 then (MACNOITEM, m)
      else if pkt_ofld m \<noteq> MAC_AX_OFLD_H2C_IDLE then (MACPROCERR, m)
      else
        let m1 = m\<lparr>pkt_ofld := MAC_AX_OFLD_H2C_SENDING\<rparr>
        in if \<not> mem then (MACBUFALLOC, m1)
           else send_packet_ofld h2c (packet_ofld_dword i PKT_OFLD_OP_DEL 0) [] 4 PKT_OFLD_OP_DEL m1)"

text \<open>The loop that looks for a free id: the first one, or 255 when there is none.\<close>

definition alloc_pkt_id :: "u8 list \<Rightarrow> u16" where
  "alloc_pkt_id bm =
     (case List.find (\<lambda>i. mac_pkt_ofld_get_bitmap bm (of_nat i) = 0) [0..<255] of
        None \<Rightarrow> 255
      | Some i \<Rightarrow> of_nat i)"

text \<open>\<open>i\<close> is the value behind the \<^verbatim>\<open>id\<close> pointer, before and after.\<close>

definition mac_add_pkt_ofld ::
  "bool \<Rightarrow> mac_ret \<Rightarrow> u8 list \<Rightarrow> u16 \<Rightarrow> u8 \<Rightarrow> mac_ofld \<Rightarrow> mac_ret \<times> u8 \<times> mac_ofld" where
  "mac_add_pkt_ofld mem h2c pkt len i m =
     (if \<not> fwdl_rdy m then (MACNOFW, i, m)
      else if free_id_count m = 0 then (MACNOBUF, i, m)
      else if pkt_ofld m \<noteq> MAC_AX_OFLD_H2C_IDLE then (MACPROCERR, i, m)
      else
        let m1 = m\<lparr>pkt_ofld := MAC_AX_OFLD_H2C_SENDING\<rparr>;
            alloc_id = alloc_pkt_id (id_bitmap m)
        in if alloc_id = ucast PKT_OFLD_NOT_EXISTS_ID then (MACNOBUF, i, m1)
           else if \<not> mem then (MACBUFALLOC, i, m1)
           else
             let total_size = ucast len + 4 :: u32;
                 (ret, m2) = send_packet_ofld h2c (packet_ofld_dword (ucast alloc_id) PKT_OFLD_OP_ADD len)
                               (take (unat len) pkt) (ucast total_size) PKT_OFLD_OP_ADD m1
             in (ret, ucast alloc_id, m2))"

definition mac_pkt_ofld_packet :: "bool \<Rightarrow> mac_ofld \<Rightarrow> mac_ret \<times> (u8 list \<times> u16 \<times> u8) option \<times> mac_ofld" where
  "mac_pkt_ofld_packet mem m =
     (if pkt_ofld m \<noteq> MAC_AX_OFLD_H2C_DONE then (MACPROCERR, None, m)
      else if \<not> mem then (MACBUFALLOC, None, m)
      else (MACSUCCESS,
            Some (case op_buf m of None \<Rightarrow> [] | Some (live, bs) \<Rightarrow> bs, op_len m, op_id m),
            m\<lparr>pkt_ofld := MAC_AX_OFLD_H2C_IDLE\<rparr>))"

subsection \<open>State queries\<close>

definition FW_OFLD_OP_PACKET_OFLD :: u8 where "FW_OFLD_OP_PACKET_OFLD = 1"

definition mac_reset_fwofld_state :: "u8 \<Rightarrow> mac_ofld \<Rightarrow> mac_ret \<times> mac_ofld" where
  "mac_reset_fwofld_state op m =
     (if op = 0 then (MACSUCCESS, m\<lparr>efuse_ofld := MAC_AX_OFLD_H2C_IDLE\<rparr>)
      else if op = FW_OFLD_OP_PACKET_OFLD then
        (MACSUCCESS,
         m\<lparr>pkt_ofld := MAC_AX_OFLD_H2C_IDLE,
           id_bitmap := mac_pkt_ofld_set_bitmap (replicate 32 0) (ucast PKT_OFLD_NOT_EXISTS_ID),
           last_op := PKT_OFLD_OP_MAX, free_id_count := 255, used_id_count := 1\<rparr>)
      else if op = 2 then (MACSUCCESS, m\<lparr>read_request := 0, read_h2c := MAC_AX_OFLD_H2C_IDLE\<rparr>)
      else if op = 3 then (MACSUCCESS, m\<lparr>write_request := 0, write_h2c := MAC_AX_OFLD_H2C_IDLE\<rparr>)
      else if op = 4 then (MACSUCCESS, m\<lparr>conf_request := 0, conf_h2c := MAC_AX_OFLD_H2C_IDLE\<rparr>)
      else if op = 5 then (MACSUCCESS, m\<lparr>ch_switch := 0\<rparr>)
      else (MACNOITEM, m))"

definition mac_check_fwofld_done :: "u8 \<Rightarrow> mac_ofld \<Rightarrow> mac_ret" where
  "mac_check_fwofld_done op m =
     (if op > 5 then MACNOITEM
      else if op = 0 \<and> efuse_ofld m = MAC_AX_OFLD_H2C_IDLE \<or>
         op = FW_OFLD_OP_PACKET_OFLD \<and>
           (if last_op m = PKT_OFLD_OP_READ then pkt_ofld m = MAC_AX_OFLD_H2C_DONE
            else pkt_ofld m = MAC_AX_OFLD_H2C_IDLE) \<or>
         op = 2 \<and> read_h2c m = MAC_AX_OFLD_H2C_DONE \<or>
         op = 3 \<and> write_h2c m = MAC_AX_OFLD_H2C_IDLE \<or>
         op = 4 \<and> conf_h2c m = MAC_AX_OFLD_H2C_IDLE \<or>
         op = 5 \<and> (ch_switch m = 0 \<or> ch_switch m = 4)
      then MACSUCCESS else MACPROCBUSY)"

subsection \<open>Messages of the firmware\<close>

text \<open>
  The function codes whose state is modelled. The scan, CSI sensing and scheduler codes of the done-ack
  concern state of their own; every other code is ignored by the handlers.
\<close>

datatype ofld_func = F_WRITE | F_CONF | F_PACKET | F_READ | F_EFUSE | F_CH_SWITCH | F_STA_CSA

definition MAC_AX_STA_CSA_IDLE :: u8 where "MAC_AX_STA_CSA_IDLE = 0"
definition MAC_AX_STA_CSA_SENDING :: u8 where "MAC_AX_STA_CSA_SENDING = 1"
definition MAC_AX_STA_CSA_BUSY :: u8 where "MAC_AX_STA_CSA_BUSY = 2"

definition on_sending :: "ofld_h2c \<Rightarrow> ofld_h2c" where
  "on_sending s = (if s = MAC_AX_OFLD_H2C_SENDING then MAC_AX_OFLD_H2C_RCVD else s)"

definition c2h_fwofld_rcv_ack_hdl :: "ofld_func \<Rightarrow> mac_ofld \<Rightarrow> mac_ofld" where
  "c2h_fwofld_rcv_ack_hdl f m =
     (case f of
        F_WRITE \<Rightarrow> m\<lparr>write_h2c := on_sending (write_h2c m)\<rparr>
      | F_CONF \<Rightarrow> m\<lparr>conf_h2c := on_sending (conf_h2c m)\<rparr>
      | F_PACKET \<Rightarrow> m\<lparr>pkt_ofld := on_sending (pkt_ofld m)\<rparr>
      | F_READ \<Rightarrow> m\<lparr>read_h2c := on_sending (read_h2c m)\<rparr>
      | F_EFUSE \<Rightarrow> m\<lparr>efuse_ofld := on_sending (efuse_ofld m)\<rparr>
      | F_CH_SWITCH \<Rightarrow> if ch_switch m = 1 then m\<lparr>ch_switch := 2\<rparr> else m
      | F_STA_CSA \<Rightarrow> if sta_csa_st m = MAC_AX_STA_CSA_SENDING then m\<lparr>sta_csa_st := MAC_AX_STA_CSA_BUSY\<rparr> else m)"

definition on_rcvd :: "bool \<Rightarrow> ofld_h2c \<Rightarrow> ofld_h2c \<Rightarrow> ofld_h2c" where
  "on_rcvd ok good s =
     (if s = MAC_AX_OFLD_H2C_RCVD then (if ok then good else MAC_AX_OFLD_H2C_ERROR) else s)"

definition c2h_fwofld_done_ack_hdl :: "ofld_func \<Rightarrow> u8 \<Rightarrow> mac_ofld \<Rightarrow> mac_ofld" where
  "c2h_fwofld_done_ack_hdl f h2c_return m =
     (let ok = (h2c_return = 0) in
      case f of
        F_WRITE \<Rightarrow> m\<lparr>write_h2c := on_rcvd ok MAC_AX_OFLD_H2C_IDLE (write_h2c m)\<rparr>
      | F_CONF \<Rightarrow> m\<lparr>conf_h2c := on_rcvd ok MAC_AX_OFLD_H2C_IDLE (conf_h2c m)\<rparr>
      | F_PACKET \<Rightarrow>
          m\<lparr>pkt_ofld := on_rcvd ok
              (if last_op m = PKT_OFLD_OP_READ then MAC_AX_OFLD_H2C_DONE else MAC_AX_OFLD_H2C_IDLE) (pkt_ofld m)\<rparr>
      | F_READ \<Rightarrow> m\<lparr>read_h2c := on_rcvd ok MAC_AX_OFLD_H2C_DONE (read_h2c m)\<rparr>
      | F_EFUSE \<Rightarrow> m\<lparr>efuse_ofld := on_rcvd ok MAC_AX_OFLD_H2C_DONE (efuse_ofld m)\<rparr>
      | F_CH_SWITCH \<Rightarrow> m
      | F_STA_CSA \<Rightarrow>
          if sta_csa_st m = MAC_AX_STA_CSA_BUSY then m\<lparr>sta_csa_st := MAC_AX_STA_CSA_IDLE, sta_csa_ret := h2c_return\<rparr>
          else m)"

definition bm_bit :: "u8 list \<Rightarrow> u8 \<Rightarrow> bool" where
  "bm_bit bm i \<longleftrightarrow> bm ! (unat i div 8) AND push_bit (unat i mod 8) 1 \<noteq> 0"

text \<open>The cases of \<^verbatim>\<open>c2h_pkt_ofld_rsp_hdl\<close> and what follows its switch.\<close>

definition rsp_add :: "u8 \<Rightarrow> mac_ofld \<Rightarrow> mac_ofld" where
  "rsp_add i m =
     (let m1 = (if \<not> bm_bit (id_bitmap m) i
                then m\<lparr>free_id_count := free_id_count m - 1, used_id_count := used_id_count m + 1\<rparr> else m)
      in m1\<lparr>id_bitmap := (id_bitmap m1)[unat i div 8 := id_bitmap m1 ! (unat i div 8) OR push_bit (unat i mod 8) 1]\<rparr>)"

definition rsp_del :: "u8 \<Rightarrow> mac_ofld \<Rightarrow> mac_ofld" where
  "rsp_del i m =
     (let m1 = (if bm_bit (id_bitmap m) i
                then m\<lparr>free_id_count := free_id_count m + 1, used_id_count := used_id_count m - 1\<rparr> else m)
      in m1\<lparr>id_bitmap := (id_bitmap m1)[unat i div 8 := id_bitmap m1 ! (unat i div 8) AND NOT (push_bit (unat i mod 8) 1)]\<rparr>)"

definition rsp_finish :: "mac_ofld \<Rightarrow> mac_ofld" where
  "rsp_finish m =
     (if pkt_ofld m = MAC_AX_OFLD_H2C_ERROR
      then m\<lparr>pkt_ofld := if last_op m = PKT_OFLD_OP_READ then MAC_AX_OFLD_H2C_DONE else MAC_AX_OFLD_H2C_IDLE\<rparr>
      else m)"

text \<open>
  \<^verbatim>\<open>c2h_pkt_ofld_rsp_hdl\<close>: the first word of the message and the bytes after it. When the buffer of
  a packet read before was freed and the new one cannot be had, the old pointer stays, dead.
\<close>

definition c2h_pkt_ofld_rsp_hdl :: "bool \<Rightarrow> u32 \<Rightarrow> u8 list \<Rightarrow> mac_ofld \<Rightarrow> mac_ret \<times> mac_ofld" where
  "c2h_pkt_ofld_rsp_hdl mem content bytes m =
     (let pkt_op = GET_FIELD content 0x7 8;
          pkt_len = (ucast (GET_FIELD content 0xffff 16) :: u16);
          i = (ucast (GET_FIELD content 0xff 0) :: u8)
      in if i = PKT_OFLD_NOT_EXISTS_ID then (MACNOITEM, m)
         else if pkt_len = 0 then (MACSUCCESS, rsp_finish m)
         else if pkt_op = ucast PKT_OFLD_OP_ADD then (MACSUCCESS, rsp_finish (rsp_add i m))
         else if pkt_op = ucast PKT_OFLD_OP_DEL then (MACSUCCESS, rsp_finish (rsp_del i m))
         else if pkt_op = ucast PKT_OFLD_OP_READ then
           if \<not> mem then (MACBUFALLOC, m\<lparr>op_buf := map_option (\<lambda>b. (False, snd b)) (op_buf m)\<rparr>)
           else (MACSUCCESS, rsp_finish (m\<lparr>op_id := i, op_len := pkt_len, op_buf := Some (True, take (unat pkt_len) bytes)\<rparr>))
         else (MACSUCCESS, rsp_finish m))"

subsection \<open>Everything that changes the state\<close>

text \<open>The operations of the driver, the messages of the firmware, and the reset.\<close>

datatype ofld_event =
    Ev_add bool mac_ret "u8 list" u16
  | Ev_del bool mac_ret u8
  | Ev_read bool mac_ret u8
  | Ev_packet bool
  | Ev_rcv ofld_func
  | Ev_done ofld_func u8
  | Ev_rsp bool u32 "u8 list"
  | Ev_reset u8

fun ofld_step :: "ofld_event \<Rightarrow> mac_ofld \<Rightarrow> mac_ofld" where
  "ofld_step (Ev_add mem h2c pkt len) m = snd (snd (mac_add_pkt_ofld mem h2c pkt len 255 m))"
| "ofld_step (Ev_del mem h2c i) m = snd (mac_del_pkt_ofld mem h2c i m)"
| "ofld_step (Ev_read mem h2c i) m = snd (mac_read_pkt_ofld mem h2c i m)"
| "ofld_step (Ev_packet mem) m = snd (snd (mac_pkt_ofld_packet mem m))"
| "ofld_step (Ev_rcv f) m = c2h_fwofld_rcv_ack_hdl f m"
| "ofld_step (Ev_done f r) m = c2h_fwofld_done_ack_hdl f r m"
| "ofld_step (Ev_rsp mem content bytes) m = snd (c2h_pkt_ofld_rsp_hdl mem content bytes m)"
| "ofld_step (Ev_reset op) m = snd (mac_reset_fwofld_state op m)"

subsection \<open>The HAL's operations (hal_api_mac.c)\<close>

datatype rtw_hal_status = RTW_HAL_STATUS_SUCCESS | RTW_HAL_STATUS_FAILURE | RTW_HAL_STATUS_MAC_INIT_FAILURE

definition POLLING_HALMAC_CNT :: nat where "POLLING_HALMAC_CNT = 100"

text \<open>
  The polling loop of \<^verbatim>\<open>_hal_mac_chk_pkt_ofld\<close>: \<open>env k\<close> is what the messages of the firmware do to the
  state during the \<open>k\<close>-th sleep.
\<close>

fun poll_pkt_ofld :: "(nat \<Rightarrow> mac_ofld \<Rightarrow> mac_ofld) \<Rightarrow> nat \<Rightarrow> nat \<Rightarrow> mac_ofld \<Rightarrow> rtw_hal_status \<times> mac_ofld" where
  "poll_pkt_ofld env k 0 m = (RTW_HAL_STATUS_FAILURE, m)"
| "poll_pkt_ofld env k (Suc n) m =
     (if mac_check_fwofld_done FW_OFLD_OP_PACKET_OFLD m = MACSUCCESS then (RTW_HAL_STATUS_SUCCESS, m)
      else poll_pkt_ofld env (Suc k) n (env k m))"

definition hal_mac_chk_pkt_ofld :: "(nat \<Rightarrow> mac_ofld \<Rightarrow> mac_ofld) \<Rightarrow> mac_ofld \<Rightarrow> rtw_hal_status \<times> mac_ofld" where
  "hal_mac_chk_pkt_ofld env m = poll_pkt_ofld env 0 POLLING_HALMAC_CNT m"

text \<open>
  The operations below check that the MAC adapter exists; here it does.
  One call into the MAC: allocation, sending, and the events of each sleep while it polls (messages
  of the firmware and anything other threads do).
\<close>

record mac_call =
  mc_mem :: bool
  mc_h2c :: mac_ret
  mc_env :: "nat \<Rightarrow> ofld_event list"
  mc_mem2 :: bool

definition mc_run :: "mac_call \<Rightarrow> nat \<Rightarrow> mac_ofld \<Rightarrow> mac_ofld" where
  "mc_run c k = fold ofld_step (mc_env c k)"

definition hal_mac_add_pkt_ofld ::
  "mac_call \<Rightarrow> u8 list \<Rightarrow> u16 \<Rightarrow> u8 \<Rightarrow> mac_ofld \<Rightarrow> rtw_hal_status \<times> u8 \<times> mac_ofld" where
  "hal_mac_add_pkt_ofld c pkt len i m =
     (case mac_add_pkt_ofld (mc_mem c) (mc_h2c c) pkt len i m of (ret, i1, m1) \<Rightarrow>
        if ret \<noteq> MACSUCCESS then (RTW_HAL_STATUS_FAILURE, i1, m1)
        else case hal_mac_chk_pkt_ofld (mc_run c) m1 of (st, m2) \<Rightarrow> (st, i1, m2))"

definition hal_mac_del_pkt_ofld :: "mac_call \<Rightarrow> u8 \<Rightarrow> mac_ofld \<Rightarrow> rtw_hal_status \<times> mac_ofld" where
  "hal_mac_del_pkt_ofld c i m =
     (case mac_del_pkt_ofld (mc_mem c) (mc_h2c c) i m of (ret, m1) \<Rightarrow>
        if ret \<noteq> MACSUCCESS then (RTW_HAL_STATUS_FAILURE, m1)
        else (RTW_HAL_STATUS_SUCCESS, snd (hal_mac_chk_pkt_ofld (mc_run c) m1)))"

definition hal_mac_read_pkt_ofld :: "mac_call \<Rightarrow> u8 \<Rightarrow> mac_ofld \<Rightarrow> rtw_hal_status \<times> u8 \<times> mac_ofld" where
  "hal_mac_read_pkt_ofld c i m =
     (case mac_read_pkt_ofld (mc_mem c) (mc_h2c c) i m of (ret, m1) \<Rightarrow>
        if ret \<noteq> MACSUCCESS then (RTW_HAL_STATUS_FAILURE, i, m1)
        else case hal_mac_chk_pkt_ofld (mc_run c) m1 of (st, m2) \<Rightarrow>
          if st \<noteq> RTW_HAL_STATUS_SUCCESS then (RTW_HAL_STATUS_FAILURE, i, m2)
          else case mac_pkt_ofld_packet (mc_mem2 c) m2 of
                 (ret2, None, m3) \<Rightarrow> (RTW_HAL_STATUS_SUCCESS, i, m3)
               | (ret2, Some (bs, l, j), m3) \<Rightarrow> (RTW_HAL_STATUS_SUCCESS, j, m3))"

definition rtw_hal_mac_reset_pkt_ofld_state :: "mac_ofld \<Rightarrow> rtw_hal_status \<times> mac_ofld" where
  "rtw_hal_mac_reset_pkt_ofld_state m =
     (case mac_reset_fwofld_state FW_OFLD_OP_PACKET_OFLD m of (ret, m1) \<Rightarrow>
        (if ret \<noteq> MACSUCCESS then RTW_HAL_STATUS_FAILURE else RTW_HAL_STATUS_SUCCESS, m1))"

text \<open>\<^verbatim>\<open>mac_general_pkt_ids\<close> and its HAL wrapper: the two words of the command.\<close>

definition general_pkt_dwords :: "u8 \<Rightarrow> u8 \<Rightarrow> u8 \<Rightarrow> u8 \<Rightarrow> u8 \<Rightarrow> u8 \<Rightarrow> u8 \<Rightarrow> u8 \<Rightarrow> u32 \<times> u32" where
  "general_pkt_dwords mid probersp pspoll nulldata qosnull cts2self probereq apcsa =
     (SET_WORD (ucast mid) 0xff 0 OR SET_WORD (ucast probersp) 0xff 8 OR
        SET_WORD (ucast pspoll) 0xff 16 OR SET_WORD (ucast nulldata) 0xff 24,
      SET_WORD (ucast qosnull) 0xff 0 OR SET_WORD (ucast cts2self) 0xff 8 OR
        SET_WORD (ucast probereq) 0xff 16 OR SET_WORD (ucast apcsa) 0xff 24)"

definition mac_general_pkt_ids :: "bool \<Rightarrow> mac_ret \<Rightarrow> u32 \<times> u32 \<Rightarrow> mac_ofld \<Rightarrow> mac_ret \<times> mac_ofld" where
  "mac_general_pkt_ids mem h2c dwords m =
     (if \<not> fwdl_rdy m then (MACNOFW, m)
      else if \<not> mem then (MACBUFALLOC, m)
      else (h2c, if h2c = MACSUCCESS then m\<lparr>gen_log := gen_log m @ [dwords]\<rparr> else m))"

text \<open>The ids by packet type; the members the wrapper does not set are zero.\<close>

definition rtw_hal_mac_pkt_update_ids ::
  "bool \<Rightarrow> mac_ret \<Rightarrow> u16 \<Rightarrow> (nat \<Rightarrow> u8) \<Rightarrow> mac_ofld \<Rightarrow> rtw_hal_status \<times> mac_ofld" where
  "rtw_hal_mac_pkt_update_ids mem h2c mid ids m =
     (case mac_general_pkt_ids mem h2c
             (general_pkt_dwords (ucast mid) (ids 0) (ids 1) (ids 2) (ids 3) (ids 4) 0 0) m of
        (ret, m1) \<Rightarrow> (if ret \<noteq> MACSUCCESS then RTW_HAL_STATUS_FAILURE else RTW_HAL_STATUS_SUCCESS, m1))"

subsection \<open>Bits\<close>

lemma u8_div8: "unat (i::u8) div 8 < 32"
  using unat_u8_less [of i] by linarith

lemma bm_bit_iff: "bm_bit bm i \<longleftrightarrow> bit (bm ! (unat i div 8)) (unat i mod 8)"
  by (simp add: bm_bit_def and_exp_eq_0_iff_not_bit flip: push_bit_eq_mult)

lemma u8_div_mod_inj: "unat (i::u8) div 8 = unat j div 8 \<Longrightarrow> unat i mod 8 = unat j mod 8 \<Longrightarrow> i = j"
  by (metis div_mult_mod_eq word_unat_eq_iff)

lemma bm_bit_set:
  assumes "length bm = 32"
  shows "bm_bit (bm[unat i div 8 := bm ! (unat i div 8) OR push_bit (unat i mod 8) 1]) j \<longleftrightarrow> j = i \<or> bm_bit bm j"
proof (cases "unat j div 8 = unat i div 8")
  case True
  then have "unat j mod 8 = unat i mod 8 \<longleftrightarrow> j = i" using u8_div_mod_inj [of j i] by auto
  moreover have "unat j mod 8 < 8" by simp
  ultimately show ?thesis
    using True assms u8_div8 [of i] by (auto simp: bm_bit_iff bit_simps)
next
  case False
  then have "j \<noteq> i" by auto
  then show ?thesis using False by (simp add: bm_bit_iff)
qed

lemma bm_bit_clr:
  assumes "length bm = 32"
  shows "bm_bit (bm[unat i div 8 := bm ! (unat i div 8) AND NOT (push_bit (unat i mod 8) 1)]) j \<longleftrightarrow> j \<noteq> i \<and> bm_bit bm j"
proof (cases "unat j div 8 = unat i div 8")
  case True
  then have "unat j mod 8 = unat i mod 8 \<longleftrightarrow> j = i" using u8_div_mod_inj [of j i] by auto
  moreover have "unat j mod 8 < 8" by simp
  ultimately show ?thesis
    using True assms u8_div8 [of i] by (auto simp: bm_bit_iff bit_simps)
next
  case False
  then have "j \<noteq> i" by auto
  then show ?thesis using False by (simp add: bm_bit_iff)
qed

lemma idx_parts:
  "unat (drop_bit 3 (ucast (i::u8) :: u16)) = unat i div 8" "unat ((ucast i :: u16) AND 7) = unat i mod 8"
  "unat (ucast i :: u16) = unat i"
proof -
  show u: "unat (ucast i :: u16) = unat i"
    using unat_u8_less [of i] by (simp add: unsigned_ucast_eq take_bit_eq_mod unat_mod_distrib)
  show "unat (drop_bit 3 (ucast i :: u16)) = unat i div 8"
    by (simp add: drop_bit_eq_div unat_div_distrib u)
  have "(ucast i :: u16) AND 7 = take_bit 3 (ucast i)"
    by (simp add: take_bit_eq_mask mask_eq_exp_minus_1)
  then show "unat ((ucast i :: u16) AND 7) = unat i mod 8"
    by (simp add: take_bit_eq_mod unat_mod_distrib u)
qed

lemma get_bitmap_bit:
  "mac_pkt_ofld_get_bitmap bm (ucast (i::u8)) = (if i = 255 \<or> bm_bit bm i then 1 else 0)"
proof -
  have "(ucast i :: u16) = ucast (255 :: u8) \<longleftrightarrow> i = 255"
    by (metis idx_parts(3) word_unat_eq_iff)
  then show ?thesis
    by (simp add: mac_pkt_ofld_get_bitmap_def PKT_OFLD_NOT_EXISTS_ID_def idx_parts bm_bit_def)
qed

subsection \<open>The ids in use\<close>

definition used_ids :: "u8 list \<Rightarrow> u8 set" where
  "used_ids bm = {i. bm_bit bm i}"

definition ofld_wf :: "mac_ofld \<Rightarrow> bool" where
  "ofld_wf m \<longleftrightarrow>
     length (id_bitmap m) = 32 \<and> 255 \<in> used_ids (id_bitmap m) \<and>
     unat (used_id_count m) = card (used_ids (id_bitmap m)) \<and>
     unat (used_id_count m) + unat (free_id_count m) = 256"

lemma card_u8_le: "card (A :: u8 set) \<le> 256"
proof -
  have "card A \<le> card (UNIV :: u8 set)" by (rule card_mono) simp_all
  also have "\<dots> = 256" by (simp add: card_word)
  finally show ?thesis .
qed

lemma unat_succ_u16: "unat x < 65535 \<Longrightarrow> unat (x + 1 :: u16) = Suc (unat x)"
  by (simp add: unat_word_ariths)

lemma unat_pred_u16: "0 < unat x \<Longrightarrow> unat (x - 1 :: u16) = unat x - 1"
  by (metis One_nat_def gr_implies_not0 unat_0 unat_minus_one)

definition same_ids :: "mac_ofld \<Rightarrow> mac_ofld \<Rightarrow> bool" where
  "same_ids m m1 \<longleftrightarrow>
     id_bitmap m1 = id_bitmap m \<and> used_id_count m1 = used_id_count m \<and> free_id_count m1 = free_id_count m"

lemma same_ids_wf: "ofld_wf m \<Longrightarrow> same_ids m m1 \<Longrightarrow> ofld_wf m1"
  by (simp add: ofld_wf_def same_ids_def)

lemma driver_same_ids:
  "same_ids m (snd (snd (mac_add_pkt_ofld mem h2c pkt len i m)))"
  "same_ids m (snd (mac_del_pkt_ofld mem h2c i m))" "same_ids m (snd (mac_read_pkt_ofld mem h2c i m))"
  "same_ids m (snd (snd (mac_pkt_ofld_packet mem m)))"
  "same_ids m (c2h_fwofld_rcv_ack_hdl f m)" "same_ids m (c2h_fwofld_done_ack_hdl f r m)"
  by (simp_all add: same_ids_def mac_add_pkt_ofld_def mac_del_pkt_ofld_def mac_read_pkt_ofld_def
      mac_pkt_ofld_packet_def send_packet_ofld_def c2h_fwofld_rcv_ack_hdl_def c2h_fwofld_done_ack_hdl_def Let_def
      split: ofld_func.split)

lemma rsp_finish_wf: "ofld_wf (rsp_finish m) = ofld_wf m"
  by (simp add: ofld_wf_def rsp_finish_def)

lemma rsp_add_ids:
  assumes "length (id_bitmap m) = 32"
  shows "used_ids (id_bitmap (rsp_add i m)) = insert i (used_ids (id_bitmap m))"
  using bm_bit_set [OF assms] by (auto simp: used_ids_def rsp_add_def Let_def)

lemma rsp_del_ids:
  assumes "length (id_bitmap m) = 32"
  shows "used_ids (id_bitmap (rsp_del i m)) = used_ids (id_bitmap m) - {i}"
  using bm_bit_clr [OF assms] by (auto simp: used_ids_def rsp_del_def Let_def)

lemma rsp_add_wf:
  assumes wf: "ofld_wf m"
  shows "ofld_wf (rsp_add i m)"
proof (cases "bm_bit (id_bitmap m) i")
  case True
  then have "insert i (used_ids (id_bitmap m)) = used_ids (id_bitmap m)" by (auto simp: used_ids_def)
  then show ?thesis
    using wf True rsp_add_ids [of m i] by (simp add: ofld_wf_def) (simp add: rsp_add_def Let_def)
next
  case False
  then have c: "card (insert i (used_ids (id_bitmap m))) = Suc (card (used_ids (id_bitmap m)))"
    by (simp add: used_ids_def)
  have "Suc (card (used_ids (id_bitmap m))) \<le> 256"
    using card_u8_le [of "insert i (used_ids (id_bitmap m))"] c by simp
  then have "unat (used_id_count m + 1) = Suc (unat (used_id_count m))"
    "unat (free_id_count m - 1) = unat (free_id_count m) - 1" "0 < unat (free_id_count m)"
    using wf unat_succ_u16 [of "used_id_count m"] unat_pred_u16 [of "free_id_count m"]
    by (simp_all add: ofld_wf_def)
  then show ?thesis
    using wf False c rsp_add_ids [of m i] by (simp add: ofld_wf_def) (simp add: rsp_add_def Let_def)
qed

lemma rsp_del_wf:
  assumes wf: "ofld_wf m" and "i \<noteq> 255"
  shows "ofld_wf (rsp_del i m)"
proof (cases "bm_bit (id_bitmap m) i")
  case False
  then have "used_ids (id_bitmap m) - {i} = used_ids (id_bitmap m)" by (auto simp: used_ids_def)
  then show ?thesis
    using wf False rsp_del_ids [of m i] by (simp add: ofld_wf_def) (simp add: rsp_del_def Let_def)
next
  case True
  then have c: "card (used_ids (id_bitmap m) - {i}) = card (used_ids (id_bitmap m)) - 1" "0 < card (used_ids (id_bitmap m))"
    by (auto simp: used_ids_def card_gt_0_iff)
  then have "unat (free_id_count m + 1) = Suc (unat (free_id_count m))"
    "unat (used_id_count m - 1) = unat (used_id_count m) - 1" "0 < unat (used_id_count m)"
    using wf unat_succ_u16 [of "free_id_count m"] unat_pred_u16 [of "used_id_count m"]
    by (simp_all add: ofld_wf_def)
  then show ?thesis
    using wf True c assms(2) rsp_del_ids [of m i] by (simp add: ofld_wf_def) (simp add: rsp_del_def Let_def)
qed

lemma rsp_wf:
  assumes "ofld_wf m"
  shows "ofld_wf (snd (c2h_pkt_ofld_rsp_hdl mem content bytes m))"
proof -
  have "ofld_wf (m\<lparr>op_id := i, op_len := l, op_buf := b\<rparr>)" "ofld_wf (m\<lparr>op_buf := b\<rparr>)" for i l b
    using assms by (simp_all add: ofld_wf_def)
  then show ?thesis
    using assms
    by (simp add: c2h_pkt_ofld_rsp_hdl_def Let_def rsp_finish_wf rsp_add_wf rsp_del_wf PKT_OFLD_NOT_EXISTS_ID_def)
qed

lemma reset_ids:
  "used_ids (id_bitmap (snd (mac_reset_fwofld_state FW_OFLD_OP_PACKET_OFLD m))) = {255}"
  "ofld_wf (snd (mac_reset_fwofld_state FW_OFLD_OP_PACKET_OFLD m))"
proof -
  let ?m = "snd (mac_reset_fwofld_state FW_OFLD_OP_PACKET_OFLD m)"
  have len: "length (replicate 32 (0::u8)) = 32" by (rule length_replicate)
  have zero: "\<not> bm_bit (replicate 32 0) j" for j
    using u8_div8 [of j] by (simp add: bm_bit_iff)
  have bm: "id_bitmap ?m = (replicate 32 0)[unat (255::u8) div 8 :=
      replicate 32 0 ! (unat (255::u8) div 8) OR push_bit (unat (255::u8) mod 8) 1]"
    unfolding mac_reset_fwofld_state_def mac_pkt_ofld_set_bitmap_def PKT_OFLD_NOT_EXISTS_ID_def idx_parts
    by (simp add: FW_OFLD_OP_PACKET_OFLD_def)
  show u: "used_ids (id_bitmap ?m) = {255}"
    unfolding bm used_ids_def bm_bit_set [OF len] using zero by simp
  have "length (id_bitmap ?m) = 32" unfolding bm by simp
  then show "ofld_wf ?m"
    using u by (simp add: ofld_wf_def) (simp add: mac_reset_fwofld_state_def FW_OFLD_OP_PACKET_OFLD_def)
qed

lemma reset_other_same: "op \<noteq> FW_OFLD_OP_PACKET_OFLD \<Longrightarrow> same_ids m (snd (mac_reset_fwofld_state op m))"
  by (simp add: same_ids_def mac_reset_fwofld_state_def)

lemma ofld_step_wf: "ofld_wf m \<Longrightarrow> ofld_wf (ofld_step e m)"
  by (cases e; cases "\<exists>op. e = Ev_reset op \<and> op = FW_OFLD_OP_PACKET_OFLD")
    (auto simp: rsp_wf reset_ids intro: same_ids_wf driver_same_ids reset_other_same)

lemma ofld_run_wf: "ofld_wf m \<Longrightarrow> ofld_wf (fold ofld_step evs m)"
  by (induction evs arbitrary: m) (simp_all add: ofld_step_wf)

text \<open>A free id exists exactly while the counter says so, and the loop finds the least one.\<close>

lemma get_bitmap_nat:
  assumes "i < 255"
  shows "mac_pkt_ofld_get_bitmap bm (of_nat i) = 0 \<longleftrightarrow> (of_nat i :: u8) \<notin> used_ids bm"
proof -
  have u: "unat (of_nat i :: u8) = i" using assms by (simp add: unat_of_nat)
  have "(of_nat i :: u16) = ucast (of_nat i :: u8)"
    using assms by (simp add: word_unat_eq_iff idx_parts u unat_of_nat)
  moreover have "(of_nat i :: u8) \<noteq> 255"
    using u assms by auto
  ultimately show ?thesis by (simp add: get_bitmap_bit used_ids_def)
qed

lemma alloc_pkt_id_free:
  assumes wf: "ofld_wf m" and free: "free_id_count m \<noteq> 0"
  shows "\<exists>j::u8. alloc_pkt_id (id_bitmap m) = ucast j \<and> j \<noteq> 255 \<and> j \<notin> used_ids (id_bitmap m) \<and>
           (\<forall>k. k < j \<longrightarrow> k \<in> used_ids (id_bitmap m))"
proof -
  let ?u = "used_ids (id_bitmap m)" and ?P = "\<lambda>i. mac_pkt_ofld_get_bitmap (id_bitmap m) (of_nat i) = 0"
  have "unat (free_id_count m) \<noteq> 0" using free by (metis unat_eq_zero)
  then have "card ?u < 256" using wf by (simp add: ofld_wf_def)
  then have "?u \<noteq> UNIV" by (auto simp: card_word)
  then obtain j :: u8 where j: "j \<notin> ?u" by auto
  then have "j \<noteq> 255" using wf by (auto simp: ofld_wf_def)
  then have "unat j < 255" using unat_u8_less [of j] by (simp add: word_unat_eq_iff)
  moreover from this have "?P (unat j)" using get_bitmap_nat [of "unat j"] j by simp
  ultimately obtain i where i: "List.find ?P [0..<255] = Some i"
    by (cases "List.find ?P [0..<255]") (auto simp: find_None_iff)
  then have i1: "i < 255" "?P i" "\<forall>k<i. \<not> ?P k"
    by (auto simp: find_Some_iff)
  have u: "unat (of_nat i :: u8) = i" using i1(1) by (simp add: unat_of_nat)
  have "alloc_pkt_id (id_bitmap m) = ucast (of_nat i :: u8)"
    using i i1(1) by (simp add: alloc_pkt_id_def word_unat_eq_iff idx_parts u unat_of_nat)
  moreover have "(of_nat i :: u8) \<notin> ?u" using get_bitmap_nat [OF i1(1)] i1(2) by simp
  moreover have "k \<in> ?u" if "k < of_nat i" for k
  proof -
    have "unat k < i" using that u by (simp add: word_less_nat_alt)
    moreover from this have "\<not> ?P (unat k)" using i1(3) by blast
    ultimately show ?thesis using i1(1) get_bitmap_nat [of "unat k" "id_bitmap m"] by simp
  qed
  moreover have "(of_nat i :: u8) \<noteq> 255" using u i1(1) by auto
  ultimately show ?thesis by blast
qed

subsection \<open>Fields of the command word\<close>

lemma packet_dword_fields:
  assumes "op < 8"
  shows "ucast (GET_FIELD (packet_ofld_dword i op len) 0xff 0) = i"
    "GET_FIELD (packet_ofld_dword i op len) 0x7 8 = ucast op"
    "ucast (GET_FIELD (packet_ofld_dword i op len) 0xffff 16) = len"
proof -
  have m: "(0xff :: u32) = mask 8" "(0x7 :: u32) = mask 3" "(0xffff :: u32) = mask 16"
    by (simp_all add: mask_eq_exp_minus_1)
  have op: "take_bit 3 op = op"
    using assms by (simp add: take_bit_eq_mod word_unat_eq_iff unat_mod_distrib word_less_nat_alt)
  have op': "bit op n \<Longrightarrow> n < 3" for n
    using op by (metis bit_take_bit_iff)
  show "ucast (GET_FIELD (packet_ofld_dword i op len) 0xff 0) = i"
    by (rule bit_word_eqI) (auto simp: GET_FIELD_def packet_ofld_dword_def SET_WORD_def m bit_simps)
  show "GET_FIELD (packet_ofld_dword i op len) 0x7 8 = ucast op"
    by (rule bit_word_eqI) (auto simp: GET_FIELD_def packet_ofld_dword_def SET_WORD_def m bit_simps dest: op')
  show "ucast (GET_FIELD (packet_ofld_dword i op len) 0xffff 16) = len"
    by (rule bit_word_eqI) (auto simp: GET_FIELD_def packet_ofld_dword_def SET_WORD_def m bit_simps)
qed

subsection \<open>The driver's operations while the state is not idle\<close>

definition wedged :: "mac_ofld \<Rightarrow> mac_ofld \<Rightarrow> bool" where
  "wedged m m1 \<longleftrightarrow> pkt_ofld m1 = MAC_AX_OFLD_H2C_SENDING \<and> h2c_log m1 = h2c_log m"

fun is_driver_op :: "ofld_event \<Rightarrow> bool" where
  "is_driver_op (Ev_add _ _ _ _) = True"
| "is_driver_op (Ev_del _ _ _) = True"
| "is_driver_op (Ev_read _ _ _) = True"
| "is_driver_op (Ev_packet _) = True"
| "is_driver_op _ = False"

lemma driver_op_busy:
  assumes "pkt_ofld m = MAC_AX_OFLD_H2C_SENDING" and "is_driver_op e"
  shows "pkt_ofld (ofld_step e m) = MAC_AX_OFLD_H2C_SENDING \<and> h2c_log (ofld_step e m) = h2c_log m"
  using assms
  by (cases e) (simp_all add: mac_add_pkt_ofld_def mac_del_pkt_ofld_def mac_read_pkt_ofld_def mac_pkt_ofld_packet_def)

lemma driver_run_busy:
  "pkt_ofld m = MAC_AX_OFLD_H2C_SENDING \<Longrightarrow> \<forall>e \<in> set evs. is_driver_op e \<Longrightarrow>
   pkt_ofld (fold ofld_step evs m) = MAC_AX_OFLD_H2C_SENDING \<and> h2c_log (fold ofld_step evs m) = h2c_log m"
proof (induction evs arbitrary: m)
  case (Cons e evs)
  then show ?case using driver_op_busy [of m e] by simp
qed simp

subsection \<open>Polling\<close>

lemma check_packet_done:
  "mac_check_fwofld_done FW_OFLD_OP_PACKET_OFLD m = MACSUCCESS \<longleftrightarrow>
     pkt_ofld m = (if last_op m = PKT_OFLD_OP_READ then MAC_AX_OFLD_H2C_DONE else MAC_AX_OFLD_H2C_IDLE)"
  by (simp add: mac_check_fwofld_done_def FW_OFLD_OP_PACKET_OFLD_def)

lemma polling_cnt: "POLLING_HALMAC_CNT = Suc (Suc 98)"
  by (simp add: POLLING_HALMAC_CNT_def)

lemma poll_second:
  assumes "mac_check_fwofld_done FW_OFLD_OP_PACKET_OFLD m \<noteq> MACSUCCESS"
    and "mac_check_fwofld_done FW_OFLD_OP_PACKET_OFLD (env 0 m) = MACSUCCESS"
  shows "hal_mac_chk_pkt_ofld env m = (RTW_HAL_STATUS_SUCCESS, env 0 m)"
  unfolding hal_mac_chk_pkt_ofld_def polling_cnt poll_pkt_ofld.simps using assms by simp

subsection \<open>Adding\<close>

lemma cmd_len_u16: "(ucast (ucast (len :: u16) + 4 :: u32) :: u16) = len + 4"
proof (transfer, simp)
  fix n :: int
  show "take_bit 16 (take_bit 16 n + 4) = take_bit 16 (n + 4)"
    by (metis take_bit_add take_bit_take_bit min.idem)
qed

lemma add_pkt_ofld_fresh:
  assumes wf: "ofld_wf m" and st: "fwdl_rdy m" "pkt_ofld m = MAC_AX_OFLD_H2C_IDLE"
    and call: "mac_add_pkt_ofld True MACSUCCESS pkt len i0 m = (ret, i, m')"
  shows "if free_id_count m = 0 then ret = MACNOBUF \<and> m' = m
         else ret = MACSUCCESS \<and> i \<notin> used_ids (id_bitmap m) \<and> (\<forall>k<i. k \<in> used_ids (id_bitmap m)) \<and> i \<noteq> 255 \<and>
              pkt_ofld m' = MAC_AX_OFLD_H2C_SENDING \<and>
              (\<exists>w clen. h2c_log m' = h2c_log m @ [(w, take (unat len) pkt, clen)] \<and>
                 ucast (GET_FIELD w 0xff 0) = i \<and> GET_FIELD w 0x7 8 = ucast PKT_OFLD_OP_ADD \<and>
                 ucast (GET_FIELD w 0xffff 16) = len \<and> clen = len + 4)"
proof (cases "free_id_count m = 0")
  case True
  then show ?thesis using call st by (simp add: mac_add_pkt_ofld_def)
next
  case False
  from alloc_pkt_id_free [OF wf this] obtain j :: u8 where
    j: "alloc_pkt_id (id_bitmap m) = ucast j" "j \<noteq> 255" "j \<notin> used_ids (id_bitmap m)"
      "\<forall>k. k < j \<longrightarrow> k \<in> used_ids (id_bitmap m)" by blast
  have ne: "(ucast j :: u16) \<noteq> ucast (255 :: u8)" using j(2) by (metis idx_parts(3) word_unat_eq_iff)
  have trip: "(ucast (ucast j :: u16) :: u8) = j"
    by (rule bit_word_eqI) (simp add: bit_simps)
  have "ret = MACSUCCESS \<and> i = j \<and> pkt_ofld m' = MAC_AX_OFLD_H2C_SENDING \<and>
      h2c_log m' = h2c_log m @ [(packet_ofld_dword j PKT_OFLD_OP_ADD len, take (unat len) pkt, len + 4)]"
    using call False st ne trip by (auto simp: mac_add_pkt_ofld_def Let_def send_packet_ofld_def j(1) PKT_OFLD_NOT_EXISTS_ID_def cmd_len_u16)
  then show ?thesis
    using False j packet_dword_fields [of PKT_OFLD_OP_ADD j len] by (auto simp: PKT_OFLD_OP_ADD_def)
qed

text \<open>A firmware that stores the packet: it acknowledges, reports success and answers with the id.\<close>

definition fw_stores :: "u8 \<Rightarrow> u16 \<Rightarrow> ofld_event list" where
  "fw_stores i len = [Ev_rcv F_PACKET, Ev_done F_PACKET 0, Ev_rsp True (packet_ofld_dword i PKT_OFLD_OP_ADD len) []]"

lemma fw_stores_effect:
  assumes "pkt_ofld m = MAC_AX_OFLD_H2C_SENDING" "last_op m = PKT_OFLD_OP_ADD" "i \<noteq> 255" "len \<noteq> 0"
    and "length (id_bitmap m) = 32"
  defines "m' \<equiv> fold ofld_step (fw_stores i len) m"
  shows "pkt_ofld m' = MAC_AX_OFLD_H2C_IDLE \<and> last_op m' = PKT_OFLD_OP_ADD \<and>
    used_ids (id_bitmap m') = insert i (used_ids (id_bitmap m)) \<and> h2c_log m' = h2c_log m \<and> fwdl_rdy m' = fwdl_rdy m"
proof -
  let ?m = "m\<lparr>pkt_ofld := MAC_AX_OFLD_H2C_IDLE\<rparr>"
  have f: "ucast (GET_FIELD (packet_ofld_dword i PKT_OFLD_OP_ADD len) 0xff 0) = i"
    "GET_FIELD (packet_ofld_dword i PKT_OFLD_OP_ADD len) 0x7 8 = ucast PKT_OFLD_OP_ADD"
    "ucast (GET_FIELD (packet_ofld_dword i PKT_OFLD_OP_ADD len) 0xffff 16) = len"
    using packet_dword_fields [of PKT_OFLD_OP_ADD i len] by (simp_all add: PKT_OFLD_OP_ADD_def)
  have "m' = rsp_finish (rsp_add i ?m)"
    unfolding m'_def fw_stores_def using assms(1-4)
    by (simp add: c2h_fwofld_rcv_ack_hdl_def c2h_fwofld_done_ack_hdl_def on_sending_def on_rcvd_def Let_def
        PKT_OFLD_OP_ADD_def PKT_OFLD_OP_READ_def)
      (simp add: c2h_pkt_ofld_rsp_hdl_def Let_def f [unfolded PKT_OFLD_OP_ADD_def] PKT_OFLD_NOT_EXISTS_ID_def
        PKT_OFLD_OP_ADD_def)
  moreover have "pkt_ofld (rsp_add i ?m) = MAC_AX_OFLD_H2C_IDLE" by (simp add: rsp_add_def Let_def)
  ultimately have "m' = rsp_add i ?m" by (simp add: rsp_finish_def)
  then show ?thesis
    using rsp_add_ids [of ?m i] assms(2,5) by simp (simp add: rsp_add_def Let_def)
qed

lemma hal_add_stored:
  assumes wf: "ofld_wf m" and st: "fwdl_rdy m" "pkt_ofld m = MAC_AX_OFLD_H2C_IDLE" "free_id_count m \<noteq> 0"
    and i: "i \<notin> used_ids (id_bitmap m)" "\<forall>k<i. k \<in> used_ids (id_bitmap m)" and len: "len \<noteq> 0"
    and c: "mc_mem c" "mc_h2c c = MACSUCCESS" "mc_env c 0 = fw_stores i len"
  shows "\<exists>m' w. hal_mac_add_pkt_ofld c pkt len i0 m = (RTW_HAL_STATUS_SUCCESS, i, m') \<and>
    used_ids (id_bitmap m') = insert i (used_ids (id_bitmap m)) \<and> fwdl_rdy m' \<and> pkt_ofld m' = MAC_AX_OFLD_H2C_IDLE \<and>
    h2c_log m' = h2c_log m @ [(w, take (unat len) pkt, len + 4)] \<and> ucast (GET_FIELD w 0xff 0) = i \<and>
    GET_FIELD w 0x7 8 = ucast PKT_OFLD_OP_ADD \<and> ucast (GET_FIELD w 0xffff 16) = len"
proof -
  obtain ret j m1 where a: "mac_add_pkt_ofld True MACSUCCESS pkt len i0 m = (ret, j, m1)" by (metis prod_cases3)
  then obtain w where f: "ret = MACSUCCESS" "j \<notin> used_ids (id_bitmap m)" "\<forall>k<j. k \<in> used_ids (id_bitmap m)" "j \<noteq> 255"
    "pkt_ofld m1 = MAC_AX_OFLD_H2C_SENDING" "h2c_log m1 = h2c_log m @ [(w, take (unat len) pkt, len + 4)]"
    "ucast (GET_FIELD w 0xff 0) = j" "ucast (GET_FIELD w 0xffff 16) = len" "GET_FIELD w 0x7 8 = ucast PKT_OFLD_OP_ADD"
    using add_pkt_ofld_fresh [OF wf st(1,2) a] st(3) by auto
  have "j = i" using f(2,3) i by (metis linorder_neqE)
  have l: "last_op m1 = PKT_OFLD_OP_ADD" "id_bitmap m1 = id_bitmap m" "fwdl_rdy m1"
    using a f(1) st by (auto simp: mac_add_pkt_ofld_def Let_def send_packet_ofld_def split: if_splits)
  have b: "length (id_bitmap m1) = 32" using wf l(2) by (simp add: ofld_wf_def)
  define m2 where "m2 = fold ofld_step (fw_stores i len) m1"
  have m2: "pkt_ofld m2 = MAC_AX_OFLD_H2C_IDLE" "last_op m2 = PKT_OFLD_OP_ADD"
    "used_ids (id_bitmap m2) = insert i (used_ids (id_bitmap m))" "h2c_log m2 = h2c_log m1" "fwdl_rdy m2"
    using fw_stores_effect [OF f(5) l(1) _ len b, of i] f(4) \<open>j = i\<close> l by (simp_all add: m2_def)
  have "mac_check_fwofld_done FW_OFLD_OP_PACKET_OFLD m1 \<noteq> MACSUCCESS"
      "mac_check_fwofld_done FW_OFLD_OP_PACKET_OFLD m2 = MACSUCCESS"
    using f(5) l(1) m2(1,2) by (simp_all add: check_packet_done PKT_OFLD_OP_ADD_def PKT_OFLD_OP_READ_def)
  then have "hal_mac_chk_pkt_ofld (mc_run c) m1 = (RTW_HAL_STATUS_SUCCESS, m2)"
    using poll_second [of m1 "mc_run c"] c(3) by (simp add: mc_run_def m2_def)
  then have "hal_mac_add_pkt_ofld c pkt len i0 m = (RTW_HAL_STATUS_SUCCESS, i, m2)"
    using a f(1) c(1,2) \<open>j = i\<close> by (simp add: hal_mac_add_pkt_ofld_def)
  then show ?thesis using m2 f \<open>j = i\<close> by auto
qed

subsection \<open>Properties\<close>

text \<open>
  C26. The books of the packet ids are right after a reset and any sequence of driver operations,
  firmware messages (in any order and with any content) and further resets: the used counter is
  the number of ids marked in the bitmap, the two counters add up to 256, and the id 255, which
  means "no packet", stays marked.
\<close>

theorem pkt_ofld_id_accounting:
  "let m1 = fold ofld_step evs (snd (mac_reset_fwofld_state FW_OFLD_OP_PACKET_OFLD m))
   in unat (used_id_count m1) = card (used_ids (id_bitmap m1)) \<and>
      unat (used_id_count m1) + unat (free_id_count m1) = 256 \<and> 255 \<in> used_ids (id_bitmap m1)"
  using ofld_run_wf [OF reset_ids(2), of evs m] by (simp add: Let_def ofld_wf_def)

text \<open>
  Adding a packet with the state idle, memory and the command path working: while an id is
  free it takes the least free id, sends one command whose word carries that id, the add operation
  and the length, and waits; it refuses exactly when all 255 ids are taken, and then nothing
  changes.
\<close>

theorem pkt_ofld_add_fresh:
  assumes wf: "ofld_wf m" and st: "fwdl_rdy m" "pkt_ofld m = MAC_AX_OFLD_H2C_IDLE"
    and call: "mac_add_pkt_ofld True MACSUCCESS pkt len i0 m = (ret, i, m')"
  shows "if free_id_count m = 0 then ret = MACNOBUF \<and> m' = m
         else ret = MACSUCCESS \<and> i \<notin> used_ids (id_bitmap m) \<and> (\<forall>k<i. k \<in> used_ids (id_bitmap m)) \<and> i \<noteq> 255 \<and>
              pkt_ofld m' = MAC_AX_OFLD_H2C_SENDING \<and>
              (\<exists>w clen. h2c_log m' = h2c_log m @ [(w, take (unat len) pkt, clen)] \<and>
                 ucast (GET_FIELD w 0xff 0) = i \<and> GET_FIELD w 0x7 8 = ucast PKT_OFLD_OP_ADD \<and>
                 ucast (GET_FIELD w 0xffff 16) = len \<and> clen = len + 4)"
  using add_pkt_ofld_fresh [OF assms] .

text \<open>
  C35. An allocation failure wedges packet offload: when \<^verbatim>\<open>mac_add_pkt_ofld\<close> or
  \<^verbatim>\<open>mac_del_pkt_ofld\<close> runs out of memory it leaves the state at SENDING although no command was
  sent, and from then on no sequence of add, delete and read operations sends anything: they all
  find the state busy.
\<close>

theorem pkt_ofld_alloc_failure_wedges:
  assumes "fwdl_rdy m" "pkt_ofld m = MAC_AX_OFLD_H2C_IDLE"
    and "fst (mac_add_pkt_ofld False h2c pkt len i m) = MACBUFALLOC \<and> m1 = snd (snd (mac_add_pkt_ofld False h2c pkt len i m)) \<or>
         fst (mac_del_pkt_ofld False h2c i m) = MACBUFALLOC \<and> m1 = snd (mac_del_pkt_ofld False h2c i m)"
    and "\<forall>e \<in> set evs. is_driver_op e"
  shows "pkt_ofld (fold ofld_step evs m1) = MAC_AX_OFLD_H2C_SENDING \<and> h2c_log (fold ofld_step evs m1) = h2c_log m"
proof -
  have "pkt_ofld m1 = MAC_AX_OFLD_H2C_SENDING" "h2c_log m1 = h2c_log m"
    using assms(1-3) by (auto simp: mac_add_pkt_ofld_def mac_del_pkt_ofld_def Let_def split: if_splits)
  then show ?thesis using driver_run_busy [OF _ assms(4), of m1] by simp
qed

text \<open>
  A refused packet counts as added: when the firmware receives an add command, reports
  failure and answers with length 0, the HAL's add returns success with an id that is not marked
  in the bitmap.
\<close>

theorem hal_add_reports_refused:
  assumes wf: "ofld_wf m" and st: "fwdl_rdy m" "pkt_ofld m = MAC_AX_OFLD_H2C_IDLE" "free_id_count m \<noteq> 0"
    and err: "err \<noteq> 0"
    and call: "hal_mac_add_pkt_ofld \<lparr>mc_mem = True, mc_h2c = MACSUCCESS,
        mc_env = (\<lambda>k. [Ev_rcv F_PACKET, Ev_done F_PACKET err, Ev_rsp True 0 []]), mc_mem2 = True\<rparr> pkt len i0 m = (hst, i, m')"
  shows "hst = RTW_HAL_STATUS_SUCCESS \<and> i \<notin> used_ids (id_bitmap m')"
proof -
  obtain ret m1 where add: "mac_add_pkt_ofld True MACSUCCESS pkt len i0 m = (ret, i, m1)"
    using call by (auto simp: hal_mac_add_pkt_ofld_def split: prod.splits if_splits)
  have a: "ret = MACSUCCESS" "i \<notin> used_ids (id_bitmap m)" "pkt_ofld m1 = MAC_AX_OFLD_H2C_SENDING"
    using add_pkt_ofld_fresh [OF wf st(1,2) add] st(3) by auto
  have l: "last_op m1 = PKT_OFLD_OP_ADD" "id_bitmap m1 = id_bitmap m"
    using add a(1) st by (auto simp: mac_add_pkt_ofld_def Let_def send_packet_ofld_def split: if_splits)
  define m2 where "m2 = snd (c2h_pkt_ofld_rsp_hdl True 0 [] (c2h_fwofld_done_ack_hdl F_PACKET err (c2h_fwofld_rcv_ack_hdl F_PACKET m1)))"
  have m2: "pkt_ofld m2 = MAC_AX_OFLD_H2C_IDLE" "id_bitmap m2 = id_bitmap m" "last_op m2 = PKT_OFLD_OP_ADD"
    using a(3) l err
    by (simp_all add: m2_def c2h_pkt_ofld_rsp_hdl_def c2h_fwofld_done_ack_hdl_def c2h_fwofld_rcv_ack_hdl_def on_rcvd_def
        on_sending_def rsp_finish_def GET_FIELD_def PKT_OFLD_NOT_EXISTS_ID_def PKT_OFLD_OP_ADD_def PKT_OFLD_OP_READ_def Let_def)
  have "mac_check_fwofld_done FW_OFLD_OP_PACKET_OFLD m1 \<noteq> MACSUCCESS"
      "mac_check_fwofld_done FW_OFLD_OP_PACKET_OFLD m2 = MACSUCCESS"
    using a(3) l(1) m2(1,3) by (simp_all add: check_packet_done PKT_OFLD_OP_ADD_def PKT_OFLD_OP_READ_def)
  then have "hst = RTW_HAL_STATUS_SUCCESS \<and> m' = m2"
    using call by (simp add: hal_mac_add_pkt_ofld_def add a(1) poll_second mc_run_def m2_def [symmetric])
  then show ?thesis using m2(2) a(2) by simp
qed

lemma poll_spec:
  "poll_pkt_ofld env k n m = (RTW_HAL_STATUS_SUCCESS, m') \<longleftrightarrow>
     (\<exists>j<n. m' = fold env [k..<k + j] m \<and>
        mac_check_fwofld_done FW_OFLD_OP_PACKET_OFLD m' = MACSUCCESS \<and>
        (\<forall>l<j. mac_check_fwofld_done FW_OFLD_OP_PACKET_OFLD (fold env [k..<k + l] m) \<noteq> MACSUCCESS))"
proof (induction n arbitrary: k m)
  case (Suc n)
  let ?ok = "\<lambda>x. mac_check_fwofld_done FW_OFLD_OP_PACKET_OFLD x = MACSUCCESS"
  have shift: "fold env [k..<k + Suc j] m = fold env [Suc k..<Suc k + j] (env k m)" for j
    by (subst upt_conv_Cons) simp_all
  show ?case
  proof (cases "?ok m")
    case True
    then show ?thesis
      by (auto intro: exI [of _ 0] simp: less_Suc_eq_0_disj)
  next
    case False
    have "(\<exists>j<Suc n. m' = fold env [k..<k + j] m \<and> ?ok m' \<and> (\<forall>l<j. \<not> ?ok (fold env [k..<k + l] m))) \<longleftrightarrow>
        (\<exists>j<n. m' = fold env [k..<k + Suc j] m \<and> ?ok m' \<and> (\<forall>l<Suc j. \<not> ?ok (fold env [k..<k + l] m)))"
      using False by (auto simp: Ex_less_Suc2)
    also have "\<dots> \<longleftrightarrow> (\<exists>j<n. m' = fold env [Suc k..<Suc k + j] (env k m) \<and> ?ok m' \<and>
        (\<forall>l<j. \<not> ?ok (fold env [Suc k..<Suc k + l] (env k m))))"
      unfolding All_less_Suc2 shift using False by simp
    finally show ?thesis using False Suc.IH [of "Suc k" "env k m"] by simp
  qed
qed simp

text \<open>
  Polling: the HAL's wait succeeds exactly when, at one of the first 100 looks, the state says
  the operation is over, and it stops at the first such look.
\<close>

theorem hal_poll_first_done:
  "hal_mac_chk_pkt_ofld env m = (RTW_HAL_STATUS_SUCCESS, m') \<longleftrightarrow>
     (\<exists>j<100. m' = fold env [0..<j] m \<and> mac_check_fwofld_done FW_OFLD_OP_PACKET_OFLD m' = MACSUCCESS \<and>
        (\<forall>l<j. mac_check_fwofld_done FW_OFLD_OP_PACKET_OFLD (fold env [0..<l] m) \<noteq> MACSUCCESS))"
  using poll_spec [of env 0 100 m m'] by (simp add: hal_mac_chk_pkt_ofld_def POLLING_HALMAC_CNT_def)

subsection \<open>A state to run the properties on\<close>

definition ofld0 :: mac_ofld where
  "ofld0 = snd (mac_reset_fwofld_state FW_OFLD_OP_PACKET_OFLD
     \<lparr>fwdl_rdy = True, efuse_ofld = MAC_AX_OFLD_H2C_IDLE, pkt_ofld = MAC_AX_OFLD_H2C_IDLE, read_h2c = MAC_AX_OFLD_H2C_IDLE,
      write_h2c = MAC_AX_OFLD_H2C_IDLE, conf_h2c = MAC_AX_OFLD_H2C_IDLE, read_request = 0, write_request = 0,
      conf_request = 0, ch_switch = 0, sta_csa_st = 0, sta_csa_ret = 0, last_op = 3, free_id_count = 256, used_id_count = 0,
      id_bitmap = replicate 32 0, op_id = 0, op_len = 0, op_buf = None, h2c_log = [], gen_log = []\<rparr>)"

lemma ofld0_sel: "ofld_wf ofld0" "used_ids (id_bitmap ofld0) = {255}" "fwdl_rdy ofld0"
  "pkt_ofld ofld0 = MAC_AX_OFLD_H2C_IDLE" "free_id_count ofld0 = 255" "h2c_log ofld0 = []"
  unfolding ofld0_def by (rule reset_ids)+ (simp_all add: mac_reset_fwofld_state_def FW_OFLD_OP_PACKET_OFLD_def)

theorem pkt_ofld_add_fresh_witness:
  "fst (snd (mac_add_pkt_ofld True MACSUCCESS [1, 2, 3] 3 255 ofld0)) = 0"
proof -
  obtain ret i m' where add: "mac_add_pkt_ofld True MACSUCCESS [1, 2, 3] 3 255 ofld0 = (ret, i, m')"
    by (metis prod_cases3)
  from pkt_ofld_add_fresh [OF ofld0_sel(1,3,4) add] have "i \<noteq> 255" "\<forall>k<i. k = 255"
    by (auto simp: ofld0_sel)
  have "i = 0"
  proof (rule ccontr)
    assume "i \<noteq> 0"
    then have "0 < i" by (simp add: word_neq_0_conv)
    with \<open>\<forall>k<i. k = 255\<close> have "(0::u8) = 255" by blast
    then show False by simp
  qed
  then show ?thesis by (simp add: add)
qed

theorem pkt_ofld_alloc_failure_wedges_witness:
  "h2c_log (fold ofld_step [Ev_add True MACSUCCESS [7] 1, Ev_del True MACSUCCESS 0]
     (snd (snd (mac_add_pkt_ofld False MACSUCCESS [1] 1 255 ofld0)))) = []"
proof -
  have "fst (mac_add_pkt_ofld False MACSUCCESS [1] 1 255 ofld0) = MACBUFALLOC"
    using alloc_pkt_id_free [OF ofld0_sel(1)] ofld0_sel idx_parts(3)
    by (auto simp: mac_add_pkt_ofld_def Let_def PKT_OFLD_NOT_EXISTS_ID_def word_unat_eq_iff)
  then show ?thesis
    using pkt_ofld_alloc_failure_wedges [OF ofld0_sel(3,4), of MACSUCCESS "[1]" 1 255 _
        "[Ev_add True MACSUCCESS [7] 1, Ev_del True MACSUCCESS 0]"] ofld0_sel(6)
    by simp
qed

theorem hal_add_reports_refused_witness:
  "fst (hal_mac_add_pkt_ofld \<lparr>mc_mem = True, mc_h2c = MACSUCCESS,
     mc_env = (\<lambda>k. [Ev_rcv F_PACKET, Ev_done F_PACKET 1, Ev_rsp True 0 []]), mc_mem2 = True\<rparr> [5] 1 255 ofld0) = RTW_HAL_STATUS_SUCCESS"
proof -
  obtain hst i m' where call: "hal_mac_add_pkt_ofld \<lparr>mc_mem = True, mc_h2c = MACSUCCESS,
     mc_env = (\<lambda>k. [Ev_rcv F_PACKET, Ev_done F_PACKET 1, Ev_rsp True 0 []]), mc_mem2 = True\<rparr> [5] 1 255 ofld0 = (hst, i, m')"
    by (metis prod_cases3)
  from hal_add_reports_refused [OF ofld0_sel(1,3,4) _ _ call] show ?thesis
    by (simp add: call ofld0_sel)
qed

end
