(* ===== verification/Pkt_Frames.thy ===== *)
theory Pkt_Frames
  imports Phl_Prelude "HOL-Library.Monad_Syntax"
begin

section \<open>Frames for packet offload (phl/phl_pkt_ofld.c)\<close>

text \<open>
  The frames the driver hands to the firmware: null data, ARP and neighbour discovery answers,
  EAPOL key, SA query, probe request and the RealWoW patterns. A buffer is a list of bytes; a
  write outside it makes the result \<open>None\<close>, so that a constructor that returns has stayed inside
  the memory it allocated.
\<close>

subsection \<open>Writing to a buffer\<close>

definition put :: "nat \<Rightarrow> u8 list \<Rightarrow> u8 list \<Rightarrow> u8 list option" where
  "put off bs buf =
     (if off + length bs \<le> length buf then Some (take off buf @ bs @ drop (off + length bs) buf) else None)"

definition WriteLE1Byte :: "nat \<Rightarrow> u8 \<Rightarrow> u8 list \<Rightarrow> u8 list option" where
  "WriteLE1Byte off v = put off [v]"

definition WriteLE2Byte :: "nat \<Rightarrow> u16 \<Rightarrow> u8 list \<Rightarrow> u8 list option" where
  "WriteLE2Byte off v = put off [ucast v, ucast (drop_bit 8 v)]"

definition WriteBE2Byte :: "nat \<Rightarrow> u16 \<Rightarrow> u8 list \<Rightarrow> u8 list option" where
  "WriteBE2Byte off v = put off [ucast (drop_bit 8 v), ucast v]"

definition read_le2 :: "nat \<Rightarrow> u8 list \<Rightarrow> u16 option" where
  "read_le2 off buf =
     (if off + 2 \<le> length buf then Some (ucast (buf ! off) OR push_bit 8 (ucast (buf ! Suc off))) else None)"

definition SET_BITS_TO_LE_2BYTE :: "nat \<Rightarrow> nat \<Rightarrow> nat \<Rightarrow> u16 \<Rightarrow> u8 list \<Rightarrow> u8 list option" where
  "SET_BITS_TO_LE_2BYTE off boff blen v buf =
     do { w \<leftarrow> read_le2 off buf;
          WriteLE2Byte off ((w AND NOT (push_bit boff (mask blen))) OR push_bit boff (v AND mask blen)) buf }"

subsection \<open>Header fields (phl_pkt_ofld.h)\<close>

definition MAC_HDR_LEN :: u16 where "MAC_HDR_LEN = 24"

definition SET_80211_PKT_HDR_FRAME_CONTROL :: "u16 \<Rightarrow> u8 list \<Rightarrow> u8 list option" where
  "SET_80211_PKT_HDR_FRAME_CONTROL v = WriteLE2Byte 0 v"

definition SET_80211_PKT_HDR_TYPE_AND_SUBTYPE :: "u8 \<Rightarrow> u8 list \<Rightarrow> u8 list option" where
  "SET_80211_PKT_HDR_TYPE_AND_SUBTYPE v = WriteLE1Byte 0 v"

definition SET_80211_PKT_HDR_TO_DS :: "u16 \<Rightarrow> u8 list \<Rightarrow> u8 list option" where
  "SET_80211_PKT_HDR_TO_DS v = SET_BITS_TO_LE_2BYTE 0 8 1 v"

definition SET_80211_PKT_HDR_FROM_DS :: "u16 \<Rightarrow> u8 list \<Rightarrow> u8 list option" where
  "SET_80211_PKT_HDR_FROM_DS v = SET_BITS_TO_LE_2BYTE 0 9 1 v"

definition SET_80211_PKT_HDR_PWR_MGNT :: "u16 \<Rightarrow> u8 list \<Rightarrow> u8 list option" where
  "SET_80211_PKT_HDR_PWR_MGNT v = SET_BITS_TO_LE_2BYTE 0 12 1 v"

definition SET_80211_PKT_HDR_PROTECT :: "u16 \<Rightarrow> u8 list \<Rightarrow> u8 list option" where
  "SET_80211_PKT_HDR_PROTECT v = SET_BITS_TO_LE_2BYTE 0 14 1 v"

definition SET_80211_PKT_HDR_DURATION :: "u16 \<Rightarrow> u8 list \<Rightarrow> u8 list option" where
  "SET_80211_PKT_HDR_DURATION v = WriteLE2Byte 2 v"

definition SET_80211_PKT_HDR_ADDRESS1 :: "u8 list \<Rightarrow> u8 list \<Rightarrow> u8 list option" where
  "SET_80211_PKT_HDR_ADDRESS1 a = put 4 (take 6 a)"

definition SET_80211_PKT_HDR_ADDRESS2 :: "u8 list \<Rightarrow> u8 list \<Rightarrow> u8 list option" where
  "SET_80211_PKT_HDR_ADDRESS2 a = put 10 (take 6 a)"

definition SET_80211_PKT_HDR_ADDRESS3 :: "u8 list \<Rightarrow> u8 list \<Rightarrow> u8 list option" where
  "SET_80211_PKT_HDR_ADDRESS3 a = put 16 (take 6 a)"

definition SET_80211_PKT_HDR_FRAGMENT_SEQUENCE :: "u16 \<Rightarrow> u8 list \<Rightarrow> u8 list option" where
  "SET_80211_PKT_HDR_FRAGMENT_SEQUENCE v = WriteLE2Byte 22 v"

definition SET_80211_PKT_HDR_QOS_CONTROL :: "u16 \<Rightarrow> u8 list \<Rightarrow> u8 list option" where
  "SET_80211_PKT_HDR_QOS_CONTROL v = WriteLE2Byte 24 v"

subsection \<open>What the callers pass\<close>

datatype role_type =
    PHL_RTYPE_NONE | PHL_RTYPE_STATION | PHL_RTYPE_AP | PHL_RTYPE_VAP | PHL_RTYPE_ADHOC | PHL_RTYPE_ADHOC_MASTER
  | PHL_RTYPE_MESH | PHL_RTYPE_MONITOR | PHL_RTYPE_P2P_DEVICE | PHL_RTYPE_P2P_GC | PHL_RTYPE_P2P_GO
  | PHL_RTYPE_TDLS | PHL_RTYPE_NAN | PHL_MLME_MAX

record addrs =
  a1 :: "u8 list"
  a2 :: "u8 list"
  a3 :: "u8 list"

record sec_info = addrs +
  protect_bit :: u8
  sec_hdr_len :: u8

record arp_rsp_info = sec_info +
  host_ipv4_addr :: "u8 list"
  remote_mac_addr :: "u8 list"
  remote_ipv4_addr :: "u8 list"

record eapol_key_info = sec_info +
  key_desc_ver :: u8

text \<open>
  A request: the packet type with the structure the caller passes for it. The RealWoW patterns are
  the memory of their structure and a size; a probe request comes with the answer of the callback
  \<^verbatim>\<open>construct_pbreq\<close>, if there is one. \<open>Other_type\<close> is for the types without a constructor (0, 1, 4 and
  whatever lies outside the enumeration).
\<close>

datatype pkt_req =
    Null_data addrs
  | Qos_null addrs
  | Arp_rsp arp_rsp_info
  | Ndp sec_info
  | Eapol_key eapol_key_info
  | Sa_query sec_info
  | Realwow_kapkt "u8 list" u16
  | Realwow_ack "u8 list" u16
  | Realwow_wp "u8 list" u16
  | Probe_req "u8 list" "u8 list option"
  | Other_type u8

fun pkt_type :: "pkt_req \<Rightarrow> u8" where
  "pkt_type (Null_data _) = 2"
| "pkt_type (Qos_null _) = 3"
| "pkt_type (Arp_rsp _) = 5"
| "pkt_type (Ndp _) = 6"
| "pkt_type (Eapol_key _) = 7"
| "pkt_type (Sa_query _) = 8"
| "pkt_type (Realwow_kapkt _ _) = 9"
| "pkt_type (Realwow_ack _ _) = 10"
| "pkt_type (Realwow_wp _ _) = 11"
| "pkt_type (Probe_req _ _) = 12"
| "pkt_type (Other_type t) = t"

text \<open>A constructor's result: the status, the frame and its length.\<close>

type_synonym frame_result = "(rtw_phl_status \<times> u8 list \<times> u16) option"

subsection \<open>The constructors\<close>

text \<open>The part of the two null data constructors that depends on the role.\<close>

definition role_addresses :: "role_type \<Rightarrow> addrs \<Rightarrow> u8 list \<Rightarrow> u8 list option" where
  "role_addresses rtype info buf =
     (if rtype = PHL_RTYPE_STATION \<or> rtype = PHL_RTYPE_P2P_GC then
        do { b \<leftarrow> SET_80211_PKT_HDR_TO_DS 1 buf;
             b \<leftarrow> SET_80211_PKT_HDR_ADDRESS1 (a1 info) b;
             b \<leftarrow> SET_80211_PKT_HDR_ADDRESS2 (a2 info) b;
             SET_80211_PKT_HDR_ADDRESS3 (a3 info) b }
      else if rtype = PHL_RTYPE_P2P_GO \<or> rtype = PHL_RTYPE_AP then
        do { b \<leftarrow> SET_80211_PKT_HDR_FROM_DS 1 buf;
             b \<leftarrow> SET_80211_PKT_HDR_ADDRESS1 (a1 info) b;
             b \<leftarrow> SET_80211_PKT_HDR_ADDRESS2 (a2 info) b;
             SET_80211_PKT_HDR_ADDRESS3 (a3 info) b }
      else Some buf)"

definition construct_null_data :: "bool \<Rightarrow> role_type \<Rightarrow> addrs \<Rightarrow> frame_result" where
  "construct_null_data mem rtype info =
     (if \<not> mem then Some (RTW_PHL_STATUS_RESOURCE, [], 24)
      else
        do { b \<leftarrow> SET_80211_PKT_HDR_FRAME_CONTROL 0 (replicate 24 0);
             b \<leftarrow> SET_80211_PKT_HDR_TYPE_AND_SUBTYPE 0x48 b;
             b \<leftarrow> SET_80211_PKT_HDR_PWR_MGNT 0 b;
             b \<leftarrow> role_addresses rtype info b;
             b \<leftarrow> SET_80211_PKT_HDR_DURATION 0 b;
             b \<leftarrow> SET_80211_PKT_HDR_FRAGMENT_SEQUENCE 0 b;
             Some (RTW_PHL_STATUS_SUCCESS, b, 24) })"

definition construct_qos_null_data :: "bool \<Rightarrow> role_type \<Rightarrow> addrs \<Rightarrow> frame_result" where
  "construct_qos_null_data mem rtype info =
     (if \<not> mem then Some (RTW_PHL_STATUS_RESOURCE, [], 26)
      else
        do { b \<leftarrow> SET_80211_PKT_HDR_FRAME_CONTROL 0 (replicate 26 0);
             b \<leftarrow> SET_80211_PKT_HDR_TYPE_AND_SUBTYPE 0xC8 b;
             b \<leftarrow> role_addresses rtype info b;
             b \<leftarrow> SET_80211_PKT_HDR_DURATION 0 b;
             b \<leftarrow> SET_80211_PKT_HDR_FRAGMENT_SEQUENCE 0 b;
             b \<leftarrow> SET_80211_PKT_HDR_QOS_CONTROL 0 b;
             Some (RTW_PHL_STATUS_SUCCESS, b, 26) })"

text \<open>The header the data frames with a security header share.\<close>

definition data_header :: "('a) sec_info_scheme \<Rightarrow> u8 list \<Rightarrow> u8 list option" where
  "data_header info buf =
     do { b \<leftarrow> SET_80211_PKT_HDR_FRAME_CONTROL 0 buf;
          b \<leftarrow> SET_80211_PKT_HDR_TYPE_AND_SUBTYPE 0x08 b;
          b \<leftarrow> SET_80211_PKT_HDR_TO_DS 1 b;
          b \<leftarrow> SET_80211_PKT_HDR_PROTECT (ucast (protect_bit info)) b;
          b \<leftarrow> SET_80211_PKT_HDR_ADDRESS1 (a1 info) b;
          b \<leftarrow> SET_80211_PKT_HDR_ADDRESS2 (a2 info) b;
          b \<leftarrow> SET_80211_PKT_HDR_ADDRESS3 (a3 info) b;
          b \<leftarrow> SET_80211_PKT_HDR_DURATION 0 b;
          SET_80211_PKT_HDR_FRAGMENT_SEQUENCE 0 b }"

definition construct_na :: "bool \<Rightarrow> sec_info \<Rightarrow> frame_result" where
  "construct_na mem info =
     (let len = MAC_HDR_LEN + ucast (sec_hdr_len info) + 8 + 72 in
      if \<not> mem then Some (RTW_PHL_STATUS_RESOURCE, [], len)
      else
        do { b \<leftarrow> data_header info (replicate (unat len) 0);
             p \<leftarrow> Some (24 + unat (sec_hdr_len info));
             b \<leftarrow> put p [0xAA, 0xAA, 0x03, 0x00, 0x00, 0x00, 0x86, 0xDD] b;
             b \<leftarrow> put (p + 8) [0x60, 0x00, 0x00, 0x00] b;
             b \<leftarrow> put (p + 12) [0x00, 0x20, 0x3a, 0xff] b;
             b \<leftarrow> put (p + 16) (replicate 32 0) b;
             b \<leftarrow> put (p + 48) [0x88, 0x00, 0x00, 0x00, 0x60, 0x00, 0x00, 0x00] b;
             b \<leftarrow> put (p + 56) (replicate 16 0) b;
             b \<leftarrow> WriteLE1Byte (p + 72) 0x02 b;
             b \<leftarrow> WriteLE1Byte (p + 73) 0x01 b;
             b \<leftarrow> put (p + 74) (replicate 6 0) b;
             Some (RTW_PHL_STATUS_SUCCESS, b, len) })"

definition construct_arp_rsp :: "bool \<Rightarrow> arp_rsp_info \<Rightarrow> frame_result" where
  "construct_arp_rsp mem info =
     (let len = MAC_HDR_LEN + ucast (sec_hdr_len info) + 8 + 28 in
      if \<not> mem then Some (RTW_PHL_STATUS_RESOURCE, [], len)
      else
        do { b \<leftarrow> data_header info (replicate (unat len) 0);
             p \<leftarrow> Some (24 + unat (sec_hdr_len info));
             b \<leftarrow> put p [0xAA, 0xAA, 0x03, 0x00, 0x00, 0x00, 0x08, 0x06] b;
             p \<leftarrow> Some (p + 8);
             b \<leftarrow> WriteLE2Byte p 0x0100 b;
             b \<leftarrow> WriteLE2Byte (p + 2) 0x0008 b;
             b \<leftarrow> WriteLE1Byte (p + 4) 6 b;
             b \<leftarrow> WriteLE1Byte (p + 5) 4 b;
             b \<leftarrow> WriteLE2Byte (p + 6) 0x0200 b;
             b \<leftarrow> put (p + 8) (take 6 (a2 info)) b;
             b \<leftarrow> put (p + 14) (take 4 (host_ipv4_addr info)) b;
             b \<leftarrow> put (p + 18) (take 6 (remote_mac_addr info)) b;
             b \<leftarrow> put (p + 24) (take 4 (remote_ipv4_addr info)) b;
             Some (RTW_PHL_STATUS_SUCCESS, b, len) })"

definition construct_eapol_key_data :: "bool \<Rightarrow> eapol_key_info \<Rightarrow> frame_result" where
  "construct_eapol_key_data mem info =
     (let len = MAC_HDR_LEN + ucast (sec_hdr_len info) + 8 + 4 + 95 in
      if \<not> mem then Some (RTW_PHL_STATUS_RESOURCE, [], len)
      else
        do { b \<leftarrow> data_header info (replicate (unat len) 0);
             p \<leftarrow> Some (24 + unat (sec_hdr_len info));
             b \<leftarrow> put p [0xAA, 0xAA, 0x03] b;
             b \<leftarrow> put (p + 3) [0x00, 0x00, 0x00] b;
             b \<leftarrow> put (p + 6) [0x88, 0x8E] b;
             p \<leftarrow> Some (p + 8);
             b \<leftarrow> WriteLE1Byte p 1 b;
             b \<leftarrow> WriteLE1Byte (p + 1) 3 b;
             b \<leftarrow> WriteBE2Byte (p + 2) 95 b;
             p \<leftarrow> Some (p + 4);
             b \<leftarrow> WriteLE1Byte p 2 b;
             b \<leftarrow> WriteBE2Byte (p + 1) (0x200 OR 0x100 OR ucast (key_desc_ver info)) b;
             Some (RTW_PHL_STATUS_SUCCESS, b, len) })"

definition construct_sa_query_pkt :: "bool \<Rightarrow> sec_info \<Rightarrow> frame_result" where
  "construct_sa_query_pkt mem info =
     (let len = MAC_HDR_LEN + ucast (sec_hdr_len info) + 4 in
      if \<not> mem then Some (RTW_PHL_STATUS_RESOURCE, [], len)
      else
        do { b \<leftarrow> SET_80211_PKT_HDR_FRAME_CONTROL 0 (replicate (unat len) 0);
             b \<leftarrow> SET_80211_PKT_HDR_TYPE_AND_SUBTYPE 0xD0 b;
             b \<leftarrow> SET_80211_PKT_HDR_DURATION 0 b;
             b \<leftarrow> SET_80211_PKT_HDR_PROTECT (ucast (protect_bit info)) b;
             b \<leftarrow> SET_80211_PKT_HDR_ADDRESS1 (a1 info) b;
             b \<leftarrow> SET_80211_PKT_HDR_ADDRESS2 (a2 info) b;
             b \<leftarrow> SET_80211_PKT_HDR_ADDRESS3 (a3 info) b;
             b \<leftarrow> SET_80211_PKT_HDR_FRAGMENT_SEQUENCE 0 b;
             p \<leftarrow> Some (24 + unat (sec_hdr_len info));
             b \<leftarrow> WriteLE1Byte p 8 b;
             b \<leftarrow> WriteLE1Byte (p + 1) 1 b;
             Some (RTW_PHL_STATUS_SUCCESS, b, len) })"

text \<open>
  The three RealWoW constructors copy \<open>sz\<close> bytes from the start of the structure; a size past
  its end reads outside it.
\<close>

definition copy_struct :: "bool \<Rightarrow> u8 list \<Rightarrow> u16 \<Rightarrow> frame_result" where
  "copy_struct mem str sz =
     (if \<not> mem then Some (RTW_PHL_STATUS_RESOURCE, [], sz)
      else if unat sz \<le> length str
      then do { b \<leftarrow> put 0 (take (unat sz) str) (replicate (unat sz) 0);
                Some (RTW_PHL_STATUS_SUCCESS, b, sz) }
      else None)"

definition construct_realwow_kapkt :: "bool \<Rightarrow> u8 list \<Rightarrow> u16 \<Rightarrow> frame_result" where
  "construct_realwow_kapkt mem str sz = copy_struct mem str sz"

definition construct_realwow_ack :: "bool \<Rightarrow> u8 list \<Rightarrow> u16 \<Rightarrow> frame_result" where
  "construct_realwow_ack mem str sz = copy_struct mem str sz"

definition construct_realwow_wp :: "bool \<Rightarrow> u8 list \<Rightarrow> u16 \<Rightarrow> frame_result" where
  "construct_realwow_wp mem str sz = copy_struct mem str sz"

text \<open>
  The callback writes its frame to a temporary buffer of 2304 + 24 + 4 bytes; a longer frame
  overruns it.
\<close>

definition construct_probe_req :: "bool \<Rightarrow> bool \<Rightarrow> u8 list \<Rightarrow> u8 list option \<Rightarrow> frame_result" where
  "construct_probe_req mem mem2 sa cb =
     (case cb of
        None \<Rightarrow>
          if \<not> mem then Some (RTW_PHL_STATUS_RESOURCE, [], MAC_HDR_LEN)
          else
            do { b \<leftarrow> SET_80211_PKT_HDR_FRAME_CONTROL 0 (replicate 24 0);
                 b \<leftarrow> SET_80211_PKT_HDR_TYPE_AND_SUBTYPE 0x40 b;
                 b \<leftarrow> SET_80211_PKT_HDR_ADDRESS1 (replicate 6 0xFF) b;
                 b \<leftarrow> SET_80211_PKT_HDR_ADDRESS2 sa b;
                 b \<leftarrow> SET_80211_PKT_HDR_ADDRESS3 (replicate 6 0xFF) b;
                 b \<leftarrow> SET_80211_PKT_HDR_DURATION 0 b;
                 b \<leftarrow> SET_80211_PKT_HDR_FRAGMENT_SEQUENCE 0 b;
                 Some (RTW_PHL_STATUS_SUCCESS, b, MAC_HDR_LEN) }
      | Some frame \<Rightarrow>
          if \<not> mem then Some (RTW_PHL_STATUS_RESOURCE, [], 0)
          else if length frame > 2304 + 24 + 4 then None
          else if \<not> mem2 then Some (RTW_PHL_STATUS_RESOURCE, [], of_nat (length frame))
          else do { b \<leftarrow> put 0 frame (replicate (length frame) 0);
                    Some (RTW_PHL_STATUS_SUCCESS, b, of_nat (length frame)) })"

text \<open>
  \<^verbatim>\<open>_phl_pkt_ofld_construct_packet\<close>. The role is that of the station of the MAC id; without a station
  the null data constructors dereference a null pointer.
\<close>

definition construct_packet :: "bool \<Rightarrow> bool \<Rightarrow> role_type option \<Rightarrow> pkt_req \<Rightarrow> frame_result" where
  "construct_packet mem mem2 sta req =
     (case req of
        Null_data info \<Rightarrow> (case sta of None \<Rightarrow> None | Some r \<Rightarrow> construct_null_data mem r info)
      | Qos_null info \<Rightarrow> (case sta of None \<Rightarrow> None | Some r \<Rightarrow> construct_qos_null_data mem r info)
      | Arp_rsp info \<Rightarrow> construct_arp_rsp mem info
      | Ndp info \<Rightarrow> construct_na mem info
      | Eapol_key info \<Rightarrow> construct_eapol_key_data mem info
      | Sa_query info \<Rightarrow> construct_sa_query_pkt mem info
      | Realwow_kapkt str sz \<Rightarrow> construct_realwow_kapkt mem str sz
      | Realwow_ack str sz \<Rightarrow> construct_realwow_ack mem str sz
      | Realwow_wp str sz \<Rightarrow> construct_realwow_wp mem str sz
      | Probe_req sa cb \<Rightarrow> construct_probe_req mem mem2 sa cb
      | Other_type t \<Rightarrow> Some (RTW_PHL_STATUS_FAILURE, [], 0))"

subsection \<open>Where a write lands\<close>

lemma put_append:
  "off + length bs \<le> length xs \<Longrightarrow> put off bs (xs @ ys) = map_option (\<lambda>x. x @ ys) (put off bs xs)"
  by (simp add: put_def)

lemma put_prefix: "put (length xs + k) bs (xs @ ys) = map_option ((@) xs) (put k bs ys)"
  by (simp add: put_def)

lemma put_length: "put off bs buf = Some b \<Longrightarrow> length b = length buf"
  by (auto simp: put_def split: if_splits)

text \<open>A buffer seen as an 802.11 header and the rest.\<close>

definition frame_buf ::
  "u8 \<Rightarrow> u8 \<Rightarrow> u8 list \<Rightarrow> u8 list \<Rightarrow> u8 list \<Rightarrow> u8 list \<Rightarrow> u8 list \<Rightarrow> u8 list \<Rightarrow> u8 list" where
  "frame_buf f0 f1 dur x1 x2 x3 sq rest = [f0, f1] @ dur @ x1 @ x2 @ x3 @ sq @ rest"

definition hdr_ok :: "u8 list \<Rightarrow> u8 list \<Rightarrow> u8 list \<Rightarrow> u8 list \<Rightarrow> u8 list \<Rightarrow> bool" where
  "hdr_ok dur x1 x2 x3 sq \<longleftrightarrow> length dur = 2 \<and> length x1 = 6 \<and> length x2 = 6 \<and> length x3 = 6 \<and> length sq = 2"

abbreviation "addr0 \<equiv> [0, 0, 0, 0, 0, 0 :: u8]"

lemma frame_buf_zero: "replicate (24 + n) 0 = frame_buf 0 0 [0, 0] addr0 addr0 addr0 [0, 0] (replicate n 0)"
  by (simp add: frame_buf_def numeral_eq_Suc)

lemma hdr_ok_zero [simp]: "hdr_ok [0, 0] addr0 addr0 addr0 [0, 0]"
  by (simp add: hdr_ok_def)

lemma set_addr [simp]:
  assumes "hdr_ok dur x1 x2 x3 sq" and "length a = 6"
  shows "SET_80211_PKT_HDR_ADDRESS1 a (frame_buf f0 f1 dur x1 x2 x3 sq r) = Some (frame_buf f0 f1 dur a x2 x3 sq r)"
    "SET_80211_PKT_HDR_ADDRESS2 a (frame_buf f0 f1 dur x1 x2 x3 sq r) = Some (frame_buf f0 f1 dur x1 a x3 sq r)"
    "SET_80211_PKT_HDR_ADDRESS3 a (frame_buf f0 f1 dur x1 x2 x3 sq r) = Some (frame_buf f0 f1 dur x1 x2 a sq r)"
  using assms
  by (simp_all add: hdr_ok_def SET_80211_PKT_HDR_ADDRESS1_def SET_80211_PKT_HDR_ADDRESS2_def
      SET_80211_PKT_HDR_ADDRESS3_def put_def frame_buf_def numeral_eq_Suc)

lemma set_fixed [simp]:
  assumes "hdr_ok dur x1 x2 x3 sq"
  shows "SET_80211_PKT_HDR_FRAME_CONTROL v (frame_buf f0 f1 dur x1 x2 x3 sq r) =
      Some (frame_buf (ucast v) (ucast (drop_bit 8 v)) dur x1 x2 x3 sq r)"
    "SET_80211_PKT_HDR_TYPE_AND_SUBTYPE b (frame_buf f0 f1 dur x1 x2 x3 sq r) = Some (frame_buf b f1 dur x1 x2 x3 sq r)"
    "SET_80211_PKT_HDR_DURATION v (frame_buf f0 f1 dur x1 x2 x3 sq r) =
      Some (frame_buf f0 f1 [ucast v, ucast (drop_bit 8 v)] x1 x2 x3 sq r)"
    "SET_80211_PKT_HDR_FRAGMENT_SEQUENCE v (frame_buf f0 f1 dur x1 x2 x3 sq r) =
      Some (frame_buf f0 f1 dur x1 x2 x3 [ucast v, ucast (drop_bit 8 v)] r)"
  using assms
  by (simp_all add: hdr_ok_def SET_80211_PKT_HDR_FRAME_CONTROL_def SET_80211_PKT_HDR_TYPE_AND_SUBTYPE_def
      SET_80211_PKT_HDR_DURATION_def SET_80211_PKT_HDR_FRAGMENT_SEQUENCE_def WriteLE2Byte_def WriteLE1Byte_def
      put_def frame_buf_def numeral_eq_Suc)

lemma set_bits_high:
  assumes "k < 8"
  shows "SET_BITS_TO_LE_2BYTE 0 (8 + k) 1 v (frame_buf f0 f1 dur x1 x2 x3 sq r) =
    Some (frame_buf f0 ((f1 AND NOT (push_bit k 1)) OR push_bit k (ucast v AND 1)) dur x1 x2 x3 sq r)"
proof -
  define w :: u16 where "w = ucast f0 OR push_bit 8 (ucast f1)"
  define w' where "w' = (w AND NOT (push_bit (8 + k) (mask 1))) OR push_bit (8 + k) (v AND mask 1)"
  have lo: "(ucast w' :: u8) = f0"
    by (rule bit_word_eqI) (auto simp: w'_def w_def bit_simps)
  have f0: "\<not> bit f0 (8 + n)" for n using bit_imp_le_length [of f0 "8 + n"] by auto
  have hi: "(ucast (drop_bit 8 w') :: u8) = (f1 AND NOT (push_bit k 1)) OR push_bit k (ucast v AND 1)"
    using assms by (intro bit_word_eqI) (auto simp: w'_def w_def bit_simps f0)
  have rd: "read_le2 0 (frame_buf f0 f1 dur x1 x2 x3 sq r) = Some w"
    by (simp add: read_le2_def frame_buf_def w_def)
  have wr: "WriteLE2Byte 0 w' (frame_buf f0 f1 dur x1 x2 x3 sq r) =
      Some (frame_buf (ucast w') (ucast (drop_bit 8 w')) dur x1 x2 x3 sq r)"
    by (simp add: WriteLE2Byte_def put_def frame_buf_def)
  show ?thesis
    unfolding SET_BITS_TO_LE_2BYTE_def rd Option.bind.simps w'_def [symmetric] wr lo hi ..
qed

lemma set_flags [simp]:
  "SET_80211_PKT_HDR_TO_DS v (frame_buf f0 f1 dur x1 x2 x3 sq r) =
     Some (frame_buf f0 ((f1 AND NOT 1) OR (ucast v AND 1)) dur x1 x2 x3 sq r)"
  "SET_80211_PKT_HDR_FROM_DS v (frame_buf f0 f1 dur x1 x2 x3 sq r) =
     Some (frame_buf f0 ((f1 AND NOT 2) OR push_bit 1 (ucast v AND 1)) dur x1 x2 x3 sq r)"
  "SET_80211_PKT_HDR_PWR_MGNT v (frame_buf f0 f1 dur x1 x2 x3 sq r) =
     Some (frame_buf f0 ((f1 AND NOT 16) OR push_bit 4 (ucast v AND 1)) dur x1 x2 x3 sq r)"
  "SET_80211_PKT_HDR_PROTECT v (frame_buf f0 f1 dur x1 x2 x3 sq r) =
     Some (frame_buf f0 ((f1 AND NOT 64) OR push_bit 6 (ucast v AND 1)) dur x1 x2 x3 sq r)"
  using set_bits_high [of 0 v] set_bits_high [of 1 v] set_bits_high [of 4 v] set_bits_high [of 6 v]
  by (simp_all add: SET_80211_PKT_HDR_TO_DS_def SET_80211_PKT_HDR_FROM_DS_def SET_80211_PKT_HDR_PWR_MGNT_def
      SET_80211_PKT_HDR_PROTECT_def)

definition addrs_ok :: "'a addrs_scheme \<Rightarrow> bool" where
  "addrs_ok info \<longleftrightarrow> length (a1 info) = 6 \<and> length (a2 info) = 6 \<and> length (a3 info) = 6"

lemma hdr_ok_lens: "hdr_ok dur x1 x2 x3 sq \<longleftrightarrow> length dur = 2 \<and> length x1 = 6 \<and> length x2 = 6 \<and> length x3 = 6 \<and> length sq = 2"
  by (rule hdr_ok_def)

text \<open>The flags byte of a frame to the distribution system, protected or not.\<close>

definition to_ds_flags :: "u8 \<Rightarrow> u8" where
  "to_ds_flags prot = 1 OR push_bit 6 (prot AND 1)"

lemma data_header_frame:
  assumes "addrs_ok info"
  shows "data_header info (replicate (24 + n) 0) =
    Some (frame_buf 0x08 (to_ds_flags (protect_bit info)) [0, 0] (a1 info) (a2 info) (a3 info) [0, 0] (replicate n 0))"
proof -
  have p: "(ucast (ucast (protect_bit info) :: u16) :: u8) = protect_bit info"
    by (rule bit_word_eqI) (simp add: bit_simps)
  show ?thesis
    unfolding data_header_def frame_buf_zero using assms
    by (simp add: hdr_ok_lens addrs_ok_def to_ds_flags_def p)
qed

lemma frame_len: "unat (MAC_HDR_LEN + ucast (s::u8) + k) = 24 + unat s + unat k" if "unat k < 1000"
proof -
  have l: "unat s < 256" using unsigned_less [where ?'a = nat, of s] by simp
  have s: "unat (ucast s :: u16) = unat s"
    using l by (simp add: unsigned_ucast_eq take_bit_eq_mod unat_mod_distrib)
  show ?thesis using that l by (simp add: MAC_HDR_LEN_def unat_word_ariths s)
qed

lemma frame_len': "unat (k + (MAC_HDR_LEN + ucast (s::u8))) = 24 + unat s + unat k" if "unat k < 1000"
  using frame_len [OF that, of s] by (simp only: ac_simps)

lemmas write_defs = WriteLE1Byte_def WriteLE2Byte_def WriteBE2Byte_def

text \<open>
  The constructors fill the buffer from front to back: a header \<open>h\<close>, the bytes written so far and
  the zeros that are left.
\<close>

definition filled :: "u8 list \<Rightarrow> u8 list \<Rightarrow> nat \<Rightarrow> u8 list" where
  "filled h xs n = h @ xs @ replicate n 0"

lemma put_next [simp]:
  assumes "off = length h + length xs" and "length bs \<le> n"
  shows "put off bs (filled h xs n) = Some (filled h (xs @ bs) (n - length bs))"
  using assms by (simp add: put_def filled_def)

text \<open>The 802.11 header of a data frame with its security header still empty.\<close>

definition data_hdr :: "('a) sec_info_scheme \<Rightarrow> u8 list" where
  "data_hdr info =
     frame_buf 0x08 (to_ds_flags (protect_bit info)) [0, 0] (a1 info) (a2 info) (a3 info) [0, 0]
       (replicate (unat (sec_hdr_len info)) 0)"

lemma length_data_hdr [simp]: "addrs_ok info \<Longrightarrow> length (data_hdr info) = 24 + unat (sec_hdr_len info)"
  by (simp add: data_hdr_def frame_buf_def addrs_ok_def)

lemma data_header_filled:
  assumes "addrs_ok info"
  shows "data_header info (replicate (24 + unat (sec_hdr_len info) + n) 0) = Some (filled (data_hdr info) [] n)"
  using data_header_frame [OF assms, of "unat (sec_hdr_len info) + n"]
  by (simp add: add.assoc data_hdr_def filled_def frame_buf_def replicate_add)

subsection \<open>The frames\<close>

definition arp_body :: "arp_rsp_info \<Rightarrow> u8 list" where
  "arp_body info =
     [0xAA, 0xAA, 0x03, 0x00, 0x00, 0x00, 0x08, 0x06] @
     [0x00, 0x01, 0x08, 0x00, 6, 4, 0x00, 0x02] @
     a2 info @ host_ipv4_addr info @ remote_mac_addr info @ remote_ipv4_addr info"

definition na_body :: "u8 list" where
  "na_body =
     [0xAA, 0xAA, 0x03, 0x00, 0x00, 0x00, 0x86, 0xDD] @
     [0x60, 0x00, 0x00, 0x00, 0x00, 0x20, 0x3a, 0xff] @ replicate 32 0 @
     [0x88, 0x00, 0x00, 0x00, 0x60, 0x00, 0x00, 0x00] @ replicate 16 0 @ [0x02, 0x01] @ replicate 6 0"

definition eapol_body :: "u8 \<Rightarrow> u8 list" where
  "eapol_body ver =
     [0xAA, 0xAA, 0x03, 0x00, 0x00, 0x00, 0x88, 0x8E] @ [1, 3, 0, 95] @ [2, 3, ver] @ replicate 92 0"

definition sa_query_hdr :: "sec_info \<Rightarrow> u8 list" where
  "sa_query_hdr info =
     frame_buf 0xD0 (push_bit 6 (protect_bit info AND 1)) [0, 0] (a1 info) (a2 info) (a3 info) [0, 0]
       (replicate (unat (sec_hdr_len info)) 0)"

definition arp_ok :: "arp_rsp_info \<Rightarrow> bool" where
  "arp_ok info \<longleftrightarrow> addrs_ok info \<and> length (host_ipv4_addr info) = 4 \<and>
     length (remote_mac_addr info) = 6 \<and> length (remote_ipv4_addr info) = 4"

lemma sec_len [simp]:
  "unat (MAC_HDR_LEN + ucast (s::u8) + 8 + 28) = 24 + unat s + 36"
  "unat (MAC_HDR_LEN + ucast s + 8 + 72) = 24 + unat s + 80"
  "unat (MAC_HDR_LEN + ucast s + 8 + 4 + 95) = 24 + unat s + 107"
  "unat (MAC_HDR_LEN + ucast s + 4) = 24 + unat s + 4"
  using frame_len [of 36 s] frame_len [of 80 s] frame_len [of 107 s] frame_len [of 4 s] by (simp_all add: add.assoc)

lemma u8_ucast_u16 [simp]: "(ucast (ucast (b::u8) :: u16) :: u8) = b"
  by (rule bit_word_eqI) (simp add: bit_simps)

lemma u16_bytes:
  "(ucast (push_bit 8 (ucast (h::u8)) OR ucast (l::u8) :: u16) :: u8) = l"
  "(ucast (drop_bit 8 (push_bit 8 (ucast (h::u8)) OR ucast (l::u8) :: u16)) :: u8) = h"
proof -
  have "\<not> bit l (8 + n)" for n using bit_imp_le_length [of l "8 + n"] by auto
  then show "(ucast (push_bit 8 (ucast (h::u8)) OR ucast (l::u8) :: u16) :: u8) = l"
    "(ucast (drop_bit 8 (push_bit 8 (ucast (h::u8)) OR ucast (l::u8) :: u16)) :: u8) = h"
    by (auto intro!: bit_word_eqI simp: bit_simps)
qed

lemma construct_arp_frame:
  assumes "arp_ok info"
  shows "construct_arp_rsp True info =
    Some (RTW_PHL_STATUS_SUCCESS, data_hdr info @ arp_body info, MAC_HDR_LEN + ucast (sec_hdr_len info) + 8 + 28)"
proof -
  have a: "addrs_ok info" "length (a2 info) = 6" using assms by (simp_all add: arp_ok_def addrs_ok_def)
  show ?thesis
    unfolding construct_arp_rsp_def Let_def sec_len data_header_filled [OF a(1)]
    using assms a by (simp add: write_defs arp_ok_def) (simp add: arp_body_def filled_def)
qed

lemma construct_na_frame:
  assumes "addrs_ok info"
  shows "construct_na True info =
    Some (RTW_PHL_STATUS_SUCCESS, data_hdr info @ na_body, MAC_HDR_LEN + ucast (sec_hdr_len info) + 8 + 72)"
  unfolding construct_na_def Let_def sec_len data_header_filled [OF assms]
  using assms by (simp add: write_defs del: replicate.simps) (simp add: na_body_def filled_def)

lemma construct_eapol_frame:
  assumes "addrs_ok info"
  shows "construct_eapol_key_data True info =
    Some (RTW_PHL_STATUS_SUCCESS, data_hdr info @ eapol_body (key_desc_ver info),
      MAC_HDR_LEN + ucast (sec_hdr_len info) + 8 + 4 + 95)"
proof -
  let ?k = "0x200 OR 0x100 OR ucast (key_desc_ver info) :: u16"
  have "?k = (0x200 OR 0x100) OR ucast (key_desc_ver info)" by (simp only: or.assoc)
  then have "?k = push_bit 8 (ucast (3 :: u8)) OR ucast (key_desc_ver info)" by simp
  then have k: "(ucast ?k :: u8) = key_desc_ver info" "(ucast (drop_bit 8 ?k) :: u8) = 3"
    by (simp_all only: u16_bytes)
  show ?thesis
    unfolding construct_eapol_key_data_def Let_def sec_len data_header_filled [OF assms] write_defs k
    using assms by simp (simp add: eapol_body_def filled_def)
qed

lemma construct_sa_query_frame:
  assumes "addrs_ok info"
  shows "construct_sa_query_pkt True info =
    Some (RTW_PHL_STATUS_SUCCESS, sa_query_hdr info @ [8, 1, 0, 0], MAC_HDR_LEN + ucast (sec_hdr_len info) + 4)"
proof -
  let ?f = "frame_buf 0xD0 (push_bit 6 (protect_bit info AND 1)) [0, 0] (a1 info) (a2 info) (a3 info) [0, 0]
    (replicate (unat (sec_hdr_len info) + 4) 0)"
  have f: "?f = filled (sa_query_hdr info) [] 4"
    by (simp add: sa_query_hdr_def filled_def frame_buf_def replicate_add)
  have z: "replicate (unat (MAC_HDR_LEN + ucast (sec_hdr_len info) + 4)) (0::u8) =
      frame_buf 0 0 [0, 0] addr0 addr0 addr0 [0, 0] (replicate (unat (sec_hdr_len info) + 4) 0)"
    using frame_buf_zero [of "unat (sec_hdr_len info) + 4"] unfolding sec_len by (simp only: add.assoc)
  have l: "length (sa_query_hdr info) = 24 + unat (sec_hdr_len info)"
    using assms by (simp add: sa_query_hdr_def frame_buf_def addrs_ok_def)
  show ?thesis
    unfolding construct_sa_query_pkt_def Let_def z
    using assms
    by (simp add: hdr_ok_lens addrs_ok_def, insert f l, simp add: write_defs) (simp add: filled_def numeral_eq_Suc)
qed

text \<open>The null data frames depend on the role: an unknown role leaves the addresses zero.\<close>

fun role_flags :: "role_type \<Rightarrow> u8" where
  "role_flags PHL_RTYPE_STATION = 1"
| "role_flags PHL_RTYPE_P2P_GC = 1"
| "role_flags PHL_RTYPE_P2P_GO = 2"
| "role_flags PHL_RTYPE_AP = 2"
| "role_flags _ = 0"

definition null_frame :: "u8 \<Rightarrow> role_type \<Rightarrow> addrs \<Rightarrow> u8 list \<Rightarrow> u8 list" where
  "null_frame fc r info rest =
     (if role_flags r = 0 then frame_buf fc 0 [0, 0] addr0 addr0 addr0 [0, 0] rest
      else frame_buf fc (role_flags r) [0, 0] (a1 info) (a2 info) (a3 info) [0, 0] rest)"

lemma zero24: "replicate 24 0 = frame_buf 0 0 [0, 0] addr0 addr0 addr0 [0, 0] []"
  and zero26: "replicate 26 0 = frame_buf 0 0 [0, 0] addr0 addr0 addr0 [0, 0] [0, 0]"
  by (simp_all add: frame_buf_def numeral_eq_Suc)

lemma role_addresses_frame:
  assumes "addrs_ok info"
  shows "role_addresses r info (frame_buf fc 0 [0, 0] addr0 addr0 addr0 [0, 0] rest) = Some (null_frame fc r info rest)"
  using assms by (cases r) (simp_all add: role_addresses_def null_frame_def hdr_ok_lens addrs_ok_def)

lemma null_frame_zero:
  assumes "addrs_ok info"
  shows "SET_80211_PKT_HDR_DURATION 0 (null_frame fc r info rest) = Some (null_frame fc r info rest)"
    "SET_80211_PKT_HDR_FRAGMENT_SEQUENCE 0 (null_frame fc r info rest) = Some (null_frame fc r info rest)"
  using assms by (simp_all add: null_frame_def hdr_ok_lens addrs_ok_def)

lemma set_qos:
  assumes "addrs_ok info"
  shows "SET_80211_PKT_HDR_QOS_CONTROL 0 (null_frame fc r info [0, 0]) = Some (null_frame fc r info [0, 0])"
  using assms
  by (simp add: SET_80211_PKT_HDR_QOS_CONTROL_def null_frame_def addrs_ok_def frame_buf_def write_defs put_def
      numeral_eq_Suc)

lemma construct_null_frame:
  assumes "addrs_ok info"
  shows "construct_null_data True r info = Some (RTW_PHL_STATUS_SUCCESS, null_frame 0x48 r info [], 24)"
  unfolding construct_null_data_def zero24
  using assms by (simp add: role_addresses_frame null_frame_zero)

lemma construct_qos_null_frame:
  assumes "addrs_ok info"
  shows "construct_qos_null_data True r info = Some (RTW_PHL_STATUS_SUCCESS, null_frame 0xC8 r info [0, 0], 26)"
  unfolding construct_qos_null_data_def zero26
  using assms by (simp add: role_addresses_frame null_frame_zero set_qos)

lemma construct_probe_frame:
  assumes "length sa = 6"
  shows "construct_probe_req True m sa None =
    Some (RTW_PHL_STATUS_SUCCESS,
      frame_buf 0x40 0 [0, 0] (replicate 6 0xFF) sa (replicate 6 0xFF) [0, 0] [], MAC_HDR_LEN)"
  unfolding construct_probe_req_def zero24 using assms by (simp add: hdr_ok_lens)

text \<open>The C types of the request structures, and the two sizes nothing checks.\<close>

fun req_typed :: "pkt_req \<Rightarrow> bool" where
  "req_typed (Null_data info) = addrs_ok info"
| "req_typed (Qos_null info) = addrs_ok info"
| "req_typed (Arp_rsp info) = arp_ok info"
| "req_typed (Ndp info) = addrs_ok info"
| "req_typed (Eapol_key info) = addrs_ok info"
| "req_typed (Sa_query info) = addrs_ok info"
| "req_typed (Probe_req sa cb) = (length sa = 6)"
| "req_typed (Other_type t) = (t \<in> {0, 1, 4} \<or> 12 < t)"
| "req_typed _ = True"

fun req_fits :: "pkt_req \<Rightarrow> bool" where
  "req_fits (Realwow_kapkt str sz) = (unat sz \<le> length str)"
| "req_fits (Realwow_ack str sz) = (unat sz \<le> length str)"
| "req_fits (Realwow_wp str sz) = (unat sz \<le> length str)"
| "req_fits (Probe_req sa (Some f)) = (length f \<le> 2332)"
| "req_fits _ = True"

text \<open>The frame a request asks for, as a concatenation of its fields, and its declared length.\<close>

fun frame_of :: "role_type \<Rightarrow> pkt_req \<Rightarrow> u8 list" where
  "frame_of r (Null_data info) = null_frame 0x48 r info []"
| "frame_of r (Qos_null info) = null_frame 0xC8 r info [0, 0]"
| "frame_of r (Arp_rsp info) = data_hdr info @ arp_body info"
| "frame_of r (Ndp info) = data_hdr info @ na_body"
| "frame_of r (Eapol_key info) = data_hdr info @ eapol_body (key_desc_ver info)"
| "frame_of r (Sa_query info) = sa_query_hdr info @ [8, 1, 0, 0]"
| "frame_of r (Realwow_kapkt str sz) = take (unat sz) str"
| "frame_of r (Realwow_ack str sz) = take (unat sz) str"
| "frame_of r (Realwow_wp str sz) = take (unat sz) str"
| "frame_of r (Probe_req sa None) = frame_buf 0x40 0 [0, 0] (replicate 6 0xFF) sa (replicate 6 0xFF) [0, 0] []"
| "frame_of r (Probe_req sa (Some f)) = f"
| "frame_of r (Other_type t) = []"

fun implemented :: "pkt_req \<Rightarrow> bool" where
  "implemented (Other_type t) = False"
| "implemented _ = True"

lemma length_null_frame: "addrs_ok info \<Longrightarrow> length (null_frame fc r info rest) = 24 + length rest"
  by (simp add: null_frame_def frame_buf_def addrs_ok_def)

lemma length_bodies:
  "arp_ok info \<Longrightarrow> length (arp_body info) = 36" "length na_body = 80" "length (eapol_body v) = 107"
  "addrs_ok sec \<Longrightarrow> length (sa_query_hdr sec) = 24 + unat (sec_hdr_len sec)"
  by (simp_all add: arp_body_def arp_ok_def addrs_ok_def na_body_def eapol_body_def sa_query_hdr_def frame_buf_def)

lemma copy_struct_frame:
  "unat sz \<le> length str \<Longrightarrow> copy_struct True str sz = Some (RTW_PHL_STATUS_SUCCESS, take (unat sz) str, sz)"
  by (simp add: copy_struct_def put_def)

lemmas construct_frames = construct_null_frame construct_qos_null_frame construct_arp_frame construct_na_frame
  construct_eapol_frame construct_sa_query_frame construct_probe_frame

lemma arp_ok_addrs: "arp_ok info \<Longrightarrow> addrs_ok info"
  by (simp add: arp_ok_def)

lemmas frame_lengths = length_null_frame length_bodies arp_ok_addrs unat_of_nat_u16

lemma construct_packet_frame:
  assumes "req_typed req" "req_fits req" "implemented req"
  shows "\<exists>len. construct_packet True True (Some r) req = Some (RTW_PHL_STATUS_SUCCESS, frame_of r req, len) \<and>
    unat len = length (frame_of r req)"
proof (cases req)
  case (Probe_req sa cb)
  then show ?thesis
    using assms
    by (cases cb) (simp_all add: construct_packet_def construct_frames MAC_HDR_LEN_def frame_buf_def
        construct_probe_req_def [of _ _ _ "Some _"] put_def frame_lengths)
qed (use assms in \<open>simp_all add: construct_packet_def construct_frames frame_lengths construct_realwow_kapkt_def
      construct_realwow_ack_def construct_realwow_wp_def copy_struct_frame frame_len'\<close>)

lemma construct_no_memory:
  "construct_null_data False r info = Some (RTW_PHL_STATUS_RESOURCE, [], 24)"
  "construct_qos_null_data False r info = Some (RTW_PHL_STATUS_RESOURCE, [], 26)"
  "construct_arp_rsp False arp = Some (RTW_PHL_STATUS_RESOURCE, [], MAC_HDR_LEN + ucast (sec_hdr_len arp) + 8 + 28)"
  "construct_na False sec = Some (RTW_PHL_STATUS_RESOURCE, [], MAC_HDR_LEN + ucast (sec_hdr_len sec) + 8 + 72)"
  "construct_eapol_key_data False key =
     Some (RTW_PHL_STATUS_RESOURCE, [], MAC_HDR_LEN + ucast (sec_hdr_len key) + 8 + 4 + 95)"
  "construct_sa_query_pkt False sec = Some (RTW_PHL_STATUS_RESOURCE, [], MAC_HDR_LEN + ucast (sec_hdr_len sec) + 4)"
  "copy_struct False str sz = Some (RTW_PHL_STATUS_RESOURCE, [], sz)"
  by (simp_all add: construct_null_data_def construct_qos_null_data_def construct_arp_rsp_def construct_na_def
      construct_eapol_key_data_def construct_sa_query_pkt_def copy_struct_def Let_def)

lemma copy_struct_None: "copy_struct m str sz = None \<longleftrightarrow> m \<and> length str < unat sz"
  by (auto simp: copy_struct_def put_def)

lemma copy_struct_Some:
  "copy_struct m str sz = Some (st, b, len) \<Longrightarrow>
     if st = RTW_PHL_STATUS_SUCCESS then length b = unat len \<and> m else b = []"
  by (auto simp: copy_struct_def put_def split: if_splits)

lemma construct_probe_cases:
  assumes "length sa = 6"
  shows "construct_probe_req m1 m2 sa cb = None \<longleftrightarrow> m1 \<and> \<not> req_fits (Probe_req sa cb)"
    and "construct_probe_req m1 m2 sa cb = Some (st, b, len) \<Longrightarrow>
      if st = RTW_PHL_STATUS_SUCCESS then length b = unat len \<and> m1 else b = []"
proof (atomize (full), cases "cb = None \<and> m1")
  case True
  then show "(construct_probe_req m1 m2 sa cb = None \<longleftrightarrow> m1 \<and> \<not> req_fits (Probe_req sa cb)) \<and>
    (construct_probe_req m1 m2 sa cb = Some (st, b, len) \<longrightarrow>
      (if st = RTW_PHL_STATUS_SUCCESS then length b = unat len \<and> m1 else b = []))"
    using assms by (auto simp: construct_probe_frame frame_buf_def MAC_HDR_LEN_def)
next
  case False
  then show "(construct_probe_req m1 m2 sa cb = None \<longleftrightarrow> m1 \<and> \<not> req_fits (Probe_req sa cb)) \<and>
    (construct_probe_req m1 m2 sa cb = Some (st, b, len) \<longrightarrow>
      (if st = RTW_PHL_STATUS_SUCCESS then length b = unat len \<and> m1 else b = []))"
    by (auto simp: construct_probe_req_def put_def unat_of_nat_u16 split: option.splits)
qed

lemmas construct_realwow = construct_realwow_kapkt_def construct_realwow_ack_def construct_realwow_wp_def

lemma construct_packet_None:
  assumes "req_typed req"
  shows "construct_packet m1 m2 sta req = None \<longleftrightarrow>
    (pkt_type req \<in> {2, 3} \<and> implemented req \<and> sta = None) \<or> (m1 \<and> \<not> req_fits req)"
  using assms
  by (cases req; cases m1)
    (auto simp: construct_packet_def construct_frames construct_no_memory construct_realwow copy_struct_None
      construct_probe_cases(1) split: option.splits)

lemma construct_packet_Some:
  assumes "req_typed req" "construct_packet m1 m2 sta req = Some (st, b, len)"
  shows "if st = RTW_PHL_STATUS_SUCCESS then length b = unat len \<and> implemented req \<and> m1 else b = []"
proof (cases req)
  case (Probe_req sa cb)
  then show ?thesis
    using assms construct_probe_cases(2) [of sa m1 m2 cb st b len] by (simp add: construct_packet_def)
qed (use assms in \<open>cases m1; auto simp: construct_packet_def construct_frames construct_no_memory construct_realwow
      frame_lengths frame_len' dest!: copy_struct_Some split: option.splits if_splits\<close>)+

text \<open>
  C17. Equivalence of the frame constructors with the frame layout. For every request whose structure
  has its C type and whose two unchecked sizes fit, the constructor that \<^verbatim>\<open>_phl_pkt_ofld_construct_packet\<close>
  selects stays inside the buffer it allocated and produces exactly the frame of the layout: the
  802.11 header with the flags of the role, an empty security header of the requested length, the
  LLC/SNAP header and the ARP answer, neighbour advertisement, EAPOL key, SA query, probe request or
  RealWoW pattern; and the length it reports is the length of the frame.
\<close>

theorem pkt_frame_bytes:
  assumes "req_typed req" "req_fits req" "implemented req"
  shows "map_option (\<lambda>(st, b, len). (st, b, unat len)) (construct_packet True True (Some r) req) =
    Some (RTW_PHL_STATUS_SUCCESS, frame_of r req, length (frame_of r req))"
  using construct_packet_frame [OF assms, of r] by auto

lemma pkt_frame_bytes_witness:
  "map_option (\<lambda>(st, b, len). (st, b, unat len))
     (construct_packet True True (Some PHL_RTYPE_AP)
       (Qos_null \<lparr>a1 = replicate 6 1, a2 = replicate 6 2, a3 = replicate 6 3\<rparr>)) =
   Some (RTW_PHL_STATUS_SUCCESS,
     [0xC8, 2, 0, 0, 1, 1, 1, 1, 1, 1, 2, 2, 2, 2, 2, 2, 3, 3, 3, 3, 3, 3, 0, 0, 0, 0], 26)"
  using pkt_frame_bytes [of "Qos_null \<lparr>a1 = replicate 6 1, a2 = replicate 6 2, a3 = replicate 6 3\<rparr>" PHL_RTYPE_AP]
  by (simp add: addrs_ok_def null_frame_def frame_buf_def numeral_eq_Suc)

text \<open>
  C27. Memory safety of the frame constructors. With a structure of its C type, a constructor leaves
  its buffers exactly in three cases: a null data frame is requested for a MAC id without a station
  (whose pointer is dereferenced), a RealWoW size exceeds the structure it is copied from, or the
  probe request callback writes more than the temporary buffer holds. In every other case it returns a
  status; on success the buffer has the reported length, and otherwise no buffer is handed back.
\<close>

theorem pkt_frame_memory_safe:
  assumes "req_typed req"
  shows "(construct_packet m1 m2 sta req = None \<longleftrightarrow>
      (pkt_type req \<in> {2, 3} \<and> implemented req \<and> sta = None) \<or> (m1 \<and> \<not> req_fits req)) \<and>
    (\<forall>st b len. construct_packet m1 m2 sta req = Some (st, b, len) \<longrightarrow>
      (if st = RTW_PHL_STATUS_SUCCESS then length b = unat len \<and> implemented req \<and> m1 else b = []))"
  by (intro conjI allI impI construct_packet_None construct_packet_Some assms)

lemma pkt_frame_memory_safe_witness:
  "construct_packet True True None (Realwow_ack [1, 2, 3] 4) = None \<and>
   construct_packet True True None (Realwow_ack [1, 2, 3] 3) \<noteq> None"
  using pkt_frame_memory_safe [of "Realwow_ack [1, 2, 3] 4" True True None, THEN conjunct1]
    pkt_frame_memory_safe [of "Realwow_ack [1, 2, 3] 3" True True None, THEN conjunct1]
  by simp

end
