(* ===== verification/Phl_Pkt_Ofld.thy ===== *)
theory Phl_Pkt_Ofld
  imports Mac_Pkt_Ofld Pkt_Frames
begin

section \<open>Packet offload requests (phl/phl_pkt_ofld.c)\<close>

text \<open>
  PHL keeps, for each MAC id, an entry with one slot per packet type. A slot counts the requests for
  its packet: the first one constructs the frame (\<^verbatim>\<open>Pkt_Frames\<close>) and adds it to the firmware through
  the HAL, the last cancellation deletes it. The HAL is reached through \<^verbatim>\<open>rtw_hal_pkt_ofld\<close> and
  \<^verbatim>\<open>rtw_hal_pkt_update_ids\<close>; it is a record of operations here, with a contract (\<open>pkt_hal\<close>) that
  \<^verbatim>\<open>Mac_Pkt_Ofld\<close> fulfils. An access outside an array or through a dead pointer makes the result
  \<open>None\<close>. The mutex makes each operation atomic.
\<close>

subsection \<open>State\<close>

record pkt_ofld_req =
  token :: u32
  req_name :: string

record pkt_ofld_info =
  req_q :: "pkt_ofld_req list"
  req_cnt :: u32
  pid :: u8

record pkt_ofld_entry =
  emacid :: u16
  pkt_info :: "pkt_ofld_info list"

record pkt_ofld_obj =
  entry_q :: "pkt_ofld_entry list"
  entry_cnt :: u32
  cur_seq :: u32

definition NOT_USED :: u8 where "NOT_USED = 0xFF"
definition PKT_OFLD_TYPE_MAX :: nat where "PKT_OFLD_TYPE_MAX = 13"

text \<open>
  \<^verbatim>\<open>phl_info->pkt_ofld\<close>: null before the object is made, dangling after it was freed. \<open>'m\<close> is the
  state of the HAL.
\<close>

datatype obj_ptr = Null | Freed | Obj pkt_ofld_obj

record 'm phl_po =
  po_obj :: obj_ptr
  po_hal :: 'm

record 'm hal_ops =
  h_add :: "u8 list \<Rightarrow> u16 \<Rightarrow> u8 \<Rightarrow> 'm \<Rightarrow> rtw_hal_status \<times> u8 \<times> 'm"
  h_del :: "u8 \<Rightarrow> 'm \<Rightarrow> rtw_hal_status \<times> 'm"
  h_read :: "u8 \<Rightarrow> 'm \<Rightarrow> rtw_hal_status \<times> u8 \<times> 'm"
  h_update_ids :: "pkt_ofld_entry \<Rightarrow> 'm \<Rightarrow> rtw_hal_status \<times> 'm"

subsection \<open>Requests of a slot\<close>

definition is_pkt_ofld :: "pkt_ofld_info \<Rightarrow> bool" where
  "is_pkt_ofld info \<longleftrightarrow> pid info \<noteq> NOT_USED"

text \<open>Two allocations: the request and its name.\<close>

definition gen_req :: "bool \<Rightarrow> bool \<Rightarrow> string \<Rightarrow> pkt_ofld_obj \<Rightarrow> pkt_ofld_req option \<times> pkt_ofld_obj" where
  "gen_req mem mem_name name ob =
     (if \<not> mem then (None, ob)
      else
        let tok = cur_seq ob; ob1 = ob\<lparr>cur_seq := cur_seq ob + 1\<rparr>
        in if \<not> mem_name then (None, ob1) else (Some \<lparr>token = tok, req_name = name\<rparr>, ob1))"

definition add_req :: "pkt_ofld_req \<Rightarrow> pkt_ofld_info \<Rightarrow> pkt_ofld_info" where
  "add_req r info = info\<lparr>req_q := r # req_q info, req_cnt := req_cnt info + 1\<rparr>"

definition del_req :: "pkt_ofld_req \<Rightarrow> pkt_ofld_info \<Rightarrow> pkt_ofld_info" where
  "del_req r info = info\<lparr>req_q := remove1 r (req_q info), req_cnt := req_cnt info - 1\<rparr>"

definition get_req :: "u32 \<Rightarrow> pkt_ofld_info \<Rightarrow> pkt_ofld_req option" where
  "get_req tok info = List.find (\<lambda>r. token r = tok) (req_q info)"

text \<open>\<^verbatim>\<open>_phl_pkt_ofld_del_all_req\<close> walks the queue and removes each request.\<close>

definition del_all_req :: "pkt_ofld_info \<Rightarrow> pkt_ofld_info" where
  "del_all_req info = fold del_req (req_q info) info"

subsection \<open>Entries\<close>

definition init_info :: pkt_ofld_info where
  "init_info = \<lparr>req_q = [], req_cnt = 0, pid = NOT_USED\<rparr>"

definition init_entry :: "u16 \<Rightarrow> pkt_ofld_entry" where
  "init_entry mid = \<lparr>emacid = mid, pkt_info = replicate PKT_OFLD_TYPE_MAX init_info\<rparr>"

definition is_entry_exist :: "u16 \<Rightarrow> pkt_ofld_obj \<Rightarrow> bool" where
  "is_entry_exist mid ob \<longleftrightarrow> list_ex (\<lambda>e. emacid e = mid) (entry_q ob)"

definition get_entry :: "u16 \<Rightarrow> pkt_ofld_obj \<Rightarrow> pkt_ofld_entry option" where
  "get_entry mid ob = List.find (\<lambda>e. emacid e = mid) (entry_q ob)"

text \<open>What a write through the pointer \<^verbatim>\<open>_phl_pkt_ofld_get_entry\<close> returns does to the queue.\<close>

fun put_entry :: "pkt_ofld_entry \<Rightarrow> pkt_ofld_entry list \<Rightarrow> pkt_ofld_entry list" where
  "put_entry e [] = []"
| "put_entry e (x # xs) = (if emacid x = emacid e then e # xs else x # put_entry e xs)"

definition upd_info :: "nat \<Rightarrow> (pkt_ofld_info \<Rightarrow> pkt_ofld_info) \<Rightarrow> pkt_ofld_entry \<Rightarrow> pkt_ofld_entry" where
  "upd_info t f e = e\<lparr>pkt_info := (pkt_info e)[t := f (pkt_info e ! t)]\<rparr>"

text \<open>\<^verbatim>\<open>_phl_pkt_ofld_cancel_entry_pkt\<close>: deletes what the slots hold, in order; a failure is only logged.\<close>

fun cancel_infos :: "'m hal_ops \<Rightarrow> pkt_ofld_info list \<Rightarrow> 'm \<Rightarrow> 'm" where
  "cancel_infos hal [] h = h"
| "cancel_infos hal (info # infos) h =
     cancel_infos hal infos (if is_pkt_ofld info then snd (h_del hal (pid info) h) else h)"

definition cancel_entry_pkt :: "'m hal_ops \<Rightarrow> pkt_ofld_entry \<Rightarrow> 'm \<Rightarrow> 'm" where
  "cancel_entry_pkt hal e h = cancel_infos hal (pkt_info e) h"

definition del_entry_req :: "pkt_ofld_entry \<Rightarrow> pkt_ofld_entry" where
  "del_entry_req e = e\<lparr>pkt_info := map (\<lambda>info. del_all_req (info\<lparr>pid := NOT_USED\<rparr>)) (pkt_info e)\<rparr>"

definition add_entry :: "'m hal_ops \<Rightarrow> u16 \<Rightarrow> pkt_ofld_obj \<Rightarrow> 'm \<Rightarrow> pkt_ofld_obj \<times> 'm" where
  "add_entry hal mid ob h =
     (ob\<lparr>entry_q := init_entry mid # entry_q ob, entry_cnt := entry_cnt ob + 1\<rparr>,
      snd (h_update_ids hal (init_entry mid) h))"

definition del_entry :: "pkt_ofld_entry \<Rightarrow> pkt_ofld_obj \<Rightarrow> pkt_ofld_obj" where
  "del_entry e ob = ob\<lparr>entry_q := remove1 e (entry_q ob), entry_cnt := entry_cnt ob - 1\<rparr>"

subsection \<open>Packets of a slot\<close>

text \<open>The two allocations of the constructors and the role of the station of the MAC id.\<close>

record frame_env =
  fe_mem :: bool
  fe_mem2 :: bool
  fe_sta :: "role_type option"

definition add_pkt ::
  "'m hal_ops \<Rightarrow> frame_env \<Rightarrow> pkt_req \<Rightarrow> pkt_ofld_entry \<Rightarrow> 'm \<Rightarrow> (rtw_phl_status \<times> pkt_ofld_entry \<times> 'm) option" where
  "add_pkt hal fe req e h =
     (let t = unat (pkt_type req); info = pkt_info e ! t in
      if is_pkt_ofld info then Some (RTW_PHL_STATUS_SUCCESS, e, h)
      else
        do { (st, buf, len) \<leftarrow> construct_packet (fe_mem fe) (fe_mem2 fe) (fe_sta fe) req;
             if st \<noteq> RTW_PHL_STATUS_SUCCESS then Some (RTW_PHL_STATUS_FAILURE, e, h)
             else
               case h_add hal buf len (pid info) h of (hst, i, h1) \<Rightarrow>
                 if hst \<noteq> RTW_HAL_STATUS_SUCCESS
                 then Some (RTW_PHL_STATUS_FAILURE, upd_info t (pid_update (\<lambda>_. NOT_USED)) e, h1)
                 else
                   let e1 = upd_info t (pid_update (\<lambda>_. i)) e
                   in case h_update_ids hal e1 h1 of (hst2, h2) \<Rightarrow>
                        if hst2 \<noteq> RTW_HAL_STATUS_SUCCESS
                        then Some (RTW_PHL_STATUS_FAILURE, upd_info t (pid_update (\<lambda>_. NOT_USED)) e1, h2)
                        else Some (RTW_PHL_STATUS_SUCCESS, e1, h2) })"

definition del_pkt :: "'m hal_ops \<Rightarrow> nat \<Rightarrow> pkt_ofld_entry \<Rightarrow> 'm \<Rightarrow> rtw_phl_status \<times> pkt_ofld_entry \<times> 'm" where
  "del_pkt hal t e h =
     (let info = pkt_info e ! t in
      if \<not> is_pkt_ofld info then (RTW_PHL_STATUS_FAILURE, e, h)
      else if req_cnt info - 1 \<noteq> 0 then (RTW_PHL_STATUS_SUCCESS, e, h)
      else
        case h_del hal (pid info) h of (hst, h1) \<Rightarrow>
          if hst \<noteq> RTW_HAL_STATUS_SUCCESS then (RTW_PHL_STATUS_FAILURE, e, h1)
          else (RTW_PHL_STATUS_SUCCESS, upd_info t (pid_update (\<lambda>_. NOT_USED)) e, h1))"

subsection \<open>The object\<close>

definition phl_pkt_ofld_init :: "bool \<Rightarrow> 'm phl_po \<Rightarrow> rtw_phl_status \<times> 'm phl_po" where
  "phl_pkt_ofld_init mem w =
     (if \<not> mem then (RTW_PHL_STATUS_RESOURCE, w)
      else (RTW_PHL_STATUS_SUCCESS, w\<lparr>po_obj := Obj \<lparr>entry_q = [], entry_cnt = 0, cur_seq = 0\<rparr>\<rparr>))"

text \<open>
  The body of the loop of \<^verbatim>\<open>phl_pkt_ofld_deinit\<close>; \<open>fst\<close> of the result is the content of the object
  at the moment it is freed. The pointer to it stays.
\<close>

definition drop_entry :: "pkt_ofld_entry \<Rightarrow> pkt_ofld_obj \<Rightarrow> pkt_ofld_obj" where
  "drop_entry e ob =
     (let e1 = del_entry_req e in del_entry e1 (ob\<lparr>entry_q := put_entry e1 (entry_q ob)\<rparr>))"

definition phl_pkt_ofld_deinit :: "'m phl_po \<Rightarrow> (pkt_ofld_obj \<times> 'm phl_po) option" where
  "phl_pkt_ofld_deinit w =
     (case po_obj w of
        Obj ob \<Rightarrow> Some (fold drop_entry (entry_q ob) ob, w\<lparr>po_obj := Freed\<rparr>)
      | _ \<Rightarrow> None)"

definition phl_pkt_ofld_del_all_entry_req :: "'m phl_po \<Rightarrow> 'm phl_po option" where
  "phl_pkt_ofld_del_all_entry_req w =
     (case po_obj w of
        Obj ob \<Rightarrow> Some (w\<lparr>po_obj := Obj (ob\<lparr>entry_q := map del_entry_req (entry_q ob)\<rparr>)\<rparr>)
      | _ \<Rightarrow> None)"

definition phl_pkt_ofld_add_entry ::
  "'m hal_ops \<Rightarrow> bool \<Rightarrow> u16 \<Rightarrow> 'm phl_po \<Rightarrow> (rtw_phl_status \<times> 'm phl_po) option" where
  "phl_pkt_ofld_add_entry hal mem mid w =
     (case po_obj w of
        Obj ob \<Rightarrow>
          Some (if is_entry_exist mid ob then (RTW_PHL_STATUS_FAILURE, w)
                else if \<not> mem then (RTW_PHL_STATUS_RESOURCE, w)
                else case add_entry hal mid ob (po_hal w) of
                       (ob1, h1) \<Rightarrow> (RTW_PHL_STATUS_SUCCESS, w\<lparr>po_obj := Obj ob1, po_hal := h1\<rparr>))
      | _ \<Rightarrow> None)"

definition phl_pkt_ofld_del_entry ::
  "'m hal_ops \<Rightarrow> u16 \<Rightarrow> 'm phl_po \<Rightarrow> (rtw_phl_status \<times> 'm phl_po) option" where
  "phl_pkt_ofld_del_entry hal mid w =
     (case po_obj w of
        Obj ob \<Rightarrow>
          Some (case get_entry mid ob of
                  None \<Rightarrow> (RTW_PHL_STATUS_FAILURE, w)
                | Some e \<Rightarrow>
                    let h1 = cancel_entry_pkt hal e (po_hal w)
                    in (RTW_PHL_STATUS_SUCCESS, w\<lparr>po_obj := Obj (drop_entry e ob), po_hal := h1\<rparr>))
      | _ \<Rightarrow> None)"

definition rtw_phl_pkt_ofld_reset_entry ::
  "'m hal_ops \<Rightarrow> u16 \<Rightarrow> 'm phl_po \<Rightarrow> (rtw_phl_status \<times> 'm phl_po) option" where
  "rtw_phl_pkt_ofld_reset_entry hal mid w =
     (case po_obj w of
        Null \<Rightarrow> Some (RTW_PHL_STATUS_FAILURE, w)
      | Freed \<Rightarrow> None
      | Obj ob \<Rightarrow>
          Some (case get_entry mid ob of
                  None \<Rightarrow> (RTW_PHL_STATUS_FAILURE, w)
                | Some e \<Rightarrow>
                    let h1 = cancel_entry_pkt hal e (po_hal w);
                        ob1 = ob\<lparr>entry_q := put_entry (del_entry_req e) (entry_q ob)\<rparr>
                    in (RTW_PHL_STATUS_SUCCESS, w\<lparr>po_obj := Obj ob1, po_hal := h1\<rparr>)))"

subsection \<open>Request and cancel\<close>

record req_env = frame_env +
  re_mem :: bool
  re_mem_name :: bool

text \<open>
  \<open>want\<close> says that the caller passes a pointer for the token; the middle component of the result is
  what is written there.
\<close>

definition rtw_phl_pkt_ofld_request ::
  "'m hal_ops \<Rightarrow> req_env \<Rightarrow> u16 \<Rightarrow> pkt_req \<Rightarrow> bool \<Rightarrow> string \<Rightarrow> 'm phl_po \<Rightarrow>
     (rtw_phl_status \<times> u32 option \<times> 'm phl_po) option" where
  "rtw_phl_pkt_ofld_request hal re mid req want name w =
     (case po_obj w of
        Obj ob \<Rightarrow>
          (case get_entry mid ob of
             None \<Rightarrow> Some (RTW_PHL_STATUS_FAILURE, None, w)
           | Some e \<Rightarrow>
               (case gen_req (re_mem re) (re_mem_name re) name ob of
                  (None, ob1) \<Rightarrow> Some (RTW_PHL_STATUS_RESOURCE, None, w\<lparr>po_obj := Obj ob1\<rparr>)
                | (Some r, ob1) \<Rightarrow>
                    let t = unat (pkt_type req) in
                    if t \<ge> PKT_OFLD_TYPE_MAX then None
                    else
                      do { (st, e1, h1) \<leftarrow>
                             add_pkt hal (frame_env.truncate re) req (upd_info t (add_req r) e) (po_hal w);
                           if st \<noteq> RTW_PHL_STATUS_SUCCESS
                           then Some (RTW_PHL_STATUS_FAILURE, None,
                                  w\<lparr>po_obj := Obj (ob1\<lparr>entry_q := put_entry (upd_info t (del_req r) e1) (entry_q ob1)\<rparr>),
                                    po_hal := h1\<rparr>)
                           else Some (RTW_PHL_STATUS_SUCCESS, if want then Some (token r) else None,
                                  w\<lparr>po_obj := Obj (ob1\<lparr>entry_q := put_entry e1 (entry_q ob1)\<rparr>), po_hal := h1\<rparr>) }))
      | _ \<Rightarrow> None)"

definition rtw_phl_pkt_ofld_cancel ::
  "'m hal_ops \<Rightarrow> u16 \<Rightarrow> u8 \<Rightarrow> u32 \<Rightarrow> 'm phl_po \<Rightarrow> (rtw_phl_status \<times> 'm phl_po) option" where
  "rtw_phl_pkt_ofld_cancel hal mid ty tok w =
     (case po_obj w of
        Obj ob \<Rightarrow>
          (case get_entry mid ob of
             None \<Rightarrow> Some (RTW_PHL_STATUS_FAILURE, w)
           | Some e \<Rightarrow>
               let t = unat ty in
               if t \<ge> PKT_OFLD_TYPE_MAX then None
               else if pid (pkt_info e ! t) = NOT_USED then Some (RTW_PHL_STATUS_SUCCESS, w)
               else
                 Some (case get_req tok (pkt_info e ! t) of
                         None \<Rightarrow> (RTW_PHL_STATUS_FAILURE, w)
                       | Some r \<Rightarrow>
                           (case del_pkt hal t e (po_hal w) of (st, e1, h1) \<Rightarrow>
                              if st \<noteq> RTW_PHL_STATUS_SUCCESS
                              then (RTW_PHL_STATUS_FAILURE,
                                    w\<lparr>po_obj := Obj (ob\<lparr>entry_q := put_entry e1 (entry_q ob)\<rparr>), po_hal := h1\<rparr>)
                              else (RTW_PHL_STATUS_SUCCESS,
                                    w\<lparr>po_obj := Obj (ob\<lparr>entry_q := put_entry (upd_info t (del_req r) e1) (entry_q ob)\<rparr>),
                                      po_hal := h1\<rparr>))))
      | _ \<Rightarrow> None)"

text \<open>The members of \<^verbatim>\<open>rtw_phl_stainfo_t\<close> and of its role that \<^verbatim>\<open>rtw_phl_pkt_ofld_null_request\<close> reads.\<close>

record null_sta =
  ns_macid :: u16
  ns_mac_addr :: "u8 list"
  ns_role_addr :: "u8 list"
  ns_role_type :: role_type
  ns_wmode :: u32

definition rtw_phl_is_client_category :: "role_type \<Rightarrow> bool" where
  "rtw_phl_is_client_category r \<longleftrightarrow> r = PHL_RTYPE_STATION \<or> r = PHL_RTYPE_P2P_GC \<or> r = PHL_RTYPE_TDLS"

definition WLAN_MD_11N :: u32 where "WLAN_MD_11N = 8"

text \<open>The second request writes its token over the first one's.\<close>

definition rtw_phl_pkt_ofld_null_request ::
  "'m hal_ops \<Rightarrow> req_env \<Rightarrow> req_env \<Rightarrow> null_sta \<Rightarrow> bool \<Rightarrow> 'm phl_po \<Rightarrow>
     (rtw_phl_status \<times> u32 option \<times> 'm phl_po) option" where
  "rtw_phl_pkt_ofld_null_request hal re1 re2 sta want w =
     (if \<not> rtw_phl_is_client_category (ns_role_type sta) then Some (RTW_PHL_STATUS_FAILURE, None, w)
      else
        let info = \<lparr>a1 = take 6 (ns_mac_addr sta), a2 = take 6 (ns_role_addr sta), a3 = take 6 (ns_mac_addr sta)\<rparr>;
            name = ''rtw_phl_pkt_ofld_null_request''
        in do { (st, tok, w1) \<leftarrow> rtw_phl_pkt_ofld_request hal re1 (ns_macid sta) (Null_data info) want name w;
                if ns_wmode sta \<ge> WLAN_MD_11N
                then do { (st2, tok2, w2) \<leftarrow> rtw_phl_pkt_ofld_request hal re2 (ns_macid sta) (Qos_null info) want name w1;
                          Some (st2, (case tok2 of None \<Rightarrow> tok | Some x \<Rightarrow> Some x), w2) }
                else Some (st, tok, w1) })"

subsection \<open>Queries\<close>

text \<open>
  The dump reads every offloaded packet back; the read writes the id of the packet the firmware
  answered with through the pointer to the slot's id.
\<close>

definition dbg_dump_pkt_info :: "'m hal_ops \<Rightarrow> pkt_ofld_info \<Rightarrow> 'm \<Rightarrow> pkt_ofld_info \<times> 'm" where
  "dbg_dump_pkt_info hal info h =
     (if is_pkt_ofld info then (case h_read hal (pid info) h of (st, i, h1) \<Rightarrow> (info\<lparr>pid := i\<rparr>, h1))
      else (info, h))"

fun dbg_dump_infos :: "'m hal_ops \<Rightarrow> pkt_ofld_info list \<Rightarrow> 'm \<Rightarrow> pkt_ofld_info list \<times> 'm" where
  "dbg_dump_infos hal [] h = ([], h)"
| "dbg_dump_infos hal (info # infos) h =
     (case dbg_dump_pkt_info hal info h of (info1, h1) \<Rightarrow>
        case dbg_dump_infos hal infos h1 of (infos1, h2) \<Rightarrow> (info1 # infos1, h2))"

fun dbg_dump :: "'m hal_ops \<Rightarrow> pkt_ofld_entry list \<Rightarrow> 'm \<Rightarrow> pkt_ofld_entry list \<times> 'm" where
  "dbg_dump hal [] h = ([], h)"
| "dbg_dump hal (e # es) h =
     (case dbg_dump_infos hal (pkt_info e) h of (infos, h1) \<Rightarrow>
        case dbg_dump hal es h1 of (es1, h2) \<Rightarrow> (e\<lparr>pkt_info := infos\<rparr> # es1, h2))"

definition phl_pkt_ofld_show_info :: "'m hal_ops \<Rightarrow> 'm phl_po \<Rightarrow> 'm phl_po option" where
  "phl_pkt_ofld_show_info hal w =
     (case po_obj w of
        Obj ob \<Rightarrow>
          (case dbg_dump hal (entry_q ob) (po_hal w) of
             (es, h1) \<Rightarrow> Some (w\<lparr>po_obj := Obj (ob\<lparr>entry_q := es\<rparr>), po_hal := h1\<rparr>))
      | _ \<Rightarrow> None)"

definition phl_pkt_ofld_get_id :: "u16 \<Rightarrow> u8 \<Rightarrow> 'm phl_po \<Rightarrow> u8 option" where
  "phl_pkt_ofld_get_id mid ty w =
     (case po_obj w of
        Obj ob \<Rightarrow>
          (case get_entry mid ob of
             None \<Rightarrow> Some (of_nat (status_code RTW_PHL_STATUS_FAILURE))
           | Some e \<Rightarrow> if unat ty \<ge> PKT_OFLD_TYPE_MAX then None else Some (pid (pkt_info e ! unat ty)))
      | _ \<Rightarrow> None)"

subsection \<open>Slots\<close>

definition info_ok :: "pkt_ofld_info \<Rightarrow> bool" where
  "info_ok info \<longleftrightarrow> req_cnt info = of_nat (length (req_q info)) \<and> (is_pkt_ofld info \<longleftrightarrow> req_q info \<noteq> [])"

definition entry_ok :: "pkt_ofld_entry \<Rightarrow> bool" where
  "entry_ok e \<longleftrightarrow> length (pkt_info e) = PKT_OFLD_TYPE_MAX \<and> (\<forall>info \<in> set (pkt_info e). info_ok info)"

definition info_tokens :: "pkt_ofld_info \<Rightarrow> u32 list" where
  "info_tokens info = map token (req_q info)"

definition entry_tokens :: "pkt_ofld_entry \<Rightarrow> u32 list" where
  "entry_tokens e = concat (map info_tokens (pkt_info e))"

definition all_tokens :: "pkt_ofld_obj \<Rightarrow> u32 list" where
  "all_tokens ob = concat (map entry_tokens (entry_q ob))"

text \<open>
  The object after \<open>n\<close> tokens: the counters count, a slot is offloaded while it is requested, the
  entries have different MAC ids and the requests different tokens, all issued before.
\<close>

definition obj_inv :: "nat \<Rightarrow> pkt_ofld_obj \<Rightarrow> bool" where
  "obj_inv n ob \<longleftrightarrow>
     distinct (map emacid (entry_q ob)) \<and> entry_cnt ob = of_nat (length (entry_q ob)) \<and>
     (\<forall>e \<in> set (entry_q ob). entry_ok e) \<and> cur_seq ob = of_nat n \<and> n < 2 ^ 32 \<and>
     distinct (all_tokens ob) \<and> (\<forall>tok \<in> set (all_tokens ob). unat tok < n)"

lemma get_entry_split:
  assumes "get_entry mid ob = Some e"
  obtains xs ys where "entry_q ob = xs @ e # ys" "emacid e = mid" "\<forall>x \<in> set xs. emacid x \<noteq> mid"
  using find_split [OF assms [unfolded get_entry_def]] that by blast

lemma put_entry_split:
  "\<forall>x \<in> set xs. emacid x \<noteq> emacid e' \<Longrightarrow> emacid e = emacid e' \<Longrightarrow> put_entry e' (xs @ e # ys) = xs @ e' # ys"
  by (induction xs) auto

lemma upd_info_split:
  assumes "t < length (pkt_info e)"
  shows "pkt_info (upd_info t f e) = take t (pkt_info e) @ f (pkt_info e ! t) # drop (Suc t) (pkt_info e)"
    "pkt_info e = take t (pkt_info e) @ pkt_info e ! t # drop (Suc t) (pkt_info e)"
  using assms by (simp_all add: upd_info_def upd_conv_take_nth_drop id_take_nth_drop [symmetric])

lemma upd_info_simps [simp]:
  "emacid (upd_info t f e) = emacid e" "length (pkt_info (upd_info t f e)) = length (pkt_info e)"
  by (simp_all add: upd_info_def)

lemma upd_info_nth [simp]: "t < length (pkt_info e) \<Longrightarrow> pkt_info (upd_info t f e) ! t = f (pkt_info e ! t)"
  by (simp add: upd_info_def)

lemma upd_info_twice [simp]:
  "t < length (pkt_info e) \<Longrightarrow> upd_info t f (upd_info t g e) = upd_info t (f \<circ> g) e"
  by (simp add: upd_info_def)

lemma entry_ok_nth: "entry_ok e \<Longrightarrow> t < PKT_OFLD_TYPE_MAX \<Longrightarrow> t < length (pkt_info e) \<and> info_ok (pkt_info e ! t)"
  by (auto simp: entry_ok_def)


text \<open>
  Writing a slot: the requests it keeps are old ones of the slot or carry tokens issued since.
\<close>

lemma slot_tokens:
  assumes ob: "\<forall>e \<in> set (entry_q ob). entry_ok e" and e: "get_entry mid ob = Some e" and t: "t < PKT_OFLD_TYPE_MAX"
  shows "\<exists>A B. all_tokens ob = A @ info_tokens (pkt_info e ! t) @ B \<and>
    (\<forall>f n. all_tokens (ob\<lparr>entry_q := put_entry (upd_info t f e) (entry_q ob), cur_seq := n\<rparr>) =
       A @ info_tokens (f (pkt_info e ! t)) @ B)"
proof -
  obtain xs ys where q: "entry_q ob = xs @ e # ys" "emacid e = mid" "\<forall>x \<in> set xs. emacid x \<noteq> mid"
    using e by (rule get_entry_split)
  have l: "t < length (pkt_info e)" using ob q(1) t entry_ok_nth by auto
  let ?A = "concat (map entry_tokens xs) @ concat (map info_tokens (take t (pkt_info e)))"
  let ?B = "concat (map info_tokens (drop (Suc t) (pkt_info e))) @ concat (map entry_tokens ys)"
  have "put_entry (upd_info t f e) (entry_q ob) = xs @ upd_info t f e # ys" for f
    using q by (simp add: put_entry_split)
  then have 1: "all_tokens (ob\<lparr>entry_q := put_entry (upd_info t f e) (entry_q ob), cur_seq := n\<rparr>) =
      ?A @ info_tokens (f (pkt_info e ! t)) @ ?B" for f n
    by (simp add: all_tokens_def entry_tokens_def upd_info_split(1) [OF l])
  have "entry_tokens e = concat (map info_tokens (take t (pkt_info e) @ pkt_info e ! t # drop (Suc t) (pkt_info e)))"
    unfolding entry_tokens_def using upd_info_split(2) [OF l] by simp
  then have 2: "all_tokens ob = ?A @ info_tokens (pkt_info e ! t) @ ?B"
    by (simp add: all_tokens_def q(1))
  show ?thesis using 1 2 by blast
qed

lemma upd_entry_ok: "entry_ok e \<Longrightarrow> t < PKT_OFLD_TYPE_MAX \<Longrightarrow> info_ok (f (pkt_info e ! t)) \<Longrightarrow> entry_ok (upd_info t f e)"
  unfolding entry_ok_def by (auto simp: upd_info_def dest!: set_update_subset_insert [THEN subsetD])

lemma slot_update:
  assumes inv: "obj_inv n ob" and e: "get_entry mid ob = Some e" and t: "t < PKT_OFLD_TYPE_MAX"
    and ok: "info_ok (f (pkt_info e ! t))" and d: "distinct (info_tokens (f (pkt_info e ! t)))"
    and new: "set (info_tokens (f (pkt_info e ! t))) \<subseteq> set (info_tokens (pkt_info e ! t)) \<union> {tok. n \<le> unat tok \<and> unat tok < n'}"
    and n': "n \<le> n'" "n' < 2 ^ 32"
  shows "obj_inv n' (ob\<lparr>entry_q := put_entry (upd_info t f e) (entry_q ob), cur_seq := of_nat n'\<rparr>)"
proof -
  let ?ob = "ob\<lparr>entry_q := put_entry (upd_info t f e) (entry_q ob), cur_seq := of_nat n'\<rparr>"
  obtain xs ys where q: "entry_q ob = xs @ e # ys" "emacid e = mid" "\<forall>x \<in> set xs. emacid x \<noteq> mid"
    using e by (rule get_entry_split)
  have q': "entry_q ?ob = xs @ upd_info t f e # ys" using q by (simp add: put_entry_split)
  have eok: "\<forall>e \<in> set (entry_q ob). entry_ok e" using inv by (simp add: obj_inv_def)
  obtain A B where AB: "all_tokens ob = A @ info_tokens (pkt_info e ! t) @ B"
    "all_tokens ?ob = A @ info_tokens (f (pkt_info e ! t)) @ B"
    using slot_tokens [OF eok e t] by blast
  have old: "distinct (all_tokens ob)" "\<forall>tok \<in> set (all_tokens ob). unat tok < n"
    using inv by (simp_all add: obj_inv_def)
  have mem: "x \<in> set (info_tokens (pkt_info e ! t)) \<or> n \<le> unat x \<and> unat x < n'"
    if "x \<in> set (info_tokens (f (pkt_info e ! t)))" for x
    using new that by auto
  have out: "x \<notin> set A \<and> x \<notin> set B" if "x \<in> set (info_tokens (f (pkt_info e ! t)))" for x
    using mem [OF that] old unfolding AB by (auto simp: not_less [symmetric])
  have "distinct (all_tokens ?ob)"
    using old(1) d out unfolding AB by auto
  moreover have "\<forall>tok \<in> set (all_tokens ?ob). unat tok < n'"
  proof
    fix tok assume "tok \<in> set (all_tokens ?ob)"
    then have "unat tok < n \<or> unat tok < n'"
      using old(2) mem [of tok] unfolding AB by auto
    then show "unat tok < n'" using n'(1) by linarith
  qed
  moreover have "\<forall>e \<in> set (entry_q ?ob). entry_ok e"
    using eok ok t unfolding q' by (auto simp: q(1) upd_entry_ok)
  ultimately show ?thesis
    using inv n'(2) unfolding obj_inv_def q' by (simp add: q(1))
qed

lemma pid_same: "pid info = i \<Longrightarrow> info\<lparr>pid := i\<rparr> = info"
  by (cases info) simp

lemma put_entry_same: "get_entry mid ob = Some e \<Longrightarrow> put_entry e (entry_q ob) = entry_q ob"
  by (erule get_entry_split) (simp add: put_entry_split)

lemma obj_inv_seq:
  assumes "obj_inv n ob" "n \<le> n'" "n' < 2 ^ 32"
  shows "obj_inv n' (ob\<lparr>cur_seq := of_nat n'\<rparr>)"
proof -
  have "all_tokens (ob\<lparr>cur_seq := of_nat n'\<rparr>) = all_tokens ob" by (simp add: all_tokens_def)
  then show ?thesis using assms by (auto simp: obj_inv_def)
qed

lemma slot_info:
  assumes "obj_inv n ob" "get_entry mid ob = Some e" "t < PKT_OFLD_TYPE_MAX"
  shows "t < length (pkt_info e)" "info_ok (pkt_info e ! t)" "distinct (info_tokens (pkt_info e ! t))"
    "length (req_q (pkt_info e ! t)) < 2 ^ 32" "\<forall>tok \<in> set (info_tokens (pkt_info e ! t)). unat tok < n"
proof -
  have eok: "\<forall>e \<in> set (entry_q ob). entry_ok e" using assms(1) by (simp add: obj_inv_def)
  moreover have "e \<in> set (entry_q ob)" using assms(2) by (auto elim: get_entry_split)
  ultimately have "entry_ok e" by blast
  then show "t < length (pkt_info e)" "info_ok (pkt_info e ! t)" using entry_ok_nth assms(3) by auto
  obtain A B where AB: "all_tokens ob = A @ info_tokens (pkt_info e ! t) @ B"
    using slot_tokens [OF eok assms(2,3)] by blast
  show d: "distinct (info_tokens (pkt_info e ! t))" using assms(1) AB by (simp add: obj_inv_def)
  show u: "\<forall>tok \<in> set (info_tokens (pkt_info e ! t)). unat tok < n" using assms(1) AB by (simp add: obj_inv_def)
  have "card (unat ` set (info_tokens (pkt_info e ! t))) \<le> card {..<n}"
    using u by (intro card_mono) auto
  moreover have "card (unat ` set (info_tokens (pkt_info e ! t))) = length (info_tokens (pkt_info e ! t))"
    using d by (subst card_image) (simp_all add: inj_on_def distinct_card flip: word_unat_eq_iff)
  moreover have "n < 2 ^ 32" using assms(1) by (simp add: obj_inv_def)
  ultimately show "length (req_q (pkt_info e ! t)) < 2 ^ 32" by (simp add: info_tokens_def)
qed

text \<open>The three changes of a slot that request and cancel make.\<close>

definition slot_put :: "u16 \<Rightarrow> nat \<Rightarrow> (pkt_ofld_info \<Rightarrow> pkt_ofld_info) \<Rightarrow> pkt_ofld_obj \<Rightarrow> pkt_ofld_obj" where
  "slot_put mid t f ob =
     (case get_entry mid ob of None \<Rightarrow> ob | Some e \<Rightarrow> ob\<lparr>entry_q := put_entry (upd_info t f e) (entry_q ob)\<rparr>)"

lemma slot_add_inv:
  assumes inv: "obj_inv n ob" and e: "get_entry mid ob = Some e" and t: "t < PKT_OFLD_TYPE_MAX"
    and i: "i \<noteq> NOT_USED" and n: "Suc n < 2 ^ 32"
  shows "obj_inv (Suc n) ((slot_put mid t (\<lambda>info. (add_req \<lparr>token = cur_seq ob, req_name = name\<rparr> info)\<lparr>pid := i\<rparr>) ob)
      \<lparr>cur_seq := of_nat (Suc n)\<rparr>)"
proof -
  let ?f = "\<lambda>info. (add_req \<lparr>token = cur_seq ob, req_name = name\<rparr> info)\<lparr>pid := i\<rparr>"
  have u: "unat (of_nat n :: u32) = n" using n by (simp add: unat_of_nat)
  note s = slot_info [OF inv e t]
  have c: "cur_seq ob = of_nat n" using inv by (simp add: obj_inv_def)
  have "of_nat n \<notin> set (info_tokens (pkt_info e ! t))" using s(5) u by force
  then have "distinct (info_tokens (?f (pkt_info e ! t)))"
    using s(3) c by (simp add: info_tokens_def add_req_def)
  moreover have "info_ok (?f (pkt_info e ! t))"
    using s(2) i by (simp add: info_ok_def add_req_def is_pkt_ofld_def)
  moreover have "set (info_tokens (?f (pkt_info e ! t))) \<subseteq>
      set (info_tokens (pkt_info e ! t)) \<union> {tok. n \<le> unat tok \<and> unat tok < Suc n}"
    using c u by (auto simp: info_tokens_def add_req_def)
  ultimately show ?thesis
    using slot_update [OF inv e t, of ?f "Suc n"] n e by (simp add: slot_put_def)
qed

lemma slot_del_inv:
  assumes inv: "obj_inv n ob" and e: "get_entry mid ob = Some e" and t: "t < PKT_OFLD_TYPE_MAX"
    and r: "r \<in> set (req_q (pkt_info e ! t))"
  shows "obj_inv n (slot_put mid t
      (\<lambda>info. del_req r (if req_cnt info - 1 \<noteq> 0 then info else info\<lparr>pid := NOT_USED\<rparr>)) ob)"
proof -
  let ?info = "pkt_info e ! t" and ?f = "\<lambda>info. del_req r (if req_cnt info - 1 \<noteq> 0 then info else info\<lparr>pid := NOT_USED\<rparr>)"
  note s = slot_info [OF inv e t]
  have sel: "req_q (?f ?info) = remove1 r (req_q ?info)" "req_cnt (?f ?info) = req_cnt ?info - 1"
    "pid (?f ?info) = (if req_cnt ?info - 1 \<noteq> 0 then pid ?info else NOT_USED)"
    by (simp_all add: del_req_def)
  obtain k where k: "length (req_q ?info) = Suc k" using r by (cases "req_q ?info") auto
  have len: "length (remove1 r (req_q ?info)) = k" using r k by (simp add: length_remove1)
  have cnt: "req_cnt ?info - 1 = of_nat k" using s(2) k by (simp add: info_ok_def)
  have "unat (of_nat k :: u32) = k" using s(4) k by (simp add: unat_of_nat)
  then have z: "(of_nat k :: u32) = 0 \<longleftrightarrow> k = 0" using unat_eq_zero [of "of_nat k :: u32"] by argo
  have "remove1 r (req_q ?info) = [] \<longleftrightarrow> k = 0" using len by (metis length_0_conv)
  then have "info_ok (?f ?info)"
    using s(2) len cnt k z unfolding info_ok_def sel is_pkt_ofld_def by auto
  moreover have "distinct (info_tokens (?f ?info))"
    using s(3) unfolding info_tokens_def sel distinct_map
    by (auto simp: distinct_remove1 intro: inj_on_diff)
  moreover have "set (info_tokens (?f ?info)) \<subseteq> set (info_tokens ?info)"
    using set_remove1_subset [of r "req_q ?info"] unfolding info_tokens_def sel by auto
  moreover have "ob\<lparr>entry_q := q, cur_seq := of_nat n\<rparr> = ob\<lparr>entry_q := q\<rparr>" for q
    using inv by (simp add: obj_inv_def)
  moreover have "n < 2 ^ 32" using inv by (simp add: obj_inv_def)
  ultimately show ?thesis
    using slot_update [OF inv e t, of ?f n] e by (simp add: slot_put_def le_supI1)
qed

subsection \<open>Reference counts\<close>

text \<open>
  What the object stands for: for each MAC id and packet type, the tokens of the requests and the id
  of the packet.
\<close>

definition slot_view :: "pkt_ofld_obj \<Rightarrow> u16 \<times> nat \<rightharpoonup> u32 list \<times> u8" where
  "slot_view ob = (\<lambda>(mid, t).
     case get_entry mid ob of
       None \<Rightarrow> None
     | Some e \<Rightarrow> if t < PKT_OFLD_TYPE_MAX then Some (info_tokens (pkt_info e ! t), pid (pkt_info e ! t)) else None)"

lemma get_entry_slot_put:
  assumes "get_entry mid ob = Some e"
  shows "get_entry mid' (slot_put mid t f ob) = (if mid' = mid then Some (upd_info t f e) else get_entry mid' ob)"
proof -
  obtain xs ys where q: "entry_q ob = xs @ e # ys" "emacid e = mid" "\<forall>x \<in> set xs. emacid x \<noteq> mid"
    using assms by (rule get_entry_split)
  have p: "put_entry (upd_info t f e) (entry_q ob) = xs @ upd_info t f e # ys" using q by (simp add: put_entry_split)
  have "List.find P (xs @ x # ys) = (case List.find P xs of None \<Rightarrow> if P x then Some x else List.find P ys | Some y \<Rightarrow> Some y)"
    for P x and xs ys :: "pkt_ofld_entry list" by (induction xs) auto
  note find = this
  have "List.find (\<lambda>x. emacid x = mid) xs = None" using q(3) by (simp add: find_None_iff)
  then show ?thesis
    using assms q(2) by (auto simp: slot_put_def get_entry_def p [unfolded q(1)] q(1) find split: option.split)
qed

lemma slot_view_put:
  assumes "get_entry mid ob = Some e" "t < PKT_OFLD_TYPE_MAX" "length (pkt_info e) = PKT_OFLD_TYPE_MAX"
  shows "slot_view (slot_put mid t f ob) =
    (slot_view ob)((mid, t) \<mapsto> (info_tokens (f (pkt_info e ! t)), pid (f (pkt_info e ! t))))"
proof (rule ext)
  fix x :: "u16 \<times> nat"
  obtain mid' t' where x: "x = (mid', t')" by force
  have "pkt_info (upd_info t f e) ! t' = (if t' = t then f (pkt_info e ! t) else pkt_info e ! t')"
    using assms by (simp add: upd_info_def nth_list_update)
  then show "slot_view (slot_put mid t f ob) x =
      ((slot_view ob)((mid, t) \<mapsto> (info_tokens (f (pkt_info e ! t)), pid (f (pkt_info e ! t))))) x"
    using assms by (simp add: x slot_view_def get_entry_slot_put)
qed

lemma slot_view_seq [simp]: "slot_view (ob\<lparr>cur_seq := s\<rparr>) = slot_view ob"
  by (simp add: slot_view_def get_entry_def)

lemma remove1_token:
  "List.find (\<lambda>r. token r = tok) q = Some r \<Longrightarrow> map token (remove1 r q) = remove1 tok (map token q)"
  by (induction q) (auto split: if_splits dest: find_in_set)

lemma get_req_None: "get_req tok info = None \<longleftrightarrow> tok \<notin> set (info_tokens info)"
  by (auto simp: get_req_def find_None_iff info_tokens_def)

lemma slot_view_Some:
  "slot_view ob (mid, t) = Some (toks, p) \<longleftrightarrow>
     (\<exists>e. get_entry mid ob = Some e \<and> t < PKT_OFLD_TYPE_MAX \<and> toks = info_tokens (pkt_info e ! t) \<and> p = pid (pkt_info e ! t))"
  by (auto simp: slot_view_def split: option.splits if_splits)

subsection \<open>Entries that come and go\<close>

lemma fold_del_req:
  "req_q info = q \<Longrightarrow> fold del_req q info = info\<lparr>req_q := [], req_cnt := req_cnt info - of_nat (length q)\<rparr>"
  by (induction q arbitrary: info) (auto simp: del_req_def algebra_simps)

lemma del_entry_req_ok:
  assumes "entry_ok e"
  shows "del_entry_req e = init_entry (emacid e)"
proof -
  have "del_all_req (info\<lparr>pid := NOT_USED\<rparr>) = init_info" if "info \<in> set (pkt_info e)" for info
    using assms that by (cases info) (auto simp: entry_ok_def info_ok_def del_all_req_def fold_del_req init_info_def)
  then have "map (\<lambda>info. del_all_req (info\<lparr>pid := NOT_USED\<rparr>)) (pkt_info e) = replicate PKT_OFLD_TYPE_MAX init_info"
    using assms by (intro replicate_eqI) (auto simp: entry_ok_def)
  then show ?thesis by (cases e) (simp add: del_entry_req_def init_entry_def)
qed

lemma init_entry_ok: "entry_ok (init_entry mid)" "entry_tokens (init_entry mid) = []" "emacid (init_entry mid) = mid"
  by (simp_all add: entry_ok_def init_entry_def entry_tokens_def info_tokens_def init_info_def info_ok_def is_pkt_ofld_def)

lemma drop_entry_split:
  assumes "get_entry mid ob = Some e" "entry_ok e"
  shows "\<exists>xs ys. entry_q ob = xs @ e # ys \<and> drop_entry e ob = ob\<lparr>entry_q := xs @ ys, entry_cnt := entry_cnt ob - 1\<rparr>"
proof -
  obtain xs ys where q: "entry_q ob = xs @ e # ys" "emacid e = mid" "\<forall>x \<in> set xs. emacid x \<noteq> mid"
    using assms(1) by (rule get_entry_split)
  let ?e = "init_entry (emacid e)"
  have "?e \<notin> set xs" using q init_entry_ok(3) by metis
  then have "remove1 ?e (put_entry ?e (entry_q ob)) = xs @ ys"
    using q by (simp add: put_entry_split init_entry_ok remove1_append_notin)
  then show ?thesis
    using q(1) by (auto simp: drop_entry_def del_entry_req_ok [OF assms(2)] del_entry_def Let_def)
qed

lemma drop_entry_inv:
  assumes inv: "obj_inv n ob" and e: "get_entry mid ob = Some e"
  shows "obj_inv n (drop_entry e ob)"
proof -
  have "entry_ok e" using inv e by (auto simp: obj_inv_def elim!: get_entry_split)
  from drop_entry_split [OF e this] obtain xs ys where q: "entry_q ob = xs @ e # ys"
    "drop_entry e ob = ob\<lparr>entry_q := xs @ ys, entry_cnt := entry_cnt ob - 1\<rparr>" by blast
  have "all_tokens (drop_entry e ob) = concat (map entry_tokens xs) @ concat (map entry_tokens ys)"
    "all_tokens ob = concat (map entry_tokens xs) @ entry_tokens e @ concat (map entry_tokens ys)"
    by (simp_all add: all_tokens_def q)
  then show ?thesis using inv unfolding obj_inv_def q(2) by (auto simp: q(1))
qed

lemma reset_entries_inv:
  assumes "obj_inv n ob"
  shows "obj_inv n (ob\<lparr>entry_q := map del_entry_req (entry_q ob)\<rparr>)"
proof -
  have m: "map del_entry_req (entry_q ob) = map (\<lambda>e. init_entry (emacid e)) (entry_q ob)"
    using assms by (auto simp: obj_inv_def del_entry_req_ok)
  have "all_tokens (ob\<lparr>entry_q := map del_entry_req (entry_q ob)\<rparr>) = []"
    unfolding m by (auto simp: all_tokens_def init_entry_ok)
  then show ?thesis
    using assms unfolding obj_inv_def m by (auto simp: init_entry_ok comp_def)
qed

lemma add_entry_inv:
  assumes "obj_inv n ob" "\<not> is_entry_exist mid ob"
  shows "obj_inv n (ob\<lparr>entry_q := init_entry mid # entry_q ob, entry_cnt := entry_cnt ob + 1\<rparr>)"
proof -
  have "mid \<notin> emacid ` set (entry_q ob)" using assms(2) by (auto simp: is_entry_exist_def list_ex_iff)
  then show ?thesis
    using assms(1) by (auto simp: obj_inv_def init_entry_ok all_tokens_def)
qed

lemma reset_entry_inv:
  assumes inv: "obj_inv n ob" and e: "get_entry mid ob = Some e"
  shows "obj_inv n (ob\<lparr>entry_q := put_entry (del_entry_req e) (entry_q ob)\<rparr>)"
proof -
  have eok: "entry_ok e" using inv e by (auto simp: obj_inv_def elim!: get_entry_split)
  obtain xs ys where q: "entry_q ob = xs @ e # ys" "emacid e = mid" "\<forall>x \<in> set xs. emacid x \<noteq> mid"
    using e by (rule get_entry_split)
  have p: "put_entry (del_entry_req e) (entry_q ob) = xs @ init_entry mid # ys"
    using q by (simp add: put_entry_split del_entry_req_ok [OF eok] init_entry_ok)
  show ?thesis
    using inv unfolding p obj_inv_def by (auto simp: q init_entry_ok all_tokens_def)
qed

subsection \<open>Runs\<close>

text \<open>The calls of the rest of PHL and of the core, with what the environment answers.\<close>

datatype po_event =
    Po_add_entry bool u16
  | Po_del_entry u16
  | Po_reset_entry u16
  | Po_del_all
  | Po_request req_env u16 pkt_req bool string
  | Po_cancel u16 u8 u32
  | Po_null_request req_env req_env null_sta bool
  | Po_show_info

fun po_step :: "'m hal_ops \<Rightarrow> po_event \<Rightarrow> 'm phl_po \<Rightarrow> 'm phl_po option" where
  "po_step hal (Po_add_entry mem mid) w = map_option snd (phl_pkt_ofld_add_entry hal mem mid w)"
| "po_step hal (Po_del_entry mid) w = map_option snd (phl_pkt_ofld_del_entry hal mid w)"
| "po_step hal (Po_reset_entry mid) w = map_option snd (rtw_phl_pkt_ofld_reset_entry hal mid w)"
| "po_step hal Po_del_all w = phl_pkt_ofld_del_all_entry_req w"
| "po_step hal (Po_request re mid req want name) w =
     map_option (snd \<circ> snd) (rtw_phl_pkt_ofld_request hal re mid req want name w)"
| "po_step hal (Po_cancel mid ty tok) w = map_option snd (rtw_phl_pkt_ofld_cancel hal mid ty tok w)"
| "po_step hal (Po_null_request re1 re2 sta want) w =
     map_option (snd \<circ> snd) (rtw_phl_pkt_ofld_null_request hal re1 re2 sta want w)"
| "po_step hal Po_show_info w = phl_pkt_ofld_show_info hal w"

fun po_run :: "'m hal_ops \<Rightarrow> po_event list \<Rightarrow> 'm phl_po \<Rightarrow> 'm phl_po option" where
  "po_run hal [] w = Some w"
| "po_run hal (ev # evs) w = Option.bind (po_step hal ev w) (po_run hal evs)"

text \<open>Calls with structures of their C types and a packet type of the enumeration.\<close>

fun ev_ok :: "po_event \<Rightarrow> bool" where
  "ev_ok (Po_request re mid req want name) \<longleftrightarrow>
     req_typed req \<and> req_fits req \<and> unat (pkt_type req) < PKT_OFLD_TYPE_MAX \<and>
     (pkt_type req \<in> {2, 3} \<longrightarrow> fe_sta re \<noteq> None)"
| "ev_ok (Po_cancel mid ty tok) \<longleftrightarrow> unat ty < PKT_OFLD_TYPE_MAX"
| "ev_ok (Po_null_request re1 re2 sta want) \<longleftrightarrow>
     length (ns_mac_addr sta) = 6 \<and> length (ns_role_addr sta) = 6 \<and> fe_sta re1 \<noteq> None \<and> fe_sta re2 \<noteq> None"
| "ev_ok _ \<longleftrightarrow> True"

subsection \<open>The contract of the HAL\<close>

text \<open>
  What PHL relies on: a successful add hands out an id other than \<^verbatim>\<open>NOT_USED\<close>, a read writes back an id
  other than \<^verbatim>\<open>NOT_USED\<close>, and every operation keeps the HAL's own invariant.
\<close>

locale pkt_hal =
  fixes hal :: "'m hal_ops" and hinv :: "'m \<Rightarrow> bool"
  assumes add_ok: "hinv h \<Longrightarrow> h_add hal buf len i h = (st, j, h') \<Longrightarrow>
      hinv h' \<and> (st = RTW_HAL_STATUS_SUCCESS \<longrightarrow> j \<noteq> NOT_USED)"
    and del_ok: "hinv h \<Longrightarrow> h_del hal i h = (st, h') \<Longrightarrow> hinv h'"
    and read_ok: "hinv h \<Longrightarrow> i \<noteq> NOT_USED \<Longrightarrow> h_read hal i h = (st, j, h') \<Longrightarrow> hinv h' \<and> j \<noteq> NOT_USED"
    and update_ok: "hinv h \<Longrightarrow> h_update_ids hal e h = (st, h') \<Longrightarrow> hinv h'"
begin

text \<open>The world after \<open>n\<close> tokens.\<close>

definition po_inv :: "nat \<Rightarrow> 'm phl_po \<Rightarrow> bool" where
  "po_inv n w \<longleftrightarrow> hinv (po_hal w) \<and> (\<exists>ob. po_obj w = Obj ob \<and> obj_inv n ob)"

lemma add_pkt_cases:
  assumes r: "add_pkt hal fe req e h = Some (st, e1, h1)" and h: "hinv h"
    and l: "unat (pkt_type req) < length (pkt_info e)"
  defines "t \<equiv> unat (pkt_type req)"
  shows "hinv h1 \<and> (is_pkt_ofld (pkt_info e ! t) \<longrightarrow> h1 = h) \<and> (\<exists>i. e1 = upd_info t (pid_update (\<lambda>_. i)) e \<and>
    (if st = RTW_PHL_STATUS_SUCCESS then i \<noteq> NOT_USED \<and> (is_pkt_ofld (pkt_info e ! t) \<longrightarrow> i = pid (pkt_info e ! t))
     else i = NOT_USED \<and> \<not> is_pkt_ofld (pkt_info e ! t)))"
proof -
  have same: "e = upd_info t (pid_update (\<lambda>_. pid (pkt_info e ! t))) e"
    by (simp add: upd_info_def)
  show ?thesis
  proof (cases "is_pkt_ofld (pkt_info e ! t)")
    case True
    then have "st = RTW_PHL_STATUS_SUCCESS" "e1 = e" "h1 = h" using r by (simp_all add: add_pkt_def t_def)
    then show ?thesis using True h same by (auto simp: is_pkt_ofld_def)
  next
    case False
    then have nu: "pid (pkt_info e ! t) = NOT_USED" by (simp add: is_pkt_ofld_def)
    have comp: "pid_update (\<lambda>_. i) \<circ> pid_update (\<lambda>_. j) = pid_update (\<lambda>_. i)" for i j by auto
    note def = r [unfolded add_pkt_def t_def [symmetric] Let_def]
    obtain st0 buf len where c: "construct_packet (fe_mem fe) (fe_mem2 fe) (fe_sta fe) req = Some (st0, buf, len)"
      using def False by (auto split: bind_splits)
    obtain hst i h2 where a: "h_add hal buf len (pid (pkt_info e ! t)) h = (hst, i, h2)"
      by (metis prod_cases3)
    obtain hst2 h3 where u: "h_update_ids hal (upd_info t (pid_update (\<lambda>_. i)) e) h2 = (hst2, h3)"
      by (metis surj_pair)
    have h2: "hinv h2" "hst = RTW_HAL_STATUS_SUCCESS \<Longrightarrow> i \<noteq> NOT_USED" using add_ok [OF h a] by auto
    have h3: "hinv h3" using update_ok [OF h2(1) u] .
    consider "st0 \<noteq> RTW_PHL_STATUS_SUCCESS" | "st0 = RTW_PHL_STATUS_SUCCESS" "hst \<noteq> RTW_HAL_STATUS_SUCCESS"
      | "st0 = RTW_PHL_STATUS_SUCCESS" "hst = RTW_HAL_STATUS_SUCCESS" by blast
    then show ?thesis
    proof cases
      case 1
      then have "st = RTW_PHL_STATUS_FAILURE" "e1 = e" "h1 = h" using def False c by auto
      then show ?thesis using h nu same False by auto
    next
      case 2
      then have "st = RTW_PHL_STATUS_FAILURE" "e1 = upd_info t (pid_update (\<lambda>_. NOT_USED)) e" "h1 = h2"
        using def False c a by auto
      then show ?thesis using h2 False by auto
    next
      case 3
      then have "h1 = h3" "if hst2 = RTW_HAL_STATUS_SUCCESS then st = RTW_PHL_STATUS_SUCCESS \<and> e1 = upd_info t (pid_update (\<lambda>_. i)) e
          else st = RTW_PHL_STATUS_FAILURE \<and> e1 = upd_info t (pid_update (\<lambda>_. NOT_USED)) e"
        using def False c a u l by (auto simp: comp t_def split: if_splits)
      then show ?thesis using h2(2) [OF 3(2)] h3 False by (auto split: if_splits)
    qed
  qed
qed

lemma request_cases:
  assumes ob: "po_obj w = Obj ob" and inv: "obj_inv n ob" and h: "hinv (po_hal w)"
    and e: "get_entry mid ob = Some e" and t: "unat (pkt_type req) < PKT_OFLD_TYPE_MAX"
    and r: "rtw_phl_pkt_ofld_request hal re mid req want name w = Some (st, out, w')"
  shows "hinv (po_hal w') \<and>
    (if st = RTW_PHL_STATUS_SUCCESS
     then out = (if want then Some (cur_seq ob) else None) \<and>
       (\<exists>i. i \<noteq> NOT_USED \<and>
          (is_pkt_ofld (pkt_info e ! unat (pkt_type req)) \<longrightarrow> i = pid (pkt_info e ! unat (pkt_type req))) \<and>
          (is_pkt_ofld (pkt_info e ! unat (pkt_type req)) \<longrightarrow> po_hal w' = po_hal w) \<and>
          po_obj w' = Obj ((slot_put mid (unat (pkt_type req))
             (\<lambda>info. (add_req \<lparr>token = cur_seq ob, req_name = name\<rparr> info)\<lparr>pid := i\<rparr>) ob)\<lparr>cur_seq := cur_seq ob + 1\<rparr>))
     else out = None \<and> (po_obj w' = Obj ob \<or> po_obj w' = Obj (ob\<lparr>cur_seq := cur_seq ob + 1\<rparr>)))"
proof -
  define t where "t = unat (pkt_type req)"
  let ?r = "\<lparr>token = cur_seq ob, req_name = name\<rparr>" and ?ob1 = "ob\<lparr>cur_seq := cur_seq ob + 1\<rparr>"
  note def = r [unfolded rtw_phl_pkt_ofld_request_def ob obj_ptr.simps e option.simps t_def [symmetric]]
  have t': "t < PKT_OFLD_TYPE_MAX" using t by (simp add: t_def)
  have l: "t < length (pkt_info e)" "info_ok (pkt_info e ! t)" using slot_info [OF inv e t'] by auto
  show ?thesis
  proof (cases "re_mem re \<and> re_mem_name re")
    case False
    then show ?thesis using def h by (auto simp: gen_req_def Let_def ob split: if_splits)
  next
    case True
    obtain st1 e1 h1 where a: "add_pkt hal (frame_env.truncate re) req (upd_info t (add_req ?r) e) (po_hal w) = Some (st1, e1, h1)"
      and w': "(st, out, w') = (if st1 \<noteq> RTW_PHL_STATUS_SUCCESS
          then (RTW_PHL_STATUS_FAILURE, None, w\<lparr>po_obj := Obj (?ob1\<lparr>entry_q := put_entry (upd_info t (del_req ?r) e1) (entry_q ob)\<rparr>), po_hal := h1\<rparr>)
          else (RTW_PHL_STATUS_SUCCESS, if want then Some (cur_seq ob) else None,
                w\<lparr>po_obj := Obj (?ob1\<lparr>entry_q := put_entry e1 (entry_q ob)\<rparr>), po_hal := h1\<rparr>))"
      using def True t' by (auto simp: gen_req_def Let_def t_def split: bind_splits if_splits)
    have len: "unat (pkt_type req) < length (pkt_info (upd_info t (add_req ?r) e))" using l by (simp add: t_def)
    have nth: "pkt_info (upd_info t (add_req ?r) e) ! t = add_req ?r (pkt_info e ! t)"
      and tw: "upd_info t f (upd_info t (add_req ?r) e) = upd_info t (f \<circ> add_req ?r) e" for f
      using l by simp_all
    from add_pkt_cases [OF a h len, folded t_def, unfolded nth tw] obtain i where i: "hinv h1"
      "is_pkt_ofld (add_req ?r (pkt_info e ! t)) \<longrightarrow> h1 = po_hal w"
      "e1 = upd_info t (pid_update (\<lambda>_. i) \<circ> add_req ?r) e"
      "if st1 = RTW_PHL_STATUS_SUCCESS then i \<noteq> NOT_USED \<and> (is_pkt_ofld (add_req ?r (pkt_info e ! t)) \<longrightarrow> i = pid (add_req ?r (pkt_info e ! t)))
       else i = NOT_USED \<and> \<not> is_pkt_ofld (add_req ?r (pkt_info e ! t))"
      by blast
    have ao: "is_pkt_ofld (add_req ?r x) = is_pkt_ofld x" "pid (add_req ?r x) = pid x" for x
      by (simp_all add: add_req_def is_pkt_ofld_def)
    show ?thesis
    proof (cases "st1 = RTW_PHL_STATUS_SUCCESS")
      case True
      then show ?thesis
        using w' i e unfolding ao t_def [symmetric] by (auto simp: slot_put_def comp_def)
    next
      case False
      then have "upd_info t (del_req ?r) e1 = e"
        using i l unfolding ao by (simp add: upd_info_def add_req_def del_req_def is_pkt_ofld_def pid_same)
      then show ?thesis
        using w' i False put_entry_same [OF e] by simp
    qed
  qed
qed

lemma request_inv:
  assumes inv: "po_inv n w" and n: "Suc n < 2 ^ 32" and t: "unat (pkt_type req) < PKT_OFLD_TYPE_MAX"
    and r: "rtw_phl_pkt_ofld_request hal re mid req want name w = Some (st, out, w')"
  shows "po_inv n w' \<or> po_inv (Suc n) w'"
proof -
  obtain ob where ob: "po_obj w = Obj ob" "obj_inv n ob" and h: "hinv (po_hal w)"
    using inv by (auto simp: po_inv_def)
  have seq: "cur_seq ob + 1 = of_nat (Suc n)" using ob(2) by (simp add: obj_inv_def)
  show ?thesis
  proof (cases "get_entry mid ob")
    case None
    then have "w' = w" using r ob(1) by (simp add: rtw_phl_pkt_ofld_request_def)
    then show ?thesis using inv by simp
  next
    case (Some e)
    have "obj_inv (Suc n) (ob\<lparr>cur_seq := of_nat (Suc n)\<rparr>)" using obj_inv_seq [OF ob(2), of "Suc n"] n by simp
    then show ?thesis
      using request_cases [OF ob h Some t r] slot_add_inv [OF ob(2) Some t _ n] ob(2)
      unfolding seq by (auto simp: po_inv_def split: if_splits)
  qed
qed

lemma request_no_fault:
  assumes "po_inv n w" and "req_typed req" "req_fits req" "unat (pkt_type req) < PKT_OFLD_TYPE_MAX"
    and "pkt_type req \<in> {2, 3} \<Longrightarrow> implemented req \<Longrightarrow> fe_sta re \<noteq> None"
  shows "rtw_phl_pkt_ofld_request hal re mid req want name w \<noteq> None"
proof -
  have "construct_packet (fe_mem re) (fe_mem2 re) (fe_sta re) req \<noteq> None"
    using construct_packet_None [OF assms(2), of "fe_mem re" "fe_mem2 re" "fe_sta re"] assms(3,5) by auto
  then have "(add_pkt hal (frame_env.truncate re) req e h = None) = False" for e h
    by (auto simp: add_pkt_def frame_env.truncate_def Let_def split: bind_splits prod.splits)
  then show ?thesis
    using assms(1,4)
    by (auto simp: po_inv_def rtw_phl_pkt_ofld_request_def Let_def simp del: not_None_eq
        split: option.splits prod.splits bind_splits)
qed

lemma cancel_cases:
  assumes ob: "po_obj w = Obj ob" and inv: "obj_inv n ob" and h: "hinv (po_hal w)"
    and e: "get_entry mid ob = Some e" and t: "unat ty < PKT_OFLD_TYPE_MAX"
    and r: "rtw_phl_pkt_ofld_cancel hal mid ty tok w = Some (st, w')"
  shows "hinv (po_hal w') \<and>
    (case get_req tok (pkt_info e ! unat ty) of
       None \<Rightarrow> w' = w \<and> (st = RTW_PHL_STATUS_SUCCESS \<longleftrightarrow> \<not> is_pkt_ofld (pkt_info e ! unat ty))
     | Some r \<Rightarrow>
         if st = RTW_PHL_STATUS_SUCCESS
         then po_obj w' = Obj (slot_put mid (unat ty)
                (\<lambda>info. del_req r (if req_cnt info - 1 \<noteq> 0 then info else info\<lparr>pid := NOT_USED\<rparr>)) ob) \<and>
              (req_cnt (pkt_info e ! unat ty) \<noteq> 1 \<longrightarrow> po_hal w' = po_hal w)
         else po_obj w' = Obj ob \<and> req_cnt (pkt_info e ! unat ty) = 1)"
proof -
  define t where "t = unat ty"
  have t': "t < PKT_OFLD_TYPE_MAX" using t by (simp add: t_def)
  have l: "t < length (pkt_info e)" "info_ok (pkt_info e ! t)" using slot_info [OF inv e t'] by auto
  note def = r [unfolded rtw_phl_pkt_ofld_cancel_def ob obj_ptr.simps e option.simps Let_def t_def [symmetric]]
  show ?thesis
  proof (cases "get_req tok (pkt_info e ! t)")
    case None
    then show ?thesis
      using def t' h unfolding t_def [symmetric] by (auto simp: is_pkt_ofld_def split: if_splits)
  next
    case (Some r)
    then have "req_q (pkt_info e ! t) \<noteq> []" by (auto simp: get_req_def)
    then have used: "pid (pkt_info e ! t) \<noteq> NOT_USED" using l by (simp add: info_ok_def is_pkt_ofld_def)
    obtain hst h1 where d: "h_del hal (pid (pkt_info e ! t)) (po_hal w) = (hst, h1)" by (metis surj_pair)
    have h1: "hinv h1" using del_ok [OF h d] .
    show ?thesis
      using def t' Some used d h h1 e l put_entry_same [OF e] unfolding t_def [symmetric]
      by (auto simp: del_pkt_def is_pkt_ofld_def slot_put_def upd_info_def ob split: if_splits)
  qed
qed

lemma cancel_inv:
  assumes inv: "po_inv n w" and t: "unat ty < PKT_OFLD_TYPE_MAX"
  shows "\<exists>st w'. rtw_phl_pkt_ofld_cancel hal mid ty tok w = Some (st, w') \<and> po_inv n w'"
proof -
  obtain ob where ob: "po_obj w = Obj ob" "obj_inv n ob" and h: "hinv (po_hal w)"
    using inv by (auto simp: po_inv_def)
  show ?thesis
  proof (cases "get_entry mid ob")
    case None
    then show ?thesis using inv ob by (simp add: rtw_phl_pkt_ofld_cancel_def)
  next
    case (Some e)
    have "rtw_phl_pkt_ofld_cancel hal mid ty tok w \<noteq> None"
      using t ob(1) Some by (simp add: rtw_phl_pkt_ofld_cancel_def Let_def)
    then obtain st w' where r: "rtw_phl_pkt_ofld_cancel hal mid ty tok w = Some (st, w')" by auto
    have mem: "q \<in> set (req_q info)" if "get_req tok info = Some q" for q info
      using that by (auto simp: get_req_def dest: find_in_set)
    have "po_inv n w'"
    proof (cases "get_req tok (pkt_info e ! unat ty)")
      case None
      then show ?thesis using cancel_cases [OF ob h Some t r] inv by simp
    next
      case (Some q)
      note inv' = slot_del_inv [OF ob(2) \<open>get_entry mid ob = Some e\<close> t mem [OF Some]]
      show ?thesis
        using cancel_cases [OF ob h \<open>get_entry mid ob = Some e\<close> t r] inv' ob(2)
        unfolding Some option.case po_inv_def by (metis (no_types, lifting))
    qed
    then show ?thesis using r by blast
  qed
qed

lemma cancel_infos_inv: "hinv h \<Longrightarrow> hinv (cancel_infos hal infos h)"
proof (induction infos arbitrary: h)
  case (Cons info infos)
  have "hinv (snd (h_del hal (pid info) h))" using del_ok [OF Cons.prems] by (metis surj_pair snd_conv)
  then show ?case using Cons by simp
qed simp

lemma cancel_entry_inv: "hinv h \<Longrightarrow> hinv (cancel_entry_pkt hal e h)"
  by (simp add: cancel_entry_pkt_def cancel_infos_inv)

lemma dump_infos:
  "hinv h \<Longrightarrow> \<forall>info \<in> set infos. info_ok info \<Longrightarrow> dbg_dump_infos hal infos h = (infos', h') \<Longrightarrow>
   hinv h' \<and> (\<forall>info \<in> set infos'. info_ok info) \<and> map info_tokens infos' = map info_tokens infos"
proof (induction infos arbitrary: h infos' h')
  case (Cons info infos)
  obtain info1 h1 where d: "dbg_dump_pkt_info hal info h = (info1, h1)" by (metis surj_pair)
  obtain infos2 h2 where d2: "dbg_dump_infos hal infos h1 = (infos2, h2)" by (metis surj_pair)
  have "hinv h1 \<and> info_ok info1 \<and> info_tokens info1 = info_tokens info"
  proof (cases "is_pkt_ofld info")
    case True
    obtain st j h2 where r: "h_read hal (pid info) h = (st, j, h2)" by (metis prod_cases3)
    have "hinv h2 \<and> j \<noteq> NOT_USED" using read_ok [OF Cons.prems(1) _ r] True by (simp add: is_pkt_ofld_def)
    moreover have "info1 = info\<lparr>pid := j\<rparr>" "h1 = h2" using d r True by (simp_all add: dbg_dump_pkt_info_def)
    ultimately show ?thesis using Cons.prems(2) True by (simp add: info_ok_def is_pkt_ofld_def info_tokens_def)
  next
    case False
    then show ?thesis using d Cons.prems(1,2) by (auto simp: dbg_dump_pkt_info_def)
  qed
  then show ?case using Cons.IH [OF _ _ d2] Cons.prems d d2 by auto
qed auto

lemma dump_entries:
  "hinv h \<Longrightarrow> \<forall>e \<in> set es. entry_ok e \<Longrightarrow> dbg_dump hal es h = (es', h') \<Longrightarrow>
   hinv h' \<and> (\<forall>e \<in> set es'. entry_ok e) \<and> map entry_tokens es' = map entry_tokens es \<and> map emacid es' = map emacid es"
proof (induction es arbitrary: h es' h')
  case (Cons e es)
  obtain infos h1 where d: "dbg_dump_infos hal (pkt_info e) h = (infos, h1)" by (metis surj_pair)
  obtain es2 h2 where d2: "dbg_dump hal es h1 = (es2, h2)" by (metis surj_pair)
  have i: "hinv h1" "\<forall>info \<in> set infos. info_ok info" "map info_tokens infos = map info_tokens (pkt_info e)"
    using dump_infos [OF Cons.prems(1) _ d] Cons.prems(2) by (auto simp: entry_ok_def)
  then have "length infos = length (pkt_info e)" by (metis length_map)
  then show ?case using Cons.IH [OF i(1) _ d2] Cons.prems d d2 i by (auto simp: entry_ok_def entry_tokens_def)
qed auto

lemma show_info_inv:
  assumes "po_inv n w"
  shows "\<exists>w'. phl_pkt_ofld_show_info hal w = Some w' \<and> po_inv n w'"
proof -
  obtain ob where ob: "po_obj w = Obj ob" "obj_inv n ob" and h: "hinv (po_hal w)"
    using assms by (auto simp: po_inv_def)
  obtain es h1 where d: "dbg_dump hal (entry_q ob) (po_hal w) = (es, h1)" by (metis surj_pair)
  have i: "hinv h1" "\<forall>e \<in> set es. entry_ok e" "map entry_tokens es = map entry_tokens (entry_q ob)"
    "map emacid es = map emacid (entry_q ob)"
    using dump_entries [OF h _ d] ob(2) by (auto simp: obj_inv_def)
  then have "length es = length (entry_q ob)" by (metis length_map)
  then have "obj_inv n (ob\<lparr>entry_q := es\<rparr>)"
    using ob(2) i unfolding obj_inv_def all_tokens_def by simp
  then show ?thesis using ob d i(1) by (simp add: phl_pkt_ofld_show_info_def po_inv_def)
qed

lemma null_request_inv:
  assumes inv: "po_inv n w" and n: "n + 2 < 2 ^ 32" and ok: "ev_ok (Po_null_request re1 re2 sta want)"
  shows "\<exists>st out w' n'. rtw_phl_pkt_ofld_null_request hal re1 re2 sta want w = Some (st, out, w') \<and>
    po_inv n' w' \<and> n' \<le> n + 2"
proof (cases "rtw_phl_is_client_category (ns_role_type sta)")
  case False
  then show ?thesis using inv by (auto simp: rtw_phl_pkt_ofld_null_request_def intro: exI [of _ n])
next
  case True
  let ?info = "\<lparr>a1 = take 6 (ns_mac_addr sta), a2 = take 6 (ns_role_addr sta), a3 = take 6 (ns_mac_addr sta)\<rparr>"
  let ?name = "''rtw_phl_pkt_ofld_null_request''"
  have typed: "req_typed (Null_data ?info)" "req_typed (Qos_null ?info)" using ok by (simp_all add: addrs_ok_def)
  have small: "unat (pkt_type (Null_data ?info)) < PKT_OFLD_TYPE_MAX" "unat (pkt_type (Qos_null ?info)) < PKT_OFLD_TYPE_MAX"
    by (simp_all add: PKT_OFLD_TYPE_MAX_def)
  have "rtw_phl_pkt_ofld_request hal re1 (ns_macid sta) (Null_data ?info) want ?name w \<noteq> None"
    using request_no_fault [OF inv typed(1) _ small(1)] ok by simp
  then obtain st tok w1 where r1: "rtw_phl_pkt_ofld_request hal re1 (ns_macid sta) (Null_data ?info) want ?name w = Some (st, tok, w1)"
    by auto
  obtain n1 where n1: "po_inv n1 w1" "n1 \<le> n + 1"
    using request_inv [OF inv _ small(1) r1] n by auto
  have "rtw_phl_pkt_ofld_request hal re2 (ns_macid sta) (Qos_null ?info) want ?name w1 \<noteq> None"
    using request_no_fault [OF n1(1) typed(2) _ small(2)] ok by simp
  then obtain st2 tok2 w2 where r2: "rtw_phl_pkt_ofld_request hal re2 (ns_macid sta) (Qos_null ?info) want ?name w1 = Some (st2, tok2, w2)"
    by auto
  obtain n2 where n2: "po_inv n2 w2" "n2 \<le> n + 2"
    using request_inv [OF n1(1) _ small(2) r2] n n1(2) by force
  show ?thesis
  proof (cases "ns_wmode sta \<ge> WLAN_MD_11N")
    case le: True
    then have "\<exists>st out. rtw_phl_pkt_ofld_null_request hal re1 re2 sta want w = Some (st, out, w2)"
      using True r1 r2 by (simp add: rtw_phl_pkt_ofld_null_request_def Let_def)
    then show ?thesis using n2 by blast
  next
    case False
    then have "rtw_phl_pkt_ofld_null_request hal re1 re2 sta want w = Some (st, tok, w1)"
      using True r1 by (simp add: rtw_phl_pkt_ofld_null_request_def Let_def)
    then show ?thesis using n1 by auto
  qed
qed

lemma step_inv:
  assumes inv: "po_inv n w" and n: "n + 2 < 2 ^ 32" and ok: "ev_ok ev"
  shows "\<exists>w' n'. po_step hal ev w = Some w' \<and> po_inv n' w' \<and> n' \<le> n + 2"
proof -
  obtain ob where ob: "po_obj w = Obj ob" "obj_inv n ob" and h: "hinv (po_hal w)"
    using inv by (auto simp: po_inv_def)
  have here: ?thesis if "po_step hal ev w = Some w'" "po_inv n w'" for w'
    using that by (intro exI [of _ w'] exI [of _ n]) simp
  show ?thesis
  proof (cases ev)
    case (Po_add_entry mem mid)
    obtain st h1 where u: "h_update_ids hal (init_entry mid) (po_hal w) = (st, h1)" by (metis surj_pair)
    show ?thesis
      using Po_add_entry ob inv update_ok [OF h u] u add_entry_inv [OF ob(2), of mid]
      by (intro here) (auto simp: phl_pkt_ofld_add_entry_def add_entry_def po_inv_def)
  next
    case (Po_del_entry mid)
    show ?thesis
    proof (cases "get_entry mid ob")
      case (Some e)
      then show ?thesis
        using Po_del_entry ob h drop_entry_inv [OF ob(2) Some] cancel_entry_inv [OF h]
        by (intro here) (auto simp: phl_pkt_ofld_del_entry_def Let_def po_inv_def)
    qed (use Po_del_entry ob inv here in \<open>auto simp: phl_pkt_ofld_del_entry_def\<close>)
  next
    case (Po_reset_entry mid)
    show ?thesis
    proof (cases "get_entry mid ob")
      case (Some e)
      then show ?thesis
        using Po_reset_entry ob h reset_entry_inv [OF ob(2) Some] cancel_entry_inv [OF h]
        by (intro here) (auto simp: rtw_phl_pkt_ofld_reset_entry_def Let_def po_inv_def)
    qed (use Po_reset_entry ob inv here in \<open>auto simp: rtw_phl_pkt_ofld_reset_entry_def\<close>)
  next
    case Po_del_all
    then show ?thesis
      using ob h reset_entries_inv [OF ob(2)]
      by (intro here) (auto simp: phl_pkt_ofld_del_all_entry_req_def po_inv_def)
  next
    case (Po_request re mid req want name)
    then obtain st out w' where r: "rtw_phl_pkt_ofld_request hal re mid req want name w = Some (st, out, w')"
      using request_no_fault [OF inv, of req re mid want name] ok by auto
    then show ?thesis using request_inv [OF inv _ _ r] n ok Po_request by auto
  next
    case (Po_cancel mid ty tok)
    then obtain st w' where "rtw_phl_pkt_ofld_cancel hal mid ty tok w = Some (st, w')" "po_inv n w'"
      using cancel_inv [OF inv, of ty mid tok] ok by auto
    then show ?thesis using Po_cancel by (intro here) simp_all
  next
    case (Po_null_request re1 re2 sta want)
    then show ?thesis using null_request_inv [OF inv n ok [unfolded Po_null_request]] by auto
  next
    case Po_show_info
    moreover obtain w' where "phl_pkt_ofld_show_info hal w = Some w'" "po_inv n w'"
      using show_info_inv [OF inv] by blast
    ultimately show ?thesis by (intro here) simp_all
  qed
qed

lemma run_inv:
  "po_inv n w \<Longrightarrow> n + 2 * length evs < 2 ^ 32 \<Longrightarrow> list_all ev_ok evs \<Longrightarrow>
   \<exists>w' n'. po_run hal evs w = Some w' \<and> po_inv n' w' \<and> n' \<le> n + 2 * length evs"
proof (induction evs arbitrary: n w)
  case (Cons ev evs)
  obtain w1 n1 where s: "po_step hal ev w = Some w1" "po_inv n1 w1" "n1 \<le> n + 2"
    using step_inv [OF Cons.prems(1), of ev] Cons.prems(2,3) by auto
  then obtain w2 n2 where "po_run hal evs w1 = Some w2" "po_inv n2 w2" "n2 \<le> n1 + 2 * length evs"
    using Cons.IH [of n1 w1] Cons.prems(2,3) by auto
  then show ?case using s by (intro exI [of _ w2] exI [of _ n2]) simp
qed (auto intro: exI)

end

subsection \<open>The MAC layer fulfils the contract\<close>

text \<open>The MAC state and what the environment does in each of the calls to come.\<close>

record mac_world =
  mw_mac :: mac_ofld
  mw_calls :: "nat \<Rightarrow> mac_call"
  mw_n :: nat

definition next_call :: "mac_world \<Rightarrow> mac_call" where
  "next_call w = mw_calls w (mw_n w)"

definition after_call :: "mac_ofld \<Rightarrow> mac_world \<Rightarrow> mac_world" where
  "after_call m w = w\<lparr>mw_mac := m, mw_n := Suc (mw_n w)\<rparr>"

text \<open>\<^verbatim>\<open>rtw_hal_pkt_ofld\<close> with the three operations, and \<^verbatim>\<open>rtw_hal_pkt_update_ids\<close>.\<close>

definition mac_hal :: "mac_world hal_ops" where
  "mac_hal =
     \<lparr>h_add = (\<lambda>buf len i w. case hal_mac_add_pkt_ofld (next_call w) buf len i (mw_mac w) of
         (st, j, m) \<Rightarrow> (st, j, after_call m w)),
      h_del = (\<lambda>i w. case hal_mac_del_pkt_ofld (next_call w) i (mw_mac w) of (st, m) \<Rightarrow> (st, after_call m w)),
      h_read = (\<lambda>i w. case hal_mac_read_pkt_ofld (next_call w) i (mw_mac w) of (st, j, m) \<Rightarrow> (st, j, after_call m w)),
      h_update_ids = (\<lambda>e w.
         case rtw_hal_mac_pkt_update_ids (mc_mem (next_call w)) (mc_h2c (next_call w)) (emacid e)
                (\<lambda>t. pid (pkt_info e ! t)) (mw_mac w) of
           (st, m) \<Rightarrow> (st, after_call m w))\<rparr>"

definition mac_ok :: "mac_ofld \<Rightarrow> bool" where
  "mac_ok m \<longleftrightarrow> ofld_wf m \<and> op_id m \<noteq> 255"

lemma rsp_op_id: "op_id m \<noteq> 255 \<Longrightarrow> op_id (snd (c2h_pkt_ofld_rsp_hdl mem content bytes m)) \<noteq> 255"
  by (simp add: c2h_pkt_ofld_rsp_hdl_def Let_def rsp_finish_def rsp_add_def rsp_del_def PKT_OFLD_NOT_EXISTS_ID_def)

lemma driver_op_id:
  "op_id (snd (snd (mac_add_pkt_ofld mem h2c pkt len i m))) = op_id m"
  "op_id (snd (mac_del_pkt_ofld mem h2c i m)) = op_id m" "op_id (snd (mac_read_pkt_ofld mem h2c i m)) = op_id m"
  "op_id (snd (snd (mac_pkt_ofld_packet mem m))) = op_id m"
  "op_id (c2h_fwofld_rcv_ack_hdl f m) = op_id m" "op_id (c2h_fwofld_done_ack_hdl f r m) = op_id m"
  "op_id (snd (mac_reset_fwofld_state op m)) = op_id m"
  by (simp_all add: mac_add_pkt_ofld_def mac_del_pkt_ofld_def mac_read_pkt_ofld_def mac_pkt_ofld_packet_def
      send_packet_ofld_def c2h_fwofld_rcv_ack_hdl_def c2h_fwofld_done_ack_hdl_def mac_reset_fwofld_state_def Let_def
      split: ofld_func.split)

lemma ofld_step_mac_ok: "mac_ok m \<Longrightarrow> mac_ok (ofld_step ev m)"
  using ofld_step_wf [of m ev] by (cases ev) (simp_all add: mac_ok_def driver_op_id rsp_op_id)

lemma mc_run_mac_ok: "mac_ok m \<Longrightarrow> mac_ok (mc_run c k m)"
proof -
  have "mac_ok m \<Longrightarrow> mac_ok (fold ofld_step evs m)" for evs
    by (induction evs arbitrary: m) (simp_all add: ofld_step_mac_ok)
  then show "mac_ok m \<Longrightarrow> mac_ok (mc_run c k m)" by (simp add: mc_run_def)
qed

lemma poll_mac_ok: "mac_ok m \<Longrightarrow> mac_ok (snd (poll_pkt_ofld (mc_run c) k n m))"
  by (induction n arbitrary: k m) (simp_all add: mc_run_mac_ok)

lemma chk_mac_ok: "mac_ok m \<Longrightarrow> mac_ok (snd (hal_mac_chk_pkt_ofld (mc_run c) m))"
  by (simp add: hal_mac_chk_pkt_ofld_def poll_mac_ok)

text \<open>The driver's half of a call is one event of the MAC.\<close>

lemma driver_mac_ok:
  assumes "mac_ok m"
  shows "mac_ok (snd (snd (mac_add_pkt_ofld mem h2c pkt len i m)))" "mac_ok (snd (mac_del_pkt_ofld mem h2c i m))"
    "mac_ok (snd (mac_read_pkt_ofld mem h2c i m))" "mac_ok (snd (snd (mac_pkt_ofld_packet mem m)))"
  using assms driver_same_ids(1-4) same_ids_wf unfolding mac_ok_def driver_op_id by blast+

lemma alloc_pkt_id_cases: "alloc_pkt_id bm = 255 \<or> (\<exists>k<255. alloc_pkt_id bm = of_nat k)"
proof (cases "List.find (\<lambda>i. mac_pkt_ofld_get_bitmap bm (of_nat i) = 0) [0..<255]")
  case (Some k)
  then have "k < 255" by (auto simp: find_Some_iff)
  then show ?thesis using Some by (auto simp: alloc_pkt_id_def)
qed (simp add: alloc_pkt_id_def)

lemma add_success_id:
  assumes "mac_add_pkt_ofld mem h2c pkt len i m = (MACSUCCESS, j, m')"
  shows "j \<noteq> 255"
proof -
  have "alloc_pkt_id (id_bitmap m) \<noteq> 255" "j = ucast (alloc_pkt_id (id_bitmap m))"
    using assms by (auto simp: mac_add_pkt_ofld_def Let_def PKT_OFLD_NOT_EXISTS_ID_def send_packet_ofld_def split: if_splits)
  then obtain k where "k < 255" "j = ucast (of_nat k :: u16)" using alloc_pkt_id_cases by metis
  then have "unat j = k"
    by (simp add: unsigned_ucast_eq take_bit_eq_mod unat_of_nat unat_mod_distrib)
  then show ?thesis using \<open>k < 255\<close> by auto
qed

lemma hal_add_ok:
  assumes "mac_ok m" "hal_mac_add_pkt_ofld c pkt len i m = (st, j, m')"
  shows "mac_ok m' \<and> (st = RTW_HAL_STATUS_SUCCESS \<longrightarrow> j \<noteq> 255)"
proof -
  obtain ret i1 m1 where a: "mac_add_pkt_ofld (mc_mem c) (mc_h2c c) pkt len i m = (ret, i1, m1)" by (metis prod_cases3)
  have m1: "mac_ok m1" using driver_mac_ok(1) [OF assms(1)] a by (metis snd_conv)
  show ?thesis
    using assms(2) a m1 chk_mac_ok [OF m1, of c] add_success_id [of "mc_mem c" "mc_h2c c" pkt len i m i1 m1]
    by (auto simp: hal_mac_add_pkt_ofld_def split: if_splits prod.splits)
qed

lemma hal_del_ok:
  assumes "mac_ok m" "hal_mac_del_pkt_ofld c i m = (st, m')"
  shows "mac_ok m'"
proof -
  obtain ret m1 where a: "mac_del_pkt_ofld (mc_mem c) (mc_h2c c) i m = (ret, m1)" by (metis surj_pair)
  have m1: "mac_ok m1" using driver_mac_ok(2) [OF assms(1)] a by (metis snd_conv)
  show ?thesis using assms(2) a m1 chk_mac_ok [OF m1, of c] by (auto simp: hal_mac_del_pkt_ofld_def split: if_splits)
qed

lemma hal_read_ok:
  assumes "mac_ok m" "i \<noteq> 255" "hal_mac_read_pkt_ofld c i m = (st, j, m')"
  shows "mac_ok m' \<and> j \<noteq> 255"
proof -
  obtain ret m1 where a: "mac_read_pkt_ofld (mc_mem c) (mc_h2c c) i m = (ret, m1)" by (metis surj_pair)
  have m1: "mac_ok m1" using driver_mac_ok(3) [OF assms(1)] a by (metis snd_conv)
  obtain hst m2 where k: "hal_mac_chk_pkt_ofld (mc_run c) m1 = (hst, m2)" by (metis surj_pair)
  have m2: "mac_ok m2" using chk_mac_ok [OF m1, of c] k by simp
  obtain ret2 p m3 where g: "mac_pkt_ofld_packet (mc_mem2 c) m2 = (ret2, p, m3)" by (metis prod_cases3)
  have m3: "mac_ok m3" using driver_mac_ok(4) [OF m2] g by (metis snd_conv)
  have "p = Some (bs, l, q) \<Longrightarrow> q = op_id m2" for bs l q
    using g by (auto simp: mac_pkt_ofld_packet_def split: if_splits)
  then show ?thesis
    using assms(2,3) a k g m1 m2 m3
    by (auto simp: hal_mac_read_pkt_ofld_def mac_ok_def split: if_splits option.splits)
qed

lemma hal_update_ok:
  "mac_ok m \<Longrightarrow> rtw_hal_mac_pkt_update_ids mem h2c mid ids m = (st, m') \<Longrightarrow> mac_ok m'"
  by (auto simp: rtw_hal_mac_pkt_update_ids_def mac_general_pkt_ids_def mac_ok_def ofld_wf_def
      split: if_splits prod.splits)

interpretation mh: pkt_hal mac_hal "\<lambda>w. mac_ok (mw_mac w)"
proof (unfold_locales, goal_cases)
  case (1 h buf len i st j h')
  then show ?case
    using hal_add_ok [OF 1(1), of "next_call h" buf len i]
    by (auto simp: mac_hal_def after_call_def NOT_USED_def split: prod.splits)
next
  case (2 h i st h')
  then show ?case
    using hal_del_ok [OF 2(1), of "next_call h" i] by (auto simp: mac_hal_def after_call_def split: prod.splits)
next
  case (3 h i st j h')
  then show ?case
    using hal_read_ok [OF 3(1), of i "next_call h"]
    by (auto simp: mac_hal_def after_call_def NOT_USED_def split: prod.splits)
next
  case (4 h e st h')
  then show ?case
    using hal_update_ok [OF 4(1)] by (auto simp: mac_hal_def after_call_def split: prod.splits)
qed

subsection \<open>Properties\<close>

lemma init_inv:
  assumes "mac_ok (mw_mac hw)"
  shows "mh.po_inv 0 (snd (phl_pkt_ofld_init True \<lparr>po_obj = Null, po_hal = hw\<rparr>))"
  using assms by (simp add: phl_pkt_ofld_init_def mh.po_inv_def obj_inv_def all_tokens_def)

text \<open>
  C16. The invariant of packet offload requests over the MAC layer: after the object is made and any
  sequence of fewer than 2^31 well-typed calls (entries added, removed and reset, requests, cancellations,
  null requests, debug dumps), whatever allocations fail and whatever the firmware does meanwhile, no call has
  accessed memory it must not; the MAC ids of the entries and the tokens of all requests are
  different, and for every packet type the request counter is the number of requests queued and a packet
  is offloaded exactly while it is requested.
\<close>

theorem pkt_ofld_requests_invariant:
  assumes "list_all ev_ok evs" "2 * length evs < 2 ^ 32" "mac_ok (mw_mac hw)"
  shows "\<exists>w ob. po_run mac_hal evs (snd (phl_pkt_ofld_init True \<lparr>po_obj = Null, po_hal = hw\<rparr>)) = Some w \<and>
    po_obj w = Obj ob \<and> distinct (map emacid (entry_q ob)) \<and> distinct (all_tokens ob) \<and>
    entry_cnt ob = of_nat (length (entry_q ob)) \<and>
    list_all (\<lambda>e. length (pkt_info e) = PKT_OFLD_TYPE_MAX \<and>
      list_all (\<lambda>info. req_cnt info = of_nat (length (req_q info)) \<and> (pid info \<noteq> NOT_USED \<longleftrightarrow> req_q info \<noteq> [])) (pkt_info e))
      (entry_q ob)"
proof -
  obtain w n where w: "po_run mac_hal evs (snd (phl_pkt_ofld_init True \<lparr>po_obj = Null, po_hal = hw\<rparr>)) = Some w" "mh.po_inv n w"
    using mh.run_inv [OF init_inv [OF assms(3)], of evs] assms(1,2) by auto
  then obtain ob where "po_obj w = Obj ob" "obj_inv n ob" by (auto simp: mh.po_inv_def)
  then show ?thesis
    using w(1) unfolding obj_inv_def entry_ok_def info_ok_def is_pkt_ofld_def list_all_iff by blast
qed

text \<open>
  C23. A request is a reference: from any state of the invariant, a request that succeeds adds one fresh token
  to the slot of its MAC id and packet type, and the slot is offloaded; when it was already, the id stays and
  the firmware is not bothered. A request that fails for whatever reason leaves the references and
  the ids of all slots as they were.
\<close>

theorem pkt_ofld_request_refines:
  assumes "po_obj w = Obj ob" "obj_inv n ob" "mac_ok (mw_mac (po_hal w))"
    and "slot_view ob (mid, unat (pkt_type req)) = Some (toks, p)"
    and "rtw_phl_pkt_ofld_request mac_hal re mid req want name w = Some (st, out, w')"
  shows "\<exists>ob'. po_obj w' = Obj ob' \<and>
    (if st = RTW_PHL_STATUS_SUCCESS
     then cur_seq ob \<notin> set toks \<and> out = (if want then Some (cur_seq ob) else None) \<and>
       (\<exists>i. i \<noteq> NOT_USED \<and> slot_view ob' = (slot_view ob)((mid, unat (pkt_type req)) \<mapsto> (cur_seq ob # toks, i)) \<and>
         (if toks = [] then p = NOT_USED else i = p \<and> po_hal w' = po_hal w))
     else out = None \<and> slot_view ob' = slot_view ob)"
proof -
  obtain e where e: "get_entry mid ob = Some e" and t: "unat (pkt_type req) < PKT_OFLD_TYPE_MAX"
    and v: "toks = info_tokens (pkt_info e ! unat (pkt_type req))" "p = pid (pkt_info e ! unat (pkt_type req))"
    using assms(4) by (auto simp: slot_view_Some)
  note s = slot_info [OF assms(2) e t]
  have "e \<in> set (entry_q ob)" using e by (auto elim: get_entry_split)
  then have l: "length (pkt_info e) = PKT_OFLD_TYPE_MAX" using assms(2) by (simp add: obj_inv_def entry_ok_def)
  have "unat (cur_seq ob) = n" using assms(2) by (simp add: obj_inv_def unat_of_nat)
  then have fresh: "cur_seq ob \<notin> set toks" using s(5) by (auto simp: v)
  have used: "p \<noteq> NOT_USED \<longleftrightarrow> toks \<noteq> []" using s(2) by (auto simp: v info_ok_def info_tokens_def is_pkt_ofld_def)
  note c = mh.request_cases [OF assms(1,2,3) e t assms(5)]
  show ?thesis
  proof (cases "st = RTW_PHL_STATUS_SUCCESS")
    case True
    with c obtain i where i: "i \<noteq> NOT_USED" "p \<noteq> NOT_USED \<longrightarrow> i = p \<and> po_hal w' = po_hal w" "out = (if want then Some (cur_seq ob) else None)"
      "po_obj w' = Obj ((slot_put mid (unat (pkt_type req)) (\<lambda>info. (add_req \<lparr>token = cur_seq ob, req_name = name\<rparr> info)\<lparr>pid := i\<rparr>) ob)
         \<lparr>cur_seq := cur_seq ob + 1\<rparr>)"
      by (auto simp: v is_pkt_ofld_def)
    have "info_tokens ((add_req \<lparr>token = cur_seq ob, req_name = name\<rparr> (pkt_info e ! unat (pkt_type req)))\<lparr>pid := i\<rparr>) = cur_seq ob # toks"
      by (simp add: info_tokens_def add_req_def v)
    then show ?thesis
      using i fresh True used slot_view_put [OF e t l] by auto
  next
    case False
    then show ?thesis using c by auto
  qed
qed

text \<open>
  C24. A cancellation drops one reference: given a token of the slot, success removes exactly that token, and
  the packet leaves the firmware (the slot's id becomes \<^verbatim>\<open>NOT_USED\<close>) if it was the last one; while others
  remain it always succeeds, keeps the id and sends nothing. Failure, which needs the last reference
  and a failing delete, changes no slot; so does cancelling a token the slot does not have, which is an error
  exactly when the slot is offloaded.
\<close>

theorem pkt_ofld_cancel_refines:
  assumes "po_obj w = Obj ob" "obj_inv n ob" "mac_ok (mw_mac (po_hal w))"
    and "slot_view ob (mid, unat ty) = Some (toks, p)"
    and "rtw_phl_pkt_ofld_cancel mac_hal mid ty tok w = Some (st, w')"
  shows "\<exists>ob'. po_obj w' = Obj ob' \<and>
    (if tok \<in> set toks \<and> st = RTW_PHL_STATUS_SUCCESS
     then slot_view ob' = (slot_view ob)((mid, unat ty) \<mapsto> (remove1 tok toks, if toks = [tok] then NOT_USED else p)) \<and>
       (toks = [tok] \<or> po_hal w' = po_hal w)
     else slot_view ob' = slot_view ob \<and> (if tok \<in> set toks then toks = [tok] else st = RTW_PHL_STATUS_SUCCESS \<longleftrightarrow> toks = []))"
proof -
  obtain e where e: "get_entry mid ob = Some e" and t: "unat ty < PKT_OFLD_TYPE_MAX"
    and v: "toks = info_tokens (pkt_info e ! unat ty)" "p = pid (pkt_info e ! unat ty)"
    using assms(4) by (auto simp: slot_view_Some)
  let ?info = "pkt_info e ! unat ty"
  note s = slot_info [OF assms(2) e t]
  have "e \<in> set (entry_q ob)" using e by (auto elim: get_entry_split)
  then have l: "length (pkt_info e) = PKT_OFLD_TYPE_MAX" using assms(2) by (simp add: obj_inv_def entry_ok_def)
  have used: "is_pkt_ofld ?info \<longleftrightarrow> toks \<noteq> []" using s(2) by (auto simp: v info_ok_def info_tokens_def)
  have "unat (of_nat (length (req_q ?info)) :: u32) = length (req_q ?info)" using s(4) by (simp add: unat_of_nat)
  then have one: "req_cnt ?info = 1 \<longleftrightarrow> length toks = 1"
    using s(2) by (metis info_ok_def info_tokens_def length_map of_nat_1 unat_1 v(1))
  note c = mh.cancel_cases [OF assms(1,2,3) e t assms(5)]
  show ?thesis
  proof (cases "get_req tok ?info")
    case None
    then have "tok \<notin> set toks" by (simp add: get_req_None v)
    then show ?thesis using c None used assms(1) by auto
  next
    case (Some r)
    then have mem: "tok \<in> set toks" using get_req_None [of tok ?info] by (auto simp: v)
    then have single: "length toks = 1 \<longleftrightarrow> toks = [tok]" by (cases toks) auto
    have rm: "info_tokens (del_req r (if req_cnt ?info - 1 \<noteq> 0 then ?info else ?info\<lparr>pid := NOT_USED\<rparr>)) = remove1 tok toks"
      "pid (del_req r (if req_cnt ?info - 1 \<noteq> 0 then ?info else ?info\<lparr>pid := NOT_USED\<rparr>)) = (if toks = [tok] then NOT_USED else p)"
      using Some one single by (auto simp: info_tokens_def del_req_def v get_req_def remove1_token)
    note sv = slot_view_put [OF e t l, of "\<lambda>info. del_req r (if req_cnt info - 1 \<noteq> 0 then info else info\<lparr>pid := NOT_USED\<rparr>)", unfolded rm]
    show ?thesis
    proof (cases "st = RTW_PHL_STATUS_SUCCESS")
      case True
      have w': "po_obj w' = Obj (slot_put mid (unat ty)
            (\<lambda>info. del_req r (if req_cnt info - 1 \<noteq> 0 then info else info\<lparr>pid := NOT_USED\<rparr>)) ob)"
        and hal: "req_cnt ?info \<noteq> 1 \<longrightarrow> po_hal w' = po_hal w"
        using c unfolding Some option.case True if_True simp_thms by blast+
      show ?thesis
        unfolding w' obj_ptr.inject using True mem hal one single by (auto simp only: sv if_True simp_thms)
    next
      case False
      then show ?thesis using c mem one single unfolding Some option.case by auto
    qed
  qed
qed

lemma drop_head:
  assumes "entry_q ob = e # es" "entry_ok e"
  shows "drop_entry e ob = ob\<lparr>entry_q := es, entry_cnt := entry_cnt ob - 1\<rparr>"
  using assms by (simp add: drop_entry_def del_entry_req_ok del_entry_def init_entry_ok Let_def)

lemma drop_all:
  "entry_q ob = es \<Longrightarrow> \<forall>e \<in> set es. entry_ok e \<Longrightarrow>
   fold drop_entry es ob = ob\<lparr>entry_q := [], entry_cnt := entry_cnt ob - of_nat (length es)\<rparr>"
proof (induction es arbitrary: ob)
  case (Cons e es)
  then show ?case by (simp add: drop_head algebra_simps)
qed simp

text \<open>
  Tearing down: from any state of the invariant \<^verbatim>\<open>phl_pkt_ofld_deinit\<close> frees every entry with all its
  requests before it frees the object: when it does, no entry is left and the counter is zero.
\<close>

theorem pkt_ofld_deinit_frees_all:
  assumes "po_obj w = Obj ob" "obj_inv n ob"
  shows "\<exists>ob' w'. phl_pkt_ofld_deinit w = Some (ob', w') \<and> entry_q ob' = [] \<and> entry_cnt ob' = 0 \<and> po_obj w' = Freed"
  using assms by (auto simp: phl_pkt_ofld_deinit_def obj_inv_def drop_all)

subsection \<open>A run\<close>

text \<open>A firmware that stores a packet of 24 bytes under id 0.\<close>

definition good_call :: mac_call where
  "good_call = \<lparr>mc_mem = True, mc_h2c = MACSUCCESS,
     mc_env = (\<lambda>k. [Ev_rcv F_PACKET, Ev_done F_PACKET 0, Ev_rsp True 0x00180000 []]), mc_mem2 = True\<rparr>"

definition hw0 :: mac_world where
  "hw0 = \<lparr>mw_mac = ofld0, mw_calls = (\<lambda>_. good_call), mw_n = 0\<rparr>"

lemma hw0_ok: "mac_ok (mw_mac hw0)"
  using ofld0_sel(1) by (simp add: hw0_def mac_ok_def) (simp add: ofld0_def mac_reset_fwofld_state_def FW_OFLD_OP_PACKET_OFLD_def)

definition env0 :: req_env where
  "env0 = \<lparr>fe_mem = True, fe_mem2 = True, fe_sta = Some PHL_RTYPE_STATION, re_mem = True, re_mem_name = True\<rparr>"

definition null0 :: pkt_req where
  "null0 = Null_data \<lparr>a1 = replicate 6 1, a2 = replicate 6 2, a3 = replicate 6 3\<rparr>"

theorem pkt_ofld_requests_invariant_witness:
  "\<exists>w ob. po_run mac_hal [Po_add_entry True 5, Po_request env0 5 null0 True ''a'', Po_cancel 5 2 0]
      (snd (phl_pkt_ofld_init True \<lparr>po_obj = Null, po_hal = hw0\<rparr>)) = Some w \<and>
    po_obj w = Obj ob \<and> distinct (all_tokens ob)"
proof -
  have "list_all ev_ok [Po_add_entry True 5, Po_request env0 5 null0 True ''a'', Po_cancel 5 2 0]"
    by (simp add: env0_def null0_def addrs_ok_def PKT_OFLD_TYPE_MAX_def)
  from pkt_ofld_requests_invariant [OF this _ hw0_ok] show ?thesis by auto
qed

text \<open>The object with one entry that holds one request, token 0, packet id 7.\<close>

definition ob1 :: pkt_ofld_obj where
  "ob1 = \<lparr>entry_q = [upd_info 2 (\<lambda>info. (add_req \<lparr>token = 0, req_name = ''a''\<rparr> info)\<lparr>pid := 7\<rparr>) (init_entry 5)],
     entry_cnt = 1, cur_seq = 1\<rparr>"

lemma ob1_inv: "obj_inv 1 ob1"
proof -
  have "entry_ok (upd_info 2 (\<lambda>info. (add_req \<lparr>token = 0, req_name = ''a''\<rparr> info)\<lparr>pid := 7\<rparr>) (init_entry 5))"
    using init_entry_ok
    by (intro upd_entry_ok) (simp_all add: PKT_OFLD_TYPE_MAX_def init_entry_def init_info_def add_req_def info_ok_def
        is_pkt_ofld_def NOT_USED_def)
  moreover have "all_tokens ob1 = [0]"
    by (simp add: ob1_def all_tokens_def entry_tokens_def upd_info_def init_entry_def init_info_def add_req_def
        info_tokens_def PKT_OFLD_TYPE_MAX_def numeral_eq_Suc)
  ultimately show ?thesis by (simp add: obj_inv_def) (simp add: ob1_def)
qed

lemma ob1_view: "slot_view ob1 (5, 2) = Some ([0], 7)"
  by (simp add: slot_view_def get_entry_def ob1_def PKT_OFLD_TYPE_MAX_def init_entry_def init_info_def upd_info_def
      info_tokens_def add_req_def)

theorem pkt_ofld_request_refines_witness:
  "\<exists>w' ob'. rtw_phl_pkt_ofld_request mac_hal env0 5 null0 True ''b'' \<lparr>po_obj = Obj ob1, po_hal = hw0\<rparr> =
       Some (RTW_PHL_STATUS_SUCCESS, Some 1, w') \<and>
     po_obj w' = Obj ob' \<and> slot_view ob' (5, 2) = Some ([1, 0], 7)"
proof -
  let ?w = "\<lparr>po_obj = Obj ob1, po_hal = hw0\<rparr>"
  have "\<exists>w'. rtw_phl_pkt_ofld_request mac_hal env0 5 null0 True ''b'' ?w = Some (RTW_PHL_STATUS_SUCCESS, Some 1, w')"
    by (simp add: rtw_phl_pkt_ofld_request_def gen_req_def add_pkt_def Let_def env0_def null0_def ob1_def get_entry_def upd_info_def
        init_entry_def init_info_def add_req_def is_pkt_ofld_def NOT_USED_def PKT_OFLD_TYPE_MAX_def)
  then obtain w' where r: "rtw_phl_pkt_ofld_request mac_hal env0 5 null0 True ''b'' ?w = Some (RTW_PHL_STATUS_SUCCESS, Some 1, w')" by auto
  have v: "slot_view ob1 (5, unat (pkt_type null0)) = Some ([0], 7)" using ob1_view by (simp add: null0_def)
  have "po_obj ?w = Obj ob1" "mac_ok (mw_mac (po_hal ?w))" using hw0_ok by simp_all
  from pkt_ofld_request_refines [OF this(1) ob1_inv this(2) v r] r show ?thesis
    by (auto simp: null0_def ob1_def split: if_splits)
qed

text \<open>The same entry with a second request, token 1.\<close>

definition ob2 :: pkt_ofld_obj where
  "ob2 = \<lparr>entry_q = [upd_info 2 (\<lambda>info. (add_req \<lparr>token = 1, req_name = ''b''\<rparr> (add_req \<lparr>token = 0, req_name = ''a''\<rparr> info))\<lparr>pid := 7\<rparr>)
     (init_entry 5)], entry_cnt = 1, cur_seq = 2\<rparr>"

lemma ob2_inv: "obj_inv 2 ob2"
proof -
  have "entry_ok (upd_info 2 (\<lambda>info. (add_req \<lparr>token = 1, req_name = ''b''\<rparr> (add_req \<lparr>token = 0, req_name = ''a''\<rparr> info))\<lparr>pid := 7\<rparr>)
      (init_entry 5))"
    using init_entry_ok
    by (intro upd_entry_ok) (simp_all add: PKT_OFLD_TYPE_MAX_def init_entry_def init_info_def add_req_def info_ok_def
        is_pkt_ofld_def NOT_USED_def)
  moreover have "all_tokens ob2 = [1, 0]"
    by (simp add: ob2_def all_tokens_def entry_tokens_def upd_info_def init_entry_def init_info_def add_req_def
        info_tokens_def PKT_OFLD_TYPE_MAX_def numeral_eq_Suc)
  ultimately show ?thesis by (simp add: obj_inv_def) (simp add: ob2_def)
qed

lemma ob2_view: "slot_view ob2 (5, 2) = Some ([1, 0], 7)"
  by (simp add: slot_view_def get_entry_def ob2_def PKT_OFLD_TYPE_MAX_def init_entry_def init_info_def upd_info_def
      info_tokens_def add_req_def)

theorem pkt_ofld_cancel_refines_witness:
  "\<exists>w' ob'. rtw_phl_pkt_ofld_cancel mac_hal 5 2 0 \<lparr>po_obj = Obj ob2, po_hal = hw0\<rparr> = Some (RTW_PHL_STATUS_SUCCESS, w') \<and>
     po_obj w' = Obj ob' \<and> slot_view ob' (5, 2) = Some ([1], 7) \<and> po_hal w' = hw0"
proof -
  let ?w = "\<lparr>po_obj = Obj ob2, po_hal = hw0\<rparr>"
  have "mh.po_inv 2 ?w" using ob2_inv hw0_ok by (simp add: mh.po_inv_def)
  then obtain st w' where r: "rtw_phl_pkt_ofld_cancel mac_hal 5 2 0 ?w = Some (st, w')"
    using mh.cancel_inv [of 2 ?w 2 5 0] by (auto simp: PKT_OFLD_TYPE_MAX_def)
  have "po_obj ?w = Obj ob2" "mac_ok (mw_mac (po_hal ?w))" "slot_view ob2 (5, unat (2::u8)) = Some ([1, 0], 7)"
    using hw0_ok ob2_view by simp_all
  from pkt_ofld_cancel_refines [OF this(1) ob2_inv this(2,3) r] r show ?thesis by (auto split: if_splits)
qed

theorem pkt_ofld_deinit_frees_all_witness:
  "\<exists>ob' w'. phl_pkt_ofld_deinit \<lparr>po_obj = Obj ob1, po_hal = hw0\<rparr> = Some (ob', w') \<and> entry_q ob' = []"
proof -
  have "po_obj \<lparr>po_obj = Obj ob1, po_hal = hw0\<rparr> = Obj ob1" by simp
  from pkt_ofld_deinit_frees_all [OF this ob1_inv] show ?thesis by blast
qed

end
