(* ===== verification/Phl_Chan.thy ===== *)
theory Phl_Chan
  imports Phl_Prelude
begin

section \<open>Channel definitions\<close>

text \<open>
  The arithmetic on channel definitions of \<^verbatim>\<open>phl_chan.c\<close>, with no state: the bands and
  sub-bands of \<^verbatim>\<open>phl_regulation_def.h\<close>, the grouping test and the adjustment that let two
  roles share a channel, the secondary-channel offset, the centre channel and the frequency
  range, and the global operating classes.  A function of the source that writes through a
  \<^verbatim>\<open>struct rtw_chan_def *\<close> returns the new record here; messages printed on the way are left out.
\<close>

subsection \<open>Data\<close>

datatype band_type = BAND_ON_24G | BAND_ON_5G | BAND_ON_6G | BAND_MAX

datatype channel_width =
    CHANNEL_WIDTH_20
  | CHANNEL_WIDTH_40
  | CHANNEL_WIDTH_80
  | CHANNEL_WIDTH_160
  | CHANNEL_WIDTH_80_80
  | CHANNEL_WIDTH_5
  | CHANNEL_WIDTH_10
  | CHANNEL_WIDTH_MAX

datatype chan_offset =
    CHAN_OFFSET_NO_EXT
  | CHAN_OFFSET_UPPER
  | CHAN_OFFSET_NO_DEF
  | CHAN_OFFSET_LOWER
  | CHAN_OFFSET_40M_UPPER
  | CHAN_OFFSET_40M_LOWER
  | CHAN_OFFSET_80M_UPPER
  | CHAN_OFFSET_80M_LOWER

text \<open>
  The code compares widths with \<^verbatim>\<open><\<close> and \<^verbatim>\<open>>=\<close>, that is by the value of the enumerator; the
  5 and 10 MHz widths come after 160 MHz there.
\<close>

fun width_code :: "channel_width \<Rightarrow> nat" where
  "width_code CHANNEL_WIDTH_20 = 0"
| "width_code CHANNEL_WIDTH_40 = 1"
| "width_code CHANNEL_WIDTH_80 = 2"
| "width_code CHANNEL_WIDTH_160 = 3"
| "width_code CHANNEL_WIDTH_80_80 = 4"
| "width_code CHANNEL_WIDTH_5 = 5"
| "width_code CHANNEL_WIDTH_10 = 6"
| "width_code CHANNEL_WIDTH_MAX = 7"

lemma width_code_inject: "width_code a = width_code b \<longleftrightarrow> a = b"
  by (cases a; cases b) simp_all

instantiation channel_width :: linorder
begin

definition less_eq_channel_width_def [phl_defs, simp]: "a \<le> b \<longleftrightarrow> width_code a \<le> width_code b"

definition less_channel_width_def [phl_defs, simp]: "a < b \<longleftrightarrow> width_code a < width_code b"

instance
proof
  fix x y :: channel_width
  assume "x \<le> y" and "y \<le> x"
  then show "x = y" by (simp add: width_code_inject [symmetric])
qed auto

end

record rtw_chan_def =
  band :: band_type
  chan :: u8
  bw :: channel_width
  offset :: chan_offset
  center_ch :: u8
  hw_value :: u16
  center_freq1 :: u32
  center_freq2 :: u32
  is_dfs :: bool

text \<open>The record with all bytes zero, which \<^verbatim>\<open>struct rtw_chan_def d = {0}\<close> gives.\<close>

definition chan_def_zero :: rtw_chan_def where
  "chan_def_zero =
     \<lparr>band = BAND_ON_24G, chan = 0, bw = CHANNEL_WIDTH_20, offset = CHAN_OFFSET_NO_EXT,
      center_ch = 0, hw_value = 0, center_freq1 = 0, center_freq2 = 0, is_dfs = False\<rparr>"

subsection \<open>Sub-bands\<close>

definition CH_5GHZ_BAND1 :: "u8 \<Rightarrow> bool" where "CH_5GHZ_BAND1 ch \<longleftrightarrow> 36 \<le> ch \<and> ch \<le> 48"
definition CH_5GHZ_BAND2 :: "u8 \<Rightarrow> bool" where "CH_5GHZ_BAND2 ch \<longleftrightarrow> 52 \<le> ch \<and> ch \<le> 64"
definition CH_5GHZ_BAND3 :: "u8 \<Rightarrow> bool" where "CH_5GHZ_BAND3 ch \<longleftrightarrow> 100 \<le> ch \<and> ch \<le> 144"
definition CH_5GHZ_BAND4 :: "u8 \<Rightarrow> bool" where "CH_5GHZ_BAND4 ch \<longleftrightarrow> 149 \<le> ch \<and> ch \<le> 177"
definition CH_6GHZ_UNII5 :: "u8 \<Rightarrow> bool" where "CH_6GHZ_UNII5 ch \<longleftrightarrow> 1 \<le> ch \<and> ch \<le> 93"
definition CH_6GHZ_UNII6 :: "u8 \<Rightarrow> bool" where "CH_6GHZ_UNII6 ch \<longleftrightarrow> 97 \<le> ch \<and> ch \<le> 117"
definition CH_6GHZ_UNII7 :: "u8 \<Rightarrow> bool" where "CH_6GHZ_UNII7 ch \<longleftrightarrow> 121 \<le> ch \<and> ch \<le> 189"
definition CH_6GHZ_UNII8 :: "u8 \<Rightarrow> bool" where "CH_6GHZ_UNII8 ch \<longleftrightarrow> 193 \<le> ch \<and> ch \<le> 233"

definition CH_IN_SAME_5G_BAND :: "u8 \<Rightarrow> u8 \<Rightarrow> bool" where
  "CH_IN_SAME_5G_BAND a b \<longleftrightarrow>
     (CH_5GHZ_BAND4 a \<and> CH_5GHZ_BAND4 b) \<or> (CH_5GHZ_BAND3 a \<and> CH_5GHZ_BAND3 b) \<or>
     (CH_5GHZ_BAND2 a \<and> CH_5GHZ_BAND2 b) \<or> (CH_5GHZ_BAND1 a \<and> CH_5GHZ_BAND1 b)"

definition CH_IN_SAME_6G_BAND :: "u8 \<Rightarrow> u8 \<Rightarrow> bool" where
  "CH_IN_SAME_6G_BAND a b \<longleftrightarrow>
     (CH_6GHZ_UNII8 a \<and> CH_6GHZ_UNII8 b) \<or> (CH_6GHZ_UNII7 a \<and> CH_6GHZ_UNII7 b) \<or>
     (CH_6GHZ_UNII6 a \<and> CH_6GHZ_UNII6 b) \<or> (CH_6GHZ_UNII5 a \<and> CH_6GHZ_UNII5 b)"

definition is_ch_in_same_band :: "rtw_chan_def \<Rightarrow> rtw_chan_def \<Rightarrow> bool" where
  "is_ch_in_same_band a b =
     (if band a = band b
      then if band a = BAND_ON_24G then True
           else if band b = BAND_ON_5G then CH_IN_SAME_5G_BAND (chan a) (chan b)
           else if band b = BAND_ON_6G then CH_IN_SAME_6G_BAND (chan a) (chan b)
           else False
      else False)"

subsection \<open>Grouping and adjusting\<close>

definition wide_40_160 :: "channel_width \<Rightarrow> bool" where
  "wide_40_160 w \<longleftrightarrow> w = CHANNEL_WIDTH_40 \<or> w = CHANNEL_WIDTH_80 \<or> w = CHANNEL_WIDTH_160"

definition phl_is_chbw_grouped :: "rtw_chan_def \<Rightarrow> rtw_chan_def \<Rightarrow> bool" where
  "phl_is_chbw_grouped a b =
     (if band a \<noteq> band b then False
      else if chan a \<noteq> chan b then False
      else if wide_40_160 (bw a) \<and> wide_40_160 (bw b) then offset a = offset b
      else True)"

definition phl_upt_offset_by_chbw_24g :: "rtw_chan_def \<Rightarrow> rtw_chan_def" where
  "phl_upt_offset_by_chbw_24g n =
     (if CHANNEL_WIDTH_80 \<le> bw n \<or> chan n < 1 \<or> 14 < chan n then n
      else if bw n = CHANNEL_WIDTH_20 then n\<lparr>offset := CHAN_OFFSET_NO_EXT\<rparr>
      else if 1 \<le> chan n \<and> chan n \<le> 4 then n\<lparr>offset := CHAN_OFFSET_UPPER\<rparr>
      else if 5 \<le> chan n \<and> chan n \<le> 9
      then if offset n = CHAN_OFFSET_UPPER \<or> offset n = CHAN_OFFSET_LOWER
           then n\<lparr>offset := offset n\<rparr>
           else n\<lparr>offset := CHAN_OFFSET_LOWER\<rparr>
      else if 10 \<le> chan n \<and> chan n \<le> 13 then n\<lparr>offset := CHAN_OFFSET_LOWER\<rparr>
      else n)"

definition ch5_upper :: "u8 list" where
  "ch5_upper = [36, 44, 52, 60, 100, 108, 116, 124, 132, 140, 149, 157, 165, 173]"

definition ch5_lower :: "u8 list" where
  "ch5_lower = [40, 48, 56, 64, 104, 112, 120, 128, 136, 144, 153, 161, 169, 177]"

definition phl_upt_offset_by_chbw_5g :: "rtw_chan_def \<Rightarrow> rtw_chan_def" where
  "phl_upt_offset_by_chbw_5g n =
     (if chan n < 36 \<or> 177 < chan n then n
      else if chan n \<in> set ch5_upper
      then n\<lparr>offset := if CHANNEL_WIDTH_40 \<le> bw n \<and> bw n \<le> CHANNEL_WIDTH_160
                       then CHAN_OFFSET_UPPER else CHAN_OFFSET_NO_EXT\<rparr>
      else if chan n \<in> set ch5_lower
      then n\<lparr>offset := if CHANNEL_WIDTH_40 \<le> bw n \<and> bw n \<le> CHANNEL_WIDTH_160
                       then CHAN_OFFSET_LOWER else CHAN_OFFSET_NO_EXT\<rparr>
      else n)"

definition phl_upt_offset_by_chbw_6g :: "rtw_chan_def \<Rightarrow> rtw_chan_def" where
  "phl_upt_offset_by_chbw_6g n =
     (if 1 \<le> chan n \<and> chan n \<le> 253
      then if chan n mod 8 = 1
           then n\<lparr>offset := if bw n = CHANNEL_WIDTH_20 then CHAN_OFFSET_NO_EXT
                            else CHAN_OFFSET_UPPER\<rparr>
           else if chan n mod 8 = 5
           then n\<lparr>offset := if bw n = CHANNEL_WIDTH_20 then CHAN_OFFSET_NO_EXT
                            else CHAN_OFFSET_LOWER\<rparr>
           else n
      else n)"

definition phl_upt_offset_by_chbw :: "rtw_chan_def \<Rightarrow> rtw_chan_def" where
  "phl_upt_offset_by_chbw n =
     (if band n = BAND_ON_24G then phl_upt_offset_by_chbw_24g n
      else if band n = BAND_ON_5G then phl_upt_offset_by_chbw_5g n
      else if band n = BAND_ON_6G then phl_upt_offset_by_chbw_6g n
      else n)"

text \<open>
  \<^verbatim>\<open>_phl_adjust_chandef\<close> moves the new definition to the channel of the group; the result is the
  pair of the new definition and the group's, which only the last step changes.
\<close>

definition phl_adjust_new :: "rtw_chan_def \<Rightarrow> rtw_chan_def \<Rightarrow> rtw_chan_def" where
  "phl_adjust_new n0 g =
     (let n1 = n0\<lparr>band := band g, chan := chan g\<rparr>;
          n2 = (if band g = BAND_ON_24G \<and> (bw n1 = CHANNEL_WIDTH_80 \<or> bw n1 = CHANNEL_WIDTH_160)
                then n1\<lparr>bw := CHANNEL_WIDTH_40\<rparr> else n1)
      in if wide_40_160 (bw n2)
         then let n3 = (if wide_40_160 (bw g) then n2\<lparr>offset := offset g\<rparr>
                        else if bw g = CHANNEL_WIDTH_20 then phl_upt_offset_by_chbw n2
                        else n2)
              in if offset n3 = CHAN_OFFSET_NO_EXT then n3\<lparr>bw := CHANNEL_WIDTH_20\<rparr> else n3
         else if bw n2 = CHANNEL_WIDTH_20 then n2\<lparr>offset := CHAN_OFFSET_NO_EXT\<rparr>
         else n2)"

definition phl_adjust_chandef ::
  "rtw_chan_def \<Rightarrow> rtw_chan_def \<Rightarrow> bool \<Rightarrow> rtw_chan_def \<times> rtw_chan_def" where
  "phl_adjust_chandef n g g_chdef_upt =
     (let n' = phl_adjust_new n g
      in if \<not> g_chdef_upt then (n', g)
         else if bw g < bw n' then (n', g\<lparr>bw := bw n', offset := offset n'\<rparr>)
         else (n', g))"

subsection \<open>Centre channel and frequency range\<close>

text \<open>The loop of the 6 GHz branches: the primary channel moves to the centre of its block.\<close>

definition center_6g_body :: "int \<Rightarrow> int \<Rightarrow> int \<Rightarrow> int \<Rightarrow> u8 \<Rightarrow> int \<Rightarrow> u8" where
  "center_6g_body start end_ch cent_ch step ch i =
     (if start + i * step \<le> uint ch \<and> uint ch \<le> end_ch + i * step
      then word_of_int (cent_ch + i * step) else ch)"

definition center_6g_loop :: "int \<Rightarrow> int \<Rightarrow> int \<Rightarrow> int \<Rightarrow> int \<Rightarrow> u8 \<Rightarrow> u8" where
  "center_6g_loop start end_ch cent_ch step num ch =
     foldl (center_6g_body start end_ch cent_ch step) ch [0..num - 1]"

definition rtw_phl_get_center_ch :: "rtw_chan_def \<Rightarrow> u8" where
  "rtw_phl_get_center_ch d =
     (let ch = chan d
      in if bw d = CHANNEL_WIDTH_160
         then if band d = BAND_ON_6G then center_6g_loop 1 29 15 32 8 ch
              else if ch mod 4 = 0
              then if 36 \<le> ch \<and> ch \<le> 64 then 50
                   else if 100 \<le> ch \<and> ch \<le> 128 then 114 else ch
              else if ch mod 4 = 1
              then if 149 \<le> ch \<and> ch \<le> 177 then 163 else ch
              else ch
         else if bw d = CHANNEL_WIDTH_80
         then if band d = BAND_ON_6G then center_6g_loop 1 13 7 16 16 ch
              else if ch \<le> 14 then 7
              else if ch mod 4 = 0
              then if 36 \<le> ch \<and> ch \<le> 48 then 42
                   else if 52 \<le> ch \<and> ch \<le> 64 then 58
                   else if 100 \<le> ch \<and> ch \<le> 112 then 106
                   else if 116 \<le> ch \<and> ch \<le> 128 then 122
                   else if 132 \<le> ch \<and> ch \<le> 144 then 138 else ch
              else if ch mod 4 = 1
              then if 149 \<le> ch \<and> ch \<le> 161 then 155
                   else if 165 \<le> ch \<and> ch \<le> 177 then 171 else ch
              else ch
         else if bw d = CHANNEL_WIDTH_40
         then if offset d = CHAN_OFFSET_UPPER then ch + 2
              else if offset d = CHAN_OFFSET_LOWER then ch - 2 else ch
         else ch)"

definition rtw_phl_bch2freq :: "band_type \<Rightarrow> int \<Rightarrow> int" where
  "rtw_phl_bch2freq b ch =
     (if b = BAND_ON_6G then if 1 \<le> ch \<and> ch \<le> 253 then 5950 + ch * 5 else 0
      else if b = BAND_ON_24G \<or> b = BAND_ON_5G
      then if 1 \<le> ch \<and> ch \<le> 14 then if ch = 14 then 2484 else 2407 + ch * 5
           else if 36 \<le> ch \<and> ch \<le> 177 then 5000 + ch * 5 else 0
      else 0)"

text \<open>The result is the return value with what is written to \<^verbatim>\<open>*hi\<close> and \<^verbatim>\<open>*lo\<close>.\<close>

definition rtw_phl_bchbw_to_freq_range ::
  "band_type \<Rightarrow> u8 \<Rightarrow> channel_width \<Rightarrow> chan_offset \<Rightarrow> bool \<times> u32 \<times> u32" where
  "rtw_phl_bchbw_to_freq_range b ch w off =
     (let c_ch = rtw_phl_get_center_ch
                   (chan_def_zero\<lparr>band := b, chan := ch, bw := w, offset := off\<rparr>);
          freq = (word_of_int (rtw_phl_bch2freq b (uint c_ch)) :: u32)
      in if freq = 0 then (False, 0, 0)
         else if w = CHANNEL_WIDTH_160 then (True, freq + 80, freq - 80)
         else if w = CHANNEL_WIDTH_80 then (True, freq + 40, freq - 40)
         else if w = CHANNEL_WIDTH_40 then (True, freq + 20, freq - 20)
         else if w = CHANNEL_WIDTH_20 then (True, freq + 10, freq - 10)
         else (True, 0, 0))"

subsection \<open>Operating classes\<close>

definition rtw_phl_get_operating_class :: "rtw_chan_def \<Rightarrow> u8" where
  "rtw_phl_get_operating_class d =
     (let ch = chan d
      in if bw d = CHANNEL_WIDTH_20
         then if band d = BAND_ON_6G then 131
              else if ch \<le> 13 then 81
              else if ch = 14 then 82
              else if 36 \<le> ch \<and> ch \<le> 48 then 115
              else if 52 \<le> ch \<and> ch \<le> 64 then 118
              else if 100 \<le> ch \<and> ch \<le> 144 then 121
              else if 149 \<le> ch \<and> ch \<le> 177 then 125
              else 0
         else if bw d = CHANNEL_WIDTH_40
         then if band d = BAND_ON_6G then 132
              else if offset d = CHAN_OFFSET_UPPER
              then if 1 \<le> ch \<and> ch \<le> 9 then 83
                   else if ch \<in> set [36, 44] then 116
                   else if ch \<in> set [52, 60] then 119
                   else if ch \<in> set [100, 108, 116, 124, 132, 140] then 122
                   else if ch \<in> set [149, 157, 165, 173] then 126
                   else 0
              else if offset d = CHAN_OFFSET_LOWER
              then if 5 \<le> ch \<and> ch \<le> 13 then 84
                   else if ch \<in> set [40, 48] then 117
                   else if ch \<in> set [56, 64] then 120
                   else if ch \<in> set [104, 112, 120, 128, 136, 144] then 123
                   else if ch \<in> set [153, 161, 169, 177] then 127
                   else 0
              else 0
         else if bw d = CHANNEL_WIDTH_80
         then if band d = BAND_ON_5G then 128 else if band d = BAND_ON_6G then 133 else 0
         else if bw d = CHANNEL_WIDTH_160
         then if band d = BAND_ON_5G then 129 else if band d = BAND_ON_6G then 134 else 0
         else 0)"

text \<open>
  The 2.4 and 5 GHz branches of the converse set the four fields and then the centre channel from
  them; the 6 GHz branches store the primary channel as the centre.
\<close>

definition set_class_chandef ::
  "rtw_chan_def \<Rightarrow> u8 \<Rightarrow> channel_width \<Rightarrow> chan_offset \<Rightarrow> band_type \<Rightarrow> rtw_chan_def" where
  "set_class_chandef d channel w off b =
     (let d1 = d\<lparr>chan := channel, bw := w, offset := off, band := b\<rparr>
      in d1\<lparr>center_ch := rtw_phl_get_center_ch d1\<rparr>)"

definition set_class_chandef_6g :: "rtw_chan_def \<Rightarrow> u8 \<Rightarrow> channel_width \<Rightarrow> rtw_chan_def" where
  "set_class_chandef_6g d channel w =
     d\<lparr>chan := channel, bw := w, offset := CHAN_OFFSET_NO_DEF, center_ch := channel,
       band := BAND_ON_6G\<rparr>"

definition rtw_phl_get_chandef_from_operating_class ::
  "u8 \<Rightarrow> u8 \<Rightarrow> rtw_chan_def \<Rightarrow> bool \<times> rtw_chan_def" where
  "rtw_phl_get_chandef_from_operating_class channel oc d =
     (if oc = 81 \<or> oc = 82
      then (True, set_class_chandef d channel CHANNEL_WIDTH_20 CHAN_OFFSET_NO_EXT BAND_ON_24G)
      else if oc = 115 \<or> oc = 118 \<or> oc = 121 \<or> oc = 124 \<or> oc = 125
      then (True, set_class_chandef d channel CHANNEL_WIDTH_20 CHAN_OFFSET_NO_EXT BAND_ON_5G)
      else if oc = 83
      then (True, set_class_chandef d channel CHANNEL_WIDTH_40 CHAN_OFFSET_UPPER BAND_ON_24G)
      else if oc = 116 \<or> oc = 119 \<or> oc = 122 \<or> oc = 126
      then (True, set_class_chandef d channel CHANNEL_WIDTH_40 CHAN_OFFSET_UPPER BAND_ON_5G)
      else if oc = 84
      then (True, set_class_chandef d channel CHANNEL_WIDTH_40 CHAN_OFFSET_LOWER BAND_ON_24G)
      else if oc = 117 \<or> oc = 120 \<or> oc = 123 \<or> oc = 127
      then (True, set_class_chandef d channel CHANNEL_WIDTH_40 CHAN_OFFSET_LOWER BAND_ON_5G)
      else if oc = 128
      then (True, set_class_chandef d channel CHANNEL_WIDTH_80 CHAN_OFFSET_NO_DEF BAND_ON_5G)
      else if oc = 129
      then (True, set_class_chandef d channel CHANNEL_WIDTH_160 CHAN_OFFSET_NO_DEF BAND_ON_5G)
      else if oc = 131 then (True, set_class_chandef_6g d channel CHANNEL_WIDTH_20)
      else if oc = 132 then (True, set_class_chandef_6g d channel CHANNEL_WIDTH_40)
      else if oc = 133 \<or> oc = 135 then (True, set_class_chandef_6g d channel CHANNEL_WIDTH_80)
      else if oc = 134 then (True, set_class_chandef_6g d channel CHANNEL_WIDTH_160)
      else (False, d))"

subsection \<open>The channel plan\<close>

text \<open>
  The channels the regulatory tables of the driver hold: primary channel, width and position of
  the secondary channel in each band, written from the 802.11 channelisation and independently of
  the functions above.
\<close>

definition chan_plan :: "rtw_chan_def \<Rightarrow> bool" where
  "chan_plan d =
     (let ch = chan d; w = bw d; off = offset d;
          uppers = [36, 44, 52, 60, 100, 108, 116, 124, 132, 140, 149, 157, 165, 173];
          lowers = [40, 48, 56, 64, 104, 112, 120, 128, 136, 144, 153, 161, 169, 177]
      in case band d of
        BAND_ON_24G \<Rightarrow>
          w = CHANNEL_WIDTH_20 \<and> 1 \<le> ch \<and> ch \<le> 14 \<or>
          w = CHANNEL_WIDTH_40 \<and> (off = CHAN_OFFSET_UPPER \<and> 1 \<le> ch \<and> ch \<le> 9 \<or>
                                   off = CHAN_OFFSET_LOWER \<and> 5 \<le> ch \<and> ch \<le> 13)
      | BAND_ON_5G \<Rightarrow>
          ch \<in> set (uppers @ lowers) \<and>
          (w = CHANNEL_WIDTH_20 \<or>
           w = CHANNEL_WIDTH_40 \<and> off = (if ch \<in> set uppers then CHAN_OFFSET_UPPER
                                           else CHAN_OFFSET_LOWER) \<or>
           w = CHANNEL_WIDTH_80 \<or>
           w = CHANNEL_WIDTH_160 \<and> (ch \<le> 128 \<or> 149 \<le> ch))
      | BAND_ON_6G \<Rightarrow>
          ch \<le> 233 \<and> ch mod 4 = 1 \<and>
          (w = CHANNEL_WIDTH_20 \<or>
           w = CHANNEL_WIDTH_40 \<and> off = (if ch mod 8 = 1 then CHAN_OFFSET_UPPER
                                           else CHAN_OFFSET_LOWER) \<or>
           w = CHANNEL_WIDTH_80 \<or> w = CHANNEL_WIDTH_160)
      | BAND_MAX \<Rightarrow> False)"

text \<open>The 5 GHz channels of the plan are those of the tables in the code.\<close>

lemma chan_plan_tables:
  "chan_plan d =
     (let ch = chan d; w = bw d; off = offset d
      in case band d of
        BAND_ON_24G \<Rightarrow>
          w = CHANNEL_WIDTH_20 \<and> 1 \<le> ch \<and> ch \<le> 14 \<or>
          w = CHANNEL_WIDTH_40 \<and> (off = CHAN_OFFSET_UPPER \<and> 1 \<le> ch \<and> ch \<le> 9 \<or>
                                   off = CHAN_OFFSET_LOWER \<and> 5 \<le> ch \<and> ch \<le> 13)
      | BAND_ON_5G \<Rightarrow>
          ch \<in> set (ch5_upper @ ch5_lower) \<and>
          (w = CHANNEL_WIDTH_20 \<or>
           w = CHANNEL_WIDTH_40 \<and> off = (if ch \<in> set ch5_upper then CHAN_OFFSET_UPPER
                                           else CHAN_OFFSET_LOWER) \<or>
           w = CHANNEL_WIDTH_80 \<or>
           w = CHANNEL_WIDTH_160 \<and> (ch \<le> 128 \<or> 149 \<le> ch))
      | BAND_ON_6G \<Rightarrow>
          ch \<le> 233 \<and> ch mod 4 = 1 \<and>
          (w = CHANNEL_WIDTH_20 \<or>
           w = CHANNEL_WIDTH_40 \<and> off = (if ch mod 8 = 1 then CHAN_OFFSET_UPPER
                                           else CHAN_OFFSET_LOWER) \<or>
           w = CHANNEL_WIDTH_80 \<or> w = CHANNEL_WIDTH_160)
      | BAND_MAX \<Rightarrow> False)"
  by (simp only: chan_plan_def Let_def ch5_upper_def ch5_lower_def)

fun width_mhz :: "channel_width \<Rightarrow> int" where
  "width_mhz CHANNEL_WIDTH_20 = 20"
| "width_mhz CHANNEL_WIDTH_40 = 40"
| "width_mhz CHANNEL_WIDTH_80 = 80"
| "width_mhz CHANNEL_WIDTH_160 = 160"
| "width_mhz CHANNEL_WIDTH_80_80 = 160"
| "width_mhz CHANNEL_WIDTH_5 = 5"
| "width_mhz CHANNEL_WIDTH_10 = 10"
| "width_mhz CHANNEL_WIDTH_MAX = 0"

definition std_width :: "channel_width \<Rightarrow> bool" where
  "std_width w \<longleftrightarrow> w = CHANNEL_WIDTH_20 \<or> wide_40_160 w"

definition covers_primary :: "rtw_chan_def \<Rightarrow> bool" where
  "covers_primary d =
     (let c = rtw_phl_bch2freq (band d) (uint (rtw_phl_get_center_ch d));
          f = rtw_phl_bch2freq (band d) (uint (chan d)); h = width_mhz (bw d) div 2
      in 2400 \<le> c - h \<and> c - h + 10 \<le> f \<and> f + 10 \<le> c + h \<and> c + h < 10000)"

subsection \<open>Arithmetic on channel numbers\<close>

lemma uint_u8_mod4: "(ch::u8) mod 4 = 1 \<longleftrightarrow> uint ch mod 4 = 1"
  by (simp add: word_uint_eq_iff uint_mod_distrib)

lemma uint_u8_mod8: "(ch::u8) mod 8 = 1 \<longleftrightarrow> uint ch mod 8 = 1"
  by (simp add: word_uint_eq_iff uint_mod_distrib)

lemma u8_le_iff: "(a::u8) \<le> b \<longleftrightarrow> uint a \<le> uint b"
  by (simp add: word_le_def)

lemma uint_u8_add: "uint (a::u8) + 2 < 256 \<Longrightarrow> uint (a + 2) = uint a + 2"
  by (simp add: uint_word_ariths)

lemma uint_u8_sub: "2 \<le> uint (a::u8) \<Longrightarrow> uint (a - 2) = uint a - 2"
  using uint_lt2p [of a] by (simp add: uint_word_ariths)

text \<open>The blocks of the 6 GHz loop are disjoint, so it moves the channel exactly once.\<close>

lemma block_unique:
  assumes "s + j * st \<le> u" "u \<le> e + j * st" "s + i * st \<le> u" "u \<le> e + i * st" "e - s < (st::int)"
  shows "i = j"
proof (rule ccontr)
  assume "i \<noteq> j"
  then have "i + 1 \<le> j \<or> j + 1 \<le> i" by arith
  moreover have "0 < st" using assms by linarith
  ultimately have "(i + 1) * st \<le> j * st \<or> (j + 1) * st \<le> i * st"
    by (metis mult_le_cancel_right_pos)
  then show False using assms by (auto simp: distrib_right)
qed

lemma center_6g_loop_skip:
  assumes "s + j * st \<le> uint ch" "uint ch \<le> e + j * st" "e - s < st" "j \<notin> set is"
  shows "foldl (center_6g_body s e c st) ch is = ch"
  using assms(4)
proof (induction "is")
  case (Cons i xs)
  then have "center_6g_body s e c st ch i = ch"
    using block_unique [OF assms(1,2) _ _ assms(3), of i] by (auto simp: center_6g_body_def)
  then show ?case using Cons by simp
qed simp

lemma center_6g_loop_block:
  assumes blk: "s + j * st \<le> uint ch" "uint ch \<le> e + j * st"
    and j: "0 \<le> j" "j < n" and c: "s \<le> c" "c \<le> e" "e - s < st" "0 \<le> s" "e + (n - 1) * st < 256"
  shows "uint (center_6g_loop s e c st n ch) = c + j * st"
proof -
  have split: "[0..n - 1] = [0..j - 1] @ j # [j + 1..n - 1]"
    using j by (intro upto_split3) auto
  have "0 < st" using c by linarith
  then have "j * st \<le> (n - 1) * st" using j by (intro mult_right_mono) auto
  moreover have "0 \<le> j * st" using j \<open>0 < st\<close> by simp
  ultimately have "0 \<le> c + j * st" "c + j * st < 256" using c by linarith+
  then have u: "uint (word_of_int (c + j * st) :: u8) = c + j * st"
    by (subst uint_word_of_int_eq) (simp add: take_bit_int_eq_self)
  have "center_6g_body s e c st ch j = word_of_int (c + j * st)"
    using blk by (simp add: center_6g_body_def)
  then have "center_6g_loop s e c st n ch = word_of_int (c + j * st)"
    unfolding center_6g_loop_def split foldl_append foldl_Cons
    using blk c j u by (simp add: center_6g_loop_skip [where j = j] del: of_int_add of_int_mult)
  then show ?thesis using u by simp
qed

subsection \<open>The frequency range covers the primary channel\<close>

lemma covers_24g:
  assumes "chan_plan d" "band d = BAND_ON_24G"
  shows "covers_primary d"
proof -
  let ?u = "uint (chan d)"
  consider "bw d = CHANNEL_WIDTH_20" "1 \<le> ?u" "?u \<le> 14"
    | "bw d = CHANNEL_WIDTH_40" "offset d = CHAN_OFFSET_UPPER" "1 \<le> ?u" "?u \<le> 9"
    | "bw d = CHANNEL_WIDTH_40" "offset d = CHAN_OFFSET_LOWER" "5 \<le> ?u" "?u \<le> 13"
    using assms by (auto simp: chan_plan_tables Let_def u8_le_iff)
  then show ?thesis
    using assms(2) uint_u8_add [of "chan d"] uint_u8_sub [of "chan d"]
    by cases (simp_all add: covers_primary_def rtw_phl_get_center_ch_def rtw_phl_bch2freq_def)
qed

lemma ch5_blocks:
  "\<forall>ch \<in> set (ch5_upper @ ch5_lower).
     (ch mod 4 = 0 \<and> (uint ch \<in> {36..48} \<or> uint ch \<in> {52..64} \<or> uint ch \<in> {100..112} \<or>
        uint ch \<in> {116..128} \<or> uint ch \<in> {132..144})) \<or>
     (ch mod 4 = 1 \<and> (uint ch \<in> {149..161} \<or> uint ch \<in> {165..177}))"
  by (simp add: ch5_upper_def ch5_lower_def)

lemma center_5g_80:
  assumes "chan d \<in> set (ch5_upper @ ch5_lower)" "band d = BAND_ON_5G" "bw d = CHANNEL_WIDTH_80"
  shows "\<bar>uint (rtw_phl_get_center_ch d) - uint (chan d)\<bar> \<le> 6 \<and>
     uint (rtw_phl_get_center_ch d) \<in> {42..171}"
  using bspec [OF ch5_blocks assms(1)] assms(2,3)
  by (elim disjE conjE) (simp_all add: rtw_phl_get_center_ch_def u8_le_iff abs_le_iff)

lemma center_5g_160:
  assumes "chan d \<in> set (ch5_upper @ ch5_lower)" "band d = BAND_ON_5G" "bw d = CHANNEL_WIDTH_160"
    "chan d \<le> 128 \<or> 149 \<le> chan d"
  shows "\<bar>uint (rtw_phl_get_center_ch d) - uint (chan d)\<bar> \<le> 14 \<and>
     uint (rtw_phl_get_center_ch d) \<in> {50..163}"
  using bspec [OF ch5_blocks assms(1)] assms(2-4)
  by (elim disjE conjE) (simp_all add: rtw_phl_get_center_ch_def u8_le_iff abs_le_iff)

lemma ch5_range:
  "\<forall>ch \<in> set ch5_upper. uint ch \<in> {36..173}" "\<forall>ch \<in> set ch5_lower. uint ch \<in> {40..177}"
  by (simp_all add: ch5_upper_def ch5_lower_def)

lemma covers_5g:
  assumes "chan_plan d" "band d = BAND_ON_5G"
  shows "covers_primary d"
proof -
  have ch: "chan d \<in> set (ch5_upper @ ch5_lower)"
    using assms by (auto simp: chan_plan_tables Let_def)
  then have rng: "uint (chan d) \<in> {36..177}" using ch5_range by fastforce
  consider "bw d = CHANNEL_WIDTH_20"
    | "bw d = CHANNEL_WIDTH_40" "chan d \<in> set ch5_upper" "offset d = CHAN_OFFSET_UPPER"
    | "bw d = CHANNEL_WIDTH_40" "chan d \<in> set ch5_lower" "offset d = CHAN_OFFSET_LOWER"
    | "bw d = CHANNEL_WIDTH_80" | "bw d = CHANNEL_WIDTH_160" "chan d \<le> 128 \<or> 149 \<le> chan d"
    using assms by (auto simp: chan_plan_tables Let_def split: if_splits)
  then show ?thesis
  proof cases
    case 1
    then show ?thesis
      using assms(2) rng
      by (simp add: covers_primary_def rtw_phl_get_center_ch_def rtw_phl_bch2freq_def)
  next
    case 2
    then have "uint (chan d) \<in> {36..173}" using ch5_range by blast
    then show ?thesis
      using 2 assms(2) uint_u8_add [of "chan d"]
      by (simp add: covers_primary_def rtw_phl_get_center_ch_def rtw_phl_bch2freq_def)
  next
    case 3
    then have "uint (chan d) \<in> {40..177}" using ch5_range by blast
    then show ?thesis
      using 3 assms(2) uint_u8_sub [of "chan d"]
      by (simp add: covers_primary_def rtw_phl_get_center_ch_def rtw_phl_bch2freq_def)
  next
    case 4
    then show ?thesis
      using assms(2) rng center_5g_80 [OF ch]
      by (simp add: covers_primary_def rtw_phl_bch2freq_def Let_def abs_le_iff)
  next
    case 5
    then show ?thesis
      using assms(2) rng center_5g_160 [OF ch]
      by (simp add: covers_primary_def rtw_phl_bch2freq_def Let_def abs_le_iff)
  qed
qed

lemma block_pos:
  assumes "(u::int) mod 4 = 1" "4 dvd st" "e = st - 3" "0 < st"
  shows "1 + u div st * st \<le> u" and "u \<le> e + u div st * st"
proof -
  let ?m = "u mod st"
  have "?m mod 4 = 1" using assms by (simp add: mod_mod_cancel)
  moreover have "0 \<le> ?m" "?m < st" using assms by simp_all
  moreover obtain k where "st = 4 * k" using assms(2) by (auto simp: dvd_def)
  moreover have "1 \<le> m \<and> m \<le> 4 * k - 3" if "m mod 4 = 1" "0 \<le> m" "m < 4 * k" for m k :: int
    using that by presburger
  ultimately have "1 \<le> ?m" "?m \<le> e" using assms(3) by blast+
  moreover have "u = u div st * st + ?m" by simp
  ultimately show "1 + u div st * st \<le> u" and "u \<le> e + u div st * st" by linarith+
qed

lemma covers_6g:
  assumes "chan_plan d" "band d = BAND_ON_6G"
  shows "covers_primary d"
proof -
  let ?u = "uint (chan d)"
  have u0: "?u mod 4 = 1" "?u \<le> 233" "0 \<le> ?u"
    using assms by (auto simp: chan_plan_tables Let_def uint_u8_mod4 u8_le_iff)
  then have "1 \<le> ?u" by presburger
  note u = u0 this
  have c160: "uint (center_6g_loop 1 29 15 32 8 (chan d)) = 15 + (?u div 32) * 32"
    using block_pos [OF u0(1), of 32 29] u by (intro center_6g_loop_block) simp_all
  have c80: "uint (center_6g_loop 1 13 7 16 16 (chan d)) = 7 + (?u div 16) * 16"
    using block_pos [OF u0(1), of 16 13] u by (intro center_6g_loop_block) simp_all
  have up: "uint (chan d + 2) = ?u + 2"
    using u by (intro uint_u8_add) linarith
  have lo: "3 \<le> ?u \<and> uint (chan d - 2) = ?u - 2" if "?u mod 8 \<noteq> 1"
  proof -
    have "3 \<le> ?u" using u that by presburger
    then show ?thesis by (simp add: uint_u8_sub)
  qed
  consider "bw d = CHANNEL_WIDTH_20"
    | "bw d = CHANNEL_WIDTH_40" "?u mod 8 = 1" "offset d = CHAN_OFFSET_UPPER"
    | "bw d = CHANNEL_WIDTH_40" "?u mod 8 \<noteq> 1" "offset d = CHAN_OFFSET_LOWER"
    | "bw d = CHANNEL_WIDTH_80" | "bw d = CHANNEL_WIDTH_160"
    using assms by (auto simp: chan_plan_tables Let_def uint_u8_mod8 split: if_splits)
  then show ?thesis
    using assms(2) u up lo c80 c160 block_pos [OF u0(1), of 32 29] block_pos [OF u0(1), of 16 13]
    by cases (simp_all add: covers_primary_def rtw_phl_get_center_ch_def rtw_phl_bch2freq_def)
qed

lemma chan_plan_covers: "chan_plan d \<Longrightarrow> covers_primary d"
  by (cases "band d") (auto intro: covers_24g covers_5g covers_6g simp: chan_plan_tables Let_def)

text \<open>
  C31. For every channel of the plan the frequency range is computed, is exactly as wide as the
  channel, and contains the 20 MHz primary channel.
\<close>

theorem freq_range_of_channel:
  assumes "chan_plan d"
  shows "\<exists>hi lo. rtw_phl_bchbw_to_freq_range (band d) (chan d) (bw d) (offset d) = (True, hi, lo) \<and>
           uint hi - uint lo = width_mhz (bw d) \<and>
           uint lo + 10 \<le> rtw_phl_bch2freq (band d) (uint (chan d)) \<and>
           rtw_phl_bch2freq (band d) (uint (chan d)) + 10 \<le> uint hi"
proof -
  let ?d = "chan_def_zero\<lparr>band := band d, chan := chan d, bw := bw d, offset := offset d\<rparr>"
  let ?c = "rtw_phl_bch2freq (band d) (uint (rtw_phl_get_center_ch d))"
  let ?h = "width_mhz (bw d) div 2"
  have same: "rtw_phl_get_center_ch ?d = rtw_phl_get_center_ch d"
    by (simp add: rtw_phl_get_center_ch_def Let_def cong: if_cong)
  have cov: "2400 \<le> ?c - ?h" "?c - ?h + 10 \<le> rtw_phl_bch2freq (band d) (uint (chan d))"
    "rtw_phl_bch2freq (band d) (uint (chan d)) + 10 \<le> ?c + ?h" "?c + ?h < 10000"
    using chan_plan_covers [OF assms] by (simp_all add: covers_primary_def Let_def)
  have w: "bw d \<in> {CHANNEL_WIDTH_20, CHANNEL_WIDTH_40, CHANNEL_WIDTH_80, CHANNEL_WIDTH_160}"
    using assms by (auto simp: chan_plan_tables Let_def split: band_type.splits)
  have ui: "uint (word_of_int k :: u32) = k" if "0 \<le> k" "k < 20000" for k
    using that by (subst uint_word_of_int_eq) (simp add: take_bit_int_eq_self)
  have h: "0 \<le> ?h" "?h \<le> 80" using w by auto
  have nz: "(word_of_int ?c :: u32) \<noteq> 0"
  proof
    assume "(word_of_int ?c :: u32) = 0"
    then have "?c = 0" using ui [of ?c] cov h by simp
    then show False using cov h by simp
  qed
  have rng: "rtw_phl_bchbw_to_freq_range (band d) (chan d) (bw d) (offset d) =
               (True, word_of_int (?c + ?h), word_of_int (?c - ?h))"
    using w nz unfolding rtw_phl_bchbw_to_freq_range_def same Let_def by auto
  show ?thesis
  proof (intro exI conjI)
    show "rtw_phl_bchbw_to_freq_range (band d) (chan d) (bw d) (offset d) =
            (True, word_of_int (?c + ?h), word_of_int (?c - ?h))" by (rule rng)
    have hi: "uint (word_of_int (?c + ?h) :: u32) = ?c + ?h"
      and lo: "uint (word_of_int (?c - ?h) :: u32) = ?c - ?h"
      using cov h by (auto intro!: ui simp del: of_int_add of_int_diff)
    show "uint (word_of_int (?c + ?h) :: u32) - uint (word_of_int (?c - ?h) :: u32) =
            width_mhz (bw d)"
      unfolding hi lo using w by auto
    show "uint (word_of_int (?c - ?h) :: u32) + 10 \<le> rtw_phl_bch2freq (band d) (uint (chan d))"
      unfolding lo by (rule cov(2))
    show "rtw_phl_bch2freq (band d) (uint (chan d)) + 10 \<le> uint (word_of_int (?c + ?h) :: u32)"
      unfolding hi by (rule cov(3))
  qed
qed

theorem freq_range_of_channel_witness:
  "\<exists>hi lo. rtw_phl_bchbw_to_freq_range BAND_ON_5G 149 CHANNEL_WIDTH_80 CHAN_OFFSET_UPPER = (True, hi, lo) \<and>
     uint hi - uint lo = 80 \<and> uint lo + 10 \<le> 5745 \<and> 5755 \<le> uint hi"
  using freq_range_of_channel
    [of "chan_def_zero\<lparr>band := BAND_ON_5G, chan := 149, bw := CHANNEL_WIDTH_80,
           offset := CHAN_OFFSET_UPPER\<rparr>"]
  by (simp add: chan_plan_tables ch5_upper_def ch5_lower_def rtw_phl_bch2freq_def)

subsection \<open>Offsets and sharing a channel\<close>

text \<open>
  The secondary-channel offset derived from a primary channel of any band gives a 40 MHz
  channel of the plan (channel 14 has none).
\<close>

theorem upt_offset_plan:
  assumes "chan_plan (d\<lparr>bw := CHANNEL_WIDTH_20\<rparr>)" "bw d = CHANNEL_WIDTH_40"
    "band d = BAND_ON_24G \<longrightarrow> chan d \<noteq> 14"
  shows "chan_plan (phl_upt_offset_by_chbw d)"
proof (cases "band d")
  case BAND_ON_24G
  moreover have "chan d \<le> 13" if "chan d \<le> 14" "chan d \<noteq> 14"
    using that by (simp add: u8_le_iff word_uint_eq_iff)
  ultimately show ?thesis
    using assms
    by (auto simp: chan_plan_tables Let_def phl_upt_offset_by_chbw_def phl_upt_offset_by_chbw_24g_def
        u8_le_iff word_less_def)
next
  case BAND_ON_5G
  have disj: "set ch5_upper \<inter> set ch5_lower = {}"
    by (simp add: ch5_upper_def ch5_lower_def)
  have "\<not> chan d < 36" "\<not> 177 < chan d" if "chan d \<in> set (ch5_upper @ ch5_lower)"
    using that ch5_range by (fastforce simp: word_less_def)+
  then show ?thesis
    using assms BAND_ON_5G disj
    by (auto simp: chan_plan_tables Let_def phl_upt_offset_by_chbw_def phl_upt_offset_by_chbw_5g_def)
next
  case BAND_ON_6G
  let ?u = "uint (chan d)"
  have m8: "chan d mod 8 = 1 \<longleftrightarrow> ?u mod 8 = 1" "chan d mod 8 = 5 \<longleftrightarrow> ?u mod 8 = 5"
    by (simp_all add: word_uint_eq_iff uint_mod_distrib)
  have u: "?u mod 4 = 1" "?u \<le> 233"
    using assms BAND_ON_6G by (auto simp: chan_plan_tables Let_def uint_u8_mod4 u8_le_iff)
  moreover have "0 \<le> ?u" by simp
  ultimately have "1 \<le> ?u" "?u mod 8 = 1 \<or> ?u mod 8 = 5" by presburger+
  then show ?thesis
    using assms BAND_ON_6G u
    by (auto simp: chan_plan_tables Let_def phl_upt_offset_by_chbw_def phl_upt_offset_by_chbw_6g_def
        m8 u8_le_iff)
qed (use assms in \<open>simp add: chan_plan_tables\<close>)

theorem upt_offset_plan_witness:
  "chan_plan (phl_upt_offset_by_chbw
     (chan_def_zero\<lparr>band := BAND_ON_6G, chan := 37, bw := CHANNEL_WIDTH_40\<rparr>))"
  using upt_offset_plan [of "chan_def_zero\<lparr>band := BAND_ON_6G, chan := 37, bw := CHANNEL_WIDTH_40\<rparr>"]
  by (simp add: chan_plan_tables)

lemma phl_adjust_new_fields:
  "band (phl_adjust_new n g) = band g" "chan (phl_adjust_new n g) = chan g"
  by (simp_all add: phl_adjust_new_def Let_def phl_upt_offset_by_chbw_def
      phl_upt_offset_by_chbw_24g_def phl_upt_offset_by_chbw_5g_def phl_upt_offset_by_chbw_6g_def)

lemma upt_offset_bw [simp]: "bw (phl_upt_offset_by_chbw n) = bw n"
  by (simp add: phl_upt_offset_by_chbw_def
      phl_upt_offset_by_chbw_24g_def phl_upt_offset_by_chbw_5g_def phl_upt_offset_by_chbw_6g_def)

lemma phl_adjust_new_width:
  assumes "std_width (bw n)"
  shows "std_width (bw (phl_adjust_new n g)) \<and> bw (phl_adjust_new n g) \<le> bw n \<and>
    (bw (phl_adjust_new n g) = CHANNEL_WIDTH_20 \<longleftrightarrow> offset (phl_adjust_new n g) = CHAN_OFFSET_NO_EXT)"
  using assms
  by (auto simp: std_width_def wide_40_160_def phl_adjust_new_def Let_def)

lemma phl_adjust_new_offset:
  assumes "wide_40_160 (bw (phl_adjust_new n g))" "std_width (bw n)" "wide_40_160 (bw g)"
  shows "offset (phl_adjust_new n g) = offset g"
  using assms
  by (auto simp: std_width_def wide_40_160_def phl_adjust_new_def Let_def split: if_splits)

lemma adjust_chandef_False [simp]:
  "phl_adjust_chandef n g False = (phl_adjust_new n g, g)"
  by (simp add: phl_adjust_chandef_def)

text \<open>
  Adjusting a new channel definition to a group puts it on the group's channel, never widens
  it, gives it a secondary channel exactly when it is wider than 20 MHz, and widens the group to the
  larger of the two widths, so that the two can still share the channel.
\<close>

theorem adjust_chandef_shares_channel:
  assumes "std_width (bw n)" "std_width (bw g)" "phl_adjust_chandef n g True = (n', g')"
  shows "band n' = band g \<and> chan n' = chan g \<and> band g' = band g \<and> chan g' = chan g \<and>
    bw g' = max (bw g) (bw n') \<and> bw n' \<le> bw n \<and>
    (bw n' = CHANNEL_WIDTH_20 \<longleftrightarrow> offset n' = CHAN_OFFSET_NO_EXT) \<and>
    phl_is_chbw_grouped g' n'"
proof -
  have n': "n' = phl_adjust_new n g"
    using assms(3) by (auto simp: phl_adjust_chandef_def Let_def split: if_splits)
  have g': "g' = (if bw g < bw n' then g\<lparr>bw := bw n', offset := offset n'\<rparr> else g)"
    using assms(3) n' by (auto simp: phl_adjust_chandef_def Let_def split: if_splits)
  note w = phl_adjust_new_width [OF assms(1), of g, folded n']
  have "wide_40_160 (bw g)" if "\<not> bw g < bw n'" "wide_40_160 (bw n')"
    using that assms(2) by (auto simp: std_width_def wide_40_160_def)
  then have "phl_is_chbw_grouped g' n'"
    using phl_adjust_new_offset [OF _ assms(1), of g, folded n']
    by (auto simp: g' phl_is_chbw_grouped_def phl_adjust_new_fields n')
  then show ?thesis
    using w phl_adjust_new_fields [of n g, folded n'] 
    by (simp add: g' max_def width_code_inject [symmetric])
qed

theorem adjust_chandef_shares_channel_witness:
  "let n = chan_def_zero\<lparr>band := BAND_ON_5G, chan := 36, bw := CHANNEL_WIDTH_80,
             offset := CHAN_OFFSET_UPPER\<rparr>;
       g = chan_def_zero\<lparr>band := BAND_ON_5G, chan := 36, bw := CHANNEL_WIDTH_20\<rparr>
   in bw (snd (phl_adjust_chandef n g True)) = CHANNEL_WIDTH_80"
  using adjust_chandef_shares_channel
    [of "chan_def_zero\<lparr>band := BAND_ON_5G, chan := 36, bw := CHANNEL_WIDTH_80,
             offset := CHAN_OFFSET_UPPER\<rparr>"
        "chan_def_zero\<lparr>band := BAND_ON_5G, chan := 36, bw := CHANNEL_WIDTH_20\<rparr>", OF _ _ surjective_pairing]
  by (simp add: std_width_def wide_40_160_def phl_adjust_chandef_def phl_adjust_new_def
      phl_upt_offset_by_chbw_def phl_upt_offset_by_chbw_5g_def ch5_upper_def chan_def_zero_def max_def)

subsection \<open>Operating classes\<close>

text \<open>What the converse returns on the class of a planned 2.4 or 5 GHz channel.\<close>

definition class_gives :: "rtw_chan_def \<Rightarrow> rtw_chan_def \<Rightarrow> bool" where
  "class_gives d d0 \<longleftrightarrow>
     (\<exists>off. rtw_phl_get_chandef_from_operating_class (chan d) (rtw_phl_get_operating_class d) d0 =
              (True, set_class_chandef d0 (chan d) (bw d) off (band d)) \<and>
            (bw d = CHANNEL_WIDTH_40 \<longrightarrow> off = offset d))"

lemma class_24g:
  assumes "chan_plan d" "band d = BAND_ON_24G"
  shows "class_gives d d0"
proof -
  let ?oc = "rtw_phl_get_operating_class d"
  consider "?oc \<in> {81, 82}" "bw d = CHANNEL_WIDTH_20"
    | "?oc = 83" "bw d = CHANNEL_WIDTH_40" "offset d = CHAN_OFFSET_UPPER"
    | "?oc = 84" "bw d = CHANNEL_WIDTH_40" "offset d = CHAN_OFFSET_LOWER"
    using assms
    by (auto simp: chan_plan_tables rtw_phl_get_operating_class_def Let_def u8_le_iff word_uint_eq_iff)
  then show ?thesis
    using assms(2)
    by cases (auto simp: class_gives_def rtw_phl_get_chandef_from_operating_class_def)
qed

lemma class_5g:
  assumes "chan_plan d" "band d = BAND_ON_5G"
  shows "class_gives d d0"
proof -
  let ?oc = "rtw_phl_get_operating_class d"
  have ch: "chan d \<in> set (ch5_upper @ ch5_lower)"
    using assms by (simp add: chan_plan_tables Let_def)
  have "set ch5_upper \<inter> set ch5_lower = {}"
    by (simp add: ch5_upper_def ch5_lower_def)
  then consider "bw d = CHANNEL_WIDTH_20"
    | "bw d = CHANNEL_WIDTH_40" "chan d \<in> set ch5_upper" "offset d = CHAN_OFFSET_UPPER"
    | "bw d = CHANNEL_WIDTH_40" "chan d \<in> set ch5_lower" "offset d = CHAN_OFFSET_LOWER"
    | "bw d = CHANNEL_WIDTH_80" | "bw d = CHANNEL_WIDTH_160"
    using assms by (auto simp: chan_plan_tables Let_def split: if_splits)
  then have "?oc \<in> {115, 118, 121, 125} \<and> bw d = CHANNEL_WIDTH_20 \<or>
      ?oc \<in> {116, 119, 122, 126} \<and> bw d = CHANNEL_WIDTH_40 \<and> offset d = CHAN_OFFSET_UPPER \<or>
      ?oc \<in> {117, 120, 123, 127} \<and> bw d = CHANNEL_WIDTH_40 \<and> offset d = CHAN_OFFSET_LOWER \<or>
      ?oc = 128 \<and> bw d = CHANNEL_WIDTH_80 \<or> ?oc = 129 \<and> bw d = CHANNEL_WIDTH_160"
    using assms(2)
  proof cases
    case 1
    then show ?thesis
      using bspec [OF ch5_blocks ch] assms(2)
      by (auto simp: rtw_phl_get_operating_class_def u8_le_iff word_uint_eq_iff)
  qed (auto simp: rtw_phl_get_operating_class_def ch5_upper_def ch5_lower_def Let_def)
  then show ?thesis
    using assms(2)
    by (elim disjE conjE)
      (auto simp: class_gives_def rtw_phl_get_chandef_from_operating_class_def)
qed

text \<open>
  C32. The operating class of a planned channel, given back with the primary channel, yields the
  band, channel and width it was computed from, and on 2.4 and 5 GHz the secondary channel of a
  40 MHz channel and the centre channel too.
\<close>

theorem class_round_trip:
  assumes "chan_plan d"
  shows "\<exists>d'. rtw_phl_get_chandef_from_operating_class (chan d) (rtw_phl_get_operating_class d) d0 =
                (True, d') \<and>
    band d' = band d \<and> chan d' = chan d \<and> bw d' = bw d \<and>
    (band d \<noteq> BAND_ON_6G \<longrightarrow>
       (bw d = CHANNEL_WIDTH_40 \<longrightarrow> offset d' = offset d) \<and>
       center_ch d' = rtw_phl_get_center_ch d)"
proof (cases "band d = BAND_ON_6G")
  case True
  then show ?thesis
    using assms
    by (auto simp: chan_plan_tables rtw_phl_get_operating_class_def
        rtw_phl_get_chandef_from_operating_class_def set_class_chandef_6g_def Let_def)
next
  case False
  then have "class_gives d d0"
    using assms class_24g class_5g by (cases "band d") (auto simp: chan_plan_tables)
  then obtain off where
    "rtw_phl_get_chandef_from_operating_class (chan d) (rtw_phl_get_operating_class d) d0 =
       (True, set_class_chandef d0 (chan d) (bw d) off (band d))"
    and "bw d = CHANNEL_WIDTH_40 \<longrightarrow> off = offset d"
    unfolding class_gives_def by blast
  then show ?thesis
    by (auto simp: set_class_chandef_def rtw_phl_get_center_ch_def Let_def cong: if_cong)
qed

theorem class_round_trip_witness:
  "\<exists>d'. rtw_phl_get_chandef_from_operating_class 157 126 chan_def_zero = (True, d') \<and>
     offset d' = CHAN_OFFSET_UPPER \<and> center_ch d' = 159"
  using class_round_trip
    [of "chan_def_zero\<lparr>band := BAND_ON_5G, chan := 157, bw := CHANNEL_WIDTH_40,
           offset := CHAN_OFFSET_UPPER\<rparr>" chan_def_zero]
  by (auto simp: chan_plan_tables ch5_upper_def rtw_phl_get_operating_class_def
      rtw_phl_get_center_ch_def)

end
