(* ===== verification/Phl_Chanctx.thy ===== *)
theory Phl_Chanctx
  imports Phl_Chan Phl_Queue "HOL-Library.Monad_Syntax"
begin

section \<open>Channel contexts\<close>

text \<open>
  The channel contexts of \<^verbatim>\<open>phl_chan.c\<close> and the parts of \<^verbatim>\<open>phl_mr.c\<close> and \<^verbatim>\<open>phl_mr.h\<close> they work with.
  A band controller keeps at most two contexts in a queue; a context is an allocated object with a
  channel definition and the bit map of the roles that use it, and every role link points to the
  context it uses. The controller also counts its contexts per sub-band and keeps the operating mode.

  The state holds the controllers, the roles with their links, the store of allocated contexts and
  the two \<^verbatim>\<open>static\<close> variables of the band-map functions. A role link is named by the index of its
  role and its own index. What \<^verbatim>\<open>_os_kmem_alloc\<close> returns is an argument. An operation returns \<open>None\<close>
  where the code would follow a pointer that is null or no longer allocated, or would take a
  spinlock it already holds; the locks are otherwise not part of the state, since every section
  they guard is one step here. \<^verbatim>\<open>CONFIG_DBCC_SUPPORT\<close> is off.
\<close>

subsection \<open>State\<close>

datatype phl_band_idx = HW_BAND_0 | HW_BAND_1

datatype mr_op_mode = MR_OP_NONE | MR_OP_SWR | MR_OP_SCC | MR_OP_MCC | MR_OP_DBCC | MR_OP_MAX

datatype cc_band_type =
    CC_BAND_24G
  | CC_BAND_5G_B1
  | CC_BAND_5G_B2
  | CC_BAND_5G_B3
  | CC_BAND_5G_B4
  | CC_BAND_6G_U5
  | CC_BAND_6G_U6
  | CC_BAND_6G_U7
  | CC_BAND_6G_U8

fun cc_band_code :: "cc_band_type \<Rightarrow> nat" where
  "cc_band_code CC_BAND_24G = 0"
| "cc_band_code CC_BAND_5G_B1 = 1"
| "cc_band_code CC_BAND_5G_B2 = 2"
| "cc_band_code CC_BAND_5G_B3 = 3"
| "cc_band_code CC_BAND_5G_B4 = 4"
| "cc_band_code CC_BAND_6G_U5 = 5"
| "cc_band_code CC_BAND_6G_U6 = 6"
| "cc_band_code CC_BAND_6G_U7 = 7"
| "cc_band_code CC_BAND_6G_U8 = 8"

record rtw_chan_ctx =
  chan_def :: rtw_chan_def
  ctx_role_map :: u8
  dfs_enabled :: bool

text \<open>The nine counters \<^verbatim>\<open>ccb_*_rc\<close> of the controller are one function of the sub-band.\<close>

record hw_band_ctl_t =
  band_role_map :: u8
  op_mode :: mr_op_mode
  chctx_band_map :: u16
  ccb_rc :: "cc_band_type \<Rightarrow> int"
  chan_ctx_queue :: "addr phl_queue"

record rtw_wifi_role_link_t =
  hw_band :: phl_band_idx
  chanctx :: "addr option"
  chandef :: rtw_chan_def

record rtw_wifi_role_t =
  rlink_num :: nat
  rlink :: "nat \<Rightarrow> rtw_wifi_role_link_t"

record mr_st =
  max_wifi_role_number :: nat
  mcc_sup :: bool
  is_db :: bool
  band_ctrl :: "phl_band_idx \<Rightarrow> hw_band_ctl_t"
  wifi_roles :: "nat \<Rightarrow> rtw_wifi_role_t"
  ctxs :: "addr \<Rightarrow> rtw_chan_ctx option"
  set_psts :: rtw_phl_status
  clr_psts :: rtw_phl_status

record rtw_mr_chctx_info =
  cc_is_db :: bool
  cur_band_idx :: phl_band_idx
  cc_role_num :: nat
  cc_chctx_num :: int
  cc_band_map :: u16
  sugg_opmode :: mr_op_mode

abbreviation get_rlink :: "mr_st \<Rightarrow> nat \<times> nat \<Rightarrow> rtw_wifi_role_link_t" where
  "get_rlink s rl \<equiv> rlink (wifi_roles s (fst rl)) (snd rl)"

definition upd_band :: "phl_band_idx \<Rightarrow> (hw_band_ctl_t \<Rightarrow> hw_band_ctl_t) \<Rightarrow> mr_st \<Rightarrow> mr_st" where
  "upd_band b f s = s\<lparr>band_ctrl := (band_ctrl s)(b := f (band_ctrl s b))\<rparr>"

definition upd_rlink ::
  "nat \<times> nat \<Rightarrow> (rtw_wifi_role_link_t \<Rightarrow> rtw_wifi_role_link_t) \<Rightarrow> mr_st \<Rightarrow> mr_st" where
  "upd_rlink rl f s =
     s\<lparr>wifi_roles := (wifi_roles s)
         (fst rl := (wifi_roles s (fst rl))
            \<lparr>rlink := (rlink (wifi_roles s (fst rl)))(snd rl := f (get_rlink s rl))\<rparr>)\<rparr>"

definition upd_ctx :: "addr \<Rightarrow> rtw_chan_ctx \<Rightarrow> mr_st \<Rightarrow> mr_st" where
  "upd_ctx a c s = s\<lparr>ctxs := (ctxs s)(a := Some c)\<rparr>"

definition free_ctx :: "addr \<Rightarrow> mr_st \<Rightarrow> mr_st" where
  "free_ctx a s = s\<lparr>ctxs := (ctxs s)(a := None)\<rparr>"

definition set_op_mode :: "phl_band_idx \<Rightarrow> mr_op_mode \<Rightarrow> mr_st \<Rightarrow> mr_st" where
  "set_op_mode b m = upd_band b (\<lambda>c. c\<lparr>op_mode := m\<rparr>)"

definition BIT8 :: "nat \<Rightarrow> u8" where "BIT8 n = push_bit n 1"

definition BIT16 :: "nat \<Rightarrow> u16" where "BIT16 n = push_bit n 1"

subsection \<open>Counters and the sub-band map\<close>

definition phl_mr_get_chanctx_num :: "mr_st \<Rightarrow> phl_band_idx \<Rightarrow> int" where
  "phl_mr_get_chanctx_num s b = cnt (chan_ctx_queue (band_ctrl s b))"

definition phl_mr_get_role_num :: "mr_st \<Rightarrow> phl_band_idx \<Rightarrow> nat" where
  "phl_mr_get_role_num s b =
     length (filter (\<lambda>i. band_role_map (band_ctrl s b) AND BIT8 i \<noteq> 0)
               [0..<max_wifi_role_number s])"

definition ccb_inc :: "cc_band_type \<Rightarrow> hw_band_ctl_t \<Rightarrow> hw_band_ctl_t" where
  "ccb_inc cb c =
     c\<lparr>ccb_rc := (ccb_rc c)(cb := ccb_rc c cb + 1),
       chctx_band_map := chctx_band_map c OR BIT16 (cc_band_code cb)\<rparr>"

definition ccb_dec :: "cc_band_type \<Rightarrow> hw_band_ctl_t \<Rightarrow> hw_band_ctl_t" where
  "ccb_dec cb c =
     (let c1 = c\<lparr>ccb_rc := (ccb_rc c)(cb := ccb_rc c cb - 1)\<rparr>
      in if ccb_rc c1 cb = 0
         then c1\<lparr>chctx_band_map := chctx_band_map c1 AND NOT (BIT16 (cc_band_code cb))\<rparr>
         else c1)"

text \<open>
  Both functions keep their status in a \<^verbatim>\<open>static\<close> variable that is set to failure on an unknown
  sub-band and never set back; the first argument is its value, the result carries the new one,
  which is also what the call returns.
\<close>

definition phl_cc_band_map_set ::
  "rtw_phl_status \<Rightarrow> rtw_chan_def \<Rightarrow> hw_band_ctl_t \<Rightarrow> rtw_phl_status \<times> hw_band_ctl_t" where
  "phl_cc_band_map_set psts d c =
     (if band d = BAND_ON_24G then (psts, ccb_inc CC_BAND_24G c)
      else if band d = BAND_ON_5G
      then if CH_5GHZ_BAND1 (chan d) then (psts, ccb_inc CC_BAND_5G_B1 c)
           else if CH_5GHZ_BAND2 (chan d) then (psts, ccb_inc CC_BAND_5G_B2 c)
           else if CH_5GHZ_BAND3 (chan d) then (psts, ccb_inc CC_BAND_5G_B3 c)
           else if CH_5GHZ_BAND4 (chan d) then (psts, ccb_inc CC_BAND_5G_B4 c)
           else (RTW_PHL_STATUS_FAILURE, c)
      else if band d = BAND_ON_6G
      then if CH_6GHZ_UNII5 (chan d) then (psts, ccb_inc CC_BAND_6G_U5 c)
           else if CH_6GHZ_UNII6 (chan d) then (psts, ccb_inc CC_BAND_6G_U6 c)
           else if CH_6GHZ_UNII7 (chan d) then (psts, ccb_inc CC_BAND_6G_U7 c)
           else if CH_6GHZ_UNII8 (chan d) then (psts, ccb_inc CC_BAND_6G_U8 c)
           else (RTW_PHL_STATUS_FAILURE, c)
      else (psts, c))"

definition phl_cc_band_map_clr ::
  "rtw_phl_status \<Rightarrow> rtw_chan_def \<Rightarrow> hw_band_ctl_t \<Rightarrow> rtw_phl_status \<times> hw_band_ctl_t" where
  "phl_cc_band_map_clr psts d c =
     (if band d = BAND_ON_24G then (psts, ccb_dec CC_BAND_24G c)
      else if band d = BAND_ON_5G
      then if CH_5GHZ_BAND1 (chan d) then (psts, ccb_dec CC_BAND_5G_B1 c)
           else if CH_5GHZ_BAND2 (chan d) then (psts, ccb_dec CC_BAND_5G_B2 c)
           else if CH_5GHZ_BAND3 (chan d) then (psts, ccb_dec CC_BAND_5G_B3 c)
           else if CH_5GHZ_BAND4 (chan d) then (psts, ccb_dec CC_BAND_5G_B4 c)
           else (RTW_PHL_STATUS_FAILURE, c)
      else if band d = BAND_ON_6G
      then if CH_6GHZ_UNII5 (chan d) then (psts, ccb_dec CC_BAND_6G_U5 c)
           else if CH_6GHZ_UNII6 (chan d) then (psts, ccb_dec CC_BAND_6G_U6 c)
           else if CH_6GHZ_UNII7 (chan d) then (psts, ccb_dec CC_BAND_6G_U7 c)
           else if CH_6GHZ_UNII8 (chan d) then (psts, ccb_dec CC_BAND_6G_U8 c)
           else (RTW_PHL_STATUS_FAILURE, c)
      else (psts, c))"

subsection \<open>The queue of contexts\<close>

definition MAX_CHANCTX_QUEUE_NUM :: int where "MAX_CHANCTX_QUEUE_NUM = 2"

text \<open>\<^verbatim>\<open>_phl_chanctx_add\<close>, with and without the lock: the context is linked before the checks.\<close>

definition phl_chanctx_link ::
  "mr_st \<Rightarrow> phl_band_idx \<Rightarrow> addr option \<Rightarrow> (rtw_phl_status \<times> mr_st) option" where
  "phl_chanctx_link s b ao =
     (case ao of
        None \<Rightarrow> Some (RTW_PHL_STATUS_FAILURE, s)
      | Some a \<Rightarrow> do {
          c \<leftarrow> ctxs s a;
          let s1 = upd_band b (\<lambda>h. h\<lparr>chan_ctx_queue := pq_push (chan_ctx_queue h) a Tail\<rparr>) s;
          if cnt (chan_ctx_queue (band_ctrl s1 b)) > MAX_CHANCTX_QUEUE_NUM
          then Some (RTW_PHL_STATUS_FAILURE, s1)
          else do {
            let (psts, h) = phl_cc_band_map_set (set_psts s1) (chan_def c) (band_ctrl s1 b);
            Some (psts, upd_band b (\<lambda>_. h) s1\<lparr>set_psts := psts\<rparr>)
          }
        })"

text \<open>\<^verbatim>\<open>_phl_chanctx_del\<close>.\<close>

definition phl_chanctx_unlink ::
  "mr_st \<Rightarrow> phl_band_idx \<Rightarrow> addr option \<Rightarrow> (rtw_phl_status \<times> mr_st) option" where
  "phl_chanctx_unlink s b ao =
     (case ao of
        None \<Rightarrow> Some (RTW_PHL_STATUS_FAILURE, s)
      | Some a \<Rightarrow> do {
          c \<leftarrow> ctxs s a;
          let (psts, h) = phl_cc_band_map_clr (clr_psts s) (chan_def c) (band_ctrl s b);
          let s1 = upd_band b (\<lambda>_. h) s\<lparr>clr_psts := psts\<rparr>;
          if cnt (chan_ctx_queue h) \<noteq> 0
          then do {
            let q = chan_ctx_queue h;
            let s2 = upd_band b (\<lambda>h. h\<lparr>chan_ctx_queue :=
                       q\<lparr>queue := remove1 a (queue q), cnt := cnt q - 1\<rparr>\<rparr>) s1;
            if cnt q - 1 < 0 then Some (psts, s2) else Some (RTW_PHL_STATUS_SUCCESS, s2)
          }
          else Some (RTW_PHL_STATUS_SUCCESS, s1)
        })"

definition phl_chanctx_rmap_set ::
  "mr_st \<Rightarrow> nat \<Rightarrow> nat \<times> nat \<Rightarrow> addr option \<Rightarrow> (rtw_phl_status \<times> mr_st) option" where
  "phl_chanctx_rmap_set s ridx rl ao =
     (case ao of
        None \<Rightarrow> Some (RTW_PHL_STATUS_FAILURE, s)
      | Some a \<Rightarrow> do {
          c \<leftarrow> ctxs s a;
          if ctx_role_map c AND BIT8 ridx \<noteq> 0 then Some (RTW_PHL_STATUS_FAILURE, s)
          else Some (RTW_PHL_STATUS_SUCCESS,
                 upd_rlink rl (\<lambda>k. k\<lparr>chanctx := Some a\<rparr>)
                   (upd_ctx a (c\<lparr>ctx_role_map := ctx_role_map c OR BIT8 ridx\<rparr>) s))
        })"

definition phl_chanctx_rmap_clr ::
  "mr_st \<Rightarrow> nat \<Rightarrow> nat \<times> nat \<Rightarrow> addr option \<Rightarrow> (rtw_phl_status \<times> mr_st) option" where
  "phl_chanctx_rmap_clr s ridx rl ao =
     (case ao of
        None \<Rightarrow> Some (RTW_PHL_STATUS_FAILURE, s)
      | Some a \<Rightarrow> do {
          let s1 = upd_rlink rl (\<lambda>k. k\<lparr>chanctx := None\<rparr>) s;
          c \<leftarrow> ctxs s1 a;
          Some (RTW_PHL_STATUS_SUCCESS,
            upd_ctx a (c\<lparr>ctx_role_map := ctx_role_map c AND NOT (BIT8 ridx)\<rparr>) s1)
        })"

definition phl_chanctx_get_rnum :: "mr_st \<Rightarrow> addr \<Rightarrow> nat option" where
  "phl_chanctx_get_rnum s a = do {
     c \<leftarrow> ctxs s a;
     Some (length (filter (\<lambda>i. ctx_role_map c AND BIT8 i \<noteq> 0) [0..<max_wifi_role_number s]))
   }"

text \<open>\<open>al\<close> is what the allocation of the new context returns; its memory is zeroed.\<close>

definition phl_chanctx_create ::
  "mr_st \<Rightarrow> addr option \<Rightarrow> nat \<Rightarrow> nat \<times> nat \<Rightarrow> rtw_chan_def \<Rightarrow> (rtw_phl_status \<times> mr_st) option" where
  "phl_chanctx_create s al ridx rl new_chdef =
     (case al of
        None \<Rightarrow> Some (RTW_PHL_STATUS_FAILURE, s)
      | Some a \<Rightarrow> do {
          let b = hw_band (get_rlink s rl);
          let s1 = upd_ctx a \<lparr>chan_def = new_chdef, ctx_role_map = 0, dfs_enabled = False\<rparr> s;
          (phl_sts, s2) \<leftarrow> phl_chanctx_link s1 b (Some a);
          if phl_sts = RTW_PHL_STATUS_SUCCESS
          then do {
            (_, s3) \<leftarrow> phl_chanctx_rmap_set s2 ridx rl (Some a);
            Some (phl_sts, s3)
          }
          else Some (phl_sts, s2)
        })"

text \<open>The loop of \<^verbatim>\<open>phl_chanctx_free\<close> takes the first context off the queue and frees it.\<close>

fun chanctx_free_loop :: "phl_band_idx \<Rightarrow> addr list \<Rightarrow> mr_st \<Rightarrow> mr_st" where
  "chanctx_free_loop b [] s = s"
| "chanctx_free_loop b (a # q) s =
     chanctx_free_loop b q (free_ctx a
       (upd_band b (\<lambda>h. h\<lparr>chan_ctx_queue :=
          \<lparr>queue = q, cnt = cnt (chan_ctx_queue h) - 1\<rparr>\<rparr>) s))"

definition phl_chanctx_free :: "mr_st \<Rightarrow> phl_band_idx \<Rightarrow> rtw_phl_status \<times> mr_st" where
  "phl_chanctx_free s b =
     (if phl_mr_get_chanctx_num s b = 0 then (RTW_PHL_STATUS_SUCCESS, s)
      else (RTW_PHL_STATUS_SUCCESS,
            chanctx_free_loop b (queue (chan_ctx_queue (band_ctrl s b))) s))"

fun rolemap_loop :: "mr_st \<Rightarrow> addr list \<Rightarrow> u8 \<Rightarrow> u8 option" where
  "rolemap_loop s [] m = Some m"
| "rolemap_loop s (a # q) m = do { c \<leftarrow> ctxs s a; rolemap_loop s q (m OR ctx_role_map c) }"

definition phl_get_chanctx_rolemap :: "mr_st \<Rightarrow> phl_band_idx \<Rightarrow> u8 option" where
  "phl_get_chanctx_rolemap s b = rolemap_loop s (queue (chan_ctx_queue (band_ctrl s b))) 0"

subsection \<open>Checking a channel\<close>

text \<open>
  The search the operations share: the first context the new channel can be grouped with, and the
  last context the loop has looked at (\<^verbatim>\<open>chandef\<close> points into it after the loop).
\<close>

fun grouped_loop ::
  "mr_st \<Rightarrow> rtw_chan_def \<Rightarrow> addr list \<Rightarrow> addr option \<Rightarrow> (addr option \<times> addr option) option" where
  "grouped_loop s new_chdef [] lst = Some (None, lst)"
| "grouped_loop s new_chdef (a # q) lst = do {
     c \<leftarrow> ctxs s a;
     if phl_is_chbw_grouped (chan_def c) new_chdef then Some (Some a, Some a)
     else grouped_loop s new_chdef q (Some a)
   }"

definition mk_cc_info ::
  "mr_st \<Rightarrow> phl_band_idx \<Rightarrow> nat \<Rightarrow> int \<Rightarrow> mr_op_mode \<Rightarrow> rtw_mr_chctx_info" where
  "mk_cc_info s b role_num chctx_num m =
     \<lparr>cc_is_db = is_db s, cur_band_idx = b, cc_role_num = role_num,
      cc_chctx_num = chctx_num mod 256,
      cc_band_map = chctx_band_map (band_ctrl s b), sugg_opmode = m\<rparr>"

text \<open>
  With one context on another channel the code asks \<^verbatim>\<open>is_ch_in_same_band\<close>, which reads the last
  context; without \<^verbatim>\<open>CONFIG_DBCC_SUPPORT\<close> both answers go on at \<^verbatim>\<open>_mcc_hdl\<close>.
\<close>

definition rtw_phl_chanctx_chk_by_band ::
  "mr_st \<Rightarrow> phl_band_idx \<Rightarrow> rtw_chan_def option \<Rightarrow> (bool \<times> rtw_mr_chctx_info) option" where
  "rtw_phl_chanctx_chk_by_band s b new_chdef =
     (let rn = phl_mr_get_role_num s b; n = phl_mr_get_chanctx_num s b;
          q = queue (chan_ctx_queue (band_ctrl s b))
      in case new_chdef of
           Some d \<Rightarrow>
             if chan d = 0 then Some (False, mk_cc_info s b 0 0 MR_OP_NONE)
             else if n = 0 then Some (True, mk_cc_info s b rn n MR_OP_SWR)
             else do {
               (found, lst) \<leftarrow> grouped_loop s d q None;
               if found \<noteq> None
               then Some (True, mk_cc_info s b rn n
                      (if n = 1 then MR_OP_SCC
                       else if n = 2 then if mcc_sup s then MR_OP_MCC else MR_OP_NONE
                       else MR_OP_NONE))
               else if n \<ge> 2 then Some (False, mk_cc_info s b rn n MR_OP_NONE)
               else do {
                 a \<leftarrow> lst;
                 c \<leftarrow> ctxs s a;
                 if mcc_sup s then Some (True, mk_cc_info s b rn n MR_OP_MCC)
                 else Some (False, mk_cc_info s b rn n MR_OP_NONE)
               }
             }
         | None \<Rightarrow>
             Some (False, mk_cc_info s b rn n
               (if \<not> is_db s then op_mode (band_ctrl s b) else MR_OP_NONE)))"

definition rtw_phl_chanctx_chk ::
  "mr_st \<Rightarrow> nat \<times> nat \<Rightarrow> rtw_chan_def option \<Rightarrow> (bool \<times> rtw_mr_chctx_info) option" where
  "rtw_phl_chanctx_chk s rl new_chdef =
     rtw_phl_chanctx_chk_by_band s (hw_band (get_rlink s rl)) new_chdef"

definition rtw_phl_adjust_chandef ::
  "mr_st \<Rightarrow> nat \<times> nat \<Rightarrow> rtw_chan_def \<Rightarrow> (bool \<times> rtw_chan_def) option" where
  "rtw_phl_adjust_chandef s rl new_chdef = do {
     let b = hw_band (get_rlink s rl);
     (found, _) \<leftarrow> grouped_loop s new_chdef (queue (chan_ctx_queue (band_ctrl s b))) None;
     case found of
       None \<Rightarrow> Some (False, new_chdef)
     | Some a \<Rightarrow> do {
         c \<leftarrow> ctxs s a;
         Some (True, fst (phl_adjust_chandef new_chdef (chan_def c) False))
       }
   }"

subsection \<open>Adding a role to a channel\<close>

text \<open>The branch of \<^verbatim>\<open>phl_chanctx_add\<close> in which the new channel joins an existing context.\<close>

definition chanctx_join ::
  "mr_st \<Rightarrow> phl_band_idx \<Rightarrow> nat \<Rightarrow> nat \<times> nat \<Rightarrow> int \<Rightarrow> rtw_chan_def \<Rightarrow> addr \<Rightarrow>
   (bool \<times> rtw_chan_def \<times> mr_op_mode \<times> mr_st) option" where
  "chanctx_join s b ridx rl n new_chdef a = do {
     c \<leftarrow> ctxs s a;
     let (_, g) = phl_adjust_chandef new_chdef (chan_def c) True;
     let s1 = upd_ctx a (c\<lparr>chan_def := g\<rparr>) s;
     (phl_sts, s2) \<leftarrow> phl_chanctx_rmap_set s1 ridx rl (Some a);
     if phl_sts \<noteq> RTW_PHL_STATUS_SUCCESS then Some (False, g, MR_OP_MAX, s2)
     else if n = 1 then Some (True, g, MR_OP_SCC, set_op_mode b MR_OP_SCC s2)
     else if n = 2 \<and> mcc_sup s then Some (True, g, MR_OP_MCC, set_op_mode b MR_OP_MCC s2)
     else Some (True, g, MR_OP_NONE, s2)
   }"

text \<open>The two branches that create a context, for the first channel and for a second one (MCC).\<close>

definition chanctx_new ::
  "mr_st \<Rightarrow> phl_band_idx \<Rightarrow> addr option \<Rightarrow> nat \<Rightarrow> nat \<times> nat \<Rightarrow> mr_op_mode \<Rightarrow> rtw_chan_def \<Rightarrow>
   (bool \<times> rtw_chan_def \<times> mr_op_mode \<times> mr_st) option" where
  "chanctx_new s b al ridx rl m new_chdef = do {
     (phl_sts, s1) \<leftarrow> phl_chanctx_create s al ridx rl new_chdef;
     if phl_sts = RTW_PHL_STATUS_SUCCESS then Some (True, new_chdef, m, set_op_mode b m s1)
     else Some (False, new_chdef, MR_OP_NONE, s1)
   }"

text \<open>The choice between the branches; \<open>n\<close> is the number of contexts.\<close>

definition chanctx_place ::
  "mr_st \<Rightarrow> phl_band_idx \<Rightarrow> addr option \<Rightarrow> nat \<Rightarrow> nat \<times> nat \<Rightarrow> int \<Rightarrow> rtw_chan_def \<Rightarrow>
   (bool \<times> rtw_chan_def \<times> mr_op_mode \<times> mr_st) option" where
  "chanctx_place s b al ridx rl n new_chdef =
     (if n = 0 then chanctx_new s b al ridx rl MR_OP_SWR new_chdef
      else do {
        (found, lst) \<leftarrow> grouped_loop s new_chdef (queue (chan_ctx_queue (band_ctrl s b))) None;
        case found of
          Some a \<Rightarrow> chanctx_join s b ridx rl n new_chdef a
        | None \<Rightarrow>
            if n \<ge> 2 then Some (False, new_chdef, MR_OP_NONE, s)
            else do {
              a \<leftarrow> lst;
              c \<leftarrow> ctxs s a;
              if mcc_sup s then chanctx_new s b al ridx rl MR_OP_MCC new_chdef
              else Some (False, new_chdef, MR_OP_NONE, s)
            }
      })"

text \<open>
  The result is the returned flag, the channel definition the caller gets back, the information
  for the caller and the new state.
\<close>

definition phl_chanctx_add ::
  "mr_st \<Rightarrow> addr option \<Rightarrow> nat option \<Rightarrow> nat \<times> nat \<Rightarrow> rtw_chan_def \<Rightarrow>
   (bool \<times> rtw_chan_def \<times> rtw_mr_chctx_info \<times> mr_st) option" where
  "phl_chanctx_add s al wifi_role rl new_chdef =
     (let b = hw_band (get_rlink s rl)
      in case wifi_role of
           None \<Rightarrow> Some (False, new_chdef, mk_cc_info s b 0 0 MR_OP_NONE, s)
         | Some ridx \<Rightarrow> do {
             let s1 = set_op_mode b MR_OP_NONE s;
             let rn = phl_mr_get_role_num s1 b;
             let n = phl_mr_get_chanctx_num s1 b;
             (ok, d, m, s2) \<leftarrow> chanctx_place s1 b al ridx rl n new_chdef;
             Some (ok, d, mk_cc_info s2 b rn n m, s2)
           })"

definition rtw_phl_chanctx_add ::
  "mr_st \<Rightarrow> addr option \<Rightarrow> nat option \<Rightarrow> nat \<times> nat \<Rightarrow> rtw_chan_def option \<Rightarrow>
   (bool \<times> rtw_chan_def option \<times> rtw_mr_chctx_info option \<times> mr_st) option" where
  "rtw_phl_chanctx_add s al wifi_role rl new_chdef =
     (case new_chdef of
        None \<Rightarrow> Some (False, None, None, s)
      | Some d \<Rightarrow>
          if chan d = 0 then Some (False, Some d, None, s)
          else if \<not> is_db s \<and> hw_band (get_rlink s rl) = HW_BAND_1
          then Some (False, Some d, None, s)
          else do {
            (ok, d', info, s') \<leftarrow> phl_chanctx_add s al wifi_role rl d;
            Some (ok, Some d', Some info, s')
          })"

subsection \<open>The channel definition a context needs\<close>

text \<open>
  \<^verbatim>\<open>phl_mr_chandef_sync\<close> recomputes the definition from the links of the roles in the map. The
  loop variable \<^verbatim>\<open>rlink\<close> survives from one role to the next, so it is part of the loop state, as
  are the four values and the number of roles; the flag of the result says that the loop was left
  by \<^verbatim>\<open>break\<close>.
\<close>

record sync_st =
  sync_num :: nat
  band_ret :: band_type
  ch_ret :: u8
  bw_ret :: channel_width
  offset_ret :: chan_offset
  sync_rlink :: "rtw_wifi_role_link_t option"

fun sync_pick ::
  "rtw_wifi_role_t \<Rightarrow> phl_band_idx \<Rightarrow> nat list \<Rightarrow> rtw_wifi_role_link_t option \<Rightarrow>
   rtw_wifi_role_link_t option" where
  "sync_pick w b [] k = k"
| "sync_pick w b (i # is) k =
     (if hw_band (rlink w i) = b then Some (rlink w i)
      else sync_pick w b is (Some (rlink w i)))"

definition sync_body :: "rtw_chan_def \<Rightarrow> sync_st \<Rightarrow> sync_st \<times> bool" where
  "sync_body d y =
     (if sync_num y = 0
      then (y\<lparr>band_ret := band d, ch_ret := chan d, bw_ret := bw d, offset_ret := offset d,
              sync_num := 1\<rparr>, False)
      else if band_ret y \<noteq> band d then (y\<lparr>sync_num := 0\<rparr>, True)
      else if ch_ret y \<noteq> chan d then (y\<lparr>sync_num := 0\<rparr>, True)
      else if bw_ret y < bw d
      then (y\<lparr>bw_ret := bw d, offset_ret := offset d, sync_num := sync_num y + 1\<rparr>, False)
      else if bw_ret y = bw d \<and> offset_ret y \<noteq> offset d then (y\<lparr>sync_num := 0\<rparr>, True)
      else (y\<lparr>sync_num := sync_num y + 1\<rparr>, False))"

fun sync_loop ::
  "mr_st \<Rightarrow> phl_band_idx \<Rightarrow> u8 \<Rightarrow> nat list \<Rightarrow> sync_st \<Rightarrow> sync_st option" where
  "sync_loop s b m [] y = Some y"
| "sync_loop s b m (r # rs) y =
     (if m AND BIT8 r \<noteq> 0
      then do {
        let w = wifi_roles s r;
        let ko = sync_pick w b [0..<rlink_num w] (sync_rlink y);
        k \<leftarrow> ko;
        let (y', brk) = sync_body (chandef k) (y\<lparr>sync_rlink := ko\<rparr>);
        if brk then Some y' else sync_loop s b m rs y'
      }
      else sync_loop s b m rs y)"

definition sync_init :: sync_st where
  "sync_init = \<lparr>sync_num = 0, band_ret = BAND_MAX, ch_ret = 0, bw_ret = CHANNEL_WIDTH_20,
     offset_ret = CHAN_OFFSET_NO_EXT, sync_rlink = None\<rparr>"

text \<open>\<open>held\<close> says that the caller holds the lock of the queue, which the function takes.\<close>

definition phl_mr_chandef_sync ::
  "bool \<Rightarrow> mr_st \<Rightarrow> phl_band_idx \<Rightarrow> addr option \<Rightarrow> rtw_chan_def option \<Rightarrow>
   (rtw_phl_status \<times> rtw_chan_def option) option" where
  "phl_mr_chandef_sync held s b ao chdef =
     (case (ao, chdef) of
        (Some a, Some d) \<Rightarrow>
          if held then None
          else do {
            c \<leftarrow> ctxs s a;
            y \<leftarrow> sync_loop s b (ctx_role_map c) [0..<max_wifi_role_number s] sync_init;
            if sync_num y = 0 then Some (RTW_PHL_STATUS_FAILURE, Some d)
            else Some (RTW_PHL_STATUS_SUCCESS,
                   Some (d\<lparr>band := band_ret y, chan := ch_ret y, bw := bw_ret y,
                           offset := offset_ret y\<rparr>))
          }
      | _ \<Rightarrow> Some (RTW_PHL_STATUS_FAILURE, chdef))"

definition phl_mr_chandef_upt ::
  "mr_st \<Rightarrow> phl_band_idx \<Rightarrow> addr option \<Rightarrow> (rtw_phl_status \<times> mr_st) option" where
  "phl_mr_chandef_upt s b ao =
     (case ao of
        None \<Rightarrow> Some (RTW_PHL_STATUS_FAILURE, s)
      | Some a \<Rightarrow> do {
          c \<leftarrow> ctxs s a;
          (phl_sts, d) \<leftarrow> phl_mr_chandef_sync False s b ao (Some (chan_def c));
          Some (phl_sts, case d of None \<Rightarrow> s | Some d' \<Rightarrow> upd_ctx a (c\<lparr>chan_def := d'\<rparr>) s)
        })"

definition rtw_phl_mr_upt_chandef ::
  "mr_st \<Rightarrow> nat \<times> nat \<Rightarrow> (rtw_phl_status \<times> mr_st) option" where
  "rtw_phl_mr_upt_chandef s rl =
     (case chanctx (get_rlink s rl) of
        None \<Rightarrow> Some (RTW_PHL_STATUS_FAILURE, s)
      | Some a \<Rightarrow> phl_mr_chandef_upt s (hw_band (get_rlink s rl)) (Some a))"

subsection \<open>Removing a role from its channel\<close>

definition rtw_phl_chanctx_del_no_self ::
  "mr_st \<Rightarrow> nat \<times> nat \<Rightarrow> (rtw_phl_status \<times> mr_st) option" where
  "rtw_phl_chanctx_del_no_self s rl =
     (let b = hw_band (get_rlink s rl); n = phl_mr_get_chanctx_num s b
      in if n > 2 then Some (RTW_PHL_STATUS_FAILURE, s)
         else if n = 0 then Some (RTW_PHL_STATUS_SUCCESS, s)
         else if n = 1
         then case queue (chan_ctx_queue (band_ctrl s b)) of
                [] \<Rightarrow> Some (RTW_PHL_STATUS_FAILURE, s)
              | a # _ \<Rightarrow> do {
                  (phl_sts, s1) \<leftarrow> phl_chanctx_unlink s b (Some a);
                  Some (phl_sts, free_ctx a s1)
                }
         else Some (RTW_PHL_STATUS_FAILURE, s))"

text \<open>
  The last part of \<^verbatim>\<open>rtw_phl_chanctx_del\<close>, after the role has left: the operating mode follows from
  the contexts that are left, and the caller gets their channel definition. \<open>target\<close> is the
  context of the role if it is still there. The result is the number of contexts.
\<close>

definition chanctx_del_finish ::
  "mr_st \<Rightarrow> phl_band_idx \<Rightarrow> addr option \<Rightarrow> rtw_chan_def option \<Rightarrow>
   (int \<times> rtw_chan_def option \<times> mr_st) option" where
  "chanctx_del_finish s b target chdef =
     (let n = phl_mr_get_chanctx_num s b
      in if n = 0 then Some (n, chdef, set_op_mode b MR_OP_NONE s)
         else if n = 1
         then case queue (chan_ctx_queue (band_ctrl s b)) of
                [] \<Rightarrow> None
              | a # _ \<Rightarrow> do {
                  rnum \<leftarrow> phl_chanctx_get_rnum s a;
                  c \<leftarrow> ctxs s a;
                  Some (n, map_option (\<lambda>_. chan_def c) chdef,
                    set_op_mode b (if rnum = 1 then MR_OP_SWR else MR_OP_SCC) s)
                }
         else if n = 2
         then case target of
                None \<Rightarrow> Some (n, chdef, set_op_mode b MR_OP_MCC s)
              | Some a \<Rightarrow> do {
                  c \<leftarrow> ctxs s a;
                  Some (n, map_option (\<lambda>_. chan_def c) chdef, set_op_mode b MR_OP_MCC s)
                }
         else Some (n, chdef, s))"

definition rtw_phl_chanctx_del ::
  "mr_st \<Rightarrow> nat option \<Rightarrow> nat \<times> nat \<Rightarrow> rtw_chan_def option \<Rightarrow>
   (int \<times> rtw_chan_def option \<times> mr_st) option" where
  "rtw_phl_chanctx_del s wifi_role rl chdef0 =
     (let b = hw_band (get_rlink s rl)
      in case (wifi_role, chanctx (get_rlink s rl)) of
           (Some ridx, Some a) \<Rightarrow> do {
             let chdef = map_option (\<lambda>d. d\<lparr>chan := 0\<rparr>) chdef0;
             let n = phl_mr_get_chanctx_num s b;
             rnum \<leftarrow> phl_chanctx_get_rnum s a;
             if n = 0 \<or> rnum = 0 then Some (n, chdef, s)
             else if n > 2 then Some (n, chdef, s)
             else if rnum = 1
             then do {
               (_, s1) \<leftarrow> phl_chanctx_rmap_clr s ridx rl (Some a);
               (_, s2) \<leftarrow> phl_chanctx_unlink s1 b (Some a);
               chanctx_del_finish (free_ctx a s2) b None chdef
             }
             else do {
               (_, s1) \<leftarrow> phl_chanctx_rmap_clr s ridx rl (Some a);
               (phl_sts, s2) \<leftarrow> phl_mr_chandef_upt s1 b (Some a);
               if phl_sts \<noteq> RTW_PHL_STATUS_SUCCESS then Some (n, chdef, s2)
               else chanctx_del_finish s2 b (Some a) chdef
             }
           }
         | _ \<Rightarrow> Some (0, chdef0, s))"

subsection \<open>Changing and reading the channel of a role\<close>

text \<open>
  \<open>al1\<close> and \<open>al2\<close> are what the allocation returns in the first attempt and in the recovery, which
  uses the definition the role link has.
\<close>

definition phl_mr_chandef_chg ::
  "mr_st \<Rightarrow> addr option \<Rightarrow> addr option \<Rightarrow> nat option \<Rightarrow> nat \<times> nat \<Rightarrow> rtw_chan_def \<Rightarrow>
   rtw_chan_def \<Rightarrow> (rtw_phl_status \<times> rtw_chan_def \<times> mr_st) option" where
  "phl_mr_chandef_chg s al1 al2 wrole rl new_chan chctx_result = do {
     (_, _, s1) \<leftarrow> rtw_phl_chanctx_del s wrole rl (Some chan_def_zero);
     (ok, d, _, s2) \<leftarrow> rtw_phl_chanctx_add s1 al1 wrole rl (Some new_chan);
     if ok then Some (RTW_PHL_STATUS_SUCCESS, the d, s2)
     else do {
       (_, _, _, s3) \<leftarrow> rtw_phl_chanctx_add s2 al2 wrole rl (Some (chandef (get_rlink s2 rl)));
       Some (RTW_PHL_STATUS_FAILURE, chctx_result, s3)
     }
   }"

definition phl_mr_get_chandef_by_band ::
  "mr_st \<Rightarrow> phl_band_idx \<Rightarrow> rtw_chan_def option \<Rightarrow> (int \<times> rtw_chan_def option) option" where
  "phl_mr_get_chandef_by_band s b chdef0 =
     (case chdef0 of
        None \<Rightarrow> Some (0, None)
      | Some d \<Rightarrow>
          (let n = phl_mr_get_chanctx_num s b; d0 = d\<lparr>chan := 0\<rparr>
           in if n = 1
              then case queue (chan_ctx_queue (band_ctrl s b)) of
                     [] \<Rightarrow> None
                   | a # _ \<Rightarrow> do {
                       rnum \<leftarrow> phl_chanctx_get_rnum s a;
                       c \<leftarrow> ctxs s a;
                       Some (if rnum = 0 then 0 else n, Some (chan_def c))
                     }
              else Some (n, Some d0)))"

definition phl_mr_get_chandef ::
  "mr_st \<Rightarrow> nat \<times> nat \<Rightarrow> bool \<Rightarrow> rtw_chan_def option \<Rightarrow>
   (rtw_phl_status \<times> rtw_chan_def option) option" where
  "phl_mr_get_chandef s rl sync chdef0 =
     (let b = hw_band (get_rlink s rl); n = phl_mr_get_chanctx_num s b
      in case chdef0 of
           None \<Rightarrow> Some (RTW_PHL_STATUS_FAILURE, None)
         | Some d \<Rightarrow>
             (let d0 = Some (d\<lparr>chan := 0\<rparr>)
              in case chanctx (get_rlink s rl) of
                   Some a \<Rightarrow> do {
                     rnum \<leftarrow> phl_chanctx_get_rnum s a;
                     c \<leftarrow> ctxs s a;
                     if sync \<and> rnum \<ge> 2 then phl_mr_chandef_sync False s b (Some a) d0
                     else Some (RTW_PHL_STATUS_SUCCESS, Some (chan_def c))
                   }
                 | None \<Rightarrow>
                     if n = 0
                     then Some (RTW_PHL_STATUS_SUCCESS, Some (chandef (get_rlink s rl)))
                     else if n = 1
                     then case queue (chan_ctx_queue (band_ctrl s b)) of
                            [] \<Rightarrow> None
                          | a # _ \<Rightarrow> do {
                              rnum \<leftarrow> phl_chanctx_get_rnum s a;
                              c \<leftarrow> ctxs s a;
                              if sync \<and> rnum \<ge> 2
                              then phl_mr_chandef_sync True s b (Some a) d0
                              else Some (RTW_PHL_STATUS_SUCCESS, Some (chan_def c))
                            }
                     else Some (RTW_PHL_STATUS_SUCCESS, d0)))"

end
