(* ===== verification/Phl_Chanctx_Inv.thy ===== *)
theory Phl_Chanctx_Inv
  imports Phl_Chanctx
begin

section \<open>Channel contexts: the invariant\<close>

text \<open>
  The invariant of the channel contexts and how the four moves of a role keep it: joining a context,
  leaving one that others use, opening a fresh one, and leaving as the last role, which closes the
  context. The operations of \<open>Phl_Chanctx\<close> are compositions of these moves, as \<open>Phl_Chanctx_Ops\<close>
  shows.
\<close>

subsection \<open>Bits and sub-bands\<close>

lemma BIT8_iff [simp]: "w AND BIT8 r \<noteq> 0 \<longleftrightarrow> bit w r" "w AND BIT8 r = 0 \<longleftrightarrow> \<not> bit w r"
  by (simp_all add: BIT8_def push_bit_of_1 and_exp_eq_0_iff_not_bit)

lemma bit_or_BIT8: "r < 8 \<Longrightarrow> bit (w OR BIT8 r) i \<longleftrightarrow> bit w i \<or> i = r"
  by (auto simp: BIT8_def bit_simps)

lemma bit_and_not_BIT8: "r < 8 \<Longrightarrow> bit (w AND NOT (BIT8 r)) i \<longleftrightarrow> bit w i \<and> i \<noteq> r"
  by (auto simp: BIT8_def bit_simps dest: bit_imp_le_length)

lemma cc_code_less: "cc_band_code cb < 9"
  by (cases cb) simp_all

lemma cc_code_inject [simp]: "cc_band_code a = cc_band_code b \<longleftrightarrow> a = b"
  by (cases a; cases b) simp_all

lemma bit_or_BIT16: "bit (w OR BIT16 (cc_band_code cb)) (cc_band_code c) \<longleftrightarrow> bit w (cc_band_code c) \<or> c = cb"
  using cc_code_less [of cb] by (auto simp: BIT16_def bit_simps)

lemma bit_and_not_BIT16:
  "bit (w AND NOT (BIT16 (cc_band_code cb))) (cc_band_code c) \<longleftrightarrow> bit w (cc_band_code c) \<and> c \<noteq> cb"
  using cc_code_less [of cb] by (auto simp: BIT16_def bit_simps dest: bit_imp_le_length)

definition cc_band_of :: "rtw_chan_def \<Rightarrow> cc_band_type option" where
  "cc_band_of d =
     (case band d of
        BAND_ON_24G \<Rightarrow> Some CC_BAND_24G
      | BAND_ON_5G \<Rightarrow>
          if CH_5GHZ_BAND1 (chan d) then Some CC_BAND_5G_B1
          else if CH_5GHZ_BAND2 (chan d) then Some CC_BAND_5G_B2
          else if CH_5GHZ_BAND3 (chan d) then Some CC_BAND_5G_B3
          else if CH_5GHZ_BAND4 (chan d) then Some CC_BAND_5G_B4 else None
      | BAND_ON_6G \<Rightarrow>
          if CH_6GHZ_UNII5 (chan d) then Some CC_BAND_6G_U5
          else if CH_6GHZ_UNII6 (chan d) then Some CC_BAND_6G_U6
          else if CH_6GHZ_UNII7 (chan d) then Some CC_BAND_6G_U7
          else if CH_6GHZ_UNII8 (chan d) then Some CC_BAND_6G_U8 else None
      | BAND_MAX \<Rightarrow> None)"

lemma cc_band_of_cong: "band d = band e \<Longrightarrow> chan d = chan e \<Longrightarrow> cc_band_of d = cc_band_of e"
  by (simp add: cc_band_of_def)

lemma band_map_set_known:
  "cc_band_of d = Some cb \<Longrightarrow> phl_cc_band_map_set p d c = (p, ccb_inc cb c)"
  by (auto simp: cc_band_of_def phl_cc_band_map_set_def split: band_type.splits if_splits)

lemma band_map_clr_known:
  "cc_band_of d = Some cb \<Longrightarrow> phl_cc_band_map_clr p d c = (p, ccb_dec cb c)"
  by (auto simp: cc_band_of_def phl_cc_band_map_clr_def split: band_type.splits if_splits)

lemma same_band_sub_band:
  "is_ch_in_same_band a b \<longleftrightarrow> cc_band_of a \<noteq> None \<and> cc_band_of a = cc_band_of b"
  unfolding is_ch_in_same_band_def cc_band_of_def CH_IN_SAME_5G_BAND_def CH_IN_SAME_6G_BAND_def
    CH_5GHZ_BAND1_def CH_5GHZ_BAND2_def CH_5GHZ_BAND3_def CH_5GHZ_BAND4_def
    CH_6GHZ_UNII5_def CH_6GHZ_UNII6_def CH_6GHZ_UNII7_def CH_6GHZ_UNII8_def u8_le_iff
  by (cases "band a"; cases "band b"; simp; arith?)

subsection \<open>The invariant\<close>

abbreviation ctx_queue :: "mr_st \<Rightarrow> phl_band_idx \<Rightarrow> addr list" where
  "ctx_queue s b \<equiv> queue (chan_ctx_queue (band_ctrl s b))"

definition sub_band :: "mr_st \<Rightarrow> addr \<Rightarrow> cc_band_type option" where
  "sub_band s a = Option.bind (ctxs s a) (\<lambda>c. cc_band_of (chan_def c))"

text \<open>The queues hold exactly the allocated contexts, and every one is in use.\<close>

definition queues_ok :: "mr_st \<Rightarrow> bool" where
  "queues_ok s \<longleftrightarrow>
     (\<forall>b. distinct (ctx_queue s b) \<and> length (ctx_queue s b) \<le> (if mcc_sup s then 2 else 1) \<and>
        cnt (chan_ctx_queue (band_ctrl s b)) = int (length (ctx_queue s b))) \<and>
     set (ctx_queue s HW_BAND_0) \<inter> set (ctx_queue s HW_BAND_1) = {} \<and>
     dom (ctxs s) = set (ctx_queue s HW_BAND_0) \<union> set (ctx_queue s HW_BAND_1) \<and>
     (\<forall>a c. ctxs s a = Some c \<longrightarrow> cc_band_of (chan_def c) \<noteq> None \<and>
        (\<exists>r < max_wifi_role_number s. bit (ctx_role_map c) r) \<and>
        (\<forall>r. bit (ctx_role_map c) r \<longrightarrow> r < max_wifi_role_number s))"

text \<open>The counters and the map agree with the contexts, sub-band by sub-band.\<close>

definition counts_ok :: "mr_st \<Rightarrow> bool" where
  "counts_ok s \<longleftrightarrow>
     (\<forall>b cb. ccb_rc (band_ctrl s b) cb =
               int (length (filter (\<lambda>a. sub_band s a = Some cb) (ctx_queue s b))) \<and>
             (bit (chctx_band_map (band_ctrl s b)) (cc_band_code cb) \<longleftrightarrow>
               ccb_rc (band_ctrl s b) cb > 0)) \<and>
     set_psts s = RTW_PHL_STATUS_SUCCESS \<and> clr_psts s = RTW_PHL_STATUS_SUCCESS"

text \<open>Role \<open>r\<close> has a link on band \<open>b\<close> that points to context \<open>a\<close>; context \<open>a\<close> of band \<open>b\<close> has \<open>r\<close> in its map.\<close>

definition owns :: "mr_st \<Rightarrow> phl_band_idx \<Rightarrow> nat \<Rightarrow> addr \<Rightarrow> bool" where
  "owns s b r a \<longleftrightarrow>
     (\<exists>l < rlink_num (wifi_roles s r).
        hw_band (get_rlink s (r, l)) = b \<and> chanctx (get_rlink s (r, l)) = Some a)"

definition in_ctx :: "mr_st \<Rightarrow> phl_band_idx \<Rightarrow> nat \<Rightarrow> addr \<Rightarrow> bool" where
  "in_ctx s b r a \<longleftrightarrow>
     a \<in> set (ctx_queue s b) \<and> (\<exists>c. ctxs s a = Some c \<and> bit (ctx_role_map c) r)"

definition links_ok :: "mr_st \<Rightarrow> bool" where
  "links_ok s \<longleftrightarrow>
     max_wifi_role_number s \<le> 8 \<and>
     (\<forall>r < max_wifi_role_number s.
        inj_on (\<lambda>l. hw_band (get_rlink s (r, l))) {..<rlink_num (wifi_roles s r)} \<and>
        (\<forall>b a. owns s b r a \<longleftrightarrow> in_ctx s b r a))"

definition chanctx_inv :: "mr_st \<Rightarrow> bool" where
  "chanctx_inv s \<longleftrightarrow> queues_ok s \<and> counts_ok s \<and> links_ok s"

definition valid_rlink :: "mr_st \<Rightarrow> nat \<times> nat \<Rightarrow> bool" where
  "valid_rlink s rl \<longleftrightarrow>
     fst rl < max_wifi_role_number s \<and> snd rl < rlink_num (wifi_roles s (fst rl))"

subsection \<open>Access after update\<close>

lemma upd_band_simps [simp]:
  "band_ctrl (upd_band b f s) = (band_ctrl s)(b := f (band_ctrl s b))"
  "wifi_roles (upd_band b f s) = wifi_roles s" "ctxs (upd_band b f s) = ctxs s"
  "max_wifi_role_number (upd_band b f s) = max_wifi_role_number s"
  "mcc_sup (upd_band b f s) = mcc_sup s" "is_db (upd_band b f s) = is_db s"
  "set_psts (upd_band b f s) = set_psts s" "clr_psts (upd_band b f s) = clr_psts s"
  by (simp_all add: upd_band_def)

lemma upd_rlink_simps [simp]:
  "band_ctrl (upd_rlink rl f s) = band_ctrl s" "ctxs (upd_rlink rl f s) = ctxs s"
  "max_wifi_role_number (upd_rlink rl f s) = max_wifi_role_number s"
  "mcc_sup (upd_rlink rl f s) = mcc_sup s" "is_db (upd_rlink rl f s) = is_db s"
  "set_psts (upd_rlink rl f s) = set_psts s" "clr_psts (upd_rlink rl f s) = clr_psts s"
  "rlink_num (wifi_roles (upd_rlink rl f s) r) = rlink_num (wifi_roles s r)"
  "rlink (wifi_roles (upd_rlink rl f s) r) l =
     (if (r, l) = rl then f (get_rlink s rl) else rlink (wifi_roles s r) l)"
  by (cases rl; auto simp: upd_rlink_def)+

lemma upd_ctx_simps [simp]:
  "band_ctrl (upd_ctx a c s) = band_ctrl s" "wifi_roles (upd_ctx a c s) = wifi_roles s"
  "ctxs (upd_ctx a c s) = (ctxs s)(a := Some c)"
  "max_wifi_role_number (upd_ctx a c s) = max_wifi_role_number s"
  "mcc_sup (upd_ctx a c s) = mcc_sup s" "is_db (upd_ctx a c s) = is_db s"
  "set_psts (upd_ctx a c s) = set_psts s" "clr_psts (upd_ctx a c s) = clr_psts s"
  by (simp_all add: upd_ctx_def)

lemma free_ctx_simps [simp]:
  "band_ctrl (free_ctx a s) = band_ctrl s" "wifi_roles (free_ctx a s) = wifi_roles s"
  "ctxs (free_ctx a s) = (ctxs s)(a := None)"
  "max_wifi_role_number (free_ctx a s) = max_wifi_role_number s"
  "mcc_sup (free_ctx a s) = mcc_sup s" "is_db (free_ctx a s) = is_db s"
  "set_psts (free_ctx a s) = set_psts s" "clr_psts (free_ctx a s) = clr_psts s"
  by (simp_all add: free_ctx_def)

lemma set_op_mode_simps [simp]:
  "wifi_roles (set_op_mode b m s) = wifi_roles s" "ctxs (set_op_mode b m s) = ctxs s"
  "max_wifi_role_number (set_op_mode b m s) = max_wifi_role_number s"
  "mcc_sup (set_op_mode b m s) = mcc_sup s" "is_db (set_op_mode b m s) = is_db s"
  "set_psts (set_op_mode b m s) = set_psts s" "clr_psts (set_op_mode b m s) = clr_psts s"
  "chan_ctx_queue (band_ctrl (set_op_mode b m s) b') = chan_ctx_queue (band_ctrl s b')"
  "ccb_rc (band_ctrl (set_op_mode b m s) b') = ccb_rc (band_ctrl s b')"
  "chctx_band_map (band_ctrl (set_op_mode b m s) b') = chctx_band_map (band_ctrl s b')"
  "op_mode (band_ctrl (set_op_mode b m s) b') = (if b' = b then m else op_mode (band_ctrl s b'))"
  by (simp_all add: set_op_mode_def)

lemma inv_set_op_mode [simp]: "chanctx_inv (set_op_mode b m s) = chanctx_inv s"
  by (simp add: chanctx_inv_def queues_ok_def counts_ok_def links_ok_def owns_def in_ctx_def sub_band_def)

lemma all_band_iff: "(\<forall>b. P b) \<longleftrightarrow> P HW_BAND_0 \<and> P HW_BAND_1"
  by (metis phl_band_idx.exhaust)

lemma ccb_simps [simp]:
  "chan_ctx_queue (ccb_inc cb c) = chan_ctx_queue c" "chan_ctx_queue (ccb_dec cb c) = chan_ctx_queue c"
  "ccb_rc (ccb_inc cb c) = (ccb_rc c)(cb := ccb_rc c cb + 1)"
  "ccb_rc (ccb_dec cb c) = (ccb_rc c)(cb := ccb_rc c cb - 1)"
  by (simp_all add: ccb_inc_def ccb_dec_def Let_def)

subsection \<open>The four ways a role moves\<close>

text \<open>Role link \<open>rl\<close> points to context \<open>x\<close>, or to none.\<close>

definition point :: "nat \<times> nat \<Rightarrow> addr option \<Rightarrow> mr_st \<Rightarrow> mr_st" where
  "point rl x = upd_rlink rl (\<lambda>k. k\<lparr>chanctx := x\<rparr>)"

lemma point_simps [simp]:
  "band_ctrl (point rl x s) = band_ctrl s" "ctxs (point rl x s) = ctxs s"
  "max_wifi_role_number (point rl x s) = max_wifi_role_number s"
  "mcc_sup (point rl x s) = mcc_sup s" "is_db (point rl x s) = is_db s"
  "set_psts (point rl x s) = set_psts s" "clr_psts (point rl x s) = clr_psts s"
  "rlink_num (wifi_roles (point rl x s) r) = rlink_num (wifi_roles s r)"
  "hw_band (rlink (wifi_roles (point rl x s) r) l) = hw_band (rlink (wifi_roles s r) l)"
  "chandef (rlink (wifi_roles (point rl x s) r) l) = chandef (rlink (wifi_roles s r) l)"
  "chanctx (rlink (wifi_roles (point rl x s) r) l) =
     (if (r, l) = rl then x else chanctx (rlink (wifi_roles s r) l))"
  by (auto simp: point_def simp del: split_paired_All)

lemma owns_point:
  assumes "links_ok s" "valid_rlink s (r, l)" "hw_band (get_rlink s (r, l)) = b" "r' < max_wifi_role_number s"
    "wifi_roles t = wifi_roles (point (r, l) x s)"
  shows "owns t b' r' a \<longleftrightarrow> (if r' = r \<and> b' = b then x = Some a else owns s b' r' a)"
proof -
  have own: "owns t b' r' a \<longleftrightarrow> owns (point (r, l) x s) b' r' a"
    using assms(5) by (simp add: owns_def)
  have inj: "inj_on (\<lambda>l. hw_band (get_rlink s (r, l))) {..<rlink_num (wifi_roles s r)}"
    using assms(1,2) by (auto simp: links_ok_def valid_rlink_def)
  have uniq: "l' = l" if "l' < rlink_num (wifi_roles s r)" "hw_band (get_rlink s (r, l')) = b" for l'
    using inj_onD [OF inj, of l' l] that assms(2,3) by (auto simp: valid_rlink_def)
  show ?thesis
  proof (cases "r' = r \<and> b' = b")
    case True
    then show ?thesis
      unfolding own using assms(2,3) uniq by (auto simp: owns_def valid_rlink_def)
  next
    case False
    then show ?thesis
      unfolding own using assms(2,3) by (auto simp: owns_def valid_rlink_def)
  qed
qed

lemma links_okI:
  assumes "links_ok s" "valid_rlink s (r, l)" "hw_band (get_rlink s (r, l)) = b"
    and t: "wifi_roles t = wifi_roles (point (r, l) x s)"
      "max_wifi_role_number t = max_wifi_role_number s"
    and ctx: "\<And>b' r' a. r' < max_wifi_role_number s \<Longrightarrow>
      in_ctx t b' r' a \<longleftrightarrow> (if r' = r \<and> b' = b then x = Some a else in_ctx s b' r' a)"
  shows "links_ok t"
  using assms(1) unfolding links_ok_def t(2)
  by (auto simp: t(1) owns_point [OF assms(1-3) _ t(1)] ctx)

text \<open>A link without a context: its role is in no map of its band.\<close>

lemma free_link_not_in_ctx:
  assumes "links_ok s" "valid_rlink s (r, l)" "chanctx (get_rlink s (r, l)) = None"
    "hw_band (get_rlink s (r, l)) = b"
  shows "\<not> in_ctx s b r a"
proof -
  have r: "r < max_wifi_role_number s" using assms(2) by (simp add: valid_rlink_def)
  have inj: "inj_on (\<lambda>l. hw_band (get_rlink s (r, l))) {..<rlink_num (wifi_roles s r)}"
    using assms(1) r by (simp add: links_ok_def)
  have "\<not> owns s b r a"
    using inj_onD [OF inj, of _ l] assms(2-4) by (fastforce simp: owns_def valid_rlink_def)
  then show ?thesis using assms(1) r by (simp add: links_ok_def)
qed

lemma link_in_ctx:
  assumes "links_ok s" "valid_rlink s (r, l)" "chanctx (get_rlink s (r, l)) = Some a"
    "hw_band (get_rlink s (r, l)) = b"
  shows "in_ctx s b r a' \<longleftrightarrow> a' = a"
proof -
  have r: "r < max_wifi_role_number s" using assms(2) by (simp add: valid_rlink_def)
  have inj: "inj_on (\<lambda>l. hw_band (get_rlink s (r, l))) {..<rlink_num (wifi_roles s r)}"
    using assms(1) r by (simp add: links_ok_def)
  have "owns s b r a' \<longleftrightarrow> a' = a"
    using inj_onD [OF inj, of _ l] assms(2-4) by (fastforce simp: owns_def valid_rlink_def)
  then show ?thesis using assms(1) r by (simp add: links_ok_def)
qed

lemma queues_okD:
  assumes "queues_ok s"
  shows "distinct (ctx_queue s b)" "length (ctx_queue s b) \<le> (if mcc_sup s then 2 else 1)"
    "cnt (chan_ctx_queue (band_ctrl s b)) = int (length (ctx_queue s b))"
    "set (ctx_queue s HW_BAND_0) \<inter> set (ctx_queue s HW_BAND_1) = {}"
    "dom (ctxs s) = set (ctx_queue s HW_BAND_0) \<union> set (ctx_queue s HW_BAND_1)"
    "ctxs s a = Some c \<Longrightarrow> cc_band_of (chan_def c) \<noteq> None"
    "ctxs s a = Some c \<Longrightarrow> \<exists>r < max_wifi_role_number s. bit (ctx_role_map c) r"
    "ctxs s a = Some c \<Longrightarrow> bit (ctx_role_map c) r \<Longrightarrow> r < max_wifi_role_number s"
  using assms unfolding queues_ok_def by blast+

lemma queues_disjoint:
  assumes "queues_ok s" "a \<in> set (ctx_queue s b)" "a \<in> set (ctx_queue s b')"
  shows "b' = b"
proof -
  have "set (ctx_queue s HW_BAND_0) \<inter> set (ctx_queue s HW_BAND_1) = {}"
    using assms(1) by (simp add: queues_ok_def)
  then show ?thesis using assms(2,3) by (cases b; cases b') auto
qed

lemma queues_dom: "queues_ok s \<Longrightarrow> a \<in> set (ctx_queue s b) \<Longrightarrow> \<exists>c. ctxs s a = Some c"
  unfolding queues_ok_def by (cases b) auto

text \<open>Context \<open>a\<close> gets a new role map and a definition on the same channel; the queues stay.\<close>

lemma queues_ok_upd_ctx:
  assumes "queues_ok s" "ctxs s a = Some c" "cc_band_of (chan_def c') = cc_band_of (chan_def c)"
    and "\<exists>r < max_wifi_role_number s. bit (ctx_role_map c') r"
    and "\<forall>r. bit (ctx_role_map c') r \<longrightarrow> r < max_wifi_role_number s"
    and t: "ctxs t = (ctxs s)(a := Some c')" "band_ctrl t = band_ctrl s"
      "max_wifi_role_number t = max_wifi_role_number s" "mcc_sup t = mcc_sup s"
  shows "queues_ok t"
  using assms(1-5) unfolding queues_ok_def t by (auto split: if_splits)

lemma counts_ok_upd_ctx:
  assumes "counts_ok s" "ctxs s a = Some c" "cc_band_of (chan_def c') = cc_band_of (chan_def c)"
    and t: "ctxs t = (ctxs s)(a := Some c')" "band_ctrl t = band_ctrl s"
      "set_psts t = set_psts s" "clr_psts t = clr_psts s"
  shows "counts_ok t"
proof -
  have "sub_band t = sub_band s" using assms(2,3) t by (auto simp: sub_band_def)
  then show ?thesis using assms(1) unfolding counts_ok_def t by simp
qed


text \<open>A role joins context \<open>a\<close>.\<close>

lemma inv_join:
  assumes inv: "chanctx_inv s" and rl: "valid_rlink s (r, l)" "chanctx (get_rlink s (r, l)) = None"
    "hw_band (get_rlink s (r, l)) = b"
    and a: "a \<in> set (ctx_queue s b)" "ctxs s a = Some c"
    and g: "cc_band_of g = cc_band_of (chan_def c)"
  shows "chanctx_inv (point (r, l) (Some a)
    (upd_ctx a (c\<lparr>chan_def := g, ctx_role_map := ctx_role_map c OR BIT8 r\<rparr>) s))"
    (is "chanctx_inv ?t")
proof -
  let ?c = "c\<lparr>chan_def := g, ctx_role_map := ctx_role_map c OR BIT8 r\<rparr>"
  have q: "queues_ok s" and n: "counts_ok s" and k: "links_ok s"
    using inv by (simp_all add: chanctx_inv_def)
  have r: "r < max_wifi_role_number s" "r < 8"
    using rl(1) k by (auto simp: valid_rlink_def links_ok_def)
  have "\<forall>r. bit (ctx_role_map c) r \<longrightarrow> r < max_wifi_role_number s"
    using q a(2) unfolding queues_ok_def by blast
  then have "queues_ok ?t"
    using r g by (intro queues_ok_upd_ctx [OF q a(2), where c' = ?c]) (auto simp: bit_or_BIT8)
  moreover have "counts_ok ?t"
    using g by (intro counts_ok_upd_ctx [OF n a(2), where c' = ?c]) simp_all
  moreover have "links_ok ?t"
  proof (rule links_okI [OF k rl(1,3)])
    show "wifi_roles ?t = wifi_roles (point (r, l) (Some a) s)"
      by (simp add: point_def upd_rlink_def)
    fix b' r' a'
    have no: "\<not> in_ctx s b r a'" by (rule free_link_not_in_ctx [OF k rl])
    have qa: "a \<in> set (ctx_queue s b') \<longleftrightarrow> b' = b"
      using queues_disjoint [OF q a(1)] a(1) by blast
    show "in_ctx ?t b' r' a' =
        (if r' = r \<and> b' = b then Some a = Some a' else in_ctx s b' r' a')"
      using no a(2) r by (cases "a' = a") (auto simp: in_ctx_def bit_or_BIT8 qa)
  qed simp
  ultimately show ?thesis by (simp add: chanctx_inv_def)
qed

text \<open>A role leaves context \<open>a\<close>, which others still use.\<close>

lemma inv_leave:
  assumes inv: "chanctx_inv s" and rl: "valid_rlink s (r, l)" "chanctx (get_rlink s (r, l)) = Some a"
    "hw_band (get_rlink s (r, l)) = b"
    and a: "ctxs s a = Some c"
    and g: "cc_band_of g = cc_band_of (chan_def c)"
    and left: "\<exists>r' < max_wifi_role_number s. r' \<noteq> r \<and> bit (ctx_role_map c) r'"
  shows "chanctx_inv (upd_ctx a (c\<lparr>chan_def := g, ctx_role_map := ctx_role_map c AND NOT (BIT8 r)\<rparr>)
    (point (r, l) None s))"
    (is "chanctx_inv ?t")
proof -
  let ?c = "c\<lparr>chan_def := g, ctx_role_map := ctx_role_map c AND NOT (BIT8 r)\<rparr>"
  have q: "queues_ok s" and n: "counts_ok s" and k: "links_ok s"
    using inv by (simp_all add: chanctx_inv_def)
  have r: "r < max_wifi_role_number s" "r < 8"
    using rl(1) k by (auto simp: valid_rlink_def links_ok_def)
  have lim: "\<forall>r. bit (ctx_role_map c) r \<longrightarrow> r < max_wifi_role_number s"
    using q a unfolding queues_ok_def by blast
  then have "queues_ok ?t"
    using r g left by (intro queues_ok_upd_ctx [OF q a, where c' = ?c]) (auto simp: bit_and_not_BIT8)
  moreover have "counts_ok ?t"
    using g by (intro counts_ok_upd_ctx [OF n a, where c' = ?c]) simp_all
  moreover have "links_ok ?t"
  proof (rule links_okI [OF k rl(1,3)])
    show "wifi_roles ?t = wifi_roles (point (r, l) None s)" by simp
    fix b' r' a'
    have ia: "in_ctx s b r a' \<longleftrightarrow> a' = a" by (rule link_in_ctx [OF k rl])
    have "a \<in> set (ctx_queue s b)"
      using link_in_ctx [OF k rl, of a] by (simp add: in_ctx_def)
    then have qa: "a \<in> set (ctx_queue s b') \<longleftrightarrow> b' = b"
      using queues_disjoint [OF q] by blast
    show "in_ctx ?t b' r' a' =
        (if r' = r \<and> b' = b then None = Some a' else in_ctx s b' r' a')"
      using ia a r by (cases "a' = a") (auto simp: in_ctx_def bit_and_not_BIT8 qa)
  qed simp
  ultimately show ?thesis by (simp add: chanctx_inv_def)
qed


text \<open>A role opens a fresh context \<open>a\<close> at the end of the queue.\<close>

definition open_ctx :: "phl_band_idx \<Rightarrow> addr \<Rightarrow> rtw_chan_ctx \<Rightarrow> cc_band_type \<Rightarrow> mr_st \<Rightarrow> mr_st" where
  "open_ctx b a c cb s =
     upd_ctx a c (upd_band b (\<lambda>h. ccb_inc cb (h\<lparr>chan_ctx_queue := pq_push (chan_ctx_queue h) a Tail\<rparr>)) s)"

lemma queues_ok_open:
  assumes q: "queues_ok s" and a: "ctxs s a = None" and len: "length (ctx_queue s b) < (if mcc_sup s then 2 else 1)"
    and c: "cc_band_of (chan_def c) = Some cb" "r < max_wifi_role_number s"
      "\<forall>i. bit (ctx_role_map c) i \<longleftrightarrow> i = r"
    and t: "ctxs t = (ctxs s)(a := Some c)" "band_ctrl t = band_ctrl (open_ctx b a c cb s)"
      "max_wifi_role_number t = max_wifi_role_number s" "mcc_sup t = mcc_sup s"
  shows "queues_ok t"
proof -
  have notin: "a \<notin> set (ctx_queue s b')" for b'
    using queues_dom [OF q, of a b'] a by auto
  have qt: "ctx_queue t b' = (if b' = b then ctx_queue s b @ [a] else ctx_queue s b')"
    and ct: "cnt (chan_ctx_queue (band_ctrl t b')) =
      (if b' = b then cnt (chan_ctx_queue (band_ctrl s b)) + 1 else cnt (chan_ctx_queue (band_ctrl s b')))" for b'
    unfolding t(2) by (simp_all add: open_ctx_def pq_push_def)
  show ?thesis
    unfolding queues_ok_def qt ct t(1,3,4)
  proof (intro conjI allI impI)
    show "set (if HW_BAND_0 = b then ctx_queue s b @ [a] else ctx_queue s HW_BAND_0) \<inter>
        set (if HW_BAND_1 = b then ctx_queue s b @ [a] else ctx_queue s HW_BAND_1) = {}"
      using queues_okD(4) [OF q] notin by (cases b) auto
    show "dom ((ctxs s)(a \<mapsto> c)) =
        set (if HW_BAND_0 = b then ctx_queue s b @ [a] else ctx_queue s HW_BAND_0) \<union>
        set (if HW_BAND_1 = b then ctx_queue s b @ [a] else ctx_queue s HW_BAND_1)"
      using queues_okD(5) [OF q] by (cases b) auto
  next
    fix a' c'
    assume "((ctxs s)(a \<mapsto> c)) a' = Some c'"
    then consider "a' = a" "c' = c" | "ctxs s a' = Some c'" by (cases "a' = a") simp_all
    note cs = this
    show "cc_band_of (chan_def c') \<noteq> None"
      using cs c(1) queues_okD(6) [OF q] by cases auto
    show "\<exists>r < max_wifi_role_number s. bit (ctx_role_map c') r"
      using cs c(2,3) queues_okD(7) [OF q] by cases auto
    show "r' < max_wifi_role_number s" if "bit (ctx_role_map c') r'" for r'
      using cs c(2,3) queues_okD(8) [OF q _ that] that by cases auto
  next
    fix b'
    show "distinct (if b' = b then ctx_queue s b @ [a] else ctx_queue s b')"
      using queues_okD(1) [OF q] notin by simp
    show "length (if b' = b then ctx_queue s b @ [a] else ctx_queue s b') \<le> (if mcc_sup s then 2 else 1)"
      using queues_okD(2) [OF q] len by (cases "b' = b") simp_all
    show "(if b' = b then cnt (chan_ctx_queue (band_ctrl s b)) + 1
           else cnt (chan_ctx_queue (band_ctrl s b'))) =
        int (length (if b' = b then ctx_queue s b @ [a] else ctx_queue s b'))"
      using queues_okD(3) [OF q] by simp
  qed
qed

lemma counts_ok_open:
  assumes q: "queues_ok s" and n: "counts_ok s" and a: "ctxs s a = None"
    and c: "cc_band_of (chan_def c) = Some cb"
    and t: "ctxs t = (ctxs s)(a := Some c)" "band_ctrl t = band_ctrl (open_ctx b a c cb s)"
      "set_psts t = set_psts s" "clr_psts t = clr_psts s"
  shows "counts_ok t"
proof -
  have sb: "sub_band t a' = (if a' = a then Some cb else sub_band s a')" for a'
    using c by (simp add: sub_band_def t)
  have notin: "a \<notin> set (ctx_queue s b')" for b'
    using queues_dom [OF q, of a b'] a by auto
  have fl: "filter (\<lambda>a'. sub_band t a' = Some x) (ctx_queue s b') =
      filter (\<lambda>a'. sub_band s a' = Some x) (ctx_queue s b')" for x b'
    using notin [of b'] by (auto simp: sb intro!: filter_cong)
  have qt: "ctx_queue t b' = (if b' = b then ctx_queue s b @ [a] else ctx_queue s b')" for b'
    unfolding t(2) by (simp add: open_ctx_def pq_push_def)
  have rc: "ccb_rc (band_ctrl t b') x = ccb_rc (band_ctrl s b') x + (if b' = b \<and> x = cb then 1 else 0)"
    and bm: "bit (chctx_band_map (band_ctrl t b')) (cc_band_code x) \<longleftrightarrow>
      bit (chctx_band_map (band_ctrl s b')) (cc_band_code x) \<or> b' = b \<and> x = cb" for b' x
    unfolding t(2) by (auto simp: open_ctx_def ccb_inc_def bit_or_BIT16)
  have old: "ccb_rc (band_ctrl s b') x =
      int (length (filter (\<lambda>a. sub_band s a = Some x) (ctx_queue s b')))"
    "bit (chctx_band_map (band_ctrl s b')) (cc_band_code x) \<longleftrightarrow> ccb_rc (band_ctrl s b') x > 0" for b' x
    using n by (simp_all add: counts_ok_def)
  show ?thesis
    unfolding counts_ok_def
  proof (intro conjI allI)
    fix b' x
    show "ccb_rc (band_ctrl t b') x =
        int (length (filter (\<lambda>a. sub_band t a = Some x) (ctx_queue t b')))"
      unfolding rc qt old(1) using fl sb [of a] by auto
    show "bit (chctx_band_map (band_ctrl t b')) (cc_band_code x) \<longleftrightarrow> ccb_rc (band_ctrl t b') x > 0"
      unfolding rc bm old(2) by (auto simp: old(1))
  qed (use n t in \<open>simp_all add: counts_ok_def\<close>)
qed

lemma inv_open:
  assumes inv: "chanctx_inv s" and rl: "valid_rlink s (r, l)" "chanctx (get_rlink s (r, l)) = None"
    "hw_band (get_rlink s (r, l)) = b"
    and a: "ctxs s a = None" and len: "length (ctx_queue s b) < (if mcc_sup s then 2 else 1)"
    and c: "cc_band_of (chan_def c) = Some cb" "ctx_role_map c = BIT8 r"
  shows "chanctx_inv (point (r, l) (Some a) (open_ctx b a c cb s))" (is "chanctx_inv ?t")
proof -
  have q: "queues_ok s" and n: "counts_ok s" and k: "links_ok s"
    using inv by (simp_all add: chanctx_inv_def)
  have r: "r < max_wifi_role_number s" "r < 8"
    using rl(1) k by (auto simp: valid_rlink_def links_ok_def)
  have m: "\<forall>i. bit (ctx_role_map c) i \<longleftrightarrow> i = r"
    using bit_or_BIT8 [OF r(2), of 0] c(2) by simp
  have "queues_ok ?t"
    by (rule queues_ok_open [OF q a len c(1) r(1) m]) (simp_all add: open_ctx_def)
  moreover have "counts_ok ?t"
    by (rule counts_ok_open [OF q n a c(1)]) (simp_all add: open_ctx_def)
  moreover have "links_ok ?t"
  proof (rule links_okI [OF k rl(1,3)])
    show "wifi_roles ?t = wifi_roles (point (r, l) (Some a) s)"
      by (simp add: point_def upd_rlink_def open_ctx_def)
    fix b' r' a'
    have no: "\<not> in_ctx s b r a'" by (rule free_link_not_in_ctx [OF k rl])
    have "a \<notin> set (ctx_queue s b')" using queues_dom [OF q, of a b'] a by auto
    then show "in_ctx ?t b' r' a' =
        (if r' = r \<and> b' = b then Some a = Some a' else in_ctx s b' r' a')"
      using no m by (cases "a' = a") (auto simp: in_ctx_def open_ctx_def pq_push_def)
  qed (simp add: open_ctx_def)
  ultimately show ?thesis by (simp add: chanctx_inv_def)
qed

text \<open>The last role of context \<open>a\<close> leaves, and the context goes.\<close>

definition close_ctx :: "phl_band_idx \<Rightarrow> addr \<Rightarrow> cc_band_type \<Rightarrow> mr_st \<Rightarrow> mr_st" where
  "close_ctx b a cb s =
     free_ctx a (upd_band b (\<lambda>h. (ccb_dec cb h)\<lparr>chan_ctx_queue := (chan_ctx_queue h)
       \<lparr>queue := remove1 a (queue (chan_ctx_queue h)), cnt := cnt (chan_ctx_queue h) - 1\<rparr>\<rparr>) s)"

lemma close_ctx_queue:
  "band_ctrl t = band_ctrl (close_ctx b a cb s) \<Longrightarrow>
     ctx_queue t b' = (if b' = b then remove1 a (ctx_queue s b) else ctx_queue s b')"
  "band_ctrl t = band_ctrl (close_ctx b a cb s) \<Longrightarrow>
     cnt (chan_ctx_queue (band_ctrl t b')) =
       (if b' = b then cnt (chan_ctx_queue (band_ctrl s b)) - 1
        else cnt (chan_ctx_queue (band_ctrl s b')))"
  by (simp_all add: close_ctx_def)

lemma queues_ok_close:
  assumes q: "queues_ok s" and a: "a \<in> set (ctx_queue s b)"
    and t: "ctxs t = (ctxs s)(a := None)" "band_ctrl t = band_ctrl (close_ctx b a cb s)"
      "max_wifi_role_number t = max_wifi_role_number s" "mcc_sup t = mcc_sup s"
  shows "queues_ok t"
proof -
  note qd = queues_okD [OF q]
  have qt: "set (ctx_queue t b') = set (ctx_queue s b') - {a}" for b'
    using qd(1) queues_disjoint [OF q a, of b'] close_ctx_queue(1) [OF t(2)]
    by (auto simp: set_remove1_eq)
  have one: "length (remove1 a (ctx_queue s b)) = length (ctx_queue s b) - 1" "ctx_queue s b \<noteq> []"
    using a by (auto simp: length_remove1)
  show ?thesis
    unfolding queues_ok_def t(1,3,4)
  proof (intro conjI allI impI)
    show "set (ctx_queue t HW_BAND_0) \<inter> set (ctx_queue t HW_BAND_1) = {}"
      using qd(4) unfolding qt by auto
    show "dom ((ctxs s)(a := None)) = set (ctx_queue t HW_BAND_0) \<union> set (ctx_queue t HW_BAND_1)"
      using qd(5) unfolding qt by auto
  next
    fix a' c' assume "((ctxs s)(a := None)) a' = Some c'"
    then have ca: "ctxs s a' = Some c'" by (cases "a' = a") simp_all
    show "cc_band_of (chan_def c') \<noteq> None" by (rule qd(6) [OF ca])
    show "\<exists>r < max_wifi_role_number s. bit (ctx_role_map c') r" by (rule qd(7) [OF ca])
    show "r < max_wifi_role_number s" if "bit (ctx_role_map c') r" for r by (rule qd(8) [OF ca that])
  next
    fix b'
    show "distinct (ctx_queue t b')"
      using qd(1) close_ctx_queue(1) [OF t(2)] by (simp add: distinct_remove1)
    show "length (ctx_queue t b') \<le> (if mcc_sup s then 2 else 1)"
      using qd(2) [of b'] qd(2) [of b] one close_ctx_queue(1) [OF t(2), of b'] by (cases "b' = b") simp_all
    show "cnt (chan_ctx_queue (band_ctrl t b')) = int (length (ctx_queue t b'))"
      using qd(3) one close_ctx_queue [OF t(2)] by (simp add: of_nat_diff Suc_le_eq)
  qed
qed

lemma counts_ok_close:
  assumes q: "queues_ok s" and n: "counts_ok s" and a: "a \<in> set (ctx_queue s b)"
    and c: "ctxs s a = Some c" "cc_band_of (chan_def c) = Some cb"
    and t: "ctxs t = (ctxs s)(a := None)" "band_ctrl t = band_ctrl (close_ctx b a cb s)"
      "set_psts t = set_psts s" "clr_psts t = clr_psts s"
  shows "counts_ok t"
proof -
  have sb: "sub_band s a = Some cb" "\<And>a'. a' \<noteq> a \<Longrightarrow> sub_band t a' = sub_band s a'"
    using c by (simp_all add: sub_band_def t)
  let ?num = "\<lambda>x b'. int (length (filter (\<lambda>a. sub_band s a = Some x) (ctx_queue s b')))"
  have num: "int (length (filter (\<lambda>a. sub_band t a = Some x) (ctx_queue t b'))) =
      ?num x b' - (if b' = b \<and> x = cb then 1 else 0)" for x b'
  proof (cases "b' = b")
    case True
    have d: "distinct (ctx_queue s b)" by (rule queues_okD [OF q])
    then have "filter (\<lambda>a. sub_band t a = Some x) (remove1 a (ctx_queue s b)) =
        filter (\<lambda>a. sub_band s a = Some x) (remove1 a (ctx_queue s b))"
      using sb(2) by (intro filter_cong) (auto simp: set_remove1_eq)
    also have "\<dots> = remove1 a (filter (\<lambda>a. sub_band s a = Some x) (ctx_queue s b))"
      using d by (simp add: distinct_remove1_removeAll removeAll_filter_not_eq conj_commute)
    finally have "filter (\<lambda>a. sub_band t a = Some x) (ctx_queue t b) =
        remove1 a (filter (\<lambda>a. sub_band s a = Some x) (ctx_queue s b))"
      using close_ctx_queue(1) [OF t(2)] by simp
    moreover have "filter (\<lambda>a. sub_band s a = Some x) (ctx_queue s b) \<noteq> []" if "x = cb"
      using a sb(1) that by (auto simp: filter_empty_conv)
    ultimately show ?thesis
      using True a sb(1) by (auto simp: length_remove1 of_nat_diff Suc_le_eq)
  next
    case False
    have "a \<notin> set (ctx_queue s b')" using queues_disjoint [OF q a, of b'] False by blast
    then have "filter (\<lambda>a. sub_band t a = Some x) (ctx_queue s b') =
        filter (\<lambda>a. sub_band s a = Some x) (ctx_queue s b')"
      by (intro filter_cong refl) (metis sb(2))
    then show ?thesis using False close_ctx_queue(1) [OF t(2)] by simp
  qed
  have old: "ccb_rc (band_ctrl s b') x = ?num x b'"
    "bit (chctx_band_map (band_ctrl s b')) (cc_band_code x) \<longleftrightarrow> ccb_rc (band_ctrl s b') x > 0" for b' x
    using n by (simp_all add: counts_ok_def)
  have rc: "ccb_rc (band_ctrl t b') x = ccb_rc (band_ctrl s b') x - (if b' = b \<and> x = cb then 1 else 0)"
    and bm: "bit (chctx_band_map (band_ctrl t b')) (cc_band_code x) \<longleftrightarrow>
      bit (chctx_band_map (band_ctrl s b')) (cc_band_code x) \<and>
      \<not> (b' = b \<and> x = cb \<and> ccb_rc (band_ctrl s b) cb = 1)" for b' x
    unfolding t(2) by (auto simp: close_ctx_def ccb_dec_def Let_def bit_and_not_BIT16)
  have ge: "0 \<le> ccb_rc (band_ctrl s b') x" for b' x unfolding old(1) by simp
  show ?thesis
    unfolding counts_ok_def
  proof (intro conjI allI)
    fix b' x
    show "ccb_rc (band_ctrl t b') x =
        int (length (filter (\<lambda>a. sub_band t a = Some x) (ctx_queue t b')))"
      unfolding rc num old(1) ..
    show "bit (chctx_band_map (band_ctrl t b')) (cc_band_code x) \<longleftrightarrow> ccb_rc (band_ctrl t b') x > 0"
      unfolding rc bm old(2) using ge [of b' x] by auto
  qed (use n t in \<open>simp_all add: counts_ok_def\<close>)
qed

lemma inv_close:
  assumes inv: "chanctx_inv s" and rl: "valid_rlink s (r, l)" "chanctx (get_rlink s (r, l)) = Some a"
    "hw_band (get_rlink s (r, l)) = b"
    and c: "ctxs s a = Some c" "cc_band_of (chan_def c) = Some cb"
    and only: "\<forall>i < max_wifi_role_number s. bit (ctx_role_map c) i \<longrightarrow> i = r"
  shows "chanctx_inv (close_ctx b a cb (point (r, l) None s))" (is "chanctx_inv ?t")
proof -
  have q: "queues_ok s" and n: "counts_ok s" and k: "links_ok s"
    using inv by (simp_all add: chanctx_inv_def)
  have aq: "a \<in> set (ctx_queue s b)"
    using link_in_ctx [OF k rl, of a] by (simp add: in_ctx_def)
  have bc: "band_ctrl ?t = band_ctrl (close_ctx b a cb s)" by (simp add: close_ctx_def)
  have "queues_ok ?t"
    by (rule queues_ok_close [OF q aq _ bc]) (simp_all add: close_ctx_def)
  moreover have "counts_ok ?t"
    by (rule counts_ok_close [OF q n aq c _ bc]) (simp_all add: close_ctx_def)
  moreover have "links_ok ?t"
  proof (rule links_okI [OF k rl(1,3)])
    show "wifi_roles ?t = wifi_roles (point (r, l) None s)" by (simp add: close_ctx_def)
    show "max_wifi_role_number ?t = max_wifi_role_number s" by (simp add: close_ctx_def)
    fix b' r' a'
    assume r': "r' < max_wifi_role_number s"
    have ia: "in_ctx s b r a' \<longleftrightarrow> a' = a" by (rule link_in_ctx [OF k rl])
    have gone: "\<not> in_ctx ?t b' r' a" by (simp add: in_ctx_def close_ctx_def)
    have others: "in_ctx ?t b' r' a' \<longleftrightarrow> in_ctx s b' r' a'" if "a' \<noteq> a"
      using that unfolding in_ctx_def close_ctx_queue(1) [OF bc]
      by (auto simp: close_ctx_def in_set_remove1)
    have "r' = r \<and> b' = b" if "in_ctx s b' r' a"
    proof -
      have "bit (ctx_role_map c) r'" "a \<in> set (ctx_queue s b')"
        using that c(1) by (simp_all add: in_ctx_def)
      then show ?thesis using only r' queues_disjoint [OF q aq, of b'] by blast
    qed
    then have mine: "in_ctx s b' r' a \<longrightarrow> r' = r \<and> b' = b" by blast
    show "in_ctx ?t b' r' a' = (if r' = r \<and> b' = b then None = Some a' else in_ctx s b' r' a')"
    proof (cases "a' = a")
      case True
      then show ?thesis using gone mine by auto
    next
      case False
      then show ?thesis using others ia by simp
    qed
  qed
  ultimately show ?thesis by (simp add: chanctx_inv_def)
qed

end
