(* ===== verification/Phl_Chanctx_Ops.thy ===== *)
theory Phl_Chanctx_Ops
  imports Phl_Chanctx_Inv
begin

section \<open>Channel contexts: the operations\<close>

text \<open>
  What the operations on channel contexts do. A band without its pointers is a list of channels
  with the roles on them; adding and removing a role refine operations on that list, the check
  before an addition predicts it, the recomputed channel of a context is the widest its roles need,
  and every history of the calls keeps the invariant. The locale \<open>role_channel\<close> states what changing
  the channel of a role needs of these operations.
\<close>

subsection \<open>What a band does, without the pointers\<close>

text \<open>
  A band is a list of channels with the sets of roles on them. A role joins the first channel it can
  share, which is widened for it; otherwise it opens a channel of its own if the band is idle or the
  chip can alternate between two channels.
\<close>

type_synonym chan_group = "rtw_chan_def \<times> nat set"

fun join_first :: "nat \<Rightarrow> rtw_chan_def \<Rightarrow> chan_group list \<Rightarrow> chan_group list option" where
  "join_first r d [] = None"
| "join_first r d ((g, R) # v) =
     (if phl_is_chbw_grouped g d then Some ((snd (phl_adjust_chandef d g True), insert r R) # v)
      else map_option (Cons (g, R)) (join_first r d v))"

definition spec_add :: "bool \<Rightarrow> nat \<Rightarrow> rtw_chan_def \<Rightarrow> chan_group list \<Rightarrow> chan_group list option" where
  "spec_add mcc r d v =
     (case join_first r d v of
        Some v' \<Rightarrow> Some v'
      | None \<Rightarrow> if length v < (if mcc then 2 else 1) then Some (v @ [(d, {r})]) else None)"

fun mode_of :: "chan_group list \<Rightarrow> mr_op_mode" where
  "mode_of [] = MR_OP_NONE"
| "mode_of [(g, R)] = (if card R = 1 then MR_OP_SWR else MR_OP_SCC)"
| "mode_of (_ # _ # _) = MR_OP_MCC"

definition ctx_roles :: "rtw_chan_ctx \<Rightarrow> nat set" where
  "ctx_roles c = {r. bit (ctx_role_map c) r}"

definition ctx_view :: "mr_st \<Rightarrow> addr \<Rightarrow> chan_group" where
  "ctx_view s a = (chan_def (the (ctxs s a)), ctx_roles (the (ctxs s a)))"

definition band_view :: "mr_st \<Rightarrow> phl_band_idx \<Rightarrow> chan_group list" where
  "band_view s b = map (ctx_view s) (ctx_queue s b)"

lemma ctx_view_cong: "ctxs t a = ctxs s a \<Longrightarrow> ctx_view t a = ctx_view s a"
  by (simp add: ctx_view_def)

lemma band_view_cong:
  "ctx_queue t b = ctx_queue s b \<Longrightarrow> (\<And>a. a \<in> set (ctx_queue s b) \<Longrightarrow> ctxs t a = ctxs s a) \<Longrightarrow>
   band_view t b = band_view s b"
  by (simp add: band_view_def ctx_view_def)

lemma finite_ctx_roles [simp]: "finite (ctx_roles c)"
proof -
  have "ctx_roles c \<subseteq> {..<8}"
  proof
    fix r assume "r \<in> ctx_roles c"
    then show "r \<in> {..<8}"
      using bit_imp_le_length [of "ctx_role_map c" r] by (simp add: ctx_roles_def)
  qed
  then show ?thesis by (rule finite_subset) simp
qed

lemma ctx_roles_upd [simp]:
  "ctx_roles (c\<lparr>chan_def := g\<rparr>) = ctx_roles c"
  by (simp add: ctx_roles_def)

lemma ctx_roles_or: "r < 8 \<Longrightarrow> ctx_roles (c\<lparr>ctx_role_map := ctx_role_map c OR BIT8 r\<rparr>) = insert r (ctx_roles c)"
  by (auto simp: ctx_roles_def bit_or_BIT8)

lemma ctx_roles_and_not:
  "r < 8 \<Longrightarrow> ctx_roles (c\<lparr>ctx_role_map := ctx_role_map c AND NOT (BIT8 r)\<rparr>) = ctx_roles c - {r}"
  by (auto simp: ctx_roles_def bit_and_not_BIT8)

lemma rnum_card:
  assumes "queues_ok s" "ctxs s a = Some c"
  shows "phl_chanctx_get_rnum s a = Some (card (ctx_roles c))"
proof -
  have "ctx_roles c = set (filter (\<lambda>i. bit (ctx_role_map c) i) [0..<max_wifi_role_number s])"
    using queues_okD(8) [OF assms] by (auto simp: ctx_roles_def)
  then have "card (ctx_roles c) = length (filter (\<lambda>i. bit (ctx_role_map c) i) [0..<max_wifi_role_number s])"
    by (simp only: distinct_card distinct_filter distinct_upt)
  then show ?thesis using assms(2) by (simp add: phl_chanctx_get_rnum_def)
qed

subsection \<open>The search for a channel to share\<close>

abbreviation grouped_with :: "mr_st \<Rightarrow> rtw_chan_def \<Rightarrow> addr \<Rightarrow> bool" where
  "grouped_with s d a \<equiv> phl_is_chbw_grouped (chan_def (the (ctxs s a))) d"

lemma grouped_loop_find:
  assumes "\<forall>a \<in> set q. \<exists>c. ctxs s a = Some c"
  shows "\<exists>lst'. grouped_loop s d q lst = Some (List.find (grouped_with s d) q, lst') \<and>
    (q \<noteq> [] \<longrightarrow> List.find (grouped_with s d) q = None \<longrightarrow> lst' = Some (last q))"
  using assms
proof (induction q arbitrary: lst)
  case (Cons a q)
  then obtain c where c: "ctxs s a = Some c" by auto
  show ?case
  proof (cases "grouped_with s d a")
    case True
    then show ?thesis using c by simp
  next
    case False
    obtain lst' where l: "grouped_loop s d q (Some a) = Some (List.find (grouped_with s d) q, lst')"
      "q \<noteq> [] \<longrightarrow> List.find (grouped_with s d) q = None \<longrightarrow> lst' = Some (last q)"
      using Cons by fastforce
    then show ?thesis using False c by (cases "q = []") auto
  qed
qed simp

lemma join_first_view:
  "join_first r d (map (ctx_view s) q) =
     (case List.find (grouped_with s d) q of
        None \<Rightarrow> None
      | Some a \<Rightarrow> Some (map (\<lambda>a'. if a' = a
            then (snd (phl_adjust_chandef d (chan_def (the (ctxs s a))) True),
                  insert r (ctx_roles (the (ctxs s a))))
            else ctx_view s a') q))" if "distinct q"
  using that
proof (induction q)
  case (Cons a q)
  show ?case
  proof (cases "grouped_with s d a")
    case True
    then show ?thesis using Cons.prems by (auto simp: ctx_view_def)
  next
    case False
    then have eq: "join_first r d (map (ctx_view s) (a # q)) =
        map_option (Cons (ctx_view s a)) (join_first r d (map (ctx_view s) q))"
      by (simp add: ctx_view_def)
    have "a \<noteq> x" if "List.find (grouped_with s d) q = Some x" for x
      using find_in_set [OF that] Cons.prems by auto
    then show ?thesis
      unfolding eq using False Cons by (auto split: option.splits)
  qed
qed simp

lemma adjust_same_channel:
  "cc_band_of (snd (phl_adjust_chandef d g True)) = cc_band_of g"
  by (rule cc_band_of_cong) (simp_all add: phl_adjust_chandef_def Let_def)

lemma mode_of_join:
  assumes "r \<notin> R" "finite R" "R \<noteq> {}"
  shows "mode_of [(g, insert r R)] = MR_OP_SCC"
  using assms by (simp add: card_gt_0_iff)

subsection \<open>Adding a role\<close>

text \<open>What the two branches of the operation do to a state of the invariant.\<close>

lemma create_opens:
  assumes "ctxs s a = None" "cc_band_of d = Some cb" "set_psts s = RTW_PHL_STATUS_SUCCESS"
    "cnt (chan_ctx_queue (band_ctrl s b)) < 2" "hw_band (get_rlink s rl) = b"
  shows "phl_chanctx_create s (Some a) r rl d =
    Some (RTW_PHL_STATUS_SUCCESS,
      point rl (Some a) (open_ctx b a \<lparr>chan_def = d, ctx_role_map = BIT8 r, dfs_enabled = False\<rparr> cb s))"
  using assms
  by (cases s)
    (simp add: phl_chanctx_create_def phl_chanctx_link_def phl_chanctx_rmap_set_def Let_def
      MAX_CHANCTX_QUEUE_NUM_def pq_push_def band_map_set_known open_ctx_def point_def
      upd_ctx_def upd_band_def ccb_inc_def)

lemma join_joins:
  assumes "ctxs s a = Some c" "\<not> bit (ctx_role_map c) r"
  shows "chanctx_join s b r rl n d a =
    (let g = snd (phl_adjust_chandef d (chan_def c) True);
         t = point rl (Some a)
               (upd_ctx a (c\<lparr>chan_def := g, ctx_role_map := ctx_role_map c OR BIT8 r\<rparr>) s)
     in if n = 1 then Some (True, g, MR_OP_SCC, set_op_mode b MR_OP_SCC t)
        else if n = 2 \<and> mcc_sup s then Some (True, g, MR_OP_MCC, set_op_mode b MR_OP_MCC t)
        else Some (True, g, MR_OP_NONE, t))"
  using assms
  by (simp add: chanctx_join_def phl_chanctx_rmap_set_def point_def Let_def split_beta upd_ctx_def)

lemma view_join:
  assumes "queues_ok s" "a \<in> set (ctx_queue s b)" "ctxs s a = Some c"
    and t: "band_ctrl t = band_ctrl s" "ctxs t = (ctxs s)(a := Some c')"
  shows "band_view t b = map (\<lambda>a'. if a' = a then (chan_def c', ctx_roles c') else ctx_view s a') (ctx_queue s b)"
    and "b' \<noteq> b \<Longrightarrow> band_view t b' = band_view s b'"
proof -
  show "band_view t b = map (\<lambda>a'. if a' = a then (chan_def c', ctx_roles c') else ctx_view s a') (ctx_queue s b)"
    by (simp add: band_view_def ctx_view_def t)
  assume "b' \<noteq> b"
  then have "a \<notin> set (ctx_queue s b')" using queues_disjoint [OF assms(1,2)] by blast
  then show "band_view t b' = band_view s b'"
    by (intro band_view_cong) (auto simp: t)
qed

lemma view_open:
  assumes "queues_ok s" "ctxs s a = None"
    and t: "band_ctrl t = band_ctrl (open_ctx b a c cb s)" "ctxs t = (ctxs s)(a := Some c)"
  shows "band_view t b = band_view s b @ [(chan_def c, ctx_roles c)]"
    and "b' \<noteq> b \<Longrightarrow> band_view t b' = band_view s b'"
proof -
  have notin: "a \<notin> set (ctx_queue s b')" for b'
    using queues_dom [OF assms(1), of a b'] assms(2) by auto
  have eq: "map (ctx_view t) (ctx_queue s b') = band_view s b'" for b'
    using notin [of b'] unfolding band_view_def by (intro map_cong) (auto simp: ctx_view_def t)
  show "band_view t b = band_view s b @ [(chan_def c, ctx_roles c)]"
    using eq [of b] unfolding band_view_def t(1) by (simp add: open_ctx_def pq_push_def ctx_view_def t)
  assume "b' \<noteq> b"
  then show "band_view t b' = band_view s b'"
    using eq [of b'] unfolding band_view_def t(1) by (simp add: open_ctx_def)
qed

lemma ctx_roles_single: "r < 8 \<Longrightarrow> ctx_roles \<lparr>chan_def = d, ctx_role_map = BIT8 r, dfs_enabled = e\<rparr> = {r}"
  using bit_or_BIT8 [of r 0] by (auto simp: ctx_roles_def)

text \<open>What the operations on contexts leave as it is.\<close>

definition same_links :: "mr_st \<Rightarrow> mr_st \<Rightarrow> bool" where
  "same_links s s' \<longleftrightarrow>
     max_wifi_role_number s' = max_wifi_role_number s \<and> mcc_sup s' = mcc_sup s \<and> is_db s' = is_db s \<and>
     (\<forall>r. rlink_num (wifi_roles s' r) = rlink_num (wifi_roles s r) \<and>
        (\<forall>l. hw_band (rlink (wifi_roles s' r) l) = hw_band (rlink (wifi_roles s r) l) \<and>
             chandef (rlink (wifi_roles s' r) l) = chandef (rlink (wifi_roles s r) l)))"

text \<open>The result of an addition in terms of the bands.\<close>

definition add_result ::
  "mr_st \<Rightarrow> phl_band_idx \<Rightarrow> nat \<times> nat \<Rightarrow> chan_group list option \<Rightarrow> bool \<Rightarrow> mr_st \<Rightarrow> bool" where
  "add_result s b rl spec ok s' \<longleftrightarrow>
     chanctx_inv s' \<and> same_links s s' \<and>
     (\<forall>b'. b' \<noteq> b \<longrightarrow> band_view s' b' = band_view s b') \<and>
     (case spec of
        Some v \<Rightarrow> ok \<and> band_view s' b = v \<and> op_mode (band_ctrl s' b) = mode_of v \<and>
                  chanctx (get_rlink s' rl) \<noteq> None
      | None \<Rightarrow> \<not> ok \<and> band_view s' b = band_view s b \<and> op_mode (band_ctrl s' b) = MR_OP_NONE \<and>
                chanctx (get_rlink s' rl) = None \<and> ctxs s' = ctxs s)"

lemma ctx_view_set_op_mode [simp]: "ctx_view (set_op_mode b m s) = ctx_view s"
  by (simp add: ctx_view_def fun_eq_iff)

lemma band_view_set_op_mode [simp]: "band_view (set_op_mode b m s) = band_view s"
  by (simp add: band_view_def ctx_view_def fun_eq_iff)

lemma add_result_set_op_mode [simp]:
  "add_result (set_op_mode b0 m s) b rl v ok s' = add_result s b rl v ok s'"
  by (cases v) (simp_all add: add_result_def same_links_def)

lemma new_refines:
  assumes inv: "chanctx_inv s" and rl: "valid_rlink s (r, l)" "chanctx (get_rlink s (r, l)) = None"
    "hw_band (get_rlink s (r, l)) = b"
    and a: "ctxs s a = None" and len: "length (ctx_queue s b) < (if mcc_sup s then 2 else 1)"
    and d: "cc_band_of d = Some cb" and m: "m = mode_of (band_view s b @ [(d, {r})])"
  shows "\<exists>s'. chanctx_new s b (Some a) r (r, l) m d = Some (True, d, m, s') \<and>
    add_result s b (r, l) (Some (band_view s b @ [(d, {r})])) True s'"
proof -
  let ?c = "\<lparr>chan_def = d, ctx_role_map = BIT8 r, dfs_enabled = False\<rparr>"
  let ?t = "point (r, l) (Some a) (open_ctx b a ?c cb s)"
  have q: "queues_ok s" and n: "counts_ok s" and k: "links_ok s"
    using inv by (simp_all add: chanctx_inv_def)
  have r: "r < 8" using rl(1) k by (auto simp: valid_rlink_def links_ok_def)
  have "cnt (chan_ctx_queue (band_ctrl s b)) < 2"
    using queues_okD(3) [OF q, of b] len by (simp split: if_splits)
  then have new: "chanctx_new s b (Some a) r (r, l) m d = Some (True, d, m, set_op_mode b m ?t)"
    using n a d rl(3) by (simp add: chanctx_new_def create_opens counts_ok_def)
  have bc: "band_ctrl ?t = band_ctrl (open_ctx b a ?c cb s)" and cx: "ctxs ?t = (ctxs s)(a := Some ?c)"
    by (simp_all add: open_ctx_def)
  have "chanctx_inv ?t"
    by (rule inv_open [OF inv rl a len]) (simp_all add: d)
  then have "add_result s b (r, l) (Some (band_view s b @ [(d, {r})])) True (set_op_mode b m ?t)"
    using view_open [OF q a bc cx] r m
    by (simp add: add_result_def ctx_roles_single same_links_def open_ctx_def)
  then show ?thesis using new by blast
qed


lemma ctx_num_two: "(n::nat) \<noteq> 1 \<Longrightarrow> 0 < n \<Longrightarrow> n \<le> (if m then 2 else 1) \<Longrightarrow> n = 2 \<and> m"
  by (cases m) auto

lemma ctx_num_cases: "(n::nat) = 0 \<or> n \<ge> (if m then 2 else 1) \<or> n = 1 \<and> m"
  by (cases m) auto

lemma join_mode:
  assumes q: "queues_ok s" and aq: "a \<in> set (ctx_queue s b)" and c: "ctxs s a = Some c"
    and nb: "r \<notin> ctx_roles c"
    and v: "v = map (\<lambda>a'. if a' = a then (g, insert r (ctx_roles c)) else ctx_view s a') (ctx_queue s b)"
  shows "length (ctx_queue s b) = 1 \<and> mode_of v = MR_OP_SCC \<or>
         length (ctx_queue s b) = 2 \<and> mcc_sup s \<and> mode_of v = MR_OP_MCC"
proof (cases "length (ctx_queue s b) = 1")
  case True
  then have q1: "ctx_queue s b = [a]" using aq by (cases "ctx_queue s b") auto
  have "ctx_roles c \<noteq> {}" using queues_okD(7) [OF q c] by (auto simp: ctx_roles_def)
  then have "mode_of v = MR_OP_SCC" using nb q1 mode_of_join [of r "ctx_roles c"] v by simp
  then show ?thesis using True by simp
next
  case False
  have len: "0 < length (ctx_queue s b)" "length (ctx_queue s b) \<le> (if mcc_sup s then 2 else 1)"
    using aq queues_okD(2) [OF q] by (auto simp: length_pos_if_in_set)
  then have two: "length (ctx_queue s b) = 2" "mcc_sup s"
    using ctx_num_two [OF False len] by blast+
  then obtain x y where "ctx_queue s b = [x, y]"
    by (auto simp: numeral_2_eq_2 length_Suc_conv)
  then have "mode_of v = MR_OP_MCC" using v by simp
  then show ?thesis using two by simp
qed

lemma join_refines:
  assumes inv: "chanctx_inv s" and rl: "valid_rlink s (r, l)" "chanctx (get_rlink s (r, l)) = None"
    "hw_band (get_rlink s (r, l)) = b"
    and f: "List.find (grouped_with s d) (ctx_queue s b) = Some a"
    and n: "n = cnt (chan_ctx_queue (band_ctrl s b))"
  shows "\<exists>g m v s'. chanctx_join s b r (r, l) n d a = Some (True, g, m, s') \<and> m = mode_of v \<and>
    join_first r d (band_view s b) = Some v \<and> add_result s b (r, l) (Some v) True s'"
proof -
  have q: "queues_ok s" and k: "links_ok s" using inv by (simp_all add: chanctx_inv_def)
  have r: "r < 8" using rl(1) k by (auto simp: valid_rlink_def links_ok_def)
  have aq: "a \<in> set (ctx_queue s b)" using find_in_set [OF f] by simp
  then obtain c where c: "ctxs s a = Some c" using queues_dom [OF q] by blast
  let ?g = "snd (phl_adjust_chandef d (chan_def c) True)"
  let ?c = "c\<lparr>chan_def := ?g, ctx_role_map := ctx_role_map c OR BIT8 r\<rparr>"
  let ?t = "point (r, l) (Some a) (upd_ctx a ?c s)"
  let ?v = "map (\<lambda>a'. if a' = a then (?g, insert r (ctx_roles c)) else ctx_view s a') (ctx_queue s b)"
  have nb: "\<not> bit (ctx_role_map c) r"
    using free_link_not_in_ctx [OF k rl, of a] aq c by (simp add: in_ctx_def)
  have jf: "join_first r d (band_view s b) = Some ?v"
    unfolding band_view_def join_first_view [OF queues_okD(1) [OF q]] f using c by simp
  have inv_t: "chanctx_inv ?t"
    by (rule inv_join [OF inv rl aq c adjust_same_channel])
  have "ctx_roles ?c = insert r (ctx_roles c)"
    using ctx_roles_or [OF r, of "c\<lparr>chan_def := ?g\<rparr>"] by (simp add: ctx_roles_def)
  then have view: "band_view ?t b = ?v" and other: "\<And>b'. b' \<noteq> b \<Longrightarrow> band_view ?t b' = band_view s b'"
    using view_join [OF q aq c, of ?t ?c] by simp_all
  have num: "n = int (length (ctx_queue s b))" using n queues_okD(3) [OF q] by simp
  let ?m = "mode_of ?v"
  have "r \<notin> ctx_roles c" using nb by (simp add: ctx_roles_def)
  then have "chanctx_join s b r (r, l) n d a = Some (True, ?g, ?m, set_op_mode b ?m ?t)"
    using join_mode [OF q aq c _ refl, of r ?g] num c nb by (auto simp: join_joins Let_def)
  moreover have "add_result s b (r, l) (Some ?v) True (set_op_mode b ?m ?t)"
    using inv_t view other by (simp add: add_result_def same_links_def)
  ultimately show ?thesis using jf by blast
qed

text \<open>What the caller has to provide for an addition.\<close>

definition add_pre :: "mr_st \<Rightarrow> addr \<Rightarrow> nat \<times> nat \<Rightarrow> rtw_chan_def \<Rightarrow> bool" where
  "add_pre s a rl d \<longleftrightarrow>
     chanctx_inv s \<and> valid_rlink s rl \<and> chanctx (get_rlink s rl) = None \<and> ctxs s a = None \<and>
     cc_band_of d \<noteq> None"

lemma place_refines:
  assumes pre: "add_pre s a (r, l) d" and b: "hw_band (get_rlink s (r, l)) = b"
    and none: "op_mode (band_ctrl s b) = MR_OP_NONE"
  shows "\<exists>ok d' m s'.
    chanctx_place s b (Some a) r (r, l) (phl_mr_get_chanctx_num s b) d = Some (ok, d', m, s') \<and>
    add_result s b (r, l) (spec_add (mcc_sup s) r d (band_view s b)) ok s' \<and>
    m = op_mode (band_ctrl s' b)"
proof -
  have inv: "chanctx_inv s" and rl: "valid_rlink s (r, l)" "chanctx (get_rlink s (r, l)) = None"
    and a: "ctxs s a = None"
    using pre by (simp_all add: add_pre_def)
  obtain cb where cb: "cc_band_of d = Some cb" using pre by (auto simp: add_pre_def)
  have q: "queues_ok s" using inv by (simp add: chanctx_inv_def)
  let ?q = "ctx_queue s b"
  let ?f = "List.find (grouped_with s d) ?q"
  have n: "phl_mr_get_chanctx_num s b = int (length ?q)"
    using queues_okD(3) [OF q, of b] by (simp add: phl_mr_get_chanctx_num_def)
  have "\<forall>x \<in> set ?q. \<exists>c. ctxs s x = Some c" using queues_dom [OF q] by blast
  then obtain lst where loop: "grouped_loop s d ?q None = Some (?f, lst)"
    and lst: "?q \<noteq> [] \<longrightarrow> ?f = None \<longrightarrow> lst = Some (last ?q)"
    using grouped_loop_find by blast
  have jf: "join_first r d (band_view s b) = None" if "?f = None"
    using join_first_view [OF queues_okD(1) [OF q], of r d s b] that by (simp add: band_view_def)
  have len: "length (band_view s b) = length ?q" by (simp add: band_view_def)
  note new = new_refines [OF inv rl b a _ cb]
  have opened: "op_mode (band_ctrl s' b) = m"
    if "add_result s b (r, l) (Some v) True s'" "m = mode_of v" for s' m v
    using that by (simp add: add_result_def)
  consider (empty) "?q = []" | (join) x where "?q \<noteq> []" "?f = Some x"
    | (full) "?f = None" "length ?q \<ge> (if mcc_sup s then 2 else 1)" "?q \<noteq> []"
    | (second) "?f = None" "length ?q = 1" "mcc_sup s"
  proof (cases ?f)
    case None
    then show ?thesis
      using ctx_num_cases [of "length ?q" "mcc_sup s"] that(1,3,4) by (metis length_0_conv)
  next
    case (Some x)
    then show ?thesis using that(1,2) by blast
  qed
  then show ?thesis
  proof cases
    case empty
    then have v: "band_view s b = []" by (simp add: band_view_def)
    have pos: "length ?q < (if mcc_sup s then 2 else 1)" using empty by simp
    obtain s' where "chanctx_new s b (Some a) r (r, l) MR_OP_SWR d = Some (True, d, MR_OP_SWR, s')"
      "add_result s b (r, l) (Some [(d, {r})]) True s'"
      using new [OF pos, of MR_OP_SWR] v by auto
    then show ?thesis
      using empty n v opened [of "[(d, {r})]" s'] by (auto simp: chanctx_place_def spec_add_def)
  next
    case join
    obtain g m v s' where "chanctx_join s b r (r, l) (phl_mr_get_chanctx_num s b) d x = Some (True, g, m, s')"
      "m = mode_of v" "join_first r d (band_view s b) = Some v" "add_result s b (r, l) (Some v) True s'"
      using join_refines [OF inv rl b join(2)] by (auto simp: phl_mr_get_chanctx_num_def)
    then show ?thesis
      using join n loop opened [of v s'] by (auto simp: chanctx_place_def spec_add_def)
  next
    case full
    obtain c where c: "ctxs s (last ?q) = Some c" using queues_dom [OF q] full(3) by (meson last_in_set)
    have "add_result s b (r, l) None False s"
      using inv rl(2) none by (simp add: add_result_def same_links_def)
    then show ?thesis
      using full n loop lst jf len none c
      by (auto simp: chanctx_place_def spec_add_def split: if_splits)
  next
    case second
    obtain c where c: "ctxs s (last ?q) = Some c"
      using queues_dom [OF q] second(2) by (metis last_in_set list.size(3) zero_neq_one)
    obtain y where "band_view s b = [y]" using len second(2) by (auto simp: length_Suc_conv)
    moreover obtain s' where "chanctx_new s b (Some a) r (r, l) MR_OP_MCC d = Some (True, d, MR_OP_MCC, s')"
      "add_result s b (r, l) (Some (band_view s b @ [(d, {r})])) True s'"
      using new [of MR_OP_MCC] second calculation by auto
    ultimately show ?thesis
      using second n loop lst jf c opened [of "band_view s b @ [(d, {r})]" s']
      by (auto simp: chanctx_place_def spec_add_def)
  qed
qed

lemma phl_chanctx_add_refines:
  assumes pre: "add_pre s a (r, l) d" and b: "hw_band (get_rlink s (r, l)) = b"
  shows "\<exists>ok d' info s'. phl_chanctx_add s (Some a) (Some r) (r, l) d = Some (ok, d', info, s') \<and>
    add_result s b (r, l) (spec_add (mcc_sup s) r d (band_view s b)) ok s' \<and>
    sugg_opmode info = op_mode (band_ctrl s' b)"
proof -
  let ?s = "set_op_mode b MR_OP_NONE s"
  have "add_pre ?s a (r, l) d" using pre by (simp add: add_pre_def valid_rlink_def)
  then obtain ok d' m s' where
    "chanctx_place ?s b (Some a) r (r, l) (phl_mr_get_chanctx_num ?s b) d = Some (ok, d', m, s')"
    "add_result ?s b (r, l) (spec_add (mcc_sup s) r d (band_view s b)) ok s'"
    "m = op_mode (band_ctrl s' b)"
    using place_refines [of ?s a r l d b] b by auto
  then show ?thesis
    using b by (simp add: phl_chanctx_add_def mk_cc_info_def Let_def)
qed


subsection \<open>The check before an addition\<close>

lemma chk_refines:
  assumes pre: "add_pre s a (r, l) d" and b: "hw_band (get_rlink s (r, l)) = b" and ch: "chan d \<noteq> 0"
  shows "\<exists>info. rtw_phl_chanctx_chk s (r, l) (Some d) =
      Some (spec_add (mcc_sup s) r d (band_view s b) \<noteq> None, info) \<and>
    sugg_opmode info =
      (case spec_add (mcc_sup s) r d (band_view s b) of None \<Rightarrow> MR_OP_NONE | Some v \<Rightarrow> mode_of v)"
proof -
  have inv: "chanctx_inv s" and rl: "valid_rlink s (r, l)" "chanctx (get_rlink s (r, l)) = None"
    using pre by (simp_all add: add_pre_def)
  have q: "queues_ok s" and k: "links_ok s" using inv by (simp_all add: chanctx_inv_def)
  let ?q = "ctx_queue s b"
  let ?f = "List.find (grouped_with s d) ?q"
  have n: "phl_mr_get_chanctx_num s b = int (length ?q)"
    using queues_okD(3) [OF q, of b] by (simp add: phl_mr_get_chanctx_num_def)
  have "\<forall>x \<in> set ?q. \<exists>c. ctxs s x = Some c" using queues_dom [OF q] by blast
  then obtain lst where loop: "grouped_loop s d ?q None = Some (?f, lst)"
    and lst: "?q \<noteq> [] \<longrightarrow> ?f = None \<longrightarrow> lst = Some (last ?q)"
    using grouped_loop_find by blast
  note jf = join_first_view [OF queues_okD(1) [OF q], of r d s b, folded band_view_def]
  have len: "length (band_view s b) = length ?q" by (simp add: band_view_def)
  note def = rtw_phl_chanctx_chk_def rtw_phl_chanctx_chk_by_band_def mk_cc_info_def spec_add_def
  show ?thesis
  proof (cases ?f)
    case (Some x)
    have xq: "x \<in> set ?q" using find_in_set [OF Some] by simp
    then obtain c where c: "ctxs s x = Some c" using queues_dom [OF q] by blast
    have nb: "r \<notin> ctx_roles c"
      using free_link_not_in_ctx [OF k rl b, of x] xq c by (simp add: in_ctx_def ctx_roles_def)
    obtain v where v: "join_first r d (band_view s b) = Some v"
      "v = map (\<lambda>a'. if a' = x then (snd (phl_adjust_chandef d (chan_def c) True), insert r (ctx_roles c))
                      else ctx_view s a') ?q"
      using jf Some c by simp
    from xq have "?q \<noteq> []" by auto
    then show ?thesis
      using Some b ch n loop join_mode [OF q xq c nb v(2)] v(1) by (auto simp: def)
  next
    case None
    then have jn: "join_first r d (band_view s b) = None" using jf by simp
    show ?thesis
    proof (cases "?q = []")
      case True
      then show ?thesis using jn b ch n by (simp add: def band_view_def)
    next
      case False
      obtain c where c: "ctxs s (last ?q) = Some c"
        using queues_dom [OF q] False by (meson last_in_set)
      have "length ?q = 1 \<or> length ?q \<ge> 2" using False by (cases ?q; cases "tl ?q") auto
      moreover have "mode_of (band_view s b @ [(d, {r})]) = MR_OP_MCC" if "length ?q = 1"
        using that len by (auto simp: length_Suc_conv)
      ultimately show ?thesis
        using None False jn b ch n loop lst c len by (auto simp: def)
    qed
  qed
qed

subsection \<open>Recomputing the channel of a context\<close>

text \<open>The loop without the pointers: the definitions of the links, in the order of the roles.\<close>

fun sync_fold :: "rtw_chan_def list \<Rightarrow> sync_st \<Rightarrow> sync_st" where
  "sync_fold [] y = y"
| "sync_fold (d # ds) y =
     (let (y', brk) = sync_body d y in if brk then y' else sync_fold ds y')"

definition role_link :: "mr_st \<Rightarrow> phl_band_idx \<Rightarrow> nat \<Rightarrow> rtw_wifi_role_link_t option" where
  "role_link s b r = sync_pick (wifi_roles s r) b [0..<rlink_num (wifi_roles s r)] None"

definition role_defs :: "mr_st \<Rightarrow> phl_band_idx \<Rightarrow> u8 \<Rightarrow> nat list \<Rightarrow> rtw_chan_def list" where
  "role_defs s b m rs = map (\<lambda>r. chandef (the (role_link s b r))) (filter (bit m) rs)"

lemma sync_pick_found:
  assumes "i \<in> set is" "hw_band (rlink w i) = b"
  shows "\<exists>j \<in> set is. hw_band (rlink w j) = b \<and> (\<forall>k. sync_pick w b is k = Some (rlink w j))"
  using assms
proof (induction "is")
  case (Cons x xs)
  show ?case
  proof (cases "hw_band (rlink w x) = b")
    case False
    then have "i \<in> set xs" using Cons.prems by auto
    then obtain j where "j \<in> set xs" "hw_band (rlink w j) = b" "\<forall>k. sync_pick w b xs k = Some (rlink w j)"
      using Cons by blast
    then show ?thesis using False by auto
  qed auto
qed simp

lemma role_link_found:
  assumes "l < rlink_num (wifi_roles s r)" "hw_band (get_rlink s (r, l)) = b"
  shows "\<exists>k. role_link s b r = Some k \<and>
    (\<forall>p. sync_pick (wifi_roles s r) b [0..<rlink_num (wifi_roles s r)] p = Some k)"
  using sync_pick_found [of l "[0..<rlink_num (wifi_roles s r)]" "wifi_roles s r" b] assms
  by (auto simp: role_link_def)

lemma sync_body_rlink:
  "sync_body d (y\<lparr>sync_rlink := k\<rparr>) =
     (fst (sync_body d y)\<lparr>sync_rlink := k\<rparr>, snd (sync_body d y))"
  by (simp add: sync_body_def)

lemma sync_fold_rlink:
  "sync_fold ds (y\<lparr>sync_rlink := k\<rparr>) = (sync_fold ds y)\<lparr>sync_rlink := k\<rparr>"
  by (induction ds arbitrary: y) (simp_all add: sync_body_rlink split_beta)

lemma sync_loop_fold:
  assumes "\<forall>r \<in> set rs. bit m r \<longrightarrow> (\<exists>l < rlink_num (wifi_roles s r). hw_band (get_rlink s (r, l)) = b)"
  shows "\<exists>k. sync_loop s b m rs y = Some ((sync_fold (role_defs s b m rs) y)\<lparr>sync_rlink := k\<rparr>)"
  using assms
proof (induction rs arbitrary: y)
  case Nil
  then show ?case by (simp add: role_defs_def) (metis sync_st.surjective sync_st.update_convs(6))
next
  case (Cons r rs)
  show ?case
  proof (cases "bit m r")
    case True
    then obtain k where k: "role_link s b r = Some k"
      "\<And>p. sync_pick (wifi_roles s r) b [0..<rlink_num (wifi_roles s r)] p = Some k"
      using Cons.prems role_link_found by (metis list.set_intros(1))
    have defs: "role_defs s b m (r # rs) = chandef k # role_defs s b m rs"
      using True k(1) by (simp add: role_defs_def)
    obtain y' brk where body: "sync_body (chandef k) y = (y', brk)" by fastforce
    obtain k' where "sync_loop s b m rs (y'\<lparr>sync_rlink := Some k\<rparr>) =
        Some ((sync_fold (role_defs s b m rs) (y'\<lparr>sync_rlink := Some k\<rparr>))\<lparr>sync_rlink := k'\<rparr>)"
      using Cons by fastforce
    then show ?thesis
      using True k(2) body by (auto simp: defs sync_body_rlink sync_fold_rlink)
  next
    case False
    then have "role_defs s b m (r # rs) = role_defs s b m rs" by (simp add: role_defs_def)
    then show ?thesis using False Cons by fastforce
  qed
qed

lemma sync_fold_channel:
  assumes "\<forall>d \<in> set ds. band d = B \<and> chan d = C" "sync_num y > 0 \<longrightarrow> band_ret y = B \<and> ch_ret y = C"
    "ds \<noteq> [] \<or> sync_num y > 0"
  shows "band_ret (sync_fold ds y) = B \<and> ch_ret (sync_fold ds y) = C"
  using assms
proof (induction ds arbitrary: y)
  case (Cons d ds)
  obtain y' brk where body: "sync_body d y = (y', brk)" by fastforce
  have d: "band d = B" "chan d = C" using Cons.prems(1) by simp_all
  have y': "band_ret y' = B \<and> ch_ret y' = C" "brk \<or> sync_num y' > 0"
    using body d Cons.prems(2) by (auto simp: sync_body_def split: if_splits)
  show ?case
  proof (cases brk)
    case True
    then show ?thesis using body y' by simp
  next
    case False
    have "band_ret (sync_fold ds y') = B \<and> ch_ret (sync_fold ds y') = C"
      by (rule Cons.IH) (use Cons.prems(1) y' False in simp_all)
    then show ?thesis using body False by simp
  qed
qed simp


text \<open>Every role of a context has its link on the band of the context.\<close>

lemma ctx_role_has_link:
  assumes "chanctx_inv s" "a \<in> set (ctx_queue s b)" "ctxs s a = Some c" "bit (ctx_role_map c) r"
  shows "\<exists>l < rlink_num (wifi_roles s r).
    hw_band (get_rlink s (r, l)) = b \<and> chanctx (get_rlink s (r, l)) = Some a"
proof -
  have q: "queues_ok s" and k: "links_ok s" using assms(1) by (simp_all add: chanctx_inv_def)
  have "r < max_wifi_role_number s" using queues_okD(8) [OF q assms(3,4)] .
  moreover have "in_ctx s b r a" using assms(2-4) by (simp add: in_ctx_def)
  ultimately show ?thesis using k by (simp add: links_ok_def owns_def)
qed

text \<open>The links of the roles of a map, in the order of the roles.\<close>

abbreviation map_defs :: "mr_st \<Rightarrow> phl_band_idx \<Rightarrow> u8 \<Rightarrow> rtw_chan_def list" where
  "map_defs s b m \<equiv> role_defs s b m [0..<max_wifi_role_number s]"

lemma sync_is_fold:
  assumes "ctxs s a = Some c"
    and "\<forall>r < max_wifi_role_number s. bit (ctx_role_map c) r \<longrightarrow>
      (\<exists>l < rlink_num (wifi_roles s r). hw_band (get_rlink s (r, l)) = b)"
  shows "phl_mr_chandef_sync False s b (Some a) (Some d) =
    (let y = sync_fold (map_defs s b (ctx_role_map c)) sync_init
     in if sync_num y = 0 then Some (RTW_PHL_STATUS_FAILURE, Some d)
        else Some (RTW_PHL_STATUS_SUCCESS,
          Some (d\<lparr>band := band_ret y, chan := ch_ret y, bw := bw_ret y, offset := offset_ret y\<rparr>)))"
proof -
  have "\<forall>r \<in> set [0..<max_wifi_role_number s]. bit (ctx_role_map c) r \<longrightarrow>
      (\<exists>l < rlink_num (wifi_roles s r). hw_band (get_rlink s (r, l)) = b)"
    using assms(2) by simp
  from sync_loop_fold [OF this] obtain k where
    "sync_loop s b (ctx_role_map c) [0..<max_wifi_role_number s] sync_init =
       Some ((sync_fold (map_defs s b (ctx_role_map c)) sync_init)\<lparr>sync_rlink := k\<rparr>)"
    by blast
  then show ?thesis using assms(1) by (simp add: phl_mr_chandef_sync_def Let_def)
qed

text \<open>
  What the loop asks for, without its state: definitions agree when they have the same band and
  primary channel and the widest of them have the same offset, and the loop wants this of every
  prefix. Then the result has the common channel, the largest width and the offset of the widest.
\<close>

definition agree :: "rtw_chan_def list \<Rightarrow> bool" where
  "agree ds \<longleftrightarrow>
     (\<forall>e \<in> set ds. \<forall>f \<in> set ds. band e = band f \<and> chan e = chan f) \<and>
     (\<forall>e \<in> set ds. \<forall>f \<in> set ds. bw e = Max (bw ` set ds) \<and> bw f = Max (bw ` set ds) \<longrightarrow> offset e = offset f)"

definition syncable :: "rtw_chan_def list \<Rightarrow> bool" where
  "syncable ds \<longleftrightarrow> (\<forall>k \<le> length ds. agree (take k ds))"

definition widest :: "rtw_chan_def list \<Rightarrow> rtw_chan_def \<Rightarrow> rtw_chan_def" where
  "widest ds d =
     (let w = Max (bw ` set ds)
      in d\<lparr>band := band (hd ds), chan := chan (hd ds), bw := w,
           offset := offset (hd (filter (\<lambda>e. bw e = w) ds))\<rparr>)"

text \<open>The loop state after the definitions \<open>ds\<close> it went through.\<close>

definition sync_at :: "rtw_chan_def list \<Rightarrow> sync_st \<Rightarrow> bool" where
  "sync_at ds y \<longleftrightarrow> sync_num y > 0 \<and> bw_ret y = Max (bw ` set ds) \<and>
     (\<forall>e \<in> set ds. band e = band_ret y \<and> chan e = ch_ret y \<and> (bw e = bw_ret y \<longrightarrow> offset e = offset_ret y))"

lemma Max_snoc:
  "ds \<noteq> [] \<Longrightarrow> Max (bw ` set (ds @ [d])) = max (bw d) (Max (bw ` set ds))"
  by simp

lemma widest_exists: "ds \<noteq> [] \<Longrightarrow> \<exists>e \<in> set ds. bw e = Max (bw ` set ds)"
  by (metis (no_types, lifting) List.finite_set Max_in finite_imageI image_iff image_is_empty set_empty)

lemma sync_at_step:
  assumes "ds \<noteq> []" "sync_at ds y"
  shows "if agree (ds @ [d]) then \<exists>y'. sync_body d y = (y', False) \<and> sync_at (ds @ [d]) y'
         else \<exists>y'. sync_body d y = (y', True) \<and> sync_num y' = 0"
proof -
  obtain w where w: "w \<in> set ds" "bw w = bw_ret y"
    using widest_exists [OF assms(1)] assms(2) by (auto simp: sync_at_def)
  have le: "bw e \<le> bw_ret y" if "e \<in> set ds" for e
    using that assms(2) by (simp add: sync_at_def del: less_eq_channel_width_def)
  consider (chan) "band_ret y \<noteq> band d \<or> ch_ret y \<noteq> chan d"
    | (wider) "band_ret y = band d" "ch_ret y = chan d" "bw_ret y < bw d"
    | (same) "band_ret y = band d" "ch_ret y = chan d" "bw_ret y = bw d"
    | (less) "band_ret y = band d" "ch_ret y = chan d" "bw d < bw_ret y"
    using linorder_less_linear by blast
  then show ?thesis
  proof cases
    case chan
    then have "\<not> agree (ds @ [d])" using assms(2) w(1) by (auto simp: agree_def sync_at_def)
    then show ?thesis using chan assms(2) by (auto simp: sync_body_def sync_at_def)
  next
    case wider
    then have m: "Max (bw ` set (ds @ [d])) = bw d"
      using Max_snoc [OF assms(1), of d] assms(2) by (simp add: sync_at_def max_def)
    have no: "bw e \<noteq> bw d" if "e \<in> set ds" for e
      using le [OF that] wider(3) by (auto simp: not_le [symmetric])
    have "agree (ds @ [d])"
      unfolding agree_def m using assms(2) wider no by (auto simp: sync_at_def)
    moreover have "sync_at (ds @ [d]) (y\<lparr>bw_ret := bw d, offset_ret := offset d, sync_num := sync_num y + 1\<rparr>)"
      unfolding sync_at_def m using assms(2) wider no by (auto simp: sync_at_def)
    ultimately show ?thesis using wider assms(2) by (simp add: sync_body_def sync_at_def)
  next
    case same
    then have m: "Max (bw ` set (ds @ [d])) = bw_ret y"
      using Max_snoc [OF assms(1), of d] assms(2) by (simp add: sync_at_def)
    show ?thesis
    proof (cases "offset_ret y = offset d")
      case True
      then have "agree (ds @ [d])" "sync_at (ds @ [d]) (y\<lparr>sync_num := sync_num y + 1\<rparr>)"
        unfolding agree_def sync_at_def m using assms(2) same by (auto simp: sync_at_def)
      then show ?thesis using True same assms(2) by (simp add: sync_body_def sync_at_def)
    next
      case False
      then have "\<not> agree (ds @ [d])"
        unfolding agree_def m using assms(2) same w by (auto simp: sync_at_def)
      then show ?thesis using False same assms(2) by (simp add: sync_body_def sync_at_def)
    qed
  next
    case less
    then have m: "Max (bw ` set (ds @ [d])) = bw_ret y"
      using Max_snoc [OF assms(1), of d] assms(2) by (simp add: sync_at_def max_def)
    have ne: "bw_ret y \<noteq> bw d" "\<not> bw_ret y < bw d" using less(3) by auto
    have "agree (ds @ [d])" "sync_at (ds @ [d]) (y\<lparr>sync_num := sync_num y + 1\<rparr>)"
      unfolding agree_def sync_at_def m using assms(2) less(1,2) ne by (auto simp: sync_at_def)
    then show ?thesis using less(1,2) ne assms(2) by (simp add: sync_body_def sync_at_def)
  qed
qed

lemma sync_fold_exact:
  assumes "pre \<noteq> []" "sync_at pre y" "\<forall>k. agree (take k pre)"
  shows "if syncable (pre @ ds) then sync_at (pre @ ds) (sync_fold ds y) else sync_num (sync_fold ds y) = 0"
  using assms
proof (induction ds arbitrary: pre y)
  case Nil
  then show ?case by (simp add: syncable_def)
next
  case (Cons d ds)
  note step = sync_at_step [OF Cons.prems(1,2), of d]
  show ?case
  proof (cases "agree (pre @ [d])")
    case True
    then obtain y' where y': "sync_body d y = (y', False)" "sync_at (pre @ [d]) y'" using step by auto
    have "\<forall>k. agree (take k (pre @ [d]))"
      using Cons.prems(3) True by (metis append_Nil2 le_eq_less_or_eq linorder_le_cases take_all take_append
          diff_is_0_eq take_0 length_append_singleton not_less_eq_eq)
    from Cons.IH [OF _ y'(2) this] show ?thesis using y'(1) by (simp split: if_splits)
  next
    case False
    then have "sync_num (sync_fold (d # ds) y) = 0" using step by auto
    moreover have "take (Suc (length pre)) (pre @ d # ds) = pre @ [d]" by simp
    then have "\<not> syncable (pre @ d # ds)"
      using False unfolding syncable_def by (metis length_append length_Cons le_add1 add_Suc_right Suc_le_mono)
    ultimately show ?thesis by simp
  qed
qed

lemma sync_body_init: "sync_body d sync_init =
  (sync_init\<lparr>band_ret := band d, ch_ret := chan d, bw_ret := bw d, offset_ret := offset d, sync_num := 1\<rparr>, False)"
  by (simp add: sync_body_def sync_init_def)

lemma sync_exact:
  assumes "ds \<noteq> []"
  shows "if syncable ds then sync_at ds (sync_fold ds sync_init) else sync_num (sync_fold ds sync_init) = 0"
proof -
  obtain d ds' where ds: "ds = d # ds'" using assms by (cases ds) auto
  let ?y = "sync_init\<lparr>band_ret := band d, ch_ret := chan d, bw_ret := bw d, offset_ret := offset d,
    sync_num := 1\<rparr>"
  have "agree (take k [d])" for k by (cases k) (simp_all add: agree_def)
  moreover have "sync_at [d] ?y" by (simp add: sync_at_def)
  ultimately show ?thesis
    using sync_fold_exact [of "[d]" ?y ds'] by (simp add: ds sync_body_init split: if_splits)
qed

lemma sync_at_widest:
  assumes "ds \<noteq> []" "sync_at ds y"
  shows "d\<lparr>band := band_ret y, chan := ch_ret y, bw := bw_ret y, offset := offset_ret y\<rparr> = widest ds d"
proof -
  let ?f = "filter (\<lambda>e. bw e = Max (bw ` set ds)) ds"
  have "?f \<noteq> []" using widest_exists [OF assms(1)] by (auto simp: filter_empty_conv)
  then have "hd ?f \<in> set ?f" by (rule hd_in_set)
  then have "offset (hd ?f) = offset_ret y" using assms(2) by (auto simp: sync_at_def)
  moreover have "hd ds \<in> set ds" using assms(1) by simp
  ultimately show ?thesis using assms(2) by (simp add: widest_def Let_def sync_at_def)
qed

lemma map_defs_nonempty:
  assumes "queues_ok s" "ctxs s a = Some c"
  shows "map_defs s b (ctx_role_map c) \<noteq> []"
  using queues_okD(7) [OF assms] by (auto simp: role_defs_def filter_empty_conv)

text \<open>
  C30. Synchronising a context, exactly: the definitions of its roles' links are looked at in the
  order of the roles. It succeeds exactly when in every prefix of them the band and the primary
  channel are the same and those of the largest width have the same offset; the result then has
  that channel, the largest width of all and the offset of the widest ones. In every other case it
  fails and leaves the definition as it was. (Links of a smaller width may have another offset, also
  one that does not fit the result.)
\<close>

theorem chandef_sync_widest:
  assumes "chanctx_inv s" "a \<in> set (ctx_queue s b)" "ctxs s a = Some c"
    and "ds = map_defs s b (ctx_role_map c)"
  shows "phl_mr_chandef_sync False s b (Some a) (Some d) =
    Some (if syncable ds then (RTW_PHL_STATUS_SUCCESS, Some (widest ds d))
          else (RTW_PHL_STATUS_FAILURE, Some d))"
proof -
  have q: "queues_ok s" using assms(1) by (simp add: chanctx_inv_def)
  have ne: "ds \<noteq> []" unfolding assms(4) by (rule map_defs_nonempty [OF q assms(3)])
  have links: "\<forall>r < max_wifi_role_number s. bit (ctx_role_map c) r \<longrightarrow>
      (\<exists>l < rlink_num (wifi_roles s r). hw_band (get_rlink s (r, l)) = b)"
    using ctx_role_has_link [OF assms(1-3)] by blast
  have "sync_num (sync_fold ds sync_init) \<noteq> 0 \<longleftrightarrow> syncable ds"
    using sync_exact [OF ne] by (auto simp: sync_at_def split: if_splits)
  then show ?thesis
    unfolding sync_is_fold [OF assms(3) links] assms(4) [symmetric]
    using sync_exact [OF ne] sync_at_widest [OF ne, of "sync_fold ds sync_init" d] by (auto simp: Let_def)
qed

subsection \<open>Removing a role\<close>

text \<open>A role leaves its channel; a channel without roles goes, any other is recomputed by \<open>f\<close>.\<close>

definition spec_leave ::
  "nat \<Rightarrow> (nat set \<Rightarrow> rtw_chan_def \<Rightarrow> rtw_chan_def) \<Rightarrow> chan_group list \<Rightarrow> chan_group list" where
  "spec_leave r f v =
     filter (\<lambda>(g, R). R \<noteq> {})
       (map (\<lambda>(g, R). if r \<in> R then (f (R - {r}) g, R - {r}) else (g, R)) v)"

text \<open>
  The definitions of the links of a set of roles, in the order of the roles. A context is recomputed to
  the widest of them when they can be synchronised, and left alone otherwise; this does not mention the
  loop, which \<open>resync_code\<close> relates to it.
\<close>

definition link_defs :: "mr_st \<Rightarrow> phl_band_idx \<Rightarrow> nat set \<Rightarrow> rtw_chan_def list" where
  "link_defs s b R =
     map (\<lambda>r. chandef (the (role_link s b r))) (filter (\<lambda>r. r \<in> R) [0..<max_wifi_role_number s])"

definition resync :: "mr_st \<Rightarrow> phl_band_idx \<Rightarrow> nat set \<Rightarrow> rtw_chan_def \<Rightarrow> rtw_chan_def" where
  "resync s b R g =
     (let ds = link_defs s b R in if ds \<noteq> [] \<and> syncable ds then widest ds g else g)"

definition sync_ok :: "mr_st \<Rightarrow> phl_band_idx \<Rightarrow> nat set \<Rightarrow> bool" where
  "sync_ok s b R \<longleftrightarrow> R = {} \<or> link_defs s b R \<noteq> [] \<and> syncable (link_defs s b R)"

definition sync_of :: "mr_st \<Rightarrow> phl_band_idx \<Rightarrow> nat set \<Rightarrow> sync_st" where
  "sync_of s b R = sync_fold (link_defs s b R) sync_init"

lemma sync_of_num: "sync_num (sync_of s b R) \<noteq> 0 \<longleftrightarrow> link_defs s b R \<noteq> [] \<and> syncable (link_defs s b R)"
  using sync_exact [of "link_defs s b R"]
  by (cases "link_defs s b R = []") (auto simp: sync_of_def sync_at_def sync_init_def split: if_splits)

lemma resync_code:
  "resync s b R g =
     (let y = sync_of s b R
      in if sync_num y = 0 then g
         else g\<lparr>band := band_ret y, chan := ch_ret y, bw := bw_ret y, offset := offset_ret y\<rparr>)"
proof (cases "sync_num (sync_of s b R) = 0")
  case True
  then show ?thesis using sync_of_num [of s b R] by (auto simp: resync_def Let_def)
next
  case False
  then have d: "link_defs s b R \<noteq> []" "syncable (link_defs s b R)" using sync_of_num by blast+
  then have "sync_at (link_defs s b R) (sync_of s b R)" using sync_exact [OF d(1)] by (simp add: sync_of_def)
  from sync_at_widest [OF d(1) this, of g] show ?thesis using False d by (simp add: resync_def Let_def)
qed

lemma sync_ok_code: "sync_ok s b R \<longleftrightarrow> R = {} \<or> sync_num (sync_of s b R) \<noteq> 0"
  unfolding sync_of_num by (simp add: sync_ok_def)

lemma sync_of_map: "sync_fold (map_defs s b (ctx_role_map c)) sync_init = sync_of s b (ctx_roles c)"
  by (simp add: sync_of_def link_defs_def role_defs_def ctx_roles_def)

lemma role_link_point:
  "r' \<noteq> r \<Longrightarrow> wifi_roles t = wifi_roles (point (r, l) x s) \<Longrightarrow> role_link t b r' = role_link s b r'"
  by (simp add: role_link_def point_def upd_rlink_def)

lemma sync_of_point:
  assumes "r \<notin> R" "wifi_roles t = wifi_roles (point (r, l) x s)"
    "max_wifi_role_number t = max_wifi_role_number s"
  shows "sync_of t b R = sync_of s b R"
proof -
  have "map (\<lambda>r. chandef (the (role_link t b r))) (filter (\<lambda>r. r \<in> R) [0..<max_wifi_role_number s]) =
      map (\<lambda>r. chandef (the (role_link s b r))) (filter (\<lambda>r. r \<in> R) [0..<max_wifi_role_number s])"
  proof (rule map_cong [OF refl])
    fix x assume "x \<in> set (filter (\<lambda>r. r \<in> R) [0..<max_wifi_role_number s])"
    then have "x \<noteq> r" using assms(1) by auto
    from role_link_point [OF this assms(2)]
    show "chandef (the (role_link t b x)) = chandef (the (role_link s b x))" by simp
  qed
  then show ?thesis unfolding sync_of_def link_defs_def assms(3) by (simp only:)
qed

text \<open>The links of the roles in \<open>R\<close> are on the channel of \<open>d\<close>.\<close>

definition on_channel :: "mr_st \<Rightarrow> phl_band_idx \<Rightarrow> nat set \<Rightarrow> rtw_chan_def \<Rightarrow> bool" where
  "on_channel s b R d \<longleftrightarrow>
     (\<forall>r \<in> R. band (chandef (the (role_link s b r))) = band d \<and>
              chan (chandef (the (role_link s b r))) = chan d)"

lemma resync_channel:
  assumes "on_channel s b R g"
  shows "cc_band_of (resync s b R g) = cc_band_of g"
proof (cases "sync_num (sync_of s b R) = 0")
  case False
  let ?ds = "map (\<lambda>r. chandef (the (role_link s b r))) (filter (\<lambda>r. r \<in> R) [0..<max_wifi_role_number s])"
  have "?ds \<noteq> []"
  proof
    assume "?ds = []"
    then have "sync_of s b R = sync_init" unfolding sync_of_def link_defs_def by simp
    then show False using False by (simp add: sync_init_def)
  qed
  moreover have "\<forall>d \<in> set ?ds. band d = band g \<and> chan d = chan g"
    using assms by (auto simp: on_channel_def)
  ultimately have "band_ret (sync_of s b R) = band g \<and> ch_ret (sync_of s b R) = chan g"
    unfolding sync_of_def link_defs_def by (intro sync_fold_channel) (simp_all add: sync_init_def)
  then show ?thesis using False by (intro cc_band_of_cong) (simp_all add: resync_code Let_def)
qed (simp add: resync_code)

text \<open>The mode that the contexts left on the band ask for.\<close>

lemma finish_mode:
  assumes inv: "chanctx_inv s" and tg: "target = None \<or> (\<exists>a \<in> set (ctx_queue s b). target = Some a)"
  shows "\<exists>cd. chanctx_del_finish s b target chdef =
    Some (int (length (band_view s b)), cd, set_op_mode b (mode_of (band_view s b)) s)"
proof -
  have q: "queues_ok s" using inv by (simp add: chanctx_inv_def)
  have n: "phl_mr_get_chanctx_num s b = int (length (ctx_queue s b))"
    using queues_okD(3) [OF q, of b] by (simp add: phl_mr_get_chanctx_num_def)
  have "length (ctx_queue s b) \<le> 2" using queues_okD(2) [OF q, of b] by (simp split: if_splits)
  then consider "ctx_queue s b = []" | x where "ctx_queue s b = [x]" | x y where "ctx_queue s b = [x, y]"
    by (cases "ctx_queue s b"; cases "tl (ctx_queue s b)"; cases "tl (tl (ctx_queue s b))") auto
  then show ?thesis
  proof cases
    case 1
    then show ?thesis using n by (simp add: chanctx_del_finish_def band_view_def)
  next
    case 2
    then obtain c where c: "ctxs s x = Some c" using queues_dom [OF q, of x b] by auto
    then show ?thesis
      using 2 n rnum_card [OF q c] by (simp add: chanctx_del_finish_def band_view_def ctx_view_def)
  next
    case 3
    then have n2: "phl_mr_get_chanctx_num s b = 2" "length (band_view s b) = 2"
      "mode_of (band_view s b) = MR_OP_MCC"
      using n by (simp_all add: band_view_def ctx_view_def)
    from tg show ?thesis
    proof
      assume "target = None"
      then show ?thesis using n2 by (simp add: chanctx_del_finish_def)
    next
      assume "\<exists>a \<in> set (ctx_queue s b). target = Some a"
      then obtain a c where "target = Some a" "ctxs s a = Some c" using queues_dom [OF q] by blast
      then show ?thesis using n2 by (simp add: chanctx_del_finish_def)
    qed
  qed
qed

text \<open>The steps of the two branches.\<close>

lemma rmap_clr_points:
  assumes "ctxs s a = Some c"
  shows "phl_chanctx_rmap_clr s r rl (Some a) = Some (RTW_PHL_STATUS_SUCCESS,
    upd_ctx a (c\<lparr>ctx_role_map := ctx_role_map c AND NOT (BIT8 r)\<rparr>) (point rl None s))"
  using assms by (simp add: phl_chanctx_rmap_clr_def point_def)

lemma unlink_closes:
  assumes "ctxs s a = Some c" "cc_band_of (chan_def c) = Some cb" "cnt (chan_ctx_queue (band_ctrl s b)) > 0"
    "chan_def c' = chan_def c"
  shows "\<exists>p s2. phl_chanctx_unlink (upd_ctx a c' (point rl None s)) b (Some a) = Some (p, s2) \<and>
    free_ctx a s2 = close_ctx b a cb (point rl None s)"
  using assms
  by (cases s) (simp add: phl_chanctx_unlink_def band_map_clr_known Let_def close_ctx_def point_def
      upd_rlink_def upd_band_def upd_ctx_def free_ctx_def)

lemma leave_view:
  assumes q: "queues_ok s" and mem: "\<And>a'. a' \<in> set q0 \<Longrightarrow> r \<in> snd (ctx_view s a') \<longleftrightarrow> a' = a"
    and ne: "\<And>a'. a' \<in> set q0 \<Longrightarrow> snd (ctx_view s a') \<noteq> {}" and R: "R = snd (ctx_view s a) - {r}"
  shows "spec_leave r f (map (ctx_view s) q0) =
    (if R = {} then map (ctx_view s) (filter (\<lambda>a'. a' \<noteq> a) q0)
     else map (\<lambda>a'. if a' = a then (f R (fst (ctx_view s a)), R) else ctx_view s a') q0)"
  using mem ne
proof (induction q0)
  case (Cons x xs)
  obtain g S where x: "ctx_view s x = (g, S)" by fastforce
  have step: "spec_leave r f (map (ctx_view s) (x # xs)) =
      (if r \<in> S then (if S - {r} = {} then [] else [(f (S - {r}) g, S - {r})])
       else if S = {} then [] else [(g, S)]) @ spec_leave r f (map (ctx_view s) xs)"
    by (simp add: spec_leave_def x)
  have IH: "spec_leave r f (map (ctx_view s) xs) =
    (if R = {} then map (ctx_view s) (filter (\<lambda>a'. a' \<noteq> a) xs)
     else map (\<lambda>a'. if a' = a then (f R (fst (ctx_view s a)), R) else ctx_view s a') xs)"
    using Cons by simp
  have S: "r \<in> S \<longleftrightarrow> x = a" "S \<noteq> {}" using Cons.prems [of x] x by simp_all
  show ?case
    unfolding step IH using S x R by (cases "x = a") auto
qed (simp add: spec_leave_def)

lemma role_view:
  assumes "chanctx_inv s" "valid_rlink s (r, l)" "chanctx (get_rlink s (r, l)) = Some a"
    "hw_band (get_rlink s (r, l)) = b" "a' \<in> set (ctx_queue s b)"
  shows "r \<in> snd (ctx_view s a') \<longleftrightarrow> a' = a" and "snd (ctx_view s a') \<noteq> {}"
proof -
  have q: "queues_ok s" and k: "links_ok s" using assms(1) by (simp_all add: chanctx_inv_def)
  obtain c where c: "ctxs s a' = Some c" using queues_dom [OF q assms(5)] by blast
  show "r \<in> snd (ctx_view s a') \<longleftrightarrow> a' = a"
    using link_in_ctx [OF k assms(2-4), of a'] assms(5) c
    by (simp add: in_ctx_def ctx_view_def ctx_roles_def)
  show "snd (ctx_view s a') \<noteq> {}"
    using queues_okD(7) [OF q c] c by (auto simp: ctx_view_def ctx_roles_def)
qed

text \<open>The result of a removal in terms of the bands.\<close>

definition del_result :: "mr_st \<Rightarrow> phl_band_idx \<Rightarrow> nat \<times> nat \<Rightarrow> chan_group list \<Rightarrow> bool \<Rightarrow> int \<Rightarrow> mr_st \<Rightarrow> bool" where
  "del_result s b rl v synced n s' \<longleftrightarrow>
     chanctx_inv s' \<and> same_links s s' \<and> dom (ctxs s') \<subseteq> dom (ctxs s) \<and>
     band_view s' b = v \<and> n = int (length v) \<and>
     (\<forall>b'. b' \<noteq> b \<longrightarrow> band_view s' b' = band_view s b') \<and>
     chanctx (get_rlink s' rl) = None \<and>
     op_mode (band_ctrl s' b) = (if synced then mode_of v else op_mode (band_ctrl s b))"

lemma del_closes:
  assumes inv: "chanctx_inv s" and rl: "valid_rlink s (r, l)" "chanctx (get_rlink s (r, l)) = Some a"
    "hw_band (get_rlink s (r, l)) = b"
    and c: "ctxs s a = Some c" "ctx_roles c = {r}"
  shows "\<exists>n cd s'. rtw_phl_chanctx_del s (Some r) (r, l) chdef = Some (n, cd, s') \<and>
    del_result s b (r, l) (spec_leave r f (band_view s b)) True n s'"
proof -
  have q: "queues_ok s" and k: "links_ok s" using inv by (simp_all add: chanctx_inv_def)
  have aq: "a \<in> set (ctx_queue s b)" using link_in_ctx [OF k rl, of a] by (simp add: in_ctx_def)
  have n: "phl_mr_get_chanctx_num s b = int (length (ctx_queue s b))" "phl_mr_get_chanctx_num s b > 0"
    "phl_mr_get_chanctx_num s b \<le> 2"
    using queues_okD(2,3) [OF q, of b] aq
    by (auto simp: phl_mr_get_chanctx_num_def length_pos_if_in_set split: if_splits)
  obtain cb where cb: "cc_band_of (chan_def c) = Some cb" using queues_okD(6) [OF q c(1)] by blast
  let ?t = "close_ctx b a cb (point (r, l) None s)"
  let ?c = "c\<lparr>ctx_role_map := ctx_role_map c AND NOT (BIT8 r)\<rparr>"
  have "\<forall>i < max_wifi_role_number s. bit (ctx_role_map c) i \<longrightarrow> i = r"
    using c(2) by (auto simp: ctx_roles_def)
  from inv_close [OF inv rl c(1) cb this] have inv_t: "chanctx_inv ?t" .
  obtain p s2 where un: "phl_chanctx_unlink (upd_ctx a ?c (point (r, l) None s)) b (Some a) = Some (p, s2)"
    "free_ctx a s2 = ?t"
    using unlink_closes [OF c(1) cb, of b ?c "(r, l)"] n by (auto simp: phl_mr_get_chanctx_num_def)
  obtain cd where fin: "chanctx_del_finish ?t b None (map_option (\<lambda>d. d\<lparr>chan := 0\<rparr>) chdef) =
      Some (int (length (band_view ?t b)), cd, set_op_mode b (mode_of (band_view ?t b)) ?t)"
    using finish_mode [OF inv_t] by blast
  have del: "rtw_phl_chanctx_del s (Some r) (r, l) chdef =
      Some (int (length (band_view ?t b)), cd, set_op_mode b (mode_of (band_view ?t b)) ?t)"
    using n rl c rnum_card [OF q c(1)] un fin
    by (simp add: rtw_phl_chanctx_del_def rmap_clr_points)
  have bt: "band_ctrl ?t = band_ctrl (close_ctx b a cb s)" by (simp add: close_ctx_def)
  have other: "band_view ?t b' = band_view s b'" if "b' \<noteq> b" for b'
  proof (rule band_view_cong)
    show "ctx_queue ?t b' = ctx_queue s b'" using close_ctx_queue(1) [OF bt] that by simp
    fix x assume "x \<in> set (ctx_queue s b')"
    then have "x \<noteq> a" using queues_disjoint [OF q aq, of b'] that by blast
    then show "ctxs ?t x = ctxs s x" by (simp add: close_ctx_def)
  qed
  have "remove1 a (ctx_queue s b) = filter (\<lambda>a'. a' \<noteq> a) (ctx_queue s b)"
    using queues_okD(1) [OF q, of b]
    by (simp add: distinct_remove1_removeAll removeAll_filter_not_eq eq_commute)
  then have "band_view ?t b = map (ctx_view ?t) (filter (\<lambda>a'. a' \<noteq> a) (ctx_queue s b))"
    using close_ctx_queue(1) [OF bt, of b] by (simp add: band_view_def)
  also have "\<dots> = map (ctx_view s) (filter (\<lambda>a'. a' \<noteq> a) (ctx_queue s b))"
    by (rule map_cong) (auto simp: ctx_view_def close_ctx_def)
  also have "\<dots> = spec_leave r f (band_view s b)"
    using leave_view [OF q role_view [OF inv rl] refl, of "ctx_queue s b" f] c
    by (simp add: band_view_def ctx_view_def)
  finally have "del_result s b (r, l) (spec_leave r f (band_view s b)) True
      (int (length (band_view ?t b))) (set_op_mode b (mode_of (band_view ?t b)) ?t)"
    using inv_t other by (auto simp: del_result_def same_links_def close_ctx_def)
  then show ?thesis using del by blast
qed


lemma upd_ctx_twice [simp]: "upd_ctx a c (upd_ctx a c' s) = upd_ctx a c s"
  by (simp add: upd_ctx_def)

lemma del_leaves:
  assumes inv: "chanctx_inv s" and rl: "valid_rlink s (r, l)" "chanctx (get_rlink s (r, l)) = Some a"
    "hw_band (get_rlink s (r, l)) = b"
    and c: "ctxs s a = Some c" and R: "R = ctx_roles c - {r}" "R \<noteq> {}"
    and ch: "on_channel s b R (chan_def c)"
  shows "\<exists>n cd s'. rtw_phl_chanctx_del s (Some r) (r, l) chdef = Some (n, cd, s') \<and>
    del_result s b (r, l) (spec_leave r (resync s b) (band_view s b)) (sync_ok s b R) n s'"
proof -
  have q: "queues_ok s" and k: "links_ok s" using inv by (simp_all add: chanctx_inv_def)
  have r: "r < 8" using rl(1) k by (auto simp: valid_rlink_def links_ok_def)
  have aq: "a \<in> set (ctx_queue s b)" and rc: "r \<in> ctx_roles c"
    using link_in_ctx [OF k rl, of a] c by (auto simp: in_ctx_def ctx_roles_def)
  have n: "phl_mr_get_chanctx_num s b = int (length (ctx_queue s b))" "phl_mr_get_chanctx_num s b > 0"
    "phl_mr_get_chanctx_num s b \<le> 2"
    using queues_okD(2,3) [OF q, of b] aq
    by (auto simp: phl_mr_get_chanctx_num_def length_pos_if_in_set split: if_splits)
  have "\<not> card (ctx_roles c) = 1"
    using R rc by (metis Diff_insert_absorb card_1_singletonE insert_absorb singletonD Diff_cancel)
  then have rnum: "card (ctx_roles c) \<noteq> 0" "card (ctx_roles c) \<noteq> 1" using rc by auto
  let ?g = "resync s b R (chan_def c)"
  let ?p = "point (r, l) None s"
  let ?c1 = "c\<lparr>ctx_role_map := ctx_role_map c AND NOT (BIT8 r)\<rparr>"
  let ?s1 = "upd_ctx a ?c1 ?p"
  let ?t = "upd_ctx a (?c1\<lparr>chan_def := ?g\<rparr>) ?p"
  have roles1: "ctx_roles ?c1 = R" using ctx_roles_and_not [OF r, of c] R by simp
  have left: "\<exists>r' < max_wifi_role_number s. r' \<noteq> r \<and> bit (ctx_role_map c) r'"
    using R queues_okD(8) [OF q c] by (auto simp: ctx_roles_def)
  have inv_t: "chanctx_inv ?t"
    using inv_leave [OF inv rl c resync_channel [OF ch] left] by (cases c) simp
  have links: "\<forall>i < max_wifi_role_number ?s1. bit (ctx_role_map ?c1) i \<longrightarrow>
      (\<exists>l < rlink_num (wifi_roles ?s1 i). hw_band (get_rlink ?s1 (i, l)) = b)"
    using ctx_role_has_link [OF inv aq c] r by (auto simp: bit_and_not_BIT8)
  have "sync_of ?s1 b R = sync_of s b R"
    using R by (intro sync_of_point [where r = r and l = l and x = None]) simp_all
  then have fold: "sync_fold (map_defs ?s1 b (ctx_role_map ?c1)) sync_init = sync_of s b R"
    unfolding sync_of_map roles1 .
  have c1: "ctxs ?s1 a = Some ?c1" by simp
  have sync: "phl_mr_chandef_sync False ?s1 b (Some a) (Some (chan_def c)) =
      Some (if sync_ok s b R then RTW_PHL_STATUS_SUCCESS else RTW_PHL_STATUS_FAILURE, Some ?g)"
    unfolding sync_is_fold [OF c1 links] fold using R(2)
    by (simp add: Let_def sync_ok_code resync_code)
  have upt: "phl_mr_chandef_upt ?s1 b (Some a) =
      Some (if sync_ok s b R then RTW_PHL_STATUS_SUCCESS else RTW_PHL_STATUS_FAILURE, ?t)"
    using sync by (simp add: phl_mr_chandef_upt_def)
  have joined: "band_view ?t b =
      map (\<lambda>a'. if a' = a then (?g, R) else ctx_view s a') (ctx_queue s b)"
    and other: "\<And>b'. b' \<noteq> b \<Longrightarrow> band_view ?t b' = band_view s b'"
    using view_join [OF q aq c, of ?t "?c1\<lparr>chan_def := ?g\<rparr>"] roles1 by simp_all
  have "R = snd (ctx_view s a) - {r}" using c R by (simp add: ctx_view_def)
  from leave_view [OF q role_view [OF inv rl] this, of "ctx_queue s b" "resync s b"]
  have view: "band_view ?t b = spec_leave r (resync s b) (band_view s b)"
    using R(2) c unfolding joined by (simp add: band_view_def ctx_view_def)
  obtain cd where fin: "chanctx_del_finish ?t b (Some a) (map_option (\<lambda>d. d\<lparr>chan := 0\<rparr>) chdef) =
      Some (int (length (band_view ?t b)), cd, set_op_mode b (mode_of (band_view ?t b)) ?t)"
    using finish_mode [OF inv_t, of "Some a" b] aq by auto
  show ?thesis
  proof (cases "sync_ok s b R")
    case True
    then have "rtw_phl_chanctx_del s (Some r) (r, l) chdef =
        Some (int (length (band_view ?t b)), cd, set_op_mode b (mode_of (band_view ?t b)) ?t)"
      using n rl c rnum rnum_card [OF q c] upt fin
      by (simp add: rtw_phl_chanctx_del_def rmap_clr_points)
    moreover have "del_result s b (r, l) (spec_leave r (resync s b) (band_view s b)) True
        (int (length (band_view ?t b))) (set_op_mode b (mode_of (band_view ?t b)) ?t)"
      using inv_t view other c by (auto simp: del_result_def same_links_def)
    ultimately show ?thesis using True by auto
  next
    case False
    then have "rtw_phl_chanctx_del s (Some r) (r, l) chdef =
        Some (phl_mr_get_chanctx_num s b, map_option (\<lambda>d. d\<lparr>chan := 0\<rparr>) chdef, ?t)"
      using n rl c rnum rnum_card [OF q c] upt
      by (simp add: rtw_phl_chanctx_del_def rmap_clr_points)
    moreover have "length (band_view ?t b) = length (ctx_queue s b)" by (simp add: band_view_def)
    then have "del_result s b (r, l) (spec_leave r (resync s b) (band_view s b)) False
        (phl_mr_get_chanctx_num s b) ?t"
      using inv_t view other c n(1) by (auto simp: del_result_def same_links_def)
    ultimately show ?thesis using False by auto
  qed
qed

subsection \<open>Additions, removals and the check\<close>

text \<open>
  C8. Adding a role to a channel refines the pointer-free band: the call returns, keeps the
  invariant and the other band, succeeds exactly when the band has a channel for the role, and then
  the contexts, the link of the role and the operating mode are those of that band. On a rejection
  the contexts stay, but the operating mode of the band is left at none.
\<close>

theorem chanctx_add_refines:
  assumes "add_pre s a (r, l) d" "chan d \<noteq> 0" "hw_band (get_rlink s (r, l)) = b"
    "is_db s \<or> b = HW_BAND_0"
  shows "\<exists>ok d' info s'.
    rtw_phl_chanctx_add s (Some a) (Some r) (r, l) (Some d) = Some (ok, Some d', Some info, s') \<and>
    add_result s b (r, l) (spec_add (mcc_sup s) r d (band_view s b)) ok s' \<and>
    sugg_opmode info = op_mode (band_ctrl s' b)"
  using phl_chanctx_add_refines [OF assms(1,3)] assms(2-4)
  by (auto simp: rtw_phl_chanctx_add_def)

lemma del_refines:
  assumes inv: "chanctx_inv s" and rl: "valid_rlink s (r, l)" "chanctx (get_rlink s (r, l)) = Some a"
    "hw_band (get_rlink s (r, l)) = b"
    and c: "ctxs s a = Some c" and ch: "on_channel s b (ctx_roles c - {r}) (chan_def c)"
  shows "\<exists>n cd s'. rtw_phl_chanctx_del s (Some r) (r, l) chdef = Some (n, cd, s') \<and>
    del_result s b (r, l) (spec_leave r (resync s b) (band_view s b))
      (sync_ok s b (ctx_roles c - {r})) n s'"
proof (cases "ctx_roles c - {r} = {}")
  case True
  have "links_ok s" using inv by (simp add: chanctx_inv_def)
  then have "r \<in> ctx_roles c" using link_in_ctx [OF _ rl, of a] c by (auto simp: in_ctx_def ctx_roles_def)
  then have "ctx_roles c = {r}" using True by auto
  then show ?thesis using del_closes [OF inv rl c] True by (simp add: sync_ok_code)
next
  case False
  then show ?thesis using del_leaves [OF inv rl c refl _ ch] by simp
qed


text \<open>A placed role is linked to a context that has the definition the caller gets back.\<close>

lemma place_returned:
  assumes "chanctx_place s b al r rl n d = Some (True, d', m, s')"
  shows "\<exists>a c. chanctx (get_rlink s' rl) = Some a \<and> ctxs s' a = Some c \<and> chan_def c = d'"
proof -
  have new: "\<exists>a c. chanctx (get_rlink s' rl) = Some a \<and> ctxs s' a = Some c \<and> chan_def c = d'"
    if "chanctx_new s b al r rl m1 d = Some (True, d', m, s')" for m1
    using that
    by (auto simp: chanctx_new_def phl_chanctx_create_def phl_chanctx_link_def phl_chanctx_rmap_set_def Let_def
        bind_eq_Some_conv split_beta split: option.splits if_splits)
  have join: "\<exists>a c. chanctx (get_rlink s' rl) = Some a \<and> ctxs s' a = Some c \<and> chan_def c = d'"
    if "chanctx_join s b r rl n d x = Some (True, d', m, s')" for x
    using that
    by (auto simp: chanctx_join_def phl_chanctx_rmap_set_def Let_def bind_eq_Some_conv split_beta split: if_splits)
  show ?thesis
    using assms new join
    by (auto simp: chanctx_place_def bind_eq_Some_conv split_beta split: if_splits option.splits)
qed

text \<open>
  C29. The check tells what the addition will do: it answers yes exactly when the addition succeeds,
  and suggests the operating mode that the addition reports and leaves the band in. When the
  addition succeeds the link of the role has a context, and the channel definition the caller gets
  back (which the check does not give) is the one of that context; when it does not, the link
  stays without one.
\<close>

theorem chk_predicts_add:
  assumes "add_pre s a (r, l) d" "chan d \<noteq> 0" "is_db s \<or> hw_band (get_rlink s (r, l)) = HW_BAND_0"
  shows "\<exists>ok d' info info' s'.
    rtw_phl_chanctx_chk s (r, l) (Some d) = Some (ok, info) \<and>
    rtw_phl_chanctx_add s (Some a) (Some r) (r, l) (Some d) = Some (ok, Some d', Some info', s') \<and>
    sugg_opmode info = sugg_opmode info' \<and>
    sugg_opmode info = op_mode (band_ctrl s' (hw_band (get_rlink s (r, l)))) \<and>
    (if ok then \<exists>a' c. chanctx (get_rlink s' (r, l)) = Some a' \<and> ctxs s' a' = Some c \<and> chan_def c = d'
     else chanctx (get_rlink s' (r, l)) = None)"
proof -
  let ?b = "hw_band (get_rlink s (r, l))"
  obtain info where chk: "rtw_phl_chanctx_chk s (r, l) (Some d) =
      Some (spec_add (mcc_sup s) r d (band_view s ?b) \<noteq> None, info)"
    "sugg_opmode info =
      (case spec_add (mcc_sup s) r d (band_view s ?b) of None \<Rightarrow> MR_OP_NONE | Some v \<Rightarrow> mode_of v)"
    using chk_refines [OF assms(1) refl assms(2)] by blast
  obtain ok d' info' s' where place: "phl_chanctx_add s (Some a) (Some r) (r, l) d = Some (ok, d', info', s')"
    and add: "add_result s ?b (r, l) (spec_add (mcc_sup s) r d (band_view s ?b)) ok s'"
    "sugg_opmode info' = op_mode (band_ctrl s' ?b)"
    using phl_chanctx_add_refines [OF assms(1) refl] by blast
  have "\<exists>a' c. chanctx (get_rlink s' (r, l)) = Some a' \<and> ctxs s' a' = Some c \<and> chan_def c = d'" if ok
    using place that
    by (auto simp: phl_chanctx_add_def Let_def bind_eq_Some_conv dest!: place_returned)
  moreover have "rtw_phl_chanctx_add s (Some a) (Some r) (r, l) (Some d) = Some (ok, Some d', Some info', s')"
    using place assms(2,3) by (auto simp: rtw_phl_chanctx_add_def)
  ultimately show ?thesis
    using chk add
    by (cases "spec_add (mcc_sup s) r d (band_view s ?b)") (auto simp: add_result_def)
qed

subsection \<open>The contract of a role's channel, and changing it\<close>

text \<open>
  What \<^verbatim>\<open>phl_mr_chandef_chg\<close> relies on: the role can leave its channel and ask for another, a
  rejected request changes nothing that a second one needs.
\<close>

locale role_channel =
  fixes inv :: "'s \<Rightarrow> bool" and busy :: "'s \<Rightarrow> bool" and movable :: "'s \<Rightarrow> bool"
    and view :: "'s \<Rightarrow> chan_group list" and left :: "'s \<Rightarrow> chan_group list"
    and place :: "rtw_chan_def \<Rightarrow> chan_group list \<Rightarrow> chan_group list option"
    and fresh :: "'a \<Rightarrow> 's \<Rightarrow> bool" and known :: "rtw_chan_def \<Rightarrow> bool" and old :: "'s \<Rightarrow> rtw_chan_def"
    and del :: "'s \<Rightarrow> 's option" and add :: "'a \<Rightarrow> rtw_chan_def \<Rightarrow> 's \<Rightarrow> (bool \<times> 's) option"
  assumes del_law: "inv s \<Longrightarrow> busy s \<Longrightarrow> movable s \<Longrightarrow>
      \<exists>s'. del s = Some s' \<and> inv s' \<and> \<not> busy s' \<and> view s' = left s \<and> old s' = old s \<and>
        (\<forall>a. fresh a s \<longrightarrow> fresh a s')"
    and add_law: "inv s \<Longrightarrow> \<not> busy s \<Longrightarrow> fresh a s \<Longrightarrow> known d \<Longrightarrow> place d (view s) = Some v \<Longrightarrow>
      \<exists>s'. add a d s = Some (True, s') \<and> inv s' \<and> busy s' \<and> view s' = v"
    and reject_law: "inv s \<Longrightarrow> \<not> busy s \<Longrightarrow> fresh a s \<Longrightarrow> known d \<Longrightarrow> place d (view s) = None \<Longrightarrow>
      \<exists>s'. add a d s = Some (False, s') \<and> inv s' \<and> \<not> busy s' \<and> view s' = view s \<and> old s' = old s \<and>
        (\<forall>a. fresh a s \<longrightarrow> fresh a s')"
begin

lemma any_add:
  assumes "inv s" "\<not> busy s" "fresh a s" "known d"
  shows "\<exists>s'. add a d s = Some (place d (view s) \<noteq> None, s') \<and> inv s' \<and>
    (busy s' \<longleftrightarrow> place d (view s) \<noteq> None)"
  using add_law [OF assms] reject_law [OF assms] by (cases "place d (view s)") auto

lemma change:
  assumes "inv s" "busy s" "movable s" "fresh a1 s" "fresh a2 s" "known d" "known (old s)"
  shows "\<exists>s1. del s = Some s1 \<and>
    (case place d (left s) of
       Some v \<Rightarrow> \<exists>s2. add a1 d s1 = Some (True, s2) \<and> inv s2 \<and> busy s2 \<and> view s2 = v
     | None \<Rightarrow> \<exists>s2 s3 ok. add a1 d s1 = Some (False, s2) \<and> add a2 (old s2) s2 = Some (ok, s3) \<and>
         inv s3 \<and> ok = (place (old s) (left s) \<noteq> None) \<and> busy s3 = ok)"
proof -
  obtain s1 where s1: "del s = Some s1" "inv s1" "\<not> busy s1" "view s1 = left s" "old s1 = old s"
    "fresh a1 s1" "fresh a2 s1"
    using del_law [OF assms(1-3)] assms(4,5) by blast
  show ?thesis
  proof (cases "place d (left s)")
    case None
    then obtain s2 where s2: "add a1 d s1 = Some (False, s2)" "inv s2" "\<not> busy s2" "view s2 = left s"
      "old s2 = old s" "fresh a2 s2"
      using reject_law [OF s1(2,3,6) assms(6)] s1(4,5,7) by auto
    then show ?thesis
      using any_add [OF s2(2,3,6), of "old s2"] assms(7) s1(1) None by auto
  next
    case (Some v)
    then show ?thesis using add_law [OF s1(2,3,6) assms(6)] s1(1,4) by auto
  qed
qed

end

text \<open>The contexts of one role link on its band keep the contract.\<close>

abbreviation known_chan :: "rtw_chan_def \<Rightarrow> bool" where
  "known_chan d \<equiv> cc_band_of d \<noteq> None \<and> chan d \<noteq> 0"

definition link_inv :: "bool \<Rightarrow> phl_band_idx \<Rightarrow> nat \<times> nat \<Rightarrow> mr_st \<Rightarrow> bool" where
  "link_inv mcc b rl s \<longleftrightarrow>
     chanctx_inv s \<and> valid_rlink s rl \<and> hw_band (get_rlink s rl) = b \<and> mcc_sup s = mcc \<and>
     (is_db s \<or> b = HW_BAND_0)"

definition link_movable :: "phl_band_idx \<Rightarrow> nat \<times> nat \<Rightarrow> mr_st \<Rightarrow> bool" where
  "link_movable b rl s \<longleftrightarrow>
     (\<forall>a c. chanctx (get_rlink s rl) = Some a \<longrightarrow> ctxs s a = Some c \<longrightarrow>
        on_channel s b (ctx_roles c - {fst rl}) (chan_def c))"

definition del_call :: "nat \<times> nat \<Rightarrow> mr_st \<Rightarrow> mr_st option" where
  "del_call rl s =
     map_option (\<lambda>(_, _, s'). s') (rtw_phl_chanctx_del s (Some (fst rl)) rl (Some chan_def_zero))"

definition add_call :: "nat \<times> nat \<Rightarrow> addr \<Rightarrow> rtw_chan_def \<Rightarrow> mr_st \<Rightarrow> (bool \<times> mr_st) option" where
  "add_call rl a d s =
     map_option (\<lambda>(ok, _, _, s'). (ok, s'))
       (rtw_phl_chanctx_add s (Some a) (Some (fst rl)) rl (Some d))"

lemma link_inv_same:
  "link_inv mcc b rl s \<Longrightarrow> same_links s s' \<Longrightarrow> chanctx_inv s' \<Longrightarrow> link_inv mcc b rl s'"
  by (simp add: link_inv_def same_links_def valid_rlink_def)

lemma add_call_result:
  assumes "link_inv mcc b rl s" "chanctx (get_rlink s rl) = None" "ctxs s a = None" "known_chan d"
  shows "\<exists>ok s'. add_call rl a d s = Some (ok, s') \<and>
    add_result s b rl (spec_add mcc (fst rl) d (band_view s b)) ok s' \<and> link_inv mcc b rl s'"
proof -
  obtain r l where rl: "rl = (r, l)" by fastforce
  have pre: "add_pre s a (r, l) d" and b: "hw_band (get_rlink s (r, l)) = b"
    and db: "is_db s \<or> b = HW_BAND_0" and m: "mcc_sup s = mcc"
    using assms rl by (simp_all add: link_inv_def add_pre_def)
  obtain ok d' info s' where
    add: "phl_chanctx_add s (Some a) (Some r) (r, l) d = Some (ok, d', info, s')"
    and res: "add_result s b (r, l) (spec_add mcc r d (band_view s b)) ok s'"
    using phl_chanctx_add_refines [OF pre b] m by blast
  have "add_call rl a d s = Some (ok, s')"
    using assms(4) b db add by (auto simp: rl add_call_def rtw_phl_chanctx_add_def)
  moreover have "link_inv mcc b rl s'"
    using link_inv_same [OF assms(1)] res by (simp add: add_result_def)
  ultimately show ?thesis using res by (simp add: rl)
qed

lemma del_call_result:
  assumes "link_inv mcc b rl s" "chanctx (get_rlink s rl) \<noteq> None" "link_movable b rl s"
  shows "\<exists>s'. del_call rl s = Some s' \<and> link_inv mcc b rl s' \<and> chanctx (get_rlink s' rl) = None \<and>
    band_view s' b = spec_leave (fst rl) (resync s b) (band_view s b) \<and>
    same_links s s' \<and> dom (ctxs s') \<subseteq> dom (ctxs s)"
proof -
  obtain r l where rl: "rl = (r, l)" by fastforce
  obtain a where a: "chanctx (get_rlink s (r, l)) = Some a" using assms(2) rl by auto
  have inv: "chanctx_inv s" and v: "valid_rlink s (r, l)" and b: "hw_band (get_rlink s (r, l)) = b"
    using assms(1) rl by (simp_all add: link_inv_def)
  have k: "links_ok s" using inv by (simp add: chanctx_inv_def)
  obtain c where c: "ctxs s a = Some c"
    using link_in_ctx [OF k v a b, of a] by (auto simp: in_ctx_def)
  have "on_channel s b (ctx_roles c - {r}) (chan_def c)"
    using assms(3) a c rl by (simp add: link_movable_def)
  from del_refines [OF inv v a b c this] obtain n cd s' where
    del: "rtw_phl_chanctx_del s (Some r) (r, l) (Some chan_def_zero) = Some (n, cd, s')"
    and res: "del_result s b (r, l) (spec_leave r (resync s b) (band_view s b))
      (sync_ok s b (ctx_roles c - {r})) n s'"
    by blast
  have "del_call rl s = Some s'" using del by (simp add: rl del_call_def)
  moreover have "link_inv mcc b rl s'"
    using link_inv_same [OF assms(1)] res by (simp add: del_result_def)
  ultimately show ?thesis using res by (simp add: rl del_result_def)
qed

interpretation rc: role_channel
    "link_inv mcc b rl" "\<lambda>s. chanctx (get_rlink s rl) \<noteq> None" "link_movable b rl"
    "\<lambda>s. band_view s b" "\<lambda>s. spec_leave (fst rl) (resync s b) (band_view s b)"
    "spec_add mcc (fst rl)" "\<lambda>a s. ctxs s a = None" "\<lambda>d. known_chan d" "\<lambda>s. chandef (get_rlink s rl)"
    "del_call rl" "add_call rl"
  for mcc b rl
proof (unfold_locales, goal_cases)
  case (1 s)
  then obtain s' where "del_call rl s = Some s'" "link_inv mcc b rl s'" "chanctx (get_rlink s' rl) = None"
    "band_view s' b = spec_leave (fst rl) (resync s b) (band_view s b)"
    "same_links s s'" "dom (ctxs s') \<subseteq> dom (ctxs s)"
    using del_call_result by blast
  moreover from this have "chandef (get_rlink s' rl) = chandef (get_rlink s rl)"
    by (simp add: same_links_def)
  ultimately show ?case by blast
next
  case (2 s a d v)
  then obtain ok s' where "add_call rl a d s = Some (ok, s')" "link_inv mcc b rl s'"
    "add_result s b rl (Some v) ok s'"
    using add_call_result [of mcc b rl s a d] by auto
  then show ?case by (auto simp: add_result_def)
next
  case (3 s a d)
  then obtain ok s' where "add_call rl a d s = Some (ok, s')" "link_inv mcc b rl s'"
    "add_result s b rl None ok s'"
    using add_call_result [of mcc b rl s a d] by auto
  then show ?case by (auto simp: add_result_def same_links_def)
qed

lemma chandef_chg_calls:
  "phl_mr_chandef_chg s (Some a1) (Some a2) (Some (fst rl)) rl d res =
     (case del_call rl s of
        None \<Rightarrow> None
      | Some s1 \<Rightarrow>
          (case rtw_phl_chanctx_add s1 (Some a1) (Some (fst rl)) rl (Some d) of
             None \<Rightarrow> None
           | Some (ok, d', _, s2) \<Rightarrow>
               if ok then Some (RTW_PHL_STATUS_SUCCESS, the d', s2)
               else map_option (\<lambda>(_, s3). (RTW_PHL_STATUS_FAILURE, res, s3))
                      (add_call rl a2 (chandef (get_rlink s2 rl)) s2)))"
  by (simp add: phl_mr_chandef_chg_def del_call_def add_call_def bind_eq_None_conv
      split: option.splits prod.splits bind_split)

text \<open>
  Changing the channel of a role: it leaves its channel and asks for the new one; when the band
  has no place for that the old channel is asked for again, and the role is back on a channel
  exactly when the band has a place for it. The invariant holds in every case.
\<close>

theorem chandef_chg_moves:
  assumes inv: "chanctx_inv s" and rl: "valid_rlink s rl" "hw_band (get_rlink s rl) = b"
    "chanctx (get_rlink s rl) \<noteq> None" "is_db s \<or> b = HW_BAND_0"
    and mov: "link_movable b rl s" and mem: "ctxs s a1 = None" "ctxs s a2 = None"
    and known: "known_chan d" "known_chan (chandef (get_rlink s rl))"
    and v: "v = spec_leave (fst rl) (resync s b) (band_view s b)"
  shows "\<exists>st res' s'. phl_mr_chandef_chg s (Some a1) (Some a2) (Some (fst rl)) rl d res = Some (st, res', s') \<and>
    chanctx_inv s' \<and>
    (case spec_add (mcc_sup s) (fst rl) d v of
       Some v' \<Rightarrow> st = RTW_PHL_STATUS_SUCCESS \<and> band_view s' b = v' \<and> chanctx (get_rlink s' rl) \<noteq> None
     | None \<Rightarrow> st = RTW_PHL_STATUS_FAILURE \<and>
         (chanctx (get_rlink s' rl) \<noteq> None \<longleftrightarrow>
          spec_add (mcc_sup s) (fst rl) (chandef (get_rlink s rl)) v \<noteq> None))"
proof -
  have li: "link_inv (mcc_sup s) b rl s" using inv rl by (simp add: link_inv_def)
  obtain s1 where s1: "del_call rl s = Some s1"
    and cases: "case spec_add (mcc_sup s) (fst rl) d v of
       Some v' \<Rightarrow> \<exists>s2. add_call rl a1 d s1 = Some (True, s2) \<and> link_inv (mcc_sup s) b rl s2 \<and>
         chanctx (get_rlink s2 rl) \<noteq> None \<and> band_view s2 b = v'
     | None \<Rightarrow> \<exists>s2 s3 ok. add_call rl a1 d s1 = Some (False, s2) \<and>
         add_call rl a2 (chandef (get_rlink s2 rl)) s2 = Some (ok, s3) \<and> link_inv (mcc_sup s) b rl s3 \<and>
         ok = (spec_add (mcc_sup s) (fst rl) (chandef (get_rlink s rl)) v \<noteq> None) \<and>
         (chanctx (get_rlink s3 rl) \<noteq> None) = ok"
    using rc.change [OF li rl(3) mov mem known] unfolding v by blast
  have run: "\<exists>d' i. rtw_phl_chanctx_add s1 (Some a1) (Some (fst rl)) rl (Some d) = Some (ok, d', i, s2)"
    if "add_call rl a1 d s1 = Some (ok, s2)" for ok s2
    using that by (auto simp: add_call_def)
  show ?thesis
  proof (cases "spec_add (mcc_sup s) (fst rl) d v")
    case None
    with cases obtain s2 s3 ok where c: "add_call rl a1 d s1 = Some (False, s2)"
      "add_call rl a2 (chandef (get_rlink s2 rl)) s2 = Some (ok, s3)" "link_inv (mcc_sup s) b rl s3"
      "ok = (spec_add (mcc_sup s) (fst rl) (chandef (get_rlink s rl)) v \<noteq> None)"
      "(chanctx (get_rlink s3 rl) \<noteq> None) = ok"
      by (simp only: option.case) blast
    obtain d' i where "rtw_phl_chanctx_add s1 (Some a1) (Some (fst rl)) rl (Some d) = Some (False, d', i, s2)"
      using run [OF c(1)] by blast
    then have "phl_mr_chandef_chg s (Some a1) (Some a2) (Some (fst rl)) rl d res =
        Some (RTW_PHL_STATUS_FAILURE, res, s3)"
      by (simp add: chandef_chg_calls s1 c(2))
    then show ?thesis using None c(3-5) by (simp add: link_inv_def)
  next
    case (Some v')
    with cases obtain s2 where c: "add_call rl a1 d s1 = Some (True, s2)" "link_inv (mcc_sup s) b rl s2"
      "chanctx (get_rlink s2 rl) \<noteq> None" "band_view s2 b = v'"
      by (simp only: option.case) blast
    obtain d' i where "rtw_phl_chanctx_add s1 (Some a1) (Some (fst rl)) rl (Some d) = Some (True, d', i, s2)"
      using run [OF c(1)] by blast
    then have "phl_mr_chandef_chg s (Some a1) (Some a2) (Some (fst rl)) rl d res =
        Some (RTW_PHL_STATUS_SUCCESS, the d', s2)"
      by (simp add: chandef_chg_calls s1)
    then show ?thesis using Some c(2-4) by (simp add: link_inv_def)
  qed
qed

subsection \<open>Histories\<close>



text \<open>
  The calls the core makes, in any order: a role link asks for a channel, leaves it, changes to
  another one, has the definition of its context recomputed, and the core writes the channel
  definition of a link. What an allocation returns is part of the call, \<open>None\<close> when there is no
  memory.
\<close>

datatype chanctx_call =
    Call_Add "nat \<times> nat" "addr option" rtw_chan_def
  | Call_Del "nat \<times> nat" "rtw_chan_def option"
  | Call_Chg "nat \<times> nat" "addr option" "addr option" rtw_chan_def rtw_chan_def
  | Call_Upt "nat \<times> nat"
  | Call_Write "nat \<times> nat" rtw_chan_def

fun do_call :: "chanctx_call \<Rightarrow> mr_st \<Rightarrow> mr_st option" where
  "do_call (Call_Add rl al d) s =
     map_option (\<lambda>(_, _, _, s'). s') (rtw_phl_chanctx_add s al (Some (fst rl)) rl (Some d))"
| "do_call (Call_Del rl chdef) s =
     map_option (\<lambda>(_, _, s'). s') (rtw_phl_chanctx_del s (Some (fst rl)) rl chdef)"
| "do_call (Call_Chg rl al1 al2 d res) s =
     map_option (\<lambda>(_, _, s'). s') (phl_mr_chandef_chg s al1 al2 (Some (fst rl)) rl d res)"
| "do_call (Call_Upt rl) s = map_option snd (rtw_phl_mr_upt_chandef s rl)"
| "do_call (Call_Write rl d) s = Some (upd_rlink rl (\<lambda>k. k\<lparr>chandef := d\<rparr>) s)"















subsection \<open>Errors\<close>

text \<open>The status variables of the two band-map functions are written nowhere else.\<close>

lemma band_map_stuck:
  "fst (phl_cc_band_map_set RTW_PHL_STATUS_FAILURE d h) = RTW_PHL_STATUS_FAILURE"
  "fst (phl_cc_band_map_clr RTW_PHL_STATUS_FAILURE d h) = RTW_PHL_STATUS_FAILURE"
  by (simp_all add: phl_cc_band_map_set_def phl_cc_band_map_clr_def)

definition stuck :: "mr_st \<Rightarrow> mr_st \<Rightarrow> bool" where
  "stuck s s' \<longleftrightarrow>
     (set_psts s = RTW_PHL_STATUS_FAILURE \<longrightarrow> set_psts s' = RTW_PHL_STATUS_FAILURE) \<and>
     (clr_psts s = RTW_PHL_STATUS_FAILURE \<longrightarrow> clr_psts s' = RTW_PHL_STATUS_FAILURE)"

lemma stuck_refl [simp]: "stuck s s"
  by (simp add: stuck_def)

lemma stuck_trans: "stuck s t \<Longrightarrow> stuck t u \<Longrightarrow> stuck s u"
  by (simp add: stuck_def)

lemma stuck_prims [simp]:
  "stuck s (upd_ctx a c t) = stuck s t" "stuck s (free_ctx a t) = stuck s t"
  "stuck s (set_op_mode b m t) = stuck s t" "stuck s (upd_rlink rl f t) = stuck s t"
  "stuck s (upd_band b g t) = stuck s t"
  by (simp_all add: stuck_def upd_ctx_def free_ctx_def set_op_mode_def upd_rlink_def upd_band_def)

lemma stuck_link:
  "phl_chanctx_link s b ao = Some (p, s') \<Longrightarrow> stuck s s'"
  "phl_chanctx_unlink s b ao = Some (p, s') \<Longrightarrow> stuck s s'"
  by (auto simp: phl_chanctx_link_def phl_chanctx_unlink_def Let_def bind_eq_Some_conv split_beta band_map_stuck
      stuck_def upd_band_def split: option.splits if_splits)

lemma stuck_rmap:
  "phl_chanctx_rmap_set s r rl ao = Some (p, s') \<Longrightarrow> stuck s s'"
  "phl_chanctx_rmap_clr s r rl ao = Some (p, s') \<Longrightarrow> stuck s s'"
  by (auto simp: phl_chanctx_rmap_set_def phl_chanctx_rmap_clr_def Let_def bind_eq_Some_conv
      split: option.splits if_splits)

lemma stuck_create: "phl_chanctx_create s al r rl d = Some (p, s') \<Longrightarrow> stuck s s'"
  by (auto simp: phl_chanctx_create_def Let_def bind_eq_Some_conv split: option.splits if_splits
      dest!: stuck_link(1) stuck_rmap(1) intro: stuck_trans simp: stuck_def upd_ctx_def)

lemma stuck_add: "rtw_phl_chanctx_add s al w rl d = Some (ok, d', i, s') \<Longrightarrow> stuck s s'"
proof -
  have new: "stuck t s'" if "chanctx_new t b al r rl m d = Some (ok, d', m', s')" for t b r m d d' m'
    using that by (auto simp: chanctx_new_def bind_eq_Some_conv split: if_splits dest: stuck_create)
  have join: "stuck t s'" if "chanctx_join t b r rl n d x = Some (ok, d', m', s')" for t b r n d x d' m'
    using that
    by (auto simp: chanctx_join_def Let_def bind_eq_Some_conv split_beta split: if_splits
        dest!: stuck_rmap(1) simp: stuck_def upd_ctx_def set_op_mode_def upd_band_def)
  have place: "stuck t s'" if "chanctx_place t b al r rl n d = Some (ok, d', m', s')" for t b r n d d' m'
    using that new join
    by (auto simp: chanctx_place_def bind_eq_Some_conv split_beta split: if_splits option.splits)
  have "stuck (set_op_mode b m t) s' \<Longrightarrow> stuck t s'" for b m t
    by (rule stuck_trans [of _ "set_op_mode b m t"]) simp_all
  then show "rtw_phl_chanctx_add s al w rl d = Some (ok, d', i, s') \<Longrightarrow> stuck s s'"
    using place
    by (fastforce simp: rtw_phl_chanctx_add_def phl_chanctx_add_def Let_def bind_eq_Some_conv
        split: option.splits if_splits)
qed

lemma stuck_upt: "phl_mr_chandef_upt s b ao = Some (p, s') \<Longrightarrow> stuck s s'"
  by (auto simp: phl_mr_chandef_upt_def bind_eq_Some_conv split_beta split: option.splits)

lemma stuck_del: "rtw_phl_chanctx_del s w rl d = Some (n, d', s') \<Longrightarrow> stuck s s'"
proof -
  have fin: "stuck t s'" if "chanctx_del_finish t b x d = Some (n, d', s')" for t b x d
    using that
    by (auto simp: chanctx_del_finish_def Let_def bind_eq_Some_conv split: list.splits option.splits if_splits)
  have "stuck t s'" if "stuck (free_ctx a t) s'" for a t
    using that by (simp add: stuck_def free_ctx_def)
  then show "rtw_phl_chanctx_del s w rl d = Some (n, d', s') \<Longrightarrow> stuck s s'"
    using fin
    by (fastforce simp: rtw_phl_chanctx_del_def Let_def bind_eq_Some_conv split: option.splits if_splits
        dest!: stuck_rmap(2) stuck_link(2) stuck_upt intro: stuck_trans)
qed

lemma stuck_call: "do_call c s = Some s' \<Longrightarrow> stuck s s'"
proof (cases c)
  case (Call_Chg rl al1 al2 d res)
  then show "do_call c s = Some s' \<Longrightarrow> stuck s s'"
    by (auto simp: phl_mr_chandef_chg_def bind_eq_Some_conv split: if_splits
        dest!: stuck_del stuck_add intro: stuck_trans)
qed (auto simp: rtw_phl_mr_upt_chandef_def dest: stuck_add stuck_del stuck_upt split: option.splits)

abbreviation later :: "mr_st \<Rightarrow> mr_st \<Rightarrow> bool" where
  "later \<equiv> (\<lambda>s s'. \<exists>c. do_call c s = Some s')\<^sup>*\<^sup>*"

lemma stuck_later: "later s t \<Longrightarrow> stuck s t"
  by (induction rule: rtranclp_induct) (auto intro: stuck_trans stuck_call)

lemma later_failure:
  "later s t \<Longrightarrow> set_psts s = RTW_PHL_STATUS_FAILURE \<Longrightarrow> set_psts t = RTW_PHL_STATUS_FAILURE"
  "later s t \<Longrightarrow> clr_psts s = RTW_PHL_STATUS_FAILURE \<Longrightarrow> clr_psts t = RTW_PHL_STATUS_FAILURE"
  using stuck_later by (simp_all add: stuck_def)

lemma create_stuck:
  assumes "set_psts t = RTW_PHL_STATUS_FAILURE"
  shows "\<exists>t'. phl_chanctx_create t (Some a) r rl d = Some (RTW_PHL_STATUS_FAILURE, t')"
  using assms band_map_stuck(1)
  by (simp add: phl_chanctx_create_def phl_chanctx_link_def Let_def split_beta)

lemma band_map_unknown:
  assumes "band d \<noteq> BAND_MAX" "cc_band_of d = None"
  shows "phl_cc_band_map_set p d h = (RTW_PHL_STATUS_FAILURE, h)"
    "phl_cc_band_map_clr p d h = (RTW_PHL_STATUS_FAILURE, h)"
  using assms
  by (cases "band d"; auto simp: cc_band_of_def phl_cc_band_map_set_def phl_cc_band_map_clr_def split: if_splits)+

text \<open>
  C36. One 5 or 6 GHz channel outside the known sub-bands disables the creation of contexts for good:
  its context stays in the queue although the call fails, no counter counts it, the status variable
  of the set function is left at failure, and after any further calls creating a context fails
  whatever the channel. The clear function does the same to its own variable: unlinking a context
  with such a channel leaves it at failure and the counters as they were, and after any further
  calls every clear reports failure, whatever the channel.
\<close>

theorem unknown_sub_band_sticks:
  assumes "band d \<noteq> BAND_MAX" "cc_band_of d = None"
  shows "(ctxs s a = None \<and> cnt (chan_ctx_queue (band_ctrl s b)) < 2 \<and> hw_band (get_rlink s rl) = b \<longrightarrow>
      (\<exists>s1. phl_chanctx_create s (Some a) r rl d = Some (RTW_PHL_STATUS_FAILURE, s1) \<and>
         ctx_queue s1 b = ctx_queue s b @ [a] \<and> ccb_rc (band_ctrl s1 b) = ccb_rc (band_ctrl s b) \<and>
         (\<forall>t a' r' rl' d'. later s1 t \<longrightarrow>
            (\<exists>t'. phl_chanctx_create t (Some a') r' rl' d' = Some (RTW_PHL_STATUS_FAILURE, t'))))) \<and>
    (ctxs s a = Some c \<and> chan_def c = d \<longrightarrow>
      (\<exists>p s1. phl_chanctx_unlink s b (Some a) = Some (p, s1) \<and>
         ccb_rc (band_ctrl s1 b) = ccb_rc (band_ctrl s b) \<and>
         (\<forall>t d' h. later s1 t \<longrightarrow> fst (phl_cc_band_map_clr (clr_psts t) d' h) = RTW_PHL_STATUS_FAILURE)))"
proof (intro conjI impI; (elim conjE)?)
  assume s: "ctxs s a = None" "cnt (chan_ctx_queue (band_ctrl s b)) < 2" "hw_band (get_rlink s rl) = b"
  have "\<exists>s1. phl_chanctx_create s (Some a) r rl d = Some (RTW_PHL_STATUS_FAILURE, s1) \<and>
    ctx_queue s1 b = ctx_queue s b @ [a] \<and> ccb_rc (band_ctrl s1 b) = ccb_rc (band_ctrl s b) \<and>
    set_psts s1 = RTW_PHL_STATUS_FAILURE"
    using s
    by (simp add: phl_chanctx_create_def phl_chanctx_link_def Let_def band_map_unknown [OF assms] pq_push_def
        MAX_CHANCTX_QUEUE_NUM_def)
  then show "\<exists>s1. phl_chanctx_create s (Some a) r rl d = Some (RTW_PHL_STATUS_FAILURE, s1) \<and>
    ctx_queue s1 b = ctx_queue s b @ [a] \<and> ccb_rc (band_ctrl s1 b) = ccb_rc (band_ctrl s b) \<and>
    (\<forall>t a' r' rl' d'. later s1 t \<longrightarrow>
       (\<exists>t'. phl_chanctx_create t (Some a') r' rl' d' = Some (RTW_PHL_STATUS_FAILURE, t')))"
    using create_stuck later_failure(1) by blast
next
  assume s: "ctxs s a = Some c" "chan_def c = d"
  have "\<exists>p s1. phl_chanctx_unlink s b (Some a) = Some (p, s1) \<and>
    ccb_rc (band_ctrl s1 b) = ccb_rc (band_ctrl s b) \<and> clr_psts s1 = RTW_PHL_STATUS_FAILURE"
    using s by (simp add: phl_chanctx_unlink_def Let_def band_map_unknown [OF assms] upd_band_def)
  then show "\<exists>p s1. phl_chanctx_unlink s b (Some a) = Some (p, s1) \<and>
    ccb_rc (band_ctrl s1 b) = ccb_rc (band_ctrl s b) \<and>
    (\<forall>t d' h. later s1 t \<longrightarrow> fst (phl_cc_band_map_clr (clr_psts t) d' h) = RTW_PHL_STATUS_FAILURE)"
    using band_map_stuck(2) later_failure(2) by metis
qed

text \<open>
  Reading the channel of a link without a context, with synchronisation asked for, while one
  context with several roles is on the band takes the lock of the queue twice and does not return.
\<close>

theorem get_chandef_sync_deadlocks:
  assumes inv: "chanctx_inv s" and q: "ctx_queue s (hw_band (get_rlink s rl)) = [a]"
    and c: "ctxs s a = Some c" "card (ctx_roles c) \<ge> 2" and rl: "chanctx (get_rlink s rl) = None"
  shows "phl_mr_get_chandef s rl True (Some d) = None"
proof -
  have qs: "queues_ok s" using inv by (simp add: chanctx_inv_def)
  have "phl_mr_get_chanctx_num s (hw_band (get_rlink s rl)) = 1"
    using queues_okD(3) [OF qs, of "hw_band (get_rlink s rl)"] q by (simp add: phl_mr_get_chanctx_num_def)
  then show ?thesis
    using q c rl rnum_card [OF qs c(1)] by (simp add: phl_mr_get_chandef_def phl_mr_chandef_sync_def)
qed

subsection \<open>Example states\<close>

text \<open>
  Three roles with one link each on band 0 and a chip that alternates between channels; no role is on a
  channel, then role 0 is on channel 36, then role 1 shares it with 80 MHz.
\<close>

definition idle_band :: hw_band_ctl_t where
  "idle_band = \<lparr>band_role_map = 7, op_mode = MR_OP_NONE, chctx_band_map = 0, ccb_rc = (\<lambda>_. 0),
     chan_ctx_queue = \<lparr>queue = [], cnt = 0\<rparr>\<rparr>"

definition ch36 :: "channel_width \<Rightarrow> rtw_chan_def" where
  "ch36 w = chan_def_zero\<lparr>band := BAND_ON_5G, chan := 36, bw := w,
     offset := (if w = CHANNEL_WIDTH_20 then CHAN_OFFSET_NO_EXT else CHAN_OFFSET_UPPER)\<rparr>"

definition mr_idle :: mr_st where
  "mr_idle = \<lparr>max_wifi_role_number = 3, mcc_sup = True, is_db = False, band_ctrl = (\<lambda>_. idle_band),
     wifi_roles = (\<lambda>r. \<lparr>rlink_num = 1, rlink = (\<lambda>_. \<lparr>hw_band = HW_BAND_0, chanctx = None,
       chandef = ch36 (if r = 0 then CHANNEL_WIDTH_20 else CHANNEL_WIDTH_80)\<rparr>)\<rparr>),
     ctxs = (\<lambda>_. None), set_psts = RTW_PHL_STATUS_SUCCESS, clr_psts = RTW_PHL_STATUS_SUCCESS\<rparr>"

definition mr_one :: mr_st where
  "mr_one = point (0, 0) (Some 7)
     (open_ctx HW_BAND_0 7 \<lparr>chan_def = ch36 CHANNEL_WIDTH_20, ctx_role_map = BIT8 0, dfs_enabled = False\<rparr>
        CC_BAND_5G_B1 mr_idle)"

definition mr_two :: mr_st where
  "mr_two = point (1, 0) (Some 7)
     (upd_ctx 7 \<lparr>chan_def = ch36 CHANNEL_WIDTH_80, ctx_role_map = BIT8 0 OR BIT8 1, dfs_enabled = False\<rparr> mr_one)"

lemma mr_idle_inv: "chanctx_inv mr_idle"
  by (auto simp: chanctx_inv_def queues_ok_def counts_ok_def links_ok_def owns_def in_ctx_def
      mr_idle_def idle_band_def inj_on_def)

lemma ch36_band [simp]: "cc_band_of (ch36 w) = Some CC_BAND_5G_B1" "chan (ch36 w) = 36" "band (ch36 w) = BAND_ON_5G"
  "bw (ch36 w) = w"
  by (simp_all add: ch36_def cc_band_of_def CH_5GHZ_BAND1_def)

lemma mr_idle_simps [simp]:
  "max_wifi_role_number mr_idle = 3" "mcc_sup mr_idle" "\<not> is_db mr_idle" "ctxs mr_idle a = None"
  "rlink_num (wifi_roles mr_idle r) = 1" "hw_band (rlink (wifi_roles mr_idle r) l) = HW_BAND_0"
  "chanctx (rlink (wifi_roles mr_idle r) l) = None" "ctx_queue mr_idle b = []"
  "chandef (rlink (wifi_roles mr_idle r) l) = ch36 (if r = 0 then CHANNEL_WIDTH_20 else CHANNEL_WIDTH_80)"
  by (simp_all add: mr_idle_def idle_band_def)

lemma mr_one_inv: "chanctx_inv mr_one"
  unfolding mr_one_def by (rule inv_open [OF mr_idle_inv]) (simp_all add: valid_rlink_def)

lemma mr_one_simps [simp]:
  "max_wifi_role_number mr_one = 3" "mcc_sup mr_one" "\<not> is_db mr_one"
  "ctxs mr_one = [7 \<mapsto> \<lparr>chan_def = ch36 CHANNEL_WIDTH_20, ctx_role_map = BIT8 0, dfs_enabled = False\<rparr>]"
  "rlink_num (wifi_roles mr_one r) = 1" "hw_band (rlink (wifi_roles mr_one r) l) = HW_BAND_0"
  "chanctx (rlink (wifi_roles mr_one r) l) = (if (r, l) = (0, 0) then Some 7 else None)"
  "ctx_queue mr_one HW_BAND_0 = [7]"
  "chandef (rlink (wifi_roles mr_one r) l) = ch36 (if r = 0 then CHANNEL_WIDTH_20 else CHANNEL_WIDTH_80)"
  by (simp_all add: mr_one_def open_ctx_def pq_push_def fun_eq_iff)

lemma mr_two_inv: "chanctx_inv mr_two"
  using inv_join [OF mr_one_inv, of 1 0 HW_BAND_0 7
      "\<lparr>chan_def = ch36 CHANNEL_WIDTH_20, ctx_role_map = BIT8 0, dfs_enabled = False\<rparr>" "ch36 CHANNEL_WIDTH_80"]
  by (simp add: mr_two_def valid_rlink_def)

lemma mr_two_simps [simp]:
  "max_wifi_role_number mr_two = 3" "mcc_sup mr_two" "\<not> is_db mr_two"
  "ctxs mr_two = [7 \<mapsto> \<lparr>chan_def = ch36 CHANNEL_WIDTH_80, ctx_role_map = BIT8 0 OR BIT8 1, dfs_enabled = False\<rparr>]"
  "rlink_num (wifi_roles mr_two r) = 1" "hw_band (rlink (wifi_roles mr_two r) l) = HW_BAND_0"
  "chanctx (rlink (wifi_roles mr_two r) l) = (if (r, l) = (0, 0) \<or> (r, l) = (1, 0) then Some 7 else None)"
  "ctx_queue mr_two HW_BAND_0 = [7]"
  "chandef (rlink (wifi_roles mr_two r) l) = ch36 (if r = 0 then CHANNEL_WIDTH_20 else CHANNEL_WIDTH_80)"
  by (auto simp: mr_two_def fun_eq_iff)

lemma mr_two_roles [simp]:
  "ctx_roles \<lparr>chan_def = d, ctx_role_map = BIT8 0 OR BIT8 (Suc 0), dfs_enabled = e\<rparr> = {0, 1}"
  using bit_or_BIT8 [of 1 "BIT8 0"] bit_or_BIT8 [of 0 0] by (auto simp: ctx_roles_def)

lemma mr_one_roles [simp]: "ctx_roles \<lparr>chan_def = d, ctx_role_map = BIT8 0, dfs_enabled = e\<rparr> = {0}"
  by (rule ctx_roles_single) simp

lemma mr_one_join:
  "spec_add True (Suc 0) (ch36 CHANNEL_WIDTH_80) (band_view mr_one HW_BAND_0) =
     Some [(ch36 CHANNEL_WIDTH_80, {0, 1})]"
  by (simp add: spec_add_def band_view_def ctx_view_def phl_is_chbw_grouped_def wide_40_160_def
      phl_adjust_chandef_def phl_adjust_new_def ch36_def chan_def_zero_def phl_upt_offset_by_chbw_def
      phl_upt_offset_by_chbw_5g_def ch5_upper_def insert_commute Let_def)

lemma mr_one_pre: "add_pre mr_one 8 (Suc 0, 0) (ch36 CHANNEL_WIDTH_80)"
  using mr_one_inv by (simp add: add_pre_def valid_rlink_def)

theorem chanctx_add_refines_witness:
  "\<exists>ok d' info s'. rtw_phl_chanctx_add mr_one (Some 8) (Some 1) (1, 0) (Some (ch36 CHANNEL_WIDTH_80)) =
       Some (ok, Some d', Some info, s') \<and>
     ok \<and> band_view s' HW_BAND_0 = [(ch36 CHANNEL_WIDTH_80, {0, 1})] \<and>
     op_mode (band_ctrl s' HW_BAND_0) = MR_OP_SCC"
  using chanctx_add_refines [OF mr_one_pre, of HW_BAND_0] mr_one_join
  by (auto simp: add_result_def)

theorem chk_predicts_add_witness:
  "\<exists>ok d' info info' s'.
     rtw_phl_chanctx_chk mr_one (1, 0) (Some (ch36 CHANNEL_WIDTH_80)) = Some (ok, info) \<and>
     rtw_phl_chanctx_add mr_one (Some 8) (Some 1) (1, 0) (Some (ch36 CHANNEL_WIDTH_80)) =
       Some (ok, Some d', Some info', s') \<and> sugg_opmode info = op_mode (band_ctrl s' HW_BAND_0)"
  using chk_predicts_add [OF mr_one_pre] by (simp del: split_paired_Ex) blast

lemma mr_two_defs:
  "role_link mr_two HW_BAND_0 r = Some (rlink (wifi_roles mr_two r) 0)"
  by (simp add: role_link_def)

theorem chandef_sync_widest_witness:
  "phl_mr_chandef_sync False mr_two HW_BAND_0 (Some 7) (Some (ch36 CHANNEL_WIDTH_20)) =
     Some (RTW_PHL_STATUS_SUCCESS, Some (ch36 CHANNEL_WIDTH_80))"
proof -
  have bits: "bit (BIT8 0 OR BIT8 1) (0::nat)" "bit (BIT8 0 OR BIT8 1) (Suc 0)"
    "\<not> bit (BIT8 0 OR BIT8 1) (2::nat)"
    using bit_or_BIT8 [of 1 "BIT8 0"] bit_or_BIT8 [of 0 0] by simp_all
  have defs: "map_defs mr_two HW_BAND_0 (BIT8 0 OR BIT8 1) = [ch36 CHANNEL_WIDTH_20, ch36 CHANNEL_WIDTH_80]"
    using bits by (simp add: role_defs_def mr_two_defs upt_rec numeral_3_eq_3 numeral_2_eq_2)
  have "agree (take k [ch36 CHANNEL_WIDTH_20, ch36 CHANNEL_WIDTH_80])" for k
    by (cases k; cases "k - 1") (simp_all add: agree_def max_def ch36_def)
  then have "syncable [ch36 CHANNEL_WIDTH_20, ch36 CHANNEL_WIDTH_80]" by (simp add: syncable_def)
  moreover have "widest [ch36 CHANNEL_WIDTH_20, ch36 CHANNEL_WIDTH_80] (ch36 CHANNEL_WIDTH_20) = ch36 CHANNEL_WIDTH_80"
    by (simp add: widest_def max_def ch36_def chan_def_zero_def)
  ultimately show ?thesis
    using chandef_sync_widest [OF mr_two_inv, of 7 HW_BAND_0
        "\<lparr>chan_def = ch36 CHANNEL_WIDTH_80, ctx_role_map = BIT8 0 OR BIT8 1, dfs_enabled = False\<rparr>"
        "[ch36 CHANNEL_WIDTH_20, ch36 CHANNEL_WIDTH_80]" "ch36 CHANNEL_WIDTH_20"] defs
    by simp
qed


theorem chandef_chg_moves_witness:
  "\<exists>st res' s'. phl_mr_chandef_chg mr_one (Some 8) (Some 9) (Some 0) (0, 0) (ch36 CHANNEL_WIDTH_80)
       chan_def_zero = Some (st, res', s') \<and>
     st = RTW_PHL_STATUS_SUCCESS \<and> band_view s' HW_BAND_0 = [(ch36 CHANNEL_WIDTH_80, {0})]"
proof -
  have "link_movable HW_BAND_0 (0, 0) mr_one"
    by (simp add: link_movable_def on_channel_def)
  moreover have "spec_leave 0 f (band_view mr_one HW_BAND_0) = []" for f
    by (simp add: spec_leave_def band_view_def ctx_view_def)
  ultimately show ?thesis
    using chandef_chg_moves [OF mr_one_inv, of "(0, 0)" HW_BAND_0 8 9 "ch36 CHANNEL_WIDTH_80"
        "[]" chan_def_zero]
    by (auto simp: valid_rlink_def spec_add_def)
qed


theorem unknown_sub_band_sticks_witness:
  "\<exists>s1 t'. phl_chanctx_create mr_idle (Some 7) 0 (0, 0)
       (chan_def_zero\<lparr>band := BAND_ON_5G, chan := 68\<rparr>) = Some (RTW_PHL_STATUS_FAILURE, s1) \<and>
     ctx_queue s1 HW_BAND_0 = [7] \<and>
     phl_chanctx_create s1 (Some 8) 1 (1, 0) (ch36 CHANNEL_WIDTH_20) = Some (RTW_PHL_STATUS_FAILURE, t')"
  using unknown_sub_band_sticks [of "chan_def_zero\<lparr>band := BAND_ON_5G, chan := 68\<rparr>" mr_idle 7 HW_BAND_0 "(0, 0)" 0]
  by (fastforce simp: cc_band_of_def CH_5GHZ_BAND1_def CH_5GHZ_BAND2_def CH_5GHZ_BAND3_def
      CH_5GHZ_BAND4_def mr_idle_def idle_band_def)

theorem get_chandef_sync_deadlocks_witness:
  "phl_mr_get_chandef mr_two (2, 0) True (Some chan_def_zero) = None"
  using get_chandef_sync_deadlocks [OF mr_two_inv, of "(2, 0)" 7
      "\<lparr>chan_def = ch36 CHANNEL_WIDTH_80, ctx_role_map = BIT8 0 OR BIT8 1, dfs_enabled = False\<rparr>" chan_def_zero]
  by simp

end
