(* ===== verification/Phl_Dispr.thy ===== *)
theory Phl_Dispr
  imports Phl_Queue Phl_Macid Phl_Msg
begin

section \<open>The command dispatcher (phl/phl_cmd_dispatcher.c)\<close>

text \<open>
  The dispatcher serialises the control plane of one hardware band. Background modules and the
  current foreground command send it messages; its thread passes each message to the modules by
  priority, down in the pre-phase and up again in the post-phase, then to the current command, and
  returns the structure to the idle pool. Foreground commands wait for the token; the thread
  gives it to one at a time. The model follows the default build: one thread shared by the
  dispatchers, no self-defined sequences.

  The handlers of modules and commands and the completion routines are code outside the file. What
  they return and which functions of the dispatcher they call is the list \<open>cbs\<close> of the state, one
  entry per callback to come; when it is used up, callbacks succeed and call nothing. The results
  hold for all lists. A callback changes the dispatcher only through these functions; modules are
  registered and removed outside callbacks. Calls of other threads take place between two
  iterations of the thread or at a callback.
\<close>

subsection \<open>Constants\<close>

definition MAX_PHL_MSG_NUM :: nat where "MAX_PHL_MSG_NUM = 24"
definition MAX_CMD_REQ_NUM :: nat where "MAX_CMD_REQ_NUM = 8"

definition MSG_STATUS_ENQ :: u16 where [phl_defs]: "MSG_STATUS_ENQ = 0x1"
definition MSG_STATUS_RUN :: u16 where [phl_defs]: "MSG_STATUS_RUN = 0x2"
definition MSG_STATUS_NOTIFY_COMPLETE :: u16 where [phl_defs]: "MSG_STATUS_NOTIFY_COMPLETE = 0x4"
definition MSG_STATUS_CANCEL :: u16 where [phl_defs]: "MSG_STATUS_CANCEL = 0x8"
definition MSG_STATUS_PRE_PHASE :: u16 where [phl_defs]: "MSG_STATUS_PRE_PHASE = 0x10"
definition MSG_STATUS_FAIL :: u16 where [phl_defs]: "MSG_STATUS_FAIL = 0x20"
definition MSG_STATUS_OWNER_BK_MDL :: u16 where [phl_defs]: "MSG_STATUS_OWNER_BK_MDL = 0x40"
definition MSG_STATUS_OWNER_REQ :: u16 where [phl_defs]: "MSG_STATUS_OWNER_REQ = 0x80"
definition MSG_STATUS_CLR_SNDR_MSG_IF_PENDING :: u16 where
  [phl_defs]: "MSG_STATUS_CLR_SNDR_MSG_IF_PENDING = 0x100"
definition MSG_STATUS_PENDING :: u16 where [phl_defs]: "MSG_STATUS_PENDING = 0x200"
definition MSG_STATUS_FOR_ABORT :: u16 where [phl_defs]: "MSG_STATUS_FOR_ABORT = 0x400"
definition MSG_STATUS_PENDING_DURING_CANNOT_IO :: u16 where
  [phl_defs]: "MSG_STATUS_PENDING_DURING_CANNOT_IO = 0x800"

definition REQ_STATUS_ENQ :: u8 where [phl_defs]: "REQ_STATUS_ENQ = 0x1"
definition REQ_STATUS_RUN :: u8 where [phl_defs]: "REQ_STATUS_RUN = 0x2"
definition REQ_STATUS_CANCEL :: u8 where [phl_defs]: "REQ_STATUS_CANCEL = 0x4"
definition REQ_STATUS_LAST_PERMIT :: u8 where [phl_defs]: "REQ_STATUS_LAST_PERMIT = 0x8"
definition REQ_STATUS_PREPARE :: u8 where [phl_defs]: "REQ_STATUS_PREPARE = 0x10"

definition MDL_INIT :: u8 where [phl_defs]: "MDL_INIT = 0x1"
definition MDL_STARTED :: u8 where [phl_defs]: "MDL_STARTED = 0x2"

definition DISPR_INIT :: u16 where [phl_defs]: "DISPR_INIT = 0x1"
definition DISPR_MSGQ_INIT :: u16 where [phl_defs]: "DISPR_MSGQ_INIT = 0x2"
definition DISPR_REQ_INIT :: u16 where [phl_defs]: "DISPR_REQ_INIT = 0x4"
definition DISPR_STARTED :: u16 where [phl_defs]: "DISPR_STARTED = 0x8"
definition DISPR_CTRL_PRESENT :: u16 where [phl_defs]: "DISPR_CTRL_PRESENT = 0x10"
definition DISPR_SHALL_STOP :: u16 where [phl_defs]: "DISPR_SHALL_STOP = 0x20"
definition DISPR_CANNOT_IO :: u16 where [phl_defs]: "DISPR_CANNOT_IO = 0x40"
definition DISPR_NOTIFY_IDLE :: u16 where [phl_defs]: "DISPR_NOTIFY_IDLE = 0x80"
definition DISPR_CLR_PEND_MSG :: u16 where [phl_defs]: "DISPR_CLR_PEND_MSG = 0x100"
definition DISPR_WAIT_ABORT_MSG_DONE :: u16 where [phl_defs]: "DISPR_WAIT_ABORT_MSG_DONE = 0x200"
definition DISPR_CLEARANCE :: u16 where [phl_defs]: "DISPR_CLEARANCE = 0x400"
definition DISPR_EXCLUSIVE_USE :: u16 where [phl_defs]: "DISPR_EXCLUSIVE_USE = 0x800"

definition MSG_OPT_SKIP_NOTIFY_OPT_MDL :: u8 where "MSG_OPT_SKIP_NOTIFY_OPT_MDL = 0x1"
definition MSG_OPT_BLIST_PRESENT :: u8 where "MSG_OPT_BLIST_PRESENT = 0x2"
definition MSG_OPT_CLR_SNDR_MSG_IF_PENDING :: u8 where "MSG_OPT_CLR_SNDR_MSG_IF_PENDING = 0x4"
definition MSG_OPT_SEND_IN_ABORT :: u8 where "MSG_OPT_SEND_IN_ABORT = 0x8"
definition MSG_OPT_PENDING_DURING_CANNOT_IO :: u8 where "MSG_OPT_PENDING_DURING_CANNOT_IO = 0x10"

definition FG_CMD_OPT_EXCLUSIVE :: u8 where "FG_CMD_OPT_EXCLUSIVE = 0x1"

definition MSG_EVT_PHY_ON :: u16 where "MSG_EVT_PHY_ON = 1"
definition MSG_EVT_PHY_IDLE :: u16 where "MSG_EVT_PHY_IDLE = 2"
definition MSG_EVT_DEV_CANNOT_IO :: u16 where "MSG_EVT_DEV_CANNOT_IO = 60"
definition MSG_EVT_DEV_RESUME_IO :: u16 where "MSG_EVT_DEV_RESUME_IO = 61"
definition MSG_EVT_MAX :: u16 where "MSG_EVT_MAX = 0x7FFF"

definition GEN_VALID_HDL :: "nat \<Rightarrow> u32" where
  "GEN_VALID_HDL i = 0x80000000 OR of_nat i"

definition IS_HDL_VALID :: "u32 \<Rightarrow> bool" where
  "IS_HDL_VALID h \<longleftrightarrow> h AND 0x80000000 \<noteq> 0"

definition GET_MSG_IDX_FROM_HDL :: "u32 \<Rightarrow> nat" where
  "GET_MSG_IDX_FROM_HDL h = unat (ucast (h AND 0xFFFF) :: u16)"

definition GET_REQ_IDX_FROM_HDL :: "u32 \<Rightarrow> nat" where
  "GET_REQ_IDX_FROM_HDL h = unat (ucast (h AND 0xFFFF) :: u8)"

definition IS_DISPR_CTRL :: "u8 \<Rightarrow> bool" where
  "IS_DISPR_CTRL m \<longleftrightarrow> m < PHL_BK_MDL_ROLE_START"

definition STOP_DISPATCH_MSG :: "phl_mdl_ret_code \<Rightarrow> bool" where
  "STOP_DISPATCH_MSG r \<longleftrightarrow> r \<noteq> MDL_RET_SUCCESS \<and> r \<noteq> MDL_RET_IGNORE"

subsection \<open>State\<close>

text \<open>
  The priorities are 0 (role), 1 (optional), 2 (mandatory); 3 is \<^verbatim>\<open>PHL_MDL_PRI_MAX\<close>. A module is the
  controller of the dispatcher or an address.
\<close>

record phl_bk_module =
  mdl_status :: u8
  mdl_id :: u8

datatype mdl_ref = Ctrl | Bk nat

record phl_dispr_msg_ex =
  ex_status :: u16
  ex_idx :: nat
  ex_msg :: phl_msg
  premap :: "u8 list"
  postmap :: "u8 list"
  ex_completion :: msg_completion_routine
  ex_module :: "mdl_ref option"

datatype token_op_type =
    TOKEN_OP_NONE | TOKEN_OP_ADD_CMD_REQ | TOKEN_OP_FREE_CMD_REQ
  | TOKEN_OP_CANCEL_CMD_REQ | TOKEN_OP_RENEW_CMD_REQ

record phl_token_op_info =
  op_used :: bool
  op_type :: token_op_type
  op_data :: u8

text \<open>The nodes of the queue of token operations: two in every request, one in the dispatcher.\<close>

datatype op_node = Add_info nat | Free_info nat | Renew_info

record phl_cmd_token_req =
  req_module_id :: u8
  req_opt :: u8
  req_priv :: nat
  req_role :: nat
  acquired :: "nat option"
  abort_fn :: "nat option"
  msg_hdlr :: "nat option"
  set_info :: "nat option"
  query_info :: "nat option"

record phl_cmd_token_req_ex =
  req_idx :: nat
  req_status :: u8
  req :: phl_cmd_token_req
  add_req_info :: phl_token_op_info
  free_req_info :: phl_token_op_info

text \<open>An attribute of a message; the array of ids may be NULL.\<close>

record phl_msg_attribute =
  attr_opt :: u8
  notify_ids :: "u8 list option"
  notify_len :: u8
  attr_completion :: msg_completion_routine

text \<open>The functions of the dispatcher that callbacks and other threads call.\<close>

datatype api =
    Send phl_msg "phl_msg_attribute option"
  | Cancel_msg u32
  | Clr_pending
  | Add_req "phl_cmd_token_req option"
  | Cancel_req u32
  | Free_token u32
  | Io_status u8 bool
  | Shall_stop

record callback =
  cb_ret :: phl_mdl_ret_code
  cb_calls :: "api list"

text \<open>What happened: accepted messages with the completion routine their sender asked for, callbacks with
  their results.\<close>

datatype dispr_event =
    Ev_Sent nat msg_completion_routine
  | Ev_Mdl mdl_ref phl_msg phl_mdl_ret_code
  | Ev_Owner mdl_ref phl_msg
  | Ev_Req nat phl_msg
  | Ev_Done msg_completion_routine phl_msg
  | Ev_Acquired nat phl_mdl_ret_code
  | Ev_Abort nat
  | Ev_Ops mdl_ref phl_mdl_ret_code

text \<open>The calls to the dispatcher of the other band.\<close>

datatype xcall = Clearance_acquire | Clearance_release | Exclusive_ready

text \<open>
  \<open>mdls\<close> are the module structures in memory; \<open>d_sema\<close> counts the wake-ups of the thread; \<open>fault\<close> is
  set when the code uses a freed module or writes to a list node while it is linked. The behaviour of
  the C code is undefined from there on; the model records the fault and goes on with the list as it
  was, so what is proved of runs describes the code up to the first fault. \<open>mdl_info\<close> is a function of
  all module ids where the code has an array of \<^verbatim>\<open>PHL_MDL_ID_MAX\<close> entries.
\<close>

record cmd_dispatcher =
  d_idx :: u8
  d_status :: u16
  phy_num :: u8
  module_q :: "nat \<Rightarrow> nat phl_queue"
  mdls :: "nat \<Rightarrow> phl_bk_module option"
  msg_ex_pool :: "phl_dispr_msg_ex list"
  msg_wait_q :: "nat phl_queue"
  msg_idle_q :: "nat phl_queue"
  msg_pend_q :: "nat phl_queue"
  d_sema :: nat
  token_req_ex_pool :: "phl_cmd_token_req_ex list"
  token_req_wait_q :: "nat phl_queue"
  token_req_idle_q :: "nat phl_queue"
  token_op_q :: "op_node phl_queue"
  token_cnt :: int
  cur_cmd_req :: "nat option"
  d_bitmap :: "u8 list"
  d_basemap :: "u8 list"
  mdl_info :: "u8 \<Rightarrow> u16"
  controller :: phl_bk_module
  renew_req_info :: phl_token_op_info
  exclusive_mdl :: u8
  fault :: bool
  to_other :: "xcall list"
  dlog :: "dispr_event list"
  cbs :: "callback list"

abbreviation get_ex :: "cmd_dispatcher \<Rightarrow> nat \<Rightarrow> phl_dispr_msg_ex" where
  "get_ex s i \<equiv> msg_ex_pool s ! i"

abbreviation get_req :: "cmd_dispatcher \<Rightarrow> nat \<Rightarrow> phl_cmd_token_req_ex" where
  "get_req s i \<equiv> token_req_ex_pool s ! i"

definition upd_ex :: "nat \<Rightarrow> (phl_dispr_msg_ex \<Rightarrow> phl_dispr_msg_ex) \<Rightarrow> cmd_dispatcher \<Rightarrow> cmd_dispatcher" where
  "upd_ex i f s = s\<lparr>msg_ex_pool := (msg_ex_pool s)[i := f (get_ex s i)]\<rparr>"

definition upd_req ::
  "nat \<Rightarrow> (phl_cmd_token_req_ex \<Rightarrow> phl_cmd_token_req_ex) \<Rightarrow> cmd_dispatcher \<Rightarrow> cmd_dispatcher" where
  "upd_req i f s = s\<lparr>token_req_ex_pool := (token_req_ex_pool s)[i := f (get_req s i)]\<rparr>"

definition set_ex_flag :: "u16 \<Rightarrow> phl_dispr_msg_ex \<Rightarrow> phl_dispr_msg_ex" where
  "set_ex_flag f ex = ex\<lparr>ex_status := SET_STATUS_FLAG (ex_status ex) f\<rparr>"

definition clear_ex_flag :: "u16 \<Rightarrow> phl_dispr_msg_ex \<Rightarrow> phl_dispr_msg_ex" where
  "clear_ex_flag f ex = ex\<lparr>ex_status := CLEAR_STATUS_FLAG (ex_status ex) f\<rparr>"

definition set_req_flag :: "u8 \<Rightarrow> phl_cmd_token_req_ex \<Rightarrow> phl_cmd_token_req_ex" where
  "set_req_flag f r = r\<lparr>req_status := SET_STATUS_FLAG (req_status r) f\<rparr>"

definition clear_req_flag :: "u8 \<Rightarrow> phl_cmd_token_req_ex \<Rightarrow> phl_cmd_token_req_ex" where
  "clear_req_flag f r = r\<lparr>req_status := CLEAR_STATUS_FLAG (req_status r) f\<rparr>"

definition set_indc :: "u8 \<Rightarrow> phl_dispr_msg_ex \<Rightarrow> phl_dispr_msg_ex" where
  "set_indc k ex = ex\<lparr>ex_msg := (ex_msg ex)\<lparr>msg_id := SET_MSG_INDC_FIELD (msg_id (ex_msg ex)) k\<rparr>\<rparr>"

definition clear_indc :: "u8 \<Rightarrow> phl_dispr_msg_ex \<Rightarrow> phl_dispr_msg_ex" where
  "clear_indc k ex = ex\<lparr>ex_msg := (ex_msg ex)\<lparr>msg_id := CLEAR_MSG_INDC_FIELD (msg_id (ex_msg ex)) k\<rparr>\<rparr>"

definition ex_mdl :: "phl_dispr_msg_ex \<Rightarrow> u8" where
  "ex_mdl ex = MSG_MDL_ID_FIELD (msg_id (ex_msg ex))"

definition ex_evt :: "phl_dispr_msg_ex \<Rightarrow> u16" where
  "ex_evt ex = MSG_EVT_ID_FIELD (msg_id (ex_msg ex))"

definition set_d_flag :: "u16 \<Rightarrow> cmd_dispatcher \<Rightarrow> cmd_dispatcher" where
  "set_d_flag f s = s\<lparr>d_status := SET_STATUS_FLAG (d_status s) f\<rparr>"

definition clear_d_flag :: "u16 \<Rightarrow> cmd_dispatcher \<Rightarrow> cmd_dispatcher" where
  "clear_d_flag f s = s\<lparr>d_status := CLEAR_STATUS_FLAG (d_status s) f\<rparr>"

definition emit :: "dispr_event \<Rightarrow> cmd_dispatcher \<Rightarrow> cmd_dispatcher" where
  "emit e s = s\<lparr>dlog := dlog s @ [e]\<rparr>"

definition tell_other :: "xcall \<Rightarrow> cmd_dispatcher \<Rightarrow> cmd_dispatcher" where
  "tell_other x s = s\<lparr>to_other := to_other s @ [x]\<rparr>"

definition set_fault :: "bool \<Rightarrow> cmd_dispatcher \<Rightarrow> cmd_dispatcher" where
  "set_fault b s = s\<lparr>fault := fault s \<or> b\<rparr>"

fun mdl_at :: "cmd_dispatcher \<Rightarrow> mdl_ref \<Rightarrow> phl_bk_module option" where
  "mdl_at s Ctrl = Some (controller s)"
| "mdl_at s (Bk a) = mdls s a"

subsection \<open>The thread and the other band\<close>

definition notify_dispr_thread :: "cmd_dispatcher \<Rightarrow> cmd_dispatcher" where
  "notify_dispr_thread s = s\<lparr>d_sema := Suc (d_sema s)\<rparr>"

definition cmd_token_complete :: "cmd_dispatcher \<Rightarrow> cmd_dispatcher" where
  "cmd_token_complete s =
     (if phy_num s < 2 then s
      else
        let s1 = (if TEST_STATUS_FLAG (d_status s) DISPR_EXCLUSIVE_USE
                  then tell_other Clearance_release (clear_d_flag DISPR_EXCLUSIVE_USE s) else s)
        in if TEST_STATUS_FLAG (d_status s1) DISPR_CLEARANCE then tell_other Exclusive_ready s1 else s1)"

subsection \<open>The queue of token operations\<close>

fun get_info :: "cmd_dispatcher \<Rightarrow> op_node \<Rightarrow> phl_token_op_info" where
  "get_info s (Add_info i) = add_req_info (get_req s i)"
| "get_info s (Free_info i) = free_req_info (get_req s i)"
| "get_info s Renew_info = renew_req_info s"

fun upd_info :: "op_node \<Rightarrow> (phl_token_op_info \<Rightarrow> phl_token_op_info) \<Rightarrow> cmd_dispatcher \<Rightarrow> cmd_dispatcher" where
  "upd_info (Add_info i) f s = upd_req i (\<lambda>r. r\<lparr>add_req_info := f (add_req_info r)\<rparr>) s"
| "upd_info (Free_info i) f s = upd_req i (\<lambda>r. r\<lparr>free_req_info := f (free_req_info r)\<rparr>) s"
| "upd_info Renew_info f s = s\<lparr>renew_req_info := f (renew_req_info s)\<rparr>"

definition pop_front_token_op_info :: "cmd_dispatcher \<Rightarrow> op_node option \<times> cmd_dispatcher" where
  "pop_front_token_op_info s =
     (case pq_pop (token_op_q s) First of (o1, q) \<Rightarrow> (o1, s\<lparr>token_op_q := q\<rparr>))"

definition push_back_token_op_info ::
  "op_node \<Rightarrow> token_op_type \<Rightarrow> u8 \<Rightarrow> cmd_dispatcher \<Rightarrow> bool \<times> cmd_dispatcher" where
  "push_back_token_op_info n ty dat s =
     (if op_used (get_info s n) then (False, s)
      else
        let s1 = upd_info n (\<lambda>_. \<lparr>op_used = True, op_type = ty, op_data = dat\<rparr>) s;
            s2 = set_fault (n \<in> set (queue (token_op_q s))) s1;
            s3 = s2\<lparr>token_op_q := pq_push (token_op_q s2) n Tail\<rparr>
        in (True, notify_dispr_thread s3))"

definition dispr_enqueue_token_op_info ::
  "op_node \<Rightarrow> token_op_type \<Rightarrow> u8 \<Rightarrow> cmd_dispatcher \<Rightarrow> bool \<times> cmd_dispatcher" where
  "dispr_enqueue_token_op_info n ty dat s = push_back_token_op_info n ty dat s"

definition on_abort_msg_complete :: "cmd_dispatcher \<Rightarrow> cmd_dispatcher" where
  "on_abort_msg_complete s =
     snd (dispr_enqueue_token_op_info Renew_info TOKEN_OP_RENEW_CMD_REQ 0xFF
            (cmd_token_complete (clear_d_flag DISPR_WAIT_ABORT_MSG_DONE s)))"

subsection \<open>The message queues\<close>

definition empty_map :: "u8 list" where
  "empty_map = replicate (unat MODL_MASK_LEN) 0"

definition no_completion :: msg_completion_routine where
  "no_completion = \<lparr>c_priv = 0, c_fun = None\<rparr>"

definition pop_front_idle_msg :: "cmd_dispatcher \<Rightarrow> nat option \<times> cmd_dispatcher" where
  "pop_front_idle_msg s =
     (case pq_pop (msg_idle_q s) First of
        (None, _) \<Rightarrow> (None, s)
      | (Some i, q) \<Rightarrow>
          (Some i, upd_ex i (\<lambda>ex. ex\<lparr>ex_status := 0, ex_module := None, ex_completion := no_completion,
                       premap := empty_map, postmap := empty_map, ex_msg := phl_msg0\<rparr>)
                     (s\<lparr>msg_idle_q := q\<rparr>)))"

text \<open>
  The end of \<^verbatim>\<open>push_back_idle_msg\<close>: the status, the event the sender has pending, and the queue.
\<close>

definition idle_msg_reset :: "nat \<Rightarrow> cmd_dispatcher \<Rightarrow> cmd_dispatcher" where
  "idle_msg_reset i s =
     (let s2 = upd_ex i (\<lambda>ex. ex\<lparr>ex_status := 0\<rparr>) s;
          m = ex_mdl (get_ex s2 i);
          s3 = (if mdl_info s2 m = ex_evt (get_ex s2 i)
                then s2\<lparr>mdl_info := (mdl_info s2)(m := MSG_EVT_MAX)\<rparr> else s2);
          s4 = upd_ex i (\<lambda>ex. ex\<lparr>ex_msg := (ex_msg ex)\<lparr>msg_id := 0\<rparr>\<rparr>) s3
      in s4\<lparr>msg_idle_q := pq_push (msg_idle_q s4) i Tail\<rparr>)"

definition pop_front_wait_msg :: "cmd_dispatcher \<Rightarrow> nat option \<times> cmd_dispatcher" where
  "pop_front_wait_msg s =
     (case pq_pop (msg_wait_q s) First of
        (None, _) \<Rightarrow> (None, s)
      | (Some i, q) \<Rightarrow>
          (Some i, upd_ex i (clear_ex_flag MSG_STATUS_PENDING \<circ> clear_ex_flag MSG_STATUS_ENQ \<circ>
                             set_ex_flag MSG_STATUS_RUN) (s\<lparr>msg_wait_q := q\<rparr>)))"

definition push_back_wait_msg :: "nat \<Rightarrow> cmd_dispatcher \<Rightarrow> cmd_dispatcher" where
  "push_back_wait_msg i s =
     (let s1 = upd_ex i (clear_ex_flag MSG_STATUS_RUN \<circ> set_ex_flag MSG_STATUS_ENQ) s
      in notify_dispr_thread (s1\<lparr>msg_wait_q := pq_push (msg_wait_q s1) i Tail\<rparr>))"

definition is_higher_priority :: "cmd_dispatcher \<Rightarrow> nat \<Rightarrow> nat \<Rightarrow> bool" where
  "is_higher_priority s input obj \<longleftrightarrow>
     IS_DISPR_CTRL (ex_mdl (get_ex s input)) \<and> \<not> IS_DISPR_CTRL (ex_mdl (get_ex s obj))"

definition insert_msg_by_priority :: "nat \<Rightarrow> cmd_dispatcher \<Rightarrow> cmd_dispatcher" where
  "insert_msg_by_priority i s =
     (let s1 = upd_ex i (clear_ex_flag MSG_STATUS_RUN \<circ> set_ex_flag MSG_STATUS_ENQ) s
      in notify_dispr_thread
           (s1\<lparr>msg_wait_q := pq_insert (msg_wait_q s1) i (Some (is_higher_priority s1))\<rparr>))"

definition pop_front_pending_msg :: "cmd_dispatcher \<Rightarrow> nat option \<times> cmd_dispatcher" where
  "pop_front_pending_msg s =
     (case pq_pop (msg_pend_q s) First of (o1, q) \<Rightarrow> (o1, s\<lparr>msg_pend_q := q\<rparr>))"

definition push_back_pending_msg :: "nat \<Rightarrow> cmd_dispatcher \<Rightarrow> cmd_dispatcher" where
  "push_back_pending_msg i s =
     (let s1 = upd_ex i (clear_ex_flag MSG_STATUS_RUN \<circ> set_ex_flag MSG_STATUS_ENQ) s;
          ex = get_ex s1 i;
          s2 = (if TEST_STATUS_FLAG (ex_status ex) MSG_STATUS_CLR_SNDR_MSG_IF_PENDING
                then s1\<lparr>mdl_info := (mdl_info s1)(ex_mdl ex := ex_evt ex)\<rparr> else s1)
      in s2\<lparr>msg_pend_q := pq_push (msg_pend_q s2) i Tail\<rparr>)"

lemma pop_front_pending_shrinks:
  "pop_front_pending_msg s = (Some i, s1) \<Longrightarrow>
     length (queue (msg_pend_q s1)) < length (queue (msg_pend_q s))"
  by (auto simp: pop_front_pending_msg_def pq_pop_def split: if_splits)

lemma push_wait_pend [simp]:
  "msg_pend_q (push_back_wait_msg i s) = msg_pend_q s"
  "msg_pend_q (insert_msg_by_priority i s) = msg_pend_q s"
  by (simp_all add: push_back_wait_msg_def insert_msg_by_priority_def upd_ex_def Let_def
      notify_dispr_thread_def)

text \<open>The loop of \<^verbatim>\<open>clear_pending_msg\<close> that moves every pending message to the wait queue.\<close>

function pending_to_wait :: "cmd_dispatcher \<Rightarrow> cmd_dispatcher" where
  "pending_to_wait s =
     (case pop_front_pending_msg s of
        (None, s1) \<Rightarrow> s1
      | (Some i, s1) \<Rightarrow>
          pending_to_wait
            (if IS_DISPR_CTRL (ex_mdl (get_ex s1 i)) then insert_msg_by_priority i s1
             else push_back_wait_msg i s1))"
  by auto
termination
  by (relation "measure (\<lambda>s. length (queue (msg_pend_q s)))") (auto dest: pop_front_pending_shrinks [OF sym])

declare pending_to_wait.simps [simp del]

definition clear_pending_msg :: "cmd_dispatcher \<Rightarrow> cmd_dispatcher" where
  "clear_pending_msg s =
     (if \<not> TEST_STATUS_FLAG (d_status s) DISPR_CLR_PEND_MSG then s
      else pending_to_wait (clear_d_flag DISPR_CLR_PEND_MSG s))"

definition cancel_msg :: "nat \<Rightarrow> cmd_dispatcher \<Rightarrow> cmd_dispatcher" where
  "cancel_msg i s =
     upd_ex i (\<lambda>ex. set_ex_flag MSG_STATUS_CANCEL (ex\<lparr>premap := empty_map, postmap := empty_map\<rparr>)) s"

definition cancel_running_msg :: "cmd_dispatcher \<Rightarrow> cmd_dispatcher" where
  "cancel_running_msg s =
     fold (\<lambda>i s. if TEST_STATUS_FLAG (ex_status (get_ex s i)) MSG_STATUS_RUN then cancel_msg i s else s)
       [0..<MAX_PHL_MSG_NUM] s"

definition set_msg_bitmap :: "nat \<Rightarrow> u8 \<Rightarrow> cmd_dispatcher \<Rightarrow> cmd_dispatcher" where
  "set_msg_bitmap i m s =
     (let own = (\<lambda>bm. if chk_bitmap_bit MODL_MASK_LEN (d_bitmap s) m
                      then add_bitmap_bit MODL_MASK_LEN bm [m] else bm)
      in upd_ex i (\<lambda>ex. ex\<lparr>premap := own (d_bitmap s), postmap := own (d_bitmap s)\<rparr>) s)"

definition set_msg_custom_bitmap :: "nat \<Rightarrow> u8 \<Rightarrow> u8 list \<Rightarrow> u8 \<Rightarrow> cmd_dispatcher \<Rightarrow> cmd_dispatcher" where
  "set_msg_custom_bitmap i opt ids m s =
     (let base = (\<lambda>bm. if opt AND MSG_OPT_SKIP_NOTIFY_OPT_MDL \<noteq> 0 then d_basemap s else bm);
          lst = (\<lambda>bm. if opt AND MSG_OPT_BLIST_PRESENT \<noteq> 0
                      then clr_bitmap_bit MODL_MASK_LEN bm ids
                      else add_bitmap_bit MODL_MASK_LEN bm ids);
          own = (\<lambda>bm. if chk_bitmap_bit MODL_MASK_LEN (d_bitmap s) m
                      then add_bitmap_bit MODL_MASK_LEN bm [m] else bm)
      in upd_ex i (\<lambda>ex. ex\<lparr>premap := own (lst (base (premap ex))),
                           postmap := own (lst (base (postmap ex)))\<rparr>) s)"

subsection \<open>Requests for the token\<close>

definition op_info0 :: phl_token_op_info where
  "op_info0 = \<lparr>op_used = False, op_type = TOKEN_OP_NONE, op_data = 0\<rparr>"

definition req0 :: phl_cmd_token_req where
  "req0 = \<lparr>req_module_id = 0, req_opt = 0, req_priv = 0, req_role = 0, acquired = None,
     abort_fn = None, msg_hdlr = None, set_info = None, query_info = None\<rparr>"

text \<open>
  The operation nodes of the request are zeroed, which destroys the queue of operations if one of
  them is still linked.
\<close>

definition pop_front_idle_req :: "cmd_dispatcher \<Rightarrow> nat option \<times> cmd_dispatcher" where
  "pop_front_idle_req s =
     (case pq_pop (token_req_idle_q s) First of
        (None, _) \<Rightarrow> (None, s)
      | (Some i, q) \<Rightarrow>
          (Some i,
           set_fault (Add_info i \<in> set (queue (token_op_q s)) \<or> Free_info i \<in> set (queue (token_op_q s)))
             (upd_req i (\<lambda>r. r\<lparr>req_status := 0, req := req0, add_req_info := op_info0,
                               free_req_info := op_info0\<rparr>) (s\<lparr>token_req_idle_q := q\<rparr>))))"

definition push_back_idle_req :: "nat \<Rightarrow> cmd_dispatcher \<Rightarrow> cmd_dispatcher" where
  "push_back_idle_req i s =
     (let s1 = upd_req i (\<lambda>r. r\<lparr>req_status := 0\<rparr>) s;
          s2 = s1\<lparr>mdl_info := (mdl_info s1)(req_module_id (req (get_req s1 i)) := MSG_EVT_MAX)\<rparr>
      in s2\<lparr>token_req_idle_q := pq_push (token_req_idle_q s2) i Tail\<rparr>)"

definition pop_front_wait_req :: "cmd_dispatcher \<Rightarrow> nat option \<times> cmd_dispatcher" where
  "pop_front_wait_req s =
     (case pq_pop (token_req_wait_q s) First of
        (None, _) \<Rightarrow> (None, s)
      | (Some i, q) \<Rightarrow>
          (Some i, upd_req i (clear_req_flag REQ_STATUS_ENQ \<circ> set_req_flag REQ_STATUS_PREPARE)
                     (s\<lparr>token_req_wait_q := q\<rparr>)))"

definition front_req_with_exclusive_opt :: "cmd_dispatcher \<Rightarrow> bool" where
  "front_req_with_exclusive_opt s =
     (case pq_get_front (token_req_wait_q s) of
        None \<Rightarrow> False
      | Some i \<Rightarrow> req_opt (req (get_req s i)) = FG_CMD_OPT_EXCLUSIVE)"

definition push_back_wait_req :: "nat \<Rightarrow> cmd_dispatcher \<Rightarrow> cmd_dispatcher" where
  "push_back_wait_req i s =
     upd_req i (set_req_flag REQ_STATUS_ENQ)
       (s\<lparr>token_req_wait_q := pq_push (token_req_wait_q s) i Tail\<rparr>)"

definition cancel_all_cmd_req :: "cmd_dispatcher \<Rightarrow> cmd_dispatcher" where
  "cancel_all_cmd_req s =
     fold (\<lambda>i s. if req_status (get_req s i) \<noteq> 0 then upd_req i (set_req_flag REQ_STATUS_CANCEL) s else s)
       [0..<MAX_CMD_REQ_NUM] s"

definition chk_cmd_req_ops :: "phl_cmd_token_req option \<Rightarrow> bool" where
  "chk_cmd_req_ops ro =
     (case ro of
        None \<Rightarrow> False
      | Some r \<Rightarrow> \<not> (req_module_id r < PHL_FG_MDL_START \<or> abort_fn r = None \<or> acquired r = None \<or>
                     msg_hdlr r = None \<or> set_info r = None \<or> query_info r = None))"

text \<open>The id of the current command (\<^verbatim>\<open>PHL_MDL_ID_MAX\<close> when none runs), with its status.\<close>

definition get_cur_cmd_req_id :: "cmd_dispatcher \<Rightarrow> u8 \<times> u8" where
  "get_cur_cmd_req_id s =
     (case cur_cmd_req s of
        None \<Rightarrow> (PHL_MDL_ID_MAX, 0)
      | Some i \<Rightarrow>
          let st = req_status (get_req s i)
          in if \<not> TEST_STATUS_FLAG st REQ_STATUS_RUN \<or> TEST_STATUS_FLAG st REQ_STATUS_CANCEL
             then (PHL_MDL_ID_MAX, st) else (req_module_id (req (get_req s i)), st))"

subsection \<open>Modules\<close>

definition search_mdl :: "cmd_dispatcher \<Rightarrow> u8 \<Rightarrow> nat \<Rightarrow> bool" where
  "search_mdl s m a \<longleftrightarrow> (case mdls s a of None \<Rightarrow> False | Some x \<Rightarrow> mdl_id x = m)"

text \<open>The search reads the structures of the queue up to the one it finds.\<close>

definition search_faults :: "cmd_dispatcher \<Rightarrow> u8 \<Rightarrow> nat phl_queue \<Rightarrow> bool" where
  "search_faults s m q \<longleftrightarrow> cnt q > 0 \<and> (\<exists>a \<in> set (takeWhile (\<lambda>a. \<not> search_mdl s m a) (queue q)). mdls s a = None)"

fun find_mdl :: "cmd_dispatcher \<Rightarrow> u8 \<Rightarrow> nat list \<Rightarrow> mdl_ref option \<times> bool" where
  "find_mdl s m [] = (None, False)"
| "find_mdl s m (p # ps) =
     (let f = search_faults s m (module_q s p)
      in case fst (pq_search_node (module_q s p) False (Some (search_mdl s m))) of
           Some a \<Rightarrow> (Some (Bk a), f)
         | None \<Rightarrow> (case find_mdl s m ps of (r, f') \<Rightarrow> (r, f \<or> f')))"

text \<open>The result is the module and whether the search read freed memory.\<close>

definition get_module_by_id :: "u8 \<Rightarrow> cmd_dispatcher \<Rightarrow> mdl_ref option \<times> bool" where
  "get_module_by_id m s =
     (if IS_DISPR_CTRL m
      then (if \<not> TEST_STATUS_FLAG (d_status s) DISPR_CTRL_PRESENT then None else Some Ctrl, False)
      else if \<not> chk_bitmap_bit MODL_MASK_LEN (d_bitmap s) m then (None, False)
      else find_mdl s m [0, 1, 2])"

subsection \<open>Sending and cancelling messages\<close>

definition may_send :: "cmd_dispatcher \<Rightarrow> u8 \<Rightarrow> u8 \<Rightarrow> u8 \<Rightarrow> bool" where
  "may_send s m cur st \<longleftrightarrow>
     \<not> (\<not> IS_DISPR_CTRL m \<and> \<not> chk_bitmap_bit MODL_MASK_LEN (d_bitmap s) m \<and>
        ((cur \<noteq> PHL_MDL_ID_MAX \<and> cur \<noteq> m) \<or> (cur = PHL_MDL_ID_MAX \<and> st = 0) \<or>
         (cur = PHL_MDL_ID_MAX \<and> \<not> TEST_STATUS_FLAG st REQ_STATUS_LAST_PERMIT)))"

text \<open>The part of \<^verbatim>\<open>dispr_send_msg\<close> that reads the attribute.\<close>

definition send_attr :: "nat \<Rightarrow> u8 \<Rightarrow> phl_msg_attribute option \<Rightarrow> cmd_dispatcher \<Rightarrow> cmd_dispatcher" where
  "send_attr i m attr s =
     (case attr of
        None \<Rightarrow> s
      | Some a \<Rightarrow>
          let s1 = set_msg_custom_bitmap i (attr_opt a)
                     (take (unat (notify_len a)) (case notify_ids a of None \<Rightarrow> [] | Some l \<Rightarrow> l)) m s;
              s2 = (if c_fun (attr_completion a) \<noteq> None
                    then upd_ex i (\<lambda>ex. set_ex_flag MSG_STATUS_NOTIFY_COMPLETE
                                          (ex\<lparr>ex_completion := attr_completion a\<rparr>)) s1
                    else s1);
              s3 = (if TEST_STATUS_FLAG (attr_opt a) MSG_OPT_CLR_SNDR_MSG_IF_PENDING
                    then upd_ex i (set_ex_flag MSG_STATUS_CLR_SNDR_MSG_IF_PENDING) s2 else s2)
          in if TEST_STATUS_FLAG (attr_opt a) MSG_OPT_PENDING_DURING_CANNOT_IO
             then upd_ex i (set_ex_flag MSG_STATUS_PENDING_DURING_CANNOT_IO) s3 else s3)"

definition send_owner :: "nat \<Rightarrow> u8 \<Rightarrow> u8 \<Rightarrow> u8 \<Rightarrow> cmd_dispatcher \<Rightarrow> cmd_dispatcher" where
  "send_owner i m cur st s =
     (let (ro, f) = get_module_by_id m s; s1 = set_fault f s
      in case ro of
           Some r \<Rightarrow> upd_ex i (\<lambda>ex. set_ex_flag MSG_STATUS_OWNER_BK_MDL (ex\<lparr>ex_module := Some r\<rparr>)) s1
         | None \<Rightarrow>
             if cur = m \<or> cur = PHL_MDL_ID_MAX \<and> TEST_STATUS_FLAG st REQ_STATUS_LAST_PERMIT
             then upd_ex i (set_ex_flag MSG_STATUS_OWNER_REQ) s1 else s1)"

text \<open>
  The completion routine the caller asked for. The log of accepted messages records it, so that the
  log does not depend on what the send writes into the message structure.
\<close>

definition sent_completion :: "phl_msg_attribute option \<Rightarrow> msg_completion_routine" where
  "sent_completion attr = (case attr of None \<Rightarrow> no_completion | Some a \<Rightarrow> attr_completion a)"

text \<open>
  The last part: a command that is being removed may send only what it marks as sent in its abort
  handler. On the refusal the notification is cleared first and the message is not one of an abort, so
  that of \<^verbatim>\<open>push_back_idle_msg\<close> only the end runs.
\<close>

definition send_last ::
  "nat \<Rightarrow> u8 \<Rightarrow> u8 \<Rightarrow> phl_msg_attribute option \<Rightarrow> cmd_dispatcher \<Rightarrow>
   rtw_phl_status \<times> u32 \<times> cmd_dispatcher" where
  "send_last i m st attr s =
     (let own = TEST_STATUS_FLAG (ex_status (get_ex s i)) MSG_STATUS_OWNER_REQ;
          last_permit = TEST_STATUS_FLAG st REQ_STATUS_LAST_PERMIT
      in if own \<and> last_permit \<and>
            (case attr of None \<Rightarrow> True | Some a \<Rightarrow> \<not> TEST_STATUS_FLAG (attr_opt a) MSG_OPT_SEND_IN_ABORT)
         then (RTW_PHL_STATUS_FAILURE, 0,
               idle_msg_reset i (upd_ex i (clear_ex_flag MSG_STATUS_NOTIFY_COMPLETE \<circ> set_indc MSG_INDC_FAIL) s))
         else
           let s1 = (if own \<and> last_permit
                     then set_d_flag DISPR_WAIT_ABORT_MSG_DONE (upd_ex i (set_ex_flag MSG_STATUS_FOR_ABORT) s)
                     else s);
               s2 = upd_ex i (set_ex_flag MSG_STATUS_PRE_PHASE) s1;
               s3 = emit (Ev_Sent i (sent_completion attr)) s2;
               s4 = (if IS_DISPR_CTRL m then insert_msg_by_priority i s3 else push_back_wait_msg i s3)
           in (RTW_PHL_STATUS_SUCCESS, GEN_VALID_HDL (ex_idx (get_ex s4 i)), s4))"

text \<open>The result is the status, the handle (\<open>0\<close> if none is given out) and the state.\<close>

definition dispr_send_msg ::
  "phl_msg \<Rightarrow> phl_msg_attribute option \<Rightarrow> cmd_dispatcher \<Rightarrow> rtw_phl_status \<times> u32 \<times> cmd_dispatcher" where
  "dispr_send_msg msg attr s =
     (let m = MSG_MDL_ID_FIELD (msg_id msg); (cur, st) = get_cur_cmd_req_id s
      in if \<not> TEST_STATUS_FLAG (d_status s) DISPR_STARTED then (RTW_PHL_STATUS_UNEXPECTED_ERROR, 0, s)
         else if TEST_STATUS_FLAG (d_status s) DISPR_SHALL_STOP then (RTW_PHL_STATUS_UNEXPECTED_ERROR, 0, s)
         else if (case attr of None \<Rightarrow> False | Some a \<Rightarrow> notify_ids a = None \<and> notify_len a \<noteq> 0)
         then (RTW_PHL_STATUS_INVALID_PARAM, 0, s)
         else if \<not> may_send s m cur st then (RTW_PHL_STATUS_INVALID_PARAM, 0, s)
         else case pop_front_idle_msg s of
                (None, s1) \<Rightarrow> (RTW_PHL_STATUS_RESOURCE, 0, s1)
              | (Some i, s1) \<Rightarrow>
                  send_last i m st attr
                    (send_owner i m cur st
                      (send_attr i m attr
                        (set_msg_bitmap i m (upd_ex i (\<lambda>ex. ex\<lparr>ex_msg := msg\<rparr>) s1)))))"

definition dispr_cancel_msg :: "u32 \<Rightarrow> cmd_dispatcher \<Rightarrow> rtw_phl_status \<times> cmd_dispatcher" where
  "dispr_cancel_msg hdl s =
     (if \<not> TEST_STATUS_FLAG (d_status s) DISPR_STARTED then (RTW_PHL_STATUS_UNEXPECTED_ERROR, s)
      else if \<not> IS_HDL_VALID hdl \<or> GET_MSG_IDX_FROM_HDL hdl \<ge> MAX_PHL_MSG_NUM
      then (RTW_PHL_STATUS_FAILURE, s)
      else
        let i = GET_MSG_IDX_FROM_HDL hdl; st = ex_status (get_ex s i)
        in if \<not> TEST_STATUS_FLAG st MSG_STATUS_ENQ \<and> \<not> TEST_STATUS_FLAG st MSG_STATUS_RUN
           then (RTW_PHL_STATUS_FAILURE, s)
           else (RTW_PHL_STATUS_SUCCESS, cancel_msg i s))"

definition dispr_clr_pending_msg :: "cmd_dispatcher \<Rightarrow> cmd_dispatcher" where
  "dispr_clr_pending_msg s = notify_dispr_thread (set_d_flag DISPR_CLR_PEND_MSG s)"

subsection \<open>Adding, cancelling and freeing requests\<close>

definition dispr_add_token_req ::
  "phl_cmd_token_req option \<Rightarrow> cmd_dispatcher \<Rightarrow> rtw_phl_status \<times> u32 \<times> cmd_dispatcher" where
  "dispr_add_token_req ro s =
     (if \<not> TEST_STATUS_FLAG (d_status s) DISPR_STARTED \<or> \<not> chk_cmd_req_ops ro
      then (RTW_PHL_STATUS_UNEXPECTED_ERROR, 0, s)
      else if TEST_STATUS_FLAG (d_status s) DISPR_SHALL_STOP then (RTW_PHL_STATUS_UNEXPECTED_ERROR, 0, s)
      else case pop_front_idle_req s of
             (None, s1) \<Rightarrow> (RTW_PHL_STATUS_RESOURCE, 0, s1)
           | (Some i, s1) \<Rightarrow>
               let s2 = push_back_wait_req i (upd_req i (\<lambda>r. r\<lparr>req := the ro\<rparr>) s1);
                   stat = (if pq_get_front (token_op_q s2) = None \<and> token_cnt s2 = 0
                           then RTW_PHL_STATUS_SUCCESS else RTW_PHL_STATUS_PENDING);
                   k = req_idx (get_req s2 i)
               in (stat, GEN_VALID_HDL k,
                   snd (dispr_enqueue_token_op_info (Add_info i) TOKEN_OP_ADD_CMD_REQ (of_nat k) s2)))"

definition dispr_cancel_token_req :: "u32 \<Rightarrow> cmd_dispatcher \<Rightarrow> rtw_phl_status \<times> cmd_dispatcher" where
  "dispr_cancel_token_req hdl s =
     (if \<not> TEST_STATUS_FLAG (d_status s) DISPR_STARTED then (RTW_PHL_STATUS_UNEXPECTED_ERROR, s)
      else if \<not> IS_HDL_VALID hdl \<or> GET_REQ_IDX_FROM_HDL hdl \<ge> MAX_CMD_REQ_NUM
      then (RTW_PHL_STATUS_FAILURE, s)
      else
        let i = GET_REQ_IDX_FROM_HDL hdl; st = req_status (get_req s i)
        in if \<not> TEST_STATUS_FLAG st REQ_STATUS_ENQ \<and> \<not> TEST_STATUS_FLAG st REQ_STATUS_RUN \<and>
              \<not> TEST_STATUS_FLAG st REQ_STATUS_PREPARE
           then (RTW_PHL_STATUS_FAILURE, s)
           else case dispr_enqueue_token_op_info (Free_info i) TOKEN_OP_CANCEL_CMD_REQ
                       (of_nat (req_idx (get_req s i))) s of
                  (ok, s1) \<Rightarrow> (if ok then RTW_PHL_STATUS_SUCCESS else RTW_PHL_STATUS_FAILURE, s1))"

definition dispr_free_token :: "u32 \<Rightarrow> cmd_dispatcher \<Rightarrow> rtw_phl_status \<times> cmd_dispatcher" where
  "dispr_free_token hdl s =
     (if \<not> TEST_STATUS_FLAG (d_status s) DISPR_STARTED then (RTW_PHL_STATUS_UNEXPECTED_ERROR, s)
      else if cur_cmd_req s = None \<or> token_cnt s = 0 \<or> \<not> IS_HDL_VALID hdl \<or>
              GET_REQ_IDX_FROM_HDL hdl \<ge> MAX_CMD_REQ_NUM
      then (RTW_PHL_STATUS_FAILURE, s)
      else
        let i = GET_REQ_IDX_FROM_HDL hdl; st = req_status (get_req s i)
        in if \<not> TEST_STATUS_FLAG st REQ_STATUS_RUN \<and> \<not> TEST_STATUS_FLAG st REQ_STATUS_PREPARE
           then (RTW_PHL_STATUS_FAILURE, s)
           else case dispr_enqueue_token_op_info (Free_info i) TOKEN_OP_FREE_CMD_REQ
                       (of_nat (req_idx (get_req s i))) (upd_req i (set_req_flag REQ_STATUS_CANCEL) s) of
                  (ok, s1) \<Rightarrow> (if ok then RTW_PHL_STATUS_SUCCESS else RTW_PHL_STATUS_FAILURE, s1))"

subsection \<open>Notifications\<close>

definition attr0 :: phl_msg_attribute where
  "attr0 = \<lparr>attr_opt = 0, notify_ids = None, notify_len = 0, attr_completion = no_completion\<rparr>"

definition mk_msg :: "u8 \<Rightarrow> u16 \<Rightarrow> phl_msg" where
  "mk_msg m e = phl_msg0\<lparr>msg_id := SET_MSG_EVT_ID_FIELD (SET_MSG_MDL_ID_FIELD 0 m) e\<rparr>"

definition send_bk_msg_phy_on :: "cmd_dispatcher \<Rightarrow> cmd_dispatcher" where
  "send_bk_msg_phy_on s =
     snd (snd (dispr_send_msg (mk_msg PHL_MDL_POWER_MGNT MSG_EVT_PHY_ON) (Some attr0) s))"

definition send_bk_msg_phy_idle :: "cmd_dispatcher \<Rightarrow> cmd_dispatcher" where
  "send_bk_msg_phy_idle s =
     snd (snd (dispr_send_msg (mk_msg PHL_MDL_POWER_MGNT MSG_EVT_PHY_IDLE) (Some attr0) s))"

definition send_dev_io_status_change :: "bool \<Rightarrow> cmd_dispatcher \<Rightarrow> rtw_phl_status \<times> cmd_dispatcher" where
  "send_dev_io_status_change allow_io s =
     (case dispr_send_msg (mk_msg PHL_MDL_PHY_MGNT
             (if allow_io then MSG_EVT_DEV_RESUME_IO else MSG_EVT_DEV_CANNOT_IO)) (Some attr0) s of
        (st, _, s1) \<Rightarrow> (st, s1))"

definition dispr_notify_dev_io_status ::
  "u8 \<Rightarrow> bool \<Rightarrow> cmd_dispatcher \<Rightarrow> rtw_phl_status \<times> cmd_dispatcher" where
  "dispr_notify_dev_io_status m allow_io s =
     (if \<not> allow_io
      then if \<not> TEST_STATUS_FLAG (d_status s) DISPR_CANNOT_IO
           then send_dev_io_status_change allow_io
                  ((set_d_flag DISPR_CANNOT_IO s)\<lparr>exclusive_mdl := m\<rparr>)
           else (RTW_PHL_STATUS_SUCCESS, s)
      else if TEST_STATUS_FLAG (d_status s) DISPR_CANNOT_IO
           then case send_dev_io_status_change allow_io
                       ((clear_d_flag DISPR_CANNOT_IO s)\<lparr>exclusive_mdl := PHL_MDL_ID_MAX\<rparr>) of
                  (st, s1) \<Rightarrow> (st, dispr_clr_pending_msg s1)
           else (RTW_PHL_STATUS_SUCCESS, s))"

definition dispr_notify_shall_stop :: "cmd_dispatcher \<Rightarrow> cmd_dispatcher" where
  "dispr_notify_shall_stop s =
     (if \<not> TEST_STATUS_FLAG (d_status s) DISPR_SHALL_STOP
      then dispr_clr_pending_msg (set_d_flag DISPR_SHALL_STOP s) else s)"

definition dispr_clearance_acquire :: "cmd_dispatcher \<Rightarrow> cmd_dispatcher" where
  "dispr_clearance_acquire s = set_d_flag DISPR_CLEARANCE s"

definition dispr_clearance_release :: "cmd_dispatcher \<Rightarrow> cmd_dispatcher" where
  "dispr_clearance_release s =
     snd (dispr_enqueue_token_op_info Renew_info TOKEN_OP_RENEW_CMD_REQ 0xFF (clear_d_flag DISPR_CLEARANCE s))"

definition dispr_exclusive_ready :: "bool \<Rightarrow> cmd_dispatcher \<Rightarrow> cmd_dispatcher" where
  "dispr_exclusive_ready renew_req s =
     (if \<not> TEST_STATUS_FLAG (d_status s) DISPR_EXCLUSIVE_USE
      then let s1 = set_d_flag DISPR_EXCLUSIVE_USE s
           in if renew_req
              then snd (dispr_enqueue_token_op_info Renew_info TOKEN_OP_RENEW_CMD_REQ 0xFF s1) else s1
      else s)"

definition dispr_is_fg_empty :: "cmd_dispatcher \<Rightarrow> bool" where
  "dispr_is_fg_empty s =
     (if queue (token_req_wait_q s) \<noteq> [] \<and> cnt (token_req_wait_q s) > 0 then False
      else \<not> (pq_get_front (token_op_q s) \<noteq> None \<or> token_cnt s > 0))"

subsection \<open>Callbacks\<close>

fun api_step :: "api \<Rightarrow> cmd_dispatcher \<Rightarrow> cmd_dispatcher" where
  "api_step (Send msg attr) s = snd (snd (dispr_send_msg msg attr s))"
| "api_step (Cancel_msg h) s = snd (dispr_cancel_msg h s)"
| "api_step Clr_pending s = dispr_clr_pending_msg s"
| "api_step (Add_req ro) s = snd (snd (dispr_add_token_req ro s))"
| "api_step (Cancel_req h) s = snd (dispr_cancel_token_req h s)"
| "api_step (Free_token h) s = snd (dispr_free_token h s)"
| "api_step (Io_status m b) s = snd (dispr_notify_dev_io_status m b s)"
| "api_step Shall_stop s = dispr_notify_shall_stop s"

text \<open>The next callback runs: \<open>ev\<close> is how it is recorded, given what it returns.\<close>

definition run_cb ::
  "(phl_mdl_ret_code \<Rightarrow> dispr_event) \<Rightarrow> cmd_dispatcher \<Rightarrow> phl_mdl_ret_code \<times> cmd_dispatcher" where
  "run_cb ev s =
     (case cbs s of
        [] \<Rightarrow> (MDL_RET_SUCCESS, emit (ev MDL_RET_SUCCESS) s)
      | c # cs \<Rightarrow> (cb_ret c, fold api_step (cb_calls c) (emit (ev (cb_ret c)) (s\<lparr>cbs := cs\<rparr>))))"

definition run_completion :: "nat \<Rightarrow> cmd_dispatcher \<Rightarrow> cmd_dispatcher" where
  "run_completion i s =
     (let ex = get_ex s i
      in if TEST_STATUS_FLAG (ex_status ex) MSG_STATUS_NOTIFY_COMPLETE \<and> c_fun (ex_completion ex) \<noteq> None
         then let s1 = (if TEST_STATUS_FLAG (ex_status ex) MSG_STATUS_CANCEL
                        then upd_ex i (set_indc MSG_INDC_CANCEL) s else s);
                  ex1 = get_ex s1 i;
                  s2 = snd (run_cb (\<lambda>_. Ev_Done (ex_completion ex1) (ex_msg ex1)) s1)
              in upd_ex i (clear_ex_flag MSG_STATUS_NOTIFY_COMPLETE) s2
         else s)"

definition push_back_idle_msg :: "nat \<Rightarrow> cmd_dispatcher \<Rightarrow> cmd_dispatcher" where
  "push_back_idle_msg i s =
     (let s1 = run_completion i s
      in idle_msg_reset i
           (if TEST_STATUS_FLAG (ex_status (get_ex s1 i)) MSG_STATUS_FOR_ABORT
            then on_abort_msg_complete s1 else s1))"

subsection \<open>The current command\<close>

definition dereg_msg :: "u8 \<Rightarrow> nat \<Rightarrow> cmd_dispatcher \<Rightarrow> cmd_dispatcher" where
  "dereg_msg m i s =
     (if m \<noteq> ex_mdl (get_ex s i) then s
      else let s1 = cancel_msg i (upd_ex i (clear_ex_flag MSG_STATUS_OWNER_REQ) s)
           in if TEST_STATUS_FLAG (ex_status (get_ex s1 i)) MSG_STATUS_PENDING
              then clear_pending_msg (dispr_clr_pending_msg s1) else s1)"

definition deregister_cur_cmd_req :: "bool \<Rightarrow> cmd_dispatcher \<Rightarrow> cmd_dispatcher" where
  "deregister_cur_cmd_req notify s =
     (let s5 = (case cur_cmd_req s of
          None \<Rightarrow> s
        | Some r \<Rightarrow>
            let s1 = upd_req r (clear_req_flag REQ_STATUS_RUN) s;
                s2 = fold (dereg_msg (req_module_id (req (get_req s r)))) [0..<MAX_PHL_MSG_NUM] s1;
                s3 = (if notify
                      then upd_req r (clear_req_flag REQ_STATUS_LAST_PERMIT)
                             (snd (run_cb (\<lambda>_. Ev_Abort r) (upd_req r (set_req_flag REQ_STATUS_LAST_PERMIT) s2)))
                      else s2);
                s4 = push_back_idle_req r s3
            in s4\<lparr>token_cnt := token_cnt s4 - 1\<rparr>);
          s6 = s5\<lparr>cur_cmd_req := None\<rparr>
      in if \<not> TEST_STATUS_FLAG (d_status s6) DISPR_WAIT_ABORT_MSG_DONE then cmd_token_complete s6 else s6)"

definition register_cur_cmd_req :: "nat \<Rightarrow> cmd_dispatcher \<Rightarrow> bool \<times> cmd_dispatcher" where
  "register_cur_cmd_req r s =
     (let s1 = upd_req r (clear_req_flag REQ_STATUS_PREPARE \<circ> set_req_flag REQ_STATUS_RUN) s;
          s2 = s1\<lparr>cur_cmd_req := Some r, token_cnt := token_cnt s1 + 1\<rparr>
      in case run_cb (Ev_Acquired r) s2 of
           (ret, s3) \<Rightarrow>
             if ret = MDL_RET_FAIL then (False, deregister_cur_cmd_req False s3) else (True, s3))"

subsection \<open>Callbacks are used up\<close>

text \<open>
  Only a callback consumes an entry of \<open>cbs\<close>, and only a callback can add token operations while the
  thread works on them; the loops of the thread end because of it.
\<close>

lemmas prim_defs = upd_ex_def upd_req_def set_d_flag_def clear_d_flag_def emit_def tell_other_def
  set_fault_def notify_dispr_thread_def

lemma upd_info_fields [simp]:
  "cbs (upd_info n f s) = cbs s" "token_op_q (upd_info n f s) = token_op_q s"
  by (cases n; simp add: prim_defs)+

lemma push_op_cbs [simp]: "cbs (snd (push_back_token_op_info n ty dat s)) = cbs s"
  by (simp add: push_back_token_op_info_def prim_defs Let_def)

lemma push_op_cbsD: "push_back_token_op_info n ty dat s = (b, s') \<Longrightarrow> cbs s' = cbs s"
  using push_op_cbs [of n ty dat s] by simp

lemma push_wait_frame [simp]:
  "cbs (push_back_wait_msg i s) = cbs s" "token_op_q (push_back_wait_msg i s) = token_op_q s"
  "cbs (insert_msg_by_priority i s) = cbs s" "token_op_q (insert_msg_by_priority i s) = token_op_q s"
  by (simp_all add: push_back_wait_msg_def insert_msg_by_priority_def prim_defs Let_def)

lemma idle_reset_frame [simp]:
  "cbs (idle_msg_reset i s) = cbs s" "token_op_q (idle_msg_reset i s) = token_op_q s"
  by (simp_all add: idle_msg_reset_def prim_defs Let_def)

lemma send_attr_frame [simp]:
  "cbs (send_attr i m attr s) = cbs s" "token_op_q (send_attr i m attr s) = token_op_q s"
  by (simp_all add: send_attr_def set_msg_custom_bitmap_def prim_defs Let_def split: option.splits)

lemma send_owner_frame [simp]:
  "cbs (send_owner i m cur st s) = cbs s" "token_op_q (send_owner i m cur st s) = token_op_q s"
  by (simp_all add: send_owner_def prim_defs Let_def split: prod.splits option.splits)

lemma send_last_frame [simp]:
  "cbs (snd (snd (send_last i m st attr s))) = cbs s"
  "token_op_q (snd (snd (send_last i m st attr s))) = token_op_q s"
  by (simp_all add: send_last_def prim_defs Let_def)

lemma pop_idle_frame:
  "pop_front_idle_msg s = (o1, s1) \<Longrightarrow> cbs s1 = cbs s \<and> token_op_q s1 = token_op_q s"
  by (auto simp: pop_front_idle_msg_def prim_defs split: prod.splits option.splits)

lemma send_msg_frame [simp]:
  "cbs (snd (snd (dispr_send_msg msg attr s))) = cbs s"
  "token_op_q (snd (snd (dispr_send_msg msg attr s))) = token_op_q s"
  using pop_idle_frame [of s]
  by (auto simp: dispr_send_msg_def set_msg_bitmap_def prim_defs Let_def split: prod.splits option.splits)

lemma send_msg_cbsD: "dispr_send_msg msg attr s = (st, h, s') \<Longrightarrow> cbs s' = cbs s"
  using send_msg_frame(1) [of msg attr s] by simp

lemma pop_idle_req_cbs: "pop_front_idle_req s = (o1, s1) \<Longrightarrow> cbs s1 = cbs s"
  by (auto simp: pop_front_idle_req_def prim_defs split: prod.splits option.splits)

lemma add_req_cbs [simp]: "cbs (snd (snd (dispr_add_token_req ro s))) = cbs s"
  using pop_idle_req_cbs [of s]
  by (auto simp: dispr_add_token_req_def push_back_wait_req_def dispr_enqueue_token_op_info_def
      prim_defs Let_def split: prod.splits option.splits)

lemma token_req_cbs [simp]:
  "cbs (snd (dispr_cancel_token_req h s)) = cbs s" "cbs (snd (dispr_free_token h s)) = cbs s"
  by (auto simp: dispr_cancel_token_req_def dispr_free_token_def dispr_enqueue_token_op_info_def
      Let_def upd_req_def dest!: push_op_cbsD split: prod.splits)

lemma io_status_cbs [simp]: "cbs (snd (dispr_notify_dev_io_status m b s)) = cbs s"
  by (auto simp: dispr_notify_dev_io_status_def send_dev_io_status_change_def dispr_clr_pending_msg_def
      prim_defs dest!: send_msg_cbsD split: prod.splits)

lemma api_step_cbs [simp]: "cbs (api_step a s) = cbs s"
  by (cases a) (simp_all add: dispr_cancel_msg_def cancel_msg_def dispr_clr_pending_msg_def
      dispr_notify_shall_stop_def prim_defs Let_def)

lemma fold_api_cbs [simp]: "cbs (fold api_step as s) = cbs s"
  by (induction as arbitrary: s) simp_all

text \<open>\<open>s'\<close> has consumed callbacks, or it has not and the queue of operations has not grown.\<close>

definition used_up :: "cmd_dispatcher \<Rightarrow> cmd_dispatcher \<Rightarrow> bool" where
  "used_up s s' \<longleftrightarrow> length (cbs s') < length (cbs s) \<or>
     (cbs s' = cbs s \<and> length (queue (token_op_q s')) \<le> length (queue (token_op_q s)))"

lemma used_up_refl [simp, intro]: "used_up s s"
  by (simp add: used_up_def)

lemma used_up_trans [trans]: "used_up s t \<Longrightarrow> used_up t u \<Longrightarrow> used_up s u"
  by (auto simp: used_up_def)

lemma used_up_same: "cbs s' = cbs s \<Longrightarrow> token_op_q s' = token_op_q s \<Longrightarrow> used_up s s'"
  by (simp add: used_up_def)

lemma run_cb_used: "run_cb ev s = (r, s') \<Longrightarrow> used_up s s'"
  by (auto simp: run_cb_def used_up_def emit_def split: list.splits)

lemma run_cb_ret: "run_cb ev s = (r, s') \<Longrightarrow> r \<noteq> MDL_RET_SUCCESS \<Longrightarrow> length (cbs s') < length (cbs s)"
  by (auto simp: run_cb_def emit_def split: list.splits)

lemma pending_to_wait_frame [simp]:
  "cbs (pending_to_wait s) = cbs s \<and> token_op_q (pending_to_wait s) = token_op_q s"
proof (induction s rule: pending_to_wait.induct)
  case (1 s)
  then show ?case
    by (subst (1 2) pending_to_wait.simps)
      (auto simp: pop_front_pending_msg_def split: prod.splits option.splits)
qed

lemma clear_pending_frame [simp]:
  "cbs (clear_pending_msg s) = cbs s" "token_op_q (clear_pending_msg s) = token_op_q s"
  by (simp_all add: clear_pending_msg_def clear_d_flag_def)

lemma dereg_msg_frame [simp]:
  "cbs (dereg_msg m i s) = cbs s" "token_op_q (dereg_msg m i s) = token_op_q s"
  by (simp_all add: dereg_msg_def cancel_msg_def dispr_clr_pending_msg_def prim_defs Let_def)

lemma fold_dereg_frame [simp]:
  "cbs (fold (dereg_msg m) is s) = cbs s" "token_op_q (fold (dereg_msg m) is s) = token_op_q s"
  by (induction "is" arbitrary: s) simp_all

lemma token_complete_frame [simp]:
  "cbs (cmd_token_complete s) = cbs s" "token_op_q (cmd_token_complete s) = token_op_q s"
  by (simp_all add: cmd_token_complete_def prim_defs Let_def)

lemma dereg_used: "used_up s (deregister_cur_cmd_req notify s)"
proof (cases "cur_cmd_req s")
  case None
  then show ?thesis by (auto intro!: used_up_same simp: deregister_cur_cmd_req_def Let_def)
next
  case (Some r)
  let ?m = "req_module_id (req (get_req s r))"
  let ?s = "upd_req r (set_req_flag REQ_STATUS_LAST_PERMIT)
    (fold (dereg_msg ?m) [0..<MAX_PHL_MSG_NUM] (upd_req r (clear_req_flag REQ_STATUS_RUN) s))"
  have "used_up ?s (snd (run_cb (\<lambda>_. Ev_Abort r) ?s))"
    using run_cb_used by (metis surjective_pairing)
  then show ?thesis
    using Some
    by (auto simp: deregister_cur_cmd_req_def push_back_idle_req_def prim_defs Let_def used_up_def)
qed

lemma register_used: "register_cur_cmd_req r s = (ok, s') \<Longrightarrow> used_up s s'"
  and register_fails: "register_cur_cmd_req r s = (False, s') \<Longrightarrow> length (cbs s') < length (cbs s)"
  subgoal premises p
  proof -
    let ?s = "(upd_req r (clear_req_flag REQ_STATUS_PREPARE \<circ> set_req_flag REQ_STATUS_RUN) s)
       \<lparr>cur_cmd_req := Some r, token_cnt := token_cnt s + 1\<rparr>"
    obtain ret t where t: "run_cb (Ev_Acquired r) ?s = (ret, t)" by fastforce
    have "used_up s ?s" by (rule used_up_same) (simp_all add: upd_req_def)
    also have "used_up ?s t" using run_cb_used [OF t] .
    also have "used_up t s'"
      using p t dereg_used [of t False]
      by (auto simp: register_cur_cmd_req_def Let_def upd_req_def split: if_splits)
    finally show ?thesis .
  qed
  subgoal premises p
  proof -
    let ?s = "(upd_req r (clear_req_flag REQ_STATUS_PREPARE \<circ> set_req_flag REQ_STATUS_RUN) s)
       \<lparr>cur_cmd_req := Some r, token_cnt := token_cnt s + 1\<rparr>"
    obtain ret t where t: "run_cb (Ev_Acquired r) ?s = (ret, t)" by fastforce
    have f: "ret = MDL_RET_FAIL" "s' = deregister_cur_cmd_req False t"
      using p t by (auto simp: register_cur_cmd_req_def Let_def upd_req_def split: if_splits)
    have "length (cbs t) < length (cbs s)"
      using run_cb_ret [OF t] f(1) by (simp add: upd_req_def)
    then show ?thesis using dereg_used [of t False] f(2) by (auto simp: used_up_def)
  qed
  done

subsection \<open>Giving the token to the next request\<close>

lemma pop_wait_req_frame:
  "pop_front_wait_req s = (o1, s1) \<Longrightarrow> cbs s1 = cbs s \<and> token_op_q s1 = token_op_q s"
  by (auto simp: pop_front_wait_req_def prim_defs split: prod.splits option.splits)

lemma phy_msg_frame [simp]:
  "cbs (send_bk_msg_phy_on s) = cbs s" "token_op_q (send_bk_msg_phy_on s) = token_op_q s"
  "cbs (send_bk_msg_phy_idle s) = cbs s" "token_op_q (send_bk_msg_phy_idle s) = token_op_q s"
  by (simp_all add: send_bk_msg_phy_on_def send_bk_msg_phy_idle_def)

text \<open>The last two steps before the request is registered: it leaves the queue, the modules hear of it.\<close>

definition next_req :: "cmd_dispatcher \<Rightarrow> nat option \<times> cmd_dispatcher" where
  "next_req s =
     (case pop_front_wait_req s of
        (None, s1) \<Rightarrow>
          (None, if \<not> TEST_STATUS_FLAG (d_status s1) DISPR_NOTIFY_IDLE
                 then send_bk_msg_phy_idle (set_d_flag DISPR_NOTIFY_IDLE s1) else s1)
      | (Some r, s1) \<Rightarrow>
          (Some r, if TEST_STATUS_FLAG (d_status s1) DISPR_NOTIFY_IDLE
                   then send_bk_msg_phy_on (clear_d_flag DISPR_NOTIFY_IDLE s1) else s1))"

lemma next_req_frame: "next_req s = (o1, s1) \<Longrightarrow> cbs s1 = cbs s \<and> token_op_q s1 = token_op_q s"
  using pop_wait_req_frame [of s]
  by (auto simp: next_req_def prim_defs split: prod.splits option.splits)

function dispr_process_token_req :: "cmd_dispatcher \<Rightarrow> rtw_phl_status \<times> cmd_dispatcher" where
  "dispr_process_token_req s =
     (if \<not> TEST_STATUS_FLAG (d_status s) DISPR_STARTED then (RTW_PHL_STATUS_UNEXPECTED_ERROR, s)
      else if TEST_STATUS_FLAG (d_status s) DISPR_SHALL_STOP then (RTW_PHL_STATUS_FAILURE, s)
      else if token_cnt s > 0 then (RTW_PHL_STATUS_FAILURE, s)
      else if TEST_STATUS_FLAG (d_status s) DISPR_WAIT_ABORT_MSG_DONE then (RTW_PHL_STATUS_FAILURE, s)
      else if TEST_STATUS_FLAG (d_status s) DISPR_CLEARANCE
      then (RTW_PHL_STATUS_FAILURE, tell_other Exclusive_ready s)
      else if front_req_with_exclusive_opt s \<and> \<not> TEST_STATUS_FLAG (d_status s) DISPR_EXCLUSIVE_USE
      then (RTW_PHL_STATUS_FAILURE, tell_other Clearance_acquire s)
      else case next_req s of
             (None, s1) \<Rightarrow> (RTW_PHL_STATUS_SUCCESS, s1)
           | (Some r, s1) \<Rightarrow>
               (case register_cur_cmd_req r s1 of
                  (True, s2) \<Rightarrow> (RTW_PHL_STATUS_SUCCESS, s2)
                | (False, s2) \<Rightarrow> dispr_process_token_req s2))"
  by pat_completeness auto
termination
  by (relation "measure (\<lambda>s. length (cbs s))")
    (auto dest!: next_req_frame [OF sym] register_fails [OF sym])

declare dispr_process_token_req.simps [simp del]

text \<open>The conditions under which the loop takes a request, and the rule for what it keeps.\<close>

definition token_free :: "cmd_dispatcher \<Rightarrow> bool" where
  "token_free s \<longleftrightarrow> TEST_STATUS_FLAG (d_status s) DISPR_STARTED \<and>
     \<not> TEST_STATUS_FLAG (d_status s) DISPR_SHALL_STOP \<and> token_cnt s \<le> 0 \<and>
     \<not> TEST_STATUS_FLAG (d_status s) DISPR_WAIT_ABORT_MSG_DONE \<and>
     \<not> TEST_STATUS_FLAG (d_status s) DISPR_CLEARANCE \<and>
     (front_req_with_exclusive_opt s \<longrightarrow> TEST_STATUS_FLAG (d_status s) DISPR_EXCLUSIVE_USE)"

lemma process_busy: "\<not> token_free s \<Longrightarrow> \<exists>x. snd (dispr_process_token_req s) \<in> {s, tell_other x s}"
  by (subst dispr_process_token_req.simps) (auto simp: token_free_def)

lemma process_free:
  "token_free s \<Longrightarrow> dispr_process_token_req s =
     (case next_req s of
        (None, s1) \<Rightarrow> (RTW_PHL_STATUS_SUCCESS, s1)
      | (Some r, s1) \<Rightarrow>
          (case register_cur_cmd_req r s1 of
             (True, s2) \<Rightarrow> (RTW_PHL_STATUS_SUCCESS, s2)
           | (False, s2) \<Rightarrow> dispr_process_token_req s2))"
  by (subst dispr_process_token_req.simps) (auto simp: token_free_def)

lemma process_keeps:
  assumes "P s"
    and other: "\<And>s x. P s \<Longrightarrow> P (tell_other x s)"
    and none: "\<And>s s1. P s \<Longrightarrow> token_free s \<Longrightarrow> next_req s = (None, s1) \<Longrightarrow> P s1"
    and reg: "\<And>s r s1 ok s2. P s \<Longrightarrow> token_free s \<Longrightarrow> next_req s = (Some r, s1) \<Longrightarrow>
        register_cur_cmd_req r s1 = (ok, s2) \<Longrightarrow> P s2"
  shows "P (snd (dispr_process_token_req s))"
  using assms(1)
proof (induction "length (cbs s)" arbitrary: s rule: less_induct)
  case less
  show ?case
  proof (cases "token_free s")
    case False
    then show ?thesis using process_busy [of s] less.prems other by auto
  next
    case free: True
    obtain ro s1 where n: "next_req s = (ro, s1)" by fastforce
    show ?thesis
    proof (cases ro)
      case None
      then show ?thesis using n none [OF less.prems free] free by (simp add: process_free)
    next
      case (Some r)
      obtain ok s2 where r: "register_cur_cmd_req r s1 = (ok, s2)" by fastforce
      have P2: "P s2" using reg [OF less.prems free _ r] n Some by simp
      show ?thesis
      proof (cases ok)
        case True
        then show ?thesis using P2 n r Some free by (simp add: process_free)
      next
        case False
        then have "length (cbs s2) < length (cbs s)"
          using register_fails r next_req_frame [OF n] by fastforce
        then show ?thesis using less.hyps P2 False n r Some free by (simp add: process_free)
      qed
    qed
  qed
qed

lemma process_used: "used_up s (snd (dispr_process_token_req s))"
proof (rule process_keeps [where P = "used_up s"])
  fix t r s1 ok s2
  assume t: "used_up s t" "next_req t = (Some r, s1)" "register_cur_cmd_req r s1 = (ok, s2)"
  have "used_up t s1" using next_req_frame [OF t(2)] by (simp add: used_up_def)
  then show "used_up s s2" using t(1) register_used [OF t(3)] used_up_trans by blast
qed (auto simp: tell_other_def used_up_def dest!: next_req_frame)

subsection \<open>Token operations\<close>

definition handle_token_op_info :: "op_node \<Rightarrow> cmd_dispatcher \<Rightarrow> cmd_dispatcher" where
  "handle_token_op_info n s =
     (let r = unat (op_data (get_info s n))
      in case op_type (get_info s n) of
           TOKEN_OP_RENEW_CMD_REQ \<Rightarrow> snd (dispr_process_token_req s)
         | TOKEN_OP_ADD_CMD_REQ \<Rightarrow> snd (dispr_process_token_req s)
         | TOKEN_OP_FREE_CMD_REQ \<Rightarrow>
             if r \<ge> MAX_CMD_REQ_NUM then s
             else if \<not> TEST_STATUS_FLAG (req_status (get_req s r)) REQ_STATUS_RUN then s
             else snd (dispr_process_token_req (deregister_cur_cmd_req False s))
         | TOKEN_OP_CANCEL_CMD_REQ \<Rightarrow>
             if r \<ge> MAX_CMD_REQ_NUM then s
             else
               let s1 = upd_req r (set_req_flag REQ_STATUS_CANCEL) s;
                   st = req_status (get_req s1 r)
               in if TEST_STATUS_FLAG st REQ_STATUS_ENQ
                  then push_back_idle_req r (snd (run_cb (\<lambda>_. Ev_Abort r)
                         (s1\<lparr>token_req_wait_q := pq_del_node (token_req_wait_q s1) (Some r)\<rparr>)))
                  else if TEST_STATUS_FLAG st REQ_STATUS_RUN
                  then snd (dispr_process_token_req (deregister_cur_cmd_req True s1))
                  else s1
         | TOKEN_OP_NONE \<Rightarrow> s)"

lemma handle_op_used: "used_up s (handle_token_op_info n s)"
proof -
  let ?r = "unat (op_data (get_info s n))"
  let ?s1 = "upd_req ?r (set_req_flag REQ_STATUS_CANCEL) s"
  let ?s2 = "?s1\<lparr>token_req_wait_q := pq_del_node (token_req_wait_q ?s1) (Some ?r)\<rparr>"
  have p: "used_up s (snd (dispr_process_token_req (deregister_cur_cmd_req b s)))" for b s
    by (rule used_up_trans [OF dereg_used process_used])
  have 1: "used_up s ?s1" "used_up s ?s2" by (auto intro!: used_up_same simp: upd_req_def)
  have "used_up ?s2 (snd (run_cb (\<lambda>_. Ev_Abort ?r) ?s2))"
    using run_cb_used by (metis surjective_pairing)
  then have "used_up s (push_back_idle_req ?r (snd (run_cb (\<lambda>_. Ev_Abort ?r) ?s2)))"
    using used_up_trans [OF 1(2)] by (auto simp: push_back_idle_req_def prim_defs Let_def used_up_def)
  then show ?thesis
    using p [of s False] used_up_trans [OF 1(1) p [of ?s1 True]] process_used [of s] 1
    by (simp add: handle_token_op_info_def Let_def split: token_op_type.splits)
qed

function token_op_loop :: "cmd_dispatcher \<Rightarrow> cmd_dispatcher" where
  "token_op_loop s =
     (case pop_front_token_op_info s of
        (None, s1) \<Rightarrow> s1
      | (Some n, s1) \<Rightarrow> token_op_loop (upd_info n (\<lambda>x. x\<lparr>op_used := False\<rparr>) (handle_token_op_info n s1)))"
  by auto
termination
proof (relation "measures [\<lambda>s. length (cbs s), \<lambda>s. length (queue (token_op_q s))]", goal_cases)
  case (2 s x s1 n)
  then have "cbs s1 = cbs s" "length (queue (token_op_q s1)) < length (queue (token_op_q s))"
    by (auto simp: pop_front_token_op_info_def pq_pop_def split: if_splits)
  then show ?case
    using handle_op_used [of s1 n] by (auto simp: used_up_def)
qed simp

declare token_op_loop.simps [simp del]

text \<open>A dispatcher that has to keep clear and has nothing to do lets the other one proceed.\<close>

definition token_op_hanler :: "cmd_dispatcher \<Rightarrow> cmd_dispatcher" where
  "token_op_hanler s =
     (if TEST_STATUS_FLAG (d_status s) DISPR_CLEARANCE \<and> cnt (token_op_q s) = 0 \<and> token_cnt s = 0
      then tell_other Exclusive_ready s
      else token_op_loop s)"

subsection \<open>Messages that are not dispatched\<close>

definition is_special_msg :: "nat \<Rightarrow> cmd_dispatcher \<Rightarrow> bool" where
  "is_special_msg i s \<longleftrightarrow>
     TEST_STATUS_FLAG (d_status s) DISPR_CANNOT_IO \<and>
     (exclusive_mdl s = ex_mdl (get_ex s i) \<or>
      ex_evt (get_ex s i) \<in> {MSG_EVT_DEV_CANNOT_IO, MSG_EVT_DEV_RESUME_IO, MSG_EVT_PHY_ON, MSG_EVT_PHY_IDLE})"

definition is_msg_canceled :: "nat \<Rightarrow> cmd_dispatcher \<Rightarrow> bool \<times> cmd_dispatcher" where
  "is_msg_canceled i s =
     (let ex = get_ex s i; pending_evt = mdl_info s (ex_mdl ex)
      in if \<not> TEST_STATUS_FLAG (d_status s) DISPR_STARTED \<or> TEST_STATUS_FLAG (ex_status ex) MSG_STATUS_CANCEL
         then (True, s)
         else if pending_evt \<noteq> MSG_EVT_MAX \<and> pending_evt \<noteq> ex_evt ex
         then (True, upd_ex i (set_ex_flag MSG_STATUS_CANCEL \<circ> set_indc MSG_INDC_CLR_SNDR) s)
         else if TEST_STATUS_FLAG (d_status s) DISPR_SHALL_STOP
         then (True, upd_ex i (set_ex_flag MSG_STATUS_CANCEL \<circ> set_indc MSG_INDC_CANNOT_IO) s)
         else if TEST_STATUS_FLAG (d_status s) DISPR_CANNOT_IO
         then if is_special_msg i s then (False, upd_ex i (set_indc MSG_INDC_CANNOT_IO) s)
              else if \<not> TEST_STATUS_FLAG (ex_status ex) MSG_STATUS_PENDING_DURING_CANNOT_IO
              then (True, upd_ex i (set_indc MSG_INDC_CANNOT_IO \<circ> set_ex_flag MSG_STATUS_CANCEL) s)
              else (False, upd_ex i (set_ex_flag MSG_STATUS_PENDING) s)
         else (False, s))"

subsection \<open>Feeding a message to modules\<close>

definition cur_req_hdl :: "nat \<Rightarrow> cmd_dispatcher \<Rightarrow> cmd_dispatcher" where
  "cur_req_hdl i s =
     (case cur_cmd_req s of
        None \<Rightarrow> s
      | Some r \<Rightarrow>
          let st = req_status (get_req s r)
          in if \<not> TEST_STATUS_FLAG st REQ_STATUS_RUN \<or> TEST_STATUS_FLAG st REQ_STATUS_CANCEL then s
             else if TEST_STATUS_FLAG (ex_status (get_ex s i)) MSG_STATUS_FOR_ABORT then s
             else snd (run_cb (\<lambda>_. Ev_Req r (ex_msg (get_ex s i))) s))"

text \<open>
  The sender of a message that failed hears of it. Its module is looked up in the bitmap by the id
  in its structure, except for the controller.
\<close>

definition owner_hdl :: "nat \<Rightarrow> cmd_dispatcher \<Rightarrow> cmd_dispatcher" where
  "owner_hdl i s =
     (let ex = get_ex s i
      in if \<not> TEST_STATUS_FLAG (ex_status ex) MSG_STATUS_OWNER_BK_MDL then s
         else case ex_module ex of
                None \<Rightarrow> set_fault True s
              | Some r \<Rightarrow>
                  (case mdl_at s r of
                     None \<Rightarrow> set_fault True s
                   | Some x \<Rightarrow>
                       if IS_DISPR_CTRL (ex_mdl ex) \<or> chk_bitmap_bit MODL_MASK_LEN (d_bitmap s) (mdl_id x)
                       then snd (run_cb (\<lambda>_. Ev_Owner r (ex_msg ex)) s) else s))"

definition notify_msg_fail :: "nat \<Rightarrow> phl_mdl_ret_code \<Rightarrow> cmd_dispatcher \<Rightarrow> cmd_dispatcher" where
  "notify_msg_fail i ret s =
     (let s1 = upd_ex i ((if ret = MDL_RET_CANNOT_IO then set_indc MSG_INDC_CANNOT_IO else (\<lambda>ex. ex)) \<circ>
                         set_indc MSG_INDC_FAIL \<circ> set_ex_flag MSG_STATUS_FAIL) s;
          s2 = owner_hdl i s1
      in if TEST_STATUS_FLAG (ex_status (get_ex s2 i)) MSG_STATUS_OWNER_REQ then cur_req_hdl i s2 else s2)"

text \<open>The address of a module as it is stored in a message.\<close>

fun mdl_ptr :: "mdl_ref \<Rightarrow> nat" where
  "mdl_ptr Ctrl = 0"
| "mdl_ptr (Bk a) = Suc a"

definition clr_own_bit :: "u8 \<Rightarrow> phl_dispr_msg_ex \<Rightarrow> phl_dispr_msg_ex" where
  "clr_own_bit m ex =
     (if MSG_INDC_FIELD (msg_id (ex_msg ex)) AND MSG_INDC_PRE_PHASE \<noteq> 0
      then ex\<lparr>premap := clr_bitmap_bit MODL_MASK_LEN (premap ex) [m]\<rparr>
      else ex\<lparr>postmap := clr_bitmap_bit MODL_MASK_LEN (postmap ex) [m]\<rparr>)"

definition feed_mdl_msg ::
  "mdl_ref \<Rightarrow> u8 \<Rightarrow> nat \<Rightarrow> cmd_dispatcher \<Rightarrow> phl_mdl_ret_code \<times> cmd_dispatcher" where
  "feed_mdl_msg r m i s =
     (case run_cb (Ev_Mdl r (ex_msg (get_ex s i))) s of
        (ret, s1) \<Rightarrow>
          (ret,
           if ret = MDL_RET_FAIL \<or> ret = MDL_RET_CANNOT_IO
           then notify_msg_fail i ret
                  (upd_ex i (\<lambda>ex. ex\<lparr>ex_msg := (ex_msg ex)\<lparr>rsvd := (rsvd (ex_msg ex))[0 := mdl_ptr r]\<rparr>\<rparr>) s1)
           else if ret = MDL_RET_PENDING then upd_ex i (set_ex_flag MSG_STATUS_PENDING) s1
           else upd_ex i (clr_own_bit m) s1))"

text \<open>
  The modules of one queue, then the queues of all priorities. \<open>sel\<close> is the map of the phase. The
  result says whether the loops go on.
\<close>

fun feed_loop ::
  "(phl_dispr_msg_ex \<Rightarrow> u8 list) \<Rightarrow> nat list \<Rightarrow> nat \<Rightarrow> cmd_dispatcher \<Rightarrow> bool \<times> cmd_dispatcher" where
  "feed_loop sel [] i s = (True, s)"
| "feed_loop sel (a # as) i s =
     (case mdls s a of
        None \<Rightarrow> feed_loop sel as i (set_fault True s)
      | Some x \<Rightarrow>
          if \<not> chk_bitmap_bit MODL_MASK_LEN (sel (get_ex s i)) (mdl_id x) \<or>
             \<not> TEST_STATUS_FLAG (mdl_status x) MDL_STARTED
          then feed_loop sel as i s
          else case feed_mdl_msg (Bk a) (mdl_id x) i s of
                 (ret, s1) \<Rightarrow> if STOP_DISPATCH_MSG ret then (False, s1) else feed_loop sel as i s1)"

definition walk :: "nat phl_queue \<Rightarrow> nat list" where
  "walk q = (if queue q \<noteq> [] \<and> cnt q > 0 then queue q else [])"

fun pri_loop ::
  "(phl_dispr_msg_ex \<Rightarrow> u8 list) \<Rightarrow> (nat list \<Rightarrow> nat list) \<Rightarrow> nat list \<Rightarrow> nat \<Rightarrow> cmd_dispatcher \<Rightarrow> cmd_dispatcher" where
  "pri_loop sel dir [] i s = s"
| "pri_loop sel dir (p # ps) i s =
     (case feed_loop sel (dir (walk (module_q s p))) i s of
        (True, s1) \<Rightarrow> pri_loop sel dir ps i s1
      | (False, s1) \<Rightarrow> s1)"

definition msg_pre_phase_hdl :: "nat \<Rightarrow> cmd_dispatcher \<Rightarrow> cmd_dispatcher" where
  "msg_pre_phase_hdl i s = pri_loop premap (\<lambda>l. l) [2, 1, 0] i s"

definition msg_post_phase_hdl :: "nat \<Rightarrow> cmd_dispatcher \<Rightarrow> cmd_dispatcher" where
  "msg_post_phase_hdl i s = pri_loop postmap rev [0, 1, 2] i s"

definition notify_dispr_controller :: "nat \<Rightarrow> cmd_dispatcher \<Rightarrow> cmd_dispatcher" where
  "notify_dispr_controller i s =
     (if \<not> TEST_STATUS_FLAG (d_status s) DISPR_CTRL_PRESENT then s
      else snd (feed_mdl_msg Ctrl (mdl_id (controller s)) i s))"

subsection \<open>Dispatching a message\<close>

text \<open>Which map \<^verbatim>\<open>get_msg_bitmap\<close> returns, with the indicator it sets.\<close>

definition get_msg_bitmap :: "nat \<Rightarrow> cmd_dispatcher \<Rightarrow> (phl_dispr_msg_ex \<Rightarrow> u8 list) \<times> cmd_dispatcher" where
  "get_msg_bitmap i s =
     (if TEST_STATUS_FLAG (ex_status (get_ex s i)) MSG_STATUS_PRE_PHASE
      then (premap, upd_ex i (set_indc MSG_INDC_PRE_PHASE) s)
      else (postmap, upd_ex i (clear_indc MSG_INDC_PRE_PHASE) s))"

definition msg_reschedule :: "nat \<Rightarrow> cmd_dispatcher \<Rightarrow> cmd_dispatcher" where
  "msg_reschedule i s =
     (if TEST_STATUS_FLAG (ex_status (get_ex s i)) MSG_STATUS_PENDING
      then push_back_pending_msg i s else push_back_wait_msg i s)"

text \<open>\<^verbatim>\<open>MSG_REDIRECT_CHK\<close>, with what follows it.\<close>

definition redirect_chk :: "nat \<Rightarrow> (cmd_dispatcher \<Rightarrow> cmd_dispatcher) \<Rightarrow> cmd_dispatcher \<Rightarrow> cmd_dispatcher" where
  "redirect_chk i k s =
     (let st = ex_status (get_ex s i)
      in if TEST_STATUS_FLAG st MSG_STATUS_FAIL \<or> TEST_STATUS_FLAG st MSG_STATUS_CANCEL
         then push_back_idle_msg i s
         else if TEST_STATUS_FLAG st MSG_STATUS_PENDING then msg_reschedule i s
         else k s)"

definition is_bitmap_empty :: "u8 list \<Rightarrow> bool" where
  "is_bitmap_empty bm \<longleftrightarrow> bm = empty_map"

text \<open>The post-phase, on the map \<open>sel\<close>, and the end of the dispatch.\<close>

definition dispatch_post :: "(phl_dispr_msg_ex \<Rightarrow> u8 list) \<Rightarrow> nat \<Rightarrow> cmd_dispatcher \<Rightarrow> cmd_dispatcher" where
  "dispatch_post sel i s =
     redirect_chk i
       (\<lambda>s1. if is_bitmap_empty (sel (get_ex s1 i)) then push_back_idle_msg i (cur_req_hdl i s1)
             else push_back_idle_msg i (upd_ex i (set_ex_flag MSG_STATUS_CANCEL) s1))
       (if \<not> is_bitmap_empty (sel (get_ex s i)) then msg_post_phase_hdl i s else s)"

definition dispatch_pre :: "(phl_dispr_msg_ex \<Rightarrow> u8 list) \<Rightarrow> nat \<Rightarrow> cmd_dispatcher \<Rightarrow> cmd_dispatcher" where
  "dispatch_pre sel i s =
     (if MSG_INDC_FIELD (msg_id (ex_msg (get_ex s i))) AND MSG_INDC_PRE_PHASE \<noteq> 0 \<and>
         \<not> is_bitmap_empty (sel (get_ex s i))
      then redirect_chk i
             (\<lambda>s1. if is_bitmap_empty (sel (get_ex s1 i))
                   then (case get_msg_bitmap i (upd_ex i (clear_ex_flag MSG_STATUS_PRE_PHASE) s1) of
                           (sel', s2) \<Rightarrow> dispatch_post sel' i s2)
                   else push_back_idle_msg i (upd_ex i (set_ex_flag MSG_STATUS_CANCEL) s1))
             (msg_pre_phase_hdl i s)
      else dispatch_post sel i s)"

definition msg_dispatch :: "nat \<Rightarrow> cmd_dispatcher \<Rightarrow> cmd_dispatcher" where
  "msg_dispatch i s =
     (case get_msg_bitmap i s of
        (sel, s1) \<Rightarrow>
          redirect_chk i (\<lambda>s2. redirect_chk i (dispatch_pre sel i) (notify_dispr_controller i s2)) s1)"

definition and_bitmaps :: "u8 list \<Rightarrow> u8 list \<Rightarrow> u8 list" where
  "and_bitmaps ref_bitmap bm = map2 (AND) bm ref_bitmap"

definition dispr_thread_loop_hdl :: "cmd_dispatcher \<Rightarrow> cmd_dispatcher" where
  "dispr_thread_loop_hdl s =
     (if \<not> TEST_STATUS_FLAG (d_status s) DISPR_STARTED then s
      else case pop_front_wait_msg (token_op_hanler (clear_pending_msg s)) of
             (None, s1) \<Rightarrow> s1
           | (Some i, s1) \<Rightarrow>
               (case is_msg_canceled i s1 of
                  (True, s2) \<Rightarrow> push_back_idle_msg i s2
                | (False, s2) \<Rightarrow>
                    msg_dispatch i (upd_ex i (\<lambda>ex. ex\<lparr>premap := and_bitmaps (d_bitmap s2) (premap ex),
                                                     postmap := and_bitmaps (d_bitmap s2) (postmap ex)\<rparr>) s2)))"

subsection \<open>Leaving the thread\<close>

lemma push_op_wait [simp]: "msg_wait_q (snd (push_back_token_op_info n ty dat s)) = msg_wait_q s"
  by (cases n) (simp_all add: push_back_token_op_info_def prim_defs Let_def)

lemma token_complete_wait [simp]: "msg_wait_q (cmd_token_complete s) = msg_wait_q s"
  by (simp add: cmd_token_complete_def prim_defs Let_def)

lemma run_completion_used:
  "length (cbs (run_completion i s)) < length (cbs s) \<or>
   (cbs (run_completion i s) = cbs s \<and> msg_wait_q (run_completion i s) = msg_wait_q s)"
  by (auto simp: run_completion_def run_cb_def prim_defs Let_def split: list.splits)

lemma push_idle_used:
  "length (cbs (push_back_idle_msg i s)) < length (cbs s) \<or>
   (cbs (push_back_idle_msg i s) = cbs s \<and> msg_wait_q (push_back_idle_msg i s) = msg_wait_q s)"
  using run_completion_used [of i s]
  by (auto simp: push_back_idle_msg_def idle_msg_reset_def on_abort_msg_complete_def
      dispr_enqueue_token_op_info_def prim_defs Let_def)

lemma pop_wait_msg_shrinks:
  "pop_front_wait_msg s = (Some i, s1) \<Longrightarrow>
     cbs s1 = cbs s \<and> length (queue (msg_wait_q s1)) < length (queue (msg_wait_q s))"
  by (auto simp: pop_front_wait_msg_def pq_pop_def prim_defs split: if_splits)

lemma pop_wait_req_shrinks:
  "pop_front_wait_req s = (Some i, s1) \<Longrightarrow>
     cbs s1 = cbs s \<and> length (queue (token_req_wait_q s1)) < length (queue (token_req_wait_q s))"
  by (auto simp: pop_front_wait_req_def pq_pop_def prim_defs split: if_splits)

text \<open>The two inner loops of \<^verbatim>\<open>clear_waiting_msg\<close>.\<close>

function drain_pending :: "cmd_dispatcher \<Rightarrow> cmd_dispatcher" where
  "drain_pending s =
     (case pop_front_pending_msg s of
        (None, s1) \<Rightarrow> s1
      | (Some i, s1) \<Rightarrow> drain_pending (push_back_wait_msg i s1))"
  by auto
termination
  by (relation "measure (\<lambda>s. length (queue (msg_pend_q s)))") (auto dest: pop_front_pending_shrinks [OF sym])

function drain_waiting :: "cmd_dispatcher \<Rightarrow> cmd_dispatcher" where
  "drain_waiting s =
     (case pop_front_wait_msg s of
        (None, s1) \<Rightarrow> s1
      | (Some i, s1) \<Rightarrow> drain_waiting (push_back_idle_msg i s1))"
  by auto
termination
proof (relation "measures [\<lambda>s. length (cbs s), \<lambda>s. length (queue (msg_wait_q s))]", goal_cases)
  case (2 s x s1 i)
  then show ?case using pop_wait_msg_shrinks [of s i s1] push_idle_used [of i s1] by auto
qed simp

declare drain_pending.simps [simp del] drain_waiting.simps [simp del]

text \<open>
  The outer loop runs until all messages are idle. It has no other exit: \<open>None\<close> is a loop that does
  not end.
\<close>

partial_function (option) clear_waiting_msg :: "cmd_dispatcher \<Rightarrow> cmd_dispatcher option" where
  "clear_waiting_msg s =
     (if cnt (msg_idle_q s) \<noteq> int MAX_PHL_MSG_NUM
      then clear_waiting_msg (drain_waiting (drain_pending s)) else Some s)"

function drain_reqs :: "cmd_dispatcher \<Rightarrow> cmd_dispatcher" where
  "drain_reqs s =
     (case pop_front_wait_req s of
        (None, s1) \<Rightarrow> s1
      | (Some r, s1) \<Rightarrow> drain_reqs (push_back_idle_req r (snd (run_cb (\<lambda>_. Ev_Abort r) s1))))"
  by auto
termination
proof (relation "measures [\<lambda>s. length (cbs s), \<lambda>s. length (queue (token_req_wait_q s))]", goal_cases)
  case (2 s x s1 r)
  have "length (cbs (snd (run_cb (\<lambda>_. Ev_Abort r) s1))) < length (cbs s1) \<or>
      cbs (snd (run_cb (\<lambda>_. Ev_Abort r) s1)) = cbs s1 \<and>
      token_req_wait_q (snd (run_cb (\<lambda>_. Ev_Abort r) s1)) = token_req_wait_q s1"
    by (auto simp: run_cb_def emit_def split: list.splits)
  with 2 show ?case
    using pop_wait_req_shrinks [of s r s1] by (auto simp: push_back_idle_req_def prim_defs Let_def)
qed simp

declare drain_reqs.simps [simp del]

partial_function (option) clear_wating_req :: "cmd_dispatcher \<Rightarrow> cmd_dispatcher option" where
  "clear_wating_req s =
     (if cnt (token_req_idle_q s) \<noteq> int MAX_CMD_REQ_NUM then clear_wating_req (drain_reqs s) else Some s)"

definition dispr_thread_leave_hdl :: "cmd_dispatcher \<Rightarrow> cmd_dispatcher option" where
  "dispr_thread_leave_hdl s =
     (case clear_waiting_msg (deregister_cur_cmd_req True s) of
        None \<Rightarrow> None
      | Some s1 \<Rightarrow> clear_wating_req s1)"

subsection \<open>Starting and stopping\<close>

definition dispr_msg_ex0 :: phl_dispr_msg_ex where
  "dispr_msg_ex0 = \<lparr>ex_status = 0, ex_idx = 0, ex_msg = phl_msg0, premap = empty_map, postmap = empty_map,
     ex_completion = no_completion, ex_module = None\<rparr>"

definition req_ex0 :: phl_cmd_token_req_ex where
  "req_ex0 = \<lparr>req_idx = 0, req_status = 0, req = req0, add_req_info = op_info0, free_req_info = op_info0\<rparr>"

definition init_dispr_msg_pool :: "cmd_dispatcher \<Rightarrow> cmd_dispatcher" where
  "init_dispr_msg_pool s =
     (if TEST_STATUS_FLAG (d_status s) DISPR_MSGQ_INIT then s
      else
        let s1 = s\<lparr>msg_idle_q := pq_init, msg_wait_q := pq_init, msg_pend_q := pq_init,
                   msg_ex_pool := replicate MAX_PHL_MSG_NUM dispr_msg_ex0\<rparr>
        in set_d_flag DISPR_MSGQ_INIT
             (fold (\<lambda>i s. push_back_idle_msg i (upd_ex i (\<lambda>ex. ex\<lparr>ex_idx := i\<rparr>) s)) [0..<MAX_PHL_MSG_NUM] s1))"

definition init_cmd_req_pool :: "cmd_dispatcher \<Rightarrow> cmd_dispatcher" where
  "init_cmd_req_pool s =
     (if TEST_STATUS_FLAG (d_status s) DISPR_REQ_INIT then s
      else
        let s1 = s\<lparr>token_req_wait_q := pq_init, token_req_idle_q := pq_init, token_op_q := pq_init,
                   token_req_ex_pool := replicate MAX_CMD_REQ_NUM req_ex0\<rparr>
        in set_d_flag DISPR_REQ_INIT
             (fold (\<lambda>i s. let s2 = upd_req i (\<lambda>r. r\<lparr>req_idx := i\<rparr>) s
                          in s2\<lparr>token_req_idle_q := pq_push (token_req_idle_q s2) i Tail\<rparr>)
                [0..<MAX_CMD_REQ_NUM] s1))"

definition init_dispr_mdl_mgnt_info :: "cmd_dispatcher \<Rightarrow> cmd_dispatcher" where
  "init_dispr_mdl_mgnt_info s = s\<lparr>mdl_info := (\<lambda>_. MSG_EVT_MAX)\<rparr>"

text \<open>\<^verbatim>\<open>pq_deinit\<close> only gives up the lock of a queue.\<close>

definition deinit_dispr_msg_pool :: "cmd_dispatcher \<Rightarrow> cmd_dispatcher" where
  "deinit_dispr_msg_pool s =
     (if \<not> TEST_STATUS_FLAG (d_status s) DISPR_MSGQ_INIT then s
      else clear_d_flag DISPR_MSGQ_INIT s)"

definition deinit_cmd_req_pool :: "cmd_dispatcher \<Rightarrow> cmd_dispatcher" where
  "deinit_cmd_req_pool s =
     (if \<not> TEST_STATUS_FLAG (d_status s) DISPR_REQ_INIT then s
      else clear_d_flag DISPR_REQ_INIT s)"

text \<open>Module operations; \<open>upd_mdl\<close> writes a module structure, \<open>bk_module_*\<close> return their flag.\<close>

fun upd_mdl :: "mdl_ref \<Rightarrow> (phl_bk_module \<Rightarrow> phl_bk_module) \<Rightarrow> cmd_dispatcher \<Rightarrow> cmd_dispatcher" where
  "upd_mdl Ctrl f s = s\<lparr>controller := f (controller s)\<rparr>"
| "upd_mdl (Bk a) f s = s\<lparr>mdls := (mdls s)(a := map_option f (mdls s a))\<rparr>"

definition mdl_stat :: "cmd_dispatcher \<Rightarrow> mdl_ref \<Rightarrow> u8" where
  "mdl_stat s r = (case mdl_at s r of None \<Rightarrow> 0 | Some x \<Rightarrow> mdl_status x)"

definition mdl_flag :: "mdl_ref \<Rightarrow> (u8 \<Rightarrow> u8) \<Rightarrow> cmd_dispatcher \<Rightarrow> cmd_dispatcher" where
  "mdl_flag r f s = upd_mdl r (\<lambda>x. x\<lparr>mdl_status := f (mdl_status x)\<rparr>) (set_fault (mdl_at s r = None) s)"

definition bk_module_init :: "mdl_ref \<Rightarrow> cmd_dispatcher \<Rightarrow> bool \<times> cmd_dispatcher" where
  "bk_module_init r s =
     (if TEST_STATUS_FLAG (mdl_stat s r) MDL_INIT then (False, s)
      else case run_cb (Ev_Ops r) s of
             (ret, s1) \<Rightarrow>
               if ret = MDL_RET_SUCCESS then (True, mdl_flag r (\<lambda>st. SET_STATUS_FLAG st MDL_INIT) s1)
               else (False, s1))"

definition bk_module_deinit :: "mdl_ref \<Rightarrow> cmd_dispatcher \<Rightarrow> cmd_dispatcher" where
  "bk_module_deinit r s =
     mdl_flag r (\<lambda>st. CLEAR_STATUS_FLAG st MDL_INIT)
       (if TEST_STATUS_FLAG (mdl_stat s r) MDL_INIT then snd (run_cb (Ev_Ops r) s) else s)"

definition bk_module_start :: "mdl_ref \<Rightarrow> cmd_dispatcher \<Rightarrow> bool \<times> cmd_dispatcher" where
  "bk_module_start r s =
     (if \<not> TEST_STATUS_FLAG (mdl_stat s r) MDL_INIT \<or> TEST_STATUS_FLAG (mdl_stat s r) MDL_STARTED
      then (False, s)
      else case run_cb (Ev_Ops r) s of
             (ret, s1) \<Rightarrow>
               if ret = MDL_RET_SUCCESS then (True, mdl_flag r (\<lambda>st. SET_STATUS_FLAG st MDL_STARTED) s1)
               else (False, s1))"

definition bk_module_stop :: "mdl_ref \<Rightarrow> cmd_dispatcher \<Rightarrow> bool \<times> cmd_dispatcher" where
  "bk_module_stop r s =
     (if \<not> TEST_STATUS_FLAG (mdl_stat s r) MDL_STARTED then (False, s)
      else case run_cb (Ev_Ops r) (mdl_flag r (\<lambda>st. CLEAR_STATUS_FLAG st MDL_STARTED) s) of
             (ret, s1) \<Rightarrow> (ret = MDL_RET_SUCCESS, s1))"

definition register_dispr_controller :: "cmd_dispatcher \<Rightarrow> rtw_phl_status \<times> cmd_dispatcher" where
  "register_dispr_controller s =
     (case bk_module_init Ctrl (upd_mdl Ctrl (\<lambda>x. x\<lparr>mdl_id := PHL_MDL_PHY_MGNT\<rparr>) s) of
        (ok, s1) \<Rightarrow> (if ok then RTW_PHL_STATUS_SUCCESS else RTW_PHL_STATUS_FAILURE, s1))"

definition start_dispr_controller :: "cmd_dispatcher \<Rightarrow> rtw_phl_status \<times> cmd_dispatcher" where
  "start_dispr_controller s =
     (case bk_module_start Ctrl s of
        (ok, s1) \<Rightarrow> if ok then (RTW_PHL_STATUS_SUCCESS, set_d_flag DISPR_CTRL_PRESENT s1)
                    else (RTW_PHL_STATUS_FAILURE, s1))"

definition stop_dispr_controller :: "cmd_dispatcher \<Rightarrow> rtw_phl_status \<times> cmd_dispatcher" where
  "stop_dispr_controller s =
     (case bk_module_stop Ctrl (clear_d_flag DISPR_CTRL_PRESENT s) of
        (ok, s1) \<Rightarrow> (if ok then RTW_PHL_STATUS_SUCCESS else RTW_PHL_STATUS_FAILURE, s1))"

text \<open>\<^verbatim>\<open>_os_mem_alloc\<close> gives zeroed memory or, when \<open>mem\<close> is false, nothing.\<close>

definition dispr_zero :: "u8 \<Rightarrow> u8 \<Rightarrow> callback list \<Rightarrow> cmd_dispatcher" where
  "dispr_zero idx phys cs =
     \<lparr>d_idx = idx, d_status = 0, phy_num = phys, module_q = (\<lambda>_. pq_init), mdls = (\<lambda>_. None),
      msg_ex_pool = replicate MAX_PHL_MSG_NUM dispr_msg_ex0, msg_wait_q = pq_init, msg_idle_q = pq_init,
      msg_pend_q = pq_init, d_sema = 0, token_req_ex_pool = replicate MAX_CMD_REQ_NUM req_ex0,
      token_req_wait_q = pq_init, token_req_idle_q = pq_init, token_op_q = pq_init, token_cnt = 0,
      cur_cmd_req = None, d_bitmap = empty_map, d_basemap = empty_map, mdl_info = (\<lambda>_. 0),
      controller = \<lparr>mdl_status = 0, mdl_id = 0\<rparr>, renew_req_info = op_info0, exclusive_mdl = 0,
      fault = False, to_other = [], dlog = [], cbs = cs\<rparr>"

definition dispr_init :: "bool \<Rightarrow> u8 \<Rightarrow> u8 \<Rightarrow> callback list \<Rightarrow> rtw_phl_status \<times> cmd_dispatcher option" where
  "dispr_init mem idx phys cs =
     (if \<not> mem then (RTW_PHL_STATUS_RESOURCE, None)
      else (RTW_PHL_STATUS_SUCCESS,
            Some (snd (register_dispr_controller (set_d_flag DISPR_INIT (dispr_zero idx phys cs))))))"

definition dispr_start :: "cmd_dispatcher \<Rightarrow> rtw_phl_status \<times> cmd_dispatcher" where
  "dispr_start s =
     (if TEST_STATUS_FLAG (d_status s) DISPR_STARTED then (RTW_PHL_STATUS_UNEXPECTED_ERROR, s)
      else
        let s1 = init_dispr_mdl_mgnt_info (init_cmd_req_pool (init_dispr_msg_pool s));
            s2 = s1\<lparr>renew_req_info := op_info0, exclusive_mdl := PHL_MDL_ID_MAX\<rparr>
        in (RTW_PHL_STATUS_SUCCESS,
            snd (start_dispr_controller (set_d_flag DISPR_NOTIFY_IDLE (set_d_flag DISPR_STARTED s2)))))"

definition is_dispr_started :: "cmd_dispatcher \<Rightarrow> bool" where
  "is_dispr_started s \<longleftrightarrow> TEST_STATUS_FLAG (d_status s) DISPR_STARTED"

definition dispr_clr_ctrl_state :: "cmd_dispatcher \<Rightarrow> cmd_dispatcher" where
  "dispr_clr_ctrl_state s = s\<lparr>d_status := d_status s AND 0x7F\<rparr>"

definition dispr_thread_stop_prior_hdl :: "cmd_dispatcher \<Rightarrow> cmd_dispatcher" where
  "dispr_thread_stop_prior_hdl s =
     (if \<not> TEST_STATUS_FLAG (d_status s) DISPR_STARTED then s
      else cancel_running_msg (cancel_all_cmd_req
             (snd (stop_dispr_controller (clear_d_flag DISPR_STARTED s)))))"

definition dispr_thread_stop_post_hdl :: "cmd_dispatcher \<Rightarrow> cmd_dispatcher" where
  "dispr_thread_stop_post_hdl s =
     (dispr_clr_ctrl_state (deinit_cmd_req_pool (deinit_dispr_msg_pool s)))\<lparr>token_cnt := 0\<rparr>"

text \<open>With the shared thread, \<^verbatim>\<open>dispr_stop\<close> itself waits for nothing.\<close>

definition dispr_stop :: "cmd_dispatcher \<Rightarrow> rtw_phl_status \<times> cmd_dispatcher" where
  "dispr_stop s =
     (if \<not> TEST_STATUS_FLAG (d_status s) DISPR_STARTED then (RTW_PHL_STATUS_UNEXPECTED_ERROR, s)
      else (RTW_PHL_STATUS_SUCCESS, dispr_thread_stop_post_hdl (dispr_thread_stop_prior_hdl s)))"

subsection \<open>Registering modules\<close>

definition get_mdl_priority :: "u8 \<Rightarrow> nat" where
  "get_mdl_priority m =
     (if m < PHL_BK_MDL_ROLE_START then 3
      else if m \<le> PHL_BK_MDL_ROLE_END then 0
      else if m \<le> PHL_BK_MDL_MDRY_END then 2
      else if m \<le> PHL_BK_MDL_OPT_END then 1
      else 3)"

definition add_mdl_bits :: "u8 \<Rightarrow> bool \<Rightarrow> cmd_dispatcher \<Rightarrow> cmd_dispatcher" where
  "add_mdl_bits m base s =
     s\<lparr>d_bitmap := add_bitmap_bit MODL_MASK_LEN (d_bitmap s) [m],
       d_basemap := (if base then add_bitmap_bit MODL_MASK_LEN (d_basemap s) [m] else d_basemap s)\<rparr>"

definition clr_mdl_bits :: "u8 \<Rightarrow> cmd_dispatcher \<Rightarrow> cmd_dispatcher" where
  "clr_mdl_bits m s =
     s\<lparr>d_bitmap := clr_bitmap_bit MODL_MASK_LEN (d_bitmap s) [m],
       d_basemap := clr_bitmap_bit MODL_MASK_LEN (d_basemap s) [m]\<rparr>"

definition free_mdl :: "nat \<Rightarrow> cmd_dispatcher \<Rightarrow> cmd_dispatcher" where
  "free_mdl a s = s\<lparr>mdls := (mdls s)(a := None)\<rparr>"

text \<open>
  \<open>al\<close> is the memory the allocation gives, \<open>ops_ok\<close> says that no operation of the module is NULL. A
  module that fails to initialise or start is freed, but stays in the queue.
\<close>

definition dispr_register_module ::
  "nat option \<Rightarrow> u8 \<Rightarrow> bool \<Rightarrow> cmd_dispatcher \<Rightarrow> rtw_phl_status \<times> cmd_dispatcher" where
  "dispr_register_module al m ops_ok s =
     (let p = get_mdl_priority m
      in if \<not> TEST_STATUS_FLAG (d_status s) DISPR_INIT \<or> p = 3 \<or> \<not> ops_ok \<or>
            chk_bitmap_bit MODL_MASK_LEN (d_bitmap s) m
         then (RTW_PHL_STATUS_FAILURE, s)
         else case al of
                None \<Rightarrow> (RTW_PHL_STATUS_FAILURE, s)
              | Some a \<Rightarrow>
                  let s1 = s\<lparr>mdls := (mdls s)(a \<mapsto> \<lparr>mdl_status = 0, mdl_id = m\<rparr>),
                             module_q := (module_q s)(p := pq_push (module_q s p) a Tail)\<rparr>;
                      (ok, s2) = bk_module_init (Bk a) s1;
                      (ok', s3) = (if ok \<and> TEST_STATUS_FLAG (d_status s2) DISPR_STARTED
                                   then case bk_module_start (Bk a) s2 of
                                          (b, t) \<Rightarrow> (b, if b then add_mdl_bits m (p \<noteq> 1) t else t)
                                   else (ok, s2))
                  in if ok' then (RTW_PHL_STATUS_SUCCESS, s3)
                     else (RTW_PHL_STATUS_FAILURE, free_mdl a (bk_module_deinit (Bk a) s3)))"

definition dispr_deregister_module :: "u8 \<Rightarrow> cmd_dispatcher \<Rightarrow> rtw_phl_status \<times> cmd_dispatcher" where
  "dispr_deregister_module m s =
     (let p = get_mdl_priority m
      in if \<not> TEST_STATUS_FLAG (d_status s) DISPR_INIT \<or> p = 3 then (RTW_PHL_STATUS_FAILURE, s)
         else case pq_search_node (module_q s p) True (Some (search_mdl s m)) of
                (None, _) \<Rightarrow> (RTW_PHL_STATUS_FAILURE, set_fault (search_faults s m (module_q s p)) s)
              | (Some a, q) \<Rightarrow>
                  let s1 = (set_fault (search_faults s m (module_q s p)) s)\<lparr>module_q := (module_q s)(p := q)\<rparr>
                  in (RTW_PHL_STATUS_SUCCESS,
                      free_mdl a (bk_module_deinit (Bk a) (snd (bk_module_stop (Bk a) (clr_mdl_bits m s1))))))"

definition mdl_id_at :: "cmd_dispatcher \<Rightarrow> nat \<Rightarrow> u8" where
  "mdl_id_at s a = (case mdls s a of None \<Rightarrow> 0 | Some x \<Rightarrow> mdl_id x)"

definition dispr_module_start :: "cmd_dispatcher \<Rightarrow> rtw_phl_status \<times> cmd_dispatcher" where
  "dispr_module_start s =
     (if \<not> TEST_STATUS_FLAG (d_status s) DISPR_STARTED then (RTW_PHL_STATUS_UNEXPECTED_ERROR, s)
      else (RTW_PHL_STATUS_SUCCESS,
            fold (\<lambda>p s. fold (\<lambda>a s. case bk_module_start (Bk a) (set_fault (mdls s a = None) s) of
                                      (b, t) \<Rightarrow> if b then add_mdl_bits (mdl_id_at t a) (p \<noteq> 1) t else t)
                          (walk (module_q s p)) s) [0, 1, 2] s))"

definition dispr_module_stop :: "cmd_dispatcher \<Rightarrow> rtw_phl_status \<times> cmd_dispatcher" where
  "dispr_module_stop s =
     (if \<not> TEST_STATUS_FLAG (d_status s) DISPR_STARTED then (RTW_PHL_STATUS_UNEXPECTED_ERROR, s)
      else (RTW_PHL_STATUS_SUCCESS,
            fold (\<lambda>p s. fold (\<lambda>a s. snd (bk_module_stop (Bk a)
                                      (clr_mdl_bits (mdl_id_at s a) (set_fault (mdls s a = None) s))))
                          (walk (module_q s p)) s) [0, 1, 2] s))"

definition dispr_module_init :: "cmd_dispatcher \<Rightarrow> rtw_phl_status \<times> cmd_dispatcher" where
  "dispr_module_init s =
     (if \<not> TEST_STATUS_FLAG (d_status s) DISPR_INIT then (RTW_PHL_STATUS_FAILURE, s)
      else (RTW_PHL_STATUS_SUCCESS,
            fold (\<lambda>p s. fold (\<lambda>a s. snd (bk_module_init (Bk a) (set_fault (mdls s a = None) s)))
                          (walk (module_q s p)) s) [0, 1, 2] s))"

text \<open>The loop pops as many modules as the counter and the list of the queue allow.\<close>

definition dispr_module_deinit :: "cmd_dispatcher \<Rightarrow> rtw_phl_status \<times> cmd_dispatcher" where
  "dispr_module_deinit s =
     (if \<not> TEST_STATUS_FLAG (d_status s) DISPR_INIT then (RTW_PHL_STATUS_FAILURE, s)
      else (RTW_PHL_STATUS_SUCCESS,
            fold (\<lambda>p s. fold (\<lambda>a s. free_mdl a (bk_module_deinit (Bk a) (set_fault (mdls s a = None)
                                      (s\<lparr>module_q := (module_q s)(p := snd (pq_pop (module_q s p) First))\<rparr>))))
                          (take (nat (cnt (module_q s p))) (queue (module_q s p))) s) [0, 1, 2] s))"

subsection \<open>Queries\<close>

definition dispr_get_cur_cmd_req :: "cmd_dispatcher \<Rightarrow> rtw_phl_status \<times> nat option" where
  "dispr_get_cur_cmd_req s =
     (if \<not> TEST_STATUS_FLAG (d_status s) (DISPR_INIT OR DISPR_STARTED)
      then (RTW_PHL_STATUS_UNEXPECTED_ERROR, None)
      else case cur_cmd_req s of
             None \<Rightarrow> (RTW_PHL_STATUS_FAILURE, None)
           | Some r \<Rightarrow>
               let st = req_status (get_req s r)
               in if \<not> TEST_STATUS_FLAG st REQ_STATUS_RUN \<or> TEST_STATUS_FLAG st REQ_STATUS_CANCEL
                  then (RTW_PHL_STATUS_FAILURE, None) else (RTW_PHL_STATUS_SUCCESS, Some r))"

definition dispr_get_bk_module_handle :: "u8 \<Rightarrow> cmd_dispatcher \<Rightarrow> rtw_phl_status \<times> nat option" where
  "dispr_get_bk_module_handle m s =
     (let p = get_mdl_priority m
      in if \<not> TEST_STATUS_FLAG (d_status s) DISPR_INIT \<or> p = 3 \<or>
            \<not> chk_bitmap_bit MODL_MASK_LEN (d_bitmap s) m
         then (RTW_PHL_STATUS_FAILURE, None)
         else case pq_search_node (module_q s p) False (Some (search_mdl s m)) of
                (Some a, _) \<Rightarrow> (RTW_PHL_STATUS_SUCCESS, Some a)
              | (None, _) \<Rightarrow> (RTW_PHL_STATUS_FAILURE, None))"

end
