(* ===== verification/Phl_Dispr_Inv.thy ===== *)
theory Phl_Dispr_Inv
  imports Phl_Dispr
begin

section \<open>What the dispatcher keeps\<close>

text \<open>
  The invariant of the dispatcher: every message structure is idle, waiting, pending or in the
  hands of the thread, every request is idle, waiting, the current command or in the hands of the
  thread, there is one token, and every completion routine that was accepted with a message has
  been called or is still owed. All functions of the dispatcher keep it, whatever the callbacks do.
\<close>

subsection \<open>Messages\<close>

text \<open>\<open>H\<close> are the messages in the hands of the thread.\<close>

definition msgs_ok :: "nat list \<Rightarrow> cmd_dispatcher \<Rightarrow> bool" where
  "msgs_ok H s \<longleftrightarrow>
     length (msg_ex_pool s) = MAX_PHL_MSG_NUM \<and>
     (\<forall>i < MAX_PHL_MSG_NUM. ex_idx (get_ex s i) = i) \<and>
     mset (queue (msg_idle_q s)) + mset (queue (msg_wait_q s)) + mset (queue (msg_pend_q s)) + mset H =
       mset [0..<MAX_PHL_MSG_NUM] \<and>
     cnt (msg_idle_q s) = int (length (queue (msg_idle_q s))) \<and>
     cnt (msg_wait_q s) = int (length (queue (msg_wait_q s))) \<and>
     cnt (msg_pend_q s) = int (length (queue (msg_pend_q s))) \<and>
     (\<forall>i \<in> set (queue (msg_idle_q s)). ex_status (get_ex s i) = 0 \<and> msg_id (ex_msg (get_ex s i)) = 0)"

text \<open>The completion routine a message still owes, and the accounts: \<open>D\<close> is the difference while a
  message is sent or completed.\<close>

definition owes :: "phl_dispr_msg_ex \<Rightarrow> msg_completion_routine multiset" where
  "owes ex = (if TEST_STATUS_FLAG (ex_status ex) MSG_STATUS_NOTIFY_COMPLETE \<and> c_fun (ex_completion ex) \<noteq> None
              then {#ex_completion ex#} else {#})"

definition owed :: "cmd_dispatcher \<Rightarrow> msg_completion_routine multiset" where
  "owed s = sum_list (map owes (msg_ex_pool s))"

fun ev_sent :: "dispr_event \<Rightarrow> msg_completion_routine multiset" where
  "ev_sent (Ev_Sent _ c) = (if c_fun c \<noteq> None then {#c#} else {#})"
| "ev_sent _ = {#}"

fun ev_done :: "dispr_event \<Rightarrow> msg_completion_routine multiset" where
  "ev_done (Ev_Done c _) = {#c#}"
| "ev_done _ = {#}"

definition acct :: "msg_completion_routine multiset \<Rightarrow> cmd_dispatcher \<Rightarrow> bool" where
  "acct D s \<longleftrightarrow> sum_list (map ev_sent (dlog s)) + D = sum_list (map ev_done (dlog s)) + owed s"

subsection \<open>Requests\<close>

text \<open>\<open>P\<close> are the requests in the hands of the thread.\<close>

definition reqs_ok :: "nat list \<Rightarrow> cmd_dispatcher \<Rightarrow> bool" where
  "reqs_ok P s \<longleftrightarrow>
     length (token_req_ex_pool s) = MAX_CMD_REQ_NUM \<and>
     (\<forall>r < MAX_CMD_REQ_NUM. req_idx (get_req s r) = r) \<and>
     mset (queue (token_req_idle_q s)) + mset (queue (token_req_wait_q s)) +
       mset (case cur_cmd_req s of None \<Rightarrow> [] | Some r \<Rightarrow> [r]) + mset P = mset [0..<MAX_CMD_REQ_NUM] \<and>
     cnt (token_req_idle_q s) = int (length (queue (token_req_idle_q s))) \<and>
     cnt (token_req_wait_q s) = int (length (queue (token_req_wait_q s))) \<and>
     token_cnt s = (if cur_cmd_req s = None then 0 else 1) \<and>
     (\<forall>r < MAX_CMD_REQ_NUM.
        (TEST_STATUS_FLAG (req_status (get_req s r)) REQ_STATUS_ENQ \<longrightarrow>
           r \<in> set (queue (token_req_wait_q s)) \<union> set P) \<and>
        (r \<in> set (queue (token_req_wait_q s)) \<longrightarrow> TEST_STATUS_FLAG (req_status (get_req s r)) REQ_STATUS_ENQ) \<and>
        (TEST_STATUS_FLAG (req_status (get_req s r)) REQ_STATUS_RUN \<longrightarrow> cur_cmd_req s = Some r) \<and>
        (r \<notin> set (queue (token_req_idle_q s)) \<longrightarrow> PHL_FG_MDL_START \<le> req_module_id (req (get_req s r))))"

definition dispr_ok ::
  "nat list \<Rightarrow> nat list \<Rightarrow> msg_completion_routine multiset \<Rightarrow> cmd_dispatcher \<Rightarrow> bool" where
  "dispr_ok H P D s \<longleftrightarrow> msgs_ok H s \<and> reqs_ok P s \<and> acct D s"

subsection \<open>Frames\<close>

text \<open>Updates that do not touch messages, or do not touch requests.\<close>

lemma msgs_ok_frame [simp]:
  "msgs_ok H (set_d_flag f s) = msgs_ok H s" "msgs_ok H (clear_d_flag f s) = msgs_ok H s"
  "msgs_ok H (emit e s) = msgs_ok H s" "msgs_ok H (tell_other x s) = msgs_ok H s"
  "msgs_ok H (set_fault b s) = msgs_ok H s" "msgs_ok H (notify_dispr_thread s) = msgs_ok H s"
  "msgs_ok H (upd_req r g s) = msgs_ok H s" "msgs_ok H (s\<lparr>token_op_q := oq\<rparr>) = msgs_ok H s"
  "msgs_ok H (s\<lparr>cbs := cs\<rparr>) = msgs_ok H s" "msgs_ok H (s\<lparr>mdl_info := mi\<rparr>) = msgs_ok H s"
  "msgs_ok H (s\<lparr>renew_req_info := ri\<rparr>) = msgs_ok H s" "msgs_ok H (s\<lparr>token_req_wait_q := rq\<rparr>) = msgs_ok H s"
  "msgs_ok H (s\<lparr>token_req_idle_q := rq\<rparr>) = msgs_ok H s" "msgs_ok H (s\<lparr>token_cnt := n\<rparr>) = msgs_ok H s"
  "msgs_ok H (s\<lparr>cur_cmd_req := c\<rparr>) = msgs_ok H s" "msgs_ok H (s\<lparr>exclusive_mdl := em\<rparr>) = msgs_ok H s"
  by (simp_all add: msgs_ok_def prim_defs)

lemma acct_frame [simp]:
  "acct D (set_d_flag f s) = acct D s" "acct D (clear_d_flag f s) = acct D s"
  "acct D (tell_other x s) = acct D s"
  "acct D (set_fault b s) = acct D s" "acct D (notify_dispr_thread s) = acct D s"
  "acct D (upd_req r g s) = acct D s" "acct D (s\<lparr>token_op_q := oq\<rparr>) = acct D s"
  "acct D (s\<lparr>cbs := cs\<rparr>) = acct D s" "acct D (s\<lparr>mdl_info := mi\<rparr>) = acct D s"
  "acct D (s\<lparr>renew_req_info := ri\<rparr>) = acct D s" "acct D (s\<lparr>token_req_wait_q := rq\<rparr>) = acct D s"
  "acct D (s\<lparr>token_req_idle_q := rq\<rparr>) = acct D s" "acct D (s\<lparr>token_cnt := n\<rparr>) = acct D s"
  "acct D (s\<lparr>cur_cmd_req := c\<rparr>) = acct D s" "acct D (s\<lparr>exclusive_mdl := em\<rparr>) = acct D s"
  "acct D (s\<lparr>msg_idle_q := q\<rparr>) = acct D s" "acct D (s\<lparr>msg_wait_q := q\<rparr>) = acct D s"
  "acct D (s\<lparr>msg_pend_q := q\<rparr>) = acct D s"
  by (simp_all add: acct_def owed_def prim_defs)

lemma reqs_ok_frame [simp]:
  "reqs_ok P (set_d_flag f s) = reqs_ok P s" "reqs_ok P (clear_d_flag f s) = reqs_ok P s"
  "reqs_ok P (emit e s) = reqs_ok P s" "reqs_ok P (tell_other x s) = reqs_ok P s"
  "reqs_ok P (set_fault b s) = reqs_ok P s" "reqs_ok P (notify_dispr_thread s) = reqs_ok P s"
  "reqs_ok P (upd_ex i g s) = reqs_ok P s" "reqs_ok P (s\<lparr>token_op_q := oq\<rparr>) = reqs_ok P s"
  "reqs_ok P (s\<lparr>cbs := cs\<rparr>) = reqs_ok P s" "reqs_ok P (s\<lparr>mdl_info := mi\<rparr>) = reqs_ok P s"
  "reqs_ok P (s\<lparr>renew_req_info := ri\<rparr>) = reqs_ok P s" "reqs_ok P (s\<lparr>msg_idle_q := q\<rparr>) = reqs_ok P s"
  "reqs_ok P (s\<lparr>msg_wait_q := q\<rparr>) = reqs_ok P s" "reqs_ok P (s\<lparr>msg_pend_q := q\<rparr>) = reqs_ok P s"
  "reqs_ok P (s\<lparr>exclusive_mdl := em\<rparr>) = reqs_ok P s"
  by (simp_all add: reqs_ok_def prim_defs)

lemma acct_emit [simp]:
  "acct D (emit (Ev_Mdl r m x) s) = acct D s" "acct D (emit (Ev_Owner r m) s) = acct D s"
  "acct D (emit (Ev_Req k m) s) = acct D s" "acct D (emit (Ev_Acquired k x) s) = acct D s"
  "acct D (emit (Ev_Abort k) s) = acct D s" "acct D (emit (Ev_Ops r x) s) = acct D s"
  by (simp_all add: acct_def owed_def emit_def)

lemma acct_sent:
  "acct (D + (if c_fun c \<noteq> None then {#c#} else {#})) s \<Longrightarrow> acct D (emit (Ev_Sent i c) s)"
  by (simp add: acct_def owed_def emit_def add.assoc add.commute [of D])

lemma acct_done: "acct D s \<Longrightarrow> acct (D + {#c#}) (emit (Ev_Done c m) s)"
  by (simp add: acct_def owed_def emit_def)

subsection \<open>Message structures\<close>

lemma msgs_okD:
  assumes "msgs_ok H s"
  shows "i \<in> set H \<Longrightarrow> i < MAX_PHL_MSG_NUM \<and> i \<notin> set (queue (msg_idle_q s)) \<and>
      i \<notin> set (queue (msg_wait_q s)) \<and> i \<notin> set (queue (msg_pend_q s))"
    and "i \<in> set (queue (msg_idle_q s)) \<Longrightarrow> i < MAX_PHL_MSG_NUM \<and> i \<notin> set H"
    and "i \<in> set (queue (msg_wait_q s)) \<Longrightarrow> i < MAX_PHL_MSG_NUM \<and> i \<notin> set H \<and> i \<notin> set (queue (msg_idle_q s))"
    and "i \<in> set (queue (msg_pend_q s)) \<Longrightarrow> i < MAX_PHL_MSG_NUM \<and> i \<notin> set H \<and> i \<notin> set (queue (msg_idle_q s))"
    and "distinct H" "length (msg_ex_pool s) = MAX_PHL_MSG_NUM"
proof -
  let ?l = "queue (msg_idle_q s) @ queue (msg_wait_q s) @ queue (msg_pend_q s) @ H"
  have m: "mset ?l = mset [0..<MAX_PHL_MSG_NUM]"
    using assms by (simp add: msgs_ok_def add.assoc)
  have d: "distinct ?l" by (rule iffD2 [OF mset_eq_imp_distinct_iff [OF m]]) simp
  have st: "set ?l = {0..<MAX_PHL_MSG_NUM}" using mset_eq_setD [OF m] by simp
  have b: "i < MAX_PHL_MSG_NUM" if "i \<in> set ?l" using that unfolding st by simp
  show "i \<in> set H \<Longrightarrow> i < MAX_PHL_MSG_NUM \<and> i \<notin> set (queue (msg_idle_q s)) \<and>
      i \<notin> set (queue (msg_wait_q s)) \<and> i \<notin> set (queue (msg_pend_q s))"
    using d b by auto
  show "i \<in> set (queue (msg_idle_q s)) \<Longrightarrow> i < MAX_PHL_MSG_NUM \<and> i \<notin> set H" using d b by auto
  show "i \<in> set (queue (msg_wait_q s)) \<Longrightarrow> i < MAX_PHL_MSG_NUM \<and> i \<notin> set H \<and> i \<notin> set (queue (msg_idle_q s))"
    using d b by auto
  show "i \<in> set (queue (msg_pend_q s)) \<Longrightarrow> i < MAX_PHL_MSG_NUM \<and> i \<notin> set H \<and> i \<notin> set (queue (msg_idle_q s))"
    using d b by auto
  show "distinct H" using d by simp
  show "length (msg_ex_pool s) = MAX_PHL_MSG_NUM" using assms by (simp add: msgs_ok_def)
qed

text \<open>Writing to a message that is not idle.\<close>

lemma msgs_ok_upd:
  assumes "msgs_ok H s" "\<And>ex. ex_idx (f ex) = ex_idx ex" "i \<notin> set (queue (msg_idle_q s))"
  shows "msgs_ok H (upd_ex i f s)"
proof -
  have "ex_idx (get_ex (upd_ex i f s) j) = ex_idx (get_ex s j)" if "j < MAX_PHL_MSG_NUM" for j
    using assms(2) that msgs_okD(6) [OF assms(1)] by (cases "i = j") (simp_all add: upd_ex_def)
  moreover have "get_ex (upd_ex i f s) j = get_ex s j" if "j \<in> set (queue (msg_idle_q s))" for j
    using assms(3) that by (cases "i = j") (simp_all add: upd_ex_def)
  moreover have "msg_idle_q (upd_ex i f s) = msg_idle_q s" "msg_wait_q (upd_ex i f s) = msg_wait_q s"
    "msg_pend_q (upd_ex i f s) = msg_pend_q s" "length (msg_ex_pool (upd_ex i f s)) = length (msg_ex_pool s)"
    by (simp_all add: upd_ex_def)
  ultimately show ?thesis using assms(1) unfolding msgs_ok_def by metis
qed

lemma sum_list_upd:
  fixes f :: "'a \<Rightarrow> 'b :: comm_monoid_add"
  shows "i < length xs \<Longrightarrow> sum_list (map f (xs[i := x])) + f (xs ! i) = sum_list (map f xs) + f x"
  by (induction xs arbitrary: i) (auto simp: nth_Cons' algebra_simps split: nat.splits)

lemma acct_upd:
  assumes "acct D s" "i < length (msg_ex_pool s)" "D' + owes (get_ex s i) = D + owes (f (get_ex s i))"
  shows "acct D' (upd_ex i f s)"
proof -
  have o: "owed (upd_ex i f s) + owes (get_ex s i) = owed s + owes (f (get_ex s i))"
    using sum_list_upd [OF assms(2), of owes] by (simp add: owed_def upd_ex_def)
  have l: "dlog (upd_ex i f s) = dlog s" by (simp add: upd_ex_def)
  have cancel: "a + d' = b + y" if "a + d = b + x" "d' + p = d + q" "y + p = x + q"
    for a b d d' x y p q :: "msg_completion_routine multiset"
  proof -
    have "(a + d') + p = (b + y) + p"
      using that by (metis add.assoc)
    then show ?thesis by simp
  qed
  show ?thesis
    unfolding acct_def l by (rule cancel [OF assms(1) [unfolded acct_def] assms(3) o])
qed

lemma acct_upd_same:
  assumes "acct D s" "\<And>ex. owes (f ex) = owes ex"
  shows "acct D (upd_ex i f s)"
proof (cases "i < length (msg_ex_pool s)")
  case True
  then show ?thesis using acct_upd [OF assms(1) True, of D f] assms(2) by simp
next
  case False
  then have "upd_ex i f s = s" by (simp add: upd_ex_def list_update_beyond)
  then show ?thesis using assms(1) by simp
qed

text \<open>The writes that keep index and debt of a message.\<close>

lemma owes_simps [simp]:
  "owes (set_indc k ex) = owes ex" "owes (clear_indc k ex) = owes ex"
  "f AND MSG_STATUS_NOTIFY_COMPLETE = 0 \<Longrightarrow> owes (set_ex_flag f ex) = owes ex"
  "f AND MSG_STATUS_NOTIFY_COMPLETE = 0 \<Longrightarrow> owes (clear_ex_flag f ex) = owes ex"
  "owes (ex\<lparr>premap := pm\<rparr>) = owes ex" "owes (ex\<lparr>postmap := pm\<rparr>) = owes ex"
  "owes (ex\<lparr>ex_module := mo\<rparr>) = owes ex" "owes (ex\<lparr>ex_msg := msg\<rparr>) = owes ex"
  "owes (clr_own_bit b ex) = owes ex"
  by (simp_all add: owes_def set_indc_def clear_indc_def set_ex_flag_def clear_ex_flag_def clr_own_bit_def)

lemma idx_simps [simp]:
  "ex_idx (set_indc k ex) = ex_idx ex" "ex_idx (clear_indc k ex) = ex_idx ex"
  "ex_idx (set_ex_flag f ex) = ex_idx ex" "ex_idx (clear_ex_flag f ex) = ex_idx ex"
  "ex_idx (clr_own_bit b ex) = ex_idx ex"
  by (simp_all add: set_indc_def clear_indc_def set_ex_flag_def clear_ex_flag_def clr_own_bit_def)

lemma upd_ex_ok:
  assumes "dispr_ok H P D s" "\<And>ex. ex_idx (f ex) = ex_idx ex" "\<And>ex. owes (f ex) = owes ex"
    "i \<notin> set (queue (msg_idle_q s))"
  shows "dispr_ok H P D (upd_ex i f s)"
  using assms msgs_ok_upd acct_upd_same by (simp add: dispr_ok_def)

subsection \<open>Moving messages\<close>

lemma pq_pop_SomeD:
  "pq_pop q First = (Some i, q') \<Longrightarrow> queue q = i # queue q' \<and> cnt q = cnt q' + 1"
  by (cases "queue q") (auto simp: pq_pop_def split: if_splits)

lemma pq_pop_NoneD:
  "pq_pop q First = (None, q') \<Longrightarrow> cnt q = int (length (queue q)) \<Longrightarrow> queue q = [] \<and> q' = q"
  by (auto simp: pq_pop_def split: if_splits)

lemma mset_insert_before: "mset (takeWhile p l @ x # dropWhile p l) = add_mset x (mset l)"
  by (metis mset_append mset.simps(2) takeWhile_dropWhile_id union_mset_add_mset_right)

lemma length_insert_before: "length (takeWhile p l @ x # dropWhile p l) = Suc (length l)"
  by (metis mset_insert_before size_mset size_add_mset)

lemma msgs_ok_pop:
  assumes "msgs_ok H s"
  shows "pq_pop (msg_idle_q s) First = (Some i, q) \<Longrightarrow> msgs_ok (i # H) (s\<lparr>msg_idle_q := q\<rparr>)"
    and "pq_pop (msg_wait_q s) First = (Some i, q) \<Longrightarrow> msgs_ok (i # H) (s\<lparr>msg_wait_q := q\<rparr>)"
    and "pq_pop (msg_pend_q s) First = (Some i, q) \<Longrightarrow> msgs_ok (i # H) (s\<lparr>msg_pend_q := q\<rparr>)"
  using assms by (auto simp: msgs_ok_def dest!: pq_pop_SomeD)

lemma msgs_ok_push:
  assumes "msgs_ok (i # H) s"
  shows "ex_status (get_ex s i) = 0 \<Longrightarrow> msg_id (ex_msg (get_ex s i)) = 0 \<Longrightarrow>
      msgs_ok H (s\<lparr>msg_idle_q := pq_push (msg_idle_q s) i Tail\<rparr>)"
    and "msgs_ok H (s\<lparr>msg_wait_q := pq_push (msg_wait_q s) i Tail\<rparr>)"
    and "msgs_ok H (s\<lparr>msg_pend_q := pq_push (msg_pend_q s) i Tail\<rparr>)"
    and "msgs_ok H (s\<lparr>msg_wait_q := pq_insert (msg_wait_q s) i p\<rparr>)"
proof -
  show "msgs_ok H (s\<lparr>msg_wait_q := pq_insert (msg_wait_q s) i p\<rparr>)"
    using assms
    by (simp add: msgs_ok_def pq_insert_def Let_def mset_insert_before length_insert_before
        del: mset_append length_append)
qed (use assms in \<open>auto simp: msgs_ok_def pq_push_def\<close>)

lemma pop_idle_msg_ok:
  assumes "dispr_ok H P D s" "pop_front_idle_msg s = (Some i, s1)"
  shows "dispr_ok (i # H) P D s1" "ex_status (get_ex s1 i) = 0" "owes (get_ex s1 i) = {#}"
proof -
  obtain q where q: "pq_pop (msg_idle_q s) First = (Some i, q)"
    and s1: "s1 = upd_ex i (\<lambda>ex. ex\<lparr>ex_status := 0, ex_module := None, ex_completion := no_completion,
                premap := empty_map, postmap := empty_map, ex_msg := phl_msg0\<rparr>) (s\<lparr>msg_idle_q := q\<rparr>)"
    using assms(2) by (auto simp: pop_front_idle_msg_def split: prod.splits option.splits)
  have m: "msgs_ok (i # H) (s\<lparr>msg_idle_q := q\<rparr>)"
    using assms(1) q msgs_ok_pop(1) by (auto simp: dispr_ok_def)
  note i = msgs_okD(1) [OF m, of i, simplified] msgs_okD(6) [OF m]
  have st: "ex_status (get_ex s i) = 0"
    using assms(1) q by (auto simp: dispr_ok_def msgs_ok_def dest!: pq_pop_SomeD)
  have "msgs_ok (i # H) s1" unfolding s1 using m i by (intro msgs_ok_upd) simp_all
  moreover have "acct D s1"
    unfolding s1 using assms(1) i st
    by (intro acct_upd [where D = D]) (simp_all add: dispr_ok_def owes_def phl_defs)
  ultimately show "dispr_ok (i # H) P D s1" using assms(1) by (simp add: dispr_ok_def s1)
  show "ex_status (get_ex s1 i) = 0" "owes (get_ex s1 i) = {#}"
    using i by (simp_all add: s1 upd_ex_def owes_def phl_defs)
qed

lemma idle_reset_ok:
  assumes "dispr_ok (i # H) P D s" "owes (get_ex s i) = {#}"
  shows "dispr_ok H P D (idle_msg_reset i s)"
proof -
  let ?s2 = "upd_ex i (\<lambda>ex. ex\<lparr>ex_status := 0\<rparr>) s"
  let ?s3 = "if mdl_info ?s2 (ex_mdl (get_ex ?s2 i)) = ex_evt (get_ex ?s2 i)
     then ?s2\<lparr>mdl_info := (mdl_info ?s2)(ex_mdl (get_ex ?s2 i) := MSG_EVT_MAX)\<rparr> else ?s2"
  let ?s4 = "upd_ex i (\<lambda>ex. ex\<lparr>ex_msg := (ex_msg ex)\<lparr>msg_id := 0\<rparr>\<rparr>) ?s3"
  have m: "msgs_ok (i # H) s" using assms by (simp add: dispr_ok_def)
  note i = msgs_okD(1) [OF m, of i, simplified] msgs_okD(6) [OF m]
  have 2: "msgs_ok (i # H) ?s2" using m i by (intro msgs_ok_upd) simp_all
  have a2: "acct D ?s2"
    using assms i by (intro acct_upd [where D = D]) (simp_all add: dispr_ok_def owes_def phl_defs)
  have f: "msg_idle_q ?s3 = msg_idle_q s" "length (msg_ex_pool ?s3) = MAX_PHL_MSG_NUM"
    "ex_status (get_ex ?s3 i) = 0"
    using i by (simp_all add: upd_ex_def)
  have 3: "msgs_ok (i # H) ?s3" "acct D ?s3" using 2 a2 by simp_all
  have 4: "msgs_ok (i # H) ?s4" using 3 i f by (intro msgs_ok_upd) simp_all
  have a4: "acct D ?s4" using 3(2) by (intro acct_upd_same) simp_all
  have z: "ex_status (get_ex ?s4 i) = 0" "msg_id (ex_msg (get_ex ?s4 i)) = 0"
    using i f by (simp_all add: upd_ex_def [of i _ ?s3])
  have r: "reqs_ok P ?s4" using assms by (simp add: dispr_ok_def)
  have "dispr_ok H P D (?s4\<lparr>msg_idle_q := pq_push (msg_idle_q ?s4) i Tail\<rparr>)"
    using msgs_ok_push(1) [OF 4 z] a4 r by (simp add: dispr_ok_def)
  then show ?thesis unfolding idle_msg_reset_def Let_def .
qed

lemma not_idle: "dispr_ok (i # H) P D s \<Longrightarrow> i \<notin> set (queue (msg_idle_q s))"
  using msgs_okD(1) [of "i # H" s i] by (simp add: dispr_ok_def)

lemma pool_bound: "dispr_ok (i # H) P D s \<Longrightarrow> i < length (msg_ex_pool s)"
  using msgs_okD(1) [of "i # H" s i] msgs_okD(6) [of "i # H" s] by (simp add: dispr_ok_def)

lemma held_upd_ok:
  assumes "dispr_ok (i # H) P D s" "\<And>ex. ex_idx (f ex) = ex_idx ex" "\<And>ex. owes (f ex) = owes ex"
  shows "dispr_ok (i # H) P D (upd_ex i f s)"
  using upd_ex_ok assms not_idle by blast

lemma push_wait_ok:
  assumes "dispr_ok (i # H) P D s"
  shows "dispr_ok H P D (push_back_wait_msg i s)" "dispr_ok H P D (insert_msg_by_priority i s)"
    "dispr_ok H P D (push_back_pending_msg i s)"
proof -
  let ?s1 = "upd_ex i (clear_ex_flag MSG_STATUS_RUN \<circ> set_ex_flag MSG_STATUS_ENQ) s"
  have 1: "dispr_ok (i # H) P D ?s1"
    using assms by (rule held_upd_ok) (simp_all add: phl_defs)
  show "dispr_ok H P D (push_back_wait_msg i s)" "dispr_ok H P D (insert_msg_by_priority i s)"
    using 1 msgs_ok_push(2,4) [where s = ?s1]
    by (simp_all add: push_back_wait_msg_def insert_msg_by_priority_def dispr_ok_def Let_def)
  let ?s2 = "if TEST_STATUS_FLAG (ex_status (get_ex ?s1 i)) MSG_STATUS_CLR_SNDR_MSG_IF_PENDING
    then ?s1\<lparr>mdl_info := (mdl_info ?s1)(ex_mdl (get_ex ?s1 i) := ex_evt (get_ex ?s1 i))\<rparr> else ?s1"
  have 2: "dispr_ok (i # H) P D ?s2" using 1 by (simp add: dispr_ok_def)
  have "dispr_ok H P D (?s2\<lparr>msg_pend_q := pq_push (msg_pend_q ?s2) i Tail\<rparr>)"
    using 2 msgs_ok_push(3) [where s = ?s2] by (simp add: dispr_ok_def)
  then show "dispr_ok H P D (push_back_pending_msg i s)"
    unfolding push_back_pending_msg_def Let_def .
qed

lemma pop_wait_msg_ok:
  assumes "dispr_ok H P D s" "pop_front_wait_msg s = (Some i, s1)"
  shows "dispr_ok (i # H) P D s1"
proof -
  obtain q where q: "pq_pop (msg_wait_q s) First = (Some i, q)"
    and s1: "s1 = upd_ex i (clear_ex_flag MSG_STATUS_PENDING \<circ> clear_ex_flag MSG_STATUS_ENQ \<circ>
                             set_ex_flag MSG_STATUS_RUN) (s\<lparr>msg_wait_q := q\<rparr>)"
    using assms(2) by (auto simp: pop_front_wait_msg_def split: prod.splits option.splits)
  have "dispr_ok (i # H) P D (s\<lparr>msg_wait_q := q\<rparr>)"
    using assms(1) msgs_ok_pop(2) q by (simp add: dispr_ok_def)
  then show ?thesis unfolding s1 by (rule held_upd_ok) (simp_all add: phl_defs)
qed

lemma pop_pending_ok:
  assumes "dispr_ok H P D s" "pop_front_pending_msg s = (Some i, s1)"
  shows "dispr_ok (i # H) P D s1"
  using assms msgs_ok_pop(3) by (auto simp: dispr_ok_def pop_front_pending_msg_def split: prod.splits)

lemma pop_None_ok:
  "pop_front_idle_msg s = (None, s1) \<Longrightarrow> s1 = s" "pop_front_wait_msg s = (None, s1) \<Longrightarrow> s1 = s"
  "pop_front_pending_msg s = (None, s1) \<Longrightarrow> s1 = s"
  by (auto simp: pop_front_idle_msg_def pop_front_wait_msg_def pop_front_pending_msg_def pq_pop_def
      split: prod.splits option.splits if_splits)

lemma pending_to_wait_ok: "dispr_ok H P D s \<Longrightarrow> dispr_ok H P D (pending_to_wait s)"
proof (induction s rule: pending_to_wait.induct)
  case (1 s)
  obtain io s1 where p: "pop_front_pending_msg s = (io, s1)" by fastforce
  show ?case
  proof (cases io)
    case None
    then show ?thesis using 1 p pop_None_ok(3) by (subst pending_to_wait.simps) auto
  next
    case (Some i)
    then have "dispr_ok (i # H) P D s1" using 1 p pop_pending_ok by blast
    then show ?thesis using 1 p Some push_wait_ok by (subst pending_to_wait.simps) simp
  qed
qed

lemma clear_pending_ok: "dispr_ok H P D s \<Longrightarrow> dispr_ok H P D (clear_pending_msg s)"
  using pending_to_wait_ok [of H P D "clear_d_flag DISPR_CLR_PEND_MSG s"]
  by (simp add: clear_pending_msg_def dispr_ok_def)

lemma cancel_msg_ok:
  "dispr_ok H P D s \<Longrightarrow> i \<notin> set (queue (msg_idle_q s)) \<Longrightarrow> dispr_ok H P D (cancel_msg i s)"
  unfolding cancel_msg_def by (rule upd_ex_ok) (simp_all add: phl_defs)

subsection \<open>Sending\<close>

text \<open>While a message is filled, what it owes is not yet recorded as accepted.\<close>

definition sending :: "nat \<Rightarrow> nat list \<Rightarrow> nat list \<Rightarrow> msg_completion_routine multiset \<Rightarrow> cmd_dispatcher \<Rightarrow> bool" where
  "sending i H P D s \<longleftrightarrow> dispr_ok (i # H) P (D + owes (get_ex s i)) s"

lemma get_ex_upd: "i < length (msg_ex_pool s) \<Longrightarrow> get_ex (upd_ex i f s) i = f (get_ex s i)"
  by (simp add: upd_ex_def)

lemma sending_upd:
  assumes "sending i H P D s" "\<And>ex. ex_idx (f ex) = ex_idx ex"
  shows "sending i H P D (upd_ex i f s)"
proof -
  have ok: "dispr_ok (i # H) P (D + owes (get_ex s i)) s" using assms(1) by (simp add: sending_def)
  note i = pool_bound [OF ok]
  have "msgs_ok (i # H) (upd_ex i f s)"
    using ok not_idle [OF ok] assms(2) by (intro msgs_ok_upd) (simp_all add: dispr_ok_def)
  moreover have "acct (D + owes (f (get_ex s i))) (upd_ex i f s)"
    using ok i by (intro acct_upd [where D = "D + owes (get_ex s i)"]) (simp_all add: dispr_ok_def)
  ultimately show ?thesis using ok i by (simp add: sending_def dispr_ok_def get_ex_upd)
qed

lemma sending_fault [simp]: "sending i H P D (set_fault b s) = sending i H P D s"
  by (simp add: sending_def dispr_ok_def) (simp add: set_fault_def)

lemma sending_flag [simp]: "sending i H P D (set_d_flag b s) = sending i H P D s"
  by (simp add: sending_def dispr_ok_def) (simp add: set_d_flag_def)

lemma sending_attr: "sending i H P D s \<Longrightarrow> sending i H P D (send_attr i m attr s)"
  by (auto simp: send_attr_def set_msg_custom_bitmap_def Let_def intro!: sending_upd split: option.splits)

lemma sending_owner: "sending i H P D s \<Longrightarrow> sending i H P D (send_owner i m cur st s)"
  by (auto simp: send_owner_def Let_def intro!: sending_upd split: option.splits prod.splits)

text \<open>What a message owes when it is queued is what its sender asked for.\<close>

lemma owes_upd:
  "(\<And>ex. owes (f ex) = owes ex) \<Longrightarrow> owes (get_ex (upd_ex i f s) i) = owes (get_ex s i)"
  by (cases "i < length (msg_ex_pool s)") (simp_all add: upd_ex_def list_update_beyond)

lemma get_ex_flags [simp]:
  "get_ex (set_fault b s) i = get_ex s i" "get_ex (set_d_flag f s) i = get_ex s i"
  by (simp_all add: prim_defs)

lemma owes_owner: "owes (get_ex (send_owner i m cur st s) i) = owes (get_ex s i)"
  by (simp add: send_owner_def Let_def owes_upd phl_defs split: option.splits prod.splits)

lemma owes_attr:
  assumes "owes (get_ex s i) = {#}" "i < length (msg_ex_pool s)"
  shows "owes (get_ex (send_attr i m attr s) i) =
    (if c_fun (sent_completion attr) \<noteq> None then {#sent_completion attr#} else {#})"
proof -
  have "owes (get_ex (upd_ex i (\<lambda>ex. set_ex_flag MSG_STATUS_NOTIFY_COMPLETE (ex\<lparr>ex_completion := c\<rparr>)) t) i) = {#c#}"
    if "c_fun c \<noteq> None" "i < length (msg_ex_pool t)" for c t
    using that by (simp add: get_ex_upd) (auto simp: owes_def set_ex_flag_def phl_defs)
  moreover have "i < length (msg_ex_pool (set_msg_custom_bitmap i o1 ids m s))" for o1 ids
    using assms(2) by (simp add: set_msg_custom_bitmap_def Let_def upd_ex_def)
  moreover have "owes (get_ex (set_msg_custom_bitmap i o1 ids m s) i) = {#}" for o1 ids
    using assms(1) by (simp add: set_msg_custom_bitmap_def Let_def owes_upd)
  ultimately show ?thesis
    using assms(1)
    by (simp add: send_attr_def sent_completion_def no_completion_def Let_def owes_upd phl_defs split: option.splits)
qed

lemma send_last_ok:
  assumes "sending i H P D s"
    "owes (get_ex s i) = (if c_fun (sent_completion attr) \<noteq> None then {#sent_completion attr#} else {#})"
  shows "dispr_ok H P D (snd (snd (send_last i m st attr s)))"
proof -
  let ?f = "clear_ex_flag MSG_STATUS_NOTIFY_COMPLETE \<circ> set_indc MSG_INDC_FAIL"
  have "sending i H P D (upd_ex i ?f s)" using assms(1) by (rule sending_upd) simp
  moreover have "owes (get_ex (upd_ex i ?f s) i) = {#}"
    using pool_bound assms by (simp add: sending_def get_ex_upd owes_def clear_ex_flag_def phl_defs)
  ultimately have refuse: "dispr_ok H P D (idle_msg_reset i (upd_ex i ?f s))"
    using idle_reset_ok by (simp add: sending_def)
  have push: "dispr_ok H P D
      (if IS_DISPR_CTRL m then insert_msg_by_priority i t else push_back_wait_msg i t)"
    if "sending i H P D t'" "owes (get_ex t' i) = owes (get_ex s i)" "t = emit (Ev_Sent i (sent_completion attr)) t'" for t t'
  proof -
    have "dispr_ok (i # H) P D t"
      using that assms(2) acct_sent [of D "sent_completion attr" t' i] by (simp add: sending_def dispr_ok_def)
    then show ?thesis using push_wait_ok by simp
  qed
  let ?s2 = "\<lambda>b. upd_ex i (set_ex_flag MSG_STATUS_PRE_PHASE) (if b
      then set_d_flag DISPR_WAIT_ABORT_MSG_DONE (upd_ex i (set_ex_flag MSG_STATUS_FOR_ABORT) s) else s)"
  have s2: "sending i H P D (?s2 b)" "owes (get_ex (?s2 b) i) = owes (get_ex s i)" for b
    using assms(1) by (auto intro!: sending_upd simp: owes_upd phl_defs)
  show ?thesis
    using refuse push [OF s2 refl] unfolding send_last_def Let_def by simp
qed

lemma send_msg_ok: "dispr_ok H P D s \<Longrightarrow> dispr_ok H P D (snd (snd (dispr_send_msg msg attr s)))"
proof -
  assume ok: "dispr_ok H P D s"
  let ?m = "MSG_MDL_ID_FIELD (msg_id msg)"
  let ?fill = "\<lambda>i s1. set_msg_bitmap i ?m (upd_ex i (\<lambda>ex. ex\<lparr>ex_msg := msg\<rparr>) s1)"
  have "dispr_ok H P D (snd (snd (send_last i ?m st attr (send_owner i ?m cur st (send_attr i ?m attr (?fill i s1))))))"
    if "pop_front_idle_msg s = (Some i, s1)" for i s1 cur st
  proof -
    note p = pop_idle_msg_ok [OF ok that]
    have "sending i H P D (?fill i s1)"
      using p by (auto simp: set_msg_bitmap_def Let_def sending_def [of _ _ _ _ s1] intro!: sending_upd)
    moreover have "owes (get_ex (?fill i s1) i) = {#}"
      using p(3) by (simp add: set_msg_bitmap_def Let_def owes_upd)
    moreover have "i < length (msg_ex_pool (?fill i s1))"
      using pool_bound [OF p(1)] by (simp add: set_msg_bitmap_def Let_def upd_ex_def)
    ultimately show ?thesis
      by (intro send_last_ok sending_owner sending_attr) (simp_all add: owes_owner owes_attr)
  qed
  then show ?thesis
    using ok
    by (auto simp: dispr_send_msg_def Let_def dest!: pop_None_ok(1) split: prod.splits option.splits)
qed

subsection \<open>Moving requests\<close>

abbreviation cur_list :: "cmd_dispatcher \<Rightarrow> nat list" where
  "cur_list s \<equiv> (case cur_cmd_req s of None \<Rightarrow> [] | Some r \<Rightarrow> [r])"

lemma reqs_okD:
  assumes "reqs_ok P s"
  shows "distinct (queue (token_req_idle_q s) @ queue (token_req_wait_q s) @ cur_list s @ P)"
    and "set (queue (token_req_idle_q s)) \<union> set (queue (token_req_wait_q s)) \<union> set (cur_list s) \<union> set P =
      {0..<MAX_CMD_REQ_NUM}"
    and "length (token_req_ex_pool s) = MAX_CMD_REQ_NUM"
proof -
  let ?l = "queue (token_req_idle_q s) @ queue (token_req_wait_q s) @ cur_list s @ P"
  have m: "mset ?l = mset [0..<MAX_CMD_REQ_NUM]"
    using assms by (simp add: reqs_ok_def add.assoc)
  show "distinct ?l" by (rule iffD2 [OF mset_eq_imp_distinct_iff [OF m]]) simp
  show "set (queue (token_req_idle_q s)) \<union> set (queue (token_req_wait_q s)) \<union> set (cur_list s) \<union> set P =
      {0..<MAX_CMD_REQ_NUM}"
    using mset_eq_setD [OF m] by auto
  show "length (token_req_ex_pool s) = MAX_CMD_REQ_NUM" using assms by (simp add: reqs_ok_def)
qed

lemma get_req_upd:
  "r < length (token_req_ex_pool s) \<Longrightarrow> get_req (upd_req r f s) k = (if k = r then f (get_req s r) else get_req s k)"
  by (simp add: upd_req_def)

text \<open>Writes that keep what the invariant says of a request.\<close>

definition req_like :: "phl_cmd_token_req_ex \<Rightarrow> phl_cmd_token_req_ex \<Rightarrow> bool" where
  "req_like x y \<longleftrightarrow> req_idx x = req_idx y \<and> req x = req y \<and>
     TEST_STATUS_FLAG (req_status x) REQ_STATUS_ENQ = TEST_STATUS_FLAG (req_status y) REQ_STATUS_ENQ \<and>
     TEST_STATUS_FLAG (req_status x) REQ_STATUS_RUN = TEST_STATUS_FLAG (req_status y) REQ_STATUS_RUN"

lemma reqs_ok_like:
  assumes "\<And>x. req_like (f x) x"
  shows "reqs_ok P (upd_req r f s) = reqs_ok P s"
proof (cases "r < length (token_req_ex_pool s)")
  case True
  have "req_like (get_req (upd_req r f s) k) (get_req s k)" for k
    using assms True by (simp add: get_req_upd) (simp add: req_like_def)
  moreover have "length (token_req_ex_pool (upd_req r f s)) = length (token_req_ex_pool s)"
    "queue (token_req_idle_q (upd_req r f s)) = queue (token_req_idle_q s)"
    "queue (token_req_wait_q (upd_req r f s)) = queue (token_req_wait_q s)"
    "cnt (token_req_idle_q (upd_req r f s)) = cnt (token_req_idle_q s)"
    "cnt (token_req_wait_q (upd_req r f s)) = cnt (token_req_wait_q s)"
    "token_cnt (upd_req r f s) = token_cnt s" "cur_cmd_req (upd_req r f s) = cur_cmd_req s"
    by (simp_all add: upd_req_def)
  ultimately show ?thesis unfolding reqs_ok_def req_like_def by simp
next
  case False
  then have "upd_req r f s = s" by (simp add: upd_req_def list_update_beyond)
  then show ?thesis by simp
qed

lemma req_like_simps [simp]:
  "req_like (x\<lparr>add_req_info := a\<rparr>) x" "req_like (x\<lparr>free_req_info := a\<rparr>) x"
  "f AND REQ_STATUS_ENQ = 0 \<Longrightarrow> f AND REQ_STATUS_RUN = 0 \<Longrightarrow> req_like (set_req_flag f x) x"
  "f AND REQ_STATUS_ENQ = 0 \<Longrightarrow> f AND REQ_STATUS_RUN = 0 \<Longrightarrow> req_like (clear_req_flag f x) x"
  by (simp_all add: req_like_def set_req_flag_def clear_req_flag_def)

lemma info_frame [simp]:
  "msgs_ok H (upd_info n f s) = msgs_ok H s" "acct D (upd_info n f s) = acct D s"
  "reqs_ok P (upd_info n f s) = reqs_ok P s"
  by (cases n; simp add: reqs_ok_like)+

lemma push_op_ok [simp]:
  "dispr_ok H P D (snd (push_back_token_op_info n ty dat s)) = dispr_ok H P D s"
  by (simp add: push_back_token_op_info_def dispr_ok_def Let_def)

lemma reqs_ok_add:
  assumes "reqs_ok P s" "pq_pop (token_req_idle_q s) First = (Some r, q)"
    and x: "req_idx x = r" "TEST_STATUS_FLAG (req_status x) REQ_STATUS_ENQ"
      "\<not> TEST_STATUS_FLAG (req_status x) REQ_STATUS_RUN" "PHL_FG_MDL_START \<le> req_module_id (req x)"
    and t: "token_req_idle_q t = q" "token_req_ex_pool t = (token_req_ex_pool s)[r := x]"
      "token_req_wait_q t = pq_push (token_req_wait_q s) r Tail" "token_cnt t = token_cnt s"
      "cur_cmd_req t = cur_cmd_req s"
  shows "reqs_ok P t"
proof -
  have q: "queue (token_req_idle_q s) = r # queue q" "cnt (token_req_idle_q s) = cnt q + 1"
    using pq_pop_SomeD [OF assms(2)] by auto
  have r: "r < MAX_CMD_REQ_NUM" "r \<notin> set (queue q)" "length (token_req_ex_pool s) = MAX_CMD_REQ_NUM"
    using reqs_okD [OF assms(1)] q by auto
  show ?thesis
    using assms(1) x q r by (auto simp: reqs_ok_def pq_push_def nth_list_update t)
qed

lemma pop_wait_req_ok:
  assumes "dispr_ok H P D s" "pop_front_wait_req s = (Some r, s1)"
  shows "dispr_ok H (r # P) D s1" "r < MAX_CMD_REQ_NUM"
    "\<not> TEST_STATUS_FLAG (req_status (get_req s1 r)) REQ_STATUS_ENQ"
    "cur_cmd_req s1 = cur_cmd_req s" "token_cnt s1 = token_cnt s"
proof -
  obtain q where pq: "pq_pop (token_req_wait_q s) First = (Some r, q)"
    and s1: "s1 = upd_req r (clear_req_flag REQ_STATUS_ENQ \<circ> set_req_flag REQ_STATUS_PREPARE)
                     (s\<lparr>token_req_wait_q := q\<rparr>)"
    using assms(2) by (auto simp: pop_front_wait_req_def split: prod.splits option.splits)
  have q: "queue (token_req_wait_q s) = r # queue q" "cnt (token_req_wait_q s) = cnt q + 1"
    using pq_pop_SomeD [OF pq] by auto
  have ok: "reqs_ok P s" using assms(1) by (simp add: dispr_ok_def)
  have r: "r < MAX_CMD_REQ_NUM" "r \<notin> set (queue q)" "length (token_req_ex_pool s) = MAX_CMD_REQ_NUM"
    "r \<notin> set (queue (token_req_idle_q s))"
    using reqs_okD [OF ok] q by auto
  show "\<not> TEST_STATUS_FLAG (req_status (get_req s1 r)) REQ_STATUS_ENQ"
    using r by (simp add: s1 upd_req_def clear_req_flag_def phl_defs)
  have "reqs_ok (r # P) s1"
    using ok q r unfolding s1
    by (auto simp: reqs_ok_def upd_req_def nth_list_update clear_req_flag_def set_req_flag_def phl_defs)
  then show "dispr_ok H (r # P) D s1" using assms(1) by (simp add: dispr_ok_def s1)
  show "r < MAX_CMD_REQ_NUM" by (rule r)
  show "cur_cmd_req s1 = cur_cmd_req s" "token_cnt s1 = token_cnt s" by (simp_all add: s1 upd_req_def)
qed

lemma push_idle_req_ok:
  assumes "dispr_ok H (r # P) D s"
  shows "dispr_ok H P D (push_back_idle_req r s)"
proof -
  have ok: "reqs_ok (r # P) s" using assms by (simp add: dispr_ok_def)
  have r: "r < MAX_CMD_REQ_NUM" "length (token_req_ex_pool s) = MAX_CMD_REQ_NUM"
    "r \<notin> set (queue (token_req_wait_q s))" "cur_cmd_req s \<noteq> Some r" "r \<notin> set P"
    using reqs_okD [OF ok] by auto
  have "reqs_ok P (push_back_idle_req r s)"
    using ok r
    by (auto simp: reqs_ok_def push_back_idle_req_def pq_push_def upd_req_def nth_list_update Let_def phl_defs)
  then show ?thesis
    using assms by (simp add: dispr_ok_def) (simp add: push_back_idle_req_def Let_def)
qed

lemma release_req_ok:
  assumes "dispr_ok H P D s" "cur_cmd_req s = Some r"
  shows "dispr_ok H P D ((push_back_idle_req r s)\<lparr>token_cnt := token_cnt s - 1, cur_cmd_req := None\<rparr>)"
proof -
  have ok: "reqs_ok P s" using assms(1) by (simp add: dispr_ok_def)
  have r: "r < MAX_CMD_REQ_NUM" "length (token_req_ex_pool s) = MAX_CMD_REQ_NUM"
    "r \<notin> set (queue (token_req_wait_q s))" "r \<notin> set P" "r \<notin> set (queue (token_req_idle_q s))"
    using reqs_okD [OF ok] assms(2) by auto
  have "reqs_ok P ((push_back_idle_req r s)\<lparr>token_cnt := token_cnt s - 1, cur_cmd_req := None\<rparr>)"
    using ok r assms(2)
    by (auto simp: reqs_ok_def push_back_idle_req_def pq_push_def upd_req_def nth_list_update Let_def phl_defs)
  then show ?thesis
    using assms(1) by (simp add: dispr_ok_def) (simp add: push_back_idle_req_def Let_def)
qed

lemma make_cur_ok:
  assumes "dispr_ok H (r # P) D s" "cur_cmd_req s = None"
    "\<not> TEST_STATUS_FLAG (req_status (get_req s r)) REQ_STATUS_ENQ"
  shows "dispr_ok H P D ((upd_req r (clear_req_flag REQ_STATUS_PREPARE \<circ> set_req_flag REQ_STATUS_RUN) s)
     \<lparr>cur_cmd_req := Some r, token_cnt := token_cnt s + 1\<rparr>)" (is "dispr_ok H P D ?t")
proof -
  have ok: "reqs_ok (r # P) s" using assms(1) by (simp add: dispr_ok_def)
  have r: "r < MAX_CMD_REQ_NUM" "length (token_req_ex_pool s) = MAX_CMD_REQ_NUM"
    "r \<notin> set (queue (token_req_wait_q s))" "r \<notin> set P" "r \<notin> set (queue (token_req_idle_q s))"
    using reqs_okD [OF ok] by auto
  have "reqs_ok P ?t"
    using ok r assms(2,3)
    by (auto simp: reqs_ok_def upd_req_def nth_list_update clear_req_flag_def set_req_flag_def phl_defs)
  then show ?thesis using assms(1) by (simp add: dispr_ok_def)
qed

lemma unlink_req_ok:
  assumes "dispr_ok H P D s" "r < MAX_CMD_REQ_NUM"
    "r \<in> set (queue (token_req_wait_q s))"
  shows "dispr_ok H (r # P) D (s\<lparr>token_req_wait_q := pq_del_node (token_req_wait_q s) (Some r)\<rparr>)"
proof -
  have ok: "reqs_ok P s" using assms(1) by (simp add: dispr_ok_def)
  have r: "r \<notin> set (queue (token_req_idle_q s))" "distinct (queue (token_req_wait_q s))"
    using reqs_okD [OF ok] assms(3) by auto
  obtain l1 l2 where l: "queue (token_req_wait_q s) = l1 @ r # l2" "r \<notin> set l1"
    using assms(3) by (metis split_list_first)
  then have rm: "remove1 r (queue (token_req_wait_q s)) = l1 @ l2"
    by (simp add: remove1_append)
  have "reqs_ok (r # P) (s\<lparr>token_req_wait_q := pq_del_node (token_req_wait_q s) (Some r)\<rparr>)"
    using ok r unfolding reqs_ok_def pq_del_node_def rm [simplified l(1)] option.case
    by (auto simp: l(1) rm [simplified l(1)])
  then show ?thesis using assms(1) by (simp add: dispr_ok_def)
qed

subsection \<open>The functions callbacks may call\<close>

lemma add_req_ok:
  assumes "dispr_ok H P D s"
  shows "dispr_ok H P D (snd (snd (dispr_add_token_req ro s)))"
proof -
  have "dispr_ok H P D (push_back_wait_req r (upd_req r (\<lambda>x. x\<lparr>req := the ro\<rparr>) s1))"
    if p: "pop_front_idle_req s = (Some r, s1)" and c: "chk_cmd_req_ops ro" for r s1
  proof -
    obtain q b where q: "pq_pop (token_req_idle_q s) First = (Some r, q)"
      and s1: "s1 = set_fault b (upd_req r (\<lambda>x. x\<lparr>req_status := 0, req := req0, add_req_info := op_info0,
                      free_req_info := op_info0\<rparr>) (s\<lparr>token_req_idle_q := q\<rparr>))"
      using p by (auto simp: pop_front_idle_req_def split: prod.splits option.splits)
    have ok: "reqs_ok P s" using assms by (simp add: dispr_ok_def)
    have r: "r < MAX_CMD_REQ_NUM" "length (token_req_ex_pool s) = MAX_CMD_REQ_NUM"
      using reqs_okD [OF ok] pq_pop_SomeD [OF q] by auto
    let ?t = "push_back_wait_req r (upd_req r (\<lambda>x. x\<lparr>req := the ro\<rparr>) s1)"
    have "req_idx (get_req s r) = r" using ok r by (simp add: reqs_ok_def)
    then have "reqs_ok P ?t"
      using c r by (intro reqs_ok_add [OF ok q, where x = "get_req ?t r"])
        (auto simp: s1 push_back_wait_req_def prim_defs set_req_flag_def chk_cmd_req_ops_def phl_defs
          split: option.splits)
    then show ?thesis
      using assms by (simp add: dispr_ok_def) (simp add: push_back_wait_req_def s1)
  qed
  moreover have "pop_front_idle_req s = (None, s1) \<Longrightarrow> s1 = s" for s1
    by (auto simp: pop_front_idle_req_def split: prod.splits option.splits)
  ultimately show ?thesis
    using assms
    by (auto simp: dispr_add_token_req_def dispr_enqueue_token_op_info_def Let_def split: prod.splits option.splits)
qed

lemma push_op_okD: "push_back_token_op_info n ty dat s = (b, s') \<Longrightarrow> dispr_ok H P D s \<Longrightarrow> dispr_ok H P D s'"
  using push_op_ok [of H P D n ty dat s] by simp

lemma token_req_ok:
  assumes "dispr_ok H P D s"
  shows "dispr_ok H P D (snd (dispr_cancel_token_req h s))" "dispr_ok H P D (snd (dispr_free_token h s))"
proof -
  show "dispr_ok H P D (snd (dispr_cancel_token_req h s))"
    using assms
    by (auto simp: dispr_cancel_token_req_def dispr_enqueue_token_op_info_def Let_def
        dest!: push_op_okD split: prod.splits)
  have "dispr_ok H P D (upd_req r (set_req_flag REQ_STATUS_CANCEL) s)" for r
    using assms by (simp add: dispr_ok_def reqs_ok_like phl_defs)
  then show "dispr_ok H P D (snd (dispr_free_token h s))"
    using assms
    by (auto simp: dispr_free_token_def dispr_enqueue_token_op_info_def Let_def
        dest!: push_op_okD split: prod.splits)
qed

lemma flagged_not_idle:
  "dispr_ok H P D s \<Longrightarrow> TEST_STATUS_FLAG (ex_status (get_ex s i)) f \<Longrightarrow> f \<noteq> 0 \<Longrightarrow>
     i \<notin> set (queue (msg_idle_q s))"
  using test_nonzero by (auto simp: dispr_ok_def msgs_ok_def)

lemma cancel_api_ok: "dispr_ok H P D s \<Longrightarrow> dispr_ok H P D (snd (dispr_cancel_msg h s))"
  using flagged_not_idle [of H P D s _ MSG_STATUS_ENQ] flagged_not_idle [of H P D s _ MSG_STATUS_RUN]
  by (simp add: dispr_cancel_msg_def Let_def) (auto intro!: cancel_msg_ok simp: phl_defs)

lemma flag_ok [simp]:
  "dispr_ok H P D (set_d_flag f s) = dispr_ok H P D s" "dispr_ok H P D (clear_d_flag f s) = dispr_ok H P D s"
  "dispr_ok H P D (dispr_clr_pending_msg s) = dispr_ok H P D s"
  "dispr_ok H P D (s\<lparr>exclusive_mdl := em\<rparr>) = dispr_ok H P D s"
  "dispr_ok H P D (tell_other x s) = dispr_ok H P D s" "dispr_ok H P D (set_fault b s) = dispr_ok H P D s"
  "dispr_ok H P D (s\<lparr>cbs := cs\<rparr>) = dispr_ok H P D s" "dispr_ok H P D (s\<lparr>token_op_q := oq\<rparr>) = dispr_ok H P D s"
  "dispr_ok H P D (upd_info n g s) = dispr_ok H P D s"
  "dispr_ok H P D (cmd_token_complete s) = dispr_ok H P D s"
  by (simp_all add: dispr_ok_def dispr_clr_pending_msg_def cmd_token_complete_def Let_def)

lemma io_status_ok: "dispr_ok H P D s \<Longrightarrow> dispr_ok H P D (snd (dispr_notify_dev_io_status m b s))"
proof -
  assume ok: "dispr_ok H P D s"
  have "dispr_ok H P D (snd (send_dev_io_status_change b t))" if "dispr_ok H P D t" for t
    using send_msg_ok [OF that]
    by (auto simp: send_dev_io_status_change_def split: prod.splits) (metis snd_conv)+
  then show ?thesis
    using ok by (auto simp: dispr_notify_dev_io_status_def split: prod.splits) (metis flag_ok(1,2,4) snd_conv)+
qed

lemma api_ok: "dispr_ok H P D s \<Longrightarrow> dispr_ok H P D (api_step a s)"
  by (cases a)
    (simp_all add: send_msg_ok cancel_api_ok add_req_ok token_req_ok io_status_ok dispr_notify_shall_stop_def)

lemma fold_api_ok: "dispr_ok H P D s \<Longrightarrow> dispr_ok H P D (fold api_step as s)"
  by (induction as arbitrary: s) (simp_all add: api_ok)

lemma run_cb_ok:
  assumes "run_cb ev s = (r, s1)" "\<And>x s. dispr_ok H P D (emit (ev x) s) \<longleftrightarrow> dispr_ok H P D s"
    "dispr_ok H P D s"
  shows "dispr_ok H P D s1"
  using assms fold_api_ok by (auto simp: run_cb_def split: list.splits)

subsection \<open>What callbacks cannot change\<close>

text \<open>
  A part \<open>p\<close> of the state that the elementary writes to messages, requests, their queues and the
  working flags leave alone is left alone by every function a callback may call. The locales say how much
  of it is known: that the pending queue is no part of it, that the announcement of a stop is not, and that
  the record of events and callbacks is not either.
\<close>

locale untouched =
  fixes p :: "cmd_dispatcher \<Rightarrow> 'a"
  assumes prims [simp]: "p (upd_ex i f s) = p s" "p (upd_req r g s) = p s" "p (set_fault b s) = p s"
      "p (notify_dispr_thread s) = p s" "p (tell_other x s) = p s" "p (emit (Ev_Sent i c) s) = p s"
    and flags: "k AND 0x3F = 0 \<Longrightarrow> p (set_d_flag k s) = p s" "k AND 0x3F = 0 \<Longrightarrow> p (clear_d_flag k s) = p s"
    and fields [simp]: "p (s\<lparr>token_op_q := oq\<rparr>) = p s" "p (s\<lparr>mdl_info := mi\<rparr>) = p s"
      "p (s\<lparr>renew_req_info := ri\<rparr>) = p s" "p (s\<lparr>msg_idle_q := q\<rparr>) = p s" "p (s\<lparr>msg_wait_q := q\<rparr>) = p s"
      "p (s\<lparr>token_req_wait_q := q\<rparr>) = p s" "p (s\<lparr>token_req_idle_q := q\<rparr>) = p s" "p (s\<lparr>exclusive_mdl := em\<rparr>) = p s"
begin

lemma work_flags [simp]:
  "p (set_d_flag DISPR_CLR_PEND_MSG s) = p s" "p (clear_d_flag DISPR_CLR_PEND_MSG s) = p s"
  "p (set_d_flag DISPR_CANNOT_IO s) = p s" "p (clear_d_flag DISPR_CANNOT_IO s) = p s"
  "p (set_d_flag DISPR_WAIT_ABORT_MSG_DONE s) = p s" "p (clear_d_flag DISPR_WAIT_ABORT_MSG_DONE s) = p s"
  "p (clear_d_flag DISPR_EXCLUSIVE_USE s) = p s" "p (set_d_flag DISPR_NOTIFY_IDLE s) = p s"
  "p (clear_d_flag DISPR_NOTIFY_IDLE s) = p s"
  by (rule flags, simp add: phl_defs)+

lemma info [simp]: "p (upd_info n f s) = p s"
  by (cases n) simp_all

lemma ops [simp]:
  "p (snd (push_back_token_op_info n ty dat s)) = p s" "p (push_back_wait_msg i s) = p s"
  "p (insert_msg_by_priority i s) = p s" "p (idle_msg_reset i s) = p s" "p (set_msg_bitmap i m s) = p s"
  "p (cancel_msg i s) = p s" "p (send_attr i m attr s) = p s" "p (send_owner i m cur st s) = p s"
  "p (dispr_clr_pending_msg s) = p s" "p (push_back_idle_req r s) = p s" "p (push_back_wait_req r s) = p s"
  "p (cmd_token_complete s) = p s"
  by (simp_all add: push_back_token_op_info_def push_back_wait_msg_def insert_msg_by_priority_def
      idle_msg_reset_def set_msg_bitmap_def send_attr_def set_msg_custom_bitmap_def
      send_owner_def cancel_msg_def dispr_clr_pending_msg_def push_back_idle_req_def push_back_wait_req_def
      cmd_token_complete_def Let_def split: option.splits prod.splits)

lemma on_abort [simp]: "p (on_abort_msg_complete s) = p s"
  by (simp add: on_abort_msg_complete_def dispr_enqueue_token_op_info_def)

lemma pops:
  "pop_front_idle_msg s = (io, s1) \<Longrightarrow> p s1 = p s" "pop_front_wait_msg s = (io, s1) \<Longrightarrow> p s1 = p s"
  "pop_front_idle_req s = (io, s1) \<Longrightarrow> p s1 = p s" "pop_front_wait_req s = (io, s1) \<Longrightarrow> p s1 = p s"
  by (auto simp: pop_front_idle_msg_def pop_front_wait_msg_def pop_front_idle_req_def pop_front_wait_req_def
      split: prod.splits option.splits)

lemma send [simp]: "p (snd (snd (dispr_send_msg msg attr s))) = p s"
proof -
  have "p (snd (snd (send_last i m st attr s))) = p s" for i m st attr s by (simp add: send_last_def Let_def)
  then show ?thesis
    by (auto simp: dispr_send_msg_def Let_def dest!: pops(1) split: prod.splits option.splits)
qed

lemma sendD: "dispr_send_msg msg attr s = (st, h, s') \<Longrightarrow> p s' = p s"
  using send [of msg attr s] by simp

lemma opD: "push_back_token_op_info n ty dat s = (b, s') \<Longrightarrow> p s' = p s"
  using ops(1) [of n ty dat s] by simp

lemma api_but_stop: "a \<noteq> Shall_stop \<Longrightarrow> p (api_step a s) = p s"
  by (cases a)
    (auto simp: dispr_cancel_msg_def dispr_add_token_req_def dispr_cancel_token_req_def dispr_free_token_def
      dispr_notify_dev_io_status_def send_dev_io_status_change_def dispr_enqueue_token_op_info_def Let_def
      dest!: pops(3) sendD opD split: prod.splits option.splits)

end

locale untouched_pend = untouched +
  assumes pend_field [simp]: "p (s\<lparr>msg_pend_q := q\<rparr>) = p s"
begin

lemma push_pending [simp]: "p (push_back_pending_msg i s) = p s"
  by (simp add: push_back_pending_msg_def Let_def)

lemma pop_pending: "pop_front_pending_msg s = (io, s1) \<Longrightarrow> p s1 = p s"
  by (auto simp: pop_front_pending_msg_def split: prod.splits)

lemma clear_pending [simp]: "p (clear_pending_msg s) = p s"
proof -
  have "p (pending_to_wait s) = p s" for s
  proof (induction s rule: pending_to_wait.induct)
    case (1 s)
    obtain io s1 where q: "pop_front_pending_msg s = (io, s1)" by fastforce
    then have "p s1 = p s" by (rule pop_pending)
    then show ?case using 1 q by (subst pending_to_wait.simps) (cases io, simp_all)
  qed
  then show ?thesis by (simp add: clear_pending_msg_def)
qed

lemma dereg_msgs [simp]: "p (fold (dereg_msg m) is s) = p s"
proof -
  have "p (dereg_msg m i s) = p s" for i s by (simp add: dereg_msg_def Let_def)
  then show ?thesis by (induction "is" arbitrary: s) simp_all
qed

end

locale untouched_api = untouched +
  assumes stop_flag [simp]: "p (set_d_flag DISPR_SHALL_STOP s) = p s"
begin

lemma api [simp]: "p (api_step a s) = p s"
  using api_but_stop [of a s] by (cases "a = Shall_stop") (auto simp: dispr_notify_shall_stop_def)

lemma fold_api [simp]: "p (fold api_step as s) = p s"
  by (induction as arbitrary: s) (simp_all del: api_step.simps)

end

locale untouched_cb = untouched_api +
  assumes events [simp]: "p (emit e s) = p s" "p (s\<lparr>cbs := cs\<rparr>) = p s"
begin

lemma run [simp]: "p (snd (run_cb ev s)) = p s"
  by (auto simp: run_cb_def split: list.splits)

lemma runD: "run_cb ev s = (r, s1) \<Longrightarrow> p s1 = p s"
  using run [of ev s] by simp

lemma push_idle [simp]: "p (push_back_idle_msg i s) = p s"
  by (simp add: push_back_idle_msg_def run_completion_def Let_def)

end

locale untouched_msgs = untouched_cb p + untouched_pend p for p :: "cmd_dispatcher \<Rightarrow> 'a"

text \<open>The current command, the token, and the modules.\<close>

definition fixed :: "cmd_dispatcher \<Rightarrow> nat option \<times> int \<times> (nat \<Rightarrow> nat phl_queue) \<times>
    (nat \<Rightarrow> phl_bk_module option) \<times> phl_bk_module \<times> u8 list \<times> u8 list \<times> u8" where
  "fixed s = (cur_cmd_req s, token_cnt s, module_q s, mdls s, controller s, d_bitmap s, d_basemap s, phy_num s)"

interpretation fx: untouched_msgs fixed
  by unfold_locales (simp_all add: fixed_def prim_defs)

lemma fixedD:
  "fixed s' = fixed s \<Longrightarrow> cur_cmd_req s' = cur_cmd_req s \<and> token_cnt s' = token_cnt s \<and> module_q s' = module_q s \<and>
     mdls s' = mdls s \<and> controller s' = controller s \<and> d_bitmap s' = d_bitmap s \<and> d_basemap s' = d_basemap s"
  by (simp add: fixed_def)

subsection \<open>A message in the hands of the thread\<close>

text \<open>Callbacks do not change what it owes.\<close>

lemma get_ex_other [simp]: "i \<noteq> j \<Longrightarrow> get_ex (upd_ex j f s) i = get_ex s i"
  by (simp add: upd_ex_def)

lemma get_ex_frame [simp]:
  "msg_ex_pool (upd_req r g s) = msg_ex_pool s" "msg_ex_pool (set_d_flag k s) = msg_ex_pool s"
  "msg_ex_pool (clear_d_flag k s) = msg_ex_pool s" "msg_ex_pool (emit e s) = msg_ex_pool s"
  "msg_ex_pool (set_fault b s) = msg_ex_pool s" "msg_ex_pool (notify_dispr_thread s) = msg_ex_pool s"
  "msg_ex_pool (tell_other x s) = msg_ex_pool s"
  by (simp_all add: prim_defs)

lemma get_ex_info [simp]: "msg_ex_pool (upd_info n f s) = msg_ex_pool s"
  by (cases n) simp_all

lemma get_ex_ops [simp]:
  "msg_ex_pool (snd (push_back_token_op_info n ty dat s)) = msg_ex_pool s"
  "i \<noteq> j \<Longrightarrow> get_ex (push_back_wait_msg j s) i = get_ex s i"
  "i \<noteq> j \<Longrightarrow> get_ex (insert_msg_by_priority j s) i = get_ex s i"
  "i \<noteq> j \<Longrightarrow> get_ex (idle_msg_reset j s) i = get_ex s i"
  "i \<noteq> j \<Longrightarrow> get_ex (set_msg_bitmap j m s) i = get_ex s i"
  "i \<noteq> j \<Longrightarrow> get_ex (send_attr j m attr s) i = get_ex s i"
  "i \<noteq> j \<Longrightarrow> get_ex (send_owner j m cur st s) i = get_ex s i"
  by (simp_all add: push_back_token_op_info_def push_back_wait_msg_def insert_msg_by_priority_def
      idle_msg_reset_def set_msg_bitmap_def send_attr_def set_msg_custom_bitmap_def
      send_owner_def Let_def split: option.splits prod.splits)

lemma get_ex_send_last: "i \<noteq> j \<Longrightarrow> get_ex (snd (snd (send_last j m st attr s))) i = get_ex s i"
  by (simp add: send_last_def Let_def)

lemma get_ex_send:
  assumes "dispr_ok H P D s" "i \<in> set H"
  shows "get_ex (snd (snd (dispr_send_msg msg attr s))) i = get_ex s i"
proof -
  have i: "i \<notin> set (queue (msg_idle_q s))"
    using msgs_okD(1) [of H s i] assms by (simp add: dispr_ok_def)
  have "j \<noteq> i \<and> get_ex s1 i = get_ex s i" if "pop_front_idle_msg s = (Some j, s1)" for j s1
    using that i by (auto simp: pop_front_idle_msg_def dest!: pq_pop_SomeD split: prod.splits option.splits)
  then show ?thesis
    by (auto simp: dispr_send_msg_def Let_def get_ex_send_last dest!: pop_None_ok(1) split: prod.splits option.splits)
qed

lemma get_ex_sendD:
  "dispr_send_msg msg attr s = (st, h, s') \<Longrightarrow> dispr_ok H P D s \<Longrightarrow> i \<in> set H \<Longrightarrow> get_ex s' i = get_ex s i"
  using get_ex_send [of H P D s i msg attr] by simp

lemma get_ex_opD: "push_back_token_op_info n ty dat s = (b, s') \<Longrightarrow> msg_ex_pool s' = msg_ex_pool s"
  using get_ex_ops(1) [of n ty dat s] by simp

end
