(* ===== verification/Phl_Dispr_Run.thy ===== *)
theory Phl_Dispr_Run
  imports Phl_Dispr_Inv
begin

section \<open>The thread of the dispatcher\<close>

text \<open>
  One iteration of the thread keeps the invariant of the dispatcher, whatever the handlers and
  completion routines it calls do.
\<close>

subsection \<open>A message in the hands of the thread\<close>

text \<open>All that a callback can do to it is to cancel it.\<close>

definition cancelled :: "phl_dispr_msg_ex \<Rightarrow> phl_dispr_msg_ex" where
  "cancelled ex = set_ex_flag MSG_STATUS_CANCEL (ex\<lparr>premap := empty_map, postmap := empty_map\<rparr>)"

definition maybe_cancelled :: "phl_dispr_msg_ex \<Rightarrow> phl_dispr_msg_ex \<Rightarrow> bool" where
  "maybe_cancelled ex ex' \<longleftrightarrow> ex' = ex \<or> ex' = cancelled ex"

lemma cancelled_twice [simp]: "cancelled (cancelled ex) = cancelled ex"
  by (simp add: cancelled_def set_ex_flag_def SET_STATUS_FLAG_def or.assoc)

lemma maybe_cancelled_refl [simp]: "maybe_cancelled ex ex"
  by (simp add: maybe_cancelled_def)

lemma maybe_cancelled_trans: "maybe_cancelled x y \<Longrightarrow> maybe_cancelled y z \<Longrightarrow> maybe_cancelled x z"
  by (auto simp: maybe_cancelled_def)

lemma cancel_held: "maybe_cancelled (get_ex s i) (get_ex (cancel_msg j s) i)"
  by (cases "i = j"; cases "i < length (msg_ex_pool s)")
    (simp_all add: cancel_msg_def upd_ex_def maybe_cancelled_def cancelled_def list_update_beyond)

lemma pop_idle_req_pool: "pop_front_idle_req s = (ro, s1) \<Longrightarrow> msg_ex_pool s1 = msg_ex_pool s"
  by (auto simp: pop_front_idle_req_def split: prod.splits option.splits)

lemma api_held:
  assumes "dispr_ok H P D s" "i \<in> set H"
  shows "maybe_cancelled (get_ex s i) (get_ex (api_step a s) i)"
proof (cases a)
  case (Send msg attr)
  then show ?thesis using get_ex_send [OF assms] by simp
next
  case (Cancel_msg h)
  then show ?thesis using cancel_held by (simp add: dispr_cancel_msg_def Let_def)
next
  case (Io_status m b)
  have "dispr_ok H P D (set_d_flag DISPR_CANNOT_IO s\<lparr>exclusive_mdl := m\<rparr>)"
    "dispr_ok H P D (clear_d_flag DISPR_CANNOT_IO s\<lparr>exclusive_mdl := PHL_MDL_ID_MAX\<rparr>)"
    using assms by simp_all
  then show ?thesis
    using Io_status get_ex_sendD assms(2)
    by (auto simp: dispr_notify_dev_io_status_def send_dev_io_status_change_def dispr_clr_pending_msg_def
        dest!: get_ex_sendD [where H = H and P = P and D = D and i = i] split: prod.splits)
qed (auto simp: dispr_add_token_req_def dispr_cancel_token_req_def dispr_free_token_def dispr_clr_pending_msg_def
      dispr_notify_shall_stop_def push_back_wait_req_def dispr_enqueue_token_op_info_def Let_def
      dest!: get_ex_opD pop_idle_req_pool split: prod.splits option.splits)

lemma fold_api_held:
  "dispr_ok H P D s \<Longrightarrow> i \<in> set H \<Longrightarrow> maybe_cancelled (get_ex s i) (get_ex (fold api_step as s) i)"
proof (induction as arbitrary: s)
  case (Cons a as)
  then show ?case
    using maybe_cancelled_trans [OF api_held [of H P D s i a]] api_ok [of H P D s a] by simp
qed simp

lemma owes_cancelled [simp]: "owes (cancelled ex) = owes ex"
  by (simp add: cancelled_def phl_defs)

lemma owes_maybe: "maybe_cancelled ex ex' \<Longrightarrow> owes ex' = owes ex"
  by (auto simp: maybe_cancelled_def)

lemma emit_ok [simp]:
  "dispr_ok H P D (emit (Ev_Mdl r m x) s) = dispr_ok H P D s" "dispr_ok H P D (emit (Ev_Owner r m) s) = dispr_ok H P D s"
  "dispr_ok H P D (emit (Ev_Req k m) s) = dispr_ok H P D s" "dispr_ok H P D (emit (Ev_Acquired k x) s) = dispr_ok H P D s"
  "dispr_ok H P D (emit (Ev_Abort k) s) = dispr_ok H P D s" "dispr_ok H P D (emit (Ev_Ops r x) s) = dispr_ok H P D s"
  by (simp_all add: dispr_ok_def)

lemma run_cb_held:
  assumes "run_cb ev s = (ret, s1)" "dispr_ok H P D (emit (ev ret) s)" "i \<in> set H"
  shows "dispr_ok H P D s1" "maybe_cancelled (get_ex s i) (get_ex s1 i)"
proof -
  have ok: "dispr_ok H P D (emit (ev ret) (s\<lparr>cbs := cs\<rparr>))" for cs
  proof -
    have e: "emit (ev ret) (s\<lparr>cbs := cs\<rparr>) = (emit (ev ret) s)\<lparr>cbs := cs\<rparr>" by (simp add: emit_def)
    show ?thesis unfolding e using assms(2) by simp
  qed
  show "dispr_ok H P D s1" "maybe_cancelled (get_ex s i) (get_ex s1 i)"
    using assms(1,2) fold_api_ok [OF ok] fold_api_held [OF ok assms(3)]
    by (auto simp: run_cb_def split: list.splits)
qed

text \<open>Completing a message settles what it owes.\<close>

lemma run_completion_ok:
  assumes "dispr_ok (i # H) P D s"
  shows "dispr_ok (i # H) P D (run_completion i s)" "owes (get_ex (run_completion i s) i) = {#}"
proof -
  let ?c = "ex_completion (get_ex s i)"
  let ?s1 = "if TEST_STATUS_FLAG (ex_status (get_ex s i)) MSG_STATUS_CANCEL
     then upd_ex i (set_indc MSG_INDC_CANCEL) s else s"
  let ?p = "TEST_STATUS_FLAG (ex_status (get_ex s i)) MSG_STATUS_NOTIFY_COMPLETE \<and> c_fun ?c \<noteq> None"
  obtain ret s2 where cb: "run_cb (\<lambda>_. Ev_Done (ex_completion (get_ex ?s1 i)) (ex_msg (get_ex ?s1 i))) ?s1 = (ret, s2)"
    by fastforce
  have "dispr_ok (i # H) P D (run_completion i s) \<and> owes (get_ex (run_completion i s) i) = {#}"
  proof (cases ?p)
    case True
    have c: "ex_completion (get_ex ?s1 i) = ?c" "owes (get_ex ?s1 i) = {#?c#}"
      using True pool_bound [OF assms] by (auto simp: get_ex_upd set_indc_def owes_def)
    have 1: "dispr_ok (i # H) P D ?s1"
      using assms held_upd_ok [of i H P D s "set_indc MSG_INDC_CANCEL"] by simp
    have "dispr_ok (i # H) P (D + {#?c#}) (emit (Ev_Done ?c (ex_msg (get_ex ?s1 i))) ?s1)"
      using 1 acct_done [of D ?s1] by (simp add: dispr_ok_def)
    then have 2: "dispr_ok (i # H) P (D + {#?c#}) s2" "owes (get_ex s2 i) = {#?c#}"
      using run_cb_held [OF cb, of "i # H" P "D + {#?c#}" i] c owes_maybe by auto
    have "acct D (upd_ex i (clear_ex_flag MSG_STATUS_NOTIFY_COMPLETE) s2)"
      using 2 pool_bound [OF 2(1)]
      by (intro acct_upd [where D = "D + {#?c#}"])
        (simp_all add: dispr_ok_def, simp add: owes_def clear_ex_flag_def phl_defs)
    moreover have "msgs_ok (i # H) (upd_ex i (clear_ex_flag MSG_STATUS_NOTIFY_COMPLETE) s2)"
      using 2(1) not_idle [OF 2(1)] by (intro msgs_ok_upd) (simp_all add: dispr_ok_def)
    moreover have "run_completion i s = upd_ex i (clear_ex_flag MSG_STATUS_NOTIFY_COMPLETE) s2"
      unfolding run_completion_def Let_def using True cb by simp
    ultimately show ?thesis
      using 2(1) pool_bound [OF 2(1)]
      by (simp add: dispr_ok_def get_ex_upd) (simp add: owes_def clear_ex_flag_def phl_defs)
  next
    case False
    then show ?thesis using assms by (auto simp: run_completion_def owes_def Let_def)
  qed
  then show "dispr_ok (i # H) P D (run_completion i s)" "owes (get_ex (run_completion i s) i) = {#}"
    by blast+
qed

lemma on_abort_ok [simp]: "dispr_ok H P D (on_abort_msg_complete s) = dispr_ok H P D s"
  by (simp add: on_abort_msg_complete_def dispr_enqueue_token_op_info_def)

lemma on_abort_pool [simp]: "msg_ex_pool (on_abort_msg_complete s) = msg_ex_pool s"
  by (simp add: on_abort_msg_complete_def dispr_enqueue_token_op_info_def cmd_token_complete_def Let_def)

lemma push_idle_ok: "dispr_ok (i # H) P D s \<Longrightarrow> dispr_ok H P D (push_back_idle_msg i s)"
  using run_completion_ok [of i H P D s] by (simp add: push_back_idle_msg_def Let_def idle_reset_ok)

subsection \<open>Removing the current command\<close>

lemma dereg_msg_ok:
  assumes "dispr_ok H P D s" "m \<noteq> 0"
  shows "dispr_ok H P D (dereg_msg m i s)"
proof (cases "m = ex_mdl (get_ex s i)")
  case True
  have idle: "i \<notin> set (queue (msg_idle_q s))"
    using assms True by (auto simp: dispr_ok_def msgs_ok_def ex_mdl_def MSG_MDL_ID_FIELD_def)
  have 1: "dispr_ok H P D (upd_ex i (clear_ex_flag MSG_STATUS_OWNER_REQ) s)"
    using assms(1) idle by (intro upd_ex_ok) (simp_all add: phl_defs)
  have "dispr_ok H P D (cancel_msg i (upd_ex i (clear_ex_flag MSG_STATUS_OWNER_REQ) s))"
    using 1 idle by (intro cancel_msg_ok) (simp_all add: upd_ex_def)
  then show ?thesis using True by (simp add: dereg_msg_def Let_def clear_pending_ok)
qed (use assms in \<open>simp add: dereg_msg_def\<close>)

lemma fold_dereg_ok: "dispr_ok H P D s \<Longrightarrow> m \<noteq> 0 \<Longrightarrow> dispr_ok H P D (fold (dereg_msg m) is s)"
  by (induction "is" arbitrary: s) (simp_all add: dereg_msg_ok)

text \<open>A command that no longer runs is still the current one.\<close>

lemma stop_running_ok: "dispr_ok H P D s \<Longrightarrow> dispr_ok H P D (upd_req r (clear_req_flag REQ_STATUS_RUN) s)"
proof (cases "r < length (token_req_ex_pool s)")
  case True
  assume "dispr_ok H P D s"
  moreover from this have "reqs_ok P (upd_req r (clear_req_flag REQ_STATUS_RUN) s)"
    using True
    by (auto simp: dispr_ok_def reqs_ok_def upd_req_def nth_list_update clear_req_flag_def phl_defs)
  ultimately show ?thesis by (simp add: dispr_ok_def)
qed (simp add: upd_req_def list_update_beyond)

lemma like_ok: "(\<And>x. req_like (f x) x) \<Longrightarrow> dispr_ok H P D (upd_req r f s) = dispr_ok H P D s"
  by (simp add: dispr_ok_def reqs_ok_like)

lemma cur_req_module:
  assumes "dispr_ok H P D s" "cur_cmd_req s = Some r"
  shows "r < MAX_CMD_REQ_NUM" "req_module_id (req (get_req s r)) \<noteq> 0"
proof -
  have ok: "reqs_ok P s" using assms(1) by (simp add: dispr_ok_def)
  then show r: "r < MAX_CMD_REQ_NUM" using reqs_okD [OF ok] assms(2) by auto
  have "r \<notin> set (queue (token_req_idle_q s))" using reqs_okD [OF ok] assms(2) by auto
  then have "PHL_FG_MDL_START \<le> req_module_id (req (get_req s r))" using ok r by (auto simp: reqs_ok_def)
  then show "req_module_id (req (get_req s r)) \<noteq> 0" by (auto simp: PHL_FG_MDL_START_def)
qed

lemma deregister_ok:
  assumes "dispr_ok H P D s"
  shows "dispr_ok H P D (deregister_cur_cmd_req notify s) \<and> cur_cmd_req (deregister_cur_cmd_req notify s) = None"
proof (cases "cur_cmd_req s")
  case None
  have n: "s\<lparr>cur_cmd_req := None\<rparr> = s" using None by (cases s) simp
  have c: "cur_cmd_req (cmd_token_complete s) = cur_cmd_req s"
    using fixedD [of "cmd_token_complete s" s] by simp
  show ?thesis unfolding deregister_cur_cmd_req_def Let_def None option.case n using None assms c by simp
next
  case (Some r)
  let ?m = "req_module_id (req (get_req s r))"
  let ?s1 = "upd_req r (clear_req_flag REQ_STATUS_RUN) s"
  let ?s2 = "fold (dereg_msg ?m) [0..<MAX_PHL_MSG_NUM] ?s1"
  let ?t = "upd_req r (set_req_flag REQ_STATUS_LAST_PERMIT) ?s2"
  obtain ret t1 where cb: "run_cb (\<lambda>_. Ev_Abort r) ?t = (ret, t1)" by fastforce
  let ?s3 = "if notify then upd_req r (clear_req_flag REQ_STATUS_LAST_PERMIT) t1 else ?s2"
  have 2: "dispr_ok H P D ?s2"
    using stop_running_ok [OF assms] cur_req_module [OF assms Some] by (intro fold_dereg_ok)
  then have "dispr_ok H P D ?t" by (simp add: like_ok phl_defs)
  then have "dispr_ok H P D t1" by (intro run_cb_ok [OF cb]) simp_all
  then have 3: "dispr_ok H P D ?s3" using 2 by (simp add: like_ok phl_defs)
  have f3: "fixed ?s3 = fixed s" using fx.runD [OF cb] by simp
  have f: "cur_cmd_req ?s3 = Some r" using fixedD [OF f3] Some by simp
  let ?s4 = "push_back_idle_req r ?s3"
  have t4: "token_cnt ?s4 = token_cnt ?s3" using fixedD [of ?s4 ?s3] by simp
  have 6: "dispr_ok H P D (?s4\<lparr>token_cnt := token_cnt ?s3 - 1, cur_cmd_req := None\<rparr>)"
    by (rule release_req_ok [OF 3 f])
  let ?s6 = "?s4\<lparr>token_cnt := token_cnt ?s4 - 1\<rparr>\<lparr>cur_cmd_req := None\<rparr>"
  have "deregister_cur_cmd_req notify s =
      (if \<not> TEST_STATUS_FLAG (d_status ?s6) DISPR_WAIT_ABORT_MSG_DONE then cmd_token_complete ?s6 else ?s6)"
    unfolding deregister_cur_cmd_req_def Let_def using Some cb by simp
  moreover have "dispr_ok H P D ?s6" using 6 t4 by simp
  moreover have "cur_cmd_req (cmd_token_complete ?s6) = None"
    using fixedD [of "cmd_token_complete ?s6" ?s6] by simp
  ultimately show ?thesis by simp
qed

subsection \<open>Giving out the token\<close>

lemma reqs_frame [simp]:
  "token_req_ex_pool (upd_ex i f s) = token_req_ex_pool s" "token_req_ex_pool (set_d_flag k s) = token_req_ex_pool s"
  "token_req_ex_pool (clear_d_flag k s) = token_req_ex_pool s" "token_req_ex_pool (emit e s) = token_req_ex_pool s"
  "token_req_ex_pool (set_fault b s) = token_req_ex_pool s" "token_req_ex_pool (notify_dispr_thread s) = token_req_ex_pool s"
  by (simp_all add: prim_defs)

lemma send_reqs [simp]: "token_req_ex_pool (snd (snd (dispr_send_msg msg attr s))) = token_req_ex_pool s"
proof -
  have "token_req_ex_pool (snd (snd (send_last i m st attr t))) = token_req_ex_pool t" for i m st t
    by (simp add: send_last_def idle_msg_reset_def insert_msg_by_priority_def push_back_wait_msg_def Let_def)
  moreover have "token_req_ex_pool (send_owner i m cur st t) = token_req_ex_pool t"
    "token_req_ex_pool (send_attr i m attr t) = token_req_ex_pool t"
    "token_req_ex_pool (set_msg_bitmap i m t) = token_req_ex_pool t" for i m cur st t
    by (simp_all add: send_owner_def send_attr_def set_msg_bitmap_def set_msg_custom_bitmap_def Let_def
        split: prod.splits option.splits)
  moreover have "pop_front_idle_msg s = (io, t) \<Longrightarrow> token_req_ex_pool t = token_req_ex_pool s" for io t
    by (auto simp: pop_front_idle_msg_def split: prod.splits option.splits)
  ultimately show ?thesis
    by (auto simp: dispr_send_msg_def Let_def split: prod.splits option.splits)
qed

lemma phy_msg_ok:
  assumes "dispr_ok H P D s"
  shows "dispr_ok H P D (send_bk_msg_phy_on s)" "dispr_ok H P D (send_bk_msg_phy_idle s)"
  using assms by (simp_all add: send_bk_msg_phy_on_def send_bk_msg_phy_idle_def send_msg_ok)

lemma phy_msg_same [simp]:
  "fixed (send_bk_msg_phy_on s) = fixed s" "fixed (send_bk_msg_phy_idle s) = fixed s"
  "token_req_ex_pool (send_bk_msg_phy_on s) = token_req_ex_pool s"
  by (simp_all add: send_bk_msg_phy_on_def send_bk_msg_phy_idle_def)

lemma pop_wait_req_None: "pop_front_wait_req s = (None, s1) \<Longrightarrow> s1 = s"
  by (auto simp: pop_front_wait_req_def split: prod.splits option.splits)

lemma next_req_ok:
  assumes "dispr_ok H P D s" "next_req s = (ro, s1)"
  shows "dispr_ok H (case ro of None \<Rightarrow> P | Some r \<Rightarrow> r # P) D s1" "cur_cmd_req s1 = cur_cmd_req s"
    "ro = Some r \<Longrightarrow> \<not> TEST_STATUS_FLAG (req_status (get_req s1 r)) REQ_STATUS_ENQ"
proof -
  obtain po t where p: "pop_front_wait_req s = (po, t)" by fastforce
  have "fixed t = fixed s" using p by (rule fx.pops)
  then have "fixed s1 = fixed s" using assms(2) p by (auto simp: next_req_def split: option.splits)
  then show "cur_cmd_req s1 = cur_cmd_req s" using fixedD by blast
  show "dispr_ok H (case ro of None \<Rightarrow> P | Some r \<Rightarrow> r # P) D s1"
    using assms p pop_wait_req_ok(1) [OF assms(1)] pop_wait_req_None [of s]
    by (auto simp: next_req_def phy_msg_ok split: option.splits if_splits)
  show "ro = Some r \<Longrightarrow> \<not> TEST_STATUS_FLAG (req_status (get_req s1 r)) REQ_STATUS_ENQ"
    using assms p pop_wait_req_ok(3) [OF assms(1)] by (auto simp: next_req_def split: option.splits if_splits)
qed

lemma register_ok:
  assumes "dispr_ok H (r # P) D s" "cur_cmd_req s = None"
    "\<not> TEST_STATUS_FLAG (req_status (get_req s r)) REQ_STATUS_ENQ" "register_cur_cmd_req r s = (ok, s')"
  shows "dispr_ok H P D s'" "cur_cmd_req s' = (if ok then Some r else None)"
proof -
  let ?t = "(upd_req r (clear_req_flag REQ_STATUS_PREPARE \<circ> set_req_flag REQ_STATUS_RUN) s)
     \<lparr>cur_cmd_req := Some r, token_cnt := token_cnt s + 1\<rparr>"
  obtain ret t1 where cb: "run_cb (Ev_Acquired r) ?t = (ret, t1)" by fastforce
  have 1: "dispr_ok H P D t1"
    using make_cur_ok [OF assms(1-3)] by (intro run_cb_ok [OF cb]) simp_all
  have c: "cur_cmd_req t1 = Some r" using fixedD [OF fx.runD [OF cb]] by simp
  have s': "s' = (if ok then t1 else deregister_cur_cmd_req False t1)"
    using assms(4) cb by (auto simp: register_cur_cmd_req_def Let_def upd_req_def split: if_splits)
  show "dispr_ok H P D s'" "cur_cmd_req s' = (if ok then Some r else None)"
    using 1 c deregister_ok [OF 1, of False] by (simp_all add: s')
qed

lemma free_no_cur: "dispr_ok H P D s \<Longrightarrow> token_free s \<Longrightarrow> cur_cmd_req s = None"
  by (auto simp: dispr_ok_def reqs_ok_def token_free_def split: if_splits)

lemma process_ok: "dispr_ok H P D s \<Longrightarrow> dispr_ok H P D (snd (dispr_process_token_req s))"
proof (rule process_keeps [where P = "dispr_ok H P D"])
  fix s s1 assume "dispr_ok H P D s" "next_req s = (None, s1)"
  then show "dispr_ok H P D s1" using next_req_ok(1) by fastforce
next
  fix s r s1 ok s2
  assume s: "dispr_ok H P D s" "token_free s" "next_req s = (Some r, s1)" "register_cur_cmd_req r s1 = (ok, s2)"
  then show "dispr_ok H P D s2"
    using next_req_ok [OF s(1,3)] free_no_cur [OF s(1,2)] by (intro register_ok(1) [OF _ _ _ s(4)]) simp_all
qed simp_all

lemma handle_op_ok:
  assumes "dispr_ok H [] D s"
  shows "dispr_ok H [] D (handle_token_op_info n s)"
proof -
  let ?r = "unat (op_data (get_info s n))"
  let ?s1 = "upd_req ?r (set_req_flag REQ_STATUS_CANCEL) s"
  let ?s2 = "?s1\<lparr>token_req_wait_q := pq_del_node (token_req_wait_q ?s1) (Some ?r)\<rparr>"
  obtain ret t where cb: "run_cb (\<lambda>_. Ev_Abort ?r) ?s2 = (ret, t)" by fastforce
  have 1: "dispr_ok H [] D ?s1" using assms by (simp add: like_ok phl_defs)
  have "dispr_ok H [] D (push_back_idle_req ?r t)"
    if "?r < MAX_CMD_REQ_NUM" "TEST_STATUS_FLAG (req_status (get_req ?s1 ?r)) REQ_STATUS_ENQ"
  proof -
    have "?r \<in> set (queue (token_req_wait_q ?s1))" using 1 that by (auto simp: dispr_ok_def reqs_ok_def)
    then have "dispr_ok H [?r] D ?s2" using unlink_req_ok [OF 1 that(1)] by simp
    then have "dispr_ok H [?r] D t" by (intro run_cb_ok [OF cb]) simp_all
    then show ?thesis by (rule push_idle_req_ok)
  qed
  then show ?thesis
    using assms 1 cb process_ok [OF assms] process_ok [of H "[]" D "deregister_cur_cmd_req False s"]
      process_ok [of H "[]" D "deregister_cur_cmd_req True ?s1"] deregister_ok [OF assms, of False]
      deregister_ok [OF 1, of True]
    by (simp add: handle_token_op_info_def Let_def split: token_op_type.splits)
qed

lemma pop_op_ok: "pop_front_token_op_info s = (no, s1) \<Longrightarrow> dispr_ok H P D s1 = dispr_ok H P D s"
  by (auto simp: pop_front_token_op_info_def split: prod.splits)

lemma token_op_loop_ok: "dispr_ok H [] D s \<Longrightarrow> dispr_ok H [] D (token_op_loop s)"
proof (induction s rule: token_op_loop.induct)
  case (1 s)
  obtain no s1 where p: "pop_front_token_op_info s = (no, s1)" by fastforce
  then have "dispr_ok H [] D s1" using 1 pop_op_ok by simp
  then show ?case using 1 p handle_op_ok by (subst token_op_loop.simps) (cases no, simp_all)
qed

lemma token_op_hanler_ok: "dispr_ok H [] D s \<Longrightarrow> dispr_ok H [] D (token_op_hanler s)"
  by (simp add: token_op_hanler_def token_op_loop_ok)

subsection \<open>Dispatching\<close>

lemma snd_cb_ok:
  assumes "\<And>x s. dispr_ok H P D (emit (ev x) s) \<longleftrightarrow> dispr_ok H P D s" "dispr_ok H P D s"
  shows "dispr_ok H P D (snd (run_cb ev s))"
  using run_cb_ok [of ev s "fst (run_cb ev s)" "snd (run_cb ev s)" H P D] assms by simp

lemma cur_req_hdl_ok: "dispr_ok H P D s \<Longrightarrow> dispr_ok H P D (cur_req_hdl i s)"
  by (auto simp: cur_req_hdl_def Let_def intro!: snd_cb_ok split: option.splits)

lemma owner_hdl_ok: "dispr_ok H P D s \<Longrightarrow> dispr_ok H P D (owner_hdl i s)"
  by (auto simp: owner_hdl_def Let_def intro!: snd_cb_ok split: option.splits)

lemma notify_fail_ok: "dispr_ok (i # H) P D s \<Longrightarrow> dispr_ok (i # H) P D (notify_msg_fail i ret s)"
proof -
  assume ok: "dispr_ok (i # H) P D s"
  have "dispr_ok (i # H) P D (upd_ex i ((if ret = MDL_RET_CANNOT_IO then set_indc MSG_INDC_CANNOT_IO else (\<lambda>ex. ex)) \<circ>
      set_indc MSG_INDC_FAIL \<circ> set_ex_flag MSG_STATUS_FAIL) s)"
    using ok by (rule held_upd_ok) (simp_all add: phl_defs)
  then show ?thesis by (simp add: notify_msg_fail_def Let_def owner_hdl_ok cur_req_hdl_ok)
qed

lemma feed_mdl_ok:
  assumes "dispr_ok (i # H) P D s" "feed_mdl_msg r m i s = (ret, s')"
  shows "dispr_ok (i # H) P D s'"
proof -
  obtain t where cb: "run_cb (Ev_Mdl r (ex_msg (get_ex s i))) s = (ret, t)"
    using assms(2) by (auto simp: feed_mdl_msg_def split: prod.splits)
  have t: "dispr_ok (i # H) P D t" using assms(1) by (intro run_cb_ok [OF cb]) simp_all
  have "dispr_ok (i # H) P D
      (upd_ex i (\<lambda>ex. ex\<lparr>ex_msg := (ex_msg ex)\<lparr>rsvd := (rsvd (ex_msg ex))[0 := mdl_ptr r]\<rparr>\<rparr>) t)"
    using t by (rule held_upd_ok) simp_all
  note notify_fail_ok [OF this, of ret]
  moreover have "dispr_ok (i # H) P D (upd_ex i (set_ex_flag MSG_STATUS_PENDING) t)"
    "dispr_ok (i # H) P D (upd_ex i (clr_own_bit m) t)"
    using t by (auto intro!: held_upd_ok simp: phl_defs)
  ultimately show ?thesis
    using assms(2) cb by (auto simp: feed_mdl_msg_def split: if_splits)
qed

lemma feed_loop_ok:
  "dispr_ok (i # H) P D s \<Longrightarrow> feed_loop sel as i s = (b, s') \<Longrightarrow> dispr_ok (i # H) P D s'"
  by (induction sel as i s rule: feed_loop.induct)
    (auto dest: feed_mdl_ok split: option.splits if_splits prod.splits)

lemma pri_loop_ok: "dispr_ok (i # H) P D s \<Longrightarrow> dispr_ok (i # H) P D (pri_loop sel dir ps i s)"
  by (induction sel dir ps i s rule: pri_loop.induct) (auto dest: feed_loop_ok split: prod.splits bool.splits)

lemma phases_ok:
  assumes "dispr_ok (i # H) P D s"
  shows "dispr_ok (i # H) P D (msg_pre_phase_hdl i s)" "dispr_ok (i # H) P D (msg_post_phase_hdl i s)"
  unfolding msg_pre_phase_hdl_def msg_post_phase_hdl_def using assms by (rule pri_loop_ok)+

lemma controller_ok: "dispr_ok (i # H) P D s \<Longrightarrow> dispr_ok (i # H) P D (notify_dispr_controller i s)"
  using feed_mdl_ok [of i H P D s Ctrl "mdl_id (controller s)"] by (simp add: notify_dispr_controller_def prod_eq_iff)

lemma get_bitmap_ok: "dispr_ok (i # H) P D s \<Longrightarrow> get_msg_bitmap i s = (sel, s1) \<Longrightarrow> dispr_ok (i # H) P D s1"
  by (auto simp: get_msg_bitmap_def intro!: held_upd_ok split: if_splits)

lemma redirect_ok:
  "dispr_ok (i # H) P D s \<Longrightarrow> (dispr_ok (i # H) P D s \<Longrightarrow> dispr_ok H P D (k s)) \<Longrightarrow> dispr_ok H P D (redirect_chk i k s)"
  by (simp add: redirect_chk_def msg_reschedule_def push_idle_ok push_wait_ok Let_def)

lemma cancel_idle_ok:
  "dispr_ok (i # H) P D s \<Longrightarrow> dispr_ok H P D (push_back_idle_msg i (upd_ex i (set_ex_flag MSG_STATUS_CANCEL) s))"
  by (intro push_idle_ok held_upd_ok) (simp_all add: phl_defs)

lemma dispatch_post_ok: "dispr_ok (i # H) P D s \<Longrightarrow> dispr_ok H P D (dispatch_post sel i s)"
  unfolding dispatch_post_def
  by (rule redirect_ok) (simp_all add: phases_ok push_idle_ok cur_req_hdl_ok cancel_idle_ok)

lemma dispatch_pre_ok: "dispr_ok (i # H) P D s \<Longrightarrow> dispr_ok H P D (dispatch_pre sel i s)"
proof -
  assume ok: "dispr_ok (i # H) P D s"
  have "dispr_ok H P D (case get_msg_bitmap i (upd_ex i (clear_ex_flag MSG_STATUS_PRE_PHASE) t) of
      (sel', s2) \<Rightarrow> dispatch_post sel' i s2)" if "dispr_ok (i # H) P D t" for t
  proof -
    have "dispr_ok (i # H) P D (upd_ex i (clear_ex_flag MSG_STATUS_PRE_PHASE) t)"
      using that by (rule held_upd_ok) (simp_all add: phl_defs)
    then show ?thesis using get_bitmap_ok dispatch_post_ok by (auto split: prod.splits)
  qed
  then show ?thesis
    using ok unfolding dispatch_pre_def
    by (auto intro!: redirect_ok dispatch_post_ok simp: phases_ok cancel_idle_ok)
qed

lemma msg_dispatch_ok: "dispr_ok (i # H) P D s \<Longrightarrow> dispr_ok H P D (msg_dispatch i s)"
  by (auto simp: msg_dispatch_def intro!: redirect_ok dispatch_pre_ok controller_ok dest: get_bitmap_ok split: prod.splits)

lemma msg_canceled_ok: "dispr_ok (i # H) P D s \<Longrightarrow> is_msg_canceled i s = (b, s1) \<Longrightarrow> dispr_ok (i # H) P D s1"
  by (auto simp: is_msg_canceled_def Let_def phl_defs intro!: held_upd_ok split: if_splits)

lemma thread_loop_ok: "dispr_ok [] [] {#} s \<Longrightarrow> dispr_ok [] [] {#} (dispr_thread_loop_hdl s)"
proof -
  assume ok: "dispr_ok [] [] {#} s"
  obtain io s1 where p: "pop_front_wait_msg (token_op_hanler (clear_pending_msg s)) = (io, s1)" by fastforce
  have t: "dispr_ok [] [] {#} (token_op_hanler (clear_pending_msg s))"
    using ok by (intro token_op_hanler_ok clear_pending_ok)
  show ?thesis
  proof (cases io)
    case None
    then show ?thesis using ok t p pop_None_ok(2) [of _ s1] by (auto simp: dispr_thread_loop_hdl_def)
  next
    case (Some i)
    then have "dispr_ok [i] [] {#} s1" using pop_wait_msg_ok [OF t] p by simp
    then have "is_msg_canceled i s1 = (b, s2) \<Longrightarrow> dispr_ok [i] [] {#} s2" for b s2 by (rule msg_canceled_ok)
    then show ?thesis
      using ok p Some
      by (auto simp: dispr_thread_loop_hdl_def intro!: push_idle_ok msg_dispatch_ok held_upd_ok
          split: prod.splits bool.splits)
  qed
qed

end
