(* ===== verification/Phl_Dispr_Life.thy ===== *)
theory Phl_Dispr_Life
  imports Phl_Dispr_Run
begin

section \<open>The life of a dispatcher\<close>

text \<open>
  Starting, running, stopping and starting again: the invariant holds in every reachable state, the
  thread always leaves, and when it has left every completion routine that was accepted has been
  called. The order of a stop is that of the engine, which owns the shared thread: the prior handler, the
  end of the thread with its leave handler, the post handler.
\<close>

subsection \<open>The flags of the life cycle\<close>

text \<open>Bits 0 to 4: created, pools initialised, started, controller present. Callbacks leave them alone.\<close>

definition masked :: "u16 \<Rightarrow> cmd_dispatcher \<Rightarrow> u16" where
  "masked M s = d_status s AND M"

abbreviation low :: "cmd_dispatcher \<Rightarrow> u16" where
  "low \<equiv> masked 0x1F"

definition started :: "cmd_dispatcher \<Rightarrow> bool" where
  "started s \<longleftrightarrow> TEST_STATUS_FLAG (d_status s) DISPR_STARTED"

lemma test_low:
  "f AND 0x1F = f \<Longrightarrow> low s = low t \<Longrightarrow> TEST_STATUS_FLAG (d_status s) f = TEST_STATUS_FLAG (d_status t) f"
proof -
  assume f: "f AND 0x1F = f" and l: "low s = low t"
  have "d_status u AND f = low u AND f" for u
  proof -
    have "low u AND f = d_status u AND (f AND 0x1F)" by (simp add: masked_def ac_simps)
    then show ?thesis by (simp only: f)
  qed
  then show ?thesis using l by (simp add: TEST_STATUS_FLAG_def)
qed

lemma low_started: "low s = low t \<Longrightarrow> started s = started t"
  unfolding started_def by (rule test_low) (simp add: DISPR_STARTED_def)

lemma masked_flags [simp]:
  "f AND M = 0 \<Longrightarrow> masked M (set_d_flag f s) = masked M s" "f AND M = 0 \<Longrightarrow> masked M (clear_d_flag f s) = masked M s"
  "masked M (upd_ex i g s) = masked M s" "masked M (upd_req r h s) = masked M s" "masked M (emit e s) = masked M s"
  "masked M (tell_other x s) = masked M s" "masked M (set_fault b s) = masked M s" "masked M (notify_dispr_thread s) = masked M s"
  unfolding masked_def prim_defs SET_STATUS_FLAG_def CLEAR_STATUS_FLAG_def
  by (auto simp: bit_eq_iff bit_simps)

lemma masked_fields [simp]:
  "masked M (s\<lparr>token_op_q := oq\<rparr>) = masked M s" "masked M (s\<lparr>cbs := cs\<rparr>) = masked M s" "masked M (s\<lparr>mdl_info := mi\<rparr>) = masked M s"
  "masked M (s\<lparr>renew_req_info := ri\<rparr>) = masked M s" "masked M (s\<lparr>msg_idle_q := q\<rparr>) = masked M s" "masked M (s\<lparr>msg_wait_q := q\<rparr>) = masked M s"
  "masked M (s\<lparr>msg_pend_q := q\<rparr>) = masked M s" "masked M (s\<lparr>token_req_wait_q := q\<rparr>) = masked M s"
  "masked M (s\<lparr>token_req_idle_q := q\<rparr>) = masked M s" "masked M (s\<lparr>exclusive_mdl := em\<rparr>) = masked M s"
  "masked M (s\<lparr>cur_cmd_req := c\<rparr>) = masked M s" "masked M (s\<lparr>token_cnt := n\<rparr>) = masked M s" "masked M (s\<lparr>mdls := md\<rparr>) = masked M s"
  "masked M (s\<lparr>module_q := mq\<rparr>) = masked M s" "masked M (s\<lparr>controller := ct\<rparr>) = masked M s" "masked M (s\<lparr>d_bitmap := bm\<rparr>) = masked M s"
  "masked M (s\<lparr>d_basemap := bm\<rparr>) = masked M s" "masked M (s\<lparr>msg_ex_pool := mp\<rparr>) = masked M s"
  "masked M (s\<lparr>token_req_ex_pool := rp\<rparr>) = masked M s"
  by (simp_all add: masked_def)

text \<open>The flags that change while the dispatcher works are above them, with the one of a coming stop.\<close>

lemma mask_untouched:
  assumes "M AND 0xFFC0 = (0 :: u16)"
  shows "untouched (masked M)"
proof -
  have "(0x3F OR 0xFFC0 :: u16) = - 1" by simp
  then have "M AND (0x3F OR 0xFFC0) = M" by (simp only: and.right_neutral)
  then have M: "M AND 0x3F = M" unfolding bit.conj_disj_distrib assms by simp
  have "k AND M = 0" if "k AND 0x3F = 0" for k
  proof -
    have "k AND M = (k AND 0x3F) AND M" unfolding and.assoc and.commute [of "0x3F"] M ..
    then show ?thesis using that by simp
  qed
  then show ?thesis by unfold_locales (simp_all add: masked_flags)
qed

interpretation stop: untouched "masked 0x20"
  by (rule mask_untouched) simp

interpretation lo: untouched_msgs low
  by (intro untouched_msgs.intro untouched_cb.intro untouched_api.intro untouched_pend.intro
      untouched_pend_axioms.intro untouched_cb_axioms.intro untouched_api_axioms.intro mask_untouched)
    (simp_all add: masked_flags DISPR_SHALL_STOP_def)

text \<open>A coming stop is announced for good.\<close>

definition shall_stop :: "cmd_dispatcher \<Rightarrow> bool" where
  "shall_stop s \<longleftrightarrow> TEST_STATUS_FLAG (d_status s) DISPR_SHALL_STOP"

lemma shall_stop_masked: "shall_stop s \<longleftrightarrow> masked 0x20 s = 0x20"
  by (simp add: shall_stop_def TEST_STATUS_FLAG_def masked_def DISPR_SHALL_STOP_def)

lemma shall_stop_api: "shall_stop s \<Longrightarrow> shall_stop (api_step a s)"
proof (cases "a = Shall_stop")
  case False
  then show "shall_stop s \<Longrightarrow> ?thesis" using stop.api_but_stop [OF False, of s] by (simp only: shall_stop_masked)
qed (simp add: dispr_notify_shall_stop_def shall_stop_def)

lemma shall_stop_run_cb: "shall_stop s \<Longrightarrow> shall_stop (snd (run_cb ev s))"
proof -
  have "shall_stop t \<Longrightarrow> shall_stop (fold api_step as t)" for as t
    by (induction as arbitrary: t) (simp_all add: shall_stop_api)
  then show "shall_stop s \<Longrightarrow> ?thesis" by (auto simp: run_cb_def shall_stop_def emit_def split: list.splits)
qed

lemma low_deregister [simp]: "low (deregister_cur_cmd_req notify s) = low s"
  by (simp add: deregister_cur_cmd_req_def Let_def split: option.split)

text \<open>Only the dispatch makes messages pending.\<close>

interpretation pe: untouched_cb msg_pend_q
  by unfold_locales (simp_all add: prim_defs)

subsection \<open>The thread leaves\<close>

lemma pop_None_empty:
  assumes "dispr_ok H P D s"
  shows "pop_front_pending_msg s = (None, s1) \<Longrightarrow> queue (msg_pend_q s) = []"
    and "pop_front_wait_msg s = (None, s1) \<Longrightarrow> queue (msg_wait_q s) = []"
    and "pop_front_wait_req s = (None, s1) \<Longrightarrow> queue (token_req_wait_q s) = []"
  using assms
  by (auto simp: pop_front_pending_msg_def pop_front_wait_msg_def pop_front_wait_req_def dispr_ok_def msgs_ok_def
      reqs_ok_def dest: pq_pop_NoneD split: prod.splits option.splits)

lemma drain_pending_ok:
  "dispr_ok [] P D s \<Longrightarrow> dispr_ok [] P D (drain_pending s) \<and> queue (msg_pend_q (drain_pending s)) = [] \<and>
     low (drain_pending s) = low s \<and> fixed (drain_pending s) = fixed s"
proof (induction s rule: drain_pending.induct)
  case (1 s)
  obtain io s1 where p: "pop_front_pending_msg s = (io, s1)" by fastforce
  show ?case
  proof (cases io)
    case None
    then show ?thesis
      using 1 p pop_None_ok(3) [of s s1] pop_None_empty(1) [OF 1(2), of s1] by (subst (1 2 3 4) drain_pending.simps) auto
  next
    case (Some i)
    then have "dispr_ok [i] P D s1" using 1 p pop_pending_ok by blast
    then have "dispr_ok [] P D (push_back_wait_msg i s1)" by (rule push_wait_ok)
    moreover have "low s1 = low s" "fixed s1 = fixed s" using lo.pop_pending [OF p] fx.pop_pending [OF p] by simp_all
    ultimately show ?thesis using 1 p Some by (subst (1 2 3 4) drain_pending.simps) simp
  qed
qed

lemma drain_waiting_ok:
  "dispr_ok [] P D s \<Longrightarrow> dispr_ok [] P D (drain_waiting s) \<and> queue (msg_wait_q (drain_waiting s)) = [] \<and>
     msg_pend_q (drain_waiting s) = msg_pend_q s \<and> low (drain_waiting s) = low s \<and> fixed (drain_waiting s) = fixed s"
proof (induction s rule: drain_waiting.induct)
  case (1 s)
  obtain io s1 where p: "pop_front_wait_msg s = (io, s1)" by fastforce
  show ?case
  proof (cases io)
    case None
    then show ?thesis
      using 1 p pop_None_ok(2) [of s s1] pop_None_empty(2) [OF 1(2), of s1] by (subst (1 2 3 4 5) drain_waiting.simps) auto
  next
    case (Some i)
    then have "dispr_ok [i] P D s1" using 1 p pop_wait_msg_ok by blast
    then have "dispr_ok [] P D (push_back_idle_msg i s1)" by (rule push_idle_ok)
    moreover have "low s1 = low s" "fixed s1 = fixed s" "msg_pend_q s1 = msg_pend_q s"
      using lo.pops(2) [OF p] fx.pops(2) [OF p] pe.pops(2) [OF p] by simp_all
    ultimately show ?thesis using 1 p Some by (subst (1 2 3 4 5) drain_waiting.simps) simp
  qed
qed

lemma all_idle_cnt:
  assumes "dispr_ok [] P D s" "queue (msg_wait_q s) = []" "queue (msg_pend_q s) = []"
  shows "cnt (msg_idle_q s) = int MAX_PHL_MSG_NUM"
proof -
  have "mset (queue (msg_idle_q s)) = mset [0..<MAX_PHL_MSG_NUM]" using assms by (simp add: dispr_ok_def msgs_ok_def)
  then have "length (queue (msg_idle_q s)) = MAX_PHL_MSG_NUM" using mset_eq_length by fastforce
  then show ?thesis using assms(1) by (simp add: dispr_ok_def msgs_ok_def)
qed

lemma clear_waiting_returns:
  assumes "dispr_ok [] P D s"
  shows "\<exists>s'. clear_waiting_msg s = Some s' \<and> dispr_ok [] P D s' \<and> cnt (msg_idle_q s') = int MAX_PHL_MSG_NUM \<and>
    low s' = low s \<and> fixed s' = fixed s"
proof (cases "cnt (msg_idle_q s) = int MAX_PHL_MSG_NUM")
  case True
  then show ?thesis using assms by (subst clear_waiting_msg.simps) simp
next
  case False
  let ?t = "drain_waiting (drain_pending s)"
  have p: "dispr_ok [] P D (drain_pending s)" using drain_pending_ok [OF assms] by simp
  have t: "dispr_ok [] P D ?t" "cnt (msg_idle_q ?t) = int MAX_PHL_MSG_NUM" "low ?t = low s" "fixed ?t = fixed s"
    using drain_waiting_ok [OF p] drain_pending_ok [OF assms] all_idle_cnt [of P D ?t] by simp_all
  have "clear_waiting_msg s = clear_waiting_msg ?t" using False by (subst clear_waiting_msg.simps) simp
  also have "\<dots> = Some ?t" using t(2) by (subst clear_waiting_msg.simps) simp
  finally show ?thesis using t by blast
qed

text \<open>What functions called from outside leave alone while the dispatcher is not started.\<close>

definition core :: "cmd_dispatcher \<Rightarrow> phl_dispr_msg_ex list \<times> nat phl_queue \<times> nat phl_queue \<times> nat phl_queue \<times>
    phl_cmd_token_req_ex list \<times> nat phl_queue \<times> nat phl_queue \<times> nat option \<times> int \<times> dispr_event list" where
  "core s = (msg_ex_pool s, msg_idle_q s, msg_wait_q s, msg_pend_q s, token_req_ex_pool s, token_req_idle_q s,
     token_req_wait_q s, cur_cmd_req s, token_cnt s, dlog s)"

lemma coreD:
  "core t = core s \<Longrightarrow> msg_ex_pool t = msg_ex_pool s \<and> msg_idle_q t = msg_idle_q s \<and> msg_wait_q t = msg_wait_q s \<and>
     msg_pend_q t = msg_pend_q s \<and> token_req_ex_pool t = token_req_ex_pool s \<and>
     token_req_idle_q t = token_req_idle_q s \<and> token_req_wait_q t = token_req_wait_q s \<and>
     cur_cmd_req t = cur_cmd_req s \<and> token_cnt t = token_cnt s \<and> dlog t = dlog s"
  by (simp add: core_def)

lemma core_frame [simp]:
  "core (set_d_flag f s) = core s" "core (clear_d_flag f s) = core s" "core (notify_dispr_thread s) = core s"
  "core (set_fault b s) = core s" "core (s\<lparr>exclusive_mdl := em\<rparr>) = core s" "core (s\<lparr>cbs := cs\<rparr>) = core s"
  "core (s\<lparr>mdls := md\<rparr>) = core s" "core (s\<lparr>module_q := mq\<rparr>) = core s" "core (s\<lparr>controller := ct\<rparr>) = core s"
  "core (s\<lparr>d_bitmap := bm\<rparr>) = core s" "core (s\<lparr>d_basemap := bm\<rparr>) = core s"
  by (simp_all add: core_def prim_defs)

lemma started_frame [simp]:
  "f AND 0x1F = 0 \<Longrightarrow> started (set_d_flag f s) = started s" "f AND 0x1F = 0 \<Longrightarrow> started (clear_d_flag f s) = started s"
  "started (s\<lparr>exclusive_mdl := em\<rparr>) = started s"
  by (rule low_started, simp)+

lemma send_refused: "\<not> started s \<Longrightarrow> dispr_send_msg msg attr s = (RTW_PHL_STATUS_UNEXPECTED_ERROR, 0, s)"
  by (simp add: dispr_send_msg_def started_def Let_def split: prod.splits)

lemma core_api: "\<not> started s \<Longrightarrow> core (api_step a s) = core s"
proof (cases a)
  case (Io_status m b)
  assume "\<not> started s"
  then have "\<not> started ((set_d_flag DISPR_CANNOT_IO s)\<lparr>exclusive_mdl := m\<rparr>)"
    "\<not> started ((clear_d_flag DISPR_CANNOT_IO s)\<lparr>exclusive_mdl := PHL_MDL_ID_MAX\<rparr>)"
    by (simp_all add: DISPR_CANNOT_IO_def)
  note r = this [THEN send_refused]
  show ?thesis
    by (simp add: Io_status r dispr_notify_dev_io_status_def send_dev_io_status_change_def dispr_clr_pending_msg_def)
qed (auto simp: send_refused dispr_cancel_msg_def dispr_add_token_req_def dispr_cancel_token_req_def
      dispr_free_token_def dispr_notify_shall_stop_def dispr_clr_pending_msg_def
      started_def [symmetric])

lemma core_run_cb:
  assumes "\<not> started s"
  shows "core (snd (run_cb ev s)) = core (emit (ev (fst (run_cb ev s))) s)"
proof -
  have "core (fold api_step as t) = core t" if "\<not> started t" for as t
    using that
  proof (induction as arbitrary: t)
    case (Cons a as)
    have "started (api_step a t) = started t" by (rule low_started) simp
    then show ?case using Cons core_api [of t a] by simp
  qed simp
  moreover have "started (emit e (s\<lparr>cbs := cs\<rparr>)) = started s" for e cs by (rule low_started) simp
  moreover have "core (emit e (s\<lparr>cbs := cs\<rparr>)) = core (emit e s)" for e cs by (simp add: core_def emit_def)
  ultimately show ?thesis using assms by (auto simp: run_cb_def split: list.splits)
qed

lemma drain_reqs_ok:
  "dispr_ok [] [] D s \<Longrightarrow> \<not> started s \<Longrightarrow>
     dispr_ok [] [] D (drain_reqs s) \<and> queue (token_req_wait_q (drain_reqs s)) = [] \<and>
     low (drain_reqs s) = low s \<and> cur_cmd_req (drain_reqs s) = cur_cmd_req s \<and>
     msg_idle_q (drain_reqs s) = msg_idle_q s"
proof (induction s rule: drain_reqs.induct)
  case (1 s)
  obtain ro s1 where p: "pop_front_wait_req s = (ro, s1)" by fastforce
  show ?case
  proof (cases ro)
    case None
    then show ?thesis
      using 1 p pop_wait_req_None [of s s1] pop_None_empty(3) [OF 1(2), of s1]
      by (subst (1 2 3 4 5) drain_reqs.simps) auto
  next
    case (Some r)
    let ?t = "snd (run_cb (\<lambda>_. Ev_Abort r) s1)"
    have q: "msg_idle_q s1 = msg_idle_q s"
      using p by (auto simp: pop_front_wait_req_def upd_req_def split: prod.splits option.splits)
    have s1: "low s1 = low s" "cur_cmd_req s1 = cur_cmd_req s"
      using lo.pops(4) [OF p] fixedD [OF fx.pops(4) [OF p]] by simp_all
    then have n: "\<not> started s1" using 1(3) low_started by blast
    have "dispr_ok [] [r] D s1" using pop_wait_req_ok(1) [OF 1(2)] p Some by simp
    then have "dispr_ok [] [r] D ?t" by (intro snd_cb_ok) simp_all
    then have t: "dispr_ok [] [] D (push_back_idle_req r ?t)" by (rule push_idle_req_ok)
    have "core ?t = core (emit (Ev_Abort r) s1)" using core_run_cb [OF n, of "\<lambda>_. Ev_Abort r"] by simp
    then have c: "msg_idle_q ?t = msg_idle_q s" "cur_cmd_req ?t = cur_cmd_req s"
      using coreD [of ?t "emit (Ev_Abort r) s1"] q s1 by (simp_all add: emit_def)
    have f: "cur_cmd_req (push_back_idle_req r ?t) = cur_cmd_req s" "msg_idle_q (push_back_idle_req r ?t) = msg_idle_q s"
      "low (push_back_idle_req r ?t) = low s" "\<not> started (push_back_idle_req r ?t)"
      using c s1 n low_started [of "push_back_idle_req r ?t" s1]
      by (simp_all add: push_back_idle_req_def upd_req_def Let_def)
    show ?thesis using 1(1) [OF p [symmetric] Some t f(4)] p Some f by (subst (1 2 3 4 5) drain_reqs.simps) simp
  qed
qed

lemma clear_reqs_returns:
  assumes "dispr_ok [] [] D s" "\<not> started s" "cur_cmd_req s = None"
  shows "\<exists>s'. clear_wating_req s = Some s' \<and> dispr_ok [] [] D s' \<and> cnt (token_req_idle_q s') = int MAX_CMD_REQ_NUM \<and>
    low s' = low s \<and> cur_cmd_req s' = None \<and> msg_idle_q s' = msg_idle_q s"
proof (cases "cnt (token_req_idle_q s) = int MAX_CMD_REQ_NUM")
  case True
  then show ?thesis using assms by (subst clear_wating_req.simps) simp
next
  case False
  let ?t = "drain_reqs s"
  note t = drain_reqs_ok [OF assms(1,2)]
  have ok: "dispr_ok [] [] D ?t" "queue (token_req_wait_q ?t) = []" "cur_cmd_req ?t = None" using t assms(3) by simp_all
  have "mset (queue (token_req_idle_q ?t)) = mset [0..<MAX_CMD_REQ_NUM]"
    using ok(1) by (simp add: dispr_ok_def reqs_ok_def ok(2,3))
  then have "length (queue (token_req_idle_q ?t)) = MAX_CMD_REQ_NUM" using mset_eq_length by fastforce
  then have c: "cnt (token_req_idle_q ?t) = int MAX_CMD_REQ_NUM" using ok(1) by (simp add: dispr_ok_def reqs_ok_def)
  have "clear_wating_req s = clear_wating_req ?t" using False by (subst clear_wating_req.simps) simp
  also have "\<dots> = Some ?t" using c by (subst clear_wating_req.simps) simp
  finally show ?thesis using t c assms(3) by auto
qed

text \<open>What is left behind: all structures idle, no command, no debt.\<close>

definition quiet :: "cmd_dispatcher \<Rightarrow> bool" where
  "quiet s \<longleftrightarrow> dispr_ok [] [] {#} s \<and> cnt (msg_idle_q s) = int MAX_PHL_MSG_NUM \<and>
     cnt (token_req_idle_q s) = int MAX_CMD_REQ_NUM \<and> cur_cmd_req s = None"

lemma leave_returns:
  assumes "dispr_ok [] [] {#} s" "\<not> started s"
  shows "\<exists>s'. dispr_thread_leave_hdl s = Some s' \<and> quiet s' \<and> low s' = low s"
proof -
  let ?t = "deregister_cur_cmd_req True s"
  have t: "dispr_ok [] [] {#} ?t" "cur_cmd_req ?t = None" "low ?t = low s"
    using deregister_ok [OF assms(1), of True] by simp_all
  obtain u where u: "clear_waiting_msg ?t = Some u" "dispr_ok [] [] {#} u" "cnt (msg_idle_q u) = int MAX_PHL_MSG_NUM"
    "low u = low s" "fixed u = fixed ?t"
    using clear_waiting_returns [OF t(1)] t(3) by auto
  have "\<not> started u" "cur_cmd_req u = None" using low_started [OF u(4)] assms(2) fixedD [OF u(5)] t(2) by simp_all
  then show ?thesis
    using u clear_reqs_returns [OF u(2)] by (auto simp: dispr_thread_leave_hdl_def quiet_def)
qed

subsection \<open>Starting\<close>

definition fresh_ex :: "nat \<Rightarrow> phl_dispr_msg_ex" where
  "fresh_ex i = dispr_msg_ex0\<lparr>ex_idx := i\<rparr>"

definition fresh_req :: "nat \<Rightarrow> phl_cmd_token_req_ex" where
  "fresh_req i = req_ex0\<lparr>req_idx := i\<rparr>"

lemma fill_nth: "n < m \<Longrightarrow> (map f [0..<n] @ replicate (m - n) x)[n := f n] = map f [0..<Suc n] @ replicate (m - Suc n) x"
  by (simp add: list_update_append Suc_diff_Suc [symmetric] del: Suc_diff_Suc)

lemma fresh_push:
  assumes "get_ex s i = dispr_msg_ex0" "i < length (msg_ex_pool s)"
  shows "\<exists>mi. push_back_idle_msg i (upd_ex i (\<lambda>ex. ex\<lparr>ex_idx := i\<rparr>) s) =
    s\<lparr>msg_ex_pool := (msg_ex_pool s)[i := fresh_ex i], msg_idle_q := pq_push (msg_idle_q s) i Tail, mdl_info := mi\<rparr>"
proof -
  let ?t = "upd_ex i (\<lambda>ex. ex\<lparr>ex_idx := i\<rparr>) s"
  have t: "?t = s\<lparr>msg_ex_pool := (msg_ex_pool s)[i := fresh_ex i]\<rparr>"
    using assms by (simp add: upd_ex_def fresh_ex_def)
  have st: "ex_status (get_ex ?t i) = 0" using assms by (simp add: t fresh_ex_def dispr_msg_ex0_def)
  then have p: "push_back_idle_msg i ?t = idle_msg_reset i ?t"
    by (simp add: push_back_idle_msg_def run_completion_def phl_defs Let_def)
  show ?thesis
    unfolding p unfolding t using assms
    by (cases s) (auto simp: idle_msg_reset_def upd_ex_def fresh_ex_def dispr_msg_ex0_def phl_msg0_def Let_def)
qed

text \<open>The loop of \<^verbatim>\<open>init_dispr_msg_pool\<close>, and that of \<^verbatim>\<open>init_cmd_req_pool\<close>.\<close>

lemma fresh_msgs:
  assumes "msg_ex_pool s = replicate MAX_PHL_MSG_NUM dispr_msg_ex0" "msg_idle_q s = pq_init" "n \<le> MAX_PHL_MSG_NUM"
  shows "\<exists>mi. fold (\<lambda>i s. push_back_idle_msg i (upd_ex i (\<lambda>ex. ex\<lparr>ex_idx := i\<rparr>) s)) [0..<n] s =
    s\<lparr>msg_ex_pool := map fresh_ex [0..<n] @ replicate (MAX_PHL_MSG_NUM - n) dispr_msg_ex0,
      msg_idle_q := \<lparr>queue = [0..<n], cnt = int n\<rparr>, mdl_info := mi\<rparr>"
  using assms(3)
proof (induction n)
  case 0
  show ?case using assms(1,2) by (cases s) (auto simp: pq_init_def)
next
  case (Suc n)
  then obtain mi where t: "fold (\<lambda>i s. push_back_idle_msg i (upd_ex i (\<lambda>ex. ex\<lparr>ex_idx := i\<rparr>) s)) [0..<n] s =
    s\<lparr>msg_ex_pool := map fresh_ex [0..<n] @ replicate (MAX_PHL_MSG_NUM - n) dispr_msg_ex0,
      msg_idle_q := \<lparr>queue = [0..<n], cnt = int n\<rparr>, mdl_info := mi\<rparr>" (is "_ = ?t") by auto
  have n: "get_ex ?t n = dispr_msg_ex0" "n < length (msg_ex_pool ?t)" using Suc.prems by (simp_all add: nth_append)
  have f: "(msg_ex_pool ?t)[n := fresh_ex n] = map fresh_ex [0..<Suc n] @ replicate (MAX_PHL_MSG_NUM - Suc n) dispr_msg_ex0"
    using fill_nth [of n MAX_PHL_MSG_NUM fresh_ex] Suc.prems by simp
  show ?case
    using fresh_push [OF n] unfolding upt_Suc_append [OF le0] fold_append comp_apply t f
    by (auto simp: pq_push_def add.commute)
qed

lemma fresh_reqs:
  assumes "token_req_ex_pool s = replicate MAX_CMD_REQ_NUM req_ex0" "token_req_idle_q s = pq_init" "n \<le> MAX_CMD_REQ_NUM"
  shows "fold (\<lambda>i s. let s2 = upd_req i (\<lambda>r. r\<lparr>req_idx := i\<rparr>) s
                     in s2\<lparr>token_req_idle_q := pq_push (token_req_idle_q s2) i Tail\<rparr>) [0..<n] s =
    s\<lparr>token_req_ex_pool := map fresh_req [0..<n] @ replicate (MAX_CMD_REQ_NUM - n) req_ex0,
      token_req_idle_q := \<lparr>queue = [0..<n], cnt = int n\<rparr>\<rparr>"
  using assms(3)
proof (induction n)
  case 0
  show ?case using assms(1,2) by (cases s) (auto simp: pq_init_def)
next
  case (Suc n)
  let ?p = "map fresh_req [0..<n] @ replicate (MAX_CMD_REQ_NUM - n) req_ex0"
  have n: "?p ! n = req_ex0" using Suc.prems by (simp add: nth_append)
  have f: "?p[n := fresh_req n] = map fresh_req [0..<Suc n] @ replicate (MAX_CMD_REQ_NUM - Suc n) req_ex0"
    using fill_nth [of n MAX_CMD_REQ_NUM fresh_req] Suc.prems by simp
  show ?case
    using Suc n f [symmetric] by (simp add: upd_req_def fresh_req_def [symmetric] pq_push_def Let_def del: replicate_Suc)
qed

lemma mdl_frame [simp]:
  "dispr_ok H P D (s\<lparr>mdls := md\<rparr>) = dispr_ok H P D s" "dispr_ok H P D (s\<lparr>module_q := mq\<rparr>) = dispr_ok H P D s"
  "dispr_ok H P D (s\<lparr>controller := ct\<rparr>) = dispr_ok H P D s" "dispr_ok H P D (s\<lparr>d_bitmap := bm\<rparr>) = dispr_ok H P D s"
  "dispr_ok H P D (s\<lparr>d_basemap := bm\<rparr>) = dispr_ok H P D s" "dispr_ok H P D (s\<lparr>mdl_info := mi\<rparr>) = dispr_ok H P D s"
  "dispr_ok H P D (s\<lparr>renew_req_info := ri\<rparr>) = dispr_ok H P D s"
  by (simp_all add: dispr_ok_def msgs_ok_def reqs_ok_def acct_def owed_def)

lemma mdl_flag_ok [simp]: "dispr_ok H P D (mdl_flag r f s) = dispr_ok H P D s"
  by (cases r) (simp_all add: mdl_flag_def)

lemma mdl_ops_ok:
  assumes "dispr_ok H P D s"
  shows "dispr_ok H P D (snd (bk_module_init r s))" "dispr_ok H P D (bk_module_deinit r s)"
    "dispr_ok H P D (snd (bk_module_start r s))" "dispr_ok H P D (snd (bk_module_stop r s))"
proof -
  have cb: "dispr_ok H P D (snd (run_cb (Ev_Ops r) t))" if "dispr_ok H P D t" for t
    using that by (intro snd_cb_ok) simp_all
  then have cbD: "run_cb (Ev_Ops r) t = (x, t') \<Longrightarrow> dispr_ok H P D t \<Longrightarrow> dispr_ok H P D t'" for t x t'
    by (metis snd_conv)
  show "dispr_ok H P D (snd (bk_module_init r s))" "dispr_ok H P D (snd (bk_module_start r s))"
    "dispr_ok H P D (snd (bk_module_stop r s))"
    using assms by (auto simp: bk_module_init_def bk_module_start_def bk_module_stop_def dest!: cbD split: prod.splits)
  show "dispr_ok H P D (bk_module_deinit r s)" using assms cb by (simp add: bk_module_deinit_def)
qed

definition settled :: "cmd_dispatcher \<Rightarrow> bool" where
  "settled s \<longleftrightarrow> sum_list (map ev_sent (dlog s)) = sum_list (map ev_done (dlog s))"

definition stopped_ok :: "cmd_dispatcher \<Rightarrow> bool" where
  "stopped_ok s \<longleftrightarrow> settled s \<and> cur_cmd_req s = None \<and> token_cnt s = 0 \<and> \<not> started s \<and>
     \<not> TEST_STATUS_FLAG (d_status s) DISPR_MSGQ_INIT \<and> \<not> TEST_STATUS_FLAG (d_status s) DISPR_REQ_INIT"

lemma fresh_msgs_ok:
  assumes "msg_ex_pool s = map fresh_ex [0..<MAX_PHL_MSG_NUM]"
    "msg_idle_q s = \<lparr>queue = [0..<MAX_PHL_MSG_NUM], cnt = int MAX_PHL_MSG_NUM\<rparr>" "msg_wait_q s = pq_init" "msg_pend_q s = pq_init"
  shows "msgs_ok [] s" "owed s = {#}"
proof -
  have o: "owes (fresh_ex i) = {#}" for i by (simp add: owes_def fresh_ex_def dispr_msg_ex0_def phl_defs)
  have "sum_list (map (owes \<circ> fresh_ex) l) = {#}" for l by (induction l) (simp_all add: o)
  then show "owed s = {#}" by (simp add: owed_def assms(1))
  have "ex_idx (fresh_ex i) = i" "ex_status (fresh_ex i) = 0" "msg_id (ex_msg (fresh_ex i)) = 0" for i
    by (simp_all add: fresh_ex_def dispr_msg_ex0_def phl_msg0_def)
  then show "msgs_ok [] s" by (simp add: msgs_ok_def assms pq_init_def)
qed

lemma fresh_reqs_ok:
  assumes "token_req_ex_pool s = map fresh_req [0..<MAX_CMD_REQ_NUM]"
    "token_req_idle_q s = \<lparr>queue = [0..<MAX_CMD_REQ_NUM], cnt = int MAX_CMD_REQ_NUM\<rparr>" "token_req_wait_q s = pq_init"
    "cur_cmd_req s = None" "token_cnt s = 0"
  shows "reqs_ok [] s"
proof -
  have "req_idx (fresh_req i) = i" "req_status (fresh_req i) = 0" for i by (simp_all add: fresh_req_def req_ex0_def)
  then show ?thesis by (simp add: reqs_ok_def assms pq_init_def phl_defs)
qed

lemma init_msgs_fields:
  assumes "\<not> TEST_STATUS_FLAG (d_status s) DISPR_MSGQ_INIT"
  shows "msg_ex_pool (init_dispr_msg_pool s) = map fresh_ex [0..<MAX_PHL_MSG_NUM]"
    "msg_idle_q (init_dispr_msg_pool s) = \<lparr>queue = [0..<MAX_PHL_MSG_NUM], cnt = int MAX_PHL_MSG_NUM\<rparr>"
    "msg_wait_q (init_dispr_msg_pool s) = pq_init" "msg_pend_q (init_dispr_msg_pool s) = pq_init"
    "cur_cmd_req (init_dispr_msg_pool s) = cur_cmd_req s" "token_cnt (init_dispr_msg_pool s) = token_cnt s"
    "dlog (init_dispr_msg_pool s) = dlog s" "d_status (init_dispr_msg_pool s) = SET_STATUS_FLAG (d_status s) DISPR_MSGQ_INIT"
proof -
  let ?s = "s\<lparr>msg_idle_q := pq_init, msg_wait_q := pq_init, msg_pend_q := pq_init,
    msg_ex_pool := replicate MAX_PHL_MSG_NUM dispr_msg_ex0\<rparr>"
  obtain mi where "init_dispr_msg_pool s = set_d_flag DISPR_MSGQ_INIT
      (?s\<lparr>msg_ex_pool := map fresh_ex [0..<MAX_PHL_MSG_NUM],
        msg_idle_q := \<lparr>queue = [0..<MAX_PHL_MSG_NUM], cnt = int MAX_PHL_MSG_NUM\<rparr>, mdl_info := mi\<rparr>)"
    using fresh_msgs [of ?s MAX_PHL_MSG_NUM] assms by (auto simp: init_dispr_msg_pool_def Let_def)
  then show "msg_ex_pool (init_dispr_msg_pool s) = map fresh_ex [0..<MAX_PHL_MSG_NUM]"
    "msg_idle_q (init_dispr_msg_pool s) = \<lparr>queue = [0..<MAX_PHL_MSG_NUM], cnt = int MAX_PHL_MSG_NUM\<rparr>"
    "msg_wait_q (init_dispr_msg_pool s) = pq_init" "msg_pend_q (init_dispr_msg_pool s) = pq_init"
    "cur_cmd_req (init_dispr_msg_pool s) = cur_cmd_req s" "token_cnt (init_dispr_msg_pool s) = token_cnt s"
    "dlog (init_dispr_msg_pool s) = dlog s" "d_status (init_dispr_msg_pool s) = SET_STATUS_FLAG (d_status s) DISPR_MSGQ_INIT"
    by (simp_all add: set_d_flag_def)
qed

lemma init_reqs_fields:
  assumes "\<not> TEST_STATUS_FLAG (d_status s) DISPR_REQ_INIT"
  shows "init_cmd_req_pool s = set_d_flag DISPR_REQ_INIT (s\<lparr>token_req_wait_q := pq_init, token_op_q := pq_init,
      token_req_ex_pool := map fresh_req [0..<MAX_CMD_REQ_NUM],
      token_req_idle_q := \<lparr>queue = [0..<MAX_CMD_REQ_NUM], cnt = int MAX_CMD_REQ_NUM\<rparr>\<rparr>)"
proof -
  let ?s = "s\<lparr>token_req_wait_q := pq_init, token_req_idle_q := pq_init, token_op_q := pq_init,
    token_req_ex_pool := replicate MAX_CMD_REQ_NUM req_ex0\<rparr>"
  show ?thesis
    using fresh_reqs [of ?s MAX_CMD_REQ_NUM] assms by (simp add: init_cmd_req_pool_def Let_def)
qed

lemma start_ok:
  assumes "stopped_ok s"
  shows "dispr_ok [] [] {#} (snd (dispr_start s))"
proof -
  let ?t = "init_cmd_req_pool (init_dispr_msg_pool s)"
  have m: "\<not> TEST_STATUS_FLAG (d_status s) DISPR_MSGQ_INIT" using assms by (simp add: stopped_ok_def)
  have "\<not> TEST_STATUS_FLAG (d_status (init_dispr_msg_pool s)) DISPR_REQ_INIT"
    using assms by (simp add: stopped_ok_def init_msgs_fields [OF m] phl_defs)
  note r = init_reqs_fields [OF this]
  have "msgs_ok [] ?t" "owed ?t = {#}"
    by (rule fresh_msgs_ok; simp add: r set_d_flag_def init_msgs_fields [OF m])+
  moreover have "reqs_ok [] ?t"
    using assms by (intro fresh_reqs_ok) (simp_all add: r set_d_flag_def init_msgs_fields [OF m] stopped_ok_def)
  moreover have "acct {#} ?t"
    using assms calculation(2)
    by (simp add: acct_def stopped_ok_def settled_def) (simp add: r set_d_flag_def init_msgs_fields [OF m])
  ultimately have "dispr_ok [] [] {#} ?t" by (simp add: dispr_ok_def)
  then show ?thesis
    using assms mdl_ops_ok(3) [of "[]" "[]" "{#}" _ Ctrl]
    by (auto simp: dispr_start_def stopped_ok_def started_def init_dispr_mdl_mgnt_info_def start_dispr_controller_def
        Let_def split: prod.splits) (metis flag_ok(1,4) mdl_frame(6,7) snd_conv)+
qed

subsection \<open>Calls from outside the thread\<close>

text \<open>
  They keep the invariant and the flags of the life cycle, and while the dispatcher is not started
  they change neither messages nor requests nor what is owed.
\<close>

definition frozen :: "cmd_dispatcher \<Rightarrow> phl_dispr_msg_ex list \<times> nat phl_queue \<times> nat phl_queue \<times> nat phl_queue \<times>
    phl_cmd_token_req_ex list \<times> nat phl_queue \<times> nat phl_queue \<times> nat option \<times> int \<times> bool" where
  "frozen s = (msg_ex_pool s, msg_idle_q s, msg_wait_q s, msg_pend_q s, token_req_ex_pool s, token_req_idle_q s,
     token_req_wait_q s, cur_cmd_req s, token_cnt s, settled s)"

definition outside :: "cmd_dispatcher \<Rightarrow> cmd_dispatcher \<Rightarrow> bool" where
  "outside s t \<longleftrightarrow> (\<forall>H P D. dispr_ok H P D s \<longrightarrow> dispr_ok H P D t) \<and> low t = low s \<and>
     (\<not> started s \<longrightarrow> frozen t = frozen s)"

lemma outside_refl [simp]: "outside s s"
  by (simp add: outside_def)

lemma outside_trans [trans]: "outside s t \<Longrightarrow> outside t u \<Longrightarrow> outside s u"
  using low_started [of t s] by (simp add: outside_def)

lemma outside_fold: "(\<And>a s. outside s (f a s)) \<Longrightarrow> outside s (fold f as s)"
  by (induction as arbitrary: s) (simp, metis fold_simps(2) outside_trans)

lemma core_frozen: "core t = core s \<Longrightarrow> frozen t = frozen s"
  by (simp add: core_def frozen_def settled_def)

lemma frozen_frame [simp]:
  "frozen (set_d_flag f s) = frozen s" "frozen (clear_d_flag f s) = frozen s" "frozen (set_fault b s) = frozen s"
  "frozen (s\<lparr>mdls := md\<rparr>) = frozen s" "frozen (s\<lparr>module_q := mq\<rparr>) = frozen s" "frozen (s\<lparr>controller := ct\<rparr>) = frozen s"
  "frozen (s\<lparr>d_bitmap := bm\<rparr>) = frozen s" "frozen (s\<lparr>d_basemap := bm\<rparr>) = frozen s" "frozen (s\<lparr>cbs := cs\<rparr>) = frozen s"
  by (rule core_frozen; simp)+

lemma frozen_prims [simp]: "frozen (emit (Ev_Ops r x) s) = frozen s"
  by (simp add: frozen_def emit_def settled_def)

lemma outside_frame [simp]:
  "outside s (set_fault b s)" "outside s (s\<lparr>mdls := md\<rparr>)" "outside s (s\<lparr>module_q := mq\<rparr>)"
  "outside s (s\<lparr>controller := ct\<rparr>)" "outside s (s\<lparr>d_bitmap := bm\<rparr>)" "outside s (s\<lparr>d_basemap := bm\<rparr>)"
  "outside s (s\<lparr>cbs := cs\<rparr>)"
  "f AND 0x1F = 0 \<Longrightarrow> outside s (set_d_flag f s)" "f AND 0x1F = 0 \<Longrightarrow> outside s (clear_d_flag f s)"
  by (simp_all add: outside_def)

lemma outside_api: "outside s (api_step a s)"
  by (simp add: outside_def api_ok core_frozen [OF core_api])

lemma outside_ops: "outside s (snd (run_cb (Ev_Ops r) s))"
proof -
  have "frozen (snd (run_cb (Ev_Ops r) s)) = frozen s" if "\<not> started s"
    using core_frozen [OF core_run_cb [OF that]] by simp
  then show ?thesis by (simp add: outside_def snd_cb_ok)
qed

lemma outside_opsD: "run_cb (Ev_Ops r) s = (x, t) \<Longrightarrow> outside s t"
  using outside_ops [of s r] by simp

lemma outside_op: "outside s (snd (push_back_token_op_info Renew_info ty dat s))"
proof -
  have "core (snd (push_back_token_op_info Renew_info ty dat s)) = core s"
    by (simp add: push_back_token_op_info_def core_def prim_defs Let_def)
  from core_frozen [OF this] show ?thesis by (simp add: outside_def)
qed

lemma outside_band:
  "outside s (dispr_clearance_acquire s)" "outside s (dispr_clearance_release s)" "outside s (dispr_exclusive_ready b s)"
proof -
  show "outside s (dispr_clearance_acquire s)" by (simp add: dispr_clearance_acquire_def DISPR_CLEARANCE_def)
  have "outside s (clear_d_flag DISPR_CLEARANCE s)" by (simp add: DISPR_CLEARANCE_def)
  then show "outside s (dispr_clearance_release s)"
    unfolding dispr_clearance_release_def dispr_enqueue_token_op_info_def by (rule outside_trans) (rule outside_op)
  have "outside s (set_d_flag DISPR_EXCLUSIVE_USE s)" by (simp add: DISPR_EXCLUSIVE_USE_def)
  then show "outside s (dispr_exclusive_ready b s)"
    using outside_trans [OF _ outside_op]
    by (simp add: dispr_exclusive_ready_def dispr_enqueue_token_op_info_def Let_def)
qed

lemma outside_mdl_flag: "outside s (mdl_flag r f s)"
proof -
  have "outside t (upd_mdl r g t)" for g t by (cases r) simp_all
  then show ?thesis unfolding mdl_flag_def by (rule outside_trans [rotated]) simp
qed

lemma outside_mdl:
  "outside s (snd (bk_module_init r s))" "outside s (bk_module_deinit r s)"
  "outside s (snd (bk_module_start r s))" "outside s (snd (bk_module_stop r s))"
proof -
  note tr = outside_trans [OF outside_opsD outside_mdl_flag]
  show "outside s (snd (bk_module_init r s))" "outside s (snd (bk_module_start r s))"
    by (auto simp: bk_module_init_def bk_module_start_def intro: tr outside_opsD split: prod.splits)
  show "outside s (bk_module_deinit r s)"
    using outside_trans [OF outside_ops outside_mdl_flag] outside_mdl_flag by (simp add: bk_module_deinit_def)
  show "outside s (snd (bk_module_stop r s))"
    using outside_trans [OF outside_mdl_flag outside_opsD] by (auto simp: bk_module_stop_def split: prod.splits)
qed

lemma outside_bits: "outside s (add_mdl_bits m b s)" "outside s (clr_mdl_bits m s)" "outside s (free_mdl a s)"
  using outside_trans [OF outside_frame(5) outside_frame(6)]
  by (simp_all add: add_mdl_bits_def clr_mdl_bits_def free_mdl_def)

lemma outside_register: "outside s (snd (dispr_register_module al m ops_ok s))"
proof -
  have "outside s (snd (dispr_register_module (Some a) m ops_ok s))" for a
  proof -
    let ?p = "get_mdl_priority m"
    let ?s1 = "s\<lparr>mdls := (mdls s)(a \<mapsto> \<lparr>mdl_status = 0, mdl_id = m\<rparr>),
      module_q := (module_q s)(?p := pq_push (module_q s ?p) a Tail)\<rparr>"
    obtain ok s2 where i: "bk_module_init (Bk a) ?s1 = (ok, s2)" by fastforce
    obtain b t where st: "bk_module_start (Bk a) s2 = (b, t)" by fastforce
    have "outside s ?s1" using outside_trans [OF outside_frame(2) outside_frame(3)] .
    then have s2: "outside s s2" using outside_trans outside_mdl(1) [of ?s1 "Bk a"] i by simp
    then have t: "outside s t" using outside_trans outside_mdl(3) [of s2 "Bk a"] st by simp
    have free: "outside u (free_mdl a (bk_module_deinit (Bk a) u))" for u
      by (rule outside_trans [OF outside_mdl(2) outside_bits(3)])
    have "outside s (add_mdl_bits m (?p \<noteq> 1) t)" using t outside_bits(1) by (rule outside_trans)
    then show ?thesis
      using i st s2 t outside_trans [OF s2 free] outside_trans [OF t free]
      by (auto simp: dispr_register_module_def Let_def)
  qed
  then show ?thesis by (cases al) (simp_all add: dispr_register_module_def Let_def)
qed

lemma outside_deregister: "outside s (snd (dispr_deregister_module m s))"
proof -
  have "outside s (free_mdl a (bk_module_deinit (Bk a) (snd (bk_module_stop (Bk a)
      (clr_mdl_bits m ((set_fault f s)\<lparr>module_q := mq\<rparr>))))))" for a f mq
    by (rule outside_trans [OF outside_trans [OF outside_trans [OF outside_trans
      [OF outside_trans [OF outside_frame(1) outside_frame(3)] outside_bits(2)] outside_mdl(4)] outside_mdl(2)]
      outside_bits(3)])
  then show ?thesis by (auto simp: dispr_deregister_module_def Let_def split: prod.splits option.splits)
qed

lemma outside_if: "outside s t \<Longrightarrow> outside s (snd (if b then (x, s) else (y, t)))"
  by simp

lemma outside_all: "(\<And>p a s. outside s (g p a s)) \<Longrightarrow> outside s (fold (\<lambda>p s. fold (g p) (l p s) s) ps s)"
  by (intro outside_fold)

lemma outside_modules:
  "outside s (snd (dispr_module_init s))" "outside s (snd (dispr_module_deinit s))"
  "outside s (snd (dispr_module_start s))" "outside s (snd (dispr_module_stop s))"
proof -
  have bits: "outside t (if b then add_mdl_bits m c t else t)" for b m c t using outside_bits by simp
  have start: "outside s (case bk_module_start (Bk a) (set_fault f s) of (b, t) \<Rightarrow> if b then add_mdl_bits (mdl_id_at t a) c t else t)"
    for a f c s
    using outside_trans [OF outside_trans [OF outside_frame(1) outside_mdl(3)] bits] by (auto split: prod.splits) (metis snd_conv)+
  show "outside s (snd (dispr_module_init s))"
    unfolding dispr_module_init_def
    by (rule outside_if, rule outside_all, rule outside_trans [OF outside_frame(1) outside_mdl(1)])
  show "outside s (snd (dispr_module_deinit s))"
    unfolding dispr_module_deinit_def
    by (rule outside_if, rule outside_all, rule outside_trans [OF outside_trans [OF outside_trans [OF outside_frame(3)
      outside_frame(1)] outside_mdl(2)] outside_bits(3)])
  show "outside s (snd (dispr_module_start s))"
    unfolding dispr_module_start_def by (rule outside_if, rule outside_all, rule start)
  show "outside s (snd (dispr_module_stop s))"
    unfolding dispr_module_stop_def
    by (rule outside_if, rule outside_all,
      rule outside_trans [OF outside_trans [OF outside_frame(1) outside_bits(2)] outside_mdl(4)])
qed

subsection \<open>Stopping\<close>

lemma cancel_all_ok: "dispr_ok H P D s \<Longrightarrow> dispr_ok H P D (cancel_all_cmd_req s) \<and> low (cancel_all_cmd_req s) = low s"
proof -
  have "dispr_ok H P D t \<Longrightarrow> dispr_ok H P D (fold (\<lambda>i s. if req_status (get_req s i) \<noteq> 0
      then upd_req i (set_req_flag REQ_STATUS_CANCEL) s else s) is t) \<and>
    low (fold (\<lambda>i s. if req_status (get_req s i) \<noteq> 0
      then upd_req i (set_req_flag REQ_STATUS_CANCEL) s else s) is t) = low t" for "is" t
    by (induction "is" arbitrary: t) (simp_all add: like_ok phl_defs)
  then show "dispr_ok H P D s \<Longrightarrow> ?thesis" by (simp add: cancel_all_cmd_req_def)
qed

lemma cancel_running_ok:
  "dispr_ok H P D s \<Longrightarrow> dispr_ok H P D (cancel_running_msg s) \<and> low (cancel_running_msg s) = low s"
proof -
  let ?f = "\<lambda>i s. if TEST_STATUS_FLAG (ex_status (get_ex s i)) MSG_STATUS_RUN then cancel_msg i s else s"
  have 1: "dispr_ok H P D (?f i t) \<and> low (?f i t) = low t" if "dispr_ok H P D t" for i t
    using that cancel_msg_ok flagged_not_idle [OF that, of i MSG_STATUS_RUN] by (simp add: phl_defs)
  have "dispr_ok H P D t \<Longrightarrow> dispr_ok H P D (fold ?f is t) \<and> low (fold ?f is t) = low t" for "is" t
  proof (induction "is" arbitrary: t)
    case (Cons i "is")
    then show ?case using 1 [of t i] Cons.IH [of "?f i t"] by simp
  qed simp
  then show "dispr_ok H P D s \<Longrightarrow> ?thesis" by (simp add: cancel_running_msg_def)
qed

lemma prior_ok:
  assumes "dispr_ok [] [] {#} s"
  shows "dispr_ok [] [] {#} (dispr_thread_stop_prior_hdl s)" "\<not> started (dispr_thread_stop_prior_hdl s)"
proof -
  let ?t = "clear_d_flag DISPR_CTRL_PRESENT (clear_d_flag DISPR_STARTED s)"
  let ?u = "snd (stop_dispr_controller (clear_d_flag DISPR_STARTED s))"
  have "outside ?t ?u"
    using outside_mdl(4) [of ?t Ctrl] by (auto simp: stop_dispr_controller_def split: prod.splits)
  then have u: "dispr_ok [] [] {#} ?u" "low ?u = low ?t" using assms by (simp_all add: outside_def)
  have "\<not> started ?t" by (simp add: started_def clear_d_flag_def phl_defs)
  moreover have l: "low (cancel_running_msg (cancel_all_cmd_req ?u)) = low ?t"
    using cancel_all_ok [OF u(1)] cancel_running_ok [of "[]" "[]" "{#}" "cancel_all_cmd_req ?u"] u(2) by simp
  ultimately show "\<not> started (dispr_thread_stop_prior_hdl s)"
    using low_started [OF l] by (simp add: dispr_thread_stop_prior_hdl_def started_def)
  show "dispr_ok [] [] {#} (dispr_thread_stop_prior_hdl s)"
    using assms cancel_running_ok [OF conjunct1 [OF cancel_all_ok [OF u(1)]]] by (simp add: dispr_thread_stop_prior_hdl_def)
qed

lemma quiet_settled:
  assumes "quiet s"
  shows "settled s" "\<And>i. i < MAX_PHL_MSG_NUM \<Longrightarrow> ex_status (get_ex s i) = 0"
proof -
  have ok: "msgs_ok [] s" "acct {#} s" and c: "cnt (msg_idle_q s) = int MAX_PHL_MSG_NUM"
    using assms by (simp_all add: quiet_def dispr_ok_def)
  have "size (mset (queue (msg_idle_q s)) + mset (queue (msg_wait_q s)) + mset (queue (msg_pend_q s))) = MAX_PHL_MSG_NUM"
    using ok(1) by (simp add: msgs_ok_def)
  then have e: "queue (msg_wait_q s) = []" "queue (msg_pend_q s) = []" using ok(1) c by (simp_all add: msgs_ok_def)
  then have "set (queue (msg_idle_q s)) = {0..<MAX_PHL_MSG_NUM}"
    using ok(1) mset_eq_setD [of "queue (msg_idle_q s)" "[0..<MAX_PHL_MSG_NUM]"] by (simp add: msgs_ok_def)
  then show z: "\<And>i. i < MAX_PHL_MSG_NUM \<Longrightarrow> ex_status (get_ex s i) = 0" using ok(1) by (simp add: msgs_ok_def)
  have "length (msg_ex_pool s) = MAX_PHL_MSG_NUM" using ok(1) by (simp add: msgs_ok_def)
  then have "\<forall>ex \<in> set (msg_ex_pool s). owes ex = {#}"
    using z by (auto simp: in_set_conv_nth owes_def phl_defs)
  moreover have "\<forall>ex \<in> set l. owes ex = {#} \<Longrightarrow> sum_list (map owes l) = {#}" for l by (induction l) simp_all
  ultimately have "sum_list (map owes (msg_ex_pool s)) = {#}" by blast
  then show "settled s" using ok(2) by (simp add: settled_def acct_def owed_def)
qed

lemma post_ok:
  assumes "quiet s" "\<not> started s"
  shows "stopped_ok (dispr_thread_stop_post_hdl s)"
proof -
  let ?t = "deinit_cmd_req_pool (deinit_dispr_msg_pool s)"
  have f: "TEST_STATUS_FLAG (x AND 0x7F) g = TEST_STATUS_FLAG x g" if "g AND 0x7F = g" for x g :: u16
    using that unfolding TEST_STATUS_FLAG_def by (simp add: and.assoc) (metis and.commute)
  have "\<not> TEST_STATUS_FLAG (d_status ?t) DISPR_MSGQ_INIT" "\<not> TEST_STATUS_FLAG (d_status ?t) DISPR_REQ_INIT"
    "\<not> TEST_STATUS_FLAG (d_status ?t) DISPR_STARTED"
    using assms(2) by (simp_all add: deinit_cmd_req_pool_def deinit_dispr_msg_pool_def clear_d_flag_def started_def phl_defs)
  moreover have "cur_cmd_req ?t = cur_cmd_req s" "dlog ?t = dlog s"
    by (simp_all add: deinit_cmd_req_pool_def deinit_dispr_msg_pool_def clear_d_flag_def)
  ultimately show ?thesis
    using quiet_settled(1) [OF assms(1)] assms(1)
    by (simp add: stopped_ok_def dispr_thread_stop_post_hdl_def dispr_clr_ctrl_state_def f started_def settled_def
        quiet_def phl_defs)
qed

subsection \<open>Runs\<close>

text \<open>
  \<open>Left\<close>: the thread has ended, the pools still exist. In \<open>Stopped\<close> there are no pools; a dispatcher
  that was just created is in it too.
\<close>

datatype dispr_phase = Running | Stopping | Left | Stopped

fun phase_ok :: "dispr_phase \<Rightarrow> cmd_dispatcher \<Rightarrow> bool" where
  "phase_ok Running s \<longleftrightarrow> dispr_ok [] [] {#} s"
| "phase_ok Stopping s \<longleftrightarrow> dispr_ok [] [] {#} s \<and> \<not> started s"
| "phase_ok Left s \<longleftrightarrow> quiet s \<and> \<not> started s"
| "phase_ok Stopped s \<longleftrightarrow> stopped_ok s"

text \<open>What every function that other threads call promises, and what follows for the phases.\<close>

locale outside_call =
  fixes f :: "cmd_dispatcher \<Rightarrow> cmd_dispatcher"
  assumes outside_f: "outside s (f s)"
begin

lemma low_f: "low (f s) = low s"
  using outside_f by (simp add: outside_def)

lemma keeps_ok: "dispr_ok H P D s \<Longrightarrow> dispr_ok H P D (f s)"
  using outside_f [of s] unfolding outside_def by blast

lemma keeps_stopped: "stopped_ok s \<Longrightarrow> stopped_ok (f s)"
proof -
  assume s: "stopped_ok s"
  then have "frozen (f s) = frozen s" using outside_f by (simp add: outside_def stopped_ok_def)
  then show ?thesis
    using s low_started [OF low_f] test_low [OF _ low_f, of DISPR_MSGQ_INIT] test_low [OF _ low_f, of DISPR_REQ_INIT]
    by (simp add: stopped_ok_def frozen_def phl_defs)
qed

lemma keeps_quiet: "quiet s \<Longrightarrow> \<not> started s \<Longrightarrow> quiet (f s)"
  using outside_f [of s] keeps_ok [of "[]" "[]" "{#}" s] by (simp add: quiet_def outside_def frozen_def)

lemma keeps_phase: "phase_ok ph s \<Longrightarrow> phase_ok ph (f s)"
  using low_started [OF low_f] keeps_ok keeps_stopped keeps_quiet by (cases ph) simp_all

end

interpretation api: outside_call "api_step a" for a
  by unfold_locales (rule outside_api)

interpretation acquire: outside_call dispr_clearance_acquire
  by unfold_locales (rule outside_band)

interpretation release: outside_call dispr_clearance_release
  by unfold_locales (rule outside_band)

interpretation ready: outside_call "dispr_exclusive_ready b" for b
  by unfold_locales (rule outside_band)

interpretation reg: outside_call "\<lambda>s. snd (dispr_register_module al m ops_ok s)" for al m ops_ok
  by unfold_locales (rule outside_register)

interpretation dereg: outside_call "\<lambda>s. snd (dispr_deregister_module m s)" for m
  by unfold_locales (rule outside_deregister)

interpretation mdl_init: outside_call "\<lambda>s. snd (dispr_module_init s)"
  by unfold_locales (rule outside_modules)

interpretation mdl_deinit: outside_call "\<lambda>s. snd (dispr_module_deinit s)"
  by unfold_locales (rule outside_modules)

interpretation mdl_start: outside_call "\<lambda>s. snd (dispr_module_start s)"
  by unfold_locales (rule outside_modules)

interpretation mdl_stop: outside_call "\<lambda>s. snd (dispr_module_stop s)"
  by unfold_locales (rule outside_modules)

text \<open>
  The reachable states. Other threads call at any time; the callbacks to come may change at any
  time; the thread is there from the start to its end.
\<close>

inductive dispr_run :: "dispr_phase \<Rightarrow> cmd_dispatcher \<Rightarrow> bool" where
  Init: "dispr_init True idx phys cs = (st, Some s) \<Longrightarrow> dispr_run Stopped s"
| Start: "dispr_run Stopped s \<Longrightarrow> dispr_run Running (snd (dispr_start s))"
| Loop: "dispr_run ph s \<Longrightarrow> ph = Running \<or> ph = Stopping \<Longrightarrow> dispr_run ph (dispr_thread_loop_hdl s)"
| Prior: "dispr_run Running s \<Longrightarrow> dispr_run Stopping (dispr_thread_stop_prior_hdl s)"
| Leave: "dispr_run Stopping s \<Longrightarrow> dispr_thread_leave_hdl s = Some s' \<Longrightarrow> dispr_run Left s'"
| Post: "dispr_run Left s \<Longrightarrow> dispr_run Stopped (dispr_thread_stop_post_hdl s)"
| Call: "dispr_run ph s \<Longrightarrow> dispr_run ph (api_step a s)"
| Acquire: "dispr_run ph s \<Longrightarrow> dispr_run ph (dispr_clearance_acquire s)"
| Release: "dispr_run ph s \<Longrightarrow> dispr_run ph (dispr_clearance_release s)"
| Ready: "dispr_run ph s \<Longrightarrow> dispr_run ph (dispr_exclusive_ready b s)"
| Register: "dispr_run ph s \<Longrightarrow> dispr_run ph (snd (dispr_register_module al m ops_ok s))"
| Deregister: "dispr_run ph s \<Longrightarrow> dispr_run ph (snd (dispr_deregister_module m s))"
| Mdl_init: "dispr_run ph s \<Longrightarrow> dispr_run ph (snd (dispr_module_init s))"
| Mdl_deinit: "dispr_run ph s \<Longrightarrow> dispr_run ph (snd (dispr_module_deinit s))"
| Mdl_start: "dispr_run ph s \<Longrightarrow> dispr_run ph (snd (dispr_module_start s))"
| Mdl_stop: "dispr_run ph s \<Longrightarrow> dispr_run ph (snd (dispr_module_stop s))"
| Callbacks: "dispr_run ph s \<Longrightarrow> dispr_run ph (s\<lparr>cbs := cs\<rparr>)"

interpretation new_cbs: outside_call "\<lambda>s. s\<lparr>cbs := cs\<rparr>" for cs
  by unfold_locales simp

lemma init_stopped: "dispr_init True idx phys cs = (st, Some s) \<Longrightarrow> stopped_ok s"
proof -
  assume i: "dispr_init True idx phys cs = (st, Some s)"
  let ?z = "upd_mdl Ctrl (\<lambda>x. x\<lparr>mdl_id := PHL_MDL_PHY_MGNT\<rparr>) (set_d_flag DISPR_INIT (dispr_zero idx phys cs))"
  have "stopped_ok ?z"
    by (simp add: stopped_ok_def settled_def started_def dispr_zero_def set_d_flag_def SET_STATUS_FLAG_def
        TEST_STATUS_FLAG_def phl_defs)
  moreover have "s = snd (bk_module_init Ctrl ?z)"
    using i by (auto simp: dispr_init_def register_dispr_controller_def split: prod.splits)
  moreover have "outside_call (\<lambda>s. snd (bk_module_init Ctrl s))" by unfold_locales (rule outside_mdl)
  ultimately show ?thesis using outside_call.keeps_stopped by blast
qed

lemma loop_stopped: "\<not> started s \<Longrightarrow> dispr_thread_loop_hdl s = s"
  by (simp add: dispr_thread_loop_hdl_def started_def)

lemma dispr_run_ok: "dispr_run ph s \<Longrightarrow> phase_ok ph s"
proof (induction rule: dispr_run.induct)
  case (Init idx phys cs st s)
  then show ?case by (simp add: init_stopped)
next
  case (Start s)
  then show ?case by (simp add: start_ok)
next
  case (Loop ph s)
  then show ?case by (auto simp: thread_loop_ok loop_stopped)
next
  case (Prior s)
  then show ?case by (simp add: prior_ok)
next
  case (Leave s s')
  then show ?case using leave_returns [of s] low_started [of s' s] by auto
next
  case (Post s)
  then show ?case by (simp add: post_ok)
qed (simp_all add: api.keeps_phase acquire.keeps_phase release.keeps_phase ready.keeps_phase reg.keeps_phase
      dereg.keeps_phase mdl_init.keeps_phase mdl_deinit.keeps_phase mdl_start.keeps_phase mdl_stop.keeps_phase
      new_cbs.keeps_phase)

end
