(* ===== verification/Phl_Dispr_Props.thy ===== *)
theory Phl_Dispr_Props
  imports Phl_Dispr_Life
begin

section \<open>What the dispatcher guarantees\<close>

text \<open>
  The properties of the dispatcher over all its runs, and two consequences of its code on error paths.
  The witnesses start from a dispatcher of one band that was created and started.
\<close>

subsection \<open>Structures, token and completions\<close>

definition dispr0 :: cmd_dispatcher where
  "dispr0 = snd (dispr_start (the (snd (dispr_init True 0 1 []))))"

definition attr1 :: phl_msg_attribute where
  "attr1 = attr0\<lparr>attr_completion := \<lparr>c_priv = 7, c_fun = Some 3\<rparr>\<rparr>"

lemma dispr0_run: "dispr_run Running dispr0"
proof -
  have "dispr_init True 0 1 [] = (RTW_PHL_STATUS_SUCCESS, Some (the (snd (dispr_init True 0 1 []))))"
    by (simp add: dispr_init_def)
  then show ?thesis unfolding dispr0_def by (rule dispr_run.Start [OF dispr_run.Init])
qed

definition dispr1 :: cmd_dispatcher where
  "dispr1 = api_step (Send (mk_msg PHL_MDL_PHY_MGNT 9) (Some attr1)) dispr0"

definition dispr2 :: cmd_dispatcher where
  "dispr2 = dispr_thread_loop_hdl (api_step (Add_req (Some req0)) dispr1)"

lemma dispr1_run: "dispr_run Running dispr1"
  unfolding dispr1_def by (rule dispr_run.Call [OF dispr0_run])

lemma dispr2_run: "dispr_run Running dispr2"
  unfolding dispr2_def by (rule dispr_run.Loop [OF dispr_run.Call [OF dispr1_run]]) simp

text \<open>
  C2. Over any run of a dispatcher (created, started, stopped and started again, with calls of other threads,
  modules that come and go, and handlers and completion routines that return and call what they like),
  while its pools exist every message structure is in exactly one of the idle, wait and pending queues
  and the counters count; and the completion routines that the callers of all accepted sends asked for are those that have
  been called together with those that messages in the queues still owe, each as often as it was
  asked for. While the dispatcher is stopped nothing is owed.
\<close>

theorem dispr_messages_accounted:
  assumes "dispr_run ph s"
  shows "(ph \<noteq> Stopped \<longrightarrow>
      mset (queue (msg_idle_q s)) + mset (queue (msg_wait_q s)) + mset (queue (msg_pend_q s)) =
        mset [0..<MAX_PHL_MSG_NUM] \<and>
      cnt (msg_idle_q s) = int (length (queue (msg_idle_q s))) \<and>
      cnt (msg_wait_q s) = int (length (queue (msg_wait_q s))) \<and>
      cnt (msg_pend_q s) = int (length (queue (msg_pend_q s)))) \<and>
    sum_list (map ev_sent (dlog s)) =
      sum_list (map ev_done (dlog s)) + (if ph = Stopped then {#} else owed s)"
  using dispr_run_ok [OF assms]
  by (cases ph) (simp_all add: dispr_ok_def msgs_ok_def acct_def quiet_def stopped_ok_def settled_def)

theorem dispr_messages_accounted_witness:
  "mset (queue (msg_idle_q dispr1)) + mset (queue (msg_wait_q dispr1)) + mset (queue (msg_pend_q dispr1)) = mset [0..<24] \<and>
   sum_list (map ev_sent (dlog dispr1)) = sum_list (map ev_done (dlog dispr1)) + owed dispr1"
  using dispr_messages_accounted [OF dispr1_run] by (simp add: MAX_PHL_MSG_NUM_def)

text \<open>
  C5. Over any run there is one token: while the pools exist every request is in exactly one place, idle, waiting
  or the current command; the token counter is 1 exactly while there is a current command; a request
  that is marked as running is the current one, and those marked as queued are those in the wait
  queue.
\<close>

theorem dispr_one_token:
  assumes "dispr_run ph s" "ph \<noteq> Stopped"
  shows "mset (queue (token_req_idle_q s)) + mset (queue (token_req_wait_q s)) +
      mset (case cur_cmd_req s of None \<Rightarrow> [] | Some r \<Rightarrow> [r]) = mset [0..<MAX_CMD_REQ_NUM] \<and>
    token_cnt s = (if cur_cmd_req s = None then 0 else 1) \<and>
    (\<forall>r < MAX_CMD_REQ_NUM.
       (TEST_STATUS_FLAG (req_status (get_req s r)) REQ_STATUS_RUN \<longrightarrow> cur_cmd_req s = Some r) \<and>
       (TEST_STATUS_FLAG (req_status (get_req s r)) REQ_STATUS_ENQ \<longleftrightarrow> r \<in> set (queue (token_req_wait_q s))))"
proof -
  have "dispr_ok [] [] {#} s" using dispr_run_ok [OF assms(1)] assms(2) by (cases ph) (simp_all add: quiet_def)
  then have ok: "reqs_ok [] s" by (simp add: dispr_ok_def)
  then show ?thesis unfolding reqs_ok_def by auto
qed

theorem dispr_one_token_witness: "token_cnt dispr2 = (if cur_cmd_req dispr2 = None then 0 else 1)"
  using dispr_one_token [OF dispr2_run] by simp

text \<open>
  C6. Stopping ends: once the prior handler of a stop has run, whatever messages wait or are pending, whatever
  requests wait and whatever the abort handlers and completion routines do, the leave handler of the
  thread returns; then all 24 messages and all 8 requests are idle, no command holds the token, and
  exactly the completion routines that the callers of accepted sends asked for have been called.
\<close>

theorem dispr_thread_leaves:
  assumes "dispr_run Stopping s"
  shows "\<exists>s'. dispr_thread_leave_hdl s = Some s' \<and> cnt (msg_idle_q s') = int MAX_PHL_MSG_NUM \<and>
    cnt (token_req_idle_q s') = int MAX_CMD_REQ_NUM \<and> cur_cmd_req s' = None \<and>
    sum_list (map ev_sent (dlog s')) = sum_list (map ev_done (dlog s'))"
proof -
  have "dispr_ok [] [] {#} s" "\<not> started s" using dispr_run_ok [OF assms] by simp_all
  from leave_returns [OF this] show ?thesis
    using quiet_settled(1) by (auto simp: quiet_def settled_def)
qed

theorem dispr_thread_leaves_witness:
  "\<exists>s'. dispr_thread_leave_hdl (dispr_thread_stop_prior_hdl dispr1) = Some s' \<and> cnt (msg_idle_q s') = 24"
  using dispr_thread_leaves [OF dispr_run.Prior [OF dispr1_run]] by (auto simp: MAX_PHL_MSG_NUM_def)

subsection \<open>Error paths\<close>

lemma start_controller:
  "shall_stop s \<Longrightarrow> shall_stop (snd (start_dispr_controller s))"
  "started s \<Longrightarrow> started (snd (start_dispr_controller s))"
proof -
  let ?u = "snd (bk_module_start Ctrl s)"
  have u: "snd (start_dispr_controller s) = ?u \<or> snd (start_dispr_controller s) = set_d_flag DISPR_CTRL_PRESENT ?u"
    by (auto simp: start_dispr_controller_def split: prod.splits)
  have f: "shall_stop (set_d_flag DISPR_CTRL_PRESENT x) = shall_stop x"
    "started (set_d_flag DISPR_CTRL_PRESENT x) = started x" for x
    by (simp_all add: shall_stop_def started_def set_d_flag_def phl_defs)
  have "shall_stop (mdl_flag Ctrl g x) = shall_stop x" for g x
    by (simp add: mdl_flag_def shall_stop_def set_fault_def)
  then have "shall_stop s \<Longrightarrow> shall_stop ?u"
    using shall_stop_run_cb [of s "Ev_Ops Ctrl"] by (auto simp: bk_module_start_def split: prod.splits)
  then show "shall_stop s \<Longrightarrow> shall_stop (snd (start_dispr_controller s))" using u f by auto
  have "low ?u = low s" using outside_mdl(3) [of s Ctrl] by (simp add: outside_def)
  from low_started [OF this] have "started ?u = started s" .
  then show "started s \<Longrightarrow> started (snd (start_dispr_controller s))" using u f by auto
qed

text \<open>
  C37. The announcement of a stop outlives it: \<^verbatim>\<open>dispr_clr_ctrl_state\<close> clears the flags above bit 6 only, so a
  dispatcher that was told that it shall stop, was stopped and is started again is started, but
  refuses every message and every request.
\<close>

theorem shall_stop_survives_restart:
  assumes "dispr_run Left s" "TEST_STATUS_FLAG (d_status s) DISPR_SHALL_STOP"
  shows "is_dispr_started (snd (dispr_start (dispr_thread_stop_post_hdl s))) \<and>
    fst (dispr_send_msg msg attr (snd (dispr_start (dispr_thread_stop_post_hdl s)))) = RTW_PHL_STATUS_UNEXPECTED_ERROR \<and>
    fst (dispr_add_token_req ro (snd (dispr_start (dispr_thread_stop_post_hdl s)))) = RTW_PHL_STATUS_UNEXPECTED_ERROR"
proof -
  let ?p = "dispr_thread_stop_post_hdl s"
  let ?t = "snd (dispr_start ?p)"
  have st: "stopped_ok ?p" using dispr_run_ok [OF assms(1)] by (simp add: post_ok)
  let ?q = "init_cmd_req_pool (init_dispr_msg_pool ?p)"
  let ?r = "set_d_flag DISPR_NOTIFY_IDLE (set_d_flag DISPR_STARTED
    ((init_dispr_mdl_mgnt_info ?q)\<lparr>renew_req_info := op_info0, exclusive_mdl := PHL_MDL_ID_MAX\<rparr>))"
  have m: "\<not> TEST_STATUS_FLAG (d_status ?p) DISPR_MSGQ_INIT" using st by (simp add: stopped_ok_def)
  have "\<not> TEST_STATUS_FLAG (d_status (init_dispr_msg_pool ?p)) DISPR_REQ_INIT"
    using st by (simp add: stopped_ok_def init_msgs_fields [OF m] phl_defs)
  note r = init_reqs_fields [OF this]
  have "TEST_STATUS_FLAG (d_status (deinit_cmd_req_pool (deinit_dispr_msg_pool s))) DISPR_SHALL_STOP"
    using assms(2) by (simp add: deinit_cmd_req_pool_def deinit_dispr_msg_pool_def clear_d_flag_def phl_defs)
  then have "shall_stop ?p"
    by (simp add: shall_stop_masked dispr_thread_stop_post_hdl_def dispr_clr_ctrl_state_def masked_def and.assoc
        TEST_STATUS_FLAG_def DISPR_SHALL_STOP_def)
  then have "shall_stop ?r" "started ?r"
    by (simp_all add: shall_stop_def started_def r set_d_flag_def init_msgs_fields [OF m] init_dispr_mdl_mgnt_info_def phl_defs)
  moreover have "?t = snd (start_dispr_controller ?r)"
    using st by (simp add: dispr_start_def stopped_ok_def started_def Let_def)
  ultimately have "shall_stop ?t" "started ?t" using start_controller by simp_all
  then show ?thesis
    by (simp add: is_dispr_started_def dispr_send_msg_def dispr_add_token_req_def shall_stop_def started_def Let_def
        split: prod.splits)
qed

definition dispr3 :: cmd_dispatcher where
  "dispr3 = api_step Shall_stop (the (dispr_thread_leave_hdl (dispr_thread_stop_prior_hdl dispr0)))"

lemma dispr3_run: "dispr_run Left dispr3" "TEST_STATUS_FLAG (d_status dispr3) DISPR_SHALL_STOP"
proof -
  have p: "dispr_run Stopping (dispr_thread_stop_prior_hdl dispr0)" by (rule dispr_run.Prior [OF dispr0_run])
  then have "dispr_thread_leave_hdl (dispr_thread_stop_prior_hdl dispr0) =
      Some (the (dispr_thread_leave_hdl (dispr_thread_stop_prior_hdl dispr0)))"
    using dispr_run_ok [OF p] leave_returns by fastforce
  from dispr_run.Leave [OF p this] show "dispr_run Left dispr3"
    unfolding dispr3_def by (rule dispr_run.Call)
  have "TEST_STATUS_FLAG (d_status (api_step Shall_stop s)) DISPR_SHALL_STOP" for s
    by (simp add: dispr_notify_shall_stop_def dispr_clr_pending_msg_def notify_dispr_thread_def set_d_flag_def phl_defs)
  then show "TEST_STATUS_FLAG (d_status dispr3) DISPR_SHALL_STOP" by (simp add: dispr3_def del: api_step.simps)
qed

theorem shall_stop_survives_restart_witness:
  "is_dispr_started (snd (dispr_start (dispr_thread_stop_post_hdl dispr3))) \<and>
    fst (dispr_send_msg (mk_msg PHL_MDL_PHY_MGNT 9) None (snd (dispr_start (dispr_thread_stop_post_hdl dispr3)))) =
      RTW_PHL_STATUS_UNEXPECTED_ERROR"
  using shall_stop_survives_restart [OF dispr3_run] by blast

text \<open>
  C38. A module whose \<^verbatim>\<open>init\<close> fails is freed, but stays linked: after the failed registration, with no other
  module there, its address is in the queue of its priority, its memory is gone, and the next message that
  reaches the pre-phase reads it.
\<close>

theorem register_failure_dangles:
  assumes "TEST_STATUS_FLAG (d_status s) DISPR_INIT" "get_mdl_priority m \<noteq> 3"
    "\<not> chk_bitmap_bit MODL_MASK_LEN (d_bitmap s) m" "\<forall>p. module_q s p = pq_init"
    "cbs s = \<lparr>cb_ret = ret, cb_calls = []\<rparr> # cs" "ret \<noteq> MDL_RET_SUCCESS"
  shows "fst (dispr_register_module (Some a) m True s) = RTW_PHL_STATUS_FAILURE \<and>
    a \<in> set (queue (module_q (snd (dispr_register_module (Some a) m True s)) (get_mdl_priority m))) \<and>
    mdls (snd (dispr_register_module (Some a) m True s)) a = None \<and>
    fault (msg_pre_phase_hdl i (snd (dispr_register_module (Some a) m True s)))"
proof -
  let ?p = "get_mdl_priority m"
  let ?t = "snd (dispr_register_module (Some a) m True s)"
  have t: "fst (dispr_register_module (Some a) m True s) = RTW_PHL_STATUS_FAILURE"
    "module_q ?t = (module_q s)(?p := pq_push pq_init a Tail)" "mdls ?t a = None"
    using assms
    by (simp_all add: dispr_register_module_def bk_module_init_def mdl_stat_def run_cb_def bk_module_deinit_def
        mdl_flag_def free_mdl_def emit_def set_fault_def phl_defs Let_def)
  define u where "u = ?t"
  have u: "mdls u a = None" "module_q u = (module_q s)(?p := pq_push pq_init a Tail)" unfolding u_def by (rule t)+
  have w: "Phl_Dispr.walk (module_q u q) = (if q = ?p then [a] else [])" for q
    using assms(4) by (simp add: u Phl_Dispr.walk_def pq_push_def pq_init_def)
  have f: "module_q (set_fault b u) = module_q u" "fault (set_fault True u)" for b by (simp_all add: set_fault_def)
  have "?p = 0 \<or> ?p = 1 \<or> ?p = 2" using assms(2) by (auto simp: get_mdl_priority_def split: if_splits)
  then have "fault (msg_pre_phase_hdl i u)" using u(1) by (auto simp: msg_pre_phase_hdl_def w f)
  then show ?thesis using t by (simp add: u_def pq_push_def)
qed

theorem register_failure_dangles_witness:
  "fst (dispr_register_module (Some 5) 20 True
      (set_d_flag DISPR_INIT (dispr_zero 0 1 [\<lparr>cb_ret = MDL_RET_FAIL, cb_calls = []\<rparr>]))) = RTW_PHL_STATUS_FAILURE \<and>
   fault (msg_pre_phase_hdl 0 (snd (dispr_register_module (Some 5) 20 True
      (set_d_flag DISPR_INIT (dispr_zero 0 1 [\<lparr>cb_ret = MDL_RET_FAIL, cb_calls = []\<rparr>])))))"
proof -
  let ?s = "set_d_flag DISPR_INIT (dispr_zero 0 1 [\<lparr>cb_ret = MDL_RET_FAIL, cb_calls = []\<rparr>])"
  have 1: "TEST_STATUS_FLAG (d_status ?s) DISPR_INIT" "\<forall>p. module_q ?s p = pq_init"
    "cbs ?s = \<lparr>cb_ret = MDL_RET_FAIL, cb_calls = []\<rparr> # []"
    by (simp_all add: set_d_flag_def dispr_zero_def)
  have 2: "get_mdl_priority 20 \<noteq> 3" by code_simp
  have 3: "\<not> chk_bitmap_bit MODL_MASK_LEN (d_bitmap ?s) 20"
    by (simp add: set_d_flag_def dispr_zero_def) code_simp
  show ?thesis using register_failure_dangles [OF 1(1) 2 3 1(2,3)] by simp
qed

end
