(* ===== verification/Phl_Dispr_Order.thy ===== *)
theory Phl_Dispr_Order
  imports Phl_Dispr_Props "HOL-Library.Sublist"
begin

section \<open>The order of a dispatch\<close>

text \<open>
  Which modules a message reaches, and in which order: in the pre-phase by falling priority and in the
  order of registration, in the post-phase exactly the other way round.
\<close>

subsection \<open>Feeds\<close>

text \<open>A feed is a call of the message handler of a module, with the phase the message shows.\<close>

definition in_pre :: "phl_msg \<Rightarrow> bool" where
  "in_pre msg \<longleftrightarrow> MSG_INDC_FIELD (msg_id msg) AND MSG_INDC_PRE_PHASE \<noteq> 0"

fun ev_feed :: "dispr_event \<Rightarrow> (mdl_ref \<times> bool) list" where
  "ev_feed (Ev_Mdl r msg ret) = [(r, in_pre msg)]"
| "ev_feed _ = []"

definition feeds :: "cmd_dispatcher \<Rightarrow> (mdl_ref \<times> bool) list" where
  "feeds s = concat (map ev_feed (dlog s))"

definition fed :: "cmd_dispatcher \<Rightarrow> (mdl_ref \<times> bool) list \<times> (nat \<Rightarrow> nat phl_queue)" where
  "fed s = (feeds s, module_q s)"

interpretation fe: untouched_api fed
  by unfold_locales (simp_all add: fed_def feeds_def prim_defs)

interpretation fe: untouched_pend fed
  by unfold_locales (simp add: fed_def feeds_def)

lemma fed_emit: "ev_feed e = [] \<Longrightarrow> fed (emit e s) = fed s"
  by (simp add: fed_def feeds_def emit_def)

lemma fed_fields [simp]:
  "fed (s\<lparr>cbs := cs\<rparr>) = fed s" "fed (s\<lparr>cur_cmd_req := c\<rparr>) = fed s" "fed (s\<lparr>token_cnt := n\<rparr>) = fed s"
  by (simp_all add: fed_def feeds_def)

lemma fed_cb: "(\<And>x. ev_feed (ev x) = []) \<Longrightarrow> fed (snd (run_cb ev s)) = fed s"
  by (auto simp: run_cb_def fed_emit split: list.splits)

lemma fed_push_idle [simp]: "fed (push_back_idle_msg i s) = fed s"
  by (simp add: push_back_idle_msg_def run_completion_def fed_cb Let_def)

lemma fed_deregister [simp]: "fed (deregister_cur_cmd_req notify s) = fed s"
  by (simp add: deregister_cur_cmd_req_def fed_cb Let_def split: option.split)

lemma fed_register: "register_cur_cmd_req r s = (ok, s') \<Longrightarrow> fed s' = fed s"
  using fed_cb [of "Ev_Acquired r"] unfolding register_cur_cmd_req_def Let_def
  by (auto split: prod.splits if_splits) (metis fe.prims(2) fed_fields(2,3) snd_conv)+

lemma fed_next_req: "next_req s = (ro, s1) \<Longrightarrow> fed s1 = fed s"
  by (auto simp: next_req_def send_bk_msg_phy_on_def send_bk_msg_phy_idle_def
      dest!: fe.pops(4) split: prod.splits option.splits if_splits)

lemma fed_process [simp]: "fed (snd (dispr_process_token_req s)) = fed s"
  by (rule process_keeps [where P = "\<lambda>t. fed t = fed s"]) (auto dest!: fed_next_req fed_register)

lemma fed_handle_op [simp]: "fed (handle_token_op_info n s) = fed s"
  by (simp add: handle_token_op_info_def fed_cb Let_def split: token_op_type.split)

lemma fed_token_op_loop [simp]: "fed (token_op_loop s) = fed s"
proof (induction s rule: token_op_loop.induct)
  case (1 s)
  obtain no s1 where p: "pop_front_token_op_info s = (no, s1)" by fastforce
  then have "fed s1 = fed s" by (auto simp: pop_front_token_op_info_def split: prod.splits)
  then show ?case using 1 p by (subst token_op_loop.simps) (cases no, simp_all)
qed

lemma fed_token_op_hanler [simp]: "fed (token_op_hanler s) = fed s"
  by (simp add: token_op_hanler_def)

subsection \<open>The phase of a message\<close>

text \<open>While the thread works on a message only the thread changes the phase it shows.\<close>

abbreviation shows_pre :: "cmd_dispatcher \<Rightarrow> nat \<Rightarrow> bool" where
  "shows_pre s i \<equiv> in_pre (ex_msg (get_ex s i))"

lemma pre_indc [simp]:
  "k AND 1 = 0 \<Longrightarrow> in_pre (ex_msg (set_indc k ex)) = in_pre (ex_msg ex)"
  "in_pre (ex_msg (set_indc MSG_INDC_PRE_PHASE ex))" "\<not> in_pre (ex_msg (clear_indc MSG_INDC_PRE_PHASE ex))"
proof -
  show "in_pre (ex_msg (set_indc k ex)) = in_pre (ex_msg ex)" if "k AND 1 = 0"
    using that by (simp add: in_pre_def set_indc_def indc_field_set MSG_INDC_PRE_PHASE_def bit.conj_disj_distrib2)
  show "in_pre (ex_msg (set_indc MSG_INDC_PRE_PHASE ex))" "\<not> in_pre (ex_msg (clear_indc MSG_INDC_PRE_PHASE ex))"
    by (simp_all add: in_pre_def set_indc_def clear_indc_def indc_field_set indc_field_clear MSG_INDC_PRE_PHASE_def
        bit.conj_disj_distrib2 and.assoc)
qed

lemma pre_other [simp]:
  "ex_msg (set_ex_flag f ex) = ex_msg ex" "ex_msg (clear_ex_flag f ex) = ex_msg ex" "ex_msg (clr_own_bit m ex) = ex_msg ex"
  "in_pre (msg\<lparr>rsvd := x\<rparr>) = in_pre msg"
  by (simp_all add: set_ex_flag_def clear_ex_flag_def clr_own_bit_def in_pre_def)

lemma snd_cb_msg:
  assumes "dispr_ok (i # H) P D s" "\<And>x. dispr_ok (i # H) P D (emit (ev x) s)"
  shows "ex_msg (get_ex (snd (run_cb ev s)) i) = ex_msg (get_ex s i)"
  using run_cb_held(2) [of ev s "fst (run_cb ev s)" "snd (run_cb ev s)" "i # H" P D i] assms
  by (auto simp: maybe_cancelled_def cancelled_def)

lemma cur_req_msg: "dispr_ok (i # H) P D s \<Longrightarrow> ex_msg (get_ex (cur_req_hdl i s) i) = ex_msg (get_ex s i)"
  by (simp add: cur_req_hdl_def snd_cb_msg [of i H P D] Let_def split: option.split)

lemma owner_msg: "dispr_ok (i # H) P D s \<Longrightarrow> ex_msg (get_ex (owner_hdl i s) i) = ex_msg (get_ex s i)"
  by (simp add: owner_hdl_def snd_cb_msg [of i H P D] Let_def split: option.split)

lemma fed_hdl [simp]: "fed (cur_req_hdl i s) = fed s" "fed (owner_hdl i s) = fed s"
  by (simp_all add: cur_req_hdl_def owner_hdl_def fed_cb Let_def split: option.split)

lemma notify_fail_pre:
  assumes "dispr_ok (i # H) P D s"
  shows "shows_pre (notify_msg_fail i ret s) i = shows_pre s i" "fed (notify_msg_fail i ret s) = fed s"
proof -
  let ?f = "(if ret = MDL_RET_CANNOT_IO then set_indc MSG_INDC_CANNOT_IO else (\<lambda>ex. ex)) \<circ>
      set_indc MSG_INDC_FAIL \<circ> set_ex_flag MSG_STATUS_FAIL"
  have 1: "dispr_ok (i # H) P D (upd_ex i ?f s)" using assms by (rule held_upd_ok) (simp_all add: phl_defs)
  have "shows_pre (upd_ex i ?f s) i = shows_pre s i"
    using pool_bound [OF assms] by (simp add: get_ex_upd MSG_INDC_FAIL_def MSG_INDC_CANNOT_IO_def)
  then show "shows_pre (notify_msg_fail i ret s) i = shows_pre s i"
    using owner_msg [OF 1] cur_req_msg [OF owner_hdl_ok [OF 1, of i]] by (simp add: notify_msg_fail_def Let_def)
  show "fed (notify_msg_fail i ret s) = fed s" by (simp add: notify_msg_fail_def Let_def)
qed

lemma feed_mdl_order:
  assumes "dispr_ok (i # H) P D s" "feed_mdl_msg r m i s = (ret, s')"
  shows "shows_pre s' i = shows_pre s i" "feeds s' = feeds s @ [(r, shows_pre s i)]" "module_q s' = module_q s"
proof -
  let ?ev = "Ev_Mdl r (ex_msg (get_ex s i))"
  obtain t where cb: "run_cb ?ev s = (ret, t)"
    using assms(2) by (auto simp: feed_mdl_msg_def split: prod.splits)
  have t: "dispr_ok (i # H) P D t" using assms(1) by (intro run_cb_ok [OF cb]) simp_all
  have b: "i < length (msg_ex_pool t)" using pool_bound [OF t] .
  have m: "shows_pre t i = shows_pre s i"
    using snd_cb_msg [OF assms(1), of ?ev] cb assms(1) by simp
  have f: "feeds t = feeds s @ [(r, shows_pre s i)]" "module_q t = module_q s"
  proof -
    have "fed t = fed (emit (?ev ret) s)"
      using cb by (auto simp: run_cb_def split: list.splits) (simp add: fed_def feeds_def emit_def)
    then show "feeds t = feeds s @ [(r, shows_pre s i)]" "module_q t = module_q s"
      by (simp_all add: fed_def feeds_def emit_def)
  qed
  let ?t1 = "upd_ex i (\<lambda>ex. ex\<lparr>ex_msg := (ex_msg ex)\<lparr>rsvd := (rsvd (ex_msg ex))[0 := mdl_ptr r]\<rparr>\<rparr>) t"
  have t1: "dispr_ok (i # H) P D ?t1" using t by (rule held_upd_ok) simp_all
  have s': "s' = (if ret = MDL_RET_FAIL \<or> ret = MDL_RET_CANNOT_IO then notify_msg_fail i ret ?t1
      else if ret = MDL_RET_PENDING then upd_ex i (set_ex_flag MSG_STATUS_PENDING) t else upd_ex i (clr_own_bit m) t)"
    using assms(2) cb by (simp add: feed_mdl_msg_def)
  have "shows_pre s' i = shows_pre t i \<and> fed s' = fed t"
    using notify_fail_pre [OF t1, of ret] b by (simp add: s' get_ex_upd)
  then show "shows_pre s' i = shows_pre s i" "feeds s' = feeds s @ [(r, shows_pre s i)]" "module_q s' = module_q s"
    using m f by (simp_all add: fed_def)
qed

subsection \<open>The two phases\<close>

abbreviation tagged :: "bool \<Rightarrow> nat list \<Rightarrow> (mdl_ref \<times> bool) list" where
  "tagged b \<equiv> map (\<lambda>a. (Bk a, b))"

lemma feed_loop_order:
  "dispr_ok (i # H) P D s \<Longrightarrow> feed_loop sel as i s = (b, s') \<Longrightarrow>
     shows_pre s' i = shows_pre s i \<and> module_q s' = module_q s \<and>
     (\<exists>E. feeds s' = feeds s @ tagged (shows_pre s i) E \<and> subseq E as)"
proof (induction as arbitrary: s)
  case Nil
  then show ?case by auto
next
  case (Cons a as)
  show ?case
  proof (cases "mdls s a")
    case None
    have "dispr_ok (i # H) P D (set_fault True s)" using Cons.prems by simp
    from Cons.IH [OF this] show ?thesis
      using None Cons.prems(2) by (force simp: set_fault_def feeds_def)
  next
    case (Some x)
    show ?thesis
    proof (cases "\<not> chk_bitmap_bit MODL_MASK_LEN (sel (get_ex s i)) (mdl_id x) \<or> \<not> TEST_STATUS_FLAG (mdl_status x) MDL_STARTED")
      case True
      then show ?thesis using Cons.IH [OF Cons.prems(1)] Cons.prems(2) Some by auto
    next
      case False
      obtain ret s1 where f: "feed_mdl_msg (Bk a) (mdl_id x) i s = (ret, s1)" by fastforce
      note o = feed_mdl_order [OF Cons.prems(1) f] and ok = feed_mdl_ok [OF Cons.prems(1) f]
      show ?thesis
      proof (cases "STOP_DISPATCH_MSG ret")
        case True
        then have "s' = s1" using Cons.prems(2) Some False f by simp
        then show ?thesis using o by (auto intro!: exI [of _ "[a]"])
      next
        case go: False
        then have "feed_loop sel as i s1 = (b, s')" using Cons.prems(2) Some False f by simp
        from Cons.IH [OF ok this] obtain E where
          "shows_pre s' i = shows_pre s1 i" "module_q s' = module_q s1"
          "feeds s' = feeds s1 @ tagged (shows_pre s1 i) E" "subseq E as" by blast
        then show ?thesis using o by (auto intro!: exI [of _ "a # E"])
      qed
    qed
  qed
qed

lemma pri_loop_order:
  "dispr_ok (i # H) P D s \<Longrightarrow>
     shows_pre (pri_loop sel dir ps i s) i = shows_pre s i \<and> module_q (pri_loop sel dir ps i s) = module_q s \<and>
     (\<exists>E. feeds (pri_loop sel dir ps i s) = feeds s @ tagged (shows_pre s i) E \<and>
       subseq E (concat (map (\<lambda>p. dir (Phl_Dispr.walk (module_q s p))) ps)))"
proof (induction ps arbitrary: s)
  case Nil
  then show ?case by simp
next
  case (Cons p ps)
  obtain b s1 where f: "feed_loop sel (dir (Phl_Dispr.walk (module_q s p))) i s = (b, s1)" by fastforce
  from feed_loop_order [OF Cons.prems f] obtain E where
    1: "shows_pre s1 i = shows_pre s i" "module_q s1 = module_q s"
      "feeds s1 = feeds s @ tagged (shows_pre s i) E" "subseq E (dir (Phl_Dispr.walk (module_q s p)))" by blast
  show ?case
  proof (cases b)
    case True
    from Cons.IH [OF feed_loop_ok [OF Cons.prems f]] obtain E' where
      "shows_pre (pri_loop sel dir ps i s1) i = shows_pre s1 i" "module_q (pri_loop sel dir ps i s1) = module_q s1"
      "feeds (pri_loop sel dir ps i s1) = feeds s1 @ tagged (shows_pre s1 i) E'"
      "subseq E' (concat (map (\<lambda>p. dir (Phl_Dispr.walk (module_q s1 p))) ps))" by blast
    then show ?thesis using 1 f True by (auto intro!: exI [of _ "E @ E'"] list_emb_append_mono)
  next
    case False
    then show ?thesis using 1 f by (auto intro!: exI [of _ E] subseq_rev_drop_many)
  qed
qed

subsection \<open>A whole dispatch\<close>

text \<open>The controller, down through the priorities, and up again.\<close>

definition down :: "(nat \<Rightarrow> nat phl_queue) \<Rightarrow> nat list" where
  "down mq = concat (map (\<lambda>p. Phl_Dispr.walk (mq p)) [2, 1, 0])"

definition dispatch_plan :: "bool \<Rightarrow> (nat \<Rightarrow> nat phl_queue) \<Rightarrow> (mdl_ref \<times> bool) list" where
  "dispatch_plan b mq = (Ctrl, b) # tagged True (down mq) @ tagged False (rev (down mq))"

text \<open>\<open>s'\<close> follows \<open>s\<close> by feeds that are some of those in \<open>l\<close>, in this order.\<close>

definition some_of :: "(mdl_ref \<times> bool) list \<Rightarrow> cmd_dispatcher \<Rightarrow> cmd_dispatcher \<Rightarrow> bool" where
  "some_of l s s' \<longleftrightarrow> (\<exists>E. feeds s' = feeds s @ E \<and> subseq E l)"

lemma some_of_same: "fed s' = fed s \<Longrightarrow> some_of l s s'"
  by (auto simp: some_of_def fed_def)

lemma some_of_append: "some_of l s t \<Longrightarrow> some_of l' t u \<Longrightarrow> some_of (l @ l') s u"
  unfolding some_of_def by (metis append.assoc list_emb_append_mono)

lemma some_of_mono: "some_of l s t \<Longrightarrow> subseq l l' \<Longrightarrow> some_of l' s t"
  unfolding some_of_def by (meson subseq_order.order_trans)

lemma some_of_tagged: "\<exists>E. feeds s' = feeds s @ tagged b E \<and> subseq E l \<Longrightarrow> some_of (tagged b l) s s'"
  unfolding some_of_def using subseq_map by blast

lemma phase_order:
  assumes "dispr_ok (i # H) P D s"
  shows "some_of (tagged (shows_pre s i) (down (module_q s))) s (msg_pre_phase_hdl i s)"
    "some_of (tagged (shows_pre s i) (rev (down (module_q s)))) s (msg_post_phase_hdl i s)"
    "shows_pre (msg_pre_phase_hdl i s) i = shows_pre s i" "module_q (msg_pre_phase_hdl i s) = module_q s"
proof -
  have r: "rev (down mq) = concat (map (\<lambda>p. rev (Phl_Dispr.walk (mq p))) [0, 1, 2])" for mq by (simp add: down_def)
  note pre = pri_loop_order [OF assms, of premap "\<lambda>l. l" "[2, 1, 0]", folded down_def msg_pre_phase_hdl_def]
  note post = pri_loop_order [OF assms, of postmap rev "[0, 1, 2]", folded r msg_post_phase_hdl_def]
  show "some_of (tagged (shows_pre s i) (down (module_q s))) s (msg_pre_phase_hdl i s)"
    "shows_pre (msg_pre_phase_hdl i s) i = shows_pre s i" "module_q (msg_pre_phase_hdl i s) = module_q s"
    using pre by (blast intro: some_of_tagged)+
  show "some_of (tagged (shows_pre s i) (rev (down (module_q s)))) s (msg_post_phase_hdl i s)"
    using post by (blast intro: some_of_tagged)
qed

lemma redirect_some:
  "some_of l s t \<Longrightarrow> some_of l s (k t) \<Longrightarrow> some_of l s (redirect_chk i k t)"
  by (simp add: redirect_chk_def msg_reschedule_def some_of_def fed_def Let_def)
    (metis fe.ops(2) fe.push_pending fed_def fed_push_idle prod.inject)

lemma dispatch_post_some:
  assumes "dispr_ok (i # H) P D s" "\<not> is_bitmap_empty (sel (get_ex s i)) \<Longrightarrow> \<not> shows_pre s i"
  shows "some_of (tagged False (rev (down (module_q s)))) s (dispatch_post sel i s)"
proof -
  let ?t = "if \<not> is_bitmap_empty (sel (get_ex s i)) then msg_post_phase_hdl i s else s"
  have t: "some_of (tagged False (rev (down (module_q s)))) s ?t"
    using phase_order(2) [OF assms(1)] assms(2) by (auto simp: some_of_same)
  have "fed (if c then push_back_idle_msg i (cur_req_hdl i u) else push_back_idle_msg i (upd_ex i f u)) = fed u" for c f u
    by simp
  then have "some_of (tagged False (rev (down (module_q s)))) s
      ((\<lambda>s1. if is_bitmap_empty (sel (get_ex s1 i)) then push_back_idle_msg i (cur_req_hdl i s1)
             else push_back_idle_msg i (upd_ex i (set_ex_flag MSG_STATUS_CANCEL) s1)) ?t)"
    using t unfolding some_of_def fed_def by (metis prod.inject)
  with t show ?thesis unfolding dispatch_post_def by (rule redirect_some)
qed

lemma get_bitmap_phase:
  assumes "dispr_ok (i # H) P D s" "get_msg_bitmap i s = (sel, s1)"
  shows "shows_pre s1 i = TEST_STATUS_FLAG (ex_status (get_ex s i)) MSG_STATUS_PRE_PHASE"
    "fed s1 = fed s" "dispr_ok (i # H) P D s1"
  using assms pool_bound [OF assms(1)] get_bitmap_ok [OF assms]
  by (auto simp: get_msg_bitmap_def get_ex_upd split: if_splits)

lemma dispatch_pre_some:
  assumes "dispr_ok (i # H) P D s"
  shows "some_of (tagged True (down (module_q s)) @ tagged False (rev (down (module_q s)))) s (dispatch_pre sel i s)"
    (is "some_of ?l s _")
proof (cases "shows_pre s i \<and> \<not> is_bitmap_empty (sel (get_ex s i))")
  case True
  let ?t = "msg_pre_phase_hdl i s"
  have t: "some_of (tagged True (down (module_q s))) s ?t" "module_q ?t = module_q s"
    using phase_order(1,4) [OF assms] True by simp_all
  have ok: "dispr_ok (i # H) P D ?t" using assms by (rule phases_ok)
  let ?u = "upd_ex i (clear_ex_flag MSG_STATUS_PRE_PHASE) ?t"
  obtain sel' v where g: "get_msg_bitmap i ?u = (sel', v)" by fastforce
  have u: "dispr_ok (i # H) P D ?u" using ok by (rule held_upd_ok) (simp_all add: phl_defs)
  have v: "\<not> shows_pre v i" "fed v = fed ?t" "dispr_ok (i # H) P D v"
    using get_bitmap_phase [OF u g] pool_bound [OF ok] by (simp_all add: get_ex_upd clear_ex_flag_def phl_defs)
  have mq: "module_q v = module_q s" using v(2) t(2) by (simp add: fed_def)
  have post: "some_of (tagged False (rev (down (module_q s)))) v (dispatch_post sel' i v)"
    using dispatch_post_some [OF v(3), of sel'] v(1) mq by simp
  have post: "some_of (tagged False (rev (down (module_q s)))) ?t (dispatch_post sel' i v)"
    using some_of_append [OF some_of_same [OF v(2), of "[]"] post] by simp
  have cancel: "some_of (tagged False (rev (down (module_q s)))) ?t
      (push_back_idle_msg i (upd_ex i (set_ex_flag MSG_STATUS_CANCEL) ?t))" by (simp add: some_of_same)
  have "some_of ?l s ((\<lambda>s1. if is_bitmap_empty (sel (get_ex s1 i))
      then (case get_msg_bitmap i (upd_ex i (clear_ex_flag MSG_STATUS_PRE_PHASE) s1) of (sel', s2) \<Rightarrow> dispatch_post sel' i s2)
      else push_back_idle_msg i (upd_ex i (set_ex_flag MSG_STATUS_CANCEL) s1)) ?t)"
    using some_of_append [OF t(1) post] some_of_append [OF t(1) cancel] g by simp
  moreover have "some_of ?l s ?t" using t(1) by (rule some_of_mono) (simp add: subseq_rev_drop_many)
  ultimately have "some_of ?l s (redirect_chk i (\<lambda>s1. if is_bitmap_empty (sel (get_ex s1 i))
      then (case get_msg_bitmap i (upd_ex i (clear_ex_flag MSG_STATUS_PRE_PHASE) s1) of (sel', s2) \<Rightarrow> dispatch_post sel' i s2)
      else push_back_idle_msg i (upd_ex i (set_ex_flag MSG_STATUS_CANCEL) s1)) ?t)"
    by (rule redirect_some [rotated])
  then show ?thesis using True by (simp add: dispatch_pre_def in_pre_def)
next
  case False
  then have "dispatch_pre sel i s = dispatch_post sel i s" by (auto simp: dispatch_pre_def in_pre_def)
  moreover have "some_of ?l s (dispatch_post sel i s)"
    using False by (intro some_of_mono [OF dispatch_post_some [OF assms]]) auto
  ultimately show ?thesis by simp
qed

lemma controller_some:
  assumes "dispr_ok (i # H) P D s"
  shows "some_of [(Ctrl, shows_pre s i)] s (notify_dispr_controller i s)" "module_q (notify_dispr_controller i s) = module_q s"
proof -
  obtain ret s' where f: "feed_mdl_msg Ctrl (mdl_id (controller s)) i s = (ret, s')" by fastforce
  show "some_of [(Ctrl, shows_pre s i)] s (notify_dispr_controller i s)" "module_q (notify_dispr_controller i s) = module_q s"
    using feed_mdl_order [OF assms f] f by (auto simp: notify_dispr_controller_def some_of_def)
qed

lemma msg_dispatch_some:
  assumes "dispr_ok (i # H) P D s"
  shows "some_of (dispatch_plan (TEST_STATUS_FLAG (ex_status (get_ex s i)) MSG_STATUS_PRE_PHASE) (module_q s)) s (msg_dispatch i s)"
    (is "some_of (dispatch_plan ?b _) s _")
proof -
  obtain sel s1 where g: "get_msg_bitmap i s = (sel, s1)" by fastforce
  note p = get_bitmap_phase [OF assms g]
  have mq: "module_q s1 = module_q s" using p(2) by (simp add: fed_def)
  let ?c = "notify_dispr_controller i s1"
  let ?l = "tagged True (down (module_q s)) @ tagged False (rev (down (module_q s)))"
  have c: "some_of [(Ctrl, ?b)] s1 ?c" "module_q ?c = module_q s" "dispr_ok (i # H) P D ?c"
    using controller_some [OF p(3)] p(1) mq controller_ok [OF p(3)] by simp_all
  then have "some_of ?l ?c (dispatch_pre sel i ?c)" using dispatch_pre_some [OF c(3), of sel] by simp
  then have d: "some_of (dispatch_plan ?b (module_q s)) s1 (dispatch_pre sel i ?c)"
    using some_of_append [OF c(1)] by (simp add: dispatch_plan_def)
  have "some_of (dispatch_plan ?b (module_q s)) s1 ?c"
    using c(1) by (rule some_of_mono) (simp add: dispatch_plan_def)
  then have "some_of (dispatch_plan ?b (module_q s)) s1 (redirect_chk i (dispatch_pre sel i) ?c)"
    using d by (rule redirect_some)
  then have "some_of (dispatch_plan ?b (module_q s)) s1
      (redirect_chk i (\<lambda>s2. redirect_chk i (dispatch_pre sel i) (notify_dispr_controller i s2)) s1)"
    using redirect_some [OF some_of_same [OF refl], where k = "\<lambda>s2. redirect_chk i (dispatch_pre sel i) (notify_dispr_controller i s2)"]
    by simp
  then have "some_of ([] @ dispatch_plan ?b (module_q s)) s (msg_dispatch i s)"
    using some_of_append [OF some_of_same [OF p(2), of "[]"]] g by (simp add: msg_dispatch_def)
  then show ?thesis by simp
qed

text \<open>
  C7. The order of a dispatch: over any run, one iteration of the thread calls the message handlers of the controller
  and the modules in the order of the plan, at most one call per place of it: the controller first, then in the
  pre-phase the modules of priority 2, 1 and 0 in the order of registration, then in the post-phase the same
  modules in exactly the reverse order. Handlers that fail, cancel or put the message off can leave out calls, never
  change the order.
\<close>

theorem dispatch_follows_plan:
  assumes "dispr_run ph s" "ph = Running \<or> ph = Stopping"
  shows "\<exists>E b. feeds (dispr_thread_loop_hdl s) = feeds s @ E \<and> subseq E (dispatch_plan b (module_q s))"
proof -
  have ok: "dispr_ok [] [] {#} s" using dispr_run_ok [OF assms(1)] assms(2) by auto
  let ?t = "token_op_hanler (clear_pending_msg s)"
  obtain io s1 where p: "pop_front_wait_msg ?t = (io, s1)" by fastforce
  have t: "dispr_ok [] [] {#} ?t" using ok by (intro token_op_hanler_ok clear_pending_ok)
  have s1: "fed s1 = fed s" using fe.pops(2) [OF p] by simp
  show ?thesis
  proof (cases "io = None \<or> \<not> TEST_STATUS_FLAG (d_status s) DISPR_STARTED")
    case True
    then have "fed (dispr_thread_loop_hdl s) = fed s" using s1 p by (auto simp: dispr_thread_loop_hdl_def)
    then show ?thesis by (auto simp: fed_def)
  next
    case False
    then obtain i where io: "io = Some i" by auto
    then have i: "dispr_ok [i] [] {#} s1" using pop_wait_msg_ok [OF t] p by simp
    obtain c s2 where k: "is_msg_canceled i s1 = (c, s2)" by fastforce
    have s2: "dispr_ok [i] [] {#} s2" "fed s2 = fed s"
      using msg_canceled_ok [OF i k] k s1 by (auto simp: is_msg_canceled_def Let_def split: if_splits)
    let ?u = "upd_ex i (\<lambda>ex. ex\<lparr>premap := and_bitmaps (d_bitmap s2) (premap ex),
      postmap := and_bitmaps (d_bitmap s2) (postmap ex)\<rparr>) s2"
    have u: "dispr_ok [i] [] {#} ?u" using s2(1) by (rule held_upd_ok) simp_all
    have l: "dispr_thread_loop_hdl s = (if c then push_back_idle_msg i s2 else msg_dispatch i ?u)"
      using False p io k by (simp add: dispr_thread_loop_hdl_def)
    have f: "feeds ?u = feeds s" "module_q ?u = module_q s" using fe.prims(1) s2(2) by (simp_all add: fed_def)
    show ?thesis
    proof (cases c)
      case True
      then have "fed (dispr_thread_loop_hdl s) = fed s" using s2(2) by (simp add: l)
      then show ?thesis by (auto simp: fed_def)
    next
      case False
      then show ?thesis using msg_dispatch_some [OF u] unfolding some_of_def f l by auto
    qed
  qed
qed

theorem dispatch_follows_plan_witness:
  "\<exists>E b. feeds (dispr_thread_loop_hdl dispr1) = feeds dispr1 @ E \<and> subseq E (dispatch_plan b (module_q dispr1))"
  using dispatch_follows_plan [OF dispr1_run] by simp

end
