(* ===== verification/Phl_Dispr_Success.thy ===== *)
theory Phl_Dispr_Success
  imports Phl_Dispr_Order
begin

section \<open>A dispatch in which every handler succeeds\<close>

text \<open>
  The exact sequence of calls one dispatch makes when all handlers succeed and call nothing: the controller, the
  modules of the pre-map, those of the post-map in reverse, the command that holds the token, the completion
  routine.
\<close>

subsection \<open>Module bitmaps and phases\<close>

text \<open>Module bitmaps as sets of ids.\<close>

definition map_ok :: "u8 list \<Rightarrow> bool" where
  "map_ok bm \<longleftrightarrow> length bm = unat MODL_MASK_LEN"

abbreviation has :: "u8 list \<Rightarrow> u8 \<Rightarrow> bool" where
  "has \<equiv> chk_bitmap_bit MODL_MASK_LEN"

lemma map_clr_ok: "map_ok bm \<Longrightarrow> map_ok (clr_bitmap_bit MODL_MASK_LEN bm [m])"
  by (simp add: map_ok_def clr_bitmap_bit_def)

lemma has_clr: "map_ok bm \<Longrightarrow> has (clr_bitmap_bit MODL_MASK_LEN bm [m]) k \<longleftrightarrow> k \<noteq> m \<and> has bm k"
proof -
  assume ok: "map_ok bm"
  show ?thesis
  proof (cases "unat k div 8 < unat MODL_MASK_LEN \<and> unat m div 8 < unat MODL_MASK_LEN")
    case True
    then show ?thesis using bm8.chk_clr [where n = MODL_MASK_LEN and m = bm and i = m and j = k] ok by (simp add: map_ok_def)
  next
    case False
    then show ?thesis by (auto simp: chk_bitmap_bit_def clr_bitmap_bit_def)
  qed
qed

lemma map_empty_iff: "map_ok bm \<Longrightarrow> is_bitmap_empty bm \<longleftrightarrow> (\<forall>k. \<not> has bm k)"
proof -
  assume ok: "map_ok bm"
  have "bm = empty_map" if n: "\<And>k. \<not> has bm k"
  proof (rule nth_equalityI)
    show "length bm = length empty_map" using ok by (simp add: map_ok_def empty_map_def)
    fix j assume j: "j < length bm"
    then have j16: "j < 16" using ok by (simp add: map_ok_def MODL_MASK_LEN_def)
    have "\<not> bit (bm ! j) b" if "b < 8" for b
    proof -
      have "unat (of_nat (8 * j + b) :: u8) = 8 * j + b"
        using j16 that by (simp only: unat_of_nat) simp
      then show ?thesis
        using n [of "of_nat (8 * j + b)"] j16 that
        by (simp add: chk_bitmap_bit_def MODL_MASK_LEN_def and_exp_eq_0_iff_not_bit)
    qed
    then have "bm ! j = 0" by (auto simp: bit_eq_iff)
    then show "bm ! j = empty_map ! j" using j16 by (simp add: empty_map_def MODL_MASK_LEN_def)
  qed
  moreover have "\<not> has empty_map k" for k
    by (auto simp: chk_bitmap_bit_def empty_map_def)
  ultimately show ?thesis by (auto simp: is_bitmap_empty_def)
qed

text \<open>The state of a dispatch: the map of the phase is \<open>bm\<close>, and \<open>l\<close> has happened.\<close>

definition sel_of :: "bool \<Rightarrow> phl_dispr_msg_ex \<Rightarrow> u8 list" where
  "sel_of b ex = (if b then premap ex else postmap ex)"

definition put_map :: "bool \<Rightarrow> u8 list \<Rightarrow> phl_dispr_msg_ex \<Rightarrow> phl_dispr_msg_ex" where
  "put_map b bm ex = (if b then ex\<lparr>premap := bm\<rparr> else ex\<lparr>postmap := bm\<rparr>)"

definition at_map :: "bool \<Rightarrow> u8 list \<Rightarrow> dispr_event list \<Rightarrow> nat \<Rightarrow> cmd_dispatcher \<Rightarrow> cmd_dispatcher" where
  "at_map b bm l i s = upd_ex i (put_map b bm) (s\<lparr>dlog := dlog s @ l\<rparr>)"

lemma sel_eqs: "sel_of True = premap" "sel_of False = postmap"
  by (auto simp: sel_of_def)

lemma at_map_fields [simp]:
  "cbs (at_map b bm l i s) = cbs s" "mdls (at_map b bm l i s) = mdls s" "module_q (at_map b bm l i s) = module_q s"
  "d_status (at_map b bm l i s) = d_status s" "controller (at_map b bm l i s) = controller s"
  "length (msg_ex_pool (at_map b bm l i s)) = length (msg_ex_pool s)"
  "cur_cmd_req (at_map b bm l i s) = cur_cmd_req s" "token_req_ex_pool (at_map b bm l i s) = token_req_ex_pool s"
  "dlog (at_map b bm l i s) = dlog s @ l"
  by (simp_all add: at_map_def upd_ex_def)

lemma at_map_ex: "i < length (msg_ex_pool s) \<Longrightarrow> get_ex (at_map b bm l i s) i = put_map b bm (get_ex s i)"
  by (simp add: at_map_def upd_ex_def)

lemma put_map_fields [simp]:
  "ex_msg (put_map b bm ex) = ex_msg ex" "ex_status (put_map b bm ex) = ex_status ex" "sel_of b (put_map b bm ex) = bm"
  "ex_completion (put_map b bm ex) = ex_completion ex"
  by (simp_all add: put_map_def sel_of_def)

lemma at_map_start: "at_map b (sel_of b (get_ex s i)) [] i s = s"
  by (cases s) (simp add: at_map_def upd_ex_def put_map_def sel_of_def)

lemma quiet_cb: "cbs s = [] \<Longrightarrow> run_cb ev s = (MDL_RET_SUCCESS, emit (ev MDL_RET_SUCCESS) s)"
  by (simp add: run_cb_def)

lemma quiet_feed:
  assumes "cbs s = []" "i < length (msg_ex_pool s)" "shows_pre s i = b"
  shows "feed_mdl_msg r m i (at_map b bm l i s) =
    (MDL_RET_SUCCESS, at_map b (clr_bitmap_bit MODL_MASK_LEN bm [m])
       (l @ [Ev_Mdl r (ex_msg (get_ex s i)) MDL_RET_SUCCESS]) i s)"
proof -
  have c: "clr_own_bit m (put_map b bm (get_ex s i)) = put_map b (clr_bitmap_bit MODL_MASK_LEN bm [m]) (get_ex s i)"
    using assms(3) by (auto simp: clr_own_bit_def put_map_def in_pre_def)
  have "upd_ex i (clr_own_bit m) (emit e (at_map b bm l i s)) = at_map b (clr_bitmap_bit MODL_MASK_LEN bm [m]) (l @ [e]) i s" for e
    using assms(2) c by (cases s) (simp add: at_map_def upd_ex_def emit_def)
  then show ?thesis
    using assms at_map_ex [OF assms(2), of b bm l] by (simp add: feed_mdl_msg_def quiet_cb)
qed

definition mdl_ready :: "cmd_dispatcher \<Rightarrow> nat \<Rightarrow> bool" where
  "mdl_ready s a \<longleftrightarrow> (\<exists>x. mdls s a = Some x \<and> TEST_STATUS_FLAG (mdl_status x) MDL_STARTED)"

definition id_of :: "cmd_dispatcher \<Rightarrow> nat \<Rightarrow> u8" where
  "id_of s a = mdl_id (the (mdls s a))"

lemma quiet_feed_loop:
  assumes "cbs s = []" "i < length (msg_ex_pool s)" "shows_pre s i = b"
  shows "map_ok bm \<Longrightarrow> \<forall>a \<in> set as. mdl_ready s a \<Longrightarrow> distinct (map (id_of s) as) \<Longrightarrow>
    \<exists>bm'. feed_loop (sel_of b) as i (at_map b bm l i s) =
      (True, at_map b bm' (l @ map (\<lambda>a. Ev_Mdl (Bk a) (ex_msg (get_ex s i)) MDL_RET_SUCCESS)
         (filter (\<lambda>a. has bm (id_of s a)) as)) i s) \<and>
      map_ok bm' \<and> (\<forall>k. has bm' k \<longleftrightarrow> has bm k \<and> k \<notin> id_of s ` set as)"
proof (induction as arbitrary: bm l)
  case Nil
  then show ?case by auto
next
  case (Cons a as)
  obtain x where x: "mdls s a = Some x" "TEST_STATUS_FLAG (mdl_status x) MDL_STARTED"
    using Cons.prems by (auto simp: mdl_ready_def)
  have ida: "id_of s a = mdl_id x" by (simp add: id_of_def x)
  have g: "sel_of b (get_ex (at_map b bm l i s) i) = bm" using at_map_ex [OF assms(2)] by simp
  show ?case
  proof (cases "has bm (mdl_id x)")
    case True
    let ?bm = "clr_bitmap_bit MODL_MASK_LEN bm [mdl_id x]"
    let ?l = "l @ [Ev_Mdl (Bk a) (ex_msg (get_ex s i)) MDL_RET_SUCCESS]"
    have step: "feed_loop (sel_of b) (a # as) i (at_map b bm l i s) = feed_loop (sel_of b) as i (at_map b ?bm ?l i s)"
      using x True g quiet_feed [OF assms] by (simp add: STOP_DISPATCH_MSG_def)
    have "mdl_id x \<notin> id_of s ` set as" using Cons.prems(3) ida by simp
    then have "id_of s c \<noteq> mdl_id x" if "c \<in> set as" for c using that by (metis image_eqI)
    then have "filter (\<lambda>a. has ?bm (id_of s a)) as = filter (\<lambda>a. has bm (id_of s a)) as"
      using Cons.prems(1) by (intro filter_cong) (auto simp: has_clr)
    then show ?thesis
      using Cons.IH [of ?bm ?l] Cons.prems True ida has_clr [OF Cons.prems(1)] map_clr_ok [OF Cons.prems(1)]
      unfolding step by auto
  next
    case False
    then have step: "feed_loop (sel_of b) (a # as) i (at_map b bm l i s) = feed_loop (sel_of b) as i (at_map b bm l i s)"
      using x g by simp
    show ?thesis
      using Cons.IH [of bm l] Cons.prems False ida unfolding step by auto
  qed
qed

text \<open>The loops over the priorities are one walk over all modules.\<close>

lemma feed_loop_append:
  "feed_loop sel (as @ bs) i s = (case feed_loop sel as i s of (True, s1) \<Rightarrow> feed_loop sel bs i s1 | (False, s1) \<Rightarrow> (False, s1))"
proof (induction as arbitrary: s)
  case (Cons a as)
  then show ?case by (cases "mdls s a") (simp_all split: prod.split)
qed simp

lemma fixed_hdl [simp]:
  "fixed (cur_req_hdl i s) = fixed s" "fixed (owner_hdl i s) = fixed s"
  by (simp_all add: cur_req_hdl_def owner_hdl_def fx.run Let_def split: option.split)

lemma fixed_notify [simp]: "fixed (notify_msg_fail i ret s) = fixed s"
  by (simp add: notify_msg_fail_def Let_def)

lemma fixed_feed: "feed_mdl_msg r m i s = (ret, s') \<Longrightarrow> fixed s' = fixed s"
  by (auto simp: feed_mdl_msg_def dest!: fx.runD split: prod.splits if_splits)

lemma fixed_feed_loop: "feed_loop sel as i s = (b, s') \<Longrightarrow> fixed s' = fixed s"
  by (induction sel as i s rule: feed_loop.induct) (auto dest!: fixed_feed split: option.splits prod.splits if_splits)

lemma pri_loop_flat:
  "pri_loop sel dir ps i s = snd (feed_loop sel (concat (map (\<lambda>p. dir (Phl_Dispr.walk (module_q s p))) ps)) i s)"
proof (induction ps arbitrary: s)
  case (Cons p ps)
  obtain b s1 where f: "feed_loop sel (dir (Phl_Dispr.walk (module_q s p))) i s = (b, s1)" by fastforce
  have "module_q s1 = module_q s" using fixedD [OF fixed_feed_loop [OF f]] by simp
  then show ?case using f Cons.IH [of s1] by (cases b) (simp_all add: feed_loop_append)
qed simp

lemma phases_flat:
  "msg_pre_phase_hdl i s = snd (feed_loop (sel_of True) (down (module_q s)) i s)"
  "msg_post_phase_hdl i s = snd (feed_loop (sel_of False) (rev (down (module_q s))) i s)"
  unfolding msg_pre_phase_hdl_def msg_post_phase_hdl_def pri_loop_flat sel_eqs by (simp_all add: down_def)

text \<open>What the dispatch relies on: modules that are there and started, with different ids.\<close>

definition modules_ready :: "cmd_dispatcher \<Rightarrow> bool" where
  "modules_ready s \<longleftrightarrow> (\<forall>a \<in> set (down (module_q s)). mdl_ready s a) \<and> distinct (map (id_of s) (down (module_q s)))"

definition calls :: "phl_msg \<Rightarrow> nat list \<Rightarrow> dispr_event list" where
  "calls msg as = map (\<lambda>a. Ev_Mdl (Bk a) msg MDL_RET_SUCCESS) as"

lemma quiet_phase:
  assumes "cbs s = []" "i < length (msg_ex_pool s)" "shows_pre s i = b" "modules_ready s"
    "map_ok (sel_of b (get_ex s i))" "\<forall>k. has (sel_of b (get_ex s i)) k \<longrightarrow> k \<in> id_of s ` set (down (module_q s))"
    "set as = set (down (module_q s))" "distinct (map (id_of s) as)"
  shows "snd (feed_loop (sel_of b) as i s) =
    at_map b empty_map (calls (ex_msg (get_ex s i)) (filter (\<lambda>a. has (sel_of b (get_ex s i)) (id_of s a)) as)) i s"
proof -
  let ?bm = "sel_of b (get_ex s i)"
  have "\<forall>a \<in> set as. mdl_ready s a" using assms(4,7) by (simp add: modules_ready_def)
  from quiet_feed_loop [OF assms(1-3,5) this assms(8), of "[]"] obtain bm' where
    f: "feed_loop (sel_of b) as i s = (True, at_map b bm' (map (\<lambda>a. Ev_Mdl (Bk a) (ex_msg (get_ex s i)) MDL_RET_SUCCESS)
         (filter (\<lambda>a. has ?bm (id_of s a)) as)) i s)"
    and bm': "map_ok bm'" "\<And>k. has bm' k \<longleftrightarrow> has ?bm k \<and> k \<notin> id_of s ` set as" unfolding at_map_start by auto
  have "is_bitmap_empty bm'" using map_empty_iff [OF bm'(1)] bm'(2) assms(6,7) by simp
  then show ?thesis using f by (simp add: is_bitmap_empty_def calls_def)
qed


subsection \<open>The whole dispatch\<close>

definition told :: "phl_msg \<Rightarrow> cmd_dispatcher \<Rightarrow> dispr_event list" where
  "told msg s = (case cur_cmd_req s of None \<Rightarrow> [] | Some r \<Rightarrow>
     if TEST_STATUS_FLAG (req_status (get_req s r)) REQ_STATUS_RUN \<and>
        \<not> TEST_STATUS_FLAG (req_status (get_req s r)) REQ_STATUS_CANCEL then [Ev_Req r msg] else [])"

definition completed :: "phl_msg \<Rightarrow> phl_dispr_msg_ex \<Rightarrow> dispr_event list" where
  "completed msg ex = (if TEST_STATUS_FLAG (ex_status ex) MSG_STATUS_NOTIFY_COMPLETE \<and> c_fun (ex_completion ex) \<noteq> None
     then [Ev_Done (ex_completion ex) msg] else [])"

definition no_detour :: "u16 \<Rightarrow> bool" where
  "no_detour st \<longleftrightarrow> \<not> TEST_STATUS_FLAG st MSG_STATUS_FAIL \<and> \<not> TEST_STATUS_FLAG st MSG_STATUS_CANCEL \<and>
     \<not> TEST_STATUS_FLAG st MSG_STATUS_PENDING \<and> \<not> TEST_STATUS_FLAG st MSG_STATUS_FOR_ABORT"

lemma straight_on: "no_detour (ex_status (get_ex s i)) \<Longrightarrow> redirect_chk i k s = k s"
  by (simp add: redirect_chk_def no_detour_def)

definition frame :: "cmd_dispatcher \<Rightarrow> callback list \<times> (nat \<Rightarrow> phl_bk_module option) \<times> (nat \<Rightarrow> nat phl_queue) \<times>
    u16 \<times> phl_bk_module \<times> nat option \<times> phl_cmd_token_req_ex list \<times> nat phl_queue \<times> nat" where
  "frame s = (cbs s, mdls s, module_q s, d_status s, controller s, cur_cmd_req s, token_req_ex_pool s, msg_idle_q s,
     length (msg_ex_pool s))"

lemma frame_simps [simp]:
  "frame (upd_ex i f s) = frame s" "frame (at_map b bm l i s) = frame s"
  by (simp_all add: frame_def at_map_def upd_ex_def)

lemma frameD:
  assumes "frame t = frame s"
  shows "cbs t = cbs s" "mdls t = mdls s" "module_q t = module_q s" "d_status t = d_status s" "controller t = controller s"
    "modules_ready t = modules_ready s" "id_of t = id_of s" "told msg t = told msg s" "msg_idle_q t = msg_idle_q s"
    "length (msg_ex_pool t) = length (msg_ex_pool s)"
proof -
  have 1: "mdls t = mdls s" "module_q t = module_q s" using assms by (simp_all add: frame_def)
  then have 2: "id_of t = id_of s" "mdl_ready t = mdl_ready s" by (simp_all add: fun_eq_iff id_of_def mdl_ready_def)
  show "told msg t = told msg s" using assms by (simp add: frame_def told_def split: option.split)
  show "modules_ready t = modules_ready s" by (simp add: modules_ready_def 1 2)
qed (use assms in \<open>simp_all add: frame_def fun_eq_iff id_of_def\<close>)

lemma quiet_told:
  assumes "cbs t = []" "no_detour (ex_status (get_ex t i))"
  shows "cur_req_hdl i t = t\<lparr>dlog := dlog t @ told (ex_msg (get_ex t i)) t\<rparr>"
  using assms by (simp add: cur_req_hdl_def told_def quiet_cb emit_def no_detour_def Let_def split: option.split)

lemma quiet_idle:
  assumes "cbs t = []" "i < length (msg_ex_pool t)" "no_detour (ex_status (get_ex t i))"
  shows "dlog (push_back_idle_msg i t) = dlog t @ completed (ex_msg (get_ex t i)) (get_ex t i)"
    "msg_idle_q (push_back_idle_msg i t) = pq_push (msg_idle_q t) i Tail"
proof -
  have "run_completion i t = (if completed (ex_msg (get_ex t i)) (get_ex t i) = [] then t
    else upd_ex i (clear_ex_flag MSG_STATUS_NOTIFY_COMPLETE) (t\<lparr>dlog := dlog t @ completed (ex_msg (get_ex t i)) (get_ex t i)\<rparr>))"
    using assms(1,3) by (simp add: run_completion_def completed_def quiet_cb emit_def no_detour_def Let_def)
  moreover have "\<not> TEST_STATUS_FLAG (ex_status (clear_ex_flag MSG_STATUS_NOTIFY_COMPLETE (get_ex t i))) MSG_STATUS_FOR_ABORT"
    using assms(3) by (simp add: clear_ex_flag_def no_detour_def phl_defs and.assoc)
  ultimately show "dlog (push_back_idle_msg i t) = dlog t @ completed (ex_msg (get_ex t i)) (get_ex t i)"
    "msg_idle_q (push_back_idle_msg i t) = pq_push (msg_idle_q t) i Tail"
    using assms(2,3)
    by (simp_all add: push_back_idle_msg_def idle_msg_reset_def upd_ex_def no_detour_def Let_def)
qed

lemma completed_put_map [simp]: "completed msg (put_map b bm ex) = completed msg ex"
  by (simp add: completed_def)

lemma quiet_post:
  assumes q: "cbs t = []" "i < length (msg_ex_pool t)" "\<not> shows_pre t i" "modules_ready t"
    and st: "no_detour (ex_status (get_ex t i))"
    and bm: "map_ok (postmap (get_ex t i))" "\<forall>k. has (postmap (get_ex t i)) k \<longrightarrow> k \<in> id_of t ` set (down (module_q t))"
  defines "msg \<equiv> ex_msg (get_ex t i)"
  shows "dlog (dispatch_post postmap i t) = dlog t @
      calls msg (filter (\<lambda>a. has (postmap (get_ex t i)) (id_of t a)) (rev (down (module_q t)))) @
      told msg t @ completed msg (get_ex t i)"
    "msg_idle_q (dispatch_post postmap i t) = pq_push (msg_idle_q t) i Tail"
proof -
  let ?l = "calls msg (filter (\<lambda>a. has (postmap (get_ex t i)) (id_of t a)) (rev (down (module_q t))))"
  let ?u = "at_map False empty_map ?l i t"
  have d: "distinct (map (id_of t) (rev (down (module_q t))))" using q(4) by (simp add: modules_ready_def flip: rev_map)
  have "(if \<not> is_bitmap_empty (postmap (get_ex t i)) then msg_post_phase_hdl i t else t) = ?u"
  proof (cases "is_bitmap_empty (postmap (get_ex t i))")
    case True
    then have "?l = []" using map_empty_iff [OF bm(1)] by (simp add: calls_def)
    then show ?thesis using True at_map_start [of False t i] by (simp add: is_bitmap_empty_def sel_eqs)
  next
    case False
    then show ?thesis
      using quiet_phase [OF q(1,2) _ q(4), of False "rev (down (module_q t))"] q(3) bm d
      by (simp add: phases_flat sel_eqs msg_def)
  qed
  moreover have u: "ex_status (get_ex ?u i) = ex_status (get_ex t i)" "postmap (get_ex ?u i) = empty_map"
    "ex_msg (get_ex ?u i) = msg" "completed m (get_ex ?u i) = completed m (get_ex t i)" "cbs ?u = []" for m
    using at_map_ex [OF q(2)] q(1) by (simp_all add: msg_def put_map_def completed_def)
  ultimately have p: "dispatch_post postmap i t = push_back_idle_msg i (?u\<lparr>dlog := dlog ?u @ told msg ?u\<rparr>)"
    using st quiet_told [OF u(5)] by (simp add: dispatch_post_def straight_on is_bitmap_empty_def)
  have f: "told msg ?u = told msg t" "msg_idle_q ?u = msg_idle_q t" by (rule frameD, simp)+
  show "dlog (dispatch_post postmap i t) = dlog t @ ?l @ told msg t @ completed msg (get_ex t i)"
    "msg_idle_q (dispatch_post postmap i t) = pq_push (msg_idle_q t) i Tail"
    unfolding p using quiet_idle [of "?u\<lparr>dlog := dlog ?u @ told msg ?u\<rparr>" i] u f st q(2) by simp_all
qed


text \<open>What is asked of the message: its maps name modules that are linked, and the controller is not among them.\<close>

definition within :: "cmd_dispatcher \<Rightarrow> u8 list \<Rightarrow> bool" where
  "within s bm \<longleftrightarrow> map_ok bm \<and> (\<forall>k. has bm k \<longrightarrow> k \<in> id_of s ` set (down (module_q s)))"

definition targets :: "cmd_dispatcher \<Rightarrow> u8 list \<Rightarrow> nat list" where
  "targets s bm = filter (\<lambda>a. has bm (id_of s a)) (down (module_q s))"

lemma quiet_pre:
  assumes q: "cbs t = []" "i < length (msg_ex_pool t)" "shows_pre t i" "modules_ready t"
    and st: "no_detour (ex_status (get_ex t i))"
    and pre: "within t (premap (get_ex t i))" "\<not> is_bitmap_empty (premap (get_ex t i))"
    and post: "within t (postmap (get_ex t i))"
  defines "pm \<equiv> ex_msg (get_ex t i)" and "qm \<equiv> ex_msg (clear_indc MSG_INDC_PRE_PHASE (get_ex t i))"
  shows "dlog (dispatch_pre premap i t) = dlog t @ calls pm (targets t (premap (get_ex t i))) @
      calls qm (rev (targets t (postmap (get_ex t i)))) @ told qm t @ completed qm (get_ex t i)"
    "msg_idle_q (dispatch_pre premap i t) = pq_push (msg_idle_q t) i Tail"
proof -
  let ?u = "at_map True empty_map (calls pm (targets t (premap (get_ex t i)))) i t"
  let ?v = "upd_ex i (clear_indc MSG_INDC_PRE_PHASE) (upd_ex i (clear_ex_flag MSG_STATUS_PRE_PHASE) ?u)"
  have p: "msg_pre_phase_hdl i t = ?u"
    using quiet_phase [OF q(1,2) _ q(4), of True "down (module_q t)"] q(3,4) pre
    by (simp add: phases_flat sel_eqs pm_def targets_def within_def modules_ready_def)
  have gu: "get_ex ?u i = put_map True empty_map (get_ex t i)" by (rule at_map_ex [OF q(2)])
  have fu: "frame ?v = frame t" by simp
  note f = frameD [OF fu]
  have gv: "get_ex ?v i = clear_indc MSG_INDC_PRE_PHASE (clear_ex_flag MSG_STATUS_PRE_PHASE (put_map True empty_map (get_ex t i)))"
    using q(2) gu by (simp add: upd_ex_def)
  have v: "postmap (get_ex ?v i) = postmap (get_ex t i)" "ex_msg (get_ex ?v i) = qm"
    "completed m (get_ex ?v i) = completed m (get_ex t i)" "no_detour (ex_status (get_ex ?v i))" for m
    using st unfolding gv
    by (simp_all add: put_map_def clear_indc_def clear_ex_flag_def qm_def completed_def no_detour_def phl_defs and.assoc)
  have np: "\<not> shows_pre ?v i" unfolding gv by simp
  have d: "dlog ?v = dlog t @ calls pm (targets t (premap (get_ex t i)))" by (simp add: upd_ex_def)
  have n: "\<not> TEST_STATUS_FLAG (ex_status (get_ex (upd_ex i (clear_ex_flag MSG_STATUS_PRE_PHASE) ?u) i)) MSG_STATUS_PRE_PHASE"
    using q(2) gu by (simp add: upd_ex_def clear_ex_flag_def phl_defs and.assoc)
  have "dispatch_pre premap i t = dispatch_post postmap i ?v"
    using q(3) pre(2) st gu n
    by (simp add: dispatch_pre_def p straight_on put_map_def is_bitmap_empty_def get_msg_bitmap_def in_pre_def)
  then show "dlog (dispatch_pre premap i t) = dlog t @ calls pm (targets t (premap (get_ex t i))) @
      calls qm (rev (targets t (postmap (get_ex t i)))) @ told qm t @ completed qm (get_ex t i)"
    "msg_idle_q (dispatch_pre premap i t) = pq_push (msg_idle_q t) i Tail"
    using quiet_post [of ?v i] f v np d q post by (simp_all add: targets_def within_def rev_filter)
qed


lemma quiet_controller:
  assumes "cbs t = []" "i < length (msg_ex_pool t)" "shows_pre t i"
  shows "notify_dispr_controller i t = at_map True
    (if TEST_STATUS_FLAG (d_status t) DISPR_CTRL_PRESENT
     then clr_bitmap_bit MODL_MASK_LEN (premap (get_ex t i)) [mdl_id (controller t)] else premap (get_ex t i))
    (if TEST_STATUS_FLAG (d_status t) DISPR_CTRL_PRESENT then [Ev_Mdl Ctrl (ex_msg (get_ex t i)) MDL_RET_SUCCESS] else []) i t"
  using quiet_feed [OF assms(1,2), of True Ctrl _ "premap (get_ex t i)" "[]"] assms(3) at_map_start [of True t i]
  by (simp add: notify_dispr_controller_def sel_eqs)

text \<open>
  C4. What a dispatch does when every handler succeeds and calls nothing: a message in its pre-phase, with maps that name
  only linked modules, the pre-map not empty and the controller not in it, goes to the controller if there is one, then
  with the pre-phase indicator to the started modules of the pre-map by falling priority, then without it to those of
  the post-map in reverse order, then to the command that holds the token unless it is cancelled; its completion
  routine is called at the end, once, if it was asked for, and the structure is back at the tail of the idle queue.
\<close>

theorem msg_dispatch_succeeds:
  assumes q: "cbs s = []" "i < length (msg_ex_pool s)" "modules_ready s"
    and st: "TEST_STATUS_FLAG (ex_status (get_ex s i)) MSG_STATUS_PRE_PHASE" "no_detour (ex_status (get_ex s i))"
    and pre: "within s (premap (get_ex s i))" "\<not> is_bitmap_empty (premap (get_ex s i))"
      "\<not> has (premap (get_ex s i)) (mdl_id (controller s))"
    and post: "within s (postmap (get_ex s i))"
    and msgs: "pm = ex_msg (set_indc MSG_INDC_PRE_PHASE (get_ex s i))"
      "qm = ex_msg (clear_indc MSG_INDC_PRE_PHASE (set_indc MSG_INDC_PRE_PHASE (get_ex s i)))"
  shows "dlog (msg_dispatch i s) = dlog s @
      (if TEST_STATUS_FLAG (d_status s) DISPR_CTRL_PRESENT then [Ev_Mdl Ctrl pm MDL_RET_SUCCESS] else []) @
      calls pm (targets s (premap (get_ex s i))) @ calls qm (rev (targets s (postmap (get_ex s i)))) @
      told qm s @ completed qm (get_ex s i) \<and>
    msg_idle_q (msg_dispatch i s) = pq_push (msg_idle_q s) i Tail"
proof -
  let ?t = "upd_ex i (set_indc MSG_INDC_PRE_PHASE) s"
  define u where "u = notify_dispr_controller i ?t"
  have t: "get_ex ?t i = set_indc MSG_INDC_PRE_PHASE (get_ex s i)" "frame ?t = frame s" "cbs ?t = []"
    "i < length (msg_ex_pool ?t)" "dlog ?t = dlog s" "d_status ?t = d_status s" "controller ?t = controller s"
    using q(1,2) by (simp_all add: upd_ex_def frame_def)
  have pt: "shows_pre ?t i" "premap (get_ex ?t i) = premap (get_ex s i)" unfolding t(1) by (simp_all, simp add: set_indc_def)
  define bm where "bm = (if TEST_STATUS_FLAG (d_status s) DISPR_CTRL_PRESENT
    then clr_bitmap_bit MODL_MASK_LEN (premap (get_ex s i)) [mdl_id (controller s)] else premap (get_ex s i))"
  have bm: "map_ok bm" "has bm k = has (premap (get_ex s i)) k" for k
    using pre has_clr map_clr_ok by (auto simp: bm_def within_def)
  have u: "u = at_map True bm (if TEST_STATUS_FLAG (d_status s) DISPR_CTRL_PRESENT then [Ev_Mdl Ctrl pm MDL_RET_SUCCESS] else []) i ?t"
    unfolding u_def bm_def using quiet_controller [OF t(3,4) pt(1)] pt t by (simp add: msgs)
  have gu: "get_ex u i = put_map True bm (set_indc MSG_INDC_PRE_PHASE (get_ex s i))"
    unfolding u using at_map_ex [OF t(4)] t(1) by simp
  have fu: "frame u = frame s" using t(2) by (simp add: u)
  note f = frameD [OF fu]
  have e: "premap (get_ex u i) = bm" "postmap (get_ex u i) = postmap (get_ex s i)" "no_detour (ex_status (get_ex u i))"
    "ex_msg (get_ex u i) = pm" "ex_msg (clear_indc MSG_INDC_PRE_PHASE (get_ex u i)) = qm"
    "completed m (get_ex u i) = completed m (get_ex s i)" for m
    using st(2) unfolding gu by (simp_all add: put_map_def msgs set_indc_def clear_indc_def completed_def)
  have w: "within u bm" "\<not> is_bitmap_empty bm" "within u (postmap (get_ex s i))"
    using pre post bm f map_empty_iff [OF bm(1)] map_empty_iff [of "premap (get_ex s i)"] by (auto simp: within_def)
  have "targets u b = targets s b" "targets s bm = targets s (premap (get_ex s i))" for b
    by (simp_all add: targets_def f bm)
  moreover have "dlog u = dlog s @ (if TEST_STATUS_FLAG (d_status s) DISPR_CTRL_PRESENT then [Ev_Mdl Ctrl pm MDL_RET_SUCCESS] else [])"
    using t(5) by (simp add: u)
  moreover have "shows_pre u i" using e(4) by (simp add: msgs)
  moreover have "no_detour (ex_status (get_ex ?t i))" using st(2) unfolding t(1) by (simp add: set_indc_def)
  then have "msg_dispatch i s = dispatch_pre premap i u"
    using st(1) e(3) by (simp add: msg_dispatch_def get_msg_bitmap_def straight_on flip: u_def)
  ultimately show ?thesis using quiet_pre [of u i] e w f q by simp
qed


lemma has_add:
  "map_ok bm \<Longrightarrow> unat m div 8 < unat MODL_MASK_LEN \<Longrightarrow>
   has (add_bitmap_bit MODL_MASK_LEN bm [m]) k \<longleftrightarrow> k = m \<or> has bm k"
  using bm8.chk_set [where n = MODL_MASK_LEN and m = bm and i = m and j = k]
  by (cases "unat k div 8 < unat MODL_MASK_LEN") (auto simp: map_ok_def chk_bitmap_bit_def)

lemma map_of_two:
  assumes "unat m < 128" "unat n < 128"
  shows "map_ok (add_bitmap_bit MODL_MASK_LEN (add_bitmap_bit MODL_MASK_LEN empty_map [m]) [n])"
    "has (add_bitmap_bit MODL_MASK_LEN (add_bitmap_bit MODL_MASK_LEN empty_map [m]) [n]) k \<longleftrightarrow> k = n \<or> k = m"
proof -
  have 1: "map_ok empty_map" "unat m div 8 < unat MODL_MASK_LEN" "unat n div 8 < unat MODL_MASK_LEN"
    using assms by (simp_all add: map_ok_def empty_map_def MODL_MASK_LEN_def)
  have 2: "map_ok bm \<Longrightarrow> map_ok (add_bitmap_bit MODL_MASK_LEN bm [i])" for bm i
    by (simp add: map_ok_def add_bitmap_bit_def)
  have "\<not> has empty_map k" using map_empty_iff [OF 1(1)] by (simp add: is_bitmap_empty_def)
  then show "map_ok (add_bitmap_bit MODL_MASK_LEN (add_bitmap_bit MODL_MASK_LEN empty_map [m]) [n])"
    "has (add_bitmap_bit MODL_MASK_LEN (add_bitmap_bit MODL_MASK_LEN empty_map [m]) [n]) k \<longleftrightarrow> k = n \<or> k = m"
    using 1 2 has_add by simp_all
qed

definition two_maps :: "u8 list" where
  "two_maps = add_bitmap_bit MODL_MASK_LEN (add_bitmap_bit MODL_MASK_LEN empty_map [20]) [40]"

definition ex_two :: phl_dispr_msg_ex where
  "ex_two = dispr_msg_ex0\<lparr>ex_status := MSG_STATUS_PRE_PHASE, premap := two_maps, postmap := two_maps\<rparr>"

definition dispr_two :: cmd_dispatcher where
  "dispr_two = (dispr_zero 0 1 [])\<lparr>msg_ex_pool := [ex_two],
     mdls := [5 \<mapsto> \<lparr>mdl_status = MDL_STARTED, mdl_id = 20\<rparr>, 6 \<mapsto> \<lparr>mdl_status = MDL_STARTED, mdl_id = 40\<rparr>],
     module_q := (\<lambda>_. pq_init)(0 := pq_push pq_init 5 Tail, 2 := pq_push pq_init 6 Tail)\<rparr>"

lemma dispr_two_facts:
  "cbs dispr_two = []" "get_ex dispr_two 0 = ex_two" "length (msg_ex_pool dispr_two) = 1" "down (module_q dispr_two) = [6, 5]"
  "id_of dispr_two 5 = 20" "id_of dispr_two 6 = 40" "modules_ready dispr_two" "within dispr_two two_maps"
  "has two_maps k \<longleftrightarrow> k = 40 \<or> k = 20" "\<not> is_bitmap_empty two_maps" "targets dispr_two two_maps = [6, 5]"
proof -
  show d: "down (module_q dispr_two) = [6, 5]"
    by (simp add: down_def dispr_two_def Phl_Dispr.walk_def pq_push_def pq_init_def)
  show i: "id_of dispr_two 5 = 20" "id_of dispr_two 6 = 40" by (simp_all add: id_of_def dispr_two_def)
  show "modules_ready dispr_two" unfolding modules_ready_def d
    by (simp add: i mdl_ready_def) (simp add: dispr_two_def TEST_STATUS_FLAG_def phl_defs)
  have m: "map_ok two_maps" "has two_maps k \<longleftrightarrow> k = 40 \<or> k = 20" for k
    unfolding two_maps_def by (rule map_of_two, simp_all)+
  then show "has two_maps k \<longleftrightarrow> k = 40 \<or> k = 20" "\<not> is_bitmap_empty two_maps" using map_empty_iff by auto
  show "within dispr_two two_maps" "targets dispr_two two_maps = [6, 5]"
    unfolding within_def targets_def d using m i by auto
qed (simp_all add: dispr_two_def dispr_zero_def)

theorem msg_dispatch_succeeds_witness:
  "dlog (msg_dispatch 0 dispr_two) =
     calls (ex_msg (set_indc MSG_INDC_PRE_PHASE ex_two)) [6, 5] @
     calls (ex_msg (clear_indc MSG_INDC_PRE_PHASE (set_indc MSG_INDC_PRE_PHASE ex_two))) [5, 6]"
proof -
  have e: "TEST_STATUS_FLAG (ex_status ex_two) MSG_STATUS_PRE_PHASE" "no_detour (ex_status ex_two)"
    "premap ex_two = two_maps" "postmap ex_two = two_maps"
    by (simp_all add: ex_two_def dispr_msg_ex0_def no_detour_def TEST_STATUS_FLAG_def phl_defs)
  have c: "mdl_id (controller dispr_two) = 0" "dlog dispr_two = []" "told m dispr_two = []" "completed m ex_two = []"
    "d_status dispr_two = 0" for m
    by (simp_all add: dispr_two_def dispr_zero_def told_def completed_def ex_two_def dispr_msg_ex0_def
        TEST_STATUS_FLAG_def phl_defs)
  note f = dispr_two_facts
  show ?thesis
    using msg_dispatch_succeeds [of dispr_two 0, OF _ _ f(7)] f e c by (simp add: TEST_STATUS_FLAG_def DISPR_CTRL_PRESENT_def)
qed

end
