(* ===== verification/Le_Bits.thy ===== *)
theory Le_Bits
  imports Pkt_Frames
begin

section \<open>Bit fields in little-endian buffers (include/basic_types.h)\<close>

text \<open>
  The macros that read and write a field of some bits in a byte, a 16-bit or a 32-bit little-endian word of a
  buffer. An access outside the buffer is \<open>None\<close>. The locale \<open>le_field\<close> is what the macros of the three widths
  have in common: on a buffer seen as a sequence of bits, a write replaces an interval and a read cuts one out.
\<close>

unbundle bit_operations_syntax

subsection \<open>The macros\<close>

definition read_le1 :: "nat \<Rightarrow> u8 list \<Rightarrow> u8 option" where
  "read_le1 off buf = (if off + 1 \<le> length buf then Some (buf ! off) else None)"

definition read_le4 :: "nat \<Rightarrow> u8 list \<Rightarrow> u32 option" where
  "read_le4 off buf =
     (if off + 4 \<le> length buf
      then Some (ucast (buf ! off) OR push_bit 8 (ucast (buf ! (off + 1))) OR
                 push_bit 16 (ucast (buf ! (off + 2))) OR push_bit 24 (ucast (buf ! (off + 3))))
      else None)"

definition WriteLE4Byte :: "nat \<Rightarrow> u32 \<Rightarrow> u8 list \<Rightarrow> u8 list option" where
  "WriteLE4Byte off v = put off [ucast v, ucast (drop_bit 8 v), ucast (drop_bit 16 v), ucast (drop_bit 24 v)]"

definition SET_BITS_TO_LE_1BYTE :: "nat \<Rightarrow> nat \<Rightarrow> nat \<Rightarrow> u8 \<Rightarrow> u8 list \<Rightarrow> u8 list option" where
  "SET_BITS_TO_LE_1BYTE off boff blen v buf =
     do { w \<leftarrow> read_le1 off buf;
          WriteLE1Byte off ((w AND NOT (push_bit boff (mask blen))) OR push_bit boff (v AND mask blen)) buf }"

definition SET_BITS_TO_LE_4BYTE :: "nat \<Rightarrow> nat \<Rightarrow> nat \<Rightarrow> u32 \<Rightarrow> u8 list \<Rightarrow> u8 list option" where
  "SET_BITS_TO_LE_4BYTE off boff blen v buf =
     do { w \<leftarrow> read_le4 off buf;
          WriteLE4Byte off ((w AND NOT (push_bit boff (mask blen))) OR push_bit boff (v AND mask blen)) buf }"

definition LE_BITS_TO_1BYTE :: "nat \<Rightarrow> nat \<Rightarrow> nat \<Rightarrow> u8 list \<Rightarrow> u8 option" where
  "LE_BITS_TO_1BYTE off boff blen buf = do { w \<leftarrow> read_le1 off buf; Some (drop_bit boff w AND mask blen) }"

definition LE_BITS_TO_2BYTE :: "nat \<Rightarrow> nat \<Rightarrow> nat \<Rightarrow> u8 list \<Rightarrow> u16 option" where
  "LE_BITS_TO_2BYTE off boff blen buf = do { w \<leftarrow> read_le2 off buf; Some (drop_bit boff w AND mask blen) }"

definition LE_BITS_TO_4BYTE :: "nat \<Rightarrow> nat \<Rightarrow> nat \<Rightarrow> u8 list \<Rightarrow> u32 option" where
  "LE_BITS_TO_4BYTE off boff blen buf = do { w \<leftarrow> read_le4 off buf; Some (drop_bit boff w AND mask blen) }"

subsection \<open>Buffers as sequences of bits\<close>

definition buf_bit :: "u8 list \<Rightarrow> nat \<Rightarrow> bool" where
  "buf_bit buf k = bit (buf ! (k div 8)) (k mod 8)"

text \<open>The word that stands in the \<open>l\<close> bits from bit \<open>s\<close> on.\<close>

definition cut_bits :: "(nat \<Rightarrow> bool) \<Rightarrow> nat \<Rightarrow> nat \<Rightarrow> 'a::len word" where
  "cut_bits f s l = horner_sum of_bool 2 (map (\<lambda>j. f (s + j)) [0..<l])"

definition of_bits :: "nat \<Rightarrow> (nat \<Rightarrow> bool) \<Rightarrow> u8 list" where
  "of_bits n f = map (\<lambda>i. cut_bits f (8 * i) 8) [0..<n]"

definition paste :: "nat \<Rightarrow> nat \<Rightarrow> (nat \<Rightarrow> bool) \<Rightarrow> (nat \<Rightarrow> bool) \<Rightarrow> nat \<Rightarrow> bool" where
  "paste s l g f k = (if s \<le> k \<and> k < s + l then g (k - s) else f k)"

definition le_bytes :: "nat \<Rightarrow> 'a::len word \<Rightarrow> u8 list" where
  "le_bytes w v = map (\<lambda>i. ucast (drop_bit (8 * i) v)) [0..<w]"

lemma bit_cut_bits [simp]: "bit (cut_bits f s l :: 'a::len word) k \<longleftrightarrow> k < LENGTH('a) \<and> k < l \<and> f (s + k)"
  by (auto simp: cut_bits_def bit_horner_sum_bit_word_iff)

lemma length_of_bits [simp]: "length (of_bits n f) = n"
  by (simp add: of_bits_def)

lemma buf_bit_of_bits [simp]: "k < 8 * n \<Longrightarrow> buf_bit (of_bits n f) k = f k"
  by (auto simp: buf_bit_def of_bits_def)

lemma of_bits_eqI:
  assumes "length buf = n" "\<And>k. k < 8 * n \<Longrightarrow> buf_bit buf k = f k"
  shows "buf = of_bits n f"
proof (rule nth_equalityI)
  fix i assume i: "i < length buf"
  have "bit (buf ! i) k = f (8 * i + k)" if "k < 8" for k
    using assms(2) [of "8 * i + k"] i that assms(1) by (simp add: buf_bit_def)
  then show "buf ! i = of_bits n f ! i"
    using i assms(1) by (auto simp: of_bits_def bit_eq_iff)
qed (simp add: assms(1))

lemma of_bits_buf_bit: "of_bits (length buf) (buf_bit buf) = buf"
  by (rule of_bits_eqI [symmetric]) simp_all

lemma buf_bit_le_bytes: "k < 8 * w \<Longrightarrow> bit (le_bytes w v ! (k div 8)) (k mod 8) = bit v k"
proof -
  assume "k < 8 * w"
  then have "k div 8 < w" by (simp add: div_less_iff_less_mult mult.commute)
  then show ?thesis by (simp add: le_bytes_def bit_ucast_iff bit_drop_bit_eq)
qed

lemma put_le_bytes:
  assumes "off + w \<le> n"
  shows "put off (le_bytes w v) (of_bits n f) = Some (of_bits n (paste (8 * off) (8 * w) (bit v) f))"
proof -
  let ?b = "take off (of_bits n f) @ le_bytes w v @ drop (off + w) (of_bits n f)"
  have l: "length (le_bytes w v) = w" by (simp add: le_bytes_def)
  have "buf_bit ?b k = paste (8 * off) (8 * w) (bit v) f k" if k: "k < 8 * n" for k
  proof -
    have e: "?b ! i = (if i < off then of_bits n f ! i else if i < off + w then le_bytes w v ! (i - off) else of_bits n f ! i)"
      if "i < n" for i
      using assms l that by (auto simp: nth_append min_def)
    have d: "k div 8 < n" using k by (simp add: div_less_iff_less_mult mult.commute)
    have r: "k div 8 < off \<longleftrightarrow> k < 8 * off" "k div 8 < off + w \<longleftrightarrow> k < 8 * off + 8 * w"
      by (simp_all add: div_less_iff_less_mult algebra_simps)
    have "bit (le_bytes w v ! (k div 8 - off)) (k mod 8) = bit v (k - 8 * off)" if "8 * off \<le> k" "k < 8 * off + 8 * w"
    proof -
      have m: "(k - 8 * off) div 8 = k div 8 - off" "(k - 8 * off) mod 8 = k mod 8"
        using that(1) by (auto simp: le_iff_add)
      show ?thesis using buf_bit_le_bytes [of "k - 8 * off" w v] that unfolding m by simp
    qed
    then show ?thesis
      using e [OF d] r buf_bit_of_bits [OF k, of f] by (auto simp: buf_bit_def paste_def)
  qed
  then have "?b = of_bits n (paste (8 * off) (8 * w) (bit v) f)"
    using assms l by (intro of_bits_eqI) auto
  then show ?thesis using assms l by (simp add: put_def)
qed


text \<open>Cutting out what was pasted in, or something beside it.\<close>

lemma cut_paste_same: "l \<le> LENGTH('a) \<Longrightarrow> cut_bits (paste s l (bit (v :: 'a::len word)) f) s l = take_bit l v"
  by (rule bit_word_eqI) (auto simp: bit_take_bit_iff paste_def)

lemma cut_paste_other:
  "s' + l' \<le> s \<or> s + l \<le> s' \<Longrightarrow> cut_bits (paste s l g f) s' l' = cut_bits f s' l'"
  by (rule bit_word_eqI) (auto simp: paste_def)

subsection \<open>What the widths have in common\<close>

locale le_field =
  fixes w :: nat
    and rd :: "nat \<Rightarrow> u8 list \<Rightarrow> 'a::len word option"
    and set_field :: "nat \<Rightarrow> nat \<Rightarrow> nat \<Rightarrow> 'a word \<Rightarrow> u8 list \<Rightarrow> u8 list option"
    and get_field :: "nat \<Rightarrow> nat \<Rightarrow> nat \<Rightarrow> u8 list \<Rightarrow> 'a word option"
  assumes width: "LENGTH('a) = 8 * w"
    and rd_inside: "off + w \<le> n \<Longrightarrow> rd off (of_bits n f) = Some (cut_bits f (8 * off) (8 * w))"
    and rd_outside: "\<not> off + w \<le> length buf \<Longrightarrow> rd off buf = None"
    and set_field: "set_field off boff blen v buf =
      do { x \<leftarrow> rd off buf; put off (le_bytes w ((x AND NOT (push_bit boff (mask blen))) OR push_bit boff (v AND mask blen))) buf }"
    and get_field: "get_field off boff blen buf = do { x \<leftarrow> rd off buf; Some (drop_bit boff x AND mask blen) }"
begin

lemma set_bits [simp]:
  assumes "off + w \<le> n" "boff + blen \<le> 8 * w"
  shows "set_field off boff blen v (of_bits n f) = Some (of_bits n (paste (8 * off + boff) blen (bit v) f))"
proof -
  let ?x = "(cut_bits f (8 * off) (8 * w) AND NOT (push_bit boff (mask blen))) OR push_bit boff (v AND mask blen)"
  have "bit ?x k = (if boff \<le> k \<and> k < boff + blen then bit v (k - boff) else f (8 * off + k))" if "k < 8 * w" for k
    using that assms(2) width by (auto simp: bit_simps)
  then have "paste (8 * off) (8 * w) (bit ?x) f k = paste (8 * off + boff) blen (bit v) f k" for k
    using assms(2) by (cases "8 * off \<le> k") (auto simp: paste_def le_iff_add)
  then have "paste (8 * off) (8 * w) (bit ?x) f = paste (8 * off + boff) blen (bit v) f" by blast
  then show ?thesis using assms(1) by (simp add: set_field rd_inside put_le_bytes)
qed

lemma get_bits [simp]:
  assumes "off + w \<le> n" "boff + blen \<le> 8 * w"
  shows "get_field off boff blen (of_bits n f) = Some (cut_bits f (8 * off + boff) blen)"
proof -
  have "drop_bit boff (cut_bits f (8 * off) (8 * w)) AND mask blen = (cut_bits f (8 * off + boff) blen :: 'a word)"
    using assms(2) width by (intro bit_word_eqI) (auto simp: bit_simps add.assoc)
  then show ?thesis using assms(1) by (simp add: get_field rd_inside)
qed

lemma get_outside [simp]: "\<not> off + w \<le> length buf \<Longrightarrow> get_field off boff blen buf = None"
  by (simp add: get_field rd_outside)

lemma get_inside: "off + w \<le> length buf \<Longrightarrow> boff + blen \<le> 8 * w \<Longrightarrow>
    get_field off boff blen buf = Some (cut_bits (buf_bit buf) (8 * off + boff) blen)"
  using get_bits [of off "length buf" boff blen "buf_bit buf"] by (simp add: of_bits_buf_bit)

end

interpretation le1: le_field 1 read_le1 SET_BITS_TO_LE_1BYTE LE_BITS_TO_1BYTE
proof
  fix off n :: nat and f :: "nat \<Rightarrow> bool" assume "off + 1 \<le> n"
  then show "read_le1 off (of_bits n f) = Some (cut_bits f (8 * off) (8 * 1))"
    by (simp add: read_le1_def) (simp add: of_bits_def)
qed (simp_all add: read_le1_def SET_BITS_TO_LE_1BYTE_def WriteLE1Byte_def LE_BITS_TO_1BYTE_def le_bytes_def)

interpretation le2: le_field 2 read_le2 SET_BITS_TO_LE_2BYTE LE_BITS_TO_2BYTE
proof
  fix off n :: nat and f :: "nat \<Rightarrow> bool" assume n: "off + 2 \<le> n"
  then have "of_bits n f ! off = cut_bits f (8 * off) 8" "of_bits n f ! Suc off = cut_bits f (8 * Suc off) 8"
    by (simp_all add: of_bits_def)
  then show "read_le2 off (of_bits n f) = Some (cut_bits f (8 * off) (8 * 2))"
    using n by (simp add: read_le2_def) (rule bit_word_eqI, auto simp: bit_simps add.commute)
qed (simp_all add: read_le2_def SET_BITS_TO_LE_2BYTE_def WriteLE2Byte_def LE_BITS_TO_2BYTE_def le_bytes_def upt_rec)

interpretation le4: le_field 4 read_le4 SET_BITS_TO_LE_4BYTE LE_BITS_TO_4BYTE
proof
  fix off n :: nat and f :: "nat \<Rightarrow> bool" assume n: "off + 4 \<le> n"
  then have e: "of_bits n f ! (off + i) = cut_bits f (8 * (off + i)) 8" if "i < 4" for i
    using that by (simp add: of_bits_def)
  let ?x = "ucast (of_bits n f ! off) OR push_bit 8 (ucast (of_bits n f ! (off + 1))) OR
    push_bit 16 (ucast (of_bits n f ! (off + 2))) OR push_bit 24 (ucast (of_bits n f ! (off + 3))) :: u32"
  have "bit ?x k = f (8 * off + k)" if k: "k < 32" for k
  proof -
    consider "k < 8" | j where "k = 8 + j" "j < 8" | j where "k = 16 + j" "j < 8" | j where "k = 24 + j" "j < 8"
    proof -
      have "k < 8 \<or> (8 \<le> k \<and> k - 8 < 8) \<or> (16 \<le> k \<and> k - 16 < 8) \<or> (24 \<le> k \<and> k - 24 < 8)" using k by auto
      then show thesis using that by (metis le_add_diff_inverse)
    qed
    then show ?thesis using e [of 0] e [of 1] e [of 2] e [of 3] by cases (simp_all add: bit_simps ac_simps)
  qed
  then have "?x = cut_bits f (8 * off) (8 * 4)" by (intro bit_word_eqI) simp
  then show "read_le4 off (of_bits n f) = Some (cut_bits f (8 * off) (8 * 4))" using n by (simp add: read_le4_def)
qed (simp_all add: read_le4_def SET_BITS_TO_LE_4BYTE_def WriteLE4Byte_def LE_BITS_TO_4BYTE_def le_bytes_def upt_rec)

end
