(* ===== verification/Twt_Fields.thy ===== *)
theory Twt_Fields
  imports Le_Bits
begin

section \<open>The fields of TWT frames (phl_twt.h)\<close>

text \<open>
  The macros that write and read the fields of the target wake time (TWT) element, the flow field of a teardown frame
  and the information field. The first argument is the offset of the address the macro gets; a value is
  converted to the width of the access, as the casts of the macros do.
\<close>

named_theorems twt_macros \<open>the field macros and constants of TWT frames\<close>

subsection \<open>Lengths\<close>

definition CONTROL_LENGTH :: u8 where [twt_macros]: "CONTROL_LENGTH = 1"

definition REQUEST_TYPE_LENGTH :: u8 where [twt_macros]: "REQUEST_TYPE_LENGTH = 2"

definition NOMINAL_MINIMUM_TWT_WAKE_DURATION_LENGTH :: u8 where [twt_macros]: "NOMINAL_MINIMUM_TWT_WAKE_DURATION_LENGTH = 1"

definition TARGET_WAKE_TIME_LENGTH :: u8 where [twt_macros]: "TARGET_WAKE_TIME_LENGTH = 8"

definition BTWT_TARGET_WAKE_TIME_LENGTH :: u8 where [twt_macros]: "BTWT_TARGET_WAKE_TIME_LENGTH = 2"

definition TWT_WAKE_INTERVAL_MANTISSA_LENGTH :: u8 where [twt_macros]: "TWT_WAKE_INTERVAL_MANTISSA_LENGTH = 2"

definition TWT_CHANNEL_LENGTH :: u8 where [twt_macros]: "TWT_CHANNEL_LENGTH = 1"

definition BTWT_INFO_LENGTH :: u8 where [twt_macros]: "BTWT_INFO_LENGTH = 2"

definition MIN_BTWT_PARA_LEN :: u8 where [twt_macros]:
  "MIN_BTWT_PARA_LEN = REQUEST_TYPE_LENGTH + BTWT_TARGET_WAKE_TIME_LENGTH + NOMINAL_MINIMUM_TWT_WAKE_DURATION_LENGTH +
     TWT_WAKE_INTERVAL_MANTISSA_LENGTH + BTWT_INFO_LENGTH"

definition MAX_BTWT_PARA_SET :: nat where [twt_macros]: "MAX_BTWT_PARA_SET = 3"

subsection \<open>Fields\<close>

definition SET_TWT_INFO_FLOW_ID :: "nat \<Rightarrow> 'v::len word \<Rightarrow> u8 list \<Rightarrow> u8 list option" where [twt_macros]:
  "SET_TWT_INFO_FLOW_ID p v = SET_BITS_TO_LE_1BYTE p 0 3 (ucast v)"

definition SET_TWT_INFO_RSP_REQ :: "nat \<Rightarrow> 'v::len word \<Rightarrow> u8 list \<Rightarrow> u8 list option" where [twt_macros]:
  "SET_TWT_INFO_RSP_REQ p v = SET_BITS_TO_LE_1BYTE p 3 1 (ucast v)"

definition SET_TWT_INFO_NEXT_TWT_REQ :: "nat \<Rightarrow> 'v::len word \<Rightarrow> u8 list \<Rightarrow> u8 list option" where [twt_macros]:
  "SET_TWT_INFO_NEXT_TWT_REQ p v = SET_BITS_TO_LE_1BYTE p 4 1 (ucast v)"

definition SET_TWT_INFO_NEXT_TWT_SIZE :: "nat \<Rightarrow> 'v::len word \<Rightarrow> u8 list \<Rightarrow> u8 list option" where [twt_macros]:
  "SET_TWT_INFO_NEXT_TWT_SIZE p v = SET_BITS_TO_LE_1BYTE p 5 2 (ucast v)"

definition SET_TWT_INFO_ALL_TWT :: "nat \<Rightarrow> 'v::len word \<Rightarrow> u8 list \<Rightarrow> u8 list option" where [twt_macros]:
  "SET_TWT_INFO_ALL_TWT p v = SET_BITS_TO_LE_1BYTE p 7 1 (ucast v)"

definition GET_TWT_INFO_FLOW_ID :: "nat \<Rightarrow> u8 list \<Rightarrow> u8 option" where [twt_macros]:
  "GET_TWT_INFO_FLOW_ID p = LE_BITS_TO_1BYTE p 0 3"

definition GET_TWT_INFO_RSP_REQ :: "nat \<Rightarrow> u8 list \<Rightarrow> u8 option" where [twt_macros]:
  "GET_TWT_INFO_RSP_REQ p = LE_BITS_TO_1BYTE p 3 1"

definition GET_TWT_INFO_NEXT_TWT_REQ :: "nat \<Rightarrow> u8 list \<Rightarrow> u8 option" where [twt_macros]:
  "GET_TWT_INFO_NEXT_TWT_REQ p = LE_BITS_TO_1BYTE p 4 1"

definition GET_TWT_INFO_NEXT_TWT_SIZE :: "nat \<Rightarrow> u8 list \<Rightarrow> u8 option" where [twt_macros]:
  "GET_TWT_INFO_NEXT_TWT_SIZE p = LE_BITS_TO_1BYTE p 5 2"

definition GET_TWT_INFO_ALL_TWT :: "nat \<Rightarrow> u8 list \<Rightarrow> u8 option" where [twt_macros]:
  "GET_TWT_INFO_ALL_TWT p = LE_BITS_TO_1BYTE p 7 1"

definition SET_TWT_CONTROL_NDP_PAGING_INDICATOR :: "nat \<Rightarrow> 'v::len word \<Rightarrow> u8 list \<Rightarrow> u8 list option" where [twt_macros]:
  "SET_TWT_CONTROL_NDP_PAGING_INDICATOR p v = SET_BITS_TO_LE_1BYTE p 0 1 (ucast v)"

definition SET_TWT_CONTROL_RESPONDER_PM_MODE :: "nat \<Rightarrow> 'v::len word \<Rightarrow> u8 list \<Rightarrow> u8 list option" where [twt_macros]:
  "SET_TWT_CONTROL_RESPONDER_PM_MODE p v = SET_BITS_TO_LE_1BYTE p 1 1 (ucast v)"

definition SET_TWT_CONTROL_NEGOTIATION_TYPE :: "nat \<Rightarrow> 'v::len word \<Rightarrow> u8 list \<Rightarrow> u8 list option" where [twt_macros]:
  "SET_TWT_CONTROL_NEGOTIATION_TYPE p v = SET_BITS_TO_LE_1BYTE p 2 2 (ucast v)"

definition SET_TWT_CONTROL_TWT_INFORMATION_FRAME_DISABLE :: "nat \<Rightarrow> 'v::len word \<Rightarrow> u8 list \<Rightarrow> u8 list option" where [twt_macros]:
  "SET_TWT_CONTROL_TWT_INFORMATION_FRAME_DISABLE p v = SET_BITS_TO_LE_1BYTE p 4 1 (ucast v)"

definition SET_TWT_CONTROL_WAKE_DURATION_UNIT :: "nat \<Rightarrow> 'v::len word \<Rightarrow> u8 list \<Rightarrow> u8 list option" where [twt_macros]:
  "SET_TWT_CONTROL_WAKE_DURATION_UNIT p v = SET_BITS_TO_LE_1BYTE p 5 1 (ucast v)"

definition SET_TWT_REQ_TYPE_TWT_REQUEST :: "nat \<Rightarrow> 'v::len word \<Rightarrow> u8 list \<Rightarrow> u8 list option" where [twt_macros]:
  "SET_TWT_REQ_TYPE_TWT_REQUEST p v = SET_BITS_TO_LE_1BYTE p 0 1 (ucast v)"

definition SET_TWT_REQ_TYPE_TWT_SETUP_COMMAND :: "nat \<Rightarrow> 'v::len word \<Rightarrow> u8 list \<Rightarrow> u8 list option" where [twt_macros]:
  "SET_TWT_REQ_TYPE_TWT_SETUP_COMMAND p v = SET_BITS_TO_LE_1BYTE p 1 3 (ucast v)"

definition SET_TWT_REQ_TYPE_TRIGGER :: "nat \<Rightarrow> 'v::len word \<Rightarrow> u8 list \<Rightarrow> u8 list option" where [twt_macros]:
  "SET_TWT_REQ_TYPE_TRIGGER p v = SET_BITS_TO_LE_1BYTE p 4 1 (ucast v)"

definition SET_TWT_REQ_TYPE_IMPLICIT :: "nat \<Rightarrow> 'v::len word \<Rightarrow> u8 list \<Rightarrow> u8 list option" where [twt_macros]:
  "SET_TWT_REQ_TYPE_IMPLICIT p v = SET_BITS_TO_LE_1BYTE p 5 1 (ucast v)"

definition SET_TWT_REQ_TYPE_FLOW_TYPE :: "nat \<Rightarrow> 'v::len word \<Rightarrow> u8 list \<Rightarrow> u8 list option" where [twt_macros]:
  "SET_TWT_REQ_TYPE_FLOW_TYPE p v = SET_BITS_TO_LE_1BYTE p 6 1 (ucast v)"

definition SET_TWT_REQ_TYPE_TWT_FLOW_IDENTIFER :: "nat \<Rightarrow> 'v::len word \<Rightarrow> u8 list \<Rightarrow> u8 list option" where [twt_macros]:
  "SET_TWT_REQ_TYPE_TWT_FLOW_IDENTIFER p v = SET_BITS_TO_LE_2BYTE p 7 3 (ucast v)"

definition SET_TWT_REQ_TYPE_TWT_WAKE_INTERVAL_EXPONENT :: "nat \<Rightarrow> 'v::len word \<Rightarrow> u8 list \<Rightarrow> u8 list option" where [twt_macros]:
  "SET_TWT_REQ_TYPE_TWT_WAKE_INTERVAL_EXPONENT p v = SET_BITS_TO_LE_2BYTE p 10 5 (ucast v)"

definition SET_TWT_REQ_TYPE_TWT_PROTECTION :: "nat \<Rightarrow> 'v::len word \<Rightarrow> u8 list \<Rightarrow> u8 list option" where [twt_macros]:
  "SET_TWT_REQ_TYPE_TWT_PROTECTION p v = SET_BITS_TO_LE_2BYTE p 15 1 (ucast v)"

definition SET_TWT_TARGET_WAKE_TIME_L :: "nat \<Rightarrow> 'v::len word \<Rightarrow> u8 list \<Rightarrow> u8 list option" where [twt_macros]:
  "SET_TWT_TARGET_WAKE_TIME_L p v = SET_BITS_TO_LE_4BYTE (p + 2) 0 32 (ucast v)"

definition SET_TWT_TARGET_WAKE_TIME_H :: "nat \<Rightarrow> 'v::len word \<Rightarrow> u8 list \<Rightarrow> u8 list option" where [twt_macros]:
  "SET_TWT_TARGET_WAKE_TIME_H p v = SET_BITS_TO_LE_4BYTE (p + 6) 0 32 (ucast v)"

definition SET_TWT_NOMINAL_MINIMUM_TWT_WAKE_DURATION :: "nat \<Rightarrow> nat \<Rightarrow> 'v::len word \<Rightarrow> u8 list \<Rightarrow> u8 list option" where [twt_macros]:
  "SET_TWT_NOMINAL_MINIMUM_TWT_WAKE_DURATION p off v = SET_BITS_TO_LE_1BYTE (p + off) 0 8 (ucast v)"

definition SET_TWT_TWT_WAKE_INTERVAL_MANTISSA :: "nat \<Rightarrow> nat \<Rightarrow> 'v::len word \<Rightarrow> u8 list \<Rightarrow> u8 list option" where [twt_macros]:
  "SET_TWT_TWT_WAKE_INTERVAL_MANTISSA p off v = SET_BITS_TO_LE_2BYTE (p + off) 0 16 (ucast v)"

definition SET_TWT_TWT_CHANNEL :: "nat \<Rightarrow> nat \<Rightarrow> 'v::len word \<Rightarrow> u8 list \<Rightarrow> u8 list option" where [twt_macros]:
  "SET_TWT_TWT_CHANNEL p off v = SET_BITS_TO_LE_1BYTE (p + off) 0 8 (ucast v)"

definition SET_BTWT_REQ_TYPE_TWT_REQUEST :: "nat \<Rightarrow> 'v::len word \<Rightarrow> u8 list \<Rightarrow> u8 list option" where [twt_macros]:
  "SET_BTWT_REQ_TYPE_TWT_REQUEST p v = SET_BITS_TO_LE_1BYTE p 0 1 (ucast v)"

definition SET_BTWT_REQ_TYPE_TWT_SETUP_COMMAND :: "nat \<Rightarrow> 'v::len word \<Rightarrow> u8 list \<Rightarrow> u8 list option" where [twt_macros]:
  "SET_BTWT_REQ_TYPE_TWT_SETUP_COMMAND p v = SET_BITS_TO_LE_1BYTE p 1 3 (ucast v)"

definition SET_BTWT_REQ_TYPE_TRIGGER :: "nat \<Rightarrow> 'v::len word \<Rightarrow> u8 list \<Rightarrow> u8 list option" where [twt_macros]:
  "SET_BTWT_REQ_TYPE_TRIGGER p v = SET_BITS_TO_LE_1BYTE p 4 1 (ucast v)"

definition SET_BTWT_REQ_TYPE_LST_BC_PARA_SET :: "nat \<Rightarrow> 'v::len word \<Rightarrow> u8 list \<Rightarrow> u8 list option" where [twt_macros]:
  "SET_BTWT_REQ_TYPE_LST_BC_PARA_SET p v = SET_BITS_TO_LE_1BYTE p 5 1 (ucast v)"

definition SET_BTWT_REQ_TYPE_FLOW_TYPE :: "nat \<Rightarrow> 'v::len word \<Rightarrow> u8 list \<Rightarrow> u8 list option" where [twt_macros]:
  "SET_BTWT_REQ_TYPE_FLOW_TYPE p v = SET_BITS_TO_LE_1BYTE p 6 1 (ucast v)"

definition SET_BTWT_REQ_TYPE_RCMD :: "nat \<Rightarrow> 'v::len word \<Rightarrow> u8 list \<Rightarrow> u8 list option" where [twt_macros]:
  "SET_BTWT_REQ_TYPE_RCMD p v = SET_BITS_TO_LE_2BYTE p 7 3 (ucast v)"

definition SET_BTWT_REQ_TYPE_TWT_WAKE_INTERVAL_EXPONENT :: "nat \<Rightarrow> 'v::len word \<Rightarrow> u8 list \<Rightarrow> u8 list option" where [twt_macros]:
  "SET_BTWT_REQ_TYPE_TWT_WAKE_INTERVAL_EXPONENT p v = SET_BITS_TO_LE_2BYTE p 10 5 (ucast v)"

definition SET_BTWT_TARGET_WAKE_TIME :: "nat \<Rightarrow> 'v::len word \<Rightarrow> u8 list \<Rightarrow> u8 list option" where [twt_macros]:
  "SET_BTWT_TARGET_WAKE_TIME p v = SET_BITS_TO_LE_2BYTE p 0 16 (ucast v)"

definition SET_BTWT_NOMINAL_MINIMUM_TWT_WAKE_DURATION :: "nat \<Rightarrow> 'v::len word \<Rightarrow> u8 list \<Rightarrow> u8 list option" where [twt_macros]:
  "SET_BTWT_NOMINAL_MINIMUM_TWT_WAKE_DURATION p v = SET_BITS_TO_LE_1BYTE p 0 8 (ucast v)"

definition SET_BTWT_TWT_WAKE_INTERVAL_MANTISSA :: "nat \<Rightarrow> 'v::len word \<Rightarrow> u8 list \<Rightarrow> u8 list option" where [twt_macros]:
  "SET_BTWT_TWT_WAKE_INTERVAL_MANTISSA p v = SET_BITS_TO_LE_2BYTE p 0 16 (ucast v)"

definition SET_BTWT_ID :: "nat \<Rightarrow> 'v::len word \<Rightarrow> u8 list \<Rightarrow> u8 list option" where [twt_macros]:
  "SET_BTWT_ID p v = SET_BITS_TO_LE_2BYTE p 3 5 (ucast v)"

definition SET_BTWT_PRSTNC :: "nat \<Rightarrow> 'v::len word \<Rightarrow> u8 list \<Rightarrow> u8 list option" where [twt_macros]:
  "SET_BTWT_PRSTNC p v = SET_BITS_TO_LE_2BYTE p 8 8 (ucast v)"

definition SET_TWT_FLOW_ID :: "nat \<Rightarrow> 'v::len word \<Rightarrow> u8 list \<Rightarrow> u8 list option" where [twt_macros]:
  "SET_TWT_FLOW_ID p v = SET_BITS_TO_LE_1BYTE p 0 3 (ucast v)"

definition SET_NEGOTIATION_TYPE :: "nat \<Rightarrow> 'v::len word \<Rightarrow> u8 list \<Rightarrow> u8 list option" where [twt_macros]:
  "SET_NEGOTIATION_TYPE p v = SET_BITS_TO_LE_1BYTE p 5 2 (ucast v)"

definition SET_TEARDOWN_ALL_TWT :: "nat \<Rightarrow> 'v::len word \<Rightarrow> u8 list \<Rightarrow> u8 list option" where [twt_macros]:
  "SET_TEARDOWN_ALL_TWT p v = SET_BITS_TO_LE_1BYTE p 7 1 (ucast v)"

definition SET_BROADCAST_TWT_ID :: "nat \<Rightarrow> 'v::len word \<Rightarrow> u8 list \<Rightarrow> u8 list option" where [twt_macros]:
  "SET_BROADCAST_TWT_ID p v = SET_BITS_TO_LE_1BYTE p 0 5 (ucast v)"

definition GET_TWT_CONTROL_NDP_PAGING_INDICATOR :: "nat \<Rightarrow> u8 list \<Rightarrow> u8 option" where [twt_macros]:
  "GET_TWT_CONTROL_NDP_PAGING_INDICATOR p = LE_BITS_TO_1BYTE p 0 1"

definition GET_TWT_CONTROL_RESPONDER_PM_MODE :: "nat \<Rightarrow> u8 list \<Rightarrow> u8 option" where [twt_macros]:
  "GET_TWT_CONTROL_RESPONDER_PM_MODE p = LE_BITS_TO_1BYTE p 1 1"

definition GET_TWT_CONTROL_NEGOTIATION_TYPE :: "nat \<Rightarrow> u8 list \<Rightarrow> u8 option" where [twt_macros]:
  "GET_TWT_CONTROL_NEGOTIATION_TYPE p = LE_BITS_TO_1BYTE p 2 2"

definition GET_TWT_CONTROL_TWT_INFORMATION_FRAME_DISABLE :: "nat \<Rightarrow> u8 list \<Rightarrow> u8 option" where [twt_macros]:
  "GET_TWT_CONTROL_TWT_INFORMATION_FRAME_DISABLE p = LE_BITS_TO_1BYTE p 4 1"

definition GET_TWT_CONTROL_WAKE_DURATION_UNIT :: "nat \<Rightarrow> u8 list \<Rightarrow> u8 option" where [twt_macros]:
  "GET_TWT_CONTROL_WAKE_DURATION_UNIT p = LE_BITS_TO_1BYTE p 5 1"

definition GET_TWT_REQ_TYPE_TWT_REQUEST :: "nat \<Rightarrow> u8 list \<Rightarrow> u16 option" where [twt_macros]:
  "GET_TWT_REQ_TYPE_TWT_REQUEST p = LE_BITS_TO_2BYTE p 0 1"

definition GET_TWT_REQ_TYPE_TWT_SETUP_COMMAND :: "nat \<Rightarrow> u8 list \<Rightarrow> u16 option" where [twt_macros]:
  "GET_TWT_REQ_TYPE_TWT_SETUP_COMMAND p = LE_BITS_TO_2BYTE p 1 3"

definition GET_TWT_REQ_TYPE_TRIGGER :: "nat \<Rightarrow> u8 list \<Rightarrow> u16 option" where [twt_macros]:
  "GET_TWT_REQ_TYPE_TRIGGER p = LE_BITS_TO_2BYTE p 4 1"

definition GET_TWT_REQ_TYPE_IMPLICIT :: "nat \<Rightarrow> u8 list \<Rightarrow> u16 option" where [twt_macros]:
  "GET_TWT_REQ_TYPE_IMPLICIT p = LE_BITS_TO_2BYTE p 5 1"

definition GET_TWT_REQ_TYPE_FLOW_TYPE :: "nat \<Rightarrow> u8 list \<Rightarrow> u16 option" where [twt_macros]:
  "GET_TWT_REQ_TYPE_FLOW_TYPE p = LE_BITS_TO_2BYTE p 6 1"

definition GET_TWT_REQ_TYPE_TWT_FLOW_IDENTIFER :: "nat \<Rightarrow> u8 list \<Rightarrow> u16 option" where [twt_macros]:
  "GET_TWT_REQ_TYPE_TWT_FLOW_IDENTIFER p = LE_BITS_TO_2BYTE p 7 3"

definition GET_TWT_REQ_TYPE_TWT_WAKE_INTERVAL_EXPONENT :: "nat \<Rightarrow> u8 list \<Rightarrow> u16 option" where [twt_macros]:
  "GET_TWT_REQ_TYPE_TWT_WAKE_INTERVAL_EXPONENT p = LE_BITS_TO_2BYTE p 10 5"

definition GET_TWT_REQ_TYPE_TWT_PROTECTION :: "nat \<Rightarrow> u8 list \<Rightarrow> u16 option" where [twt_macros]:
  "GET_TWT_REQ_TYPE_TWT_PROTECTION p = LE_BITS_TO_2BYTE p 15 1"

definition GET_TWT_TARGET_WAKE_TIME_L :: "nat \<Rightarrow> u8 list \<Rightarrow> u32 option" where [twt_macros]:
  "GET_TWT_TARGET_WAKE_TIME_L p = LE_BITS_TO_4BYTE p 0 32"

definition GET_TWT_TARGET_WAKE_TIME_H :: "nat \<Rightarrow> u8 list \<Rightarrow> u32 option" where [twt_macros]:
  "GET_TWT_TARGET_WAKE_TIME_H p = LE_BITS_TO_4BYTE (p + 4) 0 32"

definition GET_TWT_NOMINAL_MINIMUM_TWT_WAKE_DURATION :: "nat \<Rightarrow> u8 list \<Rightarrow> u8 option" where [twt_macros]:
  "GET_TWT_NOMINAL_MINIMUM_TWT_WAKE_DURATION p = LE_BITS_TO_1BYTE p 0 8"

definition GET_TWT_TWT_WAKE_INTERVAL_MANTISSA :: "nat \<Rightarrow> u8 list \<Rightarrow> u16 option" where [twt_macros]:
  "GET_TWT_TWT_WAKE_INTERVAL_MANTISSA p = LE_BITS_TO_2BYTE p 0 16"

definition GET_TWT_TWT_CHANNEL :: "nat \<Rightarrow> u8 list \<Rightarrow> u8 option" where [twt_macros]:
  "GET_TWT_TWT_CHANNEL p = LE_BITS_TO_1BYTE p 0 8"

definition GET_BTWT_REQ_TYPE_TWT_REQUEST :: "nat \<Rightarrow> u8 list \<Rightarrow> u8 option" where [twt_macros]:
  "GET_BTWT_REQ_TYPE_TWT_REQUEST p = LE_BITS_TO_1BYTE p 0 1"

definition GET_BTWT_REQ_TYPE_TWT_SETUP_COMMAND :: "nat \<Rightarrow> u8 list \<Rightarrow> u8 option" where [twt_macros]:
  "GET_BTWT_REQ_TYPE_TWT_SETUP_COMMAND p = LE_BITS_TO_1BYTE p 1 3"

definition GET_BTWT_REQ_TYPE_TRIGGER :: "nat \<Rightarrow> u8 list \<Rightarrow> u8 option" where [twt_macros]:
  "GET_BTWT_REQ_TYPE_TRIGGER p = LE_BITS_TO_1BYTE p 4 1"

definition GET_BTWT_REQ_TYPE_LST_BC_PARA_SET :: "nat \<Rightarrow> u8 list \<Rightarrow> u8 option" where [twt_macros]:
  "GET_BTWT_REQ_TYPE_LST_BC_PARA_SET p = LE_BITS_TO_1BYTE p 5 1"

definition GET_BTWT_REQ_TYPE_FLOW_TYPE :: "nat \<Rightarrow> u8 list \<Rightarrow> u8 option" where [twt_macros]:
  "GET_BTWT_REQ_TYPE_FLOW_TYPE p = LE_BITS_TO_1BYTE p 6 1"

definition GET_BTWT_REQ_TYPE_RCMD :: "nat \<Rightarrow> u8 list \<Rightarrow> u16 option" where [twt_macros]:
  "GET_BTWT_REQ_TYPE_RCMD p = LE_BITS_TO_2BYTE p 7 3"

definition GET_BTWT_REQ_TYPE_TWT_WAKE_INTERVAL_EXPONENT :: "nat \<Rightarrow> u8 list \<Rightarrow> u16 option" where [twt_macros]:
  "GET_BTWT_REQ_TYPE_TWT_WAKE_INTERVAL_EXPONENT p = LE_BITS_TO_2BYTE p 10 5"

definition GET_BTWT_TARGET_WAKE_TIME :: "nat \<Rightarrow> u8 list \<Rightarrow> u16 option" where [twt_macros]:
  "GET_BTWT_TARGET_WAKE_TIME p = LE_BITS_TO_2BYTE p 0 16"

definition GET_BTWT_NOMINAL_MINIMUM_TWT_WAKE_DURATION :: "nat \<Rightarrow> u8 list \<Rightarrow> u8 option" where [twt_macros]:
  "GET_BTWT_NOMINAL_MINIMUM_TWT_WAKE_DURATION p = LE_BITS_TO_1BYTE p 0 8"

definition GET_BTWT_TWT_WAKE_INTERVAL_MANTISSA :: "nat \<Rightarrow> u8 list \<Rightarrow> u16 option" where [twt_macros]:
  "GET_BTWT_TWT_WAKE_INTERVAL_MANTISSA p = LE_BITS_TO_2BYTE p 0 16"

definition GET_BTWT_ID :: "nat \<Rightarrow> u8 list \<Rightarrow> u16 option" where [twt_macros]:
  "GET_BTWT_ID p = LE_BITS_TO_2BYTE p 3 5"

definition GET_BTWT_PRSTNC :: "nat \<Rightarrow> u8 list \<Rightarrow> u16 option" where [twt_macros]:
  "GET_BTWT_PRSTNC p = LE_BITS_TO_2BYTE p 8 8"

definition GET_TWT_FLOW_ID :: "nat \<Rightarrow> u8 list \<Rightarrow> u8 option" where [twt_macros]:
  "GET_TWT_FLOW_ID p = LE_BITS_TO_1BYTE p 0 3"

definition GET_NEGOTIATION_TYPE :: "nat \<Rightarrow> u8 list \<Rightarrow> u8 option" where [twt_macros]:
  "GET_NEGOTIATION_TYPE p = LE_BITS_TO_1BYTE p 5 2"

definition GET_TEARDOWN_ALL_TWT :: "nat \<Rightarrow> u8 list \<Rightarrow> u8 option" where [twt_macros]:
  "GET_TEARDOWN_ALL_TWT p = LE_BITS_TO_1BYTE p 7 1"

definition GET_BROADCAST_TWT_ID :: "nat \<Rightarrow> u8 list \<Rightarrow> u8 option" where [twt_macros]:
  "GET_BROADCAST_TWT_ID p = LE_BITS_TO_1BYTE p 0 5"

definition GET_ELE_ID :: "nat \<Rightarrow> u8 list \<Rightarrow> u8 option" where [twt_macros]:
  "GET_ELE_ID p = LE_BITS_TO_1BYTE p 0 8"

definition GET_ELE_LEN :: "nat \<Rightarrow> u8 list \<Rightarrow> u8 option" where [twt_macros]:
  "GET_ELE_LEN p = LE_BITS_TO_1BYTE p 0 8"

definition GET_DIALOG_TOKEN :: "nat \<Rightarrow> u8 list \<Rightarrow> u8 option" where [twt_macros]:
  "GET_DIALOG_TOKEN p = LE_BITS_TO_1BYTE p 0 8"

text \<open>The next target wake time of an information field, in 32, 48 or 64 bits.\<close>

definition SET_TWT_INFO_NEXT_TWT :: "nat \<Rightarrow> u8 \<Rightarrow> u64 \<Rightarrow> u8 list \<Rightarrow> u8 list option" where
  "SET_TWT_INFO_NEXT_TWT p sz val b =
     (if sz = 32 then SET_BITS_TO_LE_4BYTE (p + 1) 0 32 (ucast (val AND 0xFFFFFFFF)) b
      else if sz = 48
      then do { b \<leftarrow> SET_BITS_TO_LE_4BYTE (p + 1) 0 32 (ucast (val AND 0xFFFFFFFF)) b;
                SET_BITS_TO_LE_2BYTE (p + 5) 0 16 (ucast (drop_bit 32 val AND 0xFFFFFFFF)) b }
      else if sz = 64
      then do { b \<leftarrow> SET_BITS_TO_LE_4BYTE (p + 1) 0 32 (ucast (val AND 0xFFFFFFFF)) b;
                SET_BITS_TO_LE_4BYTE (p + 5) 0 16 (ucast (drop_bit 32 val AND 0xFFFFFFFF)) b }
      else Some b)"

definition GET_TWT_INFO_NEXT_TWT :: "nat \<Rightarrow> u8 \<Rightarrow> u8 list \<Rightarrow> u64 option" where
  "GET_TWT_INFO_NEXT_TWT p sz b =
     (if sz = 32 then do { l \<leftarrow> LE_BITS_TO_4BYTE (p + 1) 0 32 b; Some (ucast l) }
      else if sz = 48
      then do { l \<leftarrow> LE_BITS_TO_4BYTE (p + 1) 0 32 b; h \<leftarrow> LE_BITS_TO_2BYTE (p + 5) 0 16 b;
                Some (push_bit 32 (ucast h) OR ucast l) }
      else if sz = 64
      then do { l \<leftarrow> LE_BITS_TO_4BYTE (p + 1) 0 32 b; h \<leftarrow> LE_BITS_TO_4BYTE (p + 5) 0 32 b;
                Some (push_bit 32 (ucast h) OR ucast l) }
      else Some 0)"

end
