(* ===== verification/Phl_Twt.thy ===== *)
theory Phl_Twt
  imports Twt_Fields
begin

section \<open>TWT elements and fields (phl_twt.c)\<close>

text \<open>
  Filling and parsing the TWT element of setup frames, the flow field of teardown frames and the information
  field. A buffer is a list of bytes with an offset for the address the code passes; \<open>None\<close> is an access outside it.
  A flag says whether the pointers a function checks are all there. Enumerations are 32-bit words, as the compiler stores
  them. The members of the union of the parameter sets are separate fields: a call uses only the member of its
  negotiation type. The two structures in the union of a flow field have the same layout of two bytes. The broadcast
  id is a byte here and a field of 5 bits in the code, which never stores more than 5 bits in it.
\<close>

subsection \<open>Data (phl_def.h)\<close>

definition RTW_PHL_INDIV_TWT :: u32 where [twt_macros]: "RTW_PHL_INDIV_TWT = 0"

definition RTW_PHL_WAKE_TBTT_INR :: u32 where [twt_macros]: "RTW_PHL_WAKE_TBTT_INR = 1"

definition RTW_PHL_BCAST_TWT :: u32 where [twt_macros]: "RTW_PHL_BCAST_TWT = 2"

definition RTW_PHL_MANAGE_BCAST_TWT :: u32 where [twt_macros]: "RTW_PHL_MANAGE_BCAST_TWT = 3"

definition RTW_PHL_TWT_GROUPING :: u32 where [twt_macros]: "RTW_PHL_TWT_GROUPING = 3"

record rtw_phl_btwt_i =
  btwt_id :: u8
  btwt_prstnc :: u8

record rtw_phl_btwt_req_type =
  b_twt_request :: u8
  b_twt_setup_cmd :: u32
  b_trigger :: u8
  lst_bc_para_set :: u8
  b_flow_type :: u32
  btwt_rcmd :: u8
  b_twt_wake_int_exp :: u8

record rtw_phl_bcast_twt_para_set =
  b_req_type :: rtw_phl_btwt_req_type
  b_target_wake_t_h :: u32
  b_target_wake_t_l :: u32
  b_nom_min_twt_wake_dur :: u8
  b_twt_wake_int_mantissa :: u16
  btwt_i :: rtw_phl_btwt_i

record rtw_phl_req_type_indiv =
  twt_setup_cmd :: u32
  flow_type :: u32
  twt_request :: u8
  trigger :: u8
  implicit :: u8
  twt_flow_id :: u8
  twt_wake_int_exp :: u8
  twt_protection :: u8

record rtw_phl_indiv_twt_para_set =
  i_req_type :: rtw_phl_req_type_indiv
  target_wake_t_h :: u32
  target_wake_t_l :: u32
  twt_wake_int_mantissa :: u16
  nom_min_twt_wake_dur :: u8
  twt_channel :: u8

record rtw_phl_twt_control =
  ndp_paging_indic :: u8
  responder_pm_mode :: u8
  nego_type :: u32
  twt_info_frame_disable :: u8
  wake_dur_unit :: u32

record rtw_phl_twt_element =
  twt_ctrl :: rtw_phl_twt_control
  num_btwt_para :: u8
  i_twt_para_set :: rtw_phl_indiv_twt_para_set
  b_twt_para_set :: "rtw_phl_bcast_twt_para_set list"

record rtw_phl_twt_setup_info =
  twt_element :: rtw_phl_twt_element
  dialog_token :: u8

record rtw_phl_twt_flow_field =
  flow_nego_type :: u32
  flow_info0 :: u8
  flow_info1 :: u8

record rtw_phl_twt_info_f =
  info_twt_flow_id :: u8
  rsp_req :: u8
  next_twt_req :: u8
  next_twt_size :: u8
  all_twt :: u8
  next_twt :: u64

subsection \<open>Filling an element\<close>

definition twt_fill_btwt_para_set ::
  "rtw_phl_bcast_twt_para_set \<Rightarrow> nat \<Rightarrow> u8 list \<Rightarrow> (rtw_phl_status \<times> u8 list \<times> u8) option" where
  "twt_fill_btwt_para_set para buf b =
     (let req_type = b_req_type para in
      do { b \<leftarrow> SET_BTWT_REQ_TYPE_TWT_REQUEST buf (b_twt_request req_type) b;
           b \<leftarrow> SET_BTWT_REQ_TYPE_TWT_SETUP_COMMAND buf (b_twt_setup_cmd req_type) b;
           b \<leftarrow> SET_BTWT_REQ_TYPE_TRIGGER buf (b_trigger req_type) b;
           b \<leftarrow> SET_BTWT_REQ_TYPE_LST_BC_PARA_SET buf (lst_bc_para_set req_type) b;
           b \<leftarrow> SET_BTWT_REQ_TYPE_FLOW_TYPE buf (b_flow_type req_type) b;
           b \<leftarrow> SET_BTWT_REQ_TYPE_RCMD buf (btwt_rcmd req_type) b;
           b \<leftarrow> SET_BTWT_REQ_TYPE_TWT_WAKE_INTERVAL_EXPONENT buf (b_twt_wake_int_exp req_type) b;
           let len = REQUEST_TYPE_LENGTH;
           b \<leftarrow> SET_BTWT_TARGET_WAKE_TIME (buf + unat len) (ucast (b_target_wake_t_l para) :: u16) b;
           let len = len + BTWT_TARGET_WAKE_TIME_LENGTH;
           b \<leftarrow> SET_BTWT_NOMINAL_MINIMUM_TWT_WAKE_DURATION (buf + unat len) (b_nom_min_twt_wake_dur para) b;
           let len = len + NOMINAL_MINIMUM_TWT_WAKE_DURATION_LENGTH;
           b \<leftarrow> SET_BTWT_TWT_WAKE_INTERVAL_MANTISSA (buf + unat len) (b_twt_wake_int_mantissa para) b;
           let len = len + TWT_WAKE_INTERVAL_MANTISSA_LENGTH;
           b \<leftarrow> SET_BTWT_ID (buf + unat len) (btwt_id (btwt_i para)) b;
           b \<leftarrow> SET_BTWT_PRSTNC (buf + unat len) (btwt_prstnc (btwt_i para)) b;
           let len = len + BTWT_INFO_LENGTH;
           Some (RTW_PHL_STATUS_SUCCESS, b, len) })"

definition twt_fill_individual_twt_para_set ::
  "rtw_phl_indiv_twt_para_set \<Rightarrow> nat \<Rightarrow> u8 list \<Rightarrow> (rtw_phl_status \<times> u8 list \<times> u8) option" where
  "twt_fill_individual_twt_para_set para buf b =
     (let req_type = i_req_type para in
      do { b \<leftarrow> SET_TWT_REQ_TYPE_TWT_REQUEST buf (twt_request req_type) b;
           b \<leftarrow> SET_TWT_REQ_TYPE_TWT_SETUP_COMMAND buf (twt_setup_cmd req_type) b;
           b \<leftarrow> SET_TWT_REQ_TYPE_TRIGGER buf (trigger req_type) b;
           b \<leftarrow> SET_TWT_REQ_TYPE_IMPLICIT buf (implicit req_type) b;
           b \<leftarrow> SET_TWT_REQ_TYPE_FLOW_TYPE buf (flow_type req_type) b;
           b \<leftarrow> SET_TWT_REQ_TYPE_TWT_FLOW_IDENTIFER buf (twt_flow_id req_type) b;
           b \<leftarrow> SET_TWT_REQ_TYPE_TWT_WAKE_INTERVAL_EXPONENT buf (twt_wake_int_exp req_type) b;
           b \<leftarrow> SET_TWT_REQ_TYPE_TWT_PROTECTION buf (twt_protection req_type) b;
           let len = REQUEST_TYPE_LENGTH;
           (b, len) \<leftarrow>
             (if twt_setup_cmd req_type = RTW_PHL_TWT_GROUPING then Some (b, len)
              else do { b \<leftarrow> SET_TWT_TARGET_WAKE_TIME_L buf (target_wake_t_l para) b;
                        b \<leftarrow> SET_TWT_TARGET_WAKE_TIME_H buf (target_wake_t_h para) b;
                        Some (b, len + TARGET_WAKE_TIME_LENGTH) });
           b \<leftarrow> SET_TWT_NOMINAL_MINIMUM_TWT_WAKE_DURATION buf (unat len) (nom_min_twt_wake_dur para) b;
           let len = len + NOMINAL_MINIMUM_TWT_WAKE_DURATION_LENGTH;
           b \<leftarrow> SET_TWT_TWT_WAKE_INTERVAL_MANTISSA buf (unat len) (twt_wake_int_mantissa para) b;
           let len = len + TWT_WAKE_INTERVAL_MANTISSA_LENGTH;
           b \<leftarrow> SET_TWT_TWT_CHANNEL buf (unat len) (twt_channel para) b;
           Some (RTW_PHL_STATUS_SUCCESS, b, len + TWT_CHANNEL_LENGTH) })"

text \<open>The loop over the broadcast parameter sets marks the last one, in the structure of the caller.\<close>

definition mark_last :: "bool \<Rightarrow> rtw_phl_bcast_twt_para_set \<Rightarrow> rtw_phl_bcast_twt_para_set" where
  "mark_last is_last p = p\<lparr>b_req_type := (b_req_type p)\<lparr>lst_bc_para_set := (if is_last then 1 else 0)\<rparr>\<rparr>"

fun fill_btwt_loop ::
  "nat list \<Rightarrow> nat \<Rightarrow> rtw_phl_twt_element \<Rightarrow> rtw_phl_status \<Rightarrow> u8 \<Rightarrow> u8 list \<Rightarrow>
     (rtw_phl_status \<times> rtw_phl_twt_element \<times> u8 list \<times> u8) option" where
  "fill_btwt_loop [] buf e sts len b = Some (sts, e, b, len)"
| "fill_btwt_loop (idx # idxs) buf e sts len b =
     (let p = mark_last (idx + 1 = unat (num_btwt_para e)) (b_twt_para_set e ! idx) in
      case twt_fill_btwt_para_set p (buf + unat len) b of
        None \<Rightarrow> None
      | Some (sts', b', plen) \<Rightarrow>
          fill_btwt_loop idxs buf (e\<lparr>b_twt_para_set := (b_twt_para_set e)[idx := p]\<rparr>) sts' (len + plen) b')"

definition fill_control :: "rtw_phl_twt_control \<Rightarrow> nat \<Rightarrow> u8 list \<Rightarrow> u8 list option" where
  "fill_control c buf b =
     do { b \<leftarrow> SET_TWT_CONTROL_NDP_PAGING_INDICATOR buf (ndp_paging_indic c) b;
          b \<leftarrow> SET_TWT_CONTROL_RESPONDER_PM_MODE buf (responder_pm_mode c) b;
          b \<leftarrow> SET_TWT_CONTROL_NEGOTIATION_TYPE buf (nego_type c) b;
          b \<leftarrow> SET_TWT_CONTROL_TWT_INFORMATION_FRAME_DISABLE buf (twt_info_frame_disable c) b;
          SET_TWT_CONTROL_WAKE_DURATION_UNIT buf (wake_dur_unit c) b }"

text \<open>The result is the status, the structure of the caller, the buffer and the length.\<close>

definition rtw_phl_twt_fill_twt_element ::
  "bool \<Rightarrow> rtw_phl_twt_element \<Rightarrow> nat \<Rightarrow> u8 list \<Rightarrow> u8 \<Rightarrow>
     (rtw_phl_status \<times> rtw_phl_twt_element \<times> u8 list \<times> u8) option" where
  "rtw_phl_twt_fill_twt_element ptrs e buf b len0 =
     (if \<not> ptrs then Some (RTW_PHL_STATUS_FAILURE, e, b, len0)
      else
        let c = twt_ctrl e in
        do { b \<leftarrow> fill_control c buf b;
             let len = CONTROL_LENGTH;
             if nego_type c = RTW_PHL_INDIV_TWT
             then do { (sts, b, plen) \<leftarrow> twt_fill_individual_twt_para_set (i_twt_para_set e) (buf + unat len) b;
                       Some (sts, e, b, len + plen) }
             else if nego_type c = RTW_PHL_BCAST_TWT \<or> nego_type c = RTW_PHL_MANAGE_BCAST_TWT
             then if unat (num_btwt_para e) > MAX_BTWT_PARA_SET then Some (RTW_PHL_STATUS_FAILURE, e, b, len)
                  else fill_btwt_loop [0..<unat (num_btwt_para e)] buf e RTW_PHL_STATUS_FAILURE len b
             else Some (RTW_PHL_STATUS_FAILURE, e, b, len) })"


subsection \<open>Parsing an element\<close>

text \<open>A parameter set that is too short is left as it is, and nothing is counted as read.\<close>

definition twt_parse_btwt_para ::
  "u8 list \<Rightarrow> nat \<Rightarrow> u16 \<Rightarrow> rtw_phl_bcast_twt_para_set \<Rightarrow> u8 \<Rightarrow> (rtw_phl_status \<times> rtw_phl_bcast_twt_para_set \<times> u8) option" where
  "twt_parse_btwt_para b buf len para rlen0 =
     (if len < ucast MIN_BTWT_PARA_LEN then Some (RTW_PHL_STATUS_FAILURE, para, rlen0)
      else
      do { twt_request' \<leftarrow> GET_BTWT_REQ_TYPE_TWT_REQUEST buf b;
           twt_setup_cmd' \<leftarrow> GET_BTWT_REQ_TYPE_TWT_SETUP_COMMAND buf b;
           trigger' \<leftarrow> GET_BTWT_REQ_TYPE_TRIGGER buf b;
           lst \<leftarrow> GET_BTWT_REQ_TYPE_LST_BC_PARA_SET buf b;
           flow_type' \<leftarrow> GET_BTWT_REQ_TYPE_FLOW_TYPE buf b;
           rcmd \<leftarrow> GET_BTWT_REQ_TYPE_RCMD buf b;
           int_exp \<leftarrow> GET_BTWT_REQ_TYPE_TWT_WAKE_INTERVAL_EXPONENT buf b;
           let rlen = REQUEST_TYPE_LENGTH;
           wake_t \<leftarrow> GET_BTWT_TARGET_WAKE_TIME (buf + unat rlen) b;
           let rlen = rlen + BTWT_TARGET_WAKE_TIME_LENGTH;
           dur \<leftarrow> GET_BTWT_NOMINAL_MINIMUM_TWT_WAKE_DURATION (buf + unat rlen) b;
           let rlen = rlen + NOMINAL_MINIMUM_TWT_WAKE_DURATION_LENGTH;
           mantissa \<leftarrow> GET_BTWT_TWT_WAKE_INTERVAL_MANTISSA (buf + unat rlen) b;
           let rlen = rlen + TWT_WAKE_INTERVAL_MANTISSA_LENGTH;
           i \<leftarrow> GET_BTWT_ID (buf + unat rlen) b;
           prstnc \<leftarrow> GET_BTWT_PRSTNC (buf + unat rlen) b;
           Some (RTW_PHL_STATUS_SUCCESS,
             para\<lparr>b_req_type := \<lparr>b_twt_request = twt_request', b_twt_setup_cmd = ucast twt_setup_cmd', b_trigger = trigger',
                      lst_bc_para_set = lst, b_flow_type = ucast flow_type', btwt_rcmd = ucast rcmd,
                      b_twt_wake_int_exp = ucast int_exp\<rparr>,
                  b_target_wake_t_l := ucast wake_t, b_nom_min_twt_wake_dur := dur, b_twt_wake_int_mantissa := mantissa,
                  btwt_i := \<lparr>btwt_id = ucast i, btwt_prstnc = ucast prstnc\<rparr>\<rparr>,
             rlen + BTWT_INFO_LENGTH) })"

text \<open>
  The loop over the parameter sets, from set \<open>idx\<close> on, with \<open>rlen\<close> bytes read and \<open>rem\<close> left. It also ends, with the status
  of the last set, when the rest is too short for another one.
\<close>

function parse_btwt_loop ::
  "u8 list \<Rightarrow> nat \<Rightarrow> nat \<Rightarrow> rtw_phl_twt_element \<Rightarrow> u8 \<Rightarrow> u8 \<Rightarrow> (rtw_phl_status \<times> rtw_phl_twt_element \<times> u8) option" where
  "parse_btwt_loop b buf idx e rlen rem =
     (if idx \<ge> MAX_BTWT_PARA_SET then Some (RTW_PHL_STATUS_FAILURE, e, rlen)
      else case twt_parse_btwt_para b (buf + unat rlen) (ucast rem) (b_twt_para_set e ! idx) 0 of
             None \<Rightarrow> None
           | Some (sts, bpara, plen) \<Rightarrow>
               let e1 = e\<lparr>b_twt_para_set := (b_twt_para_set e)[idx := bpara]\<rparr>;
                   e2 = e1\<lparr>num_btwt_para := num_btwt_para e1 + 1\<rparr>
               in if sts \<noteq> RTW_PHL_STATUS_SUCCESS then Some (sts, e1, rlen)
                  else if lst_bc_para_set (b_req_type bpara) \<noteq> 0 \<or> rem - plen < MIN_BTWT_PARA_LEN
                  then Some (sts, e2, rlen + plen)
                  else parse_btwt_loop b buf (idx + 1) e2 (rlen + plen) (rem - plen))"
  by auto
termination
  by (relation "measure (\<lambda>(b, buf, idx, e, rlen, rem). MAX_BTWT_PARA_SET - idx)") auto

declare parse_btwt_loop.simps [simp del]

definition twt_parse_all_btwt_para ::
  "u8 list \<Rightarrow> nat \<Rightarrow> u8 \<Rightarrow> rtw_phl_twt_element \<Rightarrow> (rtw_phl_status \<times> rtw_phl_twt_element \<times> u8) option" where
  "twt_parse_all_btwt_para b buf para_len e = parse_btwt_loop b buf 0 (e\<lparr>num_btwt_para := 0\<rparr>) 0 para_len"

definition ELEM_ID_LEN :: u8 where [twt_macros]: "ELEM_ID_LEN = 1"

definition ELEM_LEN_LEN :: u8 where [twt_macros]: "ELEM_LEN_LEN = 1"

definition twt_parse_individual_twt_para ::
  "u8 list \<Rightarrow> nat \<Rightarrow> u16 \<Rightarrow> rtw_phl_twt_element \<Rightarrow> (rtw_phl_status \<times> rtw_phl_twt_element) option" where
  "twt_parse_individual_twt_para b twt_ele pkt_len e =
     (let para = i_twt_para_set e; next_buf = twt_ele + unat ELEM_ID_LEN + unat ELEM_LEN_LEN + unat CONTROL_LENGTH in
      do { req \<leftarrow> GET_TWT_REQ_TYPE_TWT_REQUEST next_buf b;
           cmd \<leftarrow> GET_TWT_REQ_TYPE_TWT_SETUP_COMMAND next_buf b;
           trig \<leftarrow> GET_TWT_REQ_TYPE_TRIGGER next_buf b;
           impl \<leftarrow> GET_TWT_REQ_TYPE_IMPLICIT next_buf b;
           flow \<leftarrow> GET_TWT_REQ_TYPE_FLOW_TYPE next_buf b;
           flow_id \<leftarrow> GET_TWT_REQ_TYPE_TWT_FLOW_IDENTIFER next_buf b;
           int_exp \<leftarrow> GET_TWT_REQ_TYPE_TWT_WAKE_INTERVAL_EXPONENT next_buf b;
           prot \<leftarrow> GET_TWT_REQ_TYPE_TWT_PROTECTION next_buf b;
           let req_type = \<lparr>twt_setup_cmd = ucast cmd, flow_type = ucast flow, twt_request = ucast req, trigger = ucast trig,
             implicit = ucast impl, twt_flow_id = ucast flow_id, twt_wake_int_exp = ucast int_exp, twt_protection = ucast prot\<rparr>;
           let next_buf = next_buf + unat REQUEST_TYPE_LENGTH;
           (para, next_buf) \<leftarrow>
             (if twt_setup_cmd req_type = RTW_PHL_TWT_GROUPING then Some (para, next_buf)
              else do { l \<leftarrow> GET_TWT_TARGET_WAKE_TIME_L next_buf b;
                        h \<leftarrow> GET_TWT_TARGET_WAKE_TIME_H next_buf b;
                        Some (para\<lparr>target_wake_t_l := l, target_wake_t_h := h\<rparr>, next_buf + unat TARGET_WAKE_TIME_LENGTH) });
           dur \<leftarrow> GET_TWT_NOMINAL_MINIMUM_TWT_WAKE_DURATION next_buf b;
           let next_buf = next_buf + unat NOMINAL_MINIMUM_TWT_WAKE_DURATION_LENGTH;
           mantissa \<leftarrow> GET_TWT_TWT_WAKE_INTERVAL_MANTISSA next_buf b;
           let next_buf = next_buf + unat TWT_WAKE_INTERVAL_MANTISSA_LENGTH;
           chan \<leftarrow> GET_TWT_TWT_CHANNEL next_buf b;
           Some (RTW_PHL_STATUS_SUCCESS,
             e\<lparr>i_twt_para_set := para\<lparr>i_req_type := req_type, nom_min_twt_wake_dur := dur,
                                     twt_wake_int_mantissa := mantissa, twt_channel := chan\<rparr>\<rparr>) })"

definition parse_control :: "u8 list \<Rightarrow> nat \<Rightarrow> rtw_phl_twt_control option" where
  "parse_control b p =
     do { ndp \<leftarrow> GET_TWT_CONTROL_NDP_PAGING_INDICATOR p b;
          pm \<leftarrow> GET_TWT_CONTROL_RESPONDER_PM_MODE p b;
          nego \<leftarrow> GET_TWT_CONTROL_NEGOTIATION_TYPE p b;
          dis \<leftarrow> GET_TWT_CONTROL_TWT_INFORMATION_FRAME_DISABLE p b;
          dur_unit \<leftarrow> GET_TWT_CONTROL_WAKE_DURATION_UNIT p b;
          Some \<lparr>ndp_paging_indic = ndp, responder_pm_mode = pm, nego_type = ucast nego, twt_info_frame_disable = dis,
                wake_dur_unit = ucast dur_unit\<rparr> }"

text \<open>The length of the packet is an argument the code only prints.\<close>

definition rtw_phl_twt_parse_element ::
  "bool \<Rightarrow> u8 list \<Rightarrow> nat \<Rightarrow> u16 \<Rightarrow> rtw_phl_twt_element \<Rightarrow> (rtw_phl_status \<times> rtw_phl_twt_element) option" where
  "rtw_phl_twt_parse_element ptrs b twt_ele pkt_len e =
     (if \<not> ptrs then Some (RTW_PHL_STATUS_FAILURE, e)
      else
      do { ele_id \<leftarrow> GET_ELE_ID twt_ele b;
           let r_len = ELEM_ID_LEN;
           ele_len \<leftarrow> GET_ELE_LEN (twt_ele + unat r_len) b;
           let r_len = r_len + ELEM_LEN_LEN;
           let para_len = ele_len - CONTROL_LENGTH;
           c \<leftarrow> parse_control b (twt_ele + unat r_len);
           let e = e\<lparr>twt_ctrl := c\<rparr>;
           let r_len = r_len + CONTROL_LENGTH;
           if nego_type c = RTW_PHL_INDIV_TWT then twt_parse_individual_twt_para b twt_ele pkt_len e
           else if nego_type c = RTW_PHL_BCAST_TWT \<or> nego_type c = RTW_PHL_MANAGE_BCAST_TWT
           then do { (sts, e, plen) \<leftarrow> twt_parse_all_btwt_para b (twt_ele + unat r_len) para_len e; Some (sts, e) }
           else Some (RTW_PHL_STATUS_FAILURE, e) })"

definition TOKEN_OFFSET :: nat where [twt_macros]: "TOKEN_OFFSET = 2"

definition TOKEN_LENGTH :: nat where [twt_macros]: "TOKEN_LENGTH = 1"

definition rtw_phl_twt_parse_setup_info ::
  "bool \<Rightarrow> u8 list \<Rightarrow> nat \<Rightarrow> u16 \<Rightarrow> rtw_phl_twt_setup_info \<Rightarrow> (rtw_phl_status \<times> rtw_phl_twt_setup_info) option" where
  "rtw_phl_twt_parse_setup_info ptrs b pkt pkt_len s =
     (if \<not> ptrs then Some (RTW_PHL_STATUS_FAILURE, s)
      else
      do { tok \<leftarrow> GET_DIALOG_TOKEN (pkt + TOKEN_OFFSET) b;
           (sts, e) \<leftarrow> rtw_phl_twt_parse_element True b (pkt + TOKEN_OFFSET + TOKEN_LENGTH)
                         (pkt_len - of_nat TOKEN_OFFSET - of_nat TOKEN_LENGTH) (twt_element s);
           Some (sts, s\<lparr>dialog_token := tok, twt_element := e\<rparr>) })"

subsection \<open>Flow and information fields\<close>

definition rtw_phl_twt_fill_flow_field ::
  "bool \<Rightarrow> rtw_phl_twt_flow_field \<Rightarrow> nat \<Rightarrow> u8 list \<Rightarrow> u16 \<Rightarrow> (rtw_phl_status \<times> u8 list \<times> u16) option" where
  "rtw_phl_twt_fill_flow_field ptrs f buf b len0 =
     (if \<not> ptrs then Some (RTW_PHL_STATUS_FAILURE, b, len0)
      else if flow_nego_type f = RTW_PHL_INDIV_TWT \<or> flow_nego_type f = RTW_PHL_WAKE_TBTT_INR
      then do { b \<leftarrow> SET_TWT_FLOW_ID buf (flow_info0 f) b;
                b \<leftarrow> SET_NEGOTIATION_TYPE buf (flow_nego_type f) b;
                b \<leftarrow> SET_TEARDOWN_ALL_TWT buf (flow_info1 f) b;
                Some (RTW_PHL_STATUS_SUCCESS, b, 1) }
      else if flow_nego_type f = RTW_PHL_BCAST_TWT
      then do { b \<leftarrow> SET_NEGOTIATION_TYPE buf (flow_nego_type f) b; Some (RTW_PHL_STATUS_SUCCESS, b, 1) }
      else if flow_nego_type f = RTW_PHL_MANAGE_BCAST_TWT
      then do { b \<leftarrow> SET_BROADCAST_TWT_ID buf (flow_info0 f) b;
                b \<leftarrow> SET_NEGOTIATION_TYPE buf (flow_nego_type f) b;
                b \<leftarrow> SET_TEARDOWN_ALL_TWT buf (flow_info1 f) b;
                Some (RTW_PHL_STATUS_SUCCESS, b, 1) }
      else Some (RTW_PHL_STATUS_FAILURE, b, 0))"

definition rtw_phl_twt_parse_flow_field ::
  "bool \<Rightarrow> u8 list \<Rightarrow> nat \<Rightarrow> u16 \<Rightarrow> rtw_phl_twt_flow_field \<Rightarrow> (rtw_phl_status \<times> rtw_phl_twt_flow_field) option" where
  "rtw_phl_twt_parse_flow_field ptrs b pkt pkt_len f =
     (if \<not> ptrs then Some (RTW_PHL_STATUS_FAILURE, f)
      else
      do { nego \<leftarrow> GET_NEGOTIATION_TYPE pkt b;
           let f = f\<lparr>flow_nego_type := ucast nego\<rparr>;
           if flow_nego_type f = RTW_PHL_INDIV_TWT \<or> flow_nego_type f = RTW_PHL_WAKE_TBTT_INR
           then do { i \<leftarrow> GET_TWT_FLOW_ID pkt b; t \<leftarrow> GET_TEARDOWN_ALL_TWT pkt b;
                     Some (RTW_PHL_STATUS_SUCCESS, f\<lparr>flow_info0 := i, flow_info1 := t\<rparr>) }
           else if flow_nego_type f = RTW_PHL_BCAST_TWT then Some (RTW_PHL_STATUS_FAILURE, f)
           else if flow_nego_type f = RTW_PHL_MANAGE_BCAST_TWT
           then do { i \<leftarrow> GET_BROADCAST_TWT_ID pkt b; t \<leftarrow> GET_TEARDOWN_ALL_TWT pkt b;
                     Some (RTW_PHL_STATUS_SUCCESS, f\<lparr>flow_info0 := i, flow_info1 := t\<rparr>) }
           else Some (RTW_PHL_STATUS_FAILURE, f) })"

definition get_next_twt_subfield_size_bit :: "u8 \<Rightarrow> u8" where
  "get_next_twt_subfield_size_bit sz = (if sz = 1 then 32 else if sz = 2 then 48 else if sz = 3 then 64 else 0)"

definition rtw_phl_twt_fill_info_field ::
  "rtw_phl_twt_info_f \<Rightarrow> nat \<Rightarrow> u8 list \<Rightarrow> (rtw_phl_status \<times> u8 list \<times> u16) option" where
  "rtw_phl_twt_fill_info_field f buf b =
     do { b \<leftarrow> SET_TWT_INFO_FLOW_ID buf (info_twt_flow_id f) b;
          b \<leftarrow> SET_TWT_INFO_RSP_REQ buf (rsp_req f) b;
          b \<leftarrow> SET_TWT_INFO_ALL_TWT buf (all_twt f) b;
          b \<leftarrow> SET_TWT_INFO_NEXT_TWT_REQ buf (next_twt_req f) b;
          if next_twt_size f \<noteq> 0
          then let size_bit = get_next_twt_subfield_size_bit (next_twt_size f) in
               do { b \<leftarrow> SET_TWT_INFO_NEXT_TWT_SIZE buf (next_twt_size f) b;
                    b \<leftarrow> SET_TWT_INFO_NEXT_TWT buf size_bit (next_twt f) b;
                    Some (RTW_PHL_STATUS_SUCCESS, b, 1 + ucast (size_bit div 8)) }
          else Some (RTW_PHL_STATUS_SUCCESS, b, 1) }"

definition rtw_phl_twt_parse_info_field ::
  "u8 list \<Rightarrow> nat \<Rightarrow> u16 \<Rightarrow> rtw_phl_twt_info_f \<Rightarrow> (rtw_phl_status \<times> rtw_phl_twt_info_f) option" where
  "rtw_phl_twt_parse_info_field b pkt pkt_len f =
     (if pkt_len < 1 then Some (RTW_PHL_STATUS_SUCCESS, f)
      else
      do { i \<leftarrow> GET_TWT_INFO_FLOW_ID pkt b;
           r \<leftarrow> GET_TWT_INFO_RSP_REQ pkt b;
           nr \<leftarrow> GET_TWT_INFO_NEXT_TWT_REQ pkt b;
           sz \<leftarrow> GET_TWT_INFO_NEXT_TWT_SIZE pkt b;
           a \<leftarrow> GET_TWT_INFO_ALL_TWT pkt b;
           let f = f\<lparr>info_twt_flow_id := i, rsp_req := r, next_twt_req := nr, next_twt_size := sz, all_twt := a\<rparr>;
           if sz \<noteq> 0
           then let size_bit = get_next_twt_subfield_size_bit sz in
                if pkt_len < 1 + ucast (size_bit div 8) then Some (RTW_PHL_STATUS_SUCCESS, f)
                else do { n \<leftarrow> GET_TWT_INFO_NEXT_TWT pkt size_bit b; Some (RTW_PHL_STATUS_SUCCESS, f\<lparr>next_twt := n\<rparr>) }
           else Some (RTW_PHL_STATUS_SUCCESS, f) })"


subsection \<open>Reading back what was written\<close>

lemma ucast_cut [simp]: "l \<le> LENGTH('b) \<Longrightarrow> ucast (cut_bits f s l :: 'b::len word) = (cut_bits f s l :: 'a::len word)"
  by (rule bit_word_eqI) (auto simp: bit_simps)

lemma cut_paste_eq [simp]: "cut_bits (paste s l g f) s l = cut_bits g 0 l"
  by (rule bit_word_eqI) (simp add: paste_def)

lemma cut_bit [simp]:
  "l \<le> LENGTH('b) \<Longrightarrow> cut_bits (bit (ucast (v :: 'a::len word) :: 'b::len word)) 0 l = take_bit l v"
  "cut_bits (bit v) 0 l = take_bit l v"
  by (rule bit_word_eqI, auto simp: bit_simps)+

lemma cut_cong: "(\<And>k. s \<le> k \<Longrightarrow> k < s + l \<Longrightarrow> f k = g k) \<Longrightarrow> cut_bits f s l = cut_bits g s l"
  by (rule bit_word_eqI) auto

lemma full_bits [simp]: "take_bit 8 (v :: u8) = v" "take_bit 16 (u :: u16) = u" "take_bit 32 (x :: u32) = x"
  by (rule bit_word_eqI, auto simp: bit_simps dest: bit_imp_le_length)+

lemma cut_off:
  "a' + l' \<le> a \<or> a + l \<le> a' \<Longrightarrow> cut_bits (paste (s + a) l g f) (s + a') l' = cut_bits f (s + a') l'"
  "l' \<le> a \<Longrightarrow> cut_bits (paste (s + a) l g f) s l' = cut_bits f s l'"
  "l \<le> a' \<Longrightarrow> cut_bits (paste s l g f) (s + a') l' = cut_bits f (s + a') l'"
  by (auto intro!: cut_paste_other)

abbreviation fits :: "nat \<Rightarrow> 'a::len word \<Rightarrow> bool" where
  "fits l v \<equiv> take_bit l v = v"

text \<open>Two buffers that differ only between two offsets.\<close>

definition beside :: "nat \<Rightarrow> nat \<Rightarrow> (nat \<Rightarrow> bool) \<Rightarrow> (nat \<Rightarrow> bool) \<Rightarrow> bool" where
  "beside p q f g \<longleftrightarrow> (\<forall>k. k < 8 * p \<or> 8 * q \<le> k \<longrightarrow> g k = f k)"

definition ctrl_fits :: "rtw_phl_twt_control \<Rightarrow> bool" where
  "ctrl_fits c \<longleftrightarrow> fits 1 (ndp_paging_indic c) \<and> fits 1 (responder_pm_mode c) \<and> fits 2 (nego_type c) \<and>
     fits 1 (twt_info_frame_disable c) \<and> fits 1 (wake_dur_unit c)"

definition ctrl_at :: "(nat \<Rightarrow> bool) \<Rightarrow> nat \<Rightarrow> rtw_phl_twt_control" where
  "ctrl_at f p = \<lparr>ndp_paging_indic = cut_bits f (8 * p) 1, responder_pm_mode = cut_bits f (8 * p + 1) 1,
     nego_type = cut_bits f (8 * p + 2) 2, twt_info_frame_disable = cut_bits f (8 * p + 4) 1,
     wake_dur_unit = cut_bits f (8 * p + 5) 1\<rparr>"

lemma parse_control_at: "p + 1 \<le> n \<Longrightarrow> parse_control (of_bits n f) p = Some (ctrl_at f p)"
  by (simp add: parse_control_def twt_macros ctrl_at_def)

lemma fill_control_at:
  assumes "p + 1 \<le> n"
  shows "\<exists>g. fill_control c p (of_bits n f) = Some (of_bits n g) \<and> beside p (p + 1) f g \<and> (ctrl_fits c \<longrightarrow> ctrl_at g p = c)"
  using assms
  by (simp add: fill_control_def twt_macros) (auto simp: beside_def paste_def ctrl_at_def ctrl_fits_def cut_paste_other)


definition btwt_fits :: "rtw_phl_bcast_twt_para_set \<Rightarrow> bool" where
  "btwt_fits p \<longleftrightarrow> fits 1 (b_twt_request (b_req_type p)) \<and> fits 3 (b_twt_setup_cmd (b_req_type p)) \<and>
     fits 1 (b_trigger (b_req_type p)) \<and> fits 1 (b_flow_type (b_req_type p)) \<and> fits 3 (btwt_rcmd (b_req_type p)) \<and>
     fits 5 (b_twt_wake_int_exp (b_req_type p)) \<and> fits 16 (b_target_wake_t_l p) \<and> fits 5 (btwt_id (btwt_i p))"

text \<open>The parameter set that stands at an offset; the high half of its wake time is not transmitted.\<close>

definition btwt_at :: "(nat \<Rightarrow> bool) \<Rightarrow> nat \<Rightarrow> u32 \<Rightarrow> rtw_phl_bcast_twt_para_set" where
  "btwt_at f p h =
     \<lparr>b_req_type = \<lparr>b_twt_request = cut_bits f (8 * p) 1, b_twt_setup_cmd = cut_bits f (8 * p + 1) 3,
        b_trigger = cut_bits f (8 * p + 4) 1, lst_bc_para_set = cut_bits f (8 * p + 5) 1,
        b_flow_type = cut_bits f (8 * p + 6) 1, btwt_rcmd = cut_bits f (8 * p + 7) 3,
        b_twt_wake_int_exp = cut_bits f (8 * p + 10) 5\<rparr>,
      b_target_wake_t_h = h, b_target_wake_t_l = cut_bits f (8 * p + 16) 16,
      b_nom_min_twt_wake_dur = cut_bits f (8 * p + 32) 8, b_twt_wake_int_mantissa = cut_bits f (8 * p + 40) 16,
      btwt_i = \<lparr>btwt_id = cut_bits f (8 * p + 59) 5, btwt_prstnc = cut_bits f (8 * p + 64) 8\<rparr>\<rparr>"

lemma parse_btwt_at:
  assumes "p + 9 \<le> n" "9 \<le> len"
  shows "twt_parse_btwt_para (of_bits n f) p len q r = Some (RTW_PHL_STATUS_SUCCESS, btwt_at f p (b_target_wake_t_h q), 9)"
  using assms
  by (cases q) (simp add: twt_parse_btwt_para_def twt_macros btwt_at_def not_less add_mult_distrib2 add.assoc
      del: One_nat_def add_2_eq_Suc')

text \<open>What a writer leaves.\<close>

definition btwt_bits :: "rtw_phl_bcast_twt_para_set \<Rightarrow> nat \<Rightarrow> (nat \<Rightarrow> bool) \<Rightarrow> nat \<Rightarrow> bool" where
  "btwt_bits para s f =
     paste (s + 64) 8 (bit (ucast (btwt_prstnc (btwt_i para)) :: u16)) (
     paste (s + 59) 5 (bit (ucast (btwt_id (btwt_i para)) :: u16)) (
     paste (s + 40) 16 (bit (b_twt_wake_int_mantissa para)) (
     paste (s + 32) 8 (bit (b_nom_min_twt_wake_dur para)) (
     paste (s + 16) 16 (bit (ucast (b_target_wake_t_l para) :: u16)) (
     paste (s + 10) 5 (bit (ucast (b_twt_wake_int_exp (b_req_type para)) :: u16)) (
     paste (s + 7) 3 (bit (ucast (btwt_rcmd (b_req_type para)) :: u16)) (
     paste (s + 6) 1 (bit (ucast (b_flow_type (b_req_type para)) :: u8)) (
     paste (s + 5) 1 (bit (lst_bc_para_set (b_req_type para))) (
     paste (s + 4) 1 (bit (b_trigger (b_req_type para))) (
     paste (s + 1) 3 (bit (ucast (b_twt_setup_cmd (b_req_type para)) :: u8)) (
     paste s 1 (bit (b_twt_request (b_req_type para))) f)))))))))))"

lemma fill_btwt_bits:
  "p + 9 \<le> n \<Longrightarrow> twt_fill_btwt_para_set para p (of_bits n f) =
     Some (RTW_PHL_STATUS_SUCCESS, of_bits n (btwt_bits para (8 * p) f), 9)"
  by (simp add: twt_fill_btwt_para_set_def twt_macros btwt_bits_def Let_def add_mult_distrib2 add.assoc
      del: One_nat_def add_2_eq_Suc')

lemma btwt_bits_beside: "beside p (p + 9) f (btwt_bits para (8 * p) f)"
  by (simp add: beside_def btwt_bits_def paste_def)

lemma btwt_bits_at:
  "btwt_fits para \<Longrightarrow> fits 1 (lst_bc_para_set (b_req_type para)) \<Longrightarrow>
   btwt_at (btwt_bits para (8 * p) f) p (b_target_wake_t_h para) = para"
  by (simp add: btwt_at_def btwt_bits_def btwt_fits_def cut_off del: One_nat_def)

lemma btwt_at_beside: "beside p' q' f g \<Longrightarrow> p + 9 \<le> p' \<or> q' \<le> p \<Longrightarrow> btwt_at g p h = btwt_at f p h"
  unfolding btwt_at_def by (auto simp: beside_def intro!: cut_cong)


definition indiv_fits :: "rtw_phl_indiv_twt_para_set \<Rightarrow> bool" where
  "indiv_fits p \<longleftrightarrow> fits 1 (twt_request (i_req_type p)) \<and> fits 3 (twt_setup_cmd (i_req_type p)) \<and>
     fits 1 (trigger (i_req_type p)) \<and> fits 1 (implicit (i_req_type p)) \<and> fits 1 (flow_type (i_req_type p)) \<and>
     fits 3 (twt_flow_id (i_req_type p)) \<and> fits 5 (twt_wake_int_exp (i_req_type p)) \<and> fits 1 (twt_protection (i_req_type p))"

text \<open>A grouping command has no wake time: the fields of the reader stay.\<close>

definition wake_len :: "u32 \<Rightarrow> nat" where
  "wake_len cmd = (if cmd = RTW_PHL_TWT_GROUPING then 0 else 8)"

definition indiv_at :: "(nat \<Rightarrow> bool) \<Rightarrow> nat \<Rightarrow> rtw_phl_indiv_twt_para_set \<Rightarrow> rtw_phl_indiv_twt_para_set" where
  "indiv_at f p q =
     (let cmd = cut_bits f (8 * p + 1) 3; s = 8 * p + 8 * wake_len cmd in
      \<lparr>i_req_type = \<lparr>twt_setup_cmd = cmd, flow_type = cut_bits f (8 * p + 6) 1, twt_request = cut_bits f (8 * p) 1,
         trigger = cut_bits f (8 * p + 4) 1, implicit = cut_bits f (8 * p + 5) 1, twt_flow_id = cut_bits f (8 * p + 7) 3,
         twt_wake_int_exp = cut_bits f (8 * p + 10) 5, twt_protection = cut_bits f (8 * p + 15) 1\<rparr>,
       target_wake_t_h = (if cmd = RTW_PHL_TWT_GROUPING then target_wake_t_h q else cut_bits f (8 * p + 48) 32),
       target_wake_t_l = (if cmd = RTW_PHL_TWT_GROUPING then target_wake_t_l q else cut_bits f (8 * p + 16) 32),
       twt_wake_int_mantissa = cut_bits f (s + 24) 16, nom_min_twt_wake_dur = cut_bits f (s + 16) 8,
       twt_channel = cut_bits f (s + 40) 8\<rparr>)"

definition indiv_bits :: "rtw_phl_indiv_twt_para_set \<Rightarrow> nat \<Rightarrow> (nat \<Rightarrow> bool) \<Rightarrow> nat \<Rightarrow> bool" where
  "indiv_bits para s f =
     (let g = paste (s + 15) 1 (bit (ucast (twt_protection (i_req_type para)) :: u16)) (
          paste (s + 10) 5 (bit (ucast (twt_wake_int_exp (i_req_type para)) :: u16)) (
          paste (s + 7) 3 (bit (ucast (twt_flow_id (i_req_type para)) :: u16)) (
          paste (s + 6) 1 (bit (ucast (flow_type (i_req_type para)) :: u8)) (
          paste (s + 5) 1 (bit (implicit (i_req_type para))) (
          paste (s + 4) 1 (bit (trigger (i_req_type para))) (
          paste (s + 1) 3 (bit (ucast (twt_setup_cmd (i_req_type para)) :: u8)) (
          paste s 1 (bit (twt_request (i_req_type para))) f)))))));
          grouping = (twt_setup_cmd (i_req_type para) = RTW_PHL_TWT_GROUPING);
          h = (if grouping then g
               else paste (s + 48) 32 (bit (target_wake_t_h para)) (paste (s + 16) 32 (bit (target_wake_t_l para)) g));
          w = (if grouping then 0 else 64)
      in paste (s + (w + 40)) 8 (bit (twt_channel para)) (
         paste (s + (w + 24)) 16 (bit (twt_wake_int_mantissa para)) (
         paste (s + (w + 16)) 8 (bit (nom_min_twt_wake_dur para)) h)))"

abbreviation indiv_len :: "rtw_phl_indiv_twt_para_set \<Rightarrow> nat" where
  "indiv_len para \<equiv> 6 + wake_len (twt_setup_cmd (i_req_type para))"

lemma fill_indiv_bits:
  "p + indiv_len para \<le> n \<Longrightarrow> twt_fill_individual_twt_para_set para p (of_bits n f) =
     Some (RTW_PHL_STATUS_SUCCESS, of_bits n (indiv_bits para (8 * p) f), of_nat (indiv_len para))"
  by (cases "twt_setup_cmd (i_req_type para) = RTW_PHL_TWT_GROUPING")
    (simp_all add: twt_fill_individual_twt_para_set_def twt_macros indiv_bits_def wake_len_def Let_def add_mult_distrib2 add.assoc
      del: One_nat_def add_2_eq_Suc')

lemma indiv_bits_beside: "beside p (p + indiv_len para) f (indiv_bits para (8 * p) f)"
  by (simp add: beside_def indiv_bits_def paste_def wake_len_def Let_def)

lemma indiv_bits_at:
  assumes "indiv_fits para"
  shows "indiv_at (indiv_bits para (8 * p) f) p q =
    (if twt_setup_cmd (i_req_type para) = RTW_PHL_TWT_GROUPING
     then para\<lparr>target_wake_t_h := target_wake_t_h q, target_wake_t_l := target_wake_t_l q\<rparr> else para)"
proof -
  have "cut_bits (indiv_bits para (8 * p) f) (8 * p + 1) 3 = twt_setup_cmd (i_req_type para)"
    using assms by (cases "twt_setup_cmd (i_req_type para) = RTW_PHL_TWT_GROUPING")
      (simp_all add: indiv_bits_def indiv_fits_def Let_def cut_off del: One_nat_def)
  then show ?thesis
    using assms by (cases "twt_setup_cmd (i_req_type para) = RTW_PHL_TWT_GROUPING"; cases para)
      (simp_all add: indiv_at_def indiv_bits_def indiv_fits_def wake_len_def Let_def cut_off add.assoc del: One_nat_def)
qed

lemma parse_indiv_at:
  assumes "p + 9 + wake_len (cut_bits f (8 * (p + 3) + 1) 3) \<le> n"
  shows "twt_parse_individual_twt_para (of_bits n f) p pkt_len e =
    Some (RTW_PHL_STATUS_SUCCESS, e\<lparr>i_twt_para_set := indiv_at f (p + 3) (i_twt_para_set e)\<rparr>)"
  using assms
  by (cases "cut_bits f (8 * (p + 3) + 1) 3 = RTW_PHL_TWT_GROUPING"; cases "i_twt_para_set e")
    (simp_all add: twt_parse_individual_twt_para_def twt_macros indiv_at_def wake_len_def Let_def add_mult_distrib2 add.assoc
      del: One_nat_def add_2_eq_Suc')


text \<open>The loops over broadcast parameter sets.\<close>

abbreviation sets :: "rtw_phl_twt_element \<Rightarrow> rtw_phl_bcast_twt_para_set list" where
  "sets \<equiv> b_twt_para_set"

lemma mark_last_fields [simp]:
  "btwt_fits (mark_last l p) = btwt_fits p" "b_target_wake_t_h (mark_last l p) = b_target_wake_t_h p"
  "lst_bc_para_set (b_req_type (mark_last l p)) = (if l then 1 else 0)"
  by (simp_all add: mark_last_def btwt_fits_def)

lemma beside_trans: "beside p q f g \<Longrightarrow> beside q r g h \<Longrightarrow> p \<le> q \<Longrightarrow> q \<le> r \<Longrightarrow> beside p r f h"
  by (auto simp: beside_def)

lemma fill_loop_at:
  assumes "i + k = unat (num_btwt_para e)" "i + k \<le> length (sets e)" "unat len + 9 * k < 256" "buf + unat len + 9 * k \<le> n"
  shows "\<exists>g e'. fill_btwt_loop [i..<i + k] buf e sts len (of_bits n f) =
      Some (if k = 0 then sts else RTW_PHL_STATUS_SUCCESS, e', of_bits n g, len + of_nat (9 * k)) \<and>
    beside (buf + unat len) (buf + unat len + 9 * k) f g \<and>
    twt_ctrl e' = twt_ctrl e \<and> num_btwt_para e' = num_btwt_para e \<and> length (sets e') = length (sets e) \<and>
    (\<forall>j < i. sets e' ! j = sets e ! j) \<and>
    (\<forall>j < k. sets e' ! (i + j) = mark_last (j + 1 = k) (sets e ! (i + j)) \<and>
       (btwt_fits (sets e ! (i + j)) \<longrightarrow>
        btwt_at g (buf + unat len + 9 * j) (b_target_wake_t_h (sets e ! (i + j))) = mark_last (j + 1 = k) (sets e ! (i + j))))"
  using assms
proof (induction k arbitrary: i e sts len f)
  case 0
  then show ?case by (auto simp: beside_def)
next
  case (Suc k)
  let ?p = "mark_last (i + 1 = unat (num_btwt_para e)) (sets e ! i)"
  let ?e = "e\<lparr>b_twt_para_set := (sets e)[i := ?p]\<rparr>"
  let ?f = "btwt_bits ?p (8 * (buf + unat len)) f"
  have u: "unat (len + 9) = unat len + 9" using Suc.prems(3) by (simp add: unat_word_ariths)
  have step: "fill_btwt_loop [i..<i + Suc k] buf e sts len (of_bits n f) =
      fill_btwt_loop [Suc i..<Suc i + k] buf ?e RTW_PHL_STATUS_SUCCESS (len + 9) (of_bits n ?f)"
    using Suc.prems(4) fill_btwt_bits [of "buf + unat len" n ?p f] by (simp add: upt_conv_Cons Let_def del: upt_Suc)
  from Suc.IH [of "Suc i" ?e "len + 9" RTW_PHL_STATUS_SUCCESS ?f] Suc.prems obtain g e' where
    r: "fill_btwt_loop [Suc i..<Suc i + k] buf ?e RTW_PHL_STATUS_SUCCESS (len + 9) (of_bits n ?f) =
        Some (RTW_PHL_STATUS_SUCCESS, e', of_bits n g, len + 9 + of_nat (9 * k))"
    and b: "beside (buf + (unat len + 9)) (buf + (unat len + 9) + 9 * k) ?f g"
    and e': "twt_ctrl e' = twt_ctrl e" "num_btwt_para e' = num_btwt_para e" "length (sets e') = length (sets e)"
      "\<forall>j < Suc i. sets e' ! j = (sets e)[i := ?p] ! j"
      "\<forall>j < k. sets e' ! (Suc i + j) = mark_last (j + 1 = k) ((sets e)[i := ?p] ! (Suc i + j)) \<and>
        (btwt_fits ((sets e)[i := ?p] ! (Suc i + j)) \<longrightarrow>
         btwt_at g (buf + (unat len + 9) + 9 * j) (b_target_wake_t_h ((sets e)[i := ?p] ! (Suc i + j))) = mark_last (j + 1 = k) ((sets e)[i := ?p] ! (Suc i + j)))"
    by (auto simp: u)
  have i: "i < length (sets e)" "(i + 1 = unat (num_btwt_para e)) = (k = 0)" using Suc.prems(1,2) by auto
  have at0: "btwt_at g (buf + unat len) (b_target_wake_t_h ?p) = ?p" if "btwt_fits (sets e ! i)"
    using btwt_at_beside [OF b, of "buf + unat len"] btwt_bits_at [of ?p "buf + unat len" f] that by simp
  have "beside (buf + unat len) (buf + unat len + 9) f ?f" by (rule btwt_bits_beside)
  from beside_trans [OF this, of "buf + unat len + 9 * Suc k" g] b
  have bs: "beside (buf + unat len) (buf + unat len + 9 * Suc k) f g" by (simp add: add.assoc)
  have all: "sets e' ! (i + j) = mark_last (j + 1 = Suc k) (sets e ! (i + j)) \<and>
      (btwt_fits (sets e ! (i + j)) \<longrightarrow>
       btwt_at g (buf + unat len + 9 * j) (b_target_wake_t_h (sets e ! (i + j))) = mark_last (j + 1 = Suc k) (sets e ! (i + j)))" if "j < Suc k" for j
  proof (cases j)
    case 0
    then show ?thesis using e'(4) i at0 by auto
  next
    case (Suc l)
    then show ?thesis using e'(5) that by (auto simp: add.assoc)
  qed
  show ?case
    using r bs e'(1-4) all unfolding step by (intro exI [of _ g] exI [of _ e'] conjI) (simp_all add: algebra_simps del: upt_Suc)
qed


lemma u8_as_u16 [simp]: "unat (ucast (x :: u8) :: u16) = unat x"
  using unat_u8_less [of x] by (simp add: unsigned_ucast_eq take_bit_nat_eq_self)

lemma parse_loop_at:
  assumes "0 < k" "i + k \<le> MAX_BTWT_PARA_SET" "i + k \<le> length (sets e)" "unat rlen + 9 * k < 256"
    "buf + unat rlen + 9 * k \<le> n" "9 * k \<le> unat rem"
    "\<forall>j < k. lst_bc_para_set (b_req_type (btwt_at f (buf + unat rlen + 9 * j) 0)) \<noteq> 0 \<longleftrightarrow> j + 1 = k"
  shows "\<exists>e'. parse_btwt_loop (of_bits n f) buf i e rlen rem = Some (RTW_PHL_STATUS_SUCCESS, e', rlen + of_nat (9 * k)) \<and>
    twt_ctrl e' = twt_ctrl e \<and> num_btwt_para e' = num_btwt_para e + of_nat k \<and>
    (\<forall>j < i. sets e' ! j = sets e ! j) \<and>
    (\<forall>j < k. sets e' ! (i + j) = btwt_at f (buf + unat rlen + 9 * j) (b_target_wake_t_h (sets e ! (i + j))))"
  using assms
proof (induction k arbitrary: i e rlen rem)
  case (Suc k)
  let ?b = "btwt_at f (buf + unat rlen) (b_target_wake_t_h (sets e ! i))"
  let ?e = "e\<lparr>b_twt_para_set := (sets e)[i := ?b], num_btwt_para := num_btwt_para e + 1\<rparr>"
  have u: "unat (rlen + 9) = unat rlen + 9" using Suc.prems(4) by (simp add: unat_word_ariths)
  have v: "unat (rem - 9) = unat rem - 9" "9 \<le> rem" using Suc.prems(6) by (simp_all add: unat_sub word_le_nat_alt)
  have w: "(9 :: u16) \<le> ucast rem" using v(2) by (simp add: word_le_nat_alt)
  have p: "twt_parse_btwt_para (of_bits n f) (buf + unat rlen) (ucast rem) (sets e ! i) 0 = Some (RTW_PHL_STATUS_SUCCESS, ?b, 9)"
    using parse_btwt_at [OF _ w] Suc.prems(5) by simp
  have "lst_bc_para_set (b_req_type ?b) \<noteq> 0 \<longleftrightarrow> k = 0" using Suc.prems(7) by (auto simp: btwt_at_def)
  moreover have "rem - 9 < 9 \<Longrightarrow> k = 0" using Suc.prems(6) v(1) by (auto simp: word_less_nat_alt)
  ultimately have step: "parse_btwt_loop (of_bits n f) buf i e rlen rem =
      (if k = 0 then Some (RTW_PHL_STATUS_SUCCESS, ?e, rlen + 9) else parse_btwt_loop (of_bits n f) buf (i + 1) ?e (rlen + 9) (rem - 9))"
    using p Suc.prems(2) by (subst parse_btwt_loop.simps) (auto simp: Let_def twt_macros)
  show ?case
  proof (cases "k = 0")
    case True
    then show ?thesis using step Suc.prems(3) by auto
  next
    case False
    have "\<forall>j < k. lst_bc_para_set (b_req_type (btwt_at f (buf + unat (rlen + 9) + 9 * j) 0)) \<noteq> 0 \<longleftrightarrow> j + 1 = k"
      using Suc.prems(7) unfolding u by (auto simp: add.assoc dest: spec [where x = "Suc _"])
    then have "\<exists>e'. parse_btwt_loop (of_bits n f) buf (i + 1) ?e (rlen + 9) (rem - 9) =
        Some (RTW_PHL_STATUS_SUCCESS, e', rlen + 9 + of_nat (9 * k)) \<and>
      twt_ctrl e' = twt_ctrl ?e \<and> num_btwt_para e' = num_btwt_para ?e + of_nat k \<and>
      (\<forall>j < i + 1. sets e' ! j = sets ?e ! j) \<and>
      (\<forall>j < k. sets e' ! (i + 1 + j) = btwt_at f (buf + unat (rlen + 9) + 9 * j) (b_target_wake_t_h (sets ?e ! (i + 1 + j))))"
      using False Suc.prems u v by (intro Suc.IH) simp_all
    then obtain e' where
      r: "parse_btwt_loop (of_bits n f) buf (i + 1) ?e (rlen + 9) (rem - 9) = Some (RTW_PHL_STATUS_SUCCESS, e', rlen + 9 + of_nat (9 * k))"
      and e': "twt_ctrl e' = twt_ctrl ?e" "num_btwt_para e' = num_btwt_para ?e + of_nat k" "\<forall>j < i + 1. sets e' ! j = sets ?e ! j"
        "\<forall>j < k. sets e' ! (i + 1 + j) = btwt_at f (buf + unat (rlen + 9) + 9 * j) (b_target_wake_t_h (sets ?e ! (i + 1 + j)))"
      by blast
    have "sets e' ! (i + j) = btwt_at f (buf + unat rlen + 9 * j) (b_target_wake_t_h (sets e ! (i + j)))" if "j < Suc k" for j
      using e'(3,4) that Suc.prems(3) u by (cases j) (auto simp: add.assoc)
    then show ?thesis
      using r e' False unfolding step by (intro exI [of _ e'] conjI) (simp_all add: algebra_simps)
  qed
qed simp

text \<open>Inside the bytes the length announces.\<close>

lemma parse_loop_inside:
  "buf + unat rlen + unat rem \<le> n \<Longrightarrow> unat rlen + unat rem < 256 \<Longrightarrow> \<exists>r. parse_btwt_loop (of_bits n f) buf i e rlen rem = Some r"
proof (induction "MAX_BTWT_PARA_SET - i" arbitrary: i e rlen rem)
  case 0
  then show ?case by (subst parse_btwt_loop.simps) simp
next
  case (Suc k)
  have ih: "\<exists>r. parse_btwt_loop (of_bits n f) buf (i + 1) e' (rlen + 9) (rem - 9) = Some r" if "9 \<le> rem" for e'
  proof -
    have "unat (rlen + 9) = unat rlen + 9" "unat (rem - 9) = unat rem - 9" "9 \<le> unat rem"
      using Suc.prems that by (simp_all add: unat_word_ariths unat_sub word_le_nat_alt)
    then show ?thesis using Suc.prems Suc.hyps(2) by (intro Suc.hyps(1)) auto
  qed
  show ?case
  proof (cases "9 \<le> rem")
    case True
    then have w: "(9 :: u16) \<le> ucast rem" "9 \<le> unat rem" by (simp_all add: word_le_nat_alt)
    have "twt_parse_btwt_para (of_bits n f) (buf + unat rlen) (ucast rem) q 0 =
        Some (RTW_PHL_STATUS_SUCCESS, btwt_at f (buf + unat rlen) (b_target_wake_t_h q), 9)" for q
      using Suc.prems(1) w by (intro parse_btwt_at) simp_all
    then show ?thesis using ih True by (subst parse_btwt_loop.simps) (auto simp: Let_def)
  next
    case False
    then have "(ucast rem :: u16) < 9" by (simp add: word_less_nat_alt word_le_nat_alt)
    then show ?thesis by (subst parse_btwt_loop.simps) (auto simp: twt_parse_btwt_para_def twt_macros Let_def)
  qed
qed


subsection \<open>Whole elements\<close>

lemma ctrl_at_beside: "beside p' q' f g \<Longrightarrow> p + 1 \<le> p' \<or> q' \<le> p \<Longrightarrow> ctrl_at g p = ctrl_at f p"
  unfolding ctrl_at_def by (auto simp: beside_def intro!: cut_cong)

lemma cut_beside:
  "beside p' q' f g \<Longrightarrow> q' \<le> p \<Longrightarrow> cut_bits g (8 * p + a) l = cut_bits f (8 * p + a) l"
  "beside p' q' f g \<Longrightarrow> q' \<le> p \<Longrightarrow> cut_bits g (8 * p) l = cut_bits f (8 * p) l"
  by (auto simp: beside_def intro!: cut_cong)

lemma indiv_at_beside: "beside p' q' f g \<Longrightarrow> q' \<le> p \<Longrightarrow> indiv_at g p x = indiv_at f p x"
  by (simp add: indiv_at_def Let_def add.assoc cut_beside del: One_nat_def)

lemma update_bits: "k < n \<Longrightarrow> (of_bits n f)[k := v] = of_bits n (paste (8 * k) 8 (bit v) f)"
proof -
  assume k: "k < n"
  have "put k (le_bytes 1 v) (of_bits n f) = Some ((of_bits n f)[k := v])"
    using k by (simp add: put_def le_bytes_def upd_conv_take_nth_drop)
  then show ?thesis using put_le_bytes [of k 1 n v f] k by simp
qed

lemma update_beside: "beside k (k + 1) f (paste (8 * k) 8 g f)"
  by (auto simp: beside_def paste_def)

lemma parse_element_at:
  assumes "p + 3 \<le> n"
  shows "rtw_phl_twt_parse_element True (of_bits n f) p pkt_len e =
    (let c = ctrl_at f (p + 2); e1 = e\<lparr>twt_ctrl := c\<rparr> in
     if nego_type c = RTW_PHL_INDIV_TWT then twt_parse_individual_twt_para (of_bits n f) p pkt_len e1
     else if nego_type c = RTW_PHL_BCAST_TWT \<or> nego_type c = RTW_PHL_MANAGE_BCAST_TWT
     then map_option (\<lambda>(sts, e', _). (sts, e')) (parse_btwt_loop (of_bits n f) (p + 3) 0 (e1\<lparr>num_btwt_para := 0\<rparr>) 0 (cut_bits f (8 * (p + 1)) 8 - 1))
     else Some (RTW_PHL_STATUS_FAILURE, e1))"
  using assms parse_control_at [of "p + 2" n f]
  by (simp add: rtw_phl_twt_parse_element_def twt_macros twt_parse_all_btwt_para_def Let_def map_option_bind split_def
      map_conv_bind_option comp_def del: One_nat_def add_2_eq_Suc')

definition elem_fits :: "rtw_phl_twt_element \<Rightarrow> bool" where
  "elem_fits e \<longleftrightarrow> ctrl_fits (twt_ctrl e) \<and>
     (if nego_type (twt_ctrl e) = RTW_PHL_INDIV_TWT then indiv_fits (i_twt_para_set e)
      else (nego_type (twt_ctrl e) = RTW_PHL_BCAST_TWT \<or> nego_type (twt_ctrl e) = RTW_PHL_MANAGE_BCAST_TWT) \<and>
           0 < num_btwt_para e \<and> unat (num_btwt_para e) \<le> MAX_BTWT_PARA_SET \<and> length (sets e) = MAX_BTWT_PARA_SET \<and>
           (\<forall>j < unat (num_btwt_para e). btwt_fits (sets e ! j)))"

definition elem_len :: "rtw_phl_twt_element \<Rightarrow> nat" where
  "elem_len e = 1 + (if nego_type (twt_ctrl e) = RTW_PHL_INDIV_TWT then indiv_len (i_twt_para_set e)
     else 9 * unat (num_btwt_para e))"


lemma indiv_roundtrip:
  fixes len :: u8
  assumes c: "ctrl_at g (p + 2) = twt_ctrl e"
    and i: "nego_type (twt_ctrl e) = RTW_PHL_INDIV_TWT" "indiv_fits (i_twt_para_set e)" "p + 3 + indiv_len (i_twt_para_set e) \<le> n"
  defines "h \<equiv> paste (8 * (p + 1)) 8 (bit len) (indiv_bits (i_twt_para_set e) (8 * (p + 3)) g)"
  shows "rtw_phl_twt_parse_element True (of_bits n h) p pkt_len e0 =
    Some (RTW_PHL_STATUS_SUCCESS, e0\<lparr>twt_ctrl := twt_ctrl e, i_twt_para_set :=
      (if twt_setup_cmd (i_req_type (i_twt_para_set e)) = RTW_PHL_TWT_GROUPING
       then (i_twt_para_set e)\<lparr>target_wake_t_h := target_wake_t_h (i_twt_para_set e0),
                                target_wake_t_l := target_wake_t_l (i_twt_para_set e0)\<rparr>
       else i_twt_para_set e)\<rparr>)"
proof -
  let ?i = "i_twt_para_set e"
  have pe: "p + 3 \<le> n" using i(3) by simp
  have b1: "beside (p + 3) (p + 3 + indiv_len ?i) g (indiv_bits ?i (8 * (p + 3)) g)" by (rule indiv_bits_beside)
  have b2: "beside (p + 1) (p + 1 + 1) (indiv_bits ?i (8 * (p + 3)) g) h" unfolding h_def by (rule update_beside)
  have c2: "ctrl_at h (p + 2) = twt_ctrl e"
    using ctrl_at_beside [OF b1, of "p + 2"] ctrl_at_beside [OF b2, of "p + 2"] c by simp
  have i2: "indiv_at h (p + 3) x = indiv_at (indiv_bits ?i (8 * (p + 3)) g) (p + 3) x" for x
    by (rule indiv_at_beside [OF b2]) simp
  have "cut_bits h (8 * (p + 3) + 1) 3 = twt_setup_cmd (i_req_type (indiv_at h (p + 3) ?i))"
    by (simp add: indiv_at_def Let_def)
  also have "\<dots> = twt_setup_cmd (i_req_type ?i)" unfolding i2 indiv_bits_at [OF i(2)] by simp
  finally have "cut_bits h (8 * (p + 3) + 1) 3 = twt_setup_cmd (i_req_type ?i)" .
  then have "p + 9 + wake_len (cut_bits h (8 * (p + 3) + 1) 3) \<le> n" using i(3) by simp
  from parse_indiv_at [OF this] show ?thesis
    unfolding parse_element_at [OF pe] c2 Let_def i2 indiv_bits_at [OF i(2)] using i(1) by simp
qed

lemma bcast_roundtrip:
  assumes c: "ctrl_at g (p + 2) = twt_ctrl e" "nego_type (twt_ctrl e) = RTW_PHL_BCAST_TWT \<or> nego_type (twt_ctrl e) = RTW_PHL_MANAGE_BCAST_TWT"
    and m: "0 < k" "k \<le> MAX_BTWT_PARA_SET" "length (sets e0) = MAX_BTWT_PARA_SET" "p + 3 + 9 * k \<le> n"
    and s: "\<forall>j < k. btwt_at g (p + 3 + 9 * j) (b_target_wake_t_h (q j)) = mark_last (j + 1 = k) (q j)"
  defines "h \<equiv> paste (8 * (p + 1)) 8 (bit (of_nat (1 + 9 * k) :: u8)) g"
  shows "\<exists>e2. rtw_phl_twt_parse_element True (of_bits n h) p pkt_len e0 = Some (RTW_PHL_STATUS_SUCCESS, e2) \<and>
    twt_ctrl e2 = twt_ctrl e \<and> num_btwt_para e2 = of_nat k \<and>
    (\<forall>j < k. sets e2 ! j = (mark_last (j + 1 = k) (q j))\<lparr>b_target_wake_t_h := b_target_wake_t_h (sets e0 ! j)\<rparr>)"
proof -
  have b: "beside (p + 1) (p + 1 + 1) g h" unfolding h_def by (rule update_beside)
  have c2: "ctrl_at h (p + 2) = twt_ctrl e" using ctrl_at_beside [OF b, of "p + 2"] c(1) by simp
  have h: "btwt_at h (p + 3 + 9 * j) x = btwt_at g (p + 3 + 9 * j) x" for j x by (rule btwt_at_beside [OF b]) simp
  have at: "btwt_at h (p + 3 + 9 * j) x = (mark_last (j + 1 = k) (q j))\<lparr>b_target_wake_t_h := x\<rparr>" if "j < k" for j x
  proof -
    have "btwt_at h (p + 3 + 9 * j) x = (btwt_at g (p + 3 + 9 * j) (b_target_wake_t_h (q j)))\<lparr>b_target_wake_t_h := x\<rparr>"
      unfolding h by (simp add: btwt_at_def)
    then show ?thesis using s that by simp
  qed
  have k: "k \<le> 3" using m(2) by (simp add: twt_macros)
  have r: "cut_bits h (8 * (p + 1)) 8 - 1 = (of_nat (9 * k) :: u8)" by (simp add: h_def)
  have u: "unat (of_nat (9 * k) :: u8) = 9 * k" using k by (simp only: unat_of_nat) simp
  have l: "\<forall>j < k. lst_bc_para_set (b_req_type (btwt_at h (p + 3 + unat (0::u8) + 9 * j) 0)) \<noteq> 0 \<longleftrightarrow> j + 1 = k"
    using at by simp
  have "\<exists>e2. parse_btwt_loop (of_bits n h) (p + 3) 0 (e0\<lparr>twt_ctrl := twt_ctrl e, num_btwt_para := 0\<rparr>) 0 (of_nat (9 * k)) =
      Some (RTW_PHL_STATUS_SUCCESS, e2, 0 + of_nat (9 * k)) \<and>
    twt_ctrl e2 = twt_ctrl (e0\<lparr>twt_ctrl := twt_ctrl e, num_btwt_para := 0\<rparr>) \<and>
    num_btwt_para e2 = num_btwt_para (e0\<lparr>twt_ctrl := twt_ctrl e, num_btwt_para := 0\<rparr>) + of_nat k \<and>
    (\<forall>j < 0. sets e2 ! j = sets (e0\<lparr>twt_ctrl := twt_ctrl e, num_btwt_para := 0\<rparr>) ! j) \<and>
    (\<forall>j < k. sets e2 ! (0 + j) = btwt_at h (p + 3 + unat (0::u8) + 9 * j)
       (b_target_wake_t_h (sets (e0\<lparr>twt_ctrl := twt_ctrl e, num_btwt_para := 0\<rparr>) ! (0 + j))))"
    using m k u l by (intro parse_loop_at) simp_all
  moreover have "p + 3 \<le> n" using m(4) by simp
  ultimately show ?thesis unfolding parse_element_at [OF \<open>p + 3 \<le> n\<close>] c2 Let_def r using c(2) at by (auto simp: twt_macros)
qed


lemma fill_bcast_at:
  assumes fc: "fill_control (twt_ctrl e) (p + 2) b = Some (of_bits n g)" and cg: "ctrl_at g (p + 2) = twt_ctrl e"
    and ty: "nego_type (twt_ctrl e) = RTW_PHL_BCAST_TWT \<or> nego_type (twt_ctrl e) = RTW_PHL_MANAGE_BCAST_TWT"
    and k: "unat (num_btwt_para e) = k" "0 < k" "k \<le> 3" "length (sets e) = 3" "p + 3 + 9 * k \<le> n"
    and ft: "\<forall>j < k. btwt_fits (sets e ! j)"
  shows "\<exists>h e1. rtw_phl_twt_fill_twt_element True e (p + 2) b len0 =
      Some (RTW_PHL_STATUS_SUCCESS, e1, of_bits n h, of_nat (1 + 9 * k)) \<and> ctrl_at h (p + 2) = twt_ctrl e \<and>
    (\<forall>j < k. btwt_at h (p + 3 + 9 * j) (b_target_wake_t_h (sets e ! j)) = mark_last (j + 1 = k) (sets e ! j))"
proof -
  from fill_loop_at [of 0 k e 1 "p + 2" n RTW_PHL_STATUS_FAILURE g] k obtain h e1 where
    fl: "fill_btwt_loop [0..<k] (p + 2) e RTW_PHL_STATUS_FAILURE 1 (of_bits n g) =
        Some (RTW_PHL_STATUS_SUCCESS, e1, of_bits n h, 1 + of_nat (9 * k))"
    and bh: "beside (p + 2 + 1) (p + 2 + 1 + 9 * k) g h"
    and at: "\<forall>j < k. btwt_fits (sets e ! j) \<longrightarrow> btwt_at h (p + 2 + 1 + 9 * j) (b_target_wake_t_h (sets e ! j)) =
        mark_last (j + 1 = k) (sets e ! j)"
    by auto
  have "rtw_phl_twt_fill_twt_element True e (p + 2) b len0 =
      Some (RTW_PHL_STATUS_SUCCESS, e1, of_bits n h, of_nat (1 + 9 * k))"
    using fc fl ty k(1,3) by (auto simp: rtw_phl_twt_fill_twt_element_def Let_def twt_macros)
  moreover have "ctrl_at h (p + 2) = twt_ctrl e" using ctrl_at_beside [OF bh, of "p + 2"] cg by simp
  moreover have "\<forall>j < k. btwt_at h (p + 3 + 9 * j) (b_target_wake_t_h (sets e ! j)) = mark_last (j + 1 = k) (sets e ! j)"
    using at ft by (simp add: numeral_3_eq_3)
  ultimately show ?thesis by blast
qed

text \<open>What of an element reaches the receiver.\<close>

definition carried :: "rtw_phl_twt_element \<Rightarrow> rtw_phl_twt_element \<Rightarrow> rtw_phl_twt_element \<Rightarrow> bool" where
  "carried e e0 e2 \<longleftrightarrow> twt_ctrl e2 = twt_ctrl e \<and>
     (if nego_type (twt_ctrl e) = RTW_PHL_INDIV_TWT
      then i_twt_para_set e2 =
        (if twt_setup_cmd (i_req_type (i_twt_para_set e)) = RTW_PHL_TWT_GROUPING
         then (i_twt_para_set e)\<lparr>target_wake_t_h := target_wake_t_h (i_twt_para_set e0),
                                  target_wake_t_l := target_wake_t_l (i_twt_para_set e0)\<rparr>
         else i_twt_para_set e)
      else num_btwt_para e2 = num_btwt_para e \<and>
        (\<forall>j < unat (num_btwt_para e). sets e2 ! j =
           (mark_last (j + 1 = unat (num_btwt_para e)) (sets e ! j))\<lparr>b_target_wake_t_h := b_target_wake_t_h (sets e0 ! j)\<rparr>))"

text \<open>
  C18. Round trip of TWT elements: an element whose values fit their fields (an individual one, or a broadcast one with one to
  three parameter sets) can be filled into any buffer that has room for it, with the exact length; the parser, given the buffer with
  the length byte in front, succeeds and gets back the control field and all parameter sets, with the last broadcast
  set marked as such. The wake time of a grouping command and the high half of a broadcast wake time are
  not transmitted.
\<close>

theorem twt_element_roundtrip:
  assumes "elem_fits e" "p + 2 + elem_len e \<le> length b" "length (sets e0) = MAX_BTWT_PARA_SET"
  shows "\<exists>e1 b1 len e2. rtw_phl_twt_fill_twt_element True e (p + 2) b len0 = Some (RTW_PHL_STATUS_SUCCESS, e1, b1, len) \<and>
    unat len = elem_len e \<and> length b1 = length b \<and>
    rtw_phl_twt_parse_element True (b1[p + 1 := len]) p pkt_len e0 = Some (RTW_PHL_STATUS_SUCCESS, e2) \<and> carried e e0 e2"
proof -
  define n where "n = length b"
  have b: "b = of_bits n (buf_bit b)" by (simp add: n_def of_bits_buf_bit)
  have n: "p + 2 + elem_len e \<le> n" "p + 2 + 1 \<le> n" "p + 1 < n" using assms(2) by (simp_all add: n_def elem_len_def)
  from fill_control_at [OF n(2), of "twt_ctrl e" "buf_bit b"] obtain g where
    fc: "fill_control (twt_ctrl e) (p + 2) b = Some (of_bits n g)" and bg: "beside (p + 2) (p + 2 + 1) (buf_bit b) g"
    and cg: "ctrl_at g (p + 2) = twt_ctrl e" using assms(1) b by (auto simp: elem_fits_def)
  show ?thesis
  proof (cases "nego_type (twt_ctrl e) = RTW_PHL_INDIV_TWT")
    case True
    let ?i = "i_twt_para_set e"
    have i: "indiv_fits ?i" "p + 3 + indiv_len ?i \<le> n" using assms(1) n(1) True by (simp_all add: elem_fits_def elem_len_def)
    have l: "unat (1 + of_nat (indiv_len ?i) :: u8) = 1 + indiv_len ?i" by (simp add: wake_len_def)
    have fill: "rtw_phl_twt_fill_twt_element True e (p + 2) b len0 =
        Some (RTW_PHL_STATUS_SUCCESS, e, of_bits n (indiv_bits ?i (8 * (p + 3)) g), 1 + of_nat (indiv_len ?i))"
      using fill_indiv_bits [OF i(2), of g] fc True
      by (simp add: rtw_phl_twt_fill_twt_element_def Let_def twt_macros add.commute [of 3] del: One_nat_def add_2_eq_Suc')
    obtain e2 where
      "rtw_phl_twt_parse_element True (of_bits n (paste (8 * (p + 1)) 8 (bit (1 + of_nat (indiv_len ?i) :: u8))
         (indiv_bits ?i (8 * (p + 3)) g))) p pkt_len e0 = Some (RTW_PHL_STATUS_SUCCESS, e2)" "carried e e0 e2"
      unfolding indiv_roundtrip [OF cg True i] using True by (simp add: carried_def)
    then show ?thesis
      unfolding fill using l True update_bits [OF n(3), of _ "1 + of_nat (indiv_len ?i)"] by (auto simp: elem_len_def n_def)
  next
    case False
    let ?k = "unat (num_btwt_para e)"
    have k: "0 < ?k" "?k \<le> MAX_BTWT_PARA_SET" "length (sets e) = MAX_BTWT_PARA_SET" "p + 3 + 9 * ?k \<le> n" "?k \<le> 3"
      and ty: "nego_type (twt_ctrl e) = RTW_PHL_BCAST_TWT \<or> nego_type (twt_ctrl e) = RTW_PHL_MANAGE_BCAST_TWT"
      and ft: "\<forall>j < ?k. btwt_fits (sets e ! j)"
      using assms(1) n(1) False by (auto simp: elem_fits_def elem_len_def twt_macros unat_gt_0)
    from fill_bcast_at [OF fc cg ty refl k(1,5) _ k(4) ft, of len0] k(3) obtain h e1 where
      fill: "rtw_phl_twt_fill_twt_element True e (p + 2) b len0 = Some (RTW_PHL_STATUS_SUCCESS, e1, of_bits n h, of_nat (1 + 9 * ?k))"
      and ch: "ctrl_at h (p + 2) = twt_ctrl e"
      and at: "\<forall>j < ?k. btwt_at h (p + 3 + 9 * j) (b_target_wake_t_h (sets e ! j)) = mark_last (j + 1 = ?k) (sets e ! j)"
      by (auto simp: twt_macros)
    from bcast_roundtrip [OF ch ty k(1,2) assms(3) k(4) at, of pkt_len] obtain e2 where
      e2: "rtw_phl_twt_parse_element True (of_bits n (paste (8 * (p + 1)) 8 (bit (of_nat (1 + 9 * ?k) :: u8)) h)) p pkt_len e0 =
          Some (RTW_PHL_STATUS_SUCCESS, e2)" "carried e e0 e2"
      using False by (auto simp: carried_def)
    have "unat (of_nat (1 + 9 * ?k) :: u8) = 1 + 9 * ?k" using k(5) by (simp only: unat_of_nat) simp
    then show ?thesis
      using fill e2 False n(3) by (simp add: update_bits elem_len_def n_def del: of_nat_add of_nat_mult)
  qed
qed


definition bpara0 :: rtw_phl_bcast_twt_para_set where
  "bpara0 = \<lparr>b_req_type = \<lparr>b_twt_request = 1, b_twt_setup_cmd = 4, b_trigger = 1, lst_bc_para_set = 0, b_flow_type = 0,
     btwt_rcmd = 2, b_twt_wake_int_exp = 10\<rparr>, b_target_wake_t_h = 0, b_target_wake_t_l = 0x1234,
     b_nom_min_twt_wake_dur = 255, b_twt_wake_int_mantissa = 512, btwt_i = \<lparr>btwt_id = 3, btwt_prstnc = 255\<rparr>\<rparr>"

definition ipara0 :: rtw_phl_indiv_twt_para_set where
  "ipara0 = \<lparr>i_req_type = \<lparr>twt_setup_cmd = 1, flow_type = 0, twt_request = 1, trigger = 1, implicit = 1, twt_flow_id = 5,
     twt_wake_int_exp = 10, twt_protection = 0\<rparr>, target_wake_t_h = 7, target_wake_t_l = 0x89abcdef,
     twt_wake_int_mantissa = 512, nom_min_twt_wake_dur = 255, twt_channel = 0\<rparr>"

definition elem0 :: rtw_phl_twt_element where
  "elem0 = \<lparr>twt_ctrl = \<lparr>ndp_paging_indic = 0, responder_pm_mode = 1, nego_type = 3, twt_info_frame_disable = 1, wake_dur_unit = 0\<rparr>,
     num_btwt_para = 2, i_twt_para_set = ipara0, b_twt_para_set = [bpara0, bpara0, bpara0]\<rparr>"

theorem twt_element_roundtrip_witness:
  "\<exists>e1 b1 e2. rtw_phl_twt_fill_twt_element True elem0 5 (replicate 40 0) 0 = Some (RTW_PHL_STATUS_SUCCESS, e1, b1, 19) \<and>
     rtw_phl_twt_parse_element True (b1[4 := 19]) 3 0 elem0 = Some (RTW_PHL_STATUS_SUCCESS, e2) \<and> carried elem0 elem0 e2"
proof -
  have f: "btwt_fits bpara0" by (simp add: btwt_fits_def bpara0_def)
  have "ctrl_fits (twt_ctrl elem0)" by (simp add: ctrl_fits_def elem0_def)
  moreover have "sets elem0 ! j = bpara0" if "j < 2" for j using that by (auto simp: elem0_def less_2_cases_iff)
  ultimately have "elem_fits elem0" using f by (simp add: elem_fits_def elem0_def twt_macros)
  moreover have l: "elem_len elem0 = 19" by (simp add: elem_len_def elem0_def twt_macros)
  moreover have "length (sets elem0) = MAX_BTWT_PARA_SET" by (simp add: elem0_def twt_macros)
  ultimately obtain e1 b1 len e2 where
    r: "rtw_phl_twt_fill_twt_element True elem0 (3 + 2) (replicate 40 0) 0 = Some (RTW_PHL_STATUS_SUCCESS, e1, b1, len)"
      "unat len = 19" "rtw_phl_twt_parse_element True (b1[3 + 1 := len]) 3 0 elem0 = Some (RTW_PHL_STATUS_SUCCESS, e2)" "carried elem0 elem0 e2"
    using twt_element_roundtrip [of elem0 3 "replicate 40 0" elem0 0 0] by auto
  have "len = 19" using r(2) by (simp add: word_unat_eq_iff)
  then show ?thesis using r by auto
qed

end
