(* ===== verification/Phl_Twt_Props.thy ===== *)
theory Phl_Twt_Props
  imports Phl_Twt
begin

section \<open>Bounds of the TWT parsers, flow and information fields\<close>

text \<open>
  Which packets the element parser reads inside their bounds, and the round trips of the flow field and the
  information field.
\<close>

lemma two_bits: "fits 2 (v :: 'a::len word) \<Longrightarrow> v = 0 \<or> v = 1 \<or> v = 2 \<or> v = 3"
proof -
  assume "fits 2 v"
  then have "unat v = take_bit 2 (unat v)" by (metis unsigned_take_bit_eq)
  then have "unat v < 4" using take_bit_nat_less_exp [of 2 "unat v"] by simp
  then have "unat v = 0 \<or> unat v = 1 \<or> unat v = 2 \<or> unat v = 3" by linarith
  moreover have "v = of_nat k" if "unat v = k" for k using that by auto
  from this [of 1] this [of 2] this [of 3] have "unat v = 1 \<Longrightarrow> v = 1" "unat v = 2 \<Longrightarrow> v = 2" "unat v = 3 \<Longrightarrow> v = 3" by simp_all
  ultimately show ?thesis by (auto simp: unat_eq_zero)
qed

subsection \<open>Bounds\<close>

lemma get_SomeD:
  "LE_BITS_TO_1BYTE off boff blen b = Some x \<Longrightarrow> off + 1 \<le> length b"
  "LE_BITS_TO_2BYTE off boff blen b = Some y \<Longrightarrow> off + 2 \<le> length b"
  using le1.get_outside [of off b boff blen] le2.get_outside [of off b boff blen] by (auto simp del: le1.get_outside le2.get_outside)

lemma nego_at:
  assumes "p + 3 \<le> length b"
  shows "GET_TWT_CONTROL_NEGOTIATION_TYPE (p + 2) b = Some (ucast (nego_type (ctrl_at (buf_bit b) (p + 2))))"
  using assms le1.get_inside [of "p + 2" b 2 2] by (simp add: twt_macros ctrl_at_def)

lemma length_at: "p < length b \<Longrightarrow> cut_bits (buf_bit b) (8 * p) 8 = b ! p"
  by (rule bit_word_eqI) (simp add: buf_bit_def)

lemma nego_cases:
  fixes c :: rtw_phl_twt_control
  assumes "c = ctrl_at f p"
  shows "ucast (nego_type c) = (0 :: u8) \<longleftrightarrow> nego_type c = RTW_PHL_INDIV_TWT"
    "ucast (nego_type c) = (2 :: u8) \<longleftrightarrow> nego_type c = RTW_PHL_BCAST_TWT"
    "ucast (nego_type c) = (3 :: u8) \<longleftrightarrow> nego_type c = RTW_PHL_MANAGE_BCAST_TWT"
proof -
  have "nego_type c = ucast (ucast (nego_type c) :: u8)" by (simp add: assms ctrl_at_def)
  then show "ucast (nego_type c) = (0 :: u8) \<longleftrightarrow> nego_type c = RTW_PHL_INDIV_TWT"
    "ucast (nego_type c) = (2 :: u8) \<longleftrightarrow> nego_type c = RTW_PHL_BCAST_TWT"
    "ucast (nego_type c) = (3 :: u8) \<longleftrightarrow> nego_type c = RTW_PHL_MANAGE_BCAST_TWT"
    by (auto simp: twt_macros)
qed

text \<open>
  C19. Parsing a TWT element stays inside the packet when the packet holds the bytes the length byte of the element
  announces, this length is not 0, and an individual element announces at least 15 bytes; it does so for any
  announced packet length, which the parser does not look at.
\<close>

theorem twt_parse_in_bounds:
  assumes "p + 2 + unat (b ! (p + 1)) \<le> length b" "b ! (p + 1) \<noteq> 0"
    "GET_TWT_CONTROL_NEGOTIATION_TYPE (p + 2) b = Some 0 \<Longrightarrow> 15 \<le> unat (b ! (p + 1))"
  shows "\<exists>r. rtw_phl_twt_parse_element True b p pkt_len e = Some r"
proof -
  let ?f = "buf_bit b" and ?n = "length b"
  have b: "of_bits ?n ?f = b" by (rule of_bits_buf_bit)
  have l: "0 < unat (b ! (p + 1))" using assms(2) by (simp add: unat_gt_0)
  then have n: "p + 3 \<le> ?n" "p + 1 < ?n" using assms(1) by simp_all
  let ?c = "ctrl_at ?f (p + 2)"
  have "\<exists>r. twt_parse_individual_twt_para b p pkt_len e' = Some r" if "nego_type ?c = RTW_PHL_INDIV_TWT" for e'
  proof -
    have "15 \<le> unat (b ! (p + 1))" using assms(3) nego_at [OF n(1)] nego_cases(1) [OF refl, of ?f "p + 2"] that by simp
    then have "p + 9 + wake_len (cut_bits ?f (8 * (p + 3) + 1) 3) \<le> ?n" using assms(1) by (simp add: wake_len_def)
    from parse_indiv_at [OF this] show ?thesis by (simp add: b)
  qed
  moreover have "\<exists>r. parse_btwt_loop b (p + 3) 0 e' 0 (b ! (p + 1) - 1) = Some r" for e'
  proof -
    have "unat (b ! (p + 1) - 1) = unat (b ! (p + 1)) - 1" by (rule unat_minus_one [OF assms(2)])
    then show ?thesis
      using parse_loop_inside [of "p + 3" 0 "b ! (p + 1) - 1" ?n ?f 0 e'] assms(1) l unat_u8_less [of "b ! (p + 1)"] by (simp add: b)
  qed
  ultimately show ?thesis
    using parse_element_at [OF n(1), of ?f pkt_len e] length_at [OF n(2)] by (auto simp: b Let_def)
qed

theorem twt_parse_in_bounds_witness:
  "\<exists>r. rtw_phl_twt_parse_element True ([216, 10, 8] @ replicate 9 0) 0 0 elem0 = Some r"
proof -
  have "GET_TWT_CONTROL_NEGOTIATION_TYPE (0 + 2) ([216, 10, 8] @ replicate 9 0) \<noteq> Some 0" by code_simp
  then show ?thesis by (intro twt_parse_in_bounds) simp_all
qed

text \<open>
  Which bytes the parser needs, byte by byte. An individual element has 9 bytes up to its channel, and 8 more unless its
  command is the grouping command. Of broadcast parameter sets there are at most three of 9 bytes; a set is read when at least 9
  bytes are left of the announced length, and the next one when this one is not marked as the last.
\<close>

definition indiv_overrun :: "u8 list \<Rightarrow> nat \<Rightarrow> bool" where
  "indiv_overrun b p \<longleftrightarrow> length b < p + 9 \<or>
     (if GET_TWT_REQ_TYPE_TWT_SETUP_COMMAND (p + 3) b = Some 3 then False else length b < p + 17)"

fun btwt_overrun :: "nat \<Rightarrow> u8 list \<Rightarrow> nat \<Rightarrow> nat \<Rightarrow> bool" where
  "btwt_overrun 0 b q left = False"
| "btwt_overrun (Suc k) b q left \<longleftrightarrow> 9 \<le> left \<and>
     (length b < q + 9 \<or> GET_BTWT_REQ_TYPE_LST_BC_PARA_SET q b = Some 0 \<and> btwt_overrun k b (q + 9) (left - 9))"

lemma ucast_three: "(ucast (c :: u16) :: u32) = 3 \<longleftrightarrow> c = 3"
proof
  assume "(ucast c :: u32) = 3"
  moreover have "(ucast (ucast c :: u32) :: u16) = c" by (rule bit_word_eqI) (auto simp: bit_simps dest: bit_imp_le_length)
  ultimately show "c = 3" by simp
qed simp

lemma cut_three: "(cut_bits f s 3 :: u32) = 3 \<longleftrightarrow> (cut_bits f s 3 :: u16) = 3"
proof -
  have "(cut_bits f s 3 :: u32) = ucast (cut_bits f s 3 :: u16)" by (rule bit_word_eqI) (auto simp: bit_simps)
  then show ?thesis by (simp only: ucast_three)
qed

lemma parse_indiv_overrun: "twt_parse_individual_twt_para b p pkt_len e = None \<longleftrightarrow> indiv_overrun b p"
proof
  assume none: "twt_parse_individual_twt_para b p pkt_len e = None"
  show "indiv_overrun b p"
  proof (rule ccontr)
    assume ok: "\<not> indiv_overrun b p"
    let ?f = "buf_bit b"
    have len: "p + 9 \<le> length b" using ok by (simp add: indiv_overrun_def)
    then have "GET_TWT_REQ_TYPE_TWT_SETUP_COMMAND (p + 3) b = Some (cut_bits ?f (8 * (p + 3) + 1) 3)"
      using le2.get_inside [of "p + 3" b 1 3] by (simp add: twt_macros)
    then have "p + 9 + wake_len (cut_bits ?f (8 * (p + 3) + 1) 3) \<le> length b"
      using ok len cut_three [of ?f "8 * (p + 3) + 1"] by (auto simp: indiv_overrun_def wake_len_def twt_macros split: if_splits)
    from parse_indiv_at [OF this, of pkt_len e] show False using none by (simp add: of_bits_buf_bit)
  qed
next
  assume over: "indiv_overrun b p"
  show "twt_parse_individual_twt_para b p pkt_len e = None"
  proof (rule ccontr)
    assume "twt_parse_individual_twt_para b p pkt_len e \<noteq> None"
    then obtain r where r: "twt_parse_individual_twt_para b p pkt_len e = Some r" by auto
    then have len: "p + 9 \<le> length b"
      by (auto simp: twt_parse_individual_twt_para_def twt_macros Let_def bind_eq_Some_conv dest!: get_SomeD split: if_splits)
    obtain c where c: "LE_BITS_TO_2BYTE (p + 3) (Suc 0) 3 b = Some c" using le2.get_inside [of "p + 3" b 1 3] len by auto
    then have c': "LE_BITS_TO_2BYTE (Suc (Suc (Suc p))) (Suc 0) 3 b = Some c" by (simp add: numeral_3_eq_3)
    have "p + 17 \<le> length b" if "c \<noteq> 3"
      using r that
      by (auto simp: twt_parse_individual_twt_para_def twt_macros Let_def bind_eq_Some_conv c' ucast_three dest!: get_SomeD split: if_splits)
    then show False using over len c by (auto simp: indiv_overrun_def twt_macros split: if_splits)
  qed
qed

lemma parse_btwt_para_None:
  assumes "9 \<le> len" "length b < p + 9"
  shows "twt_parse_btwt_para b p len q r = None"
proof -
  have "GET_BTWT_PRSTNC (p + 7) b = None" using assms(2) by (simp add: twt_macros)
  then show ?thesis
    using assms(1) by (auto simp: twt_parse_btwt_para_def twt_macros Let_def bind_eq_None_conv not_less)
qed

lemma parse_loop_overrun:
  assumes "unat rlen + 9 * k < 256" "k = MAX_BTWT_PARA_SET - i"
  shows "parse_btwt_loop b buf i e rlen rem = None \<longleftrightarrow> btwt_overrun k b (buf + unat rlen) (unat rem)"
  using assms
proof (induction k arbitrary: i e rlen rem)
  case 0
  then show ?case by (subst parse_btwt_loop.simps) simp
next
  case (Suc k)
  let ?f = "buf_bit b" and ?q = "buf + unat rlen"
  have i: "\<not> MAX_BTWT_PARA_SET \<le> i" "k = MAX_BTWT_PARA_SET - (i + 1)" using Suc.prems(2) by simp_all
  consider (short) "\<not> 9 \<le> rem" | (out) "9 \<le> rem" "length b < ?q + 9" | (inside) "9 \<le> rem" "?q + 9 \<le> length b" by linarith
  then show ?case
  proof cases
    case short
    then have "(ucast rem :: u16) < 9" "\<not> 9 \<le> unat rem" by (simp_all add: word_less_nat_alt word_le_nat_alt)
    then show ?thesis by (subst parse_btwt_loop.simps) (auto simp: twt_parse_btwt_para_def twt_macros Let_def)
  next
    case out
    then have "(9 :: u16) \<le> ucast rem" "9 \<le> unat rem" by (simp_all add: word_le_nat_alt)
    then show ?thesis using out(2) i(1) by (subst parse_btwt_loop.simps) (simp add: parse_btwt_para_None)
  next
    case inside
    then have w: "(9 :: u16) \<le> ucast rem" "9 \<le> unat rem" by (simp_all add: word_le_nat_alt)
    have para: "twt_parse_btwt_para b ?q (ucast rem) x 0 =
        Some (RTW_PHL_STATUS_SUCCESS, btwt_at ?f ?q (b_target_wake_t_h x), 9)" for x
      using parse_btwt_at [OF inside(2) w(1), of ?f] by (simp add: of_bits_buf_bit)
    have lst: "GET_BTWT_REQ_TYPE_LST_BC_PARA_SET ?q b = Some (cut_bits ?f (8 * ?q + 5) 1)"
      using le1.get_inside [of ?q b 5 1] inside(2) by (simp add: twt_macros)
    have u: "unat (rlen + 9) = unat rlen + 9" "unat (rem - 9) = unat rem - 9"
      using Suc.prems(1) w inside(1) by (simp_all add: unat_word_ariths unat_sub)
    have ih: "parse_btwt_loop b buf (i + 1) e' (rlen + 9) (rem - 9) = None \<longleftrightarrow>
        btwt_overrun k b (?q + 9) (unat rem - 9)" for e'
      using Suc.IH [of "rlen + 9" "i + 1" e' "rem - 9"] Suc.prems(1) i(2) u by (simp add: add.assoc)
    have stop: "rem - 9 < 9 \<Longrightarrow> \<not> btwt_overrun k b (?q + 9) (unat rem - 9)"
      using u(2) by (cases k) (simp_all add: word_less_nat_alt)
    show ?thesis
      using i(1) w(2) inside(2) para lst ih stop
      by (subst parse_btwt_loop.simps) (auto simp: Let_def btwt_at_def twt_macros)
  qed
qed

text \<open>
  C39. The packet length does not protect the parser. It reads behind the packet exactly when the packet ends before the control
  byte of the element, or ends before the last field of an individual element, or before the end of a broadcast parameter set that is
  read: the announced element length (0 counts as 255 bytes of parameters) allows it and no set before it is the last. The
  packet length that the caller passes makes no difference.
\<close>

theorem twt_parse_ignores_length:
  "rtw_phl_twt_parse_element True b p pkt_len e = None \<longleftrightarrow>
     length b < p + 3 \<or>
     (if GET_TWT_CONTROL_NEGOTIATION_TYPE (p + 2) b = Some 0 then indiv_overrun b p
      else if GET_TWT_CONTROL_NEGOTIATION_TYPE (p + 2) b \<in> {Some 2, Some 3}
      then btwt_overrun 3 b (p + 3) (if b ! (p + 1) = 0 then 255 else unat (b ! (p + 1)) - 1)
      else False)"
proof (cases "p + 3 \<le> length b")
  case False
  then have "GET_TWT_CONTROL_NEGOTIATION_TYPE (p + 2) b = None" by (simp add: twt_macros)
  then have "parse_control b (p + 2) = None" by (auto simp: parse_control_def bind_eq_None_conv)
  then have "rtw_phl_twt_parse_element True b p pkt_len e = None"
    by (auto simp: rtw_phl_twt_parse_element_def twt_macros Let_def bind_eq_None_conv simp del: One_nat_def)
  then show ?thesis using False by simp
next
  case True
  let ?f = "buf_bit b"
  have b: "of_bits (length b) ?f = b" by (rule of_bits_buf_bit)
  have n: "p + 1 < length b" using True by simp
  have m: "unat (b ! (p + 1) - 1) = (if b ! (p + 1) = 0 then 255 else unat (b ! (p + 1)) - 1)"
    by (simp add: unat_minus_one unsigned_minus_1_eq_mask mask_eq_exp_minus_1)
  let ?o = "btwt_overrun 3 b (p + 3) (if b ! (p + 1) = 0 then 255 else unat (b ! (p + 1)) - 1)"
  have l: "parse_btwt_loop b (p + 3) 0 e' 0 (b ! (p + 1) - 1) = None \<longleftrightarrow> ?o" for e'
  proof -
    have "unat (0 :: u8) + 9 * 3 < 256" "3 = MAX_BTWT_PARA_SET - 0" by (simp_all add: twt_macros)
    from parse_loop_overrun [OF this, of b "p + 3" e' "b ! (p + 1) - 1"] show ?thesis
      unfolding m unat_0 add_0_right .
  qed
  let ?c = "ctrl_at ?f (p + 2)"
  note el = parse_element_at [OF True, of ?f pkt_len e, unfolded b length_at [OF n]]
  have "rtw_phl_twt_parse_element True b p pkt_len e = None \<longleftrightarrow>
      (if nego_type ?c = RTW_PHL_INDIV_TWT then indiv_overrun b p
       else if nego_type ?c = RTW_PHL_BCAST_TWT \<or> nego_type ?c = RTW_PHL_MANAGE_BCAST_TWT then ?o else False)"
    unfolding el Let_def by (simp add: parse_indiv_overrun l del: One_nat_def)
  then show ?thesis
    unfolding nego_at [OF True] insert_iff empty_iff option.inject nego_cases [OF refl, of ?f "p + 2"]
    using True by simp
qed

theorem twt_parse_ignores_length_witness:
  "rtw_phl_twt_parse_element True [216, 0, 8] 0 100 elem0 = None \<and>
   rtw_phl_twt_parse_element True ([216, 15, 0] @ replicate 13 0) 0 16 elem0 = None"
proof -
  have "GET_TWT_CONTROL_NEGOTIATION_TYPE (0 + 2) [216, 0, 8] = Some 2" by code_simp
  moreover have "GET_TWT_CONTROL_NEGOTIATION_TYPE (0 + 2) ([216, 15, 0] @ replicate 13 0) = Some 0"
    "GET_TWT_REQ_TYPE_TWT_SETUP_COMMAND (0 + 3) ([216, 15, 0] @ replicate 13 0) = Some 0" by code_simp+
  ultimately show ?thesis unfolding twt_parse_ignores_length by (simp add: indiv_overrun_def numeral_3_eq_3)
qed

subsection \<open>Flow field\<close>

lemma parse_flow_at:
  assumes "p + 1 \<le> n" "cut_bits h (8 * p + 5) 2 = flow_nego_type f" "cut_bits h (8 * p + 7) 1 = flow_info1 f"
    "flow_nego_type f = RTW_PHL_MANAGE_BCAST_TWT \<Longrightarrow> cut_bits h (8 * p) 5 = flow_info0 f"
    "flow_nego_type f = RTW_PHL_INDIV_TWT \<or> flow_nego_type f = RTW_PHL_WAKE_TBTT_INR \<Longrightarrow> cut_bits h (8 * p) 3 = flow_info0 f"
    "flow_nego_type f \<noteq> RTW_PHL_BCAST_TWT" "fits 2 (flow_nego_type f)"
  shows "rtw_phl_twt_parse_flow_field True (of_bits n h) p pkt_len f0 = Some (RTW_PHL_STATUS_SUCCESS, f)"
  using assms two_bits [OF assms(7)]
  by (cases f, cases f0) (auto simp: rtw_phl_twt_parse_flow_field_def twt_macros Let_def simp del: One_nat_def)

text \<open>
  Round trip of the flow field of teardown frames: for individual TWT, wake intervals and broadcast memberships the
  parser gets back what was filled in; a teardown of type broadcast TWT, which the driver fills in with
  success, is refused by the parser.
\<close>

theorem twt_flow_roundtrip:
  assumes "p < length b" "fits 2 (flow_nego_type f)" "fits 1 (flow_info1 f)"
    "fits (if flow_nego_type f = RTW_PHL_MANAGE_BCAST_TWT then 5 else 3) (flow_info0 f)"
  shows "\<exists>b1. rtw_phl_twt_fill_flow_field True f p b len0 = Some (RTW_PHL_STATUS_SUCCESS, b1, 1) \<and> length b1 = length b \<and>
    rtw_phl_twt_parse_flow_field True b1 p 1 f0 =
      Some (if flow_nego_type f = RTW_PHL_BCAST_TWT then (RTW_PHL_STATUS_FAILURE, f0\<lparr>flow_nego_type := RTW_PHL_BCAST_TWT\<rparr>)
            else (RTW_PHL_STATUS_SUCCESS, f))"
proof -
  define g where "g = buf_bit b"
  have b: "b = of_bits (length b) g" by (simp add: g_def of_bits_buf_bit)
  have p: "p + 1 \<le> length b" using assms(1) by simp
  let ?h = "\<lambda>l. paste (8 * p + 7) 1 (bit (flow_info1 f)) (paste (8 * p + 5) 2 (bit (ucast (flow_nego_type f) :: u8))
    (paste (8 * p) l (bit (flow_info0 f)) g))"
  define l :: nat where "l = (if flow_nego_type f = RTW_PHL_MANAGE_BCAST_TWT then 5 else 3)"
  have "l = 5 \<or> l = 3" "fits l (flow_info0 f)" using assms(4) by (simp_all add: l_def)
  then have h: "cut_bits (?h l) (8 * p + 5) 2 = flow_nego_type f" "cut_bits (?h l) (8 * p + 7) 1 = flow_info1 f"
    "cut_bits (?h l) (8 * p) l = flow_info0 f"
    using assms(2,3) by (auto simp: cut_off simp del: One_nat_def)
  show ?thesis
  proof (cases "flow_nego_type f = RTW_PHL_BCAST_TWT")
    case True
    let ?g = "paste (8 * p + 5) 2 (bit (ucast (flow_nego_type f) :: u8)) g"
    have "cut_bits ?g (8 * p + 5) 2 = flow_nego_type f" using assms(2) by simp
    moreover have "rtw_phl_twt_fill_flow_field True f p b len0 = Some (RTW_PHL_STATUS_SUCCESS, of_bits (length b) ?g, 1)"
      using True p by (subst b) (simp add: rtw_phl_twt_fill_flow_field_def twt_macros)
    ultimately show ?thesis
      using True p by (simp add: rtw_phl_twt_parse_flow_field_def twt_macros Let_def)
  next
    case False
    have "rtw_phl_twt_fill_flow_field True f p b len0 = Some (RTW_PHL_STATUS_SUCCESS, of_bits (length b) (?h l), 1)"
      using False p two_bits [OF assms(2)]
      by (subst b) (auto simp: rtw_phl_twt_fill_flow_field_def l_def twt_macros simp del: One_nat_def)
    moreover have "rtw_phl_twt_parse_flow_field True (of_bits (length b) (?h l)) p 1 f0 = Some (RTW_PHL_STATUS_SUCCESS, f)"
      using h False by (intro parse_flow_at [OF p _ _ _ _ _ assms(2)]) (auto simp: l_def twt_macros)
    ultimately show ?thesis using False by simp
  qed
qed

theorem twt_flow_roundtrip_witness:
  "\<exists>b1. rtw_phl_twt_fill_flow_field True \<lparr>flow_nego_type = 3, flow_info0 = 17, flow_info1 = 1\<rparr> 2 [0, 0, 0] 0 =
      Some (RTW_PHL_STATUS_SUCCESS, b1, 1) \<and>
    rtw_phl_twt_parse_flow_field True b1 2 1 \<lparr>flow_nego_type = 0, flow_info0 = 0, flow_info1 = 0\<rparr> =
      Some (RTW_PHL_STATUS_SUCCESS, \<lparr>flow_nego_type = 3, flow_info0 = 17, flow_info1 = 1\<rparr>)"
  using twt_flow_roundtrip [of 2 "[0, 0, 0]" "\<lparr>flow_nego_type = 3, flow_info0 = 17, flow_info1 = 1\<rparr>" 0
      "\<lparr>flow_nego_type = 0, flow_info0 = 0, flow_info1 = 0\<rparr>"] by (auto simp: twt_macros)

subsection \<open>Information field\<close>

definition info_len :: "rtw_phl_twt_info_f \<Rightarrow> nat" where
  "info_len f = 1 + unat (get_next_twt_subfield_size_bit (next_twt_size f)) div 8"

lemma parse_info_at:
  assumes "p + 1 \<le> n" "1 \<le> pkt_len" "1 + ucast (get_next_twt_subfield_size_bit (next_twt_size f) div 8) \<le> pkt_len"
    "cut_bits h (8 * p) 3 = info_twt_flow_id f" "cut_bits h (8 * p + 3) 1 = rsp_req f" "cut_bits h (8 * p + 4) 1 = next_twt_req f"
    "cut_bits h (8 * p + 5) 2 = next_twt_size f" "cut_bits h (8 * p + 7) 1 = all_twt f"
  shows "rtw_phl_twt_parse_info_field (of_bits n h) p pkt_len f0 =
    (if next_twt_size f = 0 then Some (RTW_PHL_STATUS_SUCCESS, f\<lparr>next_twt := next_twt f0\<rparr>)
     else map_option (\<lambda>v. (RTW_PHL_STATUS_SUCCESS, f\<lparr>next_twt := v\<rparr>))
       (GET_TWT_INFO_NEXT_TWT p (get_next_twt_subfield_size_bit (next_twt_size f)) (of_bits n h)))"
proof -
  have "\<not> pkt_len < 1" "\<not> pkt_len < 1 + ucast (get_next_twt_subfield_size_bit (next_twt_size f) div 8)"
    by (simp_all only: not_less assms(2,3))
  then show ?thesis
    using assms(1,4-8) by (cases f, cases f0)
      (simp add: rtw_phl_twt_parse_info_field_def twt_macros Let_def map_conv_bind_option comp_def
         del: One_nat_def word_less_1)
qed

definition info_flag_bits :: "rtw_phl_twt_info_f \<Rightarrow> nat \<Rightarrow> (nat \<Rightarrow> bool) \<Rightarrow> nat \<Rightarrow> bool" where
  "info_flag_bits f s g = paste (s + 4) 1 (bit (next_twt_req f)) (paste (s + 7) 1 (bit (all_twt f))
     (paste (s + 3) 1 (bit (rsp_req f)) (paste s 3 (bit (info_twt_flow_id f)) g)))"

definition info_bits :: "rtw_phl_twt_info_f \<Rightarrow> nat \<Rightarrow> (nat \<Rightarrow> bool) \<Rightarrow> nat \<Rightarrow> bool" where
  "info_bits f s g =
     (if next_twt_size f = 0 then info_flag_bits f s g
      else let lo = paste (s + 8) 32 (bit (ucast (next_twt f AND 0xFFFFFFFF) :: u32))
                      (paste (s + 5) 2 (bit (next_twt_size f)) (info_flag_bits f s g))
           in if next_twt_size f = 1 then lo
              else paste (s + 40) 16 (bit (ucast (drop_bit 32 (next_twt f) AND 0xFFFFFFFF) :: u32)) lo)"

lemma paste_narrow: "l \<le> LENGTH('a) \<Longrightarrow> l \<le> LENGTH('b) \<Longrightarrow>
    paste s l (bit (ucast (v :: 'c::len word) :: 'a::len word)) f = paste s l (bit (ucast v :: 'b::len word)) f"
  by (rule ext) (auto simp: paste_def bit_simps)

lemma fill_info_bits:
  assumes "p + info_len f \<le> n" "fits 2 (next_twt_size f)"
  shows "rtw_phl_twt_fill_info_field f p (of_bits n g) =
    Some (RTW_PHL_STATUS_SUCCESS, of_bits n (info_bits f (8 * p) g), of_nat (info_len f))"
proof -
  have p: "p + 1 \<le> n" using assms(1) by (simp add: info_len_def)
  have n: "paste s 16 (bit (ucast (v :: u64) :: u16)) h = paste s 16 (bit (ucast v :: u32)) h" for s h v by (rule paste_narrow) simp_all
  consider "next_twt_size f = 0" | "next_twt_size f = 1" | "next_twt_size f = 2" | "next_twt_size f = 3"
    using two_bits [OF assms(2)] by blast
  then show ?thesis
    using assms(1) p
    by cases (simp_all add: rtw_phl_twt_fill_info_field_def twt_macros info_bits_def info_flag_bits_def info_len_def Let_def
        get_next_twt_subfield_size_bit_def SET_TWT_INFO_NEXT_TWT_def add_mult_distrib2 n del: One_nat_def)
qed

lemma info_bits_flags:
  assumes "fits 3 (info_twt_flow_id f)" "fits 1 (rsp_req f)" "fits 1 (next_twt_req f)" "fits 1 (all_twt f)" "fits 2 (next_twt_size f)"
  shows "cut_bits (info_bits f s g) s 3 = info_twt_flow_id f" "cut_bits (info_bits f s g) (s + 3) 1 = rsp_req f"
    "cut_bits (info_bits f s g) (s + 4) 1 = next_twt_req f" "cut_bits (info_bits f s g) (s + 7) 1 = all_twt f"
    "cut_bits (info_bits f s g) (s + 5) 2 = (if next_twt_size f = 0 then cut_bits g (s + 5) 2 else next_twt_size f)"
  using assms by (simp_all add: info_bits_def info_flag_bits_def Let_def cut_off del: One_nat_def)

lemma info_bits_next:
  assumes "p + info_len f \<le> n" "fits 2 (next_twt_size f)" "next_twt_size f \<noteq> 0"
  shows "GET_TWT_INFO_NEXT_TWT p (get_next_twt_subfield_size_bit (next_twt_size f)) (of_bits n (info_bits f (8 * p) g)) =
    Some (if next_twt_size f = 1 then take_bit 32 (next_twt f)
      else take_bit 48 (next_twt f) OR (if next_twt_size f = 2 then 0 else push_bit 48 (cut_bits g (8 * p + 56) 16)))"
proof -
  have m: "(0xFFFFFFFF :: u64) = mask 32" by (simp add: mask_eq_exp_minus_1)
  have x: "cut_bits (bit (ucast (v AND 0xFFFFFFFF) :: u32)) 0 32 = take_bit 32 v"
    "push_bit 32 (cut_bits (bit (ucast (drop_bit 32 v AND 0xFFFFFFFF) :: u32)) 0 16) OR
      take_bit 32 v = take_bit 48 v"
    "push_bit 32 (cut_bits (paste s 16 (bit (ucast (drop_bit 32 v AND 0xFFFFFFFF) :: u32)) h) s 32) OR
      take_bit 32 v = take_bit 48 v OR push_bit 48 (cut_bits h (s + 16) 16)"
    for s h and v :: u64
    unfolding m by (rule bit_word_eqI, case_tac "n < 32", auto simp: bit_simps paste_def le_iff_add not_less ac_simps)+
  consider "next_twt_size f = 1" | "next_twt_size f = 2" | "next_twt_size f = 3" using two_bits [OF assms(2)] assms(3) by blast
  then show ?thesis
    using assms(1)
    by cases (simp_all add: x info_bits_def info_flag_bits_def info_len_def Let_def get_next_twt_subfield_size_bit_def
        GET_TWT_INFO_NEXT_TWT_def cut_off add_mult_distrib2 add.assoc del: One_nat_def cut_bit)
qed

text \<open>
  C40. Round trip of the information field: all flags, and a next wake time of 32 or 48 bits, come back; with no next wake
  time this needs a buffer that was cleared, because the size 0 is not written. Of a next wake time of 64 bits only
  the low 48 bits are written: the parser finds the high 16 bits in what was in the buffer before.
\<close>

theorem twt_info_roundtrip:
  assumes "fits 3 (info_twt_flow_id f)" "fits 1 (rsp_req f)" "fits 1 (next_twt_req f)" "fits 1 (all_twt f)" "fits 2 (next_twt_size f)"
    "p + info_len f \<le> length b" "next_twt_size f = 0 \<Longrightarrow> GET_TWT_INFO_NEXT_TWT_SIZE p b = Some 0"
  shows "\<exists>b1 len. rtw_phl_twt_fill_info_field f p b = Some (RTW_PHL_STATUS_SUCCESS, b1, len) \<and> unat len = info_len f \<and>
    rtw_phl_twt_parse_info_field b1 p len f0 = Some (RTW_PHL_STATUS_SUCCESS, f\<lparr>next_twt :=
      (if next_twt_size f = 0 then next_twt f0 else if next_twt_size f = 1 then take_bit 32 (next_twt f)
       else take_bit 48 (next_twt f) OR (if next_twt_size f = 2 then 0 else push_bit 48 (cut_bits (buf_bit b) (8 * p + 56) 16)))\<rparr>)"
proof -
  define g where "g = buf_bit b"
  have b: "b = of_bits (length b) g" by (simp add: g_def of_bits_buf_bit)
  have p: "p + 1 \<le> length b" using assms(6) by (simp add: info_len_def)
  have z: "cut_bits g (8 * p + 5) 2 = next_twt_size f" if "next_twt_size f = 0"
    using assms(7) [OF that] that p le1.get_inside [of p b 5 2] by (simp add: twt_macros g_def)
  have l: "unat (of_nat (info_len f) :: u16) = info_len f" "1 + ucast (get_next_twt_subfield_size_bit (next_twt_size f) div 8) = (of_nat (info_len f) :: u16)"
    "1 \<le> (of_nat (info_len f) :: u16)"
    by (simp_all add: info_len_def get_next_twt_subfield_size_bit_def)
  note fl = info_bits_flags [OF assms(1-5), of "8 * p" g]
  have "rtw_phl_twt_fill_info_field f p b = Some (RTW_PHL_STATUS_SUCCESS, of_bits (length b) (info_bits f (8 * p) g), of_nat (info_len f))"
    using fill_info_bits [OF assms(6,5), of g] b by simp
  moreover have "rtw_phl_twt_parse_info_field (of_bits (length b) (info_bits f (8 * p) g)) p (of_nat (info_len f)) f0 =
      (if next_twt_size f = 0 then Some (RTW_PHL_STATUS_SUCCESS, f\<lparr>next_twt := next_twt f0\<rparr>)
       else map_option (\<lambda>v. (RTW_PHL_STATUS_SUCCESS, f\<lparr>next_twt := v\<rparr>))
         (GET_TWT_INFO_NEXT_TWT p (get_next_twt_subfield_size_bit (next_twt_size f)) (of_bits (length b) (info_bits f (8 * p) g))))"
    using p l fl z by (intro parse_info_at) auto
  ultimately show ?thesis using l(1) info_bits_next [OF assms(6,5), of g] by (auto simp: g_def)
qed


theorem twt_info_roundtrip_witness:
  "\<exists>b1. rtw_phl_twt_fill_info_field
      \<lparr>info_twt_flow_id = 5, rsp_req = 1, next_twt_req = 0, next_twt_size = 3, all_twt = 0, next_twt = 0x1234567890ABCDEF\<rparr> 1
      (replicate 10 0) = Some (RTW_PHL_STATUS_SUCCESS, b1, 9) \<and>
    rtw_phl_twt_parse_info_field b1 1 9
      \<lparr>info_twt_flow_id = 0, rsp_req = 0, next_twt_req = 0, next_twt_size = 0, all_twt = 0, next_twt = 0\<rparr> =
      Some (RTW_PHL_STATUS_SUCCESS,
        \<lparr>info_twt_flow_id = 5, rsp_req = 1, next_twt_req = 0, next_twt_size = 3, all_twt = 0, next_twt = 0x567890ABCDEF\<rparr>)"
proof -
  let ?f = "\<lparr>info_twt_flow_id = 5, rsp_req = 1, next_twt_req = 0, next_twt_size = 3, all_twt = 0, next_twt = 0x1234567890ABCDEF\<rparr>"
  let ?z = "\<lparr>info_twt_flow_id = 0, rsp_req = 0, next_twt_req = 0, next_twt_size = 0, all_twt = 0, next_twt = 0\<rparr>"
  have l: "info_len ?f = 9" by code_simp
  have z: "cut_bits (buf_bit (replicate 10 0)) (8 * 1 + 56) 16 = (0 :: u64)"
    by (rule bit_word_eqI) (auto simp: buf_bit_def)
  from l obtain b1 len where
    r: "rtw_phl_twt_fill_info_field ?f 1 (replicate 10 0) = Some (RTW_PHL_STATUS_SUCCESS, b1, len)" "unat len = 9"
      "rtw_phl_twt_parse_info_field b1 1 len ?z = Some (RTW_PHL_STATUS_SUCCESS, ?f\<lparr>next_twt := take_bit 48 0x1234567890ABCDEF\<rparr>)"
    using twt_info_roundtrip [of ?f 1 "replicate 10 0" ?z] z by auto
  have "len = 9" using r(2) by (simp add: word_unat_eq_iff)
  then show ?thesis using r by auto
qed

end
