(* ===== verification/Spec2Isabelle.thy ===== *)
theory Spec2Isabelle
  imports Phl_Rx_Data Phl_Msg_Hub Phl_Pkt_Ofld Phl_Chanctx_Ops Phl_Dispr_Success Phl_Twt_Props
begin

text \<open>
  A verification library for the PHL layer of the Realtek RTL8851BU/RTL8831BU USB WLAN driver.

  \<^bold>\<open>The program.\<close> The driver has three layers: the core and the OS glue (\<^verbatim>\<open>src/core\<close>, \<^verbatim>\<open>src/os_dep\<close>), the
  physical link layer PHL (\<^verbatim>\<open>src/phl\<close>), which keeps queues, sessions, station ids and the control of the
  hardware, and the HAL with its MAC part (\<^verbatim>\<open>src/phl/hal_g6\<close>), which talks to the firmware. The library
  models parts of PHL and of the MAC part, in the configuration the repository builds (USB, command
  dispatcher on, \<^verbatim>\<open>CONFIG_FSM\<close> and TDLS off, no batch indication).

  \<^bold>\<open>Theories and sources.\<close>
  \<^item> \<^verbatim>\<open>Phl_Prelude\<close>: integer types as words, status codes (\<^verbatim>\<open>phl_status.h\<close>), generic lemmas on words,
    lists and arrays of pointers.
  \<^item> \<^verbatim>\<open>Phl_List\<close>, \<^verbatim>\<open>Phl_Queue\<close>: the intrusive lists of \<^verbatim>\<open>phl_list.h\<close> on an explicit heap of next and prev
    pointers, and the queues of \<^verbatim>\<open>phl_util.c\<close>, once at pointer level (\<open>hpq_*\<close>) and once on lists
    (\<open>pq_*\<close>); the pointer code refines the list code, and a locale for FIFO queues is interpreted on both.
  \<^item> \<^verbatim>\<open>Phl_Stats\<close>: elapsed time (\<^verbatim>\<open>phl_util.c\<close>), byte counters, throughput and traffic level of
    \<^verbatim>\<open>phl_rx.c\<close> and \<^verbatim>\<open>phl_tx.c\<close>.
  \<^item> \<^verbatim>\<open>Phl_Reorder\<close>: the block-ack reordering of one TID, \<^verbatim>\<open>phl_rx.c\<close> from \<^verbatim>\<open>seq_less\<close> to
    \<^verbatim>\<open>phl_manage_sta_reorder_buf\<close>, on 12-bit sequence numbers in 16-bit words.
  \<^item> \<^verbatim>\<open>Phl_Rx_Ring\<close>: the ring between PHL and the core and the pool of packet structures.
  \<^item> \<^verbatim>\<open>Phl_Rx_Data\<close>: the receive data path above them (\<^verbatim>\<open>phl_rx.c\<close>, \<^verbatim>\<open>phl_rx_agg.c\<close>): stations, reordering,
    delivery and events, reorder timers, block-ack sessions.
  \<^item> \<^verbatim>\<open>Phl_Macid\<close>: allocation, release and queries of MAC ids (\<^verbatim>\<open>phl_sta.c\<close>, \<^verbatim>\<open>phl_util.h\<close>).
  \<^item> \<^verbatim>\<open>Phl_Msg_Hub\<close>: the message hub (\<^verbatim>\<open>phl_msg_hub.c\<close>): pool, queues and semaphore, with its thread,
    the senders, the stopper and the registrations as interleaved steps of \<open>hub_step\<close>.
  \<^item> \<^verbatim>\<open>Mac_Pkt_Ofld\<close>: packet offload in the MAC layer (\<^verbatim>\<open>fwofld.c\<close>, the C2H handlers of \<^verbatim>\<open>fwcmd.c\<close>, the
    polling operations of \<^verbatim>\<open>hal_api_mac.c\<close>): the id bitmap with its counters and the state machine of a
    command.
  \<^item> \<^verbatim>\<open>Pkt_Frames\<close>: the frames PHL constructs for offload (\<^verbatim>\<open>phl_pkt_ofld.c\<close>, \<^verbatim>\<open>phl_pkt_ofld.h\<close>), byte by
    byte, with writes outside a buffer as \<open>None\<close>.
  \<^item> \<^verbatim>\<open>Phl_Pkt_Ofld\<close>: entries, slots and requests of packet offload (\<^verbatim>\<open>phl_pkt_ofld.c\<close>) over a record of HAL
    operations; the locale \<open>pkt_hal\<close> states what PHL relies on, and its interpretation \<open>mh\<close> shows that
    the operations of \<^verbatim>\<open>Mac_Pkt_Ofld\<close> provide it.
  \<^item> \<^verbatim>\<open>Phl_Chan\<close>: channel definitions (\<^verbatim>\<open>phl_chan.c\<close>, \<^verbatim>\<open>phl_def.h\<close>, \<^verbatim>\<open>rtw_general_def.h\<close>): grouping, adjusting,
    centre channel, frequency range, operating classes.
  \<^item> \<^verbatim>\<open>Phl_Chanctx\<close>: the channel contexts of the hardware bands (\<^verbatim>\<open>phl_chan.c\<close>, \<^verbatim>\<open>phl_mr.c\<close>, \<^verbatim>\<open>phl_mr.h\<close>) as a
    store of contexts, a queue per band, the pointers of the role links and the reference counts of
    the sub-bands. \<^verbatim>\<open>Phl_Chanctx_Inv\<close> has the invariant and its elementary moves, \<^verbatim>\<open>Phl_Chanctx_Ops\<close> the
    pointer-free band (\<open>spec_add\<close>, \<open>spec_leave\<close>), the locale \<open>role_channel\<close> of what a role relies on
    with its interpretation \<open>rc\<close>, and the histories \<open>chanctx_step\<close>.
  \<^item> \<^verbatim>\<open>Phl_Msg\<close>, \<^verbatim>\<open>Phl_Dispr\<close>: the command dispatcher of one band (\<^verbatim>\<open>phl_cmd_dispatcher.c\<close>, \<^verbatim>\<open>phl_cmd_dispatch.h\<close>,
    the message fields of \<^verbatim>\<open>phl_def.h\<close>): message and request pools with their queues, the token, token operations, module registration, the two phases
    of a dispatch, cancelling, aborting, pending messages, starting and stopping. \<^verbatim>\<open>Phl_Dispr_Inv\<close> has the invariant
    \<open>dispr_ok\<close> and the locales \<open>untouched\<close> to \<open>untouched_msgs\<close> (a view of the state that the primitives leave alone is left
    alone by all operations built from them; interpreted as \<open>fx\<close>, \<open>stop\<close>, \<open>lo\<close>, \<open>pe\<close> and \<open>fe\<close>); \<^verbatim>\<open>Phl_Dispr_Run\<close> shows that the
    operations and an iteration of the thread keep the invariant; \<^verbatim>\<open>Phl_Dispr_Life\<close> has the phases of the life of a
    dispatcher, the drain loops of the leave handler, the locale \<open>outside_call\<close> of calls by other threads with an
    interpretation for each of them, and the runs \<open>dispr_run\<close>; \<^verbatim>\<open>Phl_Dispr_Props\<close> the properties over all runs and of the
    error paths; \<^verbatim>\<open>Phl_Dispr_Order\<close> the order of a dispatch; \<^verbatim>\<open>Phl_Dispr_Success\<close> the exact calls of a dispatch in
    which all handlers succeed.
  \<^item> \<^verbatim>\<open>Le_Bits\<close>, \<^verbatim>\<open>Twt_Fields\<close>, \<^verbatim>\<open>Phl_Twt\<close>, \<^verbatim>\<open>Phl_Twt_Props\<close>: the bit field macros of \<^verbatim>\<open>basic_types.h\<close>, with the locale
    \<open>le_field\<close> of what their three widths have in common (interpretations \<open>le1\<close>, \<open>le2\<close>, \<open>le4\<close>), the fields of
    \<^verbatim>\<open>phl_twt.h\<close>, and filling and parsing of target wake time elements, flow and information fields
    (\<^verbatim>\<open>phl_twt.c\<close>).
  \<^item> this theory: a property that spans the three packet offload theories.

  \<^bold>\<open>Modelling.\<close> Structures are records, integers are words of their width, arrays of pointers are lists of
  options, errors are the status codes of the source, and the effects of the environment (allocation,
  the clock, the results of firmware commands, what the firmware sends while the driver polls) are
  arguments, so that every property holds for all of them. Operations under a lock are one step.
  Memory faults, where the code can commit them, are the value \<open>None\<close>; in the dispatcher, a use of a freed
  module or of a node that is linked already sets the field \<open>fault\<close>, and what is proved of a run describes the code
  up to the first fault. What a caller asked for (the message and completion routine of a send) is
  recorded from the arguments of the call, never from the structure it is copied to. The handlers, abort callbacks and completion routines the dispatcher calls are a list \<open>cbs\<close>:
  each has a result and the calls into the dispatcher it makes, and every property holds for all such lists.
  Other threads call the dispatcher at these callbacks and between the iterations of its thread.

  \<^bold>\<open>What is shown.\<close>
  \<^item> Receive: a session delivers in increasing sequence order and accounts for every frame exactly once, over
    any run of frames, BARs and timer ticks; the data path neither loses nor duplicates packet
    structures; frames held back always have a pending timer; tearing down returns everything; the ring is a
    FIFO of capacity 4095.
  \<^item> Ids and messages: no two live stations share a MAC id; over all interleavings every message structure
    is in exactly one place, messages complete in order, no wake-up is lost, and stopping returns.
  \<^item> Queues: the pointer code refines the list code and its loops end.
  \<^item> Packet offload: frames have exactly the bytes of their layout; the requests are reference counts, a
    packet is in the firmware exactly while requested, tokens are unique (below 2^32 of them); the MAC's id
    bitmap and counters agree under any message of the firmware; a first request reaches the firmware
    as one add command with the right frame, id and lengths.
  \<^item> Channels: adding and removing a role refine a band without pointers; over any history of adding, removing, changing and
    updating, contexts, role maps, links and counters agree and every call returns; the check predicts the
    addition; when links are synchronised and to what is characterised exactly; frequency ranges contain the primary channel
    and operating classes lead back to their channel.
  \<^item> Dispatcher: over any run every message and request structure is in exactly one place, there is one token,
    completion routines are called exactly as often as they were accepted, and the leave handler
    returns with everything idle; a message goes to the controller, down the priorities and back up again, whatever the handlers
    do, and when they all succeed these calls are exactly the modules of its maps.
  \<^item> TWT frames: elements and fields that were filled in are parsed back; the packets in which
    the parser stays inside are characterised exactly.
  \<^item> Findings: wrap-around and boundary behaviour of the code that differs from what it means to do
    (\<open>passing_time_value\<close>, \<open>reorder_wrap_collision\<close>, \<open>bar_half_space\<close>, \<open>pkt_ofld_alloc_failure_wedges\<close>,
    \<open>hal_add_reports_refused\<close>, \<open>unknown_sub_band_sticks\<close>, \<open>get_chandef_sync_deadlocks\<close>,
    \<open>shall_stop_survives_restart\<close>, \<open>register_failure_dangles\<close>, \<open>twt_parse_ignores_length\<close>,
    \<open>twt_info_roundtrip\<close>).

  \<^bold>\<open>Bounds and fuel.\<close> The reorder loops are total functions with measures. The run of the hub thread that
  \<^verbatim>\<open>phl_msg_hub_stop\<close> waits for takes at most 168 steps, which is proved to be enough; the polling loop of the
  HAL has the 100 rounds of the source. The runs of packet offload requests are shorter than 2^31
  calls, which keeps the 32-bit tokens from wrapping. The loops of the dispatcher thread are total functions; the
  two loops of its leave handler that drain a queue others may refill are partial functions, and they are proved to return.

  \<^bold>\<open>Not modelled.\<close> Transmit rings and URBs, roles and station objects beyond their ids; of the command
  dispatcher the engine that composes the dispatchers of two bands, the controller module, the job list, solo mode and
  the information exchange with modules; command objects, the table of TWT configurations, MCC and power save; the channel
  commands and the channel switch of the HAL; PHY status and sniffer parsing; regulation tables; the FSM framework, which is not compiled; register programming, calibration and firmware images, whose
  behaviour the sources do not define; the 802.11 MLME and the Linux glue above PHL.
\<close>

section \<open>From a request to the firmware\<close>




end
